(* ===== verification/Mutineer_Prelude.thy ===== *)
theory Mutineer_Prelude
  imports Main "HOL-Library.Word" "HOL-Library.Monad_Syntax"
begin

text \<open>
  Shared vocabulary of the development.

  \<^item> Type synonyms for the machine integers of the C sources (\<open>uint8_t\<close> \<dots> \<open>uint64_t\<close>).
  \<^item> Checked access to C arrays. An array is a list of its declared length; reading or writing
    outside of it is undefined behaviour, which the models make visible as \<^term>\<open>None\<close>. A
    function with an \<^typ>\<open>'a option\<close> result therefore never returns \<^term>\<open>None\<close> for any other
    reason than the C code stepping outside an object (or, where stated, recursing without end).
  \<^item> The part of \<^verbatim>\<open><ctype.h>\<close>, \<^verbatim>\<open><string.h>\<close> and \<^verbatim>\<open><stdlib.h>\<close> that several components use, in
    the C locale: \<open>isspace\<close>, \<open>isdigit\<close>, \<open>toupper\<close>, \<open>tolower\<close>, \<open>atoi\<close>, \<open>memcmp\<close>.
  \<^item> Big-endian byte strings and their inverse, used by every codec of the program.
  \<^item> Two generic interfaces: a codec that can be run in front of arbitrary further input, and a
    machine driven one input at a time.
\<close>

unbundle bit_operations_syntax

section \<open>Machine integers\<close>

type_synonym u8 = "8 word"
type_synonym u16 = "16 word"
type_synonym u32 = "32 word"
type_synonym u64 = "64 word"
type_synonym i64 = "64 word"
type_synonym f64 = "64 word"

type_synonym bytes = "u8 list"

named_theorems c_defs \<open>definitions of the C library vocabulary\<close>
named_theorems be_simps \<open>big-endian encoding facts\<close>

text \<open>The ranges of the word types, in the form the simplifier leaves numerals.\<close>

lemma unat_range [simp]:
  "unat (a :: u8) < 256" "unat (b :: u16) < 65536" "unat (c :: u32) < 4294967296"
  "unat (d :: u64) < 18446744073709551616"
  using unsigned_less [of a, where ?'a = nat] unsigned_less [of b, where ?'a = nat]
    unsigned_less [of c, where ?'a = nat] unsigned_less [of d, where ?'a = nat] by simp_all

lemma unat_ucast_up:
  assumes "LENGTH('a) \<le> LENGTH('b)"
  shows "unat (ucast (w :: 'a::len word) :: 'b::len word) = unat w"
proof -
  have "unat w < 2 ^ LENGTH('b)"
    by (rule less_le_trans [OF unsigned_less power_increasing]) (use assms in simp_all)
  then show ?thesis by (simp add: unsigned_ucast_eq take_bit_nat_eq_self)
qed

section \<open>Floating point\<close>

text \<open>
  A \<open>double\<close> is its 64-bit pattern. The arithmetic of the floating-point unit and the conversions of
  the C library are the fields of a record that the models take as a parameter.
\<close>

record float_ops =
  f_add :: "f64 \<Rightarrow> f64 \<Rightarrow> f64"
  f_sub :: "f64 \<Rightarrow> f64 \<Rightarrow> f64"
  f_mul :: "f64 \<Rightarrow> f64 \<Rightarrow> f64"
  f_div :: "f64 \<Rightarrow> f64 \<Rightarrow> f64"
  f_neg :: "f64 \<Rightarrow> f64"
  f_eq :: "f64 \<Rightarrow> f64 \<Rightarrow> bool"
  f_lt :: "f64 \<Rightarrow> f64 \<Rightarrow> bool"
  f_of_i64 :: "i64 \<Rightarrow> f64"
  f_to_i64 :: "f64 \<Rightarrow> i64 option" \<comment> \<open>\<^term>\<open>None\<close> where the conversion is undefined\<close>
  f_zero :: f64
  f_one :: f64
  f_format_g :: "f64 \<Rightarrow> bytes"
  f_strtod :: "bytes \<Rightarrow> f64 option" \<comment> \<open>\<^term>\<open>None\<close> when no characters are converted\<close>

section \<open>C arrays\<close>

definition arr_get :: "'a list \<Rightarrow> nat \<Rightarrow> 'a option" where
  "arr_get xs i = (if i < length xs then Some (xs ! i) else None)"

definition arr_set :: "'a list \<Rightarrow> nat \<Rightarrow> 'a \<Rightarrow> 'a list option" where
  "arr_set xs i v = (if i < length xs then Some (xs[i := v]) else None)"

text \<open>\<open>memcpy (dst + off, src, n)\<close>: both regions have to lie inside their objects.\<close>

definition mem_copy :: "'a list \<Rightarrow> nat \<Rightarrow> 'a list \<Rightarrow> nat \<Rightarrow> nat \<Rightarrow> 'a list option" where
  "mem_copy dst off src soff n =
     (if off + n \<le> length dst \<and> soff + n \<le> length src
      then Some (take off dst @ take n (drop soff src) @ drop (off + n) dst)
      else None)"

lemma arr_get_Some [simp]: "i < length xs \<Longrightarrow> arr_get xs i = Some (xs ! i)"
  by (simp add: arr_get_def)

lemma arr_set_Some [simp]: "i < length xs \<Longrightarrow> arr_set xs i v = Some (xs[i := v])"
  by (simp add: arr_set_def)

lemma arr_get_eq_Some_iff: "arr_get xs i = Some v \<longleftrightarrow> i < length xs \<and> xs ! i = v"
  by (auto simp: arr_get_def)

lemma arr_set_eq_Some_iff: "arr_set xs i v = Some ys \<longleftrightarrow> i < length xs \<and> ys = xs[i := v]"
  by (auto simp: arr_set_def)

lemma arr_get_eq_None_iff [simp]: "arr_get xs i = None \<longleftrightarrow> length xs \<le> i"
  by (auto simp: arr_get_def)

lemma arr_set_eq_None_iff [simp]: "arr_set xs i v = None \<longleftrightarrow> length xs \<le> i"
  by (auto simp: arr_set_def)

lemma mem_copy_Some:
  "off + n \<le> length dst \<Longrightarrow> soff + n \<le> length src \<Longrightarrow>
   mem_copy dst off src soff n =
     Some (take off dst @ take n (drop soff src) @ drop (off + n) dst)"
  by (simp add: mem_copy_def)

lemma mem_copy_length: "mem_copy dst off src soff n = Some dst' \<Longrightarrow> length dst' = length dst"
  by (auto simp: mem_copy_def split: if_splits)

lemma take_take_append: "take n (take n xs @ ys) = take n (xs @ ys)"
  by (cases "n \<le> length xs") simp_all

section \<open>Characters\<close>

text \<open>The classification functions of the C locale, on \<^typ>\<open>char\<close>.\<close>

abbreviation code :: "char \<Rightarrow> nat" where
  "code c \<equiv> of_char c"

definition c_isspace :: "char \<Rightarrow> bool" where
  [c_defs]: "c_isspace c \<longleftrightarrow> code c = 32 \<or> (9 \<le> code c \<and> code c \<le> 13)"

definition c_isdigit :: "char \<Rightarrow> bool" where
  [c_defs]: "c_isdigit c \<longleftrightarrow> 48 \<le> code c \<and> code c \<le> 57"

definition c_isupper :: "char \<Rightarrow> bool" where
  [c_defs]: "c_isupper c \<longleftrightarrow> 65 \<le> code c \<and> code c \<le> 90"

definition c_islower :: "char \<Rightarrow> bool" where
  [c_defs]: "c_islower c \<longleftrightarrow> 97 \<le> code c \<and> code c \<le> 122"

definition c_toupper :: "char \<Rightarrow> char" where
  [c_defs]: "c_toupper c = (if c_islower c then char_of (code c - 32) else c)"

definition c_tolower :: "char \<Rightarrow> char" where
  [c_defs]: "c_tolower c = (if c_isupper c then char_of (code c + 32) else c)"

lemma code_char_of [simp]: "n < 256 \<Longrightarrow> code (char_of n) = n"
  by simp

lemma c_tolower_idem [simp]: "c_tolower (c_tolower c) = c_tolower c"
  by (auto simp: c_tolower_def c_isupper_def)

lemma c_toupper_idem [simp]: "c_toupper (c_toupper c) = c_toupper c"
  by (auto simp: c_toupper_def c_islower_def)

lemma c_tolower_id: "\<not> c_isupper c \<Longrightarrow> c_tolower c = c"
  by (simp add: c_tolower_def)

text \<open>
  A NUL-terminated string is the list of its characters without the terminator. \<open>cstr_at s i\<close> is
  the read \<open>s[i]\<close> for an index up to the terminator; further reads leave the string.
\<close>

definition cstr_at :: "string \<Rightarrow> nat \<Rightarrow> char" where
  "cstr_at s i = (if i < length s then s ! i else CHR 0x00)"

lemma cstr_at_simps [simp]:
  "cstr_at [] i = CHR 0x00"
  "cstr_at (c # s) 0 = c"
  "cstr_at (c # s) (Suc i) = cstr_at s i"
  by (simp_all add: cstr_at_def)

section \<open>Numbers in text\<close>

text \<open>
  The digits \<open>atoi\<close> reads: optional white space, one optional sign, digits up to the first other
  character. The value is a \<open>C int\<close>; \<open>c_int\<close> is the conversion of a mathematical integer to a
  32-bit two's complement \<open>int\<close> (what \<open>(int) strtol (s, NULL, 10)\<close> gives on the platforms the
  program is built for, as long as the digits fit a \<open>long\<close>).
\<close>

fun digits_val :: "nat \<Rightarrow> string \<Rightarrow> nat" where
  "digits_val acc [] = acc"
| "digits_val acc (c # s) = (if c_isdigit c then digits_val (10 * acc + (code c - 48)) s else acc)"

definition c_int :: "int \<Rightarrow> int" where
  "c_int n = (n + 2 ^ 31) mod 2 ^ 32 - 2 ^ 31"

definition c_long :: "int \<Rightarrow> int" where
  \<comment> \<open>\<open>strtol\<close> saturates at the bounds of \<open>long\<close>\<close>
  "c_long n = max (- (2 ^ 63)) (min (2 ^ 63 - 1) n)"

definition c_sign :: "string \<Rightarrow> bool \<times> string" where
  "c_sign s =
     (if cstr_at s 0 = CHR ''-'' then (True, tl s)
      else if cstr_at s 0 = CHR ''+'' then (False, tl s)
      else (False, s))"

definition c_strtol :: "string \<Rightarrow> int" where
  "c_strtol s =
     (let (neg, r) = c_sign (dropWhile c_isspace s); n = int (digits_val 0 r) in
      c_long (if neg then - n else n))"

definition c_atoi :: "string \<Rightarrow> int" where
  "c_atoi s = c_int (c_strtol s)"

text \<open>
  Printing: \<open>%d\<close> and \<open>%0wd\<close> of \<open>printf\<close>. Scanning: \<open>sscanf\<close> with a format of \<open>%d\<close>, literal characters
  and white space; the result is the list of the integers that were converted.
\<close>

fun show_nat :: "nat \<Rightarrow> string" where
  "show_nat n = (if n < 10 then [char_of (48 + n)] else show_nat (n div 10) @ [char_of (48 + n mod 10)])"

declare show_nat.simps [simp del]

definition show_int :: "int \<Rightarrow> string" where
  "show_int n = (if n < 0 then CHR ''-'' # show_nat (nat (- n)) else show_nat (nat n))"

definition show_int_pad :: "nat \<Rightarrow> int \<Rightarrow> string" where
  "show_int_pad w n =
     (if n < 0
      then CHR ''-'' # replicate (w - 1 - length (show_nat (nat (- n)))) CHR ''0'' @ show_nat (nat (- n))
      else replicate (w - length (show_nat (nat n))) CHR ''0'' @ show_nat (nat n))"

datatype scan_item = ScanInt | ScanChar char | ScanSpace

definition scan_int :: "string \<Rightarrow> (int \<times> string) option" where
  "scan_int s =
     (let s = dropWhile c_isspace s;
          (neg, r) = c_sign s;
          n = int (digits_val 0 r)
      in if r = [] \<or> \<not> c_isdigit (hd r) then None
         else Some (c_int (c_long (if neg then - n else n)), dropWhile c_isdigit r))"

fun c_sscanf :: "scan_item list \<Rightarrow> string \<Rightarrow> int list" where
  "c_sscanf [] s = []"
| "c_sscanf (ScanInt # fs) s = (case scan_int s of None \<Rightarrow> [] | Some (n, r) \<Rightarrow> n # c_sscanf fs r)"
| "c_sscanf (ScanChar c # fs) s = (case s of [] \<Rightarrow> [] | d # r \<Rightarrow> if d = c then c_sscanf fs r else [])"
| "c_sscanf (ScanSpace # fs) s = c_sscanf fs (dropWhile c_isspace s)"

lemma c_int_range: "- (2 ^ 31) \<le> c_int n \<and> c_int n < 2 ^ 31"
proof -
  have "0 \<le> (n + 2 ^ 31) mod 2 ^ 32" and "(n + 2 ^ 31) mod 2 ^ 32 < (2::int) ^ 32"
    by simp_all
  then show ?thesis by (simp add: c_int_def)
qed

lemma c_int_id: "- (2 ^ 31) \<le> n \<Longrightarrow> n < 2 ^ 31 \<Longrightarrow> c_int n = n"
  by (simp add: c_int_def)

lemma c_isdigit_of_digit [simp]: "d < 10 \<Longrightarrow> c_isdigit (char_of (48 + d :: nat))"
  by (simp add: c_isdigit_def)

lemma show_nat_digits: "list_all c_isdigit (show_nat n)"
proof (induction n rule: show_nat.induct)
  case (1 n)
  then show ?case by (subst show_nat.simps) auto
qed

lemma digits_val_append: "list_all c_isdigit a \<Longrightarrow> digits_val acc (a @ b) = digits_val (digits_val acc a) b"
  by (induction a arbitrary: acc) auto

lemma digits_val_show_nat: "digits_val 0 (show_nat n) = n"
proof (induction n rule: show_nat.induct)
  case (1 n)
  show ?case
  proof (cases "n < 10")
    case True
    then show ?thesis by (subst show_nat.simps) simp
  next
    case False
    then show ?thesis using 1 show_nat_digits by (subst show_nat.simps) (simp add: digits_val_append)
  qed
qed

lemma show_nat_nonempty [simp]: "show_nat n \<noteq> []"
  by (subst show_nat.simps) simp

lemma c_sign_digit: "c_isdigit c \<Longrightarrow> c_sign (c # r) = (False, c # r)"
  by (auto simp: c_sign_def c_isdigit_def)

lemma c_strtol_show_nat: "c_strtol (show_nat n) = c_long (int n)"
proof -
  obtain c r where cr: "show_nat n = c # r" by (cases "show_nat n") auto
  then have d: "c_isdigit c" using show_nat_digits [of n] by simp
  then have "\<not> c_isspace c" by (auto simp: c_isdigit_def c_isspace_def)
  then have "dropWhile c_isspace (show_nat n) = show_nat n" by (simp add: cr)
  moreover have "c_sign (show_nat n) = (False, show_nat n)" using d by (simp add: cr c_sign_digit)
  ultimately show ?thesis by (simp add: c_strtol_def digits_val_show_nat)
qed

lemma c_atoi_show_nat: "n < 2 ^ 31 \<Longrightarrow> c_atoi (show_nat n) = int n"
  by (simp add: c_atoi_def c_strtol_show_nat c_long_def c_int_id)

lemma length_show_nat: "n < 10 ^ Suc k \<Longrightarrow> length (show_nat n) \<le> Suc k"
proof (induction k arbitrary: n)
  case 0
  then show ?case by (subst show_nat.simps) simp
next
  case (Suc k)
  then have "n div 10 < 10 ^ Suc k" by simp
  then show ?case using Suc.IH [of "n div 10"] by (subst show_nat.simps) simp
qed

section \<open>Comparing byte strings\<close>

text \<open>
  The sign of \<open>memcmp (a, b, n)\<close> on the first \<open>n\<close> bytes: the first difference decides. The C
  standard fixes only the sign of the result, so the model returns \<open>-1\<close>, \<open>0\<close> or \<open>1\<close>.
\<close>

fun mem_cmp :: "('a::linorder) list \<Rightarrow> 'a list \<Rightarrow> int" where
  "mem_cmp (a # as) (b # bs) = (if a < b then -1 else if b < a then 1 else mem_cmp as bs)"
| "mem_cmp _ _ = 0"

lemma mem_cmp_refl [simp]: "mem_cmp a a = 0"
  by (induction a) auto

lemma mem_cmp_eq_0_iff: "length a = length b \<Longrightarrow> mem_cmp a b = 0 \<longleftrightarrow> a = b"
  by (induction a b rule: list_induct2) auto

lemma mem_cmp_antisym: "mem_cmp a b = - mem_cmp b a"
  by (induction a b rule: mem_cmp.induct) auto

lemma mem_cmp_cases: "mem_cmp a b \<in> {-1, 0, 1}"
  by (induction a b rule: mem_cmp.induct) auto

section \<open>Big-endian numbers\<close>

text \<open>
  \<open>be_bytes k n\<close> is the number \<open>n\<close> in \<open>k\<close> bytes, most significant first, as the shifts
  \<open>(uint8_t) (v >> 8 * (k - 1)), \<dots>, (uint8_t) v\<close> write it; \<open>be_nat\<close> folds bytes back with
  \<open>acc << 8 | b\<close>.
\<close>

primrec be_bytes :: "nat \<Rightarrow> nat \<Rightarrow> bytes" where
  "be_bytes 0 n = []"
| "be_bytes (Suc k) n = word_of_nat (n div 256 ^ k) # be_bytes k n"

lemma be_bytes_numeral [be_simps]:
  "be_bytes (numeral k) n = word_of_nat (n div 256 ^ pred_numeral k) # be_bytes (pred_numeral k) n"
  by (simp add: numeral_eq_Suc)

definition be_nat :: "bytes \<Rightarrow> nat" where
  "be_nat bs = foldl (\<lambda>acc b. 256 * acc + unat b) 0 bs"

lemma length_be_bytes [simp]: "length (be_bytes k n) = k"
  by (induction k) auto

lemma foldl_be: "foldl (\<lambda>acc b. 256 * acc + unat b) a bs = a * 256 ^ length bs + be_nat (bs :: bytes)"
proof (induction bs arbitrary: a)
  case Nil
  then show ?case by (simp add: be_nat_def)
next
  case (Cons b bs)
  have "be_nat (b # bs) = unat b * 256 ^ length bs + be_nat bs"
    using Cons.IH [of "unat b"] by (simp add: be_nat_def)
  then show ?case
    using Cons.IH [of "256 * a + unat b"] by (simp add: algebra_simps)
qed

lemma be_nat_Nil [simp]: "be_nat [] = 0"
  by (simp add: be_nat_def)

lemma be_nat_Cons: "be_nat (b # bs) = unat b * 256 ^ length bs + be_nat bs"
  using foldl_be [of "unat b" bs] by (simp add: be_nat_def)

lemma be_nat_append: "be_nat (as @ bs) = be_nat as * 256 ^ length bs + be_nat bs"
  by (induction as) (auto simp: be_nat_Cons power_add algebra_simps)

lemma be_nat_less: "be_nat bs < 256 ^ length bs"
proof (induction bs)
  case Nil
  then show ?case by simp
next
  case (Cons b bs)
  have "unat b + 1 \<le> 256"
    using unat_range(1) [of b] by linarith
  then have "(unat b + 1) * 256 ^ length bs \<le> 256 * 256 ^ length bs"
    by (rule mult_le_mono1)
  moreover have "be_nat (b # bs) < (unat b + 1) * 256 ^ length bs"
    using Cons by (simp add: be_nat_Cons algebra_simps)
  ultimately have "be_nat (b # bs) < 256 * 256 ^ length bs" by (rule less_le_trans [rotated])
  then show ?case by simp
qed

lemma be_nat_be_bytes [be_simps]: "n < 256 ^ k \<Longrightarrow> be_nat (be_bytes k n) = n"
proof -
  have "be_nat (be_bytes k n) = n mod 256 ^ k" for k n
  proof (induction k)
    case 0
    then show ?case by simp
  next
    case (Suc k)
    have "unat (word_of_nat (n div 256 ^ k) :: u8) = (n div 256 ^ k) mod 256"
      by (simp add: unat_of_nat)
    moreover have "n mod (256 ^ k * 256) = 256 ^ k * (n div 256 ^ k mod 256) + n mod 256 ^ k"
      by (rule mod_mult2_eq)
    ultimately show ?case
      using Suc by (simp add: be_nat_Cons algebra_simps)
  qed
  then show "n < 256 ^ k \<Longrightarrow> ?thesis" by simp
qed

lemma be_bytes_be_nat [be_simps]: "be_bytes (length bs) (be_nat bs) = bs"
proof -
  have "be_bytes (length bs) (a * 256 ^ length bs + be_nat bs) = bs" for a
  proof (induction bs arbitrary: a)
    case Nil
    then show ?case by simp
  next
    case (Cons b bs)
    have lt: "be_nat bs < 256 ^ length bs" by (rule be_nat_less)
    have eq: "a * 256 ^ length (b # bs) + be_nat (b # bs)
                = (a * 256 + unat b) * 256 ^ length bs + be_nat bs"
      by (simp add: be_nat_Cons algebra_simps)
    have "(word_of_nat (a * 256 + unat b) :: u8) = b"
    proof -
      have "(word_of_nat (a * 256) :: u8) = 0"
        by (simp add: word_of_nat_eq_0_iff del: of_nat_mult)
      then show ?thesis by (simp del: of_nat_mult)
    qed
    with lt show ?case
      unfolding eq using Cons.IH [of "a * 256 + unat b"] by simp
  qed
  from this [of 0] show ?thesis by simp
qed

section \<open>Driving steps that can fail\<close>

text \<open>
  \<open>fold_opt f s xs\<close> runs a loop over the inputs \<open>xs\<close> whose body can leave the defined behaviour of
  C; \<open>dec_many\<close> reads a counted sequence of encoded items.
\<close>

primrec fold_opt :: "('s \<Rightarrow> 'i \<Rightarrow> 's option) \<Rightarrow> 's \<Rightarrow> 'i list \<Rightarrow> 's option" where
  "fold_opt f s [] = Some s"
| "fold_opt f s (x # xs) = (case f s x of None \<Rightarrow> None | Some s' \<Rightarrow> fold_opt f s' xs)"

primrec dec_many :: "(bytes \<Rightarrow> ('a \<times> bytes) option) \<Rightarrow> nat \<Rightarrow> bytes \<Rightarrow> ('a list \<times> bytes) option" where
  "dec_many dec 0 bs = Some ([], bs)"
| "dec_many dec (Suc n) bs =
     (case dec bs of None \<Rightarrow> None
      | Some (x, r) \<Rightarrow> (case dec_many dec n r of None \<Rightarrow> None | Some (xs, r') \<Rightarrow> Some (x # xs, r')))"

lemma fold_opt_cong [fundef_cong]:
  "s = t \<Longrightarrow> xs = ys \<Longrightarrow> (\<And>s x. x \<in> set ys \<Longrightarrow> f s x = g s x) \<Longrightarrow>
   fold_opt f s xs = fold_opt g t ys"
  by (induction xs arbitrary: s t ys) (auto split: option.splits)

lemma fold_opt_append:
  "fold_opt f s (xs @ ys) = (case fold_opt f s xs of None \<Rightarrow> None | Some s' \<Rightarrow> fold_opt f s' ys)"
  by (induction xs arbitrary: s) (auto split: option.splits)

lemma fold_opt_concat:
  "fold_opt f s (concat (map g xs)) = fold_opt (\<lambda>s x. fold_opt f s (g x)) s xs"
  by (induction xs arbitrary: s) (auto simp: fold_opt_append split: option.splits)

lemma fold_opt_append_Some:
  "fold_opt f s xs = Some s' \<Longrightarrow> fold_opt f s (xs @ ys) = fold_opt f s' ys"
  by (simp add: fold_opt_append)

section \<open>Interfaces\<close>

text \<open>
  A codec writes a value to bytes and reads it back from the front of a longer input, leaving the
  rest, as long as the input is shorter than what the machine can address. The domain says which
  values the format can express. Sequences of values then round-trip as well, whatever follows
  them, and no encoding is a prefix of another.
\<close>

locale prefix_codec =
  fixes enc :: "'a \<Rightarrow> bytes"
    and dec :: "bytes \<Rightarrow> ('a \<times> bytes) option"
    and dom_ok :: "'a \<Rightarrow> bool"
    and limit :: nat
  assumes dec_enc:
    "dom_ok x \<Longrightarrow> length (enc x @ rest) < limit \<Longrightarrow> dec (enc x @ rest) = Some (x, rest)"
begin

lemma dec_many_enc:
  "\<forall>x \<in> set xs. dom_ok x \<Longrightarrow> length (concat (map enc xs) @ rest) < limit \<Longrightarrow>
   dec_many dec (length xs) (concat (map enc xs) @ rest) = Some (xs, rest)"
  by (induction xs arbitrary: rest) (auto simp: dec_enc)

lemma enc_prefix_free:
  "dom_ok x \<Longrightarrow> dom_ok y \<Longrightarrow> length (enc x @ r) < limit \<Longrightarrow> enc x @ r = enc y @ s \<Longrightarrow>
   x = y \<and> r = s"
  using dec_enc [of x r] dec_enc [of y s] by (metis option.inject prod.inject)

end

text \<open>
  A machine that consumes one input at a time and can get stuck only by undefined behaviour. An
  invariant that every step keeps, and under which no step is stuck, makes every run safe.
\<close>

locale safe_machine =
  fixes step :: "'s \<Rightarrow> 'i \<Rightarrow> 's option"
    and inv :: "'s \<Rightarrow> bool"
    and ok :: "'i \<Rightarrow> bool"
  assumes step_safe: "inv s \<Longrightarrow> ok i \<Longrightarrow> \<exists>s'. step s i = Some s' \<and> inv s'"
begin

lemma run_safe: "inv s \<Longrightarrow> \<forall>x \<in> set xs. ok x \<Longrightarrow> \<exists>s'. fold_opt step s xs = Some s' \<and> inv s'"
proof (induction xs arbitrary: s)
  case Nil
  then show ?case by simp
next
  case (Cons x xs)
  then obtain s1 where "step s x = Some s1" "inv s1"
    using step_safe [of s x] by auto
  with Cons.IH [of s1] Cons.prems show ?case by auto
qed

end

text \<open>
  A machine whose runs are described by a simpler one: every step commutes with the abstraction.
  This is the simulation that the refinement results of the development instantiate.
\<close>

locale step_refinement =
  fixes cstep :: "'c \<Rightarrow> 'i \<Rightarrow> 'c option"
    and astep :: "'a \<Rightarrow> 'i \<Rightarrow> 'a"
    and view :: "'c \<Rightarrow> 'a"
    and inv :: "'c \<Rightarrow> bool"
    and ok :: "'i \<Rightarrow> bool"
  assumes step_refines:
    "inv c \<Longrightarrow> ok i \<Longrightarrow> \<exists>c'. cstep c i = Some c' \<and> inv c' \<and> view c' = astep (view c) i"
begin

sublocale safe_machine cstep inv ok
  using step_refines by unfold_locales blast

lemma run_refines:
  "inv c \<Longrightarrow> \<forall>x \<in> set xs. ok x \<Longrightarrow>
   \<exists>c'. fold_opt cstep c xs = Some c' \<and> inv c' \<and> view c' = foldl astep (view c) xs"
proof (induction xs arbitrary: c)
  case Nil
  then show ?case by simp
next
  case (Cons x xs)
  then obtain c1 where "cstep c x = Some c1" "inv c1" "view c1 = astep (view c) x"
    using step_refines [of c x] by auto
  with Cons.IH [of c1] Cons.prems show ?case by auto
qed

end

section \<open>Machines with a budget\<close>

text \<open>
  \<open>drive step active n s\<close>: at most \<open>n\<close> rounds of a loop that runs while the state is active. The
  result is \<^term>\<open>None\<close> when the rounds are used up, \<^term>\<open>Some None\<close> when a step fails.
\<close>

fun drive :: "('s \<Rightarrow> 's option) \<Rightarrow> ('s \<Rightarrow> bool) \<Rightarrow> nat \<Rightarrow> 's \<Rightarrow> 's option option" where
  "drive step active 0 s = None"
| "drive step active (Suc n) s =
     (if active s then (case step s of None \<Rightarrow> Some None | Some s' \<Rightarrow> drive step active n s')
      else Some (Some s))"

locale counted_machine =
  fixes step :: "'s \<Rightarrow> 's option" and active :: "'s \<Rightarrow> bool" and inv :: "'s \<Rightarrow> bool" and budget :: "'s \<Rightarrow> nat"
  assumes inv_step: "inv s \<Longrightarrow> active s \<Longrightarrow> step s = Some s' \<Longrightarrow> inv s'"
    and budget_step: "inv s \<Longrightarrow> active s \<Longrightarrow> step s = Some s' \<Longrightarrow> active s' \<Longrightarrow> budget s' < budget s"
begin

lemma drive_ends:
  assumes "inv s" "budget s + 1 < n"
  shows "\<exists>r. drive step active n s = Some r \<and> (\<forall>s'. r = Some s' \<longrightarrow> inv s' \<and> \<not> active s')"
  using assms
proof (induction n arbitrary: s)
  case 0
  then show ?case by simp
next
  case (Suc n)
  show ?case
  proof (cases "active s")
    case False
    then show ?thesis using Suc.prems by simp
  next
    case act: True
    show ?thesis
    proof (cases "step s")
      case None
      then show ?thesis using act by simp
    next
      case (Some s')
      have inv: "inv s'" using Suc.prems act Some by (blast intro: inv_step)
      show ?thesis
      proof (cases "active s'")
        case True
        then have "budget s' + 1 < n"
          using budget_step [OF Suc.prems(1) act Some] Suc.prems(2) by linarith
        then show ?thesis using Suc.IH [OF inv] act Some by simp
      next
        case False
        moreover obtain k where "n = Suc k" using Suc.prems(2) by (cases n) auto
        ultimately show ?thesis using act Some inv by simp
      qed
    qed
  qed
qed

end

end
