(* ===== verification/Telnet.thy ===== *)
theory Telnet
  imports Mutineer_Prelude
begin

text \<open>
  The telnet layer, \<^verbatim>\<open>src/telnet.c\<close>: the byte-wise parser that strips telnet sequences from the
  caller's input (\<open>telnet_feed\<close>), its subnegotiation buffer, and the replies it sends.

  The state record has the C struct's fields; the two fixed buffers are lists of their declared
  length (128 and 64). What the code writes to the socket is collected in the order of the calls.
  The lemmas show that no input makes the parser leave its buffers, that the parser is insensitive to how the
  input is cut into reads, and that on well-formed input it computes an abstract event semantics.
\<close>

section \<open>Constants and state\<close>

abbreviation IAC :: u8 where "IAC \<equiv> 255"
abbreviation DONT :: u8 where "DONT \<equiv> 254"
abbreviation DO :: u8 where "DO \<equiv> 253"
abbreviation WONT :: u8 where "WONT \<equiv> 252"
abbreviation WILL :: u8 where "WILL \<equiv> 251"
abbreviation SB :: u8 where "SB \<equiv> 250"
abbreviation SE :: u8 where "SE \<equiv> 240"

abbreviation TELOPT_ECHO :: u8 where "TELOPT_ECHO \<equiv> 1"
abbreviation TELOPT_SGA :: u8 where "TELOPT_SGA \<equiv> 3"
abbreviation TELOPT_TTYPE :: u8 where "TELOPT_TTYPE \<equiv> 24"
abbreviation TELOPT_NAWS :: u8 where "TELOPT_NAWS \<equiv> 31"

abbreviation TTYPE_IS :: u8 where "TTYPE_IS \<equiv> 0"
abbreviation TTYPE_SEND :: u8 where "TTYPE_SEND \<equiv> 1"

text \<open>The parser state is an \<open>int\<close> in C; a value outside of the enumeration takes the switch's default.\<close>

abbreviation ST_DATA :: int where "ST_DATA \<equiv> 0"
abbreviation ST_IAC :: int where "ST_IAC \<equiv> 1"
abbreviation ST_IAC_CMD :: int where "ST_IAC_CMD \<equiv> 2"
abbreviation ST_SB :: int where "ST_SB \<equiv> 3"
abbreviation ST_SB_IAC :: int where "ST_SB_IAC \<equiv> 4"

record TelnetState =
  tn_cols :: int
  tn_rows :: int
  tn_st :: int
  tn_cmd :: u8
  tn_sb_opt :: u8
  tn_sb_buf :: bytes
  tn_sb_len :: nat
  tn_term_type :: bytes

text \<open>A call of \<open>telnet_feed\<close> in progress: the state, the output written so far, the bytes sent.\<close>

record telnet_io =
  io_tn :: TelnetState
  io_out :: bytes
  io_sent :: bytes

section \<open>Replies\<close>

definition tn_send3 :: "u8 \<Rightarrow> u8 \<Rightarrow> u8 \<Rightarrow> bytes" where
  "tn_send3 a b c = [a, b, c]"

definition tn_send_ttype_send :: bytes where
  "tn_send_ttype_send = [IAC, SB, TELOPT_TTYPE, TTYPE_SEND, IAC, SE]"

definition telnet_send_initial :: bytes where
  "telnet_send_initial =
     tn_send3 IAC WILL TELOPT_SGA @ tn_send3 IAC DO TELOPT_SGA
     @ tn_send3 IAC DO TELOPT_NAWS @ tn_send3 IAC DO TELOPT_TTYPE
     @ tn_send3 IAC WILL TELOPT_ECHO @ tn_send_ttype_send"

definition telnet_password_begin :: bytes where
  "telnet_password_begin = tn_send3 IAC WILL TELOPT_ECHO @ tn_send3 IAC DO TELOPT_SGA"

definition telnet_password_end :: bytes where
  "telnet_password_end = tn_send3 IAC WILL TELOPT_ECHO @ tn_send3 IAC DO TELOPT_SGA"

definition handle_iac_cmd :: "u8 \<Rightarrow> u8 \<Rightarrow> bytes" where
  "handle_iac_cmd cmd opt =
     (if cmd = DO then
        (if opt = TELOPT_SGA \<or> opt = TELOPT_ECHO then tn_send3 IAC WILL opt
         else tn_send3 IAC WONT opt)
      else if cmd = WILL then
        (if opt = TELOPT_SGA \<or> opt = TELOPT_NAWS \<or> opt = TELOPT_TTYPE then tn_send3 IAC DO opt
         else tn_send3 IAC DONT opt)
      else if cmd = DONT then []
      else if cmd = WONT then []
      else [])"

section \<open>Subnegotiation\<close>

text \<open>\<open>(a << 8) | b\<close> on bytes promoted to \<open>int\<close>.\<close>

definition shift_or :: "u8 \<Rightarrow> u8 \<Rightarrow> int" where
  "shift_or a b = sint (push_bit 8 (ucast a :: u32) OR ucast b)"

definition process_sb :: "TelnetState \<Rightarrow> TelnetState option" where
  "process_sb tn =
     (if tn_sb_len tn < 1 then Some tn
      else do {
        opt \<leftarrow> arr_get (tn_sb_buf tn) 0;
        if opt = TELOPT_NAWS then
          (if 1 + 4 \<le> tn_sb_len tn then do {
             b1 \<leftarrow> arr_get (tn_sb_buf tn) 1;
             b2 \<leftarrow> arr_get (tn_sb_buf tn) 2;
             b3 \<leftarrow> arr_get (tn_sb_buf tn) 3;
             b4 \<leftarrow> arr_get (tn_sb_buf tn) 4;
             let w = shift_or b1 b2;
             let h = shift_or b3 b4;
             let tn = (if 0 < w \<and> w < 1000 then tn\<lparr>tn_cols := w\<rparr> else tn);
             Some (if 0 < h \<and> h < 1000 then tn\<lparr>tn_rows := h\<rparr> else tn) }
           else Some tn)
        else if opt = TELOPT_TTYPE then
          (if 3 \<le> tn_sb_len tn then do {
             k \<leftarrow> arr_get (tn_sb_buf tn) 1;
             if k = TTYPE_IS then do {
               let n = tn_sb_len tn - 2;
               let n = (if length (tn_term_type tn) \<le> n then length (tn_term_type tn) - 1 else n);
               t \<leftarrow> mem_copy (tn_term_type tn) 0 (tn_sb_buf tn) 2 n;
               t \<leftarrow> arr_set t n 0;
               Some (tn\<lparr>tn_term_type := t\<rparr>) }
             else Some tn }
           else Some tn)
        else Some tn })"

section \<open>The parser\<close>

definition put_out :: "nat \<Rightarrow> u8 \<Rightarrow> telnet_io \<Rightarrow> telnet_io" where
  "put_out cap b s = (if length (io_out s) < cap then s\<lparr>io_out := io_out s @ [b]\<rparr> else s)"

definition sb_append :: "TelnetState \<Rightarrow> u8 \<Rightarrow> TelnetState option" where
  "sb_append tn b =
     (if tn_sb_len tn < length (tn_sb_buf tn) then do {
        buf \<leftarrow> arr_set (tn_sb_buf tn) (tn_sb_len tn) b;
        Some (tn\<lparr>tn_sb_buf := buf, tn_sb_len := tn_sb_len tn + 1\<rparr>) }
      else Some tn)"

definition telnet_byte :: "nat \<Rightarrow> telnet_io \<Rightarrow> u8 \<Rightarrow> telnet_io option" where
  "telnet_byte cap s b =
     (let tn = io_tn s; goto = (\<lambda>st s. s\<lparr>io_tn := (io_tn s)\<lparr>tn_st := st\<rparr>\<rparr>) in
      if tn_st tn = ST_DATA then
        (if b = IAC then Some (goto ST_IAC s) else Some (put_out cap b s))
      else if tn_st tn = ST_IAC then
        (if b = IAC then Some (goto ST_DATA (put_out cap IAC s))
         else if b = DO \<or> b = DONT \<or> b = WILL \<or> b = WONT then
           Some (goto ST_IAC_CMD (s\<lparr>io_tn := tn\<lparr>tn_cmd := b\<rparr>\<rparr>))
         else if b = SB then Some (goto ST_SB (s\<lparr>io_tn := tn\<lparr>tn_sb_len := 0\<rparr>\<rparr>))
         else Some (goto ST_DATA s))
      else if tn_st tn = ST_IAC_CMD then
        Some (goto ST_DATA (s\<lparr>io_sent := io_sent s @ handle_iac_cmd (tn_cmd tn) b\<rparr>))
      else if tn_st tn = ST_SB then
        (if b = IAC then Some (goto ST_SB_IAC s)
         else do { tn \<leftarrow> sb_append tn b; Some (s\<lparr>io_tn := tn\<rparr>) })
      else if tn_st tn = ST_SB_IAC then
        (if b = SE then do { tn \<leftarrow> process_sb tn; Some (goto ST_DATA (s\<lparr>io_tn := tn\<rparr>)) }
         else if b = IAC then do { tn \<leftarrow> sb_append tn IAC; Some (goto ST_SB (s\<lparr>io_tn := tn\<rparr>)) }
         else Some (goto ST_SB s))
      else Some (goto ST_DATA s))"

definition telnet_feed :: "TelnetState \<Rightarrow> bytes \<Rightarrow> nat \<Rightarrow> telnet_io option" where
  "telnet_feed tn inp out_cap =
     fold_opt (telnet_byte out_cap) \<lparr>io_tn = tn, io_out = [], io_sent = []\<rparr> inp"

section \<open>Well-formed states\<close>

text \<open>
  The buffers have their declared sizes, the fill level stays inside the buffer, the terminal type
  is NUL-terminated and the window size is one that the code accepts.
\<close>

definition wf_telnet :: "TelnetState \<Rightarrow> bool" where
  "wf_telnet tn \<longleftrightarrow>
     length (tn_sb_buf tn) = 128 \<and> tn_sb_len tn \<le> 128 \<and>
     length (tn_term_type tn) = 64 \<and> 0 \<in> set (tn_term_type tn) \<and>
     0 < tn_cols tn \<and> tn_cols tn < 1000 \<and> 0 < tn_rows tn \<and> tn_rows tn < 1000"

definition wf_io :: "nat \<Rightarrow> telnet_io \<Rightarrow> bool" where
  "wf_io cap s \<longleftrightarrow> wf_telnet (io_tn s) \<and> length (io_out s) \<le> cap"

text \<open>The state a session starts with: 80 by 24, everything else zero.\<close>

definition telnet_zero :: TelnetState where
  "telnet_zero = \<lparr>tn_cols = 80, tn_rows = 24, tn_st = ST_DATA, tn_cmd = 0, tn_sb_opt = 0,
     tn_sb_buf = replicate 128 0, tn_sb_len = 0, tn_term_type = replicate 64 0\<rparr>"

lemma wf_telnet_zero: "wf_telnet telnet_zero"
  by (simp add: wf_telnet_def telnet_zero_def)

lemma shift_or_eq: "shift_or a b = 256 * int (unat a) + int (unat b)"
proof -
  have a: "unat a < 256" and b: "unat b < 256"
    using unsigned_less [of a, where ?'a = nat] unsigned_less [of b, where ?'a = nat] by simp_all
  have "push_bit 8 (ucast a :: u32) OR ucast b = push_bit 8 (ucast a) + ucast b"
    by (rule disjunctive_add_eq_or [symmetric])
      (auto simp: bit_eq_iff bit_simps dest: bit_imp_le_length)
  also have "\<dots> = word_of_nat (256 * unat a + unat b)"
    by (simp add: push_bit_eq_mult)
  finally have eq: "push_bit 8 (ucast a :: u32) OR ucast b = word_of_nat (256 * unat a + unat b)" .
  have "sint (word_of_nat k :: u32) = int k" if "k < 2 ^ 31" for k
    using that by (simp add: signed_of_nat signed_take_bit_int_eq_self)
  from this [of "256 * unat a + unat b"] show ?thesis
    unfolding shift_or_def eq using a b by (simp del: of_nat_add of_nat_mult) simp
qed

section \<open>Safety of one byte\<close>

abbreviation sb_content :: "TelnetState \<Rightarrow> bytes" where
  "sb_content tn \<equiv> take (tn_sb_len tn) (tn_sb_buf tn)"

abbreviation term_string :: "TelnetState \<Rightarrow> bytes" where
  "term_string tn \<equiv> takeWhile (\<lambda>b. b \<noteq> 0) (tn_term_type tn)"

lemma take_Suc_list_update:
  "n < length xs \<Longrightarrow> take (Suc n) (xs[n := v]) = take n xs @ [v]"
  by (simp add: take_Suc_conv_app_nth)

lemma sb_append_content:
  assumes "wf_telnet tn"
  shows "\<exists>buf n. sb_append tn b = Some (tn\<lparr>tn_sb_buf := buf, tn_sb_len := n\<rparr>)
           \<and> length buf = 128 \<and> n \<le> 128 \<and> take n buf = take 128 (sb_content tn @ [b])"
proof (cases "tn_sb_len tn < 128")
  case True
  with assms have "sb_append tn b =
      Some (tn\<lparr>tn_sb_buf := (tn_sb_buf tn)[tn_sb_len tn := b], tn_sb_len := Suc (tn_sb_len tn)\<rparr>)"
    by (simp add: sb_append_def wf_telnet_def)
  with True assms show ?thesis
    by (intro exI [of _ "(tn_sb_buf tn)[tn_sb_len tn := b]"] exI [of _ "Suc (tn_sb_len tn)"])
      (simp add: wf_telnet_def take_Suc_list_update)
next
  case False
  with assms have "sb_append tn b = Some (tn\<lparr>tn_sb_buf := tn_sb_buf tn, tn_sb_len := 128\<rparr>)"
    by (simp add: sb_append_def wf_telnet_def)
  with False assms show ?thesis
    by (intro exI [of _ "tn_sb_buf tn"] exI [of _ 128]) (simp add: wf_telnet_def)
qed

lemma takeWhile_append_zero:
  "takeWhile (\<lambda>b. b \<noteq> (0::u8)) (xs @ 0 # ys) = takeWhile (\<lambda>b. b \<noteq> 0) xs"
  by (induction xs) auto

lemma term_copy:
  fixes tt buf :: bytes
  assumes "length tt = 64" and "2 + n \<le> length buf" and "n < 64"
  shows "\<exists>t. mem_copy tt 0 buf 2 n = Some (take n (drop 2 buf) @ drop n tt)
           \<and> arr_set (take n (drop 2 buf) @ drop n tt) n 0 = Some t
           \<and> length t = 64 \<and> 0 \<in> set t
           \<and> takeWhile (\<lambda>b. b \<noteq> 0) t = takeWhile (\<lambda>b. b \<noteq> 0) (take n (drop 2 buf))"
proof -
  let ?pre = "take n (drop 2 buf)"
  have len: "length ?pre = n" using assms by simp
  have "(?pre @ drop n tt)[n := 0] = ?pre @ (drop n tt)[0 := 0]"
    using len by (simp add: list_update_append)
  also have "(drop n tt)[0 := 0] = 0 # drop (Suc n) tt"
    using assms by (metis Cons_nth_drop_Suc list_update_code(2))
  finally have upd: "(?pre @ drop n tt)[n := 0] = ?pre @ 0 # drop (Suc n) tt" .
  with assms len show ?thesis
    by (auto simp: mem_copy_def arr_set_def takeWhile_append_zero)
qed

text \<open>What a subnegotiation changes, as a function of the bytes collected for it.\<close>

definition accept_dim :: "int \<Rightarrow> int \<Rightarrow> int" where
  "accept_dim new old = (if 0 < new \<and> new < 1000 then new else old)"

definition sub_term :: "bytes \<Rightarrow> bytes \<Rightarrow> bytes" where
  "sub_term p old =
     (case p of
        opt # k # c # name \<Rightarrow>
          if opt = TELOPT_TTYPE \<and> k = TTYPE_IS then takeWhile (\<lambda>b. b \<noteq> 0) (take 63 (c # name)) else old
      | _ \<Rightarrow> old)"

definition sub_window :: "bytes \<Rightarrow> int \<times> int \<Rightarrow> int \<times> int" where
  "sub_window p wh =
     (case p of
        opt # b1 # b2 # b3 # b4 # _ \<Rightarrow>
          if opt = TELOPT_NAWS
          then (accept_dim (256 * int (unat b1) + int (unat b2)) (fst wh),
                accept_dim (256 * int (unat b3) + int (unat b4)) (snd wh))
          else wh
      | _ \<Rightarrow> wh)"

lemma list_take_2: "2 \<le> length xs \<Longrightarrow> xs = xs ! 0 # xs ! 1 # drop 2 xs"
  by (cases xs; cases "tl xs") auto

lemma list_take_5:
  assumes "5 \<le> length xs"
  shows "xs = xs ! 0 # xs ! 1 # xs ! 2 # xs ! 3 # xs ! 4 # drop 5 xs"
proof -
  have "xs = xs ! 0 # xs ! 1 # drop 2 xs" using assms by (intro list_take_2) simp
  also have "drop 2 xs = drop 2 xs ! 0 # drop 2 xs ! 1 # drop 2 (drop 2 xs)"
    using assms by (intro list_take_2) simp
  also have "drop 2 (drop 2 xs) = drop 4 xs ! 0 # drop 5 xs"
    using assms Cons_nth_drop_Suc [of 4 xs] by simp
  finally show ?thesis using assms by simp
qed

lemma process_sb_naws:
  assumes "wf_telnet tn" and "5 \<le> tn_sb_len tn" and "tn_sb_buf tn ! 0 = TELOPT_NAWS"
  shows "process_sb tn =
           Some (tn\<lparr>tn_cols := fst (sub_window (sb_content tn) (tn_cols tn, tn_rows tn)),
                     tn_rows := snd (sub_window (sb_content tn) (tn_cols tn, tn_rows tn))\<rparr>)"
proof -
  let ?p = "sb_content tn"
  have len: "length (tn_sb_buf tn) = 128" "tn_sb_len tn \<le> 128"
    using assms(1) by (simp_all add: wf_telnet_def)
  have "?p = ?p ! 0 # ?p ! 1 # ?p ! 2 # ?p ! 3 # ?p ! 4 # drop 5 ?p"
    using assms len by (intro list_take_5) simp
  then obtain r where p: "?p = TELOPT_NAWS # tn_sb_buf tn ! 1 # tn_sb_buf tn ! 2 # tn_sb_buf tn ! 3
                    # tn_sb_buf tn ! 4 # r"
    using assms(2,3) by simp
  then have win: "sub_window ?p wh =
      (accept_dim (shift_or (tn_sb_buf tn ! 1) (tn_sb_buf tn ! 2)) (fst wh),
       accept_dim (shift_or (tn_sb_buf tn ! 3) (tn_sb_buf tn ! 4)) (snd wh))" for wh
    unfolding p sub_window_def shift_or_eq by simp
  show ?thesis
    using assms len unfolding win by (auto simp: process_sb_def Let_def accept_dim_def)
qed

lemma process_sb_ttype:
  assumes wf: "wf_telnet tn" and "3 \<le> tn_sb_len tn"
    and "tn_sb_buf tn ! 0 = TELOPT_TTYPE" and "tn_sb_buf tn ! 1 = TTYPE_IS"
  shows "\<exists>t. process_sb tn = Some (tn\<lparr>tn_term_type := t\<rparr>) \<and> length t = 64 \<and> 0 \<in> set t
           \<and> takeWhile (\<lambda>b. b \<noteq> 0) t = sub_term (sb_content tn) old"
proof -
  let ?n = "min 63 (tn_sb_len tn - 2)" and ?p = "sb_content tn"
  have len: "length (tn_sb_buf tn) = 128" "tn_sb_len tn \<le> 128" "length (tn_term_type tn) = 64"
    using wf by (simp_all add: wf_telnet_def)
  obtain t where t:
      "mem_copy (tn_term_type tn) 0 (tn_sb_buf tn) 2 ?n =
         Some (take ?n (drop 2 (tn_sb_buf tn)) @ drop ?n (tn_term_type tn))"
      "arr_set (take ?n (drop 2 (tn_sb_buf tn)) @ drop ?n (tn_term_type tn)) ?n 0 = Some t"
      "length t = 64" "0 \<in> set t"
      "takeWhile (\<lambda>b. b \<noteq> 0) t = takeWhile (\<lambda>b. b \<noteq> 0) (take ?n (drop 2 (tn_sb_buf tn)))"
    using term_copy [of "tn_term_type tn" ?n "tn_sb_buf tn"] len assms(2) by auto
  have proc: "process_sb tn = Some (tn\<lparr>tn_term_type := t\<rparr>)"
  proof (cases "64 \<le> tn_sb_len tn - 2")
    case True
    then have "?n = 63" by simp
    with True assms len t(1,2) show ?thesis by (simp add: process_sb_def Let_def)
  next
    case False
    then have "?n = tn_sb_len tn - 2" by simp
    with False assms len t(1,2) show ?thesis by (simp add: process_sb_def Let_def)
  qed
  have "?p = ?p ! 0 # ?p ! 1 # drop 2 ?p"
    using assms len by (intro list_take_2) simp
  moreover obtain c name where "drop 2 ?p = c # name"
    using assms len by (cases "drop 2 ?p") auto
  ultimately have "?p = TELOPT_TTYPE # TTYPE_IS # c # name"
    using assms by simp
  then have "sub_term ?p old = takeWhile (\<lambda>b. b \<noteq> 0) (take 63 (drop 2 ?p))"
    by (simp add: sub_term_def)
  also have "take 63 (drop 2 ?p) = take ?n (drop 2 (tn_sb_buf tn))"
    using len by (simp add: drop_take)
  finally show ?thesis using proc t by auto
qed

lemma sub_window_other:
  "length p < 5 \<or> p ! 0 \<noteq> TELOPT_NAWS \<Longrightarrow> sub_window p wh = wh"
  by (auto simp: sub_window_def split: list.splits)

lemma sub_term_other:
  "length p < 3 \<or> p ! 0 \<noteq> TELOPT_TTYPE \<or> p ! 1 \<noteq> TTYPE_IS \<Longrightarrow> sub_term p old = old"
  by (auto simp: sub_term_def split: list.splits)

lemma process_sb_other:
  assumes "wf_telnet tn"
    and "tn_sb_len tn < 5 \<or> tn_sb_buf tn ! 0 \<noteq> TELOPT_NAWS"
    and "tn_sb_len tn < 3 \<or> tn_sb_buf tn ! 0 \<noteq> TELOPT_TTYPE \<or> tn_sb_buf tn ! 1 \<noteq> TTYPE_IS"
  shows "process_sb tn = Some tn"
  using assms by (auto simp: process_sb_def wf_telnet_def)

lemma sub_window_bounds:
  "0 < fst wh \<Longrightarrow> fst wh < 1000 \<Longrightarrow> 0 < snd wh \<Longrightarrow> snd wh < 1000 \<Longrightarrow>
   0 < fst (sub_window p wh) \<and> fst (sub_window p wh) < 1000 \<and>
   0 < snd (sub_window p wh) \<and> snd (sub_window p wh) < 1000"
  by (auto simp: sub_window_def accept_dim_def split: list.splits)

lemma process_sb_spec:
  assumes wf: "wf_telnet tn"
  shows "\<exists>tn'. process_sb tn = Some tn' \<and> wf_telnet tn' \<and> tn_st tn' = tn_st tn
           \<and> (tn_cols tn', tn_rows tn') = sub_window (sb_content tn) (tn_cols tn, tn_rows tn)
           \<and> term_string tn' = sub_term (sb_content tn) (term_string tn)"
proof -
  let ?p = "sb_content tn"
  have len: "length (tn_sb_buf tn) = 128" "tn_sb_len tn \<le> 128"
    using wf by (simp_all add: wf_telnet_def)
  consider (naws) "5 \<le> tn_sb_len tn" "tn_sb_buf tn ! 0 = TELOPT_NAWS"
    | (ttype) "3 \<le> tn_sb_len tn" "tn_sb_buf tn ! 0 = TELOPT_TTYPE" "tn_sb_buf tn ! 1 = TTYPE_IS"
    | (other) "tn_sb_len tn < 5 \<or> tn_sb_buf tn ! 0 \<noteq> TELOPT_NAWS"
        "tn_sb_len tn < 3 \<or> tn_sb_buf tn ! 0 \<noteq> TELOPT_TTYPE \<or> tn_sb_buf tn ! 1 \<noteq> TTYPE_IS"
    by linarith
  then show ?thesis
  proof cases
    case naws
    have "sub_term ?p (term_string tn) = term_string tn"
      using naws len by (intro sub_term_other) simp
    with process_sb_naws [OF wf naws] sub_window_bounds [of "(tn_cols tn, tn_rows tn)" ?p] wf
    show ?thesis by (auto simp: wf_telnet_def)
  next
    case ttype
    have "sub_window ?p (tn_cols tn, tn_rows tn) = (tn_cols tn, tn_rows tn)"
      using ttype len by (intro sub_window_other) simp
    with process_sb_ttype [OF wf ttype, of "term_string tn"] wf show ?thesis
      by (auto simp: wf_telnet_def)
  next
    case other
    have "sub_window ?p (tn_cols tn, tn_rows tn) = (tn_cols tn, tn_rows tn)"
      using other len by (intro sub_window_other) auto
    moreover have "sub_term ?p (term_string tn) = term_string tn"
      using other len by (intro sub_term_other) auto
    ultimately show ?thesis
      using process_sb_other [OF wf other] wf by simp
  qed
qed

lemma wf_telnet_update [simp]:
  "wf_telnet (tn\<lparr>tn_st := x\<rparr>) \<longleftrightarrow> wf_telnet tn"
  "wf_telnet (tn\<lparr>tn_cmd := c\<rparr>) \<longleftrightarrow> wf_telnet tn"
  by (simp_all add: wf_telnet_def)

lemma wf_telnet_sb:
  "wf_telnet tn \<Longrightarrow> length buf = 128 \<Longrightarrow> n \<le> 128 \<Longrightarrow>
   wf_telnet (tn\<lparr>tn_sb_buf := buf, tn_sb_len := n\<rparr>)"
  by (simp add: wf_telnet_def)

lemma put_out_simps [simp]:
  "io_tn (put_out cap b s) = io_tn s"
  "io_sent (put_out cap b s) = io_sent s"
  "io_out (put_out cap b s) = (if length (io_out s) < cap then io_out s @ [b] else io_out s)"
  by (simp_all add: put_out_def)

abbreviation goto :: "int \<Rightarrow> telnet_io \<Rightarrow> telnet_io" where
  "goto x s \<equiv> s\<lparr>io_tn := (io_tn s)\<lparr>tn_st := x\<rparr>\<rparr>"

text \<open>One equation per parser state.\<close>

lemma byte_in_data:
  "tn_st (io_tn s) = ST_DATA \<Longrightarrow>
   telnet_byte cap s b = (if b = IAC then Some (goto ST_IAC s) else Some (put_out cap b s))"
  by (simp add: telnet_byte_def Let_def)

lemma byte_in_iac:
  "tn_st (io_tn s) = ST_IAC \<Longrightarrow>
   telnet_byte cap s b =
     (if b = IAC then Some (goto ST_DATA (put_out cap IAC s))
      else if b \<in> {DO, DONT, WILL, WONT} then
        Some (s\<lparr>io_tn := (io_tn s)\<lparr>tn_cmd := b, tn_st := ST_IAC_CMD\<rparr>\<rparr>)
      else if b = SB then Some (s\<lparr>io_tn := (io_tn s)\<lparr>tn_sb_len := 0, tn_st := ST_SB\<rparr>\<rparr>)
      else Some (goto ST_DATA s))"
  by (simp add: telnet_byte_def Let_def)

lemma byte_in_cmd:
  "tn_st (io_tn s) = ST_IAC_CMD \<Longrightarrow>
   telnet_byte cap s b =
     Some (goto ST_DATA (s\<lparr>io_sent := io_sent s @ handle_iac_cmd (tn_cmd (io_tn s)) b\<rparr>))"
  by (simp add: telnet_byte_def Let_def)

lemma byte_in_sb:
  "tn_st (io_tn s) = ST_SB \<Longrightarrow>
   telnet_byte cap s b =
     (if b = IAC then Some (goto ST_SB_IAC s)
      else map_option (\<lambda>tn. s\<lparr>io_tn := tn\<rparr>) (sb_append (io_tn s) b))"
  by (cases "sb_append (io_tn s) b") (simp_all add: telnet_byte_def Let_def)

lemma byte_in_sb_iac:
  "tn_st (io_tn s) = ST_SB_IAC \<Longrightarrow>
   telnet_byte cap s b =
     (if b = SE then map_option (\<lambda>tn. s\<lparr>io_tn := tn\<lparr>tn_st := ST_DATA\<rparr>\<rparr>) (process_sb (io_tn s))
      else if b = IAC then
        map_option (\<lambda>tn. s\<lparr>io_tn := tn\<lparr>tn_st := ST_SB\<rparr>\<rparr>) (sb_append (io_tn s) IAC)
      else Some (goto ST_SB s))"
  by (cases "sb_append (io_tn s) IAC"; cases "process_sb (io_tn s)")
    (simp_all add: telnet_byte_def Let_def)

lemma byte_in_bad_state:
  "tn_st (io_tn s) \<notin> {0, 1, 2, 3, 4} \<Longrightarrow> telnet_byte cap s b = Some (goto ST_DATA s)"
  by (simp add: telnet_byte_def Let_def)

lemma wf_io_simps [simp]:
  "wf_io cap (s\<lparr>io_tn := tn\<rparr>) \<longleftrightarrow> wf_telnet tn \<and> length (io_out s) \<le> cap"
  "wf_io cap (s\<lparr>io_sent := x\<rparr>) \<longleftrightarrow> wf_io cap s"
  by (simp_all add: wf_io_def)

lemma telnet_byte_safe:
  assumes "wf_io cap s"
  shows "\<exists>s'. telnet_byte cap s b = Some s' \<and> wf_io cap s'"
proof -
  have wf: "wf_telnet (io_tn s)" and out: "length (io_out s) \<le> cap"
    using assms by (simp_all add: wf_io_def)
  have app: "\<exists>tn'. sb_append (io_tn s) c = Some tn' \<and> wf_telnet tn'" for c
    using sb_append_content [OF wf, of c] wf_telnet_sb [OF wf] by blast
  consider "tn_st (io_tn s) = ST_DATA" | "tn_st (io_tn s) = ST_IAC"
    | "tn_st (io_tn s) = ST_IAC_CMD" | "tn_st (io_tn s) = ST_SB"
    | "tn_st (io_tn s) = ST_SB_IAC" | "tn_st (io_tn s) \<notin> {0, 1, 2, 3, 4}"
    by blast
  then show ?thesis
  proof cases
    case 1
    then show ?thesis using wf out by (simp add: byte_in_data put_out_def) (simp add: wf_io_def)
  next
    case 2
    then show ?thesis using wf out
      by (simp add: byte_in_iac put_out_def) (simp add: wf_io_def wf_telnet_def)
  next
    case 3
    then show ?thesis using wf out by (simp add: byte_in_cmd)
  next
    case 4
    then show ?thesis using wf out app [of b] by (auto simp add: byte_in_sb)
  next
    case 5
    obtain tn' where "process_sb (io_tn s) = Some tn'" "wf_telnet tn'"
      using process_sb_spec [OF wf] by blast
    with 5 show ?thesis using wf out app [of IAC] by (auto simp add: byte_in_sb_iac)
  next
    case 6
    then show ?thesis using wf out by (simp add: byte_in_bad_state del: insert_iff)
  qed
qed

interpretation tn: safe_machine "telnet_byte cap" "wf_io cap" "\<lambda>_. True" for cap
  by unfold_locales (rule telnet_byte_safe)

lemma telnet_feed_safe:
  "wf_telnet tn \<Longrightarrow> \<exists>s'. telnet_feed tn inp cap = Some s' \<and> wf_io cap s'"
  unfolding telnet_feed_def by (rule tn.run_safe) (simp_all add: wf_io_def)

section \<open>Events\<close>

text \<open>
  The telnet protocol as a stream of events, their bytes on the wire, and their meaning for the
  part of the state the rest of the program reads: window size, terminal type, the input handed to
  the session and the replies.
\<close>

datatype tn_event =
    TData u8
  | TOption u8 u8
  | TSub bytes
  | TOther u8

fun tn_event_ok :: "tn_event \<Rightarrow> bool" where
  "tn_event_ok (TOption c _) \<longleftrightarrow> c \<in> {DO, DONT, WILL, WONT}"
| "tn_event_ok (TOther c) \<longleftrightarrow> c \<notin> {IAC, DO, DONT, WILL, WONT, SB}"
| "tn_event_ok _ \<longleftrightarrow> True"

definition tn_escape :: "u8 \<Rightarrow> bytes" where
  "tn_escape b = (if b = IAC then [IAC, IAC] else [b])"

fun tn_wire :: "tn_event \<Rightarrow> bytes" where
  "tn_wire (TData b) = tn_escape b"
| "tn_wire (TOption c opt) = [IAC, c, opt]"
| "tn_wire (TSub p) = [IAC, SB] @ concat (map tn_escape p) @ [IAC, SE]"
| "tn_wire (TOther c) = [IAC, c]"

record tn_view =
  v_cols :: int
  v_rows :: int
  v_term :: bytes
  v_out :: bytes
  v_sent :: bytes

definition view_of :: "telnet_io \<Rightarrow> tn_view" where
  "view_of s = \<lparr>v_cols = tn_cols (io_tn s), v_rows = tn_rows (io_tn s), v_term = term_string (io_tn s),
                v_out = io_out s, v_sent = io_sent s\<rparr>"

fun tn_meaning :: "nat \<Rightarrow> tn_view \<Rightarrow> tn_event \<Rightarrow> tn_view" where
  "tn_meaning cap v (TData b) = (if length (v_out v) < cap then v\<lparr>v_out := v_out v @ [b]\<rparr> else v)"
| "tn_meaning cap v (TOption c opt) = v\<lparr>v_sent := v_sent v @ handle_iac_cmd c opt\<rparr>"
| "tn_meaning cap v (TSub p) =
     (let q = take 128 p; (w, h) = sub_window q (v_cols v, v_rows v)
      in v\<lparr>v_cols := w, v_rows := h, v_term := sub_term q (v_term v)\<rparr>)"
| "tn_meaning cap v (TOther c) = v"

definition in_data :: "nat \<Rightarrow> telnet_io \<Rightarrow> bool" where
  "in_data cap s \<longleftrightarrow> wf_io cap s \<and> tn_st (io_tn s) = ST_DATA"

lemma escape_in_sb:
  assumes "wf_io cap s" and st: "tn_st (io_tn s) = ST_SB"
  shows "\<exists>buf n. fold_opt (telnet_byte cap) s (tn_escape b) =
             Some (s\<lparr>io_tn := (io_tn s)\<lparr>tn_sb_buf := buf, tn_sb_len := n\<rparr>\<rparr>)
           \<and> length buf = 128 \<and> n \<le> 128
           \<and> take n buf = take 128 (sb_content (io_tn s) @ [b])"
proof (cases "b = IAC")
  case True
  have "wf_telnet ((io_tn s)\<lparr>tn_st := ST_SB_IAC\<rparr>)"
    using assms(1) by (simp add: wf_io_def)
  from sb_append_content [OF this, of IAC] obtain buf n where
    app: "sb_append ((io_tn s)\<lparr>tn_st := ST_SB_IAC\<rparr>) IAC =
            Some ((io_tn s)\<lparr>tn_st := ST_SB_IAC, tn_sb_buf := buf, tn_sb_len := n\<rparr>)"
    and "length buf = 128" "n \<le> 128" "take n buf = take 128 (sb_content (io_tn s) @ [IAC])"
    by auto
  moreover have "(io_tn s)\<lparr>tn_st := ST_SB_IAC, tn_sb_buf := buf, tn_sb_len := n, tn_st := ST_SB\<rparr>
                   = (io_tn s)\<lparr>tn_sb_buf := buf, tn_sb_len := n\<rparr>"
    using st by (cases "io_tn s") simp
  ultimately show ?thesis
    using True st by (intro exI [of _ buf] exI [of _ n])
      (simp add: tn_escape_def byte_in_sb byte_in_sb_iac)
next
  case False
  have "wf_telnet (io_tn s)" using assms(1) by (simp add: wf_io_def)
  from sb_append_content [OF this, of b] obtain buf n where
    "sb_append (io_tn s) b = Some ((io_tn s)\<lparr>tn_sb_buf := buf, tn_sb_len := n\<rparr>)"
    "length buf = 128" "n \<le> 128" "take n buf = take 128 (sb_content (io_tn s) @ [b])"
    by blast
  with False st show ?thesis
    by (intro exI [of _ buf] exI [of _ n]) (simp add: tn_escape_def byte_in_sb)
qed

lemma wire_sub_body:
  assumes "wf_io cap s" and "tn_st (io_tn s) = ST_SB"
  shows "\<exists>buf n. fold_opt (telnet_byte cap) s (concat (map tn_escape p)) =
             Some (s\<lparr>io_tn := (io_tn s)\<lparr>tn_sb_buf := buf, tn_sb_len := n\<rparr>\<rparr>)
           \<and> length buf = 128 \<and> n \<le> 128
           \<and> take n buf = take 128 (sb_content (io_tn s) @ p)"
  using assms
proof (induction p arbitrary: s)
  case Nil
  then show ?case
    by (intro exI [of _ "tn_sb_buf (io_tn s)"] exI [of _ "tn_sb_len (io_tn s)"])
      (simp add: wf_io_def wf_telnet_def)
next
  case (Cons b p)
  obtain buf n where step: "fold_opt (telnet_byte cap) s (tn_escape b) =
        Some (s\<lparr>io_tn := (io_tn s)\<lparr>tn_sb_buf := buf, tn_sb_len := n\<rparr>\<rparr>)"
    and buf: "length buf = 128" "n \<le> 128"
    and content: "take n buf = take 128 (sb_content (io_tn s) @ [b])"
    using escape_in_sb [OF Cons.prems] by blast
  let ?s1 = "s\<lparr>io_tn := (io_tn s)\<lparr>tn_sb_buf := buf, tn_sb_len := n\<rparr>\<rparr>"
  have "wf_io cap ?s1" "tn_st (io_tn ?s1) = ST_SB"
    using Cons.prems buf by (simp_all add: wf_io_def wf_telnet_sb)
  from Cons.IH [OF this] obtain buf' n' where
    "fold_opt (telnet_byte cap) ?s1 (concat (map tn_escape p)) =
       Some (s\<lparr>io_tn := (io_tn s)\<lparr>tn_sb_buf := buf', tn_sb_len := n'\<rparr>\<rparr>)"
    and "length buf' = 128" "n' \<le> 128" "take n' buf' = take 128 (take n buf @ p)"
    by auto
  moreover have "take 128 (take n buf @ p) = take 128 (sb_content (io_tn s) @ b # p)"
    unfolding content take_take_append by simp
  ultimately show ?case
    using step by (intro exI [of _ buf'] exI [of _ n']) (simp add: fold_opt_append)
qed

lemma view_of_simps:
  "view_of (s\<lparr>io_tn := tn\<rparr>) =
     (view_of s)\<lparr>v_cols := tn_cols tn, v_rows := tn_rows tn, v_term := term_string tn\<rparr>"
  "view_of (s\<lparr>io_sent := x\<rparr>) = (view_of s)\<lparr>v_sent := x\<rparr>"
  "view_of (put_out cap b s) =
     (if length (io_out s) < cap then (view_of s)\<lparr>v_out := io_out s @ [b]\<rparr> else view_of s)"
  by (simp_all add: view_of_def put_out_def)

lemma view_of_sel [simp]:
  "v_cols (view_of s) = tn_cols (io_tn s)" "v_rows (view_of s) = tn_rows (io_tn s)"
  "v_term (view_of s) = term_string (io_tn s)"
  "v_out (view_of s) = io_out s" "v_sent (view_of s) = io_sent s"
  by (simp_all add: view_of_def)

lemma tn_view_same [simp]:
  "(view_of s)\<lparr>v_cols := tn_cols (io_tn s), v_rows := tn_rows (io_tn s),
      v_term := term_string (io_tn s)\<rparr> = view_of s"
  by (simp add: view_of_def)

lemma wire_sub:
  assumes "in_data cap s"
  shows "\<exists>s'. fold_opt (telnet_byte cap) s (tn_wire (TSub p)) = Some s'
           \<and> in_data cap s' \<and> view_of s' = tn_meaning cap (view_of s) (TSub p)"
proof -
  have wf: "wf_telnet (io_tn s)" and out: "length (io_out s) \<le> cap" and st: "tn_st (io_tn s) = ST_DATA"
    using assms by (simp_all add: in_data_def wf_io_def)
  let ?s1 = "s\<lparr>io_tn := (io_tn s)\<lparr>tn_sb_len := 0, tn_st := ST_SB\<rparr>\<rparr>"
  have open': "fold_opt (telnet_byte cap) s [IAC, SB] = Some ?s1"
    using st by (simp add: byte_in_data byte_in_iac)
  have wf1: "wf_telnet (io_tn ?s1)" using wf by (simp add: wf_telnet_def)
  then have "wf_io cap ?s1" "tn_st (io_tn ?s1) = ST_SB" using out by simp_all
  from wire_sub_body [OF this, of p] obtain buf n where body:
    "fold_opt (telnet_byte cap) ?s1 (concat (map tn_escape p)) =
       Some (s\<lparr>io_tn := (io_tn ?s1)\<lparr>tn_sb_buf := buf, tn_sb_len := n\<rparr>\<rparr>)"
    and buf: "length buf = 128" "n \<le> 128" "take n buf = take 128 p"
    by auto
  let ?tn = "(io_tn ?s1)\<lparr>tn_sb_buf := buf, tn_sb_len := n, tn_st := ST_SB_IAC\<rparr>"
  have "wf_telnet ?tn" using wf buf(1,2) by (simp add: wf_telnet_def)
  from process_sb_spec [OF this] obtain tn' where proc: "process_sb ?tn = Some tn'" "wf_telnet tn'"
    and win: "(tn_cols tn', tn_rows tn') = sub_window (take 128 p) (tn_cols (io_tn s), tn_rows (io_tn s))"
    and tty: "term_string tn' = sub_term (take 128 p) (term_string (io_tn s))"
    using buf(3) by auto
  have "fold_opt (telnet_byte cap) (s\<lparr>io_tn := (io_tn ?s1)\<lparr>tn_sb_buf := buf, tn_sb_len := n\<rparr>\<rparr>) [IAC, SE]
          = Some (s\<lparr>io_tn := tn'\<lparr>tn_st := ST_DATA\<rparr>\<rparr>)"
    using proc by (simp add: byte_in_sb byte_in_sb_iac)
  with open' body have "fold_opt (telnet_byte cap) s (tn_wire (TSub p)) =
      Some (s\<lparr>io_tn := tn'\<lparr>tn_st := ST_DATA\<rparr>\<rparr>)"
    by (simp only: tn_wire.simps fold_opt_append option.case)
  then show ?thesis
    using proc out win tty
    by (auto simp: in_data_def view_of_simps Let_def split: prod.splits)
qed

lemma wire_refines:
  assumes "in_data cap s" and "tn_event_ok e"
  shows "\<exists>s'. fold_opt (telnet_byte cap) s (tn_wire e) = Some s'
           \<and> in_data cap s' \<and> view_of s' = tn_meaning cap (view_of s) e"
proof (cases e)
  case (TSub p)
  then show ?thesis using wire_sub [OF assms(1)] by simp
next
  case (TData b)
  have wf: "wf_telnet (io_tn s)" and out: "length (io_out s) \<le> cap" and st: "tn_st (io_tn s) = ST_DATA"
    using assms by (simp_all add: in_data_def wf_io_def)
  have "\<exists>s'. fold_opt (telnet_byte cap) s (tn_wire e) = Some s' \<and> s' = put_out cap b s"
    using TData st by (auto simp: tn_escape_def byte_in_data byte_in_iac put_out_def)
  then show ?thesis
    using TData wf out st by (auto simp: in_data_def view_of_simps wf_io_def)
next
  case (TOption c opt)
  with assms show ?thesis
    by (auto simp: in_data_def byte_in_data byte_in_iac byte_in_cmd view_of_simps wf_io_def)
next
  case (TOther c)
  with assms show ?thesis
    by (auto simp: in_data_def byte_in_data byte_in_iac view_of_simps wf_io_def)
qed

interpretation tn_events: step_refinement
  "\<lambda>s e. fold_opt (telnet_byte cap) s (tn_wire e)" "tn_meaning cap" view_of "in_data cap" tn_event_ok
  for cap
  by unfold_locales (rule wire_refines)


section \<open>Independence of the read boundaries\<close>

text \<open>
  A run started with earlier output and replies is the run without them, behind that output, as long
  as the buffers are not full.
\<close>

definition behind :: "bytes \<Rightarrow> bytes \<Rightarrow> telnet_io \<Rightarrow> telnet_io" where
  "behind out sent s = s\<lparr>io_out := out @ io_out s, io_sent := sent @ io_sent s\<rparr>"

lemma behind_simps [simp]:
  "io_tn (behind out sent s) = io_tn s"
  "io_out (behind out sent s) = out @ io_out s"
  "io_sent (behind out sent s) = sent @ io_sent s"
  "behind out sent (s\<lparr>io_tn := tn\<rparr>) = (behind out sent s)\<lparr>io_tn := tn\<rparr>"
  by (simp_all add: behind_def)

lemma telnet_byte_behind:
  assumes "length (io_out s) < cap" and "length out + length (io_out s) < cap'"
  shows "telnet_byte cap' (behind out sent s) b = map_option (behind out sent) (telnet_byte cap s b)"
proof -
  have put: "put_out cap' c (behind out sent s) = behind out sent (put_out cap c s)" for c
    using assms by (simp add: put_out_def behind_def)
  consider "tn_st (io_tn s) = ST_DATA" | "tn_st (io_tn s) = ST_IAC"
    | "tn_st (io_tn s) = ST_IAC_CMD" | "tn_st (io_tn s) = ST_SB"
    | "tn_st (io_tn s) = ST_SB_IAC" | "tn_st (io_tn s) \<notin> {0, 1, 2, 3, 4}"
    by blast
  then show ?thesis
  proof cases
    case 1 then show ?thesis by (simp add: byte_in_data put)
  next
    case 2 then show ?thesis by (simp add: byte_in_iac put)
  next
    case 3 then show ?thesis by (simp add: byte_in_cmd behind_def)
  next
    case 4 then show ?thesis by (simp add: byte_in_sb option.map_comp comp_def)
  next
    case 5 then show ?thesis by (simp add: byte_in_sb_iac option.map_comp comp_def)
  next
    case 6 then show ?thesis by (simp add: byte_in_bad_state del: insert_iff)
  qed
qed

lemma telnet_byte_out_length:
  "telnet_byte cap s b = Some s' \<Longrightarrow> length (io_out s') \<le> Suc (length (io_out s))"
  by (auto simp: telnet_byte_def Let_def put_out_def split: if_splits Option.bind_splits)

lemma fold_behind:
  assumes "length (io_out s) + length inp \<le> cap"
    and "length out + length (io_out s) + length inp \<le> cap'"
  shows "fold_opt (telnet_byte cap') (behind out sent s) inp =
           map_option (behind out sent) (fold_opt (telnet_byte cap) s inp)"
  using assms
proof (induction inp arbitrary: s)
  case Nil
  then show ?case by simp
next
  case (Cons b inp)
  have step: "telnet_byte cap' (behind out sent s) b = map_option (behind out sent) (telnet_byte cap s b)"
    using Cons.prems by (intro telnet_byte_behind) auto
  show ?case
  proof (cases "telnet_byte cap s b")
    case None
    then show ?thesis by (simp add: step)
  next
    case (Some s1)
    then have "length (io_out s1) \<le> Suc (length (io_out s))" by (rule telnet_byte_out_length)
    with Cons.prems have "fold_opt (telnet_byte cap') (behind out sent s1) inp =
        map_option (behind out sent) (fold_opt (telnet_byte cap) s1 inp)"
      by (intro Cons.IH) auto
    with Some show ?thesis by (simp add: step)
  qed
qed

lemma fold_out_length:
  "fold_opt (telnet_byte cap) s inp = Some s' \<Longrightarrow> length (io_out s') \<le> length (io_out s) + length inp"
proof (induction inp arbitrary: s)
  case Nil
  then show ?case by simp
next
  case (Cons b inp)
  then obtain s1 where "telnet_byte cap s b = Some s1" "fold_opt (telnet_byte cap) s1 inp = Some s'"
    by (auto split: option.splits)
  with Cons.IH [of s1] telnet_byte_out_length [of cap s b s1] show ?case by simp
qed

lemma telnet_feed_out_length: "telnet_feed tn inp cap = Some s \<Longrightarrow> length (io_out s) \<le> length inp"
  using fold_out_length unfolding telnet_feed_def by fastforce

lemma fold_cap_irrelevant:
  assumes "length inp \<le> cap" and "length inp \<le> cap'"
  shows "telnet_feed tn inp cap = telnet_feed tn inp cap'"
proof -
  have "behind [] [] = id" by (simp add: behind_def fun_eq_iff)
  with assms fold_behind [of "\<lparr>io_tn = tn, io_out = [], io_sent = []\<rparr>" inp cap "[]" cap' "[]"]
  show ?thesis by (simp add: telnet_feed_def option.map_id)
qed

section \<open>Properties\<close>

text \<open>
  C4: memory safety of the telnet parser. From a well-formed state, whatever bytes the caller
  sends, \<open>telnet_feed\<close> never writes outside of the subnegotiation buffer, the terminal type or the output
  buffer; it leaves a well-formed state (in particular a window size between 1 and 999 and a
  NUL-terminated terminal type) and at most \<open>out_cap\<close> bytes of output.
\<close>

theorem telnet_feed_memory_safe:
  assumes "wf_telnet tn"
  shows "\<exists>s. telnet_feed tn inp out_cap = Some s \<and> wf_telnet (io_tn s) \<and> length (io_out s) \<le> out_cap"
  using telnet_feed_safe [OF assms] by (simp add: wf_io_def)

theorem telnet_feed_memory_safe_witness:
  "wf_telnet telnet_zero \<and>
   (\<exists>s. telnet_feed telnet_zero [IAC, SB, TELOPT_NAWS, 0, 132, 0, 50, IAC, SE, 104, 105] 1 = Some s
      \<and> wf_telnet (io_tn s) \<and> length (io_out s) \<le> 1)"
  using wf_telnet_zero telnet_feed_memory_safe [OF wf_telnet_zero] by blast

text \<open>
  C5: the parser implements the telnet event semantics. On the wire form of any sequence of
  events (data bytes, option commands, subnegotiations, other commands), with bytes 255 doubled, the window size, the
  terminal type, the session's input and the replies are those the event semantics gives, and the
  parser is back in its data state.
\<close>

theorem telnet_feed_events:
  assumes "wf_telnet tn" and "tn_st tn = ST_DATA" and "\<forall>e \<in> set es. tn_event_ok e"
  shows "\<exists>s. telnet_feed tn (concat (map tn_wire es)) cap = Some s \<and> tn_st (io_tn s) = ST_DATA
           \<and> view_of s = foldl (tn_meaning cap)
                \<lparr>v_cols = tn_cols tn, v_rows = tn_rows tn, v_term = term_string tn,
                 v_out = [], v_sent = []\<rparr> es"
proof -
  let ?s = "\<lparr>io_tn = tn, io_out = [], io_sent = []\<rparr>"
  have "in_data cap ?s" using assms(1,2) by (simp add: in_data_def wf_io_def)
  from tn_events.run_refines [OF this assms(3)] show ?thesis
    by (auto simp: telnet_feed_def fold_opt_concat in_data_def view_of_def)
qed

theorem telnet_feed_events_witness:
  "\<exists>s. telnet_feed telnet_zero (concat (map tn_wire
          [TData 255, TSub [31, 0, 132, 0, 50], TOption DO 31, TSub [24, 0, 97, 110]])) 80 = Some s
       \<and> tn_st (io_tn s) = ST_DATA
       \<and> view_of s = \<lparr>v_cols = 132, v_rows = 50, v_term = [97, 110], v_out = [255], v_sent = [255, 252, 31]\<rparr>"
proof -
  have "takeWhile (\<lambda>b. b \<noteq> 0) (replicate 64 (0::u8)) = []"
    by (simp add: numeral_eq_Suc)
  then show ?thesis
    using telnet_feed_events [OF wf_telnet_zero, of
      "[TData 255, TSub [31, 0, 132, 0, 50], TOption DO 31, TSub [24, 0, 97, 110]]" 80]
    by (simp add: telnet_zero_def handle_iac_cmd_def tn_send3_def sub_window_def sub_term_def
          accept_dim_def)
qed

text \<open>
  C6: the parser does not depend on how TCP cuts the stream. Feeding \<open>xs\<close> and then \<open>ys\<close> in two
  calls, each with room for its input, gives the same state, the same session input and the same
  replies as one call on \<open>xs @ ys\<close>.
\<close>

theorem telnet_feed_chunks:
  assumes "telnet_feed tn xs c1 = Some s1" and "telnet_feed (io_tn s1) ys c2 = Some s2"
    and "length xs \<le> c1" and "length ys \<le> c2" and "length xs + length ys \<le> c"
  shows "telnet_feed tn (xs @ ys) c =
           Some \<lparr>io_tn = io_tn s2, io_out = io_out s1 @ io_out s2, io_sent = io_sent s1 @ io_sent s2\<rparr>"
proof -
  let ?z = "\<lambda>tn. \<lparr>io_tn = tn, io_out = [], io_sent = []\<rparr>"
  have one: "fold_opt (telnet_byte c) (?z tn) xs = Some s1"
    using assms fold_cap_irrelevant [of xs c1 c tn] by (simp add: telnet_feed_def)
  have "length (io_out s1) \<le> length xs"
    using telnet_feed_out_length [OF assms(1)] .
  then have "fold_opt (telnet_byte c) (behind (io_out s1) (io_sent s1) (?z (io_tn s1))) ys =
      map_option (behind (io_out s1) (io_sent s1)) (fold_opt (telnet_byte c2) (?z (io_tn s1)) ys)"
    using assms by (intro fold_behind) auto
  moreover have "behind (io_out s1) (io_sent s1) (?z (io_tn s1)) = s1"
    by (simp add: behind_def)
  ultimately have "fold_opt (telnet_byte c) s1 ys = Some (behind (io_out s1) (io_sent s1) s2)"
    using assms(2) by (simp add: telnet_feed_def)
  then show ?thesis
    using fold_opt_append_Some [OF one] by (simp add: telnet_feed_def behind_def)
qed

theorem telnet_feed_chunks_witness:
  "telnet_feed telnet_zero ([104, 255] @ [255, 105]) 4 =
     Some \<lparr>io_tn = telnet_zero, io_out = [104] @ [255, 105], io_sent = [] @ []\<rparr>"
proof -
  let ?s1 = "\<lparr>io_tn = telnet_zero\<lparr>tn_st := ST_IAC\<rparr>, io_out = [104], io_sent = []\<rparr>"
  let ?s2 = "\<lparr>io_tn = telnet_zero, io_out = [255, 105], io_sent = []\<rparr>"
  have "telnet_feed telnet_zero [104, 255] 2 = Some ?s1"
    by (simp add: telnet_feed_def byte_in_data telnet_zero_def put_out_def)
  moreover have "telnet_feed (io_tn ?s1) [255, 105] 2 = Some ?s2"
    by (simp add: telnet_feed_def byte_in_data byte_in_iac telnet_zero_def put_out_def)
  ultimately show ?thesis
    using telnet_feed_chunks [of telnet_zero "[104, 255]" 2 ?s1 "[255, 105]" 2 ?s2 4] by simp
qed

end
