(* ===== verification/Plank_Cbor.thy ===== *)
theory Plank_Cbor
  imports Mutineer_Prelude "HOL-Library.Multiset" "HOL-Library.Product_Lexorder" "HOL-Library.List_Lexorder"
begin

text \<open>
  The CBOR codec of the PLANK network layer, \<^verbatim>\<open>src/plank/plank_cbor.c\<close>: encoder, canonical map
  builder, decoder, skipping and validation.

  Sizes on the encoder side are sizes of existing objects, so they are natural numbers (two of
  them never add up to more than \<open>SIZE_MAX\<close>). The decoder computes with 64-bit words, because it
  adds lengths it reads from untrusted input to its position. A \<^term>\<open>None\<close> of an encoder
  operation is a write through a NULL buffer. \<open>cbor_skip\<close> recurses once per nesting level and does
  not bound its recursion, so its model takes the number of stack frames that are available;
  \<^term>\<open>None\<close> means that they ran out.
\<close>

section \<open>Types\<close>

abbreviation CBOR_TYPE_UINT :: u8 where "CBOR_TYPE_UINT \<equiv> 0"
abbreviation CBOR_TYPE_NEGINT :: u8 where "CBOR_TYPE_NEGINT \<equiv> 1"
abbreviation CBOR_TYPE_BYTES :: u8 where "CBOR_TYPE_BYTES \<equiv> 2"
abbreviation CBOR_TYPE_TEXT :: u8 where "CBOR_TYPE_TEXT \<equiv> 3"
abbreviation CBOR_TYPE_ARRAY :: u8 where "CBOR_TYPE_ARRAY \<equiv> 4"
abbreviation CBOR_TYPE_MAP :: u8 where "CBOR_TYPE_MAP \<equiv> 5"
abbreviation CBOR_TYPE_TAG :: u8 where "CBOR_TYPE_TAG \<equiv> 6"
abbreviation CBOR_TYPE_SIMPLE :: u8 where "CBOR_TYPE_SIMPLE \<equiv> 7"

text \<open>
  The encoder: whether \<open>buf\<close> is NULL, its capacity, the bytes written so far (\<open>len\<close> is their
  number) and the sticky error flag.
\<close>

record cbor_encoder_t =
  enc_null :: bool
  enc_cap :: nat
  enc_data :: bytes
  enc_error :: bool

abbreviation enc_len :: "cbor_encoder_t \<Rightarrow> nat" where
  "enc_len enc \<equiv> length (enc_data enc)"

record cbor_decoder_t =
  dec_buf :: bytes
  dec_len :: u64
  dec_pos :: u64
  dec_error :: bool

record cbor_map_entry_t =
  me_key :: string
  me_value :: bytes

record cbor_map_builder_t =
  mb_entries :: "cbor_map_entry_t list"
  mb_cap :: nat

section \<open>Encoder\<close>

text \<open>\<open>mem n\<close> says whether an allocation of \<open>n\<close> bytes succeeds.\<close>

definition encoder_ensure_space :: "(nat \<Rightarrow> bool) \<Rightarrow> cbor_encoder_t \<Rightarrow> nat \<Rightarrow> cbor_encoder_t" where
  "encoder_ensure_space mem enc needed =
     (if enc_error enc then enc
      else if enc_null enc then
        (if enc_cap enc < enc_len enc + needed then
           (let new_cap = enc_cap enc * 2;
                new_cap = (if new_cap < enc_len enc + needed then enc_len enc + needed + 256 else new_cap)
            in if \<not> mem new_cap then enc\<lparr>enc_error := True\<rparr>
               else enc\<lparr>enc_null := False, enc_cap := new_cap\<rparr>)
         else enc)
      else if enc_cap enc < enc_len enc + needed then enc\<lparr>enc_error := True\<rparr>
      else enc)"

definition encoder_write_bytes :: "(nat \<Rightarrow> bool) \<Rightarrow> cbor_encoder_t \<Rightarrow> bytes \<Rightarrow> cbor_encoder_t option" where
  "encoder_write_bytes mem enc data =
     (let enc = encoder_ensure_space mem enc (length data) in
      if enc_error enc then Some enc
      else if enc_null enc then None
      else Some (enc\<lparr>enc_data := enc_data enc @ data\<rparr>))"

definition encoder_write_byte :: "(nat \<Rightarrow> bool) \<Rightarrow> cbor_encoder_t \<Rightarrow> u8 \<Rightarrow> cbor_encoder_t option" where
  "encoder_write_byte mem enc b =
     (let enc = encoder_ensure_space mem enc 1 in
      if enc_error enc then Some enc
      else if enc_null enc then None
      else Some (enc\<lparr>enc_data := enc_data enc @ [b]\<rparr>))"

definition encode_type_arg :: "(nat \<Rightarrow> bool) \<Rightarrow> cbor_encoder_t \<Rightarrow> u8 \<Rightarrow> u64 \<Rightarrow> cbor_encoder_t option" where
  "encode_type_arg mem enc major arg =
     (let mt = push_bit 5 major in
      if arg < 24 then
        encoder_write_byte mem enc (mt OR ucast arg)
      else if arg \<le> 0xFF then
        fold_opt (encoder_write_byte mem) enc [mt OR 24, ucast arg]
      else if arg \<le> 0xFFFF then
        fold_opt (encoder_write_byte mem) enc [mt OR 25, ucast (drop_bit 8 arg), ucast arg]
      else if arg \<le> 0xFFFFFFFF then
        fold_opt (encoder_write_byte mem) enc
          [mt OR 26, ucast (drop_bit 24 arg), ucast (drop_bit 16 arg), ucast (drop_bit 8 arg), ucast arg]
      else
        fold_opt (encoder_write_byte mem) enc
          [mt OR 27, ucast (drop_bit 56 arg), ucast (drop_bit 48 arg), ucast (drop_bit 40 arg),
           ucast (drop_bit 32 arg), ucast (drop_bit 24 arg), ucast (drop_bit 16 arg),
           ucast (drop_bit 8 arg), ucast arg])"

definition cbor_encoder_init :: "bool \<Rightarrow> nat \<Rightarrow> cbor_encoder_t" where
  "cbor_encoder_init buf_null cap =
     \<lparr>enc_null = buf_null, enc_cap = cap, enc_data = [], enc_error = False\<rparr>"

definition cbor_encoder_init_dynamic :: "(nat \<Rightarrow> bool) \<Rightarrow> nat \<Rightarrow> cbor_encoder_t" where
  "cbor_encoder_init_dynamic mem initial_cap =
     (let cap = (if initial_cap < 64 then 64 else initial_cap)
      in \<lparr>enc_null = (\<not> mem cap), enc_cap = cap, enc_data = [], enc_error = (\<not> mem cap)\<rparr>)"

definition cbor_encoder_free :: "cbor_encoder_t \<Rightarrow> cbor_encoder_t" where
  "cbor_encoder_free enc = enc\<lparr>enc_null := True, enc_cap := 0, enc_data := []\<rparr>"

definition cbor_encoder_data :: "cbor_encoder_t \<Rightarrow> bytes option" where
  "cbor_encoder_data enc = (if enc_null enc then None else Some (enc_data enc))"

definition cbor_encoder_len :: "cbor_encoder_t \<Rightarrow> nat" where
  "cbor_encoder_len enc = enc_len enc"

definition cbor_encoder_ok :: "cbor_encoder_t \<Rightarrow> bool" where
  "cbor_encoder_ok enc = (\<not> enc_error enc)"

definition cbor_encode_uint :: "(nat \<Rightarrow> bool) \<Rightarrow> cbor_encoder_t \<Rightarrow> u64 \<Rightarrow> cbor_encoder_t option" where
  "cbor_encode_uint mem enc val = encode_type_arg mem enc CBOR_TYPE_UINT val"

definition cbor_encode_negint :: "(nat \<Rightarrow> bool) \<Rightarrow> cbor_encoder_t \<Rightarrow> u64 \<Rightarrow> cbor_encoder_t option" where
  "cbor_encode_negint mem enc val = encode_type_arg mem enc CBOR_TYPE_NEGINT val"

text \<open>The \<open>int64_t\<close> argument is a 64-bit word read as two's complement.\<close>

definition cbor_encode_int :: "(nat \<Rightarrow> bool) \<Rightarrow> cbor_encoder_t \<Rightarrow> u64 \<Rightarrow> cbor_encoder_t option" where
  "cbor_encode_int mem enc val =
     (if 0 \<le> sint val then cbor_encode_uint mem enc val
      else cbor_encode_negint mem enc (- (val + 1)))"

text \<open>A \<open>(data, len)\<close> pair is \<^term>\<open>None\<close> for a NULL pointer, for which only the header is written.\<close>

definition cbor_encode_bytes :: "(nat \<Rightarrow> bool) \<Rightarrow> cbor_encoder_t \<Rightarrow> bytes option \<Rightarrow> nat \<Rightarrow> cbor_encoder_t option" where
  "cbor_encode_bytes mem enc data len = do {
     enc \<leftarrow> encode_type_arg mem enc CBOR_TYPE_BYTES (word_of_nat len);
     (case data of
        Some d \<Rightarrow> if 0 < len then (if length d < len then None else encoder_write_bytes mem enc (take len d))
                  else Some enc
      | None \<Rightarrow> Some enc) }"

definition cbor_encode_text_len :: "(nat \<Rightarrow> bool) \<Rightarrow> cbor_encoder_t \<Rightarrow> bytes option \<Rightarrow> nat \<Rightarrow> cbor_encoder_t option" where
  "cbor_encode_text_len mem enc str len = do {
     enc \<leftarrow> encode_type_arg mem enc CBOR_TYPE_TEXT (word_of_nat len);
     (case str of
        Some d \<Rightarrow> if 0 < len then (if length d < len then None else encoder_write_bytes mem enc (take len d))
                  else Some enc
      | None \<Rightarrow> Some enc) }"

definition text_bytes :: "string \<Rightarrow> bytes" where
  "text_bytes s = map of_char s"

definition cbor_encode_text :: "(nat \<Rightarrow> bool) \<Rightarrow> cbor_encoder_t \<Rightarrow> string option \<Rightarrow> cbor_encoder_t option" where
  "cbor_encode_text mem enc str =
     cbor_encode_text_len mem enc (map_option text_bytes str)
       (case str of Some s \<Rightarrow> length s | None \<Rightarrow> 0)"

definition cbor_encode_array :: "(nat \<Rightarrow> bool) \<Rightarrow> cbor_encoder_t \<Rightarrow> nat \<Rightarrow> cbor_encoder_t option" where
  "cbor_encode_array mem enc cnt = encode_type_arg mem enc CBOR_TYPE_ARRAY (word_of_nat cnt)"

definition cbor_encode_map :: "(nat \<Rightarrow> bool) \<Rightarrow> cbor_encoder_t \<Rightarrow> nat \<Rightarrow> cbor_encoder_t option" where
  "cbor_encode_map mem enc cnt = encode_type_arg mem enc CBOR_TYPE_MAP (word_of_nat cnt)"

definition cbor_encode_bool :: "(nat \<Rightarrow> bool) \<Rightarrow> cbor_encoder_t \<Rightarrow> bool \<Rightarrow> cbor_encoder_t option" where
  "cbor_encode_bool mem enc val = encoder_write_byte mem enc (0xF4 + (if val then 1 else 0))"

definition cbor_encode_null :: "(nat \<Rightarrow> bool) \<Rightarrow> cbor_encoder_t \<Rightarrow> cbor_encoder_t option" where
  "cbor_encode_null mem enc = encoder_write_byte mem enc 0xF6"

definition cbor_encode_raw :: "(nat \<Rightarrow> bool) \<Rightarrow> cbor_encoder_t \<Rightarrow> bytes \<Rightarrow> cbor_encoder_t option" where
  "cbor_encode_raw mem enc data = encoder_write_bytes mem enc data"

section \<open>Canonical map builder\<close>

definition cbor_map_builder_init :: cbor_map_builder_t where
  "cbor_map_builder_init = \<lparr>mb_entries = [], mb_cap = 0\<rparr>"

definition cbor_map_builder_free :: "cbor_map_builder_t \<Rightarrow> cbor_map_builder_t" where
  "cbor_map_builder_free mb = \<lparr>mb_entries = [], mb_cap = 0\<rparr>"

text \<open>
  The result is the C return value with the builder. The entry table is grown before the copy of
  the value is allocated, so a failure of the second allocation keeps the larger capacity. An
  entry is 24 bytes.
\<close>

definition cbor_map_builder_add ::
    "(nat \<Rightarrow> bool) \<Rightarrow> cbor_map_builder_t \<Rightarrow> string \<Rightarrow> bytes \<Rightarrow> bool \<times> cbor_map_builder_t" where
  "cbor_map_builder_add mem mb key encoded_value =
     (let cnt = length (mb_entries mb);
          new_cap = (if mb_cap mb = 0 then 8 else mb_cap mb * 2) in
      if mb_cap mb \<le> cnt \<and> \<not> mem (new_cap * 24) then (False, mb)
      else
        (let mb = (if mb_cap mb \<le> cnt then mb\<lparr>mb_cap := new_cap\<rparr> else mb) in
         if \<not> mem (length encoded_value) then (False, mb)
         else (True, mb\<lparr>mb_entries := mb_entries mb @ [\<lparr>me_key = key, me_value = encoded_value\<rparr>]\<rparr>)))"

definition compare_map_entries :: "cbor_map_entry_t \<Rightarrow> cbor_map_entry_t \<Rightarrow> int" where
  "compare_map_entries ea eb =
     (let len_a = length (me_key ea); len_b = length (me_key eb) in
      if len_a \<noteq> len_b then (if len_a < len_b then -1 else 1)
      else mem_cmp (text_bytes (me_key ea)) (text_bytes (me_key eb)))"

text \<open>
  \<open>qsort\<close> of the C library is the parameter \<open>qsort\<close>; its specification is that it rearranges the
  table so that no entry compares greater than a later one.
\<close>

definition is_qsort :: "((cbor_map_entry_t \<Rightarrow> cbor_map_entry_t \<Rightarrow> int) \<Rightarrow> cbor_map_entry_t list \<Rightarrow> cbor_map_entry_t list) \<Rightarrow> bool" where
  "is_qsort qsort \<longleftrightarrow>
     (\<forall>es. mset (qsort compare_map_entries es) = mset es
        \<and> sorted_wrt (\<lambda>a b. compare_map_entries a b \<le> 0) (qsort compare_map_entries es))"

definition cbor_map_builder_encode ::
    "(nat \<Rightarrow> bool) \<Rightarrow> ((cbor_map_entry_t \<Rightarrow> cbor_map_entry_t \<Rightarrow> int) \<Rightarrow> cbor_map_entry_t list \<Rightarrow> cbor_map_entry_t list)
     \<Rightarrow> cbor_map_builder_t \<Rightarrow> cbor_encoder_t \<Rightarrow> (cbor_map_builder_t \<times> cbor_encoder_t) option" where
  "cbor_map_builder_encode mem qsort mb enc =
     (let mb = (if 1 < length (mb_entries mb)
                then mb\<lparr>mb_entries := qsort compare_map_entries (mb_entries mb)\<rparr> else mb) in
      do { enc \<leftarrow> cbor_encode_map mem enc (length (mb_entries mb));
           enc \<leftarrow> fold_opt (\<lambda>enc e. do { enc \<leftarrow> cbor_encode_text mem enc (Some (me_key e));
                                         cbor_encode_raw mem enc (me_value e) })
                   enc (mb_entries mb);
           Some (mb, enc) })"

section \<open>Decoder\<close>

definition cbor_decoder_init :: "bytes \<Rightarrow> cbor_decoder_t" where
  "cbor_decoder_init buf =
     \<lparr>dec_buf = buf, dec_len = word_of_nat (length buf), dec_pos = 0, dec_error = False\<rparr>"

definition cbor_decoder_ok :: "cbor_decoder_t \<Rightarrow> bool" where
  "cbor_decoder_ok dec = (\<not> dec_error dec)"

definition cbor_decoder_eof :: "cbor_decoder_t \<Rightarrow> bool" where
  "cbor_decoder_eof dec = (dec_len dec \<le> dec_pos dec)"

definition cbor_decoder_pos :: "cbor_decoder_t \<Rightarrow> u64" where
  "cbor_decoder_pos dec = dec_pos dec"

abbreviation dec_fail :: "cbor_decoder_t \<Rightarrow> cbor_decoder_t" where
  "dec_fail dec \<equiv> dec\<lparr>dec_error := True\<rparr>"

definition decoder_read_byte :: "cbor_decoder_t \<Rightarrow> u8 \<times> cbor_decoder_t" where
  "decoder_read_byte dec =
     (if dec_error dec \<or> dec_len dec \<le> dec_pos dec then (0, dec_fail dec)
      else (dec_buf dec ! unat (dec_pos dec), dec\<lparr>dec_pos := dec_pos dec + 1\<rparr>))"

text \<open>\<open>val = (val << 8) | decoder_read_byte (dec)\<close>, \<open>k\<close> times.\<close>

fun read_be :: "nat \<Rightarrow> u64 \<Rightarrow> cbor_decoder_t \<Rightarrow> u64 \<times> cbor_decoder_t" where
  "read_be 0 val dec = (val, dec)"
| "read_be (Suc k) val dec =
     (let (b, dec) = decoder_read_byte dec in read_be k (push_bit 8 val OR ucast b) dec)"

definition decode_arg :: "cbor_decoder_t \<Rightarrow> u8 \<Rightarrow> u64 \<times> cbor_decoder_t" where
  "decode_arg dec info =
     (if info < 24 then (ucast info, dec)
      else if info = 24 then read_be 1 0 dec
      else if info = 25 then read_be 2 0 dec
      else if info = 26 then read_be 4 0 dec
      else if info = 27 then read_be 8 0 dec
      else (0, dec_fail dec))"

definition cbor_peek_type :: "cbor_decoder_t \<Rightarrow> u8 \<times> cbor_decoder_t" where
  "cbor_peek_type dec =
     (if dec_error dec \<or> dec_len dec \<le> dec_pos dec then (CBOR_TYPE_UINT, dec_fail dec)
      else (drop_bit 5 (dec_buf dec ! unat (dec_pos dec)), dec))"

text \<open>
  The four header decoders share their first statements: read the initial byte, give up on an error,
  compare the major type, read the argument.
\<close>

definition decode_head :: "u8 \<Rightarrow> cbor_decoder_t \<Rightarrow> u64 \<times> cbor_decoder_t" where
  "decode_head major dec =
     (let (b, dec) = decoder_read_byte dec in
      if dec_error dec then (0, dec)
      else if drop_bit 5 b \<noteq> major then (0, dec_fail dec)
      else decode_arg dec (b AND 0x1F))"

definition cbor_decode_uint :: "cbor_decoder_t \<Rightarrow> u64 \<times> cbor_decoder_t" where
  "cbor_decode_uint dec = decode_head CBOR_TYPE_UINT dec"

definition cbor_decode_int :: "cbor_decoder_t \<Rightarrow> u64 \<times> cbor_decoder_t" where
  "cbor_decode_int dec =
     (let (b, dec) = decoder_read_byte dec in
      if dec_error dec then (0, dec)
      else if drop_bit 5 b = CBOR_TYPE_UINT then decode_arg dec (b AND 0x1F)
      else if drop_bit 5 b = CBOR_TYPE_NEGINT then
        (let (val, dec) = decode_arg dec (b AND 0x1F) in (-1 - val, dec))
      else (0, dec_fail dec))"

text \<open>
  A decoded string is a pointer into the buffer and a length: the offset of its first byte and the
  \<open>*len_out\<close>, or \<^term>\<open>None\<close> for a NULL result. The comparison is the C one, on 64-bit values.
\<close>

definition decode_string :: "u8 \<Rightarrow> cbor_decoder_t \<Rightarrow> (u64 \<times> u64) option \<times> cbor_decoder_t" where
  "decode_string major dec =
     (let (len, dec) = decode_head major dec in
      if dec_error dec then (None, dec)
      else if dec_len dec < dec_pos dec + len then (None, dec_fail dec)
      else (Some (dec_pos dec, len), dec\<lparr>dec_pos := dec_pos dec + len\<rparr>))"

definition cbor_decode_bytes :: "cbor_decoder_t \<Rightarrow> (u64 \<times> u64) option \<times> cbor_decoder_t" where
  "cbor_decode_bytes dec = decode_string CBOR_TYPE_BYTES dec"

definition cbor_decode_text :: "cbor_decoder_t \<Rightarrow> (u64 \<times> u64) option \<times> cbor_decoder_t" where
  "cbor_decode_text dec = decode_string CBOR_TYPE_TEXT dec"

text \<open>The bytes behind such a pointer, \<^term>\<open>None\<close> when the region leaves the buffer.\<close>

definition slice :: "bytes \<Rightarrow> u64 \<times> u64 \<Rightarrow> bytes option" where
  "slice buf p =
     (if unat (fst p) + unat (snd p) \<le> length buf
      then Some (take (unat (snd p)) (drop (unat (fst p)) buf)) else None)"

text \<open>
  The two copying variants, for a destination of \<open>buf_cap\<close> bytes: the outer option is undefined
  behaviour of the \<open>memcpy\<close>, the inner one the \<open>false\<close> result. The text variant stores a
  terminating NUL behind the bytes.
\<close>

definition cbor_decode_bytes_copy :: "cbor_decoder_t \<Rightarrow> nat \<Rightarrow> (bytes option \<times> cbor_decoder_t) option" where
  "cbor_decode_bytes_copy dec buf_cap =
     (case cbor_decode_bytes dec of
        (None, dec) \<Rightarrow> Some (None, dec)
      | (Some p, dec) \<Rightarrow>
          if buf_cap < unat (snd p) then Some (None, dec_fail dec)
          else do { d \<leftarrow> slice (dec_buf dec) p; Some (Some d, dec) })"

definition cbor_decode_text_copy :: "cbor_decoder_t \<Rightarrow> nat \<Rightarrow> (bytes option \<times> cbor_decoder_t) option" where
  "cbor_decode_text_copy dec buf_cap =
     (case cbor_decode_text dec of
        (None, dec) \<Rightarrow> Some (None, dec)
      | (Some p, dec) \<Rightarrow>
          if buf_cap \<le> unat (snd p) then Some (None, dec_fail dec)
          else do { d \<leftarrow> slice (dec_buf dec) p; Some (Some (d @ [0]), dec) })"

definition cbor_decode_array :: "cbor_decoder_t \<Rightarrow> u64 \<times> cbor_decoder_t" where
  "cbor_decode_array dec = decode_head CBOR_TYPE_ARRAY dec"

definition cbor_decode_map :: "cbor_decoder_t \<Rightarrow> u64 \<times> cbor_decoder_t" where
  "cbor_decode_map dec = decode_head CBOR_TYPE_MAP dec"

definition cbor_decode_bool :: "cbor_decoder_t \<Rightarrow> bool \<times> cbor_decoder_t" where
  "cbor_decode_bool dec =
     (let (b, dec) = decoder_read_byte dec in
      if dec_error dec then (False, dec)
      else if b = 0xF4 then (False, dec)
      else if b = 0xF5 then (True, dec)
      else (False, dec_fail dec))"

section \<open>Skipping\<close>

text \<open>\<open>for (i = 0; i < count && !dec->error; i++) body (dec)\<close>\<close>

fun dec_times :: "(cbor_decoder_t \<Rightarrow> cbor_decoder_t option) \<Rightarrow> nat \<Rightarrow> cbor_decoder_t \<Rightarrow> cbor_decoder_t option" where
  "dec_times body n dec =
     (if n = 0 \<or> dec_error dec then Some dec
      else (case body dec of None \<Rightarrow> None | Some dec \<Rightarrow> dec_times body (n - 1) dec))"

declare dec_times.simps [simp del]

fun cbor_skip :: "nat \<Rightarrow> cbor_decoder_t \<Rightarrow> cbor_decoder_t option" where
  "cbor_skip 0 dec = None"
| "cbor_skip (Suc depth) dec =
     (if dec_error dec \<or> dec_len dec \<le> dec_pos dec then Some (dec_fail dec)
      else
        (let (b, dec) = decoder_read_byte dec; mt = drop_bit 5 b; info = b AND 0x1F in
         if mt = CBOR_TYPE_UINT \<or> mt = CBOR_TYPE_NEGINT then Some (snd (decode_arg dec info))
         else if mt = CBOR_TYPE_BYTES \<or> mt = CBOR_TYPE_TEXT then
           (let (len, dec) = decode_arg dec info in
            if dec_error dec then Some dec
            else if dec_len dec < dec_pos dec + len then Some (dec_fail dec)
            else Some (dec\<lparr>dec_pos := dec_pos dec + len\<rparr>))
         else if mt = CBOR_TYPE_ARRAY then
           (let (cnt, dec) = decode_arg dec info in dec_times (cbor_skip depth) (unat cnt) dec)
         else if mt = CBOR_TYPE_MAP then
           (let (cnt, dec) = decode_arg dec info in
            dec_times (\<lambda>dec. case cbor_skip depth dec of None \<Rightarrow> None | Some dec \<Rightarrow> cbor_skip depth dec)
              (unat cnt) dec)
         else if mt = CBOR_TYPE_TAG then
           (let (_, dec) = decode_arg dec info in cbor_skip depth dec)
         else
           (if 24 \<le> info \<and> info \<le> 27 then Some (snd (decode_arg dec info)) else Some dec)))"

declare cbor_skip.simps(2) [simp del]

text \<open>
  \<open>cbor_map_find_key\<close>: the result of the C function with the decoder. Reading the key bytes is
  guarded by the comparison of the lengths, so it is a comparison with the slice.
\<close>

fun find_key_loop :: "nat \<Rightarrow> bytes \<Rightarrow> nat \<Rightarrow> cbor_decoder_t \<Rightarrow> (bool \<times> cbor_decoder_t) option" where
  "find_key_loop depth key 0 dec = Some (False, dec)"
| "find_key_loop depth key (Suc n) dec =
     (if dec_error dec then Some (False, dec)
      else
        (case cbor_decode_text dec of
           (None, dec) \<Rightarrow> Some (False, dec)
         | (Some p, dec) \<Rightarrow>
             if unat (snd p) = length key then
               (case slice (dec_buf dec) p of
                  None \<Rightarrow> None
                | Some k \<Rightarrow>
                    if k = key then Some (True, dec)
                    else (case cbor_skip depth dec of None \<Rightarrow> None | Some dec \<Rightarrow> find_key_loop depth key n dec))
             else (case cbor_skip depth dec of None \<Rightarrow> None | Some dec \<Rightarrow> find_key_loop depth key n dec)))"

definition cbor_map_find_key :: "nat \<Rightarrow> cbor_decoder_t \<Rightarrow> string \<Rightarrow> nat \<Rightarrow> (bool \<times> cbor_decoder_t) option" where
  "cbor_map_find_key depth dec key pair_count =
     (case find_key_loop depth (text_bytes key) pair_count dec of
        None \<Rightarrow> None
      | Some (True, dec') \<Rightarrow> Some (True, dec')
      | Some (False, dec') \<Rightarrow> Some (False, dec'\<lparr>dec_pos := dec_pos dec\<rparr>))"

text \<open>
  \<open>cbor_decode_map_foreach\<close>. The handler gets the pointer to the key and a sub-decoder that starts at
  the value and whose length is the distance the skip has covered; its context is threaded through.
\<close>

definition sub_decoder :: "bytes \<Rightarrow> u64 \<Rightarrow> u64 \<Rightarrow> cbor_decoder_t" where
  "sub_decoder buf value_start value_end =
     \<lparr>dec_buf = drop (unat value_start) buf, dec_len = value_end - value_start, dec_pos = 0,
      dec_error = False\<rparr>"

fun foreach_loop ::
    "nat \<Rightarrow> (u64 \<times> u64 \<Rightarrow> cbor_decoder_t \<Rightarrow> 'ctx \<Rightarrow> bool \<times> 'ctx) \<Rightarrow> nat \<Rightarrow> cbor_decoder_t \<Rightarrow> 'ctx
     \<Rightarrow> (bool \<times> cbor_decoder_t \<times> 'ctx) option" where
  "foreach_loop depth handler 0 dec ctx = Some (\<not> dec_error dec, dec, ctx)"
| "foreach_loop depth handler (Suc n) dec ctx =
     (if dec_error dec then Some (\<not> dec_error dec, dec, ctx)
      else
        (case cbor_decode_text dec of
           (None, dec) \<Rightarrow> Some (False, dec, ctx)
         | (Some p, dec) \<Rightarrow>
             (let value_start = dec_pos dec in
              case cbor_skip depth dec of
                None \<Rightarrow> None
              | Some dec \<Rightarrow>
                  if dec_error dec then Some (False, dec, ctx)
                  else
                    (let (go_on, ctx) = handler p (sub_decoder (dec_buf dec) value_start (dec_pos dec)) ctx
                     in if \<not> go_on then Some (False, dec, ctx)
                        else foreach_loop depth handler n dec ctx))))"

definition cbor_decode_map_foreach ::
    "nat \<Rightarrow> cbor_decoder_t \<Rightarrow> (u64 \<times> u64 \<Rightarrow> cbor_decoder_t \<Rightarrow> 'ctx \<Rightarrow> bool \<times> 'ctx) \<Rightarrow> 'ctx
     \<Rightarrow> (bool \<times> cbor_decoder_t \<times> 'ctx) option" where
  "cbor_decode_map_foreach depth dec handler ctx =
     (let (cnt, dec) = cbor_decode_map dec in
      if dec_error dec then Some (False, dec, ctx)
      else foreach_loop depth handler (unat cnt) dec ctx)"

section \<open>Validation\<close>

definition cbor_validate :: "nat \<Rightarrow> bytes \<Rightarrow> bool option" where
  "cbor_validate depth buf =
     (case cbor_skip depth (cbor_decoder_init buf) of
        None \<Rightarrow> None
      | Some dec \<Rightarrow> Some (cbor_decoder_ok dec \<and> cbor_decoder_eof dec))"

definition cbor_is_canonical :: "nat \<Rightarrow> bytes \<Rightarrow> bool option" where
  "cbor_is_canonical depth buf = cbor_validate depth buf"

section \<open>The data model and its encoding\<close>

text \<open>
  The specification: the items of RFC 8949 the codec supports, their height and their canonical
  encoding. A head is the major type with its argument in the shortest form.
\<close>

datatype cbor =
    CUInt u64
  | CNeg u64
  | CBytes bytes
  | CText bytes
  | CArray "cbor list"
  | CMap "(cbor \<times> cbor) list"
  | CTag u64 cbor
  | CBool bool
  | CNull

definition cbor_head :: "u8 \<Rightarrow> nat \<Rightarrow> bytes" where
  "cbor_head major n =
     (let mt = push_bit 5 major in
      if n < 24 then [mt OR word_of_nat n]
      else if n < 2 ^ 8 then (mt OR 24) # be_bytes 1 n
      else if n < 2 ^ 16 then (mt OR 25) # be_bytes 2 n
      else if n < 2 ^ 32 then (mt OR 26) # be_bytes 4 n
      else (mt OR 27) # be_bytes 8 n)"

fun cbor_enc :: "cbor \<Rightarrow> bytes" where
  "cbor_enc (CUInt n) = cbor_head 0 (unat n)"
| "cbor_enc (CNeg n) = cbor_head 1 (unat n)"
| "cbor_enc (CBytes b) = cbor_head 2 (length b) @ b"
| "cbor_enc (CText b) = cbor_head 3 (length b) @ b"
| "cbor_enc (CArray xs) = cbor_head 4 (length xs) @ concat (map cbor_enc xs)"
| "cbor_enc (CMap ps) =
     cbor_head 5 (length ps) @ concat (map (\<lambda>(k, v). cbor_enc k @ cbor_enc v) ps)"
| "cbor_enc (CTag n x) = cbor_head 6 (unat n) @ cbor_enc x"
| "cbor_enc (CBool b) = [if b then 0xF5 else 0xF4]"
| "cbor_enc CNull = [0xF6]"

fun cbor_height :: "cbor \<Rightarrow> nat" where
  "cbor_height (CArray xs) = Suc (Max (insert 0 (set (map cbor_height xs))))"
| "cbor_height (CMap ps) = Suc (Max (insert 0 (set (map (\<lambda>(k, v). max (cbor_height k) (cbor_height v)) ps))))"
| "cbor_height (CTag n x) = Suc (cbor_height x)"
| "cbor_height _ = 0"

text \<open>How a client writes an item with the encoder: one call per head, string and simple value.\<close>

fun cbor_put :: "(nat \<Rightarrow> bool) \<Rightarrow> cbor_encoder_t \<Rightarrow> cbor \<Rightarrow> cbor_encoder_t option" where
  "cbor_put mem enc (CUInt n) = cbor_encode_uint mem enc n"
| "cbor_put mem enc (CNeg n) = cbor_encode_negint mem enc n"
| "cbor_put mem enc (CBytes b) = cbor_encode_bytes mem enc (Some b) (length b)"
| "cbor_put mem enc (CText b) = cbor_encode_text_len mem enc (Some b) (length b)"
| "cbor_put mem enc (CArray xs) =
     do { enc \<leftarrow> cbor_encode_array mem enc (length xs); fold_opt (cbor_put mem) enc xs }"
| "cbor_put mem enc (CMap ps) =
     do { enc \<leftarrow> cbor_encode_map mem enc (length ps);
          fold_opt (\<lambda>enc (k, v). do { enc \<leftarrow> cbor_put mem enc k; cbor_put mem enc v }) enc ps }"
| "cbor_put mem enc (CTag n x) =
     do { enc \<leftarrow> encode_type_arg mem enc CBOR_TYPE_TAG n; cbor_put mem enc x }"
| "cbor_put mem enc (CBool b) = cbor_encode_bool mem enc b"
| "cbor_put mem enc CNull = cbor_encode_null mem enc"

section \<open>Heads\<close>

lemma cbor_head_nonempty [simp]: "cbor_head m n \<noteq> []"
  by (simp add: cbor_head_def Let_def)

lemma take_bit_word_self: "unat w < 2 ^ k \<Longrightarrow> take_bit k w = (w :: 'a::len word)"
proof -
  assume "unat w < 2 ^ k"
  then have "unat (take_bit k w) = unat w"
    by (simp add: unsigned_take_bit_eq take_bit_nat_eq_self)
  then show ?thesis by (simp only: unsigned_word_eqI)
qed

lemma head_byte:
  assumes "m < 8" and "i < 32"
  shows "drop_bit 5 (push_bit 5 m OR i) = (m::u8)" and "(push_bit 5 m OR i) AND 0x1F = (i::u8)"
proof -
  have "unat m < 8" "unat i < 32" using assms by (simp_all add: word_less_nat_alt)
  then have m: "take_bit 3 m = m" and i: "take_bit 5 i = i"
    by (simp_all add: take_bit_word_self)
  have bm: "bit m n \<Longrightarrow> n < 3" and bi: "bit i n \<Longrightarrow> n < 5" for n
    using m i by (metis bit_take_bit_iff)+
  show "drop_bit 5 (push_bit 5 m OR i) = m"
    by (rule bit_word_eqI) (auto simp: bit_simps dest: bm bi)
  have "x AND 0x1F = take_bit 5 x" for x :: u8
    by (simp add: take_bit_eq_mask mask_eq_exp_minus_1)
  then show "(push_bit 5 m OR i) AND 0x1F = i"
    using i by (simp only: take_bit_or take_bit_push_bit) simp
qed

lemma word_of_nat_div_byte:
  "(word_of_nat (unat (a::u64) div 256 ^ k) :: u8) = ucast (drop_bit (8 * k) a)"
proof -
  have "unat a div 256 ^ k = unat (drop_bit (8 * k) a)"
    using unsigned_less [of a, where ?'a = nat]
    by (subst unsigned_drop_bit_eq) (simp add: drop_bit_eq_div power_mult take_bit_nat_eq_self)
  then show ?thesis by simp
qed

lemma be_bytes_word:
  "be_bytes (Suc k) (unat (a::u64)) = ucast (drop_bit (8 * k) a) # be_bytes k (unat a)"
  by (simp add: word_of_nat_div_byte)

text \<open>The byte sequence that \<open>encode_type_arg\<close> writes is the canonical head.\<close>

lemma encode_type_arg_head:
  "encode_type_arg mem enc major arg =
     fold_opt (encoder_write_byte mem) enc (cbor_head major (unat arg))"
proof -
  have less: "arg < 24 \<longleftrightarrow> unat arg < 24" "arg \<le> 0xFF \<longleftrightarrow> unat arg < 2 ^ 8"
    "arg \<le> 0xFFFF \<longleftrightarrow> unat arg < 2 ^ 16" "arg \<le> 0xFFFFFFFF \<longleftrightarrow> unat arg < 2 ^ 32"
    by (auto simp: word_less_nat_alt word_le_nat_alt)
  have be: "be_bytes 1 (unat arg) = [ucast arg]"
    "be_bytes 2 (unat arg) = [ucast (drop_bit 8 arg), ucast arg]"
    "be_bytes 4 (unat arg) = [ucast (drop_bit 24 arg), ucast (drop_bit 16 arg), ucast (drop_bit 8 arg), ucast arg]"
    "be_bytes 8 (unat arg) = [ucast (drop_bit 56 arg), ucast (drop_bit 48 arg), ucast (drop_bit 40 arg),
       ucast (drop_bit 32 arg), ucast (drop_bit 24 arg), ucast (drop_bit 16 arg), ucast (drop_bit 8 arg), ucast arg]"
    by (simp_all add: be_bytes_word numeral_eq_Suc del: be_bytes.simps(2))
  have "fold_opt (encoder_write_byte mem) enc [b] = encoder_write_byte mem enc b" for b
    by (simp split: option.splits)
  then show ?thesis
    unfolding encode_type_arg_def cbor_head_def less be Let_def
    by (simp del: fold_opt.simps)
qed

section \<open>The contract of the encoder\<close>

text \<open>
  Every encoder operation writes a fixed sequence of bytes. If the encoder is in error it changes
  nothing; if the bytes fit they are appended; otherwise the error flag is raised and what was
  written is a proper part of the bytes. In no case is the buffer overrun.
\<close>

definition enc_inv :: "cbor_encoder_t \<Rightarrow> bool" where
  "enc_inv enc \<longleftrightarrow> (enc_null enc \<longrightarrow> enc_error enc) \<and> enc_len enc \<le> enc_cap enc"

definition emits :: "cbor_encoder_t \<Rightarrow> bytes \<Rightarrow> cbor_encoder_t option \<Rightarrow> bool" where
  "emits enc bs r \<longleftrightarrow>
     (\<exists>e. r = Some e \<and> enc_inv e \<and> enc_cap e = enc_cap enc \<and>
        (if enc_error enc then e = enc
         else if enc_len enc + length bs \<le> enc_cap enc then e = enc\<lparr>enc_data := enc_data enc @ bs\<rparr>
         else enc_error e \<and> (\<exists>p q. bs = p @ q \<and> enc_data e = enc_data enc @ p)))"

lemma emitsD:
  assumes "emits enc bs r" and "\<not> enc_error enc"
  obtains e where "r = Some e" "enc_len e \<le> enc_cap enc"
    "enc_error e \<longleftrightarrow> enc_cap enc < enc_len enc + length bs"
    "\<not> enc_error e \<Longrightarrow> e = enc\<lparr>enc_data := enc_data enc @ bs\<rparr>"
proof -
  obtain e where e: "r = Some e" "enc_inv e" "enc_cap e = enc_cap enc"
    "if enc_len enc + length bs \<le> enc_cap enc then e = enc\<lparr>enc_data := enc_data enc @ bs\<rparr> else enc_error e"
    using assms by (auto simp: emits_def)
  show ?thesis
    by (rule that [OF e(1)]) (use e assms(2) in \<open>auto simp: enc_inv_def split: if_splits\<close>)
qed

lemma emits_write_byte: "enc_inv enc \<Longrightarrow> emits enc [b] (encoder_write_byte mem enc b)"
  by (auto simp: emits_def enc_inv_def encoder_write_byte_def encoder_ensure_space_def Let_def)

lemma emits_write_bytes: "enc_inv enc \<Longrightarrow> emits enc bs (encoder_write_bytes mem enc bs)"
  by (auto simp: emits_def enc_inv_def encoder_write_bytes_def encoder_ensure_space_def Let_def)

lemma emits_Nil: "enc_inv enc \<Longrightarrow> emits enc [] (Some enc)"
  by (auto simp: emits_def enc_inv_def)

lemma emits_seq:
  assumes a: "emits enc as r" and b: "\<And>e. enc_inv e \<Longrightarrow> emits e bs (f e)"
  shows "emits enc (as @ bs) (r \<bind> f)"
proof -
  obtain e where e: "r = Some e" "enc_inv e" "enc_cap e = enc_cap enc"
    and c: "if enc_error enc then e = enc
         else if enc_len enc + length as \<le> enc_cap enc then e = enc\<lparr>enc_data := enc_data enc @ as\<rparr>
         else enc_error e \<and> (\<exists>p q. as = p @ q \<and> enc_data e = enc_data enc @ p)"
    using a by (auto simp: emits_def)
  obtain e2 where e2: "f e = Some e2" "enc_inv e2" "enc_cap e2 = enc_cap e"
    and c2: "if enc_error e then e2 = e
         else if enc_len e + length bs \<le> enc_cap e then e2 = e\<lparr>enc_data := enc_data e @ bs\<rparr>
         else enc_error e2 \<and> (\<exists>p q. bs = p @ q \<and> enc_data e2 = enc_data e @ p)"
    using b [OF e(2)] by (auto simp: emits_def)
  consider "enc_error enc" | "\<not> enc_error enc" "enc_cap enc < enc_len enc + length as"
    | "\<not> enc_error enc" "enc_len enc + length as \<le> enc_cap enc" by linarith
  then show ?thesis
  proof cases
    case 1
    then show ?thesis using c c2 e e2 by (simp add: emits_def)
  next
    case 2
    then obtain p q where "enc_error e" "as = p @ q" "enc_data e = enc_data enc @ p"
      using c by auto
    then show ?thesis using 2 c2 e e2 by (fastforce simp: emits_def)
  next
    case 3
    then show ?thesis using c c2 e e2 by (auto simp: emits_def)
  qed
qed

lemma emits_fold:
  assumes "\<And>e x. x \<in> set xs \<Longrightarrow> enc_inv e \<Longrightarrow> emits e (g x) (f e x)" and "enc_inv enc"
  shows "emits enc (concat (map g xs)) (fold_opt f enc xs)"
  using assms
proof (induction xs arbitrary: enc)
  case Nil
  then show ?case by (simp add: emits_Nil)
next
  case (Cons x xs)
  have "emits enc (g x @ concat (map g xs)) (f enc x \<bind> (\<lambda>e. fold_opt f e xs))"
    by (rule emits_seq) (use Cons in auto)
  moreover have "f enc x \<bind> (\<lambda>e. fold_opt f e xs) = fold_opt f enc (x # xs)"
    by (cases "f enc x") auto
  ultimately show ?case by simp
qed

lemma emits_type_arg: "enc_inv enc \<Longrightarrow> emits enc (cbor_head m (unat n)) (encode_type_arg mem enc m n)"
  using emits_fold [of "cbor_head m (unat n)" "\<lambda>b. [b]" "encoder_write_byte mem" enc]
  by (simp add: encode_type_arg_head emits_write_byte)

lemma emits_type_len:
  "enc_inv enc \<Longrightarrow> n < 2 ^ 64 \<Longrightarrow> emits enc (cbor_head m n) (encode_type_arg mem enc m (word_of_nat n))"
  using emits_type_arg [of enc m "word_of_nat n" mem] by (simp add: unat_of_nat)

lemma emits_string:
  assumes "enc_inv enc" and "length b < 2 ^ 64"
  shows "emits enc (cbor_head 2 (length b) @ b) (cbor_encode_bytes mem enc (Some b) (length b))"
    and "emits enc (cbor_head 3 (length b) @ b) (cbor_encode_text_len mem enc (Some b) (length b))"
proof -
  have "enc_inv e \<Longrightarrow> emits e b (if 0 < length b then if length b < length b then None
          else encoder_write_bytes mem e (take (length b) b) else Some e)" for e
    by (cases b) (simp_all add: emits_write_bytes emits_Nil)
  note s = emits_seq [OF emits_type_len [OF assms] this]
  show "emits enc (cbor_head 2 (length b) @ b) (cbor_encode_bytes mem enc (Some b) (length b))"
    using s [of 2 mem] by (simp add: cbor_encode_bytes_def)
  show "emits enc (cbor_head 3 (length b) @ b) (cbor_encode_text_len mem enc (Some b) (length b))"
    using s [of 3 mem] by (simp add: cbor_encode_text_len_def)
qed

text \<open>The lengths an item carries are those of objects in memory.\<close>

fun cbor_fits :: "cbor \<Rightarrow> bool" where
  "cbor_fits (CBytes b) \<longleftrightarrow> length b < 2 ^ 64"
| "cbor_fits (CText b) \<longleftrightarrow> length b < 2 ^ 64"
| "cbor_fits (CArray xs) \<longleftrightarrow> length xs < 2 ^ 64 \<and> list_all cbor_fits xs"
| "cbor_fits (CMap ps) \<longleftrightarrow> length ps < 2 ^ 64 \<and> list_all (\<lambda>(k, v). cbor_fits k \<and> cbor_fits v) ps"
| "cbor_fits (CTag n x) \<longleftrightarrow> cbor_fits x"
| "cbor_fits _ \<longleftrightarrow> True"

lemma emits_put: "cbor_fits x \<Longrightarrow> enc_inv enc \<Longrightarrow> emits enc (cbor_enc x) (cbor_put mem enc x)"
proof (induction x arbitrary: enc)
  case (CArray xs)
  have "enc_inv e \<Longrightarrow> emits e (concat (map cbor_enc xs)) (fold_opt (cbor_put mem) e xs)" for e
    by (rule emits_fold) (use CArray in \<open>auto simp: list_all_iff\<close>)
  then show ?case
    using emits_seq [OF emits_type_len] CArray.prems by (simp add: cbor_encode_array_def)
next
  case (CMap ps)
  have "emits e (case p of (k, v) \<Rightarrow> cbor_enc k @ cbor_enc v)
          (case p of (k, v) \<Rightarrow> cbor_put mem e k \<bind> (\<lambda>e. cbor_put mem e v))"
    if "p \<in> set ps" "enc_inv e" for e p
    using CMap.IH [of p "fst p"] CMap.IH [of p "snd p"] CMap.prems that
    by (cases p) (auto simp: list_all_iff intro!: emits_seq)
  then have "enc_inv e \<Longrightarrow> emits e (concat (map (\<lambda>(k, v). cbor_enc k @ cbor_enc v) ps))
      (fold_opt (\<lambda>e (k, v). cbor_put mem e k \<bind> (\<lambda>e. cbor_put mem e v)) e ps)" for e
    by (intro emits_fold) auto
  then show ?case
    using emits_seq [OF emits_type_len] CMap.prems by (simp add: cbor_encode_map_def)
next
  case (CTag n x)
  then show ?case using emits_seq [OF emits_type_arg] by simp
next
  case (CBool b)
  then show ?case
    using emits_write_byte [of enc "0xF4"] emits_write_byte [of enc "0xF5"]
    by (simp add: cbor_encode_bool_def)
qed (simp_all add: emits_type_arg emits_string emits_write_byte cbor_encode_uint_def
      cbor_encode_negint_def cbor_encode_null_def)

section \<open>The decoder on well-formed input\<close>

text \<open>
  The decoder of a buffer that has consumed \<open>pre\<close> and has \<open>rest\<close> left. Every lemma of this section
  moves a piece from the front of \<open>rest\<close> to the end of \<open>pre\<close>.
\<close>

definition dec_at :: "bytes \<Rightarrow> bytes \<Rightarrow> cbor_decoder_t" where
  "dec_at pre rest =
     \<lparr>dec_buf = pre @ rest, dec_len = word_of_nat (length pre + length rest),
      dec_pos = word_of_nat (length pre), dec_error = False\<rparr>"

abbreviation addressable :: "bytes \<Rightarrow> bytes \<Rightarrow> bool" where
  "addressable pre rest \<equiv> length pre + length rest < 2 ^ 64"

lemma dec_at_sel [simp]: "\<not> dec_error (dec_at pre rest)" "dec_buf (dec_at pre rest) = pre @ rest"
  by (simp_all add: dec_at_def)

lemma init_dec_at: "cbor_decoder_init buf = dec_at [] buf"
  by (simp add: cbor_decoder_init_def dec_at_def)

lemma eof_dec_at: "addressable pre rest \<Longrightarrow> cbor_decoder_eof (dec_at pre rest) \<longleftrightarrow> rest = []"
  by (auto simp: cbor_decoder_eof_def dec_at_def word_le_nat_alt unat_of_nat simp del: of_nat_add)

lemma read_byte_dec_at:
  "addressable pre (b # rest) \<Longrightarrow>
   decoder_read_byte (dec_at pre (b # rest)) = (b, dec_at (pre @ [b]) rest)"
proof -
  assume a: "addressable pre (b # rest)"
  have "\<not> (word_of_nat (length pre + length (b # rest)) :: u64) \<le> word_of_nat (length pre)"
    and "unat (word_of_nat (length pre) :: u64) = length pre"
    using a by (simp_all add: word_le_nat_alt unat_of_nat del: of_nat_add of_nat_Suc)
  then show ?thesis
    by (simp add: decoder_read_byte_def dec_at_def add.commute)
qed

lemma byte_acc: "push_bit 8 v OR ucast (b::u8) = (v * 256 + ucast b :: u64)"
proof -
  have "push_bit 8 v AND (ucast b :: u64) = 0"
    by (rule bit_word_eqI) (auto simp: bit_simps dest: bit_imp_le_length)
  then have "push_bit 8 v OR ucast b = push_bit 8 v + (ucast b :: u64)"
    by (simp add: disjunctive_add_eq_or)
  then show ?thesis by (simp add: push_bit_eq_mult)
qed

lemma read_be_dec_at:
  "addressable pre (bs @ rest) \<Longrightarrow>
   read_be (length bs) v (dec_at pre (bs @ rest)) =
     (v * 256 ^ length bs + word_of_nat (be_nat bs), dec_at (pre @ bs) rest)"
proof (induction bs arbitrary: pre v)
  case Nil
  then show ?case by simp
next
  case (Cons b bs)
  have "(v * 256 + ucast b) * 256 ^ length bs + word_of_nat (be_nat bs) =
      v * 256 ^ length (b # bs) + (word_of_nat (be_nat (b # bs)) :: u64)"
    by (simp add: be_nat_Cons algebra_simps)
  with Cons show ?case by (simp add: read_byte_dec_at byte_acc)
qed

lemma read_be_be_bytes:
  "n < 256 ^ k \<Longrightarrow> addressable pre (be_bytes k n @ rest) \<Longrightarrow>
   read_be k 0 (dec_at pre (be_bytes k n @ rest)) = (word_of_nat n, dec_at (pre @ be_bytes k n) rest)"
  using read_be_dec_at [of pre "be_bytes k n" rest 0] by (simp add: be_simps)

text \<open>
  Reading the first byte of a canonical head gives its major type, and the argument decoder then
  consumes the rest of the head.
\<close>

lemma head_shape:
  assumes m: "m < 8" and n: "n < 2 ^ 64"
  obtains b t where "cbor_head m n = b # t" "drop_bit 5 b = m"
    "\<And>pre rest. addressable pre (t @ rest) \<Longrightarrow>
       decode_arg (dec_at pre (t @ rest)) (b AND 0x1F) = (word_of_nat n, dec_at (pre @ t) rest)"
proof -
  consider "n < 24" | "\<not> n < 24" "n < 2 ^ 8" | "\<not> n < 2 ^ 8" "n < 2 ^ 16"
    | "\<not> n < 2 ^ 16" "n < 2 ^ 32" | "\<not> n < 2 ^ 32" by linarith
  then show ?thesis
  proof cases
    case 1
    then have i: "(word_of_nat n :: u8) < 24" "(word_of_nat n :: u8) < 32"
      by (simp_all add: word_less_nat_alt unat_of_nat)
    have "unat (ucast (word_of_nat n :: u8) :: u64) = unat (word_of_nat n :: u64)"
      using 1 by (simp add: unsigned_ucast_eq unat_of_nat take_bit_nat_eq_self)
    then have u: "(ucast (word_of_nat n :: u8) :: u64) = word_of_nat n"
      by (simp only: unsigned_word_eqI)
    show ?thesis
      by (rule that [of "push_bit 5 m OR word_of_nat n" "[]"])
         (use 1 i u m head_byte in \<open>simp_all add: cbor_head_def decode_arg_def\<close>)
  next
    case 2
    show ?thesis
      by (rule that [of "push_bit 5 m OR 24" "be_bytes 1 n"])
         (use 2 m head_byte [of m 24] in
           \<open>simp_all add: cbor_head_def decode_arg_def read_be_be_bytes del: be_bytes.simps read_be.simps\<close>)
  next
    case 3
    show ?thesis
      by (rule that [of "push_bit 5 m OR 25" "be_bytes 2 n"])
         (use 3 m head_byte [of m 25] in
           \<open>simp_all add: cbor_head_def decode_arg_def read_be_be_bytes del: be_bytes.simps read_be.simps\<close>)
  next
    case 4
    show ?thesis
      by (rule that [of "push_bit 5 m OR 26" "be_bytes 4 n"])
         (use 4 m head_byte [of m 26] in
           \<open>simp_all add: cbor_head_def decode_arg_def read_be_be_bytes del: be_bytes.simps read_be.simps\<close>)
  next
    case 5
    show ?thesis
      by (rule that [of "push_bit 5 m OR 27" "be_bytes 8 n"])
         (use 5 n m head_byte [of m 27] in
           \<open>simp_all add: cbor_head_def decode_arg_def read_be_be_bytes del: be_bytes.simps read_be.simps\<close>)
  qed
qed

lemma decode_head_dec_at:
  assumes "m < 8" and "n < 2 ^ 64" and "addressable pre (cbor_head m n @ rest)"
  shows "decode_head m (dec_at pre (cbor_head m n @ rest)) =
     (word_of_nat n, dec_at (pre @ cbor_head m n) rest)"
proof -
  obtain b t where "cbor_head m n = b # t" "drop_bit 5 b = m"
    "\<And>pre rest. addressable pre (t @ rest) \<Longrightarrow>
       decode_arg (dec_at pre (t @ rest)) (b AND 0x1F) = (word_of_nat n, dec_at (pre @ t) rest)"
    using head_shape [OF assms(1,2)] by blast
  with assms(3) show ?thesis by (simp add: decode_head_def read_byte_dec_at)
qed

lemma advance_dec_at:
  assumes "addressable pre (b @ rest)"
  shows "\<not> dec_len (dec_at pre (b @ rest)) < dec_pos (dec_at pre (b @ rest)) + word_of_nat (length b)"
    and "(dec_at pre (b @ rest))\<lparr>dec_pos := dec_pos (dec_at pre (b @ rest)) + word_of_nat (length b)\<rparr>
           = dec_at (pre @ b) rest"
proof -
  have "(word_of_nat (length pre) + word_of_nat (length b) :: u64) = word_of_nat (length pre + length b)"
    by simp
  then show "\<not> dec_len (dec_at pre (b @ rest)) < dec_pos (dec_at pre (b @ rest)) + word_of_nat (length b)"
    using assms by (simp add: dec_at_def word_less_nat_alt unat_of_nat del: of_nat_add)
qed (simp add: dec_at_def)

lemma decode_string_dec_at:
  assumes "m < 8" and "addressable pre (cbor_head m (length b) @ b @ rest)"
  shows "decode_string m (dec_at pre (cbor_head m (length b) @ b @ rest)) =
     (Some (word_of_nat (length (pre @ cbor_head m (length b))), word_of_nat (length b)),
      dec_at (pre @ cbor_head m (length b) @ b) rest)"
proof -
  have "decode_head m (dec_at pre (cbor_head m (length b) @ b @ rest)) =
     (word_of_nat (length b), dec_at (pre @ cbor_head m (length b)) (b @ rest))"
    using assms by (intro decode_head_dec_at) auto
  moreover note advance_dec_at [of "pre @ cbor_head m (length b)" b rest]
  moreover have "addressable (pre @ cbor_head m (length b)) (b @ rest)"
    using assms(2) by simp
  moreover have "dec_pos (dec_at p r) = word_of_nat (length p)" for p r
    by (simp add: dec_at_def)
  ultimately show ?thesis by (simp add: decode_string_def)
qed

lemma slice_dec_at:
  "addressable pre (b @ rest) \<Longrightarrow>
   slice (pre @ b @ rest) (word_of_nat (length pre), word_of_nat (length b)) = Some b"
  by (simp add: slice_def unat_of_nat)

lemma skip_head:
  assumes "m < 7" and "n < 2 ^ 64" and "addressable pre (cbor_head m n @ rest)"
  shows "cbor_skip (Suc d) (dec_at pre (cbor_head m n @ rest)) =
     (let dec = dec_at (pre @ cbor_head m n) rest in
      if m = 0 \<or> m = 1 then Some dec
      else if m = 2 \<or> m = 3 then
        (if dec_len dec < dec_pos dec + word_of_nat n then Some (dec_fail dec)
         else Some (dec\<lparr>dec_pos := dec_pos dec + word_of_nat n\<rparr>))
      else if m = 4 then dec_times (cbor_skip d) n dec
      else if m = 5 then
        dec_times (\<lambda>dec. case cbor_skip d dec of None \<Rightarrow> None | Some dec \<Rightarrow> cbor_skip d dec) n dec
      else cbor_skip d dec)"
proof -
  have m8: "m < 8" using assms(1) by (auto simp: word_less_nat_alt)
  obtain b t where h: "cbor_head m n = b # t" "drop_bit 5 b = m"
    "\<And>pre rest. addressable pre (t @ rest) \<Longrightarrow>
       decode_arg (dec_at pre (t @ rest)) (b AND 0x1F) = (word_of_nat n, dec_at (pre @ t) rest)"
    using head_shape [OF m8 assms(2)] by blast
  have "\<not> cbor_decoder_eof (dec_at pre (b # t @ rest))"
    using assms(3) h(1) by (subst eof_dec_at) auto
  then have e: "\<not> dec_len (dec_at pre (b # t @ rest)) \<le> dec_pos (dec_at pre (b # t @ rest))"
    by (simp add: cbor_decoder_eof_def)
  have "m = 0 \<or> m = 1 \<or> m = 2 \<or> m = 3 \<or> m = 4 \<or> m = 5 \<or> m = 6"
    using assms(1) by unat_arith
  with e h assms(2,3) show ?thesis
    by (auto simp: cbor_skip.simps(2) read_byte_dec_at Let_def unat_of_nat)
qed

lemma skip_simple:
  assumes "b = 0xF4 \<or> b = 0xF5 \<or> b = 0xF6" and "addressable pre (b # rest)"
  shows "cbor_skip (Suc d) (dec_at pre (b # rest)) = Some (dec_at (pre @ [b]) rest)"
proof -
  have "\<not> cbor_decoder_eof (dec_at pre (b # rest))"
    using assms(2) by (subst eof_dec_at) auto
  then have e: "\<not> dec_len (dec_at pre (b # rest)) \<le> dec_pos (dec_at pre (b # rest))"
    by (simp add: cbor_decoder_eof_def)
  show ?thesis
    using assms e by (auto simp: cbor_skip.simps(2) read_byte_dec_at Let_def)
qed

lemma dec_times_dec_at:
  assumes "\<And>x pre rest. x \<in> set xs \<Longrightarrow> addressable pre (g x @ rest) \<Longrightarrow>
       body (dec_at pre (g x @ rest)) = Some (dec_at (pre @ g x) rest)"
    and "addressable pre (concat (map g xs) @ rest)"
  shows "dec_times body (length xs) (dec_at pre (concat (map g xs) @ rest)) =
     Some (dec_at (pre @ concat (map g xs)) rest)"
  using assms
proof (induction xs arbitrary: pre)
  case Nil
  then show ?case by (simp add: dec_times.simps)
next
  case (Cons x xs)
  have "body (dec_at pre (g x @ concat (map g xs) @ rest)) = Some (dec_at (pre @ g x) (concat (map g xs) @ rest))"
    using Cons.prems by (intro Cons.prems(1)) auto
  moreover have "dec_times body (length xs) (dec_at (pre @ g x) (concat (map g xs) @ rest)) =
     Some (dec_at ((pre @ g x) @ concat (map g xs)) rest)"
    using Cons.prems by (intro Cons.IH) auto
  ultimately show ?case
    using Cons.prems by (simp add: dec_times.simps [of body "Suc (length xs)"])
qed

lemma cbor_enc_nonempty [simp]: "cbor_enc x \<noteq> []"
  by (cases x) simp_all

lemma length_concat_ge: "\<forall>x \<in> set xs. g x \<noteq> [] \<Longrightarrow> length xs \<le> length (concat (map g xs))"
proof (induction xs)
  case (Cons x xs)
  then have "0 < length (g x)" by simp
  with Cons show ?case by (simp del: length_greater_0_conv)
qed simp

section \<open>Skipping\<close>

lemma length_less_addressable:
  "\<forall>x \<in> set xs. g x \<noteq> [] \<Longrightarrow> addressable pre (h @ concat (map g xs) @ rest) \<Longrightarrow> length xs < 2 ^ 64"
  using length_concat_ge [of xs g] by simp

lemma skip_enc:
  "cbor_height x < depth \<Longrightarrow> addressable pre (cbor_enc x @ rest) \<Longrightarrow>
   cbor_skip depth (dec_at pre (cbor_enc x @ rest)) = Some (dec_at (pre @ cbor_enc x) rest)"
proof (induction x arbitrary: depth pre rest)
  case (CUInt n)
  then show ?case by (cases depth) (simp_all add: skip_head)
next
  case (CNeg n)
  then show ?case by (cases depth) (simp_all add: skip_head)
next
  case (CBytes b)
  then show ?case
    using advance_dec_at [of "pre @ cbor_head 2 (length b)" b rest]
    by (cases depth) (simp_all add: skip_head)
next
  case (CText b)
  then show ?case
    using advance_dec_at [of "pre @ cbor_head 3 (length b)" b rest]
    by (cases depth) (simp_all add: skip_head)
next
  case (CArray xs)
  then obtain d where d: "depth = Suc d" "\<forall>x \<in> set xs. cbor_height x < d"
    by (cases depth) auto
  have n: "length xs < 2 ^ 64"
    using length_less_addressable [of xs cbor_enc pre "cbor_head 4 (length xs)" rest] CArray.prems by simp
  have "dec_times (cbor_skip d) (length xs)
          (dec_at (pre @ cbor_head 4 (length xs)) (concat (map cbor_enc xs) @ rest)) =
        Some (dec_at ((pre @ cbor_head 4 (length xs)) @ concat (map cbor_enc xs)) rest)"
    using CArray d by (intro dec_times_dec_at) auto
  then show ?case
    using CArray.prems n d by (simp add: skip_head)
next
  case (CMap ps)
  let ?g = "\<lambda>(k, v). cbor_enc k @ cbor_enc v"
  obtain d where d: "depth = Suc d" "\<forall>(k, v) \<in> set ps. cbor_height k < d \<and> cbor_height v < d"
    using CMap.prems(1) by (cases depth) (auto simp: case_prod_beta)
  have n: "length ps < 2 ^ 64"
    using length_less_addressable [of ps ?g pre "cbor_head 5 (length ps)" rest] CMap.prems
    by (simp add: case_prod_beta)
  have "(case cbor_skip d (dec_at pre (?g p @ rest)) of None \<Rightarrow> None | Some dec \<Rightarrow> cbor_skip d dec) =
      Some (dec_at (pre @ ?g p) rest)"
    if "p \<in> set ps" "addressable pre (?g p @ rest)" for p pre rest
    using CMap.IH [OF that(1), of "fst p"] CMap.IH [OF that(1), of "snd p"] d that
    by (cases p) auto
  then have "dec_times (\<lambda>dec. case cbor_skip d dec of None \<Rightarrow> None | Some dec \<Rightarrow> cbor_skip d dec) (length ps)
          (dec_at (pre @ cbor_head 5 (length ps)) (concat (map ?g ps) @ rest)) =
        Some (dec_at ((pre @ cbor_head 5 (length ps)) @ concat (map ?g ps)) rest)"
    using CMap.prems d by (intro dec_times_dec_at) auto
  then show ?case
    using CMap.prems n d by (simp add: skip_head)
next
  case (CTag n x)
  then obtain d where d: "depth = Suc d" "cbor_height x < d" by (cases depth) auto
  then show ?case
    using CTag.IH [of d "pre @ cbor_head 6 (unat n)" rest] CTag.prems by (simp add: skip_head)
next
  case (CBool b)
  then show ?case by (cases depth) (auto simp: skip_simple)
next
  case CNull
  then show ?case by (cases depth) (auto simp: skip_simple)
qed

lemma validate_enc:
  "cbor_height x < depth \<Longrightarrow> length (cbor_enc x) < 2 ^ 64 \<Longrightarrow> cbor_validate depth (cbor_enc x) = Some True"
  using skip_enc [of x depth "[]" "[]"]
  by (simp add: cbor_validate_def init_dec_at eof_dec_at cbor_decoder_ok_def)

section \<open>Arbitrary input\<close>

text \<open>
  The position never leaves the buffer, so no read does: \<open>decoder_read_byte\<close> and \<open>cbor_peek_type\<close>
  read only below \<open>dec_len\<close>. This holds on any input, even where the addition of a length wraps.
\<close>

definition dec_inv :: "bytes \<Rightarrow> cbor_decoder_t \<Rightarrow> bool" where
  "dec_inv buf dec \<longleftrightarrow> dec_buf dec = buf \<and> unat (dec_len dec) = length buf \<and> dec_pos dec \<le> dec_len dec"

lemma dec_inv_fail [simp]: "dec_inv buf (dec_fail dec) \<longleftrightarrow> dec_inv buf dec"
  by (simp add: dec_inv_def)

text \<open>What every decoder operation does to the state: the invariant is kept, an error stays.\<close>

definition keeps :: "cbor_decoder_t \<Rightarrow> cbor_decoder_t \<Rightarrow> bool" where
  "keeps dec d \<longleftrightarrow>
     (\<forall>buf. dec_inv buf dec \<longrightarrow> dec_inv buf d) \<and> (dec_error dec \<longrightarrow> dec_error d)"

lemma keeps_trans: "keeps a b \<Longrightarrow> keeps b c \<Longrightarrow> keeps a c"
  by (simp add: keeps_def)

lemma keeps_refl [simp]: "keeps a a"
  by (simp add: keeps_def)

lemma keeps_fail [simp]: "keeps a (dec_fail a)"
  by (simp add: keeps_def)

lemma keeps_advance [simp]: "\<not> dec_len a < dec_pos a + n \<Longrightarrow> keeps a (a\<lparr>dec_pos := dec_pos a + n\<rparr>)"
  by (simp add: keeps_def dec_inv_def not_less)

lemma read_byte_keeps: "keeps dec (snd (decoder_read_byte dec))"
  by (auto simp: keeps_def dec_inv_def decoder_read_byte_def) unat_arith

lemma read_be_keeps: "keeps dec (snd (read_be k v dec))"
proof (induction k v dec rule: read_be.induct)
  case (2 k v dec)
  then show ?case
    using read_byte_keeps [of dec] by (cases "decoder_read_byte dec") (auto intro: keeps_trans)
qed simp

lemma decode_arg_keeps: "keeps dec (snd (decode_arg dec info))"
  unfolding decode_arg_def by (simp add: read_be_keeps del: read_be.simps)

lemma decode_head_keeps: "keeps dec (snd (decode_head m dec))"
proof -
  obtain b d where r: "decoder_read_byte dec = (b, d)" by fastforce
  then have k: "keeps dec d" using read_byte_keeps [of dec] by simp
  show ?thesis
    using keeps_trans [OF k keeps_fail] keeps_trans [OF k decode_arg_keeps] k r
    by (simp add: decode_head_def)
qed

lemma decode_string_keeps: "keeps dec (snd (decode_string m dec))"
proof -
  obtain n d where r: "decode_head m dec = (n, d)" by fastforce
  then have k: "keeps dec d" using decode_head_keeps [of dec m] by simp
  show ?thesis
    using keeps_trans [OF k keeps_fail] keeps_trans [OF k keeps_advance] k r
    by (simp add: decode_string_def)
qed

lemma dec_times_keeps:
  assumes "\<And>dec d. body dec = Some d \<Longrightarrow> keeps dec d"
  shows "dec_times body n dec = Some d \<Longrightarrow> keeps dec d"
proof (induction n arbitrary: dec)
  case 0
  then show ?case by (simp add: dec_times.simps)
next
  case (Suc n)
  show ?case
  proof (cases "dec_error dec")
    case True
    then show ?thesis using Suc.prems by (simp add: dec_times.simps)
  next
    case False
    then obtain e where "body dec = Some e" "dec_times body n e = Some d"
      using Suc.prems by (auto simp: dec_times.simps [of body "Suc n"] split: option.splits)
    then show ?thesis using assms Suc.IH keeps_trans by blast
  qed
qed

lemma skip_keeps: "cbor_skip depth dec = Some d \<Longrightarrow> keeps dec d"
proof (induction depth arbitrary: dec d)
  case 0
  then show ?case by simp
next
  case (Suc depth)
  have two: "keeps e d"
    if "(case cbor_skip depth e of None \<Rightarrow> None | Some dec \<Rightarrow> cbor_skip depth dec) = Some d" for e d
    using that Suc.IH keeps_trans by (auto split: option.splits) blast
  show ?case
  proof (cases "dec_error dec \<or> dec_len dec \<le> dec_pos dec")
    case True
    then show ?thesis using Suc.prems by (auto simp: cbor_skip.simps(2))
  next
    case False
    obtain b d1 where r: "decoder_read_byte dec = (b, d1)" by fastforce
    obtain n d2 where a: "decode_arg d1 (b AND 0x1F) = (n, d2)" by fastforce
    have k1: "keeps dec d1" using read_byte_keeps [of dec] r by simp
    have k2: "keeps dec d2" using decode_arg_keeps [of d1 "b AND 0x1F"] a k1 keeps_trans by fastforce
    have "keeps d2 d \<or> d = d1"
      using Suc.prems False r a dec_times_keeps [OF Suc.IH, where dec = d2 and d = d]
        dec_times_keeps [OF two, where dec = d2 and d = d] Suc.IH [of d2 d]
      by (auto simp: cbor_skip.simps(2) Let_def split: if_splits)
    then show ?thesis using k1 k2 keeps_trans by blast
  qed
qed

section \<open>Maps\<close>

abbreviation pair_bytes :: "bytes \<times> cbor \<Rightarrow> bytes" where
  "pair_bytes p \<equiv> (case p of (k, v) \<Rightarrow> cbor_enc (CText k) @ cbor_enc v)"

lemma decode_text_dec_at:
  assumes "addressable pre (cbor_enc (CText k) @ rest)"
  obtains q where
    "cbor_decode_text (dec_at pre (cbor_enc (CText k) @ rest)) = (Some q, dec_at (pre @ cbor_enc (CText k)) rest)"
    "slice (pre @ cbor_enc (CText k) @ rest) q = Some k" "unat (snd q) = length k"
proof
  let ?h = "cbor_head CBOR_TYPE_TEXT (length k)"
  let ?q = "(word_of_nat (length (pre @ ?h)), word_of_nat (length k)) :: u64 \<times> u64"
  show "cbor_decode_text (dec_at pre (cbor_enc (CText k) @ rest)) = (Some ?q, dec_at (pre @ cbor_enc (CText k)) rest)"
    using assms decode_string_dec_at [of 3 pre k rest] by (simp add: cbor_decode_text_def)
  show "slice (pre @ cbor_enc (CText k) @ rest) ?q = Some k"
    using slice_dec_at [of "pre @ ?h" k rest] assms by (simp del: of_nat_add)
  show "unat (snd ?q) = length k"
    using assms by (simp add: unat_of_nat)
qed

lemma find_key_loop_dec_at:
  assumes "\<forall>(k, v) \<in> set ps. cbor_height v < depth"
    and "addressable pre (concat (map pair_bytes ps) @ rest)"
  shows "find_key_loop depth key (length ps) (dec_at pre (concat (map pair_bytes ps) @ rest)) =
     (case map_of ps key of
        None \<Rightarrow> Some (False, dec_at (pre @ concat (map pair_bytes ps)) rest)
      | Some v \<Rightarrow>
          (let (before, after) = (takeWhile (\<lambda>p. fst p \<noteq> key) ps, tl (dropWhile (\<lambda>p. fst p \<noteq> key) ps))
           in Some (True, dec_at (pre @ concat (map pair_bytes before) @ cbor_enc (CText key))
                            (cbor_enc v @ concat (map pair_bytes after) @ rest))))"
  using assms
proof (induction ps arbitrary: pre)
  case Nil
  then show ?case by simp
next
  case (Cons p ps)
  obtain k v where p: "p = (k, v)" by fastforce
  let ?R = "concat (map pair_bytes ps) @ rest"
  have a: "addressable pre (cbor_enc (CText k) @ cbor_enc v @ ?R)"
    using Cons.prems(2) p by simp
  obtain q where q:
    "cbor_decode_text (dec_at pre (cbor_enc (CText k) @ cbor_enc v @ ?R)) =
       (Some q, dec_at (pre @ cbor_enc (CText k)) (cbor_enc v @ ?R))"
    "slice (pre @ cbor_enc (CText k) @ cbor_enc v @ ?R) q = Some k" "unat (snd q) = length k"
    using decode_text_dec_at [OF a] by blast
  have s: "cbor_skip depth (dec_at (pre @ cbor_enc (CText k)) (cbor_enc v @ ?R)) =
      Some (dec_at ((pre @ cbor_enc (CText k)) @ cbor_enc v) ?R)"
    using Cons.prems(1) a p by (intro skip_enc) auto
  note ih = Cons.IH [of "pre @ cbor_enc (CText k) @ cbor_enc v"]
  show ?case
  proof (cases "k = key")
    case True
    then show ?thesis using p q by (simp del: cbor_enc.simps)
  next
    case False
    then show ?thesis
      using p q s ih Cons.prems a by (simp add: Let_def del: cbor_enc.simps split: option.splits)
  qed
qed

text \<open>The handler loop, on the keys and the encoded values of the pairs.\<close>

fun each_pair :: "(bytes \<Rightarrow> bytes \<Rightarrow> 'ctx \<Rightarrow> bool \<times> 'ctx) \<Rightarrow> (bytes \<times> cbor) list \<Rightarrow> 'ctx \<Rightarrow> bool \<times> 'ctx" where
  "each_pair h [] ctx = (True, ctx)"
| "each_pair h ((k, v) # ps) ctx =
     (let (go_on, ctx) = h k (cbor_enc v) ctx in if go_on then each_pair h ps ctx else (False, ctx))"

text \<open>A handler that reads the key through the pointer and the value through the sub-decoder.\<close>

definition reading_handler :: "bytes \<Rightarrow> (bytes \<Rightarrow> bytes \<Rightarrow> 'ctx \<Rightarrow> bool \<times> 'ctx) \<Rightarrow>
    u64 \<times> u64 \<Rightarrow> cbor_decoder_t \<Rightarrow> 'ctx \<Rightarrow> bool \<times> 'ctx" where
  "reading_handler buf h q sub ctx =
     (case slice buf q of
        None \<Rightarrow> (False, ctx)
      | Some k \<Rightarrow> h k (take (unat (dec_len sub)) (dec_buf sub)) ctx)"

lemma sub_decoder_dec_at:
  assumes "addressable pre (b @ rest)"
  shows "take (unat (dec_len (sub_decoder (pre @ b @ rest) (word_of_nat (length pre))
            (word_of_nat (length (pre @ b))))))
           (dec_buf (sub_decoder (pre @ b @ rest) (word_of_nat (length pre)) (word_of_nat (length (pre @ b)))))
         = b"
  using assms by (simp add: sub_decoder_def unat_of_nat)

lemma foreach_loop_dec_at:
  assumes "\<forall>(k, v) \<in> set ps. cbor_height v < depth"
    and "addressable pre (concat (map pair_bytes ps) @ rest)"
  shows "\<exists>d. foreach_loop depth (reading_handler (pre @ concat (map pair_bytes ps) @ rest) h) (length ps)
            (dec_at pre (concat (map pair_bytes ps) @ rest)) ctx =
          Some (fst (each_pair h ps ctx), d, snd (each_pair h ps ctx)) \<and>
        (fst (each_pair h ps ctx) \<longrightarrow> d = dec_at (pre @ concat (map pair_bytes ps)) rest)"
  using assms
proof (induction ps arbitrary: pre ctx)
  case Nil
  then show ?case by simp
next
  case (Cons p ps)
  obtain k v where p: "p = (k, v)" by fastforce
  let ?R = "concat (map pair_bytes ps) @ rest"
  let ?h = "reading_handler (pre @ cbor_enc (CText k) @ cbor_enc v @ ?R) h"
  have a: "addressable pre (cbor_enc (CText k) @ cbor_enc v @ ?R)"
    using Cons.prems(2) p by simp
  obtain q where q:
    "cbor_decode_text (dec_at pre (cbor_enc (CText k) @ cbor_enc v @ ?R)) =
       (Some q, dec_at (pre @ cbor_enc (CText k)) (cbor_enc v @ ?R))"
    "slice (pre @ cbor_enc (CText k) @ cbor_enc v @ ?R) q = Some k"
    using decode_text_dec_at [OF a] by blast
  have s: "cbor_skip depth (dec_at (pre @ cbor_enc (CText k)) (cbor_enc v @ ?R)) =
      Some (dec_at ((pre @ cbor_enc (CText k)) @ cbor_enc v) ?R)"
    using Cons.prems(1) a p by (intro skip_enc) auto
  have pos: "dec_pos (dec_at x y) = word_of_nat (length x)" for x y by (simp add: dec_at_def)
  have h: "?h q (sub_decoder (pre @ cbor_enc (CText k) @ cbor_enc v @ ?R)
             (word_of_nat (length (pre @ cbor_enc (CText k))))
             (word_of_nat (length (pre @ cbor_enc (CText k) @ cbor_enc v)))) c = h k (cbor_enc v) c" for c
    using sub_decoder_dec_at [of "pre @ cbor_enc (CText k)" "cbor_enc v" ?R] a q(2)
    by (simp add: reading_handler_def del: cbor_enc.simps of_nat_add)
  obtain go c where g: "h k (cbor_enc v) ctx = (go, c)" by fastforce
  have step: "foreach_loop depth ?h (length (p # ps)) (dec_at pre (cbor_enc (CText k) @ cbor_enc v @ ?R)) ctx =
     (if go then foreach_loop depth ?h (length ps) (dec_at (pre @ cbor_enc (CText k) @ cbor_enc v) ?R) c
      else Some (False, dec_at (pre @ cbor_enc (CText k) @ cbor_enc v) ?R, c))"
    using q(1) s h g by (simp add: pos Let_def del: cbor_enc.simps of_nat_add length_append)
  show ?case
    using step g Cons.IH [of "pre @ cbor_enc (CText k) @ cbor_enc v" c] Cons.prems(1) a p
    by (simp del: cbor_enc.simps foreach_loop.simps)
qed

section \<open>The canonical order\<close>

lemma of_char_u8_inj: "(of_char c :: u8) = of_char d \<longleftrightarrow> c = d"
proof -
  have "unat (of_char c :: u8) = of_char c" for c
  proof -
    have "(of_char c :: u8) = word_of_nat (of_char c)" by (simp add: of_nat_of_char)
    then show ?thesis by (simp add: unat_of_nat)
  qed
  then show ?thesis by (metis char_of_char)
qed

lemma text_bytes_inj: "text_bytes s = text_bytes t \<longleftrightarrow> s = t"
  by (induction s arbitrary: t) (auto simp: text_bytes_def of_char_u8_inj Cons_eq_map_conv)

lemma length_text_bytes [simp]: "length (text_bytes s) = length s"
  by (simp add: text_bytes_def)

lemma compare_antisym:
  "compare_map_entries a b \<le> 0 \<Longrightarrow> compare_map_entries b a \<le> 0 \<Longrightarrow> me_key a = me_key b"
  using mem_cmp_antisym [of "text_bytes (me_key a)" "text_bytes (me_key b)"]
    mem_cmp_eq_0_iff [of "text_bytes (me_key a)" "text_bytes (me_key b)"]
  by (auto simp: compare_map_entries_def Let_def text_bytes_inj split: if_splits)

text \<open>A table with distinct keys has only one sorted arrangement.\<close>

lemma sorted_table_unique:
  assumes "sorted_wrt R xs" "sorted_wrt R ys" "mset xs = mset ys"
    and "\<And>x y. x \<in> set xs \<Longrightarrow> y \<in> set xs \<Longrightarrow> R x y \<Longrightarrow> R y x \<Longrightarrow> x = y"
  shows "xs = ys"
  using assms
proof (induction xs arbitrary: ys)
  case Nil
  then show ?case by simp
next
  case (Cons x xs)
  then obtain y zs where ys: "ys = y # zs" by (cases ys) auto
  have "x = y"
  proof (rule ccontr)
    assume "x \<noteq> y"
    with Cons.prems(3) ys have "y \<in> set xs" "x \<in> set zs"
      by (metis list.set_intros(1) mset_eq_setD set_ConsD)+
    then show False
      using Cons.prems ys \<open>x \<noteq> y\<close> by auto
  qed
  moreover have "xs = zs"
    by (rule Cons.IH) (use Cons.prems ys \<open>x = y\<close> in auto)
  ultimately show ?case using ys by simp
qed

text \<open>A concrete \<open>qsort\<close>, which shows that the specification can be met.\<close>

lemma mem_cmp_le_iff: "length a = length b \<Longrightarrow> mem_cmp a b \<le> 0 \<longleftrightarrow> a \<le> (b :: bytes)"
  by (induction a b rule: list_induct2) auto

lemma is_qsort_sort_key: "is_qsort (\<lambda>_. sort_key (\<lambda>e. (length (me_key e), text_bytes (me_key e))))"
proof -
  have key: "compare_map_entries a b \<le> 0 \<longleftrightarrow>
      (length (me_key a), text_bytes (me_key a)) \<le> (length (me_key b), text_bytes (me_key b))" for a b
    by (auto simp: compare_map_entries_def Let_def mem_cmp_le_iff)
  show ?thesis
    unfolding is_qsort_def key by (intro allI conjI mset_sort sorted_sort_key [unfolded sorted_map])
qed

fun map_builder_add_all ::
    "(nat \<Rightarrow> bool) \<Rightarrow> cbor_map_builder_t \<Rightarrow> cbor_map_entry_t list \<Rightarrow> bool \<times> cbor_map_builder_t" where
  "map_builder_add_all mem mb [] = (True, mb)"
| "map_builder_add_all mem mb (e # es) =
     (case cbor_map_builder_add mem mb (me_key e) (me_value e) of
        (False, mb) \<Rightarrow> (False, mb)
      | (True, mb) \<Rightarrow> map_builder_add_all mem mb es)"

lemma add_all_entries:
  "map_builder_add_all mem mb es = (True, mb') \<Longrightarrow> mb_entries mb' = mb_entries mb @ es"
  by (induction es arbitrary: mb)
     (auto simp: cbor_map_builder_add_def Let_def split: prod.splits bool.splits if_splits)

abbreviation entry_bytes :: "cbor_map_entry_t \<Rightarrow> bytes" where
  "entry_bytes e \<equiv> cbor_enc (CText (text_bytes (me_key e))) @ me_value e"

lemma emits_entry:
  assumes "enc_inv enc" and "length (me_key e) < 2 ^ 64"
  shows "emits enc (entry_bytes e)
     (do { enc \<leftarrow> cbor_encode_text mem enc (Some (me_key e)); cbor_encode_raw mem enc (me_value e) })"
proof (rule emits_seq)
  show "emits enc (cbor_enc (CText (text_bytes (me_key e)))) (cbor_encode_text mem enc (Some (me_key e)))"
    using emits_string(2) [of enc "text_bytes (me_key e)" mem] assms by (simp add: cbor_encode_text_def)
qed (simp add: cbor_encode_raw_def emits_write_bytes)

lemma map_snd_bind:
  "map_option snd (x \<bind> (\<lambda>e. y e \<bind> (\<lambda>e. Some (c, e)))) = x \<bind> y"
  by (cases x) (simp_all add: map_option_case split: Option.bind_splits option.splits)

lemma emits_builder:
  assumes q: "is_qsort qsort" and inv: "enc_inv enc" and n: "length (mb_entries mb) < 2 ^ 64"
    and keys: "\<forall>e \<in> set (mb_entries mb). length (me_key e) < 2 ^ 64"
  obtains ss where "mset ss = mset (mb_entries mb)"
    "sorted_wrt (\<lambda>a b. compare_map_entries a b \<le> 0) ss"
    "emits enc (cbor_head CBOR_TYPE_MAP (length ss) @ concat (map entry_bytes ss))
       (map_option snd (cbor_map_builder_encode mem qsort mb enc))"
proof -
  define ss where "ss = (if 1 < length (mb_entries mb) then qsort compare_map_entries (mb_entries mb) else mb_entries mb)"
  have ss: "mset ss = mset (mb_entries mb)" "sorted_wrt (\<lambda>a b. compare_map_entries a b \<le> 0) ss"
    using q by (auto simp: ss_def is_qsort_def not_less le_Suc_eq length_Suc_conv)
  let ?f = "\<lambda>enc e. do { enc \<leftarrow> cbor_encode_text mem enc (Some (me_key e)); cbor_encode_raw mem enc (me_value e) }"
  have len: "length ss = length (mb_entries mb)" using ss(1) by (metis size_mset)
  have "set ss = set (mb_entries mb)" using ss(1) by (metis set_mset_mset)
  then have "enc_inv e \<Longrightarrow> emits e (concat (map entry_bytes ss)) (fold_opt ?f e ss)" for e
    using keys by (intro emits_fold emits_entry) auto
  then have "emits enc (cbor_head CBOR_TYPE_MAP (length ss) @ concat (map entry_bytes ss))
     (encode_type_arg mem enc CBOR_TYPE_MAP (word_of_nat (length ss)) \<bind> (\<lambda>e. fold_opt ?f e ss))"
    using inv n len by (intro emits_seq emits_type_len) simp_all
  moreover have "map_option snd (cbor_map_builder_encode mem qsort mb enc) =
     encode_type_arg mem enc CBOR_TYPE_MAP (word_of_nat (length ss)) \<bind> (\<lambda>e. fold_opt ?f e ss)"
    by (simp add: cbor_map_builder_encode_def ss_def cbor_encode_map_def Let_def map_snd_bind)
  ultimately show ?thesis using ss that by simp
qed

section \<open>Shortest heads\<close>

lemma read_be_bound:
  "read_be k v dec = (n, d) \<Longrightarrow> \<not> dec_error d \<Longrightarrow> unat v < 256 ^ j \<Longrightarrow> j + k \<le> 8 \<Longrightarrow>
   unat (dec_pos d) = unat (dec_pos dec) + k \<and> unat n < 256 ^ (j + k)"
proof (induction k arbitrary: v dec j)
  case 0
  then show ?case by simp
next
  case (Suc k)
  obtain b e where b: "decoder_read_byte dec = (b, e)" by fastforce
  let ?v = "push_bit 8 v OR ucast b"
  have e: "read_be k ?v e = (n, d)" using Suc.prems(1) b by simp
  have "\<not> dec_error e"
    using Suc.prems(2) e read_be_keeps [of e k ?v] by (auto simp: keeps_def)
  then have pos: "unat (dec_pos e) = unat (dec_pos dec) + 1"
    using b by (auto simp: decoder_read_byte_def split: if_splits) unat_arith
  have le: "(256::nat) ^ Suc j \<le> 256 ^ 8" by (rule power_increasing) (use Suc.prems(4) in auto)
  have "unat b < 256" by simp
  moreover have "(unat v + 1) * 256 \<le> 256 ^ j * 256"
    by (rule mult_le_mono1) (use Suc.prems(3) in simp)
  ultimately have lt: "unat v * 256 + unat b < 256 ^ Suc j"
    by (simp add: algebra_simps del: unat_range)
  have "?v = word_of_nat (unat v * 256 + unat b)" by (simp add: byte_acc)
  then have "unat ?v < 256 ^ Suc j"
    using lt le by (simp add: unat_of_nat del: of_nat_add of_nat_mult)
  then show ?case
    using Suc.IH [OF e Suc.prems(2), of "Suc j"] Suc.prems(4) pos by simp
qed

lemma decode_arg_cases:
  assumes "decode_arg dec info = (n, d)" and "\<not> dec_error d"
  shows "(info < 24 \<and> n = ucast info \<and> d = dec) \<or> (\<exists>k \<in> {1, 2, 4, 8}. read_be k 0 dec = (n, d))"
proof -
  consider "info < 24" | "\<not> info < 24" "info = 24 \<or> info = 25 \<or> info = 26 \<or> info = 27"
    | "\<not> info < 24" "info \<noteq> 24" "info \<noteq> 25" "info \<noteq> 26" "info \<noteq> 27" by blast
  then show ?thesis
  proof cases
    case 2
    then show ?thesis using assms(1) by (elim disjE) (simp_all add: decode_arg_def del: read_be.simps)
  qed (use assms in \<open>auto simp: decode_arg_def simp del: read_be.simps\<close>)
qed

lemma decode_arg_bound:
  assumes "decode_arg dec info = (n, d)" and "\<not> dec_error d"
  obtains k where "unat (dec_pos d) = unat (dec_pos dec) + k" "length (cbor_head m (unat n)) \<le> Suc k"
proof -
  have len: "length (cbor_head m i) \<le> Suc k"
    if "(i < 24 \<and> k = 0) \<or> (k \<in> {1, 2, 4, 8} \<and> i < 256 ^ k)" for i k
    using that by (auto simp: cbor_head_def Let_def)
  consider "info < 24" "n = ucast info" "d = dec" | k where "k \<in> {1, 2, 4, 8}" "read_be k 0 dec = (n, d)"
    using decode_arg_cases [OF assms] by blast
  then show ?thesis
  proof cases
    case 1
    then have "unat n < 24" by (simp add: word_less_nat_alt unsigned_ucast_eq take_bit_nat_eq_self)
    then show ?thesis using that [of 0] 1 len [of "unat n" 0] by simp
  next
    case 2
    then have "unat (dec_pos d) = unat (dec_pos dec) + k \<and> unat n < 256 ^ k"
      using read_be_bound [OF 2(2) assms(2), of 0] by auto
    then show ?thesis using that [of k] len [of "unat n" k] 2 by blast
  qed
qed

section \<open>The decoders as codecs\<close>

text \<open>A decoding call on a fresh decoder, with the unread rest of the input.\<close>

definition run_decoder :: "(cbor_decoder_t \<Rightarrow> 'a \<times> cbor_decoder_t) \<Rightarrow> bytes \<Rightarrow> ('a \<times> bytes) option" where
  "run_decoder op bs =
     (let (v, d) = op (cbor_decoder_init bs)
      in if dec_error d then None else Some (v, drop (unat (dec_pos d)) bs))"

lemma run_decoder_dec_at:
  "op (dec_at [] (b @ rest)) = (v, dec_at b rest) \<Longrightarrow> length (b @ rest) < 2 ^ 64 \<Longrightarrow>
   run_decoder op (b @ rest) = Some (v, rest)"
  by (simp add: run_decoder_def init_dec_at) (simp add: dec_at_def unat_of_nat)

definition int_item :: "u64 \<Rightarrow> cbor" where
  "int_item v = (if 0 \<le> sint v then CUInt v else CNeg (- (v + 1)))"

lemma decode_int_dec_at:
  assumes "addressable pre (cbor_enc (int_item v) @ rest)"
  shows "cbor_decode_int (dec_at pre (cbor_enc (int_item v) @ rest)) = (v, dec_at (pre @ cbor_enc (int_item v)) rest)"
proof -
  obtain m n where mn: "cbor_enc (int_item v) = cbor_head m (unat n)" "(m = 0 \<and> n = v) \<or> (m = 1 \<and> n = - (v + 1))"
    by (cases "0 \<le> sint v") (simp_all add: int_item_def)
  then have "m < 8" by auto
  obtain b t where h: "cbor_head m (unat n) = b # t" "drop_bit 5 b = m"
    "\<And>pre rest. addressable pre (t @ rest) \<Longrightarrow>
       decode_arg (dec_at pre (t @ rest)) (b AND 0x1F) = (word_of_nat (unat n), dec_at (pre @ t) rest)"
    using head_shape [OF \<open>m < 8\<close>, of "unat n"] by auto
  show ?thesis
    using mn(2) h assms unfolding mn(1)
    by (auto simp: cbor_decode_int_def read_byte_dec_at)
qed

lemma emits_int: "enc_inv enc \<Longrightarrow> emits enc (cbor_enc (int_item v)) (cbor_encode_int mem enc v)"
  by (simp add: cbor_encode_int_def int_item_def cbor_encode_uint_def cbor_encode_negint_def emits_type_arg)

interpretation uint_codec: prefix_codec "\<lambda>n. cbor_enc (CUInt n)" "run_decoder cbor_decode_uint" "\<lambda>_. True" "2 ^ 64"
proof
  fix n :: u64 and rest :: bytes
  assume "length (cbor_enc (CUInt n) @ rest) < 2 ^ 64"
  then show "run_decoder cbor_decode_uint (cbor_enc (CUInt n) @ rest) = Some (n, rest)"
    using decode_head_dec_at [of 0 "unat n" "[]" rest]
    by (intro run_decoder_dec_at) (simp_all add: cbor_decode_uint_def)
qed

interpretation int_codec: prefix_codec "\<lambda>v. cbor_enc (int_item v)" "run_decoder cbor_decode_int" "\<lambda>_. True" "2 ^ 64"
proof
  fix v :: u64 and rest :: bytes
  assume "length (cbor_enc (int_item v) @ rest) < 2 ^ 64"
  then show "run_decoder cbor_decode_int (cbor_enc (int_item v) @ rest) = Some (v, rest)"
    using decode_int_dec_at [of "[]" v rest] by (intro run_decoder_dec_at) simp_all
qed

section \<open>Reads inside the buffer\<close>

text \<open>
  To see where a decoder reads, more bytes are put behind its buffer, without changing its length: an
  operation that reads none of them has the same result whatever they are.
\<close>

definition behind :: "bytes \<Rightarrow> cbor_decoder_t \<Rightarrow> cbor_decoder_t" where
  "behind junk dec = dec\<lparr>dec_buf := dec_buf dec @ junk\<rparr>"

lemma behind_sel [simp]:
  "dec_len (behind junk dec) = dec_len dec" "dec_pos (behind junk dec) = dec_pos dec"
  "dec_error (behind junk dec) = dec_error dec" "dec_buf (behind junk dec) = dec_buf dec @ junk"
  "dec_fail (behind junk dec) = behind junk (dec_fail dec)"
  "(behind junk dec)\<lparr>dec_pos := p\<rparr> = behind junk (dec\<lparr>dec_pos := p\<rparr>)"
  by (simp_all add: behind_def)

text \<open>
  An operation in a state whose position is inside the buffer: it reads nothing behind the buffer,
  leaves the position inside, and does not clear the error flag.
\<close>

definition reads_inside :: "bytes \<Rightarrow> (cbor_decoder_t \<Rightarrow> ('a \<times> cbor_decoder_t) option) \<Rightarrow> cbor_decoder_t \<Rightarrow> bool" where
  "reads_inside buf opn dec \<longleftrightarrow>
     (\<forall>junk. opn (behind junk dec) = map_option (apsnd (behind junk)) (opn dec)) \<and>
     (\<forall>r d. opn dec = Some (r, d) \<longrightarrow> dec_inv buf d \<and> (dec_error dec \<longrightarrow> dec_error d))"

lemma reads_insideI:
  assumes "\<And>junk. opn (behind junk dec) = map_option (apsnd (behind junk)) (opn dec)"
    and "dec_inv buf dec" "\<And>r d. opn dec = Some (r, d) \<Longrightarrow> keeps dec d"
  shows "reads_inside buf opn dec"
  using assms unfolding reads_inside_def keeps_def by blast

lemma read_byte_behind: "dec_inv buf dec \<Longrightarrow> decoder_read_byte (behind junk dec) = apsnd (behind junk) (decoder_read_byte dec)"
  by (auto simp: decoder_read_byte_def dec_inv_def nth_append word_less_nat_alt not_le)

lemma dec_inv_steps:
  "dec_inv buf dec \<Longrightarrow> dec_inv buf (snd (decoder_read_byte dec))"
  "dec_inv buf dec \<Longrightarrow> dec_inv buf (snd (decode_arg dec info))"
  "dec_inv buf dec \<Longrightarrow> dec_inv buf (snd (decode_head m dec))"
  using read_byte_keeps decode_arg_keeps decode_head_keeps by (auto simp: keeps_def)

lemma read_be_behind:
  "dec_inv buf dec \<Longrightarrow> read_be k v (behind junk dec) = apsnd (behind junk) (read_be k v dec)"
  by (induction k arbitrary: v dec) (simp_all add: read_byte_behind dec_inv_steps split_beta Let_def)

lemma decode_arg_behind:
  "dec_inv buf dec \<Longrightarrow> decode_arg (behind junk dec) info = apsnd (behind junk) (decode_arg dec info)"
  by (simp add: decode_arg_def read_be_behind del: read_be.simps)

lemma decode_head_behind:
  "dec_inv buf dec \<Longrightarrow> decode_head m (behind junk dec) = apsnd (behind junk) (decode_head m dec)"
  by (simp add: decode_head_def read_byte_behind [of buf] decode_arg_behind [of buf] dec_inv_steps [of buf] split_beta Let_def)

lemma decode_string_behind:
  "dec_inv buf dec \<Longrightarrow> decode_string m (behind junk dec) = apsnd (behind junk) (decode_string m dec)"
  by (simp add: decode_string_def decode_head_behind split_beta Let_def)

lemma peek_type_behind:
  "dec_inv buf dec \<Longrightarrow> cbor_peek_type (behind junk dec) = apsnd (behind junk) (cbor_peek_type dec)"
  by (auto simp: cbor_peek_type_def dec_inv_def nth_append word_less_nat_alt not_le)

lemma decode_int_behind:
  "dec_inv buf dec \<Longrightarrow> cbor_decode_int (behind junk dec) = apsnd (behind junk) (cbor_decode_int dec)"
  by (simp add: cbor_decode_int_def read_byte_behind [of buf] decode_arg_behind [of buf] dec_inv_steps [of buf] split_beta Let_def)

lemma decode_bool_behind:
  "dec_inv buf dec \<Longrightarrow> cbor_decode_bool (behind junk dec) = apsnd (behind junk) (cbor_decode_bool dec)"
  by (simp add: cbor_decode_bool_def read_byte_behind split_beta Let_def)

lemma dec_times_behind:
  assumes "\<And>dec. dec_inv buf dec \<Longrightarrow> body (behind junk dec) = map_option (behind junk) (body dec)"
    and "\<And>dec d. body dec = Some d \<Longrightarrow> keeps dec d"
  shows "dec_inv buf dec \<Longrightarrow> dec_times body n (behind junk dec) = map_option (behind junk) (dec_times body n dec)"
proof (induction n arbitrary: dec)
  case 0
  then show ?case by (simp add: dec_times.simps)
next
  case (Suc n)
  have "dec_inv buf d" if "body dec = Some d" for d
    using assms(2) [OF that] Suc.prems by (simp add: keeps_def)
  then show ?case
    using Suc assms(1) by (simp add: dec_times.simps [of body "Suc n"] split: option.split)
qed

lemma skip_twice_keeps:
  "(case cbor_skip depth e of None \<Rightarrow> None | Some dec \<Rightarrow> cbor_skip depth dec) = Some d \<Longrightarrow> keeps e d"
  using skip_keeps keeps_trans by (fastforce split: option.splits)

lemma skip_behind:
  "dec_inv buf dec \<Longrightarrow> cbor_skip depth (behind junk dec) = map_option (behind junk) (cbor_skip depth dec)"
proof (induction depth arbitrary: dec)
  case (Suc depth)
  have one: "cbor_skip depth (behind junk e) = map_option (behind junk) (cbor_skip depth e)" if "dec_inv buf e" for e
    using Suc.IH that by blast
  have two: "(case cbor_skip depth (behind junk e) of None \<Rightarrow> None | Some dec \<Rightarrow> cbor_skip depth dec) =
      map_option (behind junk) (case cbor_skip depth e of None \<Rightarrow> None | Some dec \<Rightarrow> cbor_skip depth dec)"
    if "dec_inv buf e" for e
    using one that skip_keeps [of depth e] by (auto simp: keeps_def split: option.split)
  have "dec_times (cbor_skip depth) n (behind junk e) = map_option (behind junk) (dec_times (cbor_skip depth) n e)"
    if "dec_inv buf e" for e n
    by (rule dec_times_behind [of buf]) (use one skip_keeps that in blast)+
  moreover have "dec_times (\<lambda>e. case cbor_skip depth e of None \<Rightarrow> None | Some dec \<Rightarrow> cbor_skip depth dec) n (behind junk e) =
      map_option (behind junk) (dec_times (\<lambda>e. case cbor_skip depth e of None \<Rightarrow> None | Some dec \<Rightarrow> cbor_skip depth dec) n e)"
    if "dec_inv buf e" for e n
    by (rule dec_times_behind [of buf]) (use two skip_twice_keeps that in blast)+
  ultimately show ?case
    using Suc.prems one
    by (simp add: cbor_skip.simps(2) read_byte_behind [of buf] decode_arg_behind [of buf] dec_inv_steps [of buf]
        split_beta Let_def)
qed simp

lemma slice_append: "slice buf p = Some d \<Longrightarrow> slice (buf @ junk) p = Some d"
  by (auto simp: slice_def split: if_splits)

text \<open>A decoded string lies inside the buffer when its announced length does not wrap.\<close>

lemma decoded_string_inside:
  assumes "decode_string m dec = (Some p, d)" "dec_inv buf dec" "unat (snd p) + length buf < 2 ^ 64"
  shows "\<exists>s. slice (dec_buf d) p = Some s \<and> length s = unat (snd p)"
proof -
  obtain n e where h: "decode_head m dec = (n, e)" by fastforce
  then have e: "dec_inv buf e" using dec_inv_steps(3) [OF assms(2), of m] by simp
  have p: "p = (dec_pos e, n)" "\<not> dec_len e < dec_pos e + n" "d = e\<lparr>dec_pos := dec_pos e + n\<rparr>"
    using assms(1) h by (auto simp: decode_string_def split: if_splits)
  then have "unat (dec_pos e) \<le> length buf" using e by (simp add: dec_inv_def word_le_nat_alt)
  then have "unat (dec_pos e + n) = unat (dec_pos e) + unat n"
    using assms(3) p(1) by (subst unat_add_lem [THEN iffD1]) simp_all
  then have "unat (dec_pos e) + unat n \<le> length buf"
    using p(2) e by (simp add: dec_inv_def word_less_nat_alt not_less)
  then show ?thesis using p e by (simp add: slice_def dec_inv_def)
qed

lemma string_inside:
  assumes "decode_string m dec = (Some p, d)" "dec_inv buf dec" "unat (snd p) + length buf < 2 ^ 64"
  obtains s where "slice (dec_buf d) p = Some s" "slice (dec_buf d @ junk) p = Some s"
  using decoded_string_inside [OF assms] slice_append by blast

lemma copies_inside:
  assumes "dec_inv buf dec" "cap + length buf < 2 ^ 64"
  shows "cbor_decode_bytes_copy (behind junk dec) cap = map_option (apsnd (behind junk)) (cbor_decode_bytes_copy dec cap)"
    "cbor_decode_text_copy (behind junk dec) cap = map_option (apsnd (behind junk)) (cbor_decode_text_copy dec cap)"
    "cbor_decode_bytes_copy dec cap \<noteq> None" "cbor_decode_text_copy dec cap \<noteq> None"
proof -
  have inside: "\<exists>s. slice (dec_buf d) p = Some s \<and> slice (dec_buf d @ junk) p = Some s"
    if "decode_string m dec = (Some p, d)" "unat (snd p) \<le> cap" for m p d
    using decoded_string_inside [OF that(1) assms(1)] that(2) assms(2) slice_append by fastforce
  have b: "cbor_decode_bytes_copy (behind junk dec) cap = map_option (apsnd (behind junk)) (cbor_decode_bytes_copy dec cap) \<and>
      cbor_decode_bytes_copy dec cap \<noteq> None"
    using inside [of CBOR_TYPE_BYTES]
    by (cases "decode_string CBOR_TYPE_BYTES dec")
      (auto simp: cbor_decode_bytes_copy_def cbor_decode_bytes_def decode_string_behind [OF assms(1)] split: option.split)
  have t: "cbor_decode_text_copy (behind junk dec) cap = map_option (apsnd (behind junk)) (cbor_decode_text_copy dec cap) \<and>
      cbor_decode_text_copy dec cap \<noteq> None"
    using inside [of CBOR_TYPE_TEXT]
    by (cases "decode_string CBOR_TYPE_TEXT dec")
      (auto simp: cbor_decode_text_copy_def cbor_decode_text_def decode_string_behind [OF assms(1)] not_le split: option.split)
  from b t show "cbor_decode_bytes_copy (behind junk dec) cap = map_option (apsnd (behind junk)) (cbor_decode_bytes_copy dec cap)"
    "cbor_decode_text_copy (behind junk dec) cap = map_option (apsnd (behind junk)) (cbor_decode_text_copy dec cap)"
    "cbor_decode_bytes_copy dec cap \<noteq> None" "cbor_decode_text_copy dec cap \<noteq> None" by blast+
qed

lemma copies_keep:
  "cbor_decode_bytes_copy dec cap = Some (r, d) \<Longrightarrow> keeps dec d"
  "cbor_decode_text_copy dec cap = Some (r, d) \<Longrightarrow> keeps dec d"
  using decode_string_keeps [of dec CBOR_TYPE_BYTES] decode_string_keeps [of dec CBOR_TYPE_TEXT] keeps_trans [OF _ keeps_fail]
  by (auto simp: cbor_decode_bytes_copy_def cbor_decode_bytes_def cbor_decode_text_copy_def cbor_decode_text_def
      split: prod.splits option.splits if_splits bind_splits)

lemma find_key_loop_keeps: "find_key_loop depth key n dec = Some (r, d) \<Longrightarrow> keeps dec d"
proof (induction n arbitrary: dec)
  case (Suc n)
  obtain p e where e: "cbor_decode_text dec = (p, e)" by fastforce
  then have k: "keeps dec e" using decode_string_keeps [of dec CBOR_TYPE_TEXT] by (simp add: cbor_decode_text_def)
  have "keeps e d" if "(case cbor_skip depth e of None \<Rightarrow> None | Some dec \<Rightarrow> find_key_loop depth key n dec) = Some (r, d)"
    using that Suc.IH skip_keeps keeps_trans by (auto split: option.splits) blast
  then have "dec = d \<or> e = d \<or> keeps e d" using Suc.prems e by (auto split: if_splits option.splits)
  then show ?case using k keeps_trans by auto
qed simp

lemma find_key_loop_behind:
  assumes "length key + length buf < 2 ^ 64"
  shows "dec_inv buf dec \<Longrightarrow>
    find_key_loop depth key n (behind junk dec) = map_option (apsnd (behind junk)) (find_key_loop depth key n dec)"
proof (induction n arbitrary: dec)
  case (Suc n)
  obtain q e where e: "decode_string CBOR_TYPE_TEXT dec = (q, e)" by fastforce
  then have inv: "dec_inv buf e" using decode_string_keeps [of dec CBOR_TYPE_TEXT] Suc.prems by (simp add: keeps_def)
  have go: "(case cbor_skip depth (behind junk e) of None \<Rightarrow> None | Some dec \<Rightarrow> find_key_loop depth key n dec) =
      map_option (apsnd (behind junk)) (case cbor_skip depth e of None \<Rightarrow> None | Some dec \<Rightarrow> find_key_loop depth key n dec)"
    using Suc.IH inv skip_keeps [of depth e] by (auto simp: skip_behind [OF inv] keeps_def split: option.split)
  have "\<exists>s. slice (dec_buf e) p = Some s \<and> slice (dec_buf e @ junk) p = Some s" if "q = Some p" "unat (snd p) = length key" for p
    using decoded_string_inside [of CBOR_TYPE_TEXT dec p e buf] that e Suc.prems assms slice_append by fastforce
  then show ?case
    using go by (cases q) (auto simp: cbor_decode_text_def decode_string_behind [OF Suc.prems] e)
qed simp

lemma find_key_behind:
  assumes "dec_inv buf dec" "length key + length buf < 2 ^ 64"
  shows "reads_inside buf (\<lambda>d. cbor_map_find_key depth d key n) dec"
proof (rule reads_insideI [OF _ assms(1)])
  have k: "length (text_bytes key) + length buf < 2 ^ 64" using assms(2) by simp
  show "cbor_map_find_key depth (behind junk dec) key n =
      map_option (apsnd (behind junk)) (cbor_map_find_key depth dec key n)" for junk
    by (simp add: cbor_map_find_key_def find_key_loop_behind [OF k assms(1)] split: option.split bool.split)
  fix r d
  assume "cbor_map_find_key depth dec key n = Some (r, d)"
  then obtain e where e: "find_key_loop depth (text_bytes key) n dec = Some (r, e)"
    "d = (if r then e else e\<lparr>dec_pos := dec_pos dec\<rparr>)"
    by (auto simp: cbor_map_find_key_def split: option.splits bool.splits)
  then have "keeps dec e" using find_key_loop_keeps by blast
  then show "keeps dec d" using e(2) by (auto simp: keeps_def dec_inv_def word_le_nat_alt)
qed

lemma foreach_loop_keeps: "foreach_loop depth h n dec ctx = Some (r, d, c) \<Longrightarrow> keeps dec d"
proof (induction n arbitrary: dec ctx)
  case (Suc n)
  obtain p e where e: "cbor_decode_text dec = (p, e)" by fastforce
  then have k: "keeps dec e" using decode_string_keeps [of dec CBOR_TYPE_TEXT] by (simp add: cbor_decode_text_def)
  have "dec = d \<or> e = d \<or> (\<exists>f. cbor_skip depth e = Some f \<and> (f = d \<or> keeps f d))"
    using Suc e by (auto simp: Let_def split: if_splits option.splits prod.splits)
  then show ?case using k keeps_trans skip_keeps by (metis keeps_refl)
qed simp

lemma sub_decoder_behind:
  "unat v \<le> length buf \<Longrightarrow> sub_decoder (buf @ junk) v w = behind junk (sub_decoder buf v w)"
  by (simp add: sub_decoder_def behind_def)

text \<open>A handler that looks at the key pointer, and at no byte of the sub-decoder.\<close>

definition ignores_sub_decoder :: "(u64 \<times> u64 \<Rightarrow> cbor_decoder_t \<Rightarrow> 'ctx \<Rightarrow> bool \<times> 'ctx) \<Rightarrow> bool" where
  "ignores_sub_decoder h \<longleftrightarrow> (\<forall>junk p s ctx. h p (behind junk s) ctx = h p s ctx)"

lemma foreach_loop_behind:
  assumes "ignores_sub_decoder h"
  shows "dec_inv buf dec \<Longrightarrow> foreach_loop depth h n (behind junk dec) ctx =
    map_option (\<lambda>(r, d, c). (r, behind junk d, c)) (foreach_loop depth h n dec ctx)"
proof (induction n arbitrary: dec ctx)
  case (Suc n)
  obtain q e where e: "decode_string CBOR_TYPE_TEXT dec = (q, e)" by fastforce
  then have inv: "dec_inv buf e" using decode_string_keeps [of dec CBOR_TYPE_TEXT] Suc.prems by (simp add: keeps_def)
  have inv': "dec_inv buf f" if "cbor_skip depth e = Some f" for f
    using skip_keeps [OF that] inv by (simp add: keeps_def)
  have sub: "sub_decoder (dec_buf f @ junk) (dec_pos e) w = behind junk (sub_decoder (dec_buf f) (dec_pos e) w)"
    if "cbor_skip depth e = Some f" for f w
    using inv inv' [OF that] by (intro sub_decoder_behind) (simp add: dec_inv_def word_le_nat_alt)
  show ?case
    using Suc.IH inv' sub assms [unfolded ignores_sub_decoder_def]
    by (cases q; cases "cbor_skip depth e")
      (auto simp: cbor_decode_text_def decode_string_behind [OF Suc.prems] e skip_behind [OF inv] Let_def split: prod.split)
qed simp

lemma foreach_behind:
  assumes "dec_inv buf dec" "ignores_sub_decoder h"
  shows "reads_inside buf (\<lambda>d. map_option (\<lambda>(r, d, c). ((r, c), d)) (cbor_decode_map_foreach depth d h ctx)) dec"
proof (rule reads_insideI [OF _ assms(1)])
  obtain n e where e: "cbor_decode_map dec = (n, e)" by fastforce
  then have k: "keeps dec e" using decode_head_keeps [of dec] by (metis cbor_decode_map_def snd_conv)
  then have inv: "dec_inv buf e" using assms(1) by (simp add: keeps_def)
  show "map_option (\<lambda>(r, d, c). ((r, c), d)) (cbor_decode_map_foreach depth (behind junk dec) h ctx) =
      map_option (apsnd (behind junk)) (map_option (\<lambda>(r, d, c). ((r, c), d)) (cbor_decode_map_foreach depth dec h ctx))" for junk
    using e by (simp add: cbor_decode_map_foreach_def cbor_decode_map_def decode_head_behind [OF assms(1)]
        foreach_loop_behind [OF assms(2) inv] option.map_comp comp_def case_prod_unfold Let_def)
  fix r d
  assume "map_option (\<lambda>(r, d, c). ((r, c), d)) (cbor_decode_map_foreach depth dec h ctx) = Some (r, d)"
  then show "keeps dec d"
    using e k keeps_trans [OF k foreach_loop_keeps] by (auto simp: cbor_decode_map_foreach_def split: if_splits)
qed

lemma total_reads_inside:
  assumes "dec_inv buf dec" "\<And>junk. f (behind junk dec) = apsnd (behind junk) (f dec)" "keeps dec (snd (f dec))"
  shows "reads_inside buf (\<lambda>d. Some (f d)) dec"
  by (rule reads_insideI) (use assms in auto)

lemma reads_keep:
  "keeps dec (snd (cbor_peek_type dec))" "keeps dec (snd (cbor_decode_int dec))" "keeps dec (snd (cbor_decode_bool dec))"
proof -
  obtain b e where r: "decoder_read_byte dec = (b, e)" by fastforce
  then have k: "keeps dec e" using read_byte_keeps [of dec] by simp
  obtain n f where f: "decode_arg e (b AND 0x1F) = (n, f)" by fastforce
  then have kf: "keeps dec f" using keeps_trans [OF k decode_arg_keeps] by (metis snd_conv)
  show "keeps dec (snd (cbor_peek_type dec))"
    by (simp add: cbor_peek_type_def)
  show "keeps dec (snd (cbor_decode_int dec))"
    using r f k kf keeps_trans [OF k keeps_fail] by (simp add: cbor_decode_int_def)
  show "keeps dec (snd (cbor_decode_bool dec))"
    using r k keeps_trans [OF k keeps_fail] by (simp add: cbor_decode_bool_def)
qed

text \<open>
  What the handler gets can lie outside: on a map whose value announces \<open>2^64 - 11\<close> bytes the skip wraps
  back to the first byte, and the sub-decoder that starts at the value has a length of \<open>2^64 - 2\<close>.
\<close>

lemma foreach_hands_out_wrapped_length:
  "map_option fst (cbor_decode_map_foreach 1
     (cbor_decoder_init [0xA1, 0x60, 0x5B, 0xFF, 0xFF, 0xFF, 0xFF, 0xFF, 0xFF, 0xFF, 0xF5])
     (\<lambda>p s c. (dec_len s = 0xFFFFFFFFFFFFFFFE \<and> length (dec_buf s) = 9, c)) ()) = Some True"
  by code_simp

section \<open>Properties\<close>

text \<open>
  C11: Writing any data item with the encoder into a fixed buffer is memory safe and exact: every
  call returns, the buffer is never filled beyond its capacity, and the encoder ends without error
  exactly when the canonical encoding of the item fits behind what was there, in which case exactly
  that encoding has been appended.
\<close>

theorem encoder_writes_item:
  assumes "cbor_fits x" and "\<not> enc_null enc" and "cbor_encoder_ok enc" and "enc_len enc \<le> enc_cap enc"
  shows "\<exists>e. cbor_put mem enc x = Some e \<and> cbor_encoder_len e \<le> enc_cap enc
     \<and> (cbor_encoder_ok e \<longleftrightarrow> enc_len enc + length (cbor_enc x) \<le> enc_cap enc)
     \<and> (cbor_encoder_ok e \<longrightarrow> cbor_encoder_data e = Some (enc_data enc @ cbor_enc x))"
proof -
  have "emits enc (cbor_enc x) (cbor_put mem enc x)" and ok: "\<not> enc_error enc"
    using assms by (simp_all add: emits_put enc_inv_def cbor_encoder_ok_def)
  then obtain e where e: "cbor_put mem enc x = Some e" "enc_len e \<le> enc_cap enc"
    "enc_error e \<longleftrightarrow> enc_cap enc < enc_len enc + length (cbor_enc x)"
    "\<not> enc_error e \<Longrightarrow> e = enc\<lparr>enc_data := enc_data enc @ cbor_enc x\<rparr>"
    by (rule emitsD) blast
  have "\<not> enc_error e \<Longrightarrow> cbor_encoder_data e = Some (enc_data enc @ cbor_enc x)"
    using e(4) assms(2) by (simp add: cbor_encoder_data_def)
  then show ?thesis
    using e(1-3) by (intro exI [of _ e]) (auto simp: cbor_encoder_ok_def cbor_encoder_len_def)
qed

theorem encoder_writes_item_witness:
  "\<exists>e. cbor_put (\<lambda>_. False) (cbor_encoder_init False 5) (CArray [CUInt 500, CBool True]) = Some e
     \<and> cbor_encoder_len e \<le> 5 \<and> cbor_encoder_ok e
     \<and> cbor_encoder_data e = Some [0x82, 0x19, 0x01, 0xF4, 0xF5]"
proof -
  let ?x = "CArray [CUInt 500, CBool True]"
  have enc: "cbor_enc ?x = [0x82, 0x19, 0x01, 0xF4, 0xF5]"
    by (simp add: cbor_head_def be_simps)
  have "\<exists>e. cbor_put (\<lambda>_. False) (cbor_encoder_init False 5) ?x = Some e
     \<and> cbor_encoder_len e \<le> enc_cap (cbor_encoder_init False 5)
     \<and> (cbor_encoder_ok e \<longleftrightarrow>
          enc_len (cbor_encoder_init False 5) + length (cbor_enc ?x) \<le> enc_cap (cbor_encoder_init False 5))
     \<and> (cbor_encoder_ok e \<longrightarrow>
          cbor_encoder_data e = Some (enc_data (cbor_encoder_init False 5) @ cbor_enc ?x))"
    by (rule encoder_writes_item) (simp_all add: cbor_encoder_init_def cbor_encoder_ok_def)
  moreover have "enc_cap (cbor_encoder_init False 5) = 5" "enc_data (cbor_encoder_init False 5) = []"
    by (simp_all add: cbor_encoder_init_def)
  ultimately show ?thesis unfolding enc by auto
qed

text \<open>
  C12: Skipping understands everything the encoder can write: on the canonical encoding of any item,
  followed by anything, \<open>cbor_skip\<close> with one stack frame more than the nesting height returns,
  reports no error and stops exactly behind the item.
\<close>

theorem cbor_skip_item:
  assumes "cbor_height x < depth" and "length pre + length (cbor_enc x) + length rest < 2 ^ 64"
  shows "\<exists>d. cbor_skip depth \<lparr>dec_buf = pre @ cbor_enc x @ rest,
            dec_len = word_of_nat (length (pre @ cbor_enc x @ rest)),
            dec_pos = word_of_nat (length pre), dec_error = False\<rparr> = Some d
     \<and> cbor_decoder_ok d \<and> cbor_decoder_pos d = word_of_nat (length pre + length (cbor_enc x))
     \<and> dec_buf d = pre @ cbor_enc x @ rest"
proof -
  have "\<lparr>dec_buf = pre @ cbor_enc x @ rest, dec_len = word_of_nat (length (pre @ cbor_enc x @ rest)),
         dec_pos = word_of_nat (length pre), dec_error = False\<rparr> = dec_at pre (cbor_enc x @ rest)"
    by (simp add: dec_at_def)
  moreover have "dec_pos (dec_at (pre @ cbor_enc x) rest) = word_of_nat (length pre + length (cbor_enc x))"
    by (simp add: dec_at_def)
  moreover note skip_enc [OF assms(1), of pre rest]
  ultimately show ?thesis
    using assms(2) by (simp add: cbor_decoder_ok_def cbor_decoder_pos_def)
qed

theorem cbor_skip_item_witness:
  "\<exists>d. cbor_skip 3 \<lparr>dec_buf = [] @ cbor_enc (CArray [CTag 1 (CUInt 7), CText [65, 66]]) @ [0xFF],
          dec_len = word_of_nat (length ([] @ cbor_enc (CArray [CTag 1 (CUInt 7), CText [65, 66]]) @ [0xFF])),
          dec_pos = word_of_nat (length ([] :: bytes)), dec_error = False\<rparr> = Some d
     \<and> cbor_decoder_ok d
     \<and> cbor_decoder_pos d =
         word_of_nat (length ([] :: bytes) + length (cbor_enc (CArray [CTag 1 (CUInt 7), CText [65, 66]])))
     \<and> dec_buf d = [] @ cbor_enc (CArray [CTag 1 (CUInt 7), CText [65, 66]]) @ [0xFF]"
  by (rule cbor_skip_item) (simp_all add: cbor_head_def)

text \<open>
  What the encoder produced without error is accepted by \<open>cbor_validate\<close>, and by
  \<open>cbor_is_canonical\<close>: the two halves of the codec agree on every item.
\<close>

lemma encoded_item_validates:
  assumes "cbor_fits x" and "cbor_height x < depth" and "cap < 2 ^ 64"
    and "cbor_put mem (cbor_encoder_init False cap) x = Some e" and "cbor_encoder_ok e"
  shows "cbor_validate depth (enc_data e) = Some True \<and> cbor_is_canonical depth (enc_data e) = Some True"
proof -
  have "emits (cbor_encoder_init False cap) (cbor_enc x) (Some e)"
    using emits_put [OF assms(1), of "cbor_encoder_init False cap" mem] assms(4)
    by (simp add: enc_inv_def cbor_encoder_init_def)
  then have "enc_data e = cbor_enc x" "length (cbor_enc x) \<le> cap"
    using assms(5) by (auto elim!: emitsD simp: cbor_encoder_init_def cbor_encoder_ok_def)
  then show ?thesis
    using validate_enc [OF assms(2)] assms(3) by (simp add: cbor_is_canonical_def)
qed

lemma encoded_item_validates_example:
  "cbor_validate 2 (enc_data \<lparr>enc_null = False, enc_cap = 8, enc_data = [0xA1, 0x61, 0x6B, 0xF6], enc_error = False\<rparr>)
     = Some True
   \<and> cbor_is_canonical 2
       (enc_data \<lparr>enc_null = False, enc_cap = 8, enc_data = [0xA1, 0x61, 0x6B, 0xF6], enc_error = False\<rparr>) = Some True"
  by (rule encoded_item_validates [where x = "CMap [(CText [0x6B], CNull)]" and cap = 8 and mem = "\<lambda>_. True"])
     (simp_all add: cbor_encoder_init_def cbor_encode_map_def cbor_encode_text_len_def cbor_encode_null_def
        encode_type_arg_def encoder_write_byte_def encoder_write_bytes_def encoder_ensure_space_def
        cbor_encoder_ok_def)

text \<open>
  A sequence of signed 64-bit integers, \<open>INT64_MIN\<close> included, written with \<open>cbor_encode_int\<close> is
  read back by as many calls of \<open>cbor_decode_int\<close>, and nothing is left over.
\<close>

lemma int_sequence_roundtrip:
  assumes "fold_opt (cbor_encode_int mem) (cbor_encoder_init False cap) vs = Some e"
    and "cbor_encoder_ok e" and "cap < 2 ^ 64"
  shows "dec_many (run_decoder cbor_decode_int) (length vs) (enc_data e) = Some (vs, [])"
proof -
  have "emits (cbor_encoder_init False cap) (concat (map (\<lambda>v. cbor_enc (int_item v)) vs))
      (fold_opt (cbor_encode_int mem) (cbor_encoder_init False cap) vs)"
    by (intro emits_fold emits_int) (simp_all add: enc_inv_def cbor_encoder_init_def)
  then have "enc_data e = concat (map (\<lambda>v. cbor_enc (int_item v)) vs)" "length (enc_data e) \<le> cap"
    using assms(1,2) by (auto elim!: emitsD simp: cbor_encoder_init_def cbor_encoder_ok_def)
  then show ?thesis
    using int_codec.dec_many_enc [of vs "[]"] assms(3) by simp
qed

lemma int_sequence_roundtrip_example:
  "dec_many (run_decoder cbor_decode_int) (length [- 1, 5 :: u64])
     (enc_data \<lparr>enc_null = False, enc_cap = 2, enc_data = [0x20, 0x05], enc_error = False\<rparr>) = Some ([- 1, 5], [])"
  by (rule int_sequence_roundtrip [where cap = 2 and mem = "\<lambda>_. True"])
     (simp_all add: cbor_encoder_init_def cbor_encode_int_def cbor_encode_uint_def cbor_encode_negint_def
        encode_type_arg_def encoder_write_byte_def encoder_ensure_space_def cbor_encoder_ok_def)

text \<open>
  The encoder writes heads in their shortest form: any bytes that the decoder reads as a whole as
  a head of the given major type are at least as long as what \<open>encode_type_arg\<close> writes for the same
  argument.
\<close>

lemma encode_type_arg_shortest:
  assumes "decode_head major (cbor_decoder_init h) = (n, d)" and "cbor_decoder_ok d" and "cbor_decoder_eof d"
    and "length h < 2 ^ 64"
    and "encode_type_arg mem (cbor_encoder_init False cap) major n = Some e" and "cbor_encoder_ok e"
  shows "cbor_encoder_len e \<le> length h"
proof -
  have inv: "dec_inv h (cbor_decoder_init h)"
    using assms(4) by (simp add: dec_inv_def cbor_decoder_init_def unat_of_nat)
  then have "dec_inv h d"
    using decode_head_keeps [of "cbor_decoder_init h" major] assms(1) by (simp add: keeps_def)
  then have pos: "unat (dec_pos d) = length h"
    using assms(3) by (simp add: dec_inv_def cbor_decoder_eof_def)
  obtain b d1 where r: "decoder_read_byte (cbor_decoder_init h) = (b, d1)" by fastforce
  have a: "decode_arg d1 (b AND 0x1F) = (n, d)" "\<not> dec_error d1"
    using assms(1,2) r by (auto simp: decode_head_def cbor_decoder_ok_def split: if_splits)
  have "unat (dec_pos d1) = 1"
    using r a(2) by (auto simp: decoder_read_byte_def cbor_decoder_init_def split: if_splits)
  moreover obtain k where "unat (dec_pos d) = unat (dec_pos d1) + k" "length (cbor_head major (unat n)) \<le> Suc k"
    using decode_arg_bound [OF a(1)] assms(2) by (auto simp: cbor_decoder_ok_def)
  moreover have "emits (cbor_encoder_init False cap) (cbor_head major (unat n)) (Some e)"
    using emits_type_arg [of "cbor_encoder_init False cap" major n mem] assms(5)
    by (simp add: enc_inv_def cbor_encoder_init_def)
  then have "cbor_encoder_len e = length (cbor_head major (unat n))"
    using assms(6) by (auto elim!: emitsD simp: cbor_encoder_init_def cbor_encoder_ok_def cbor_encoder_len_def)
  ultimately show ?thesis using pos by simp
qed

lemma encode_type_arg_shortest_example:
  "cbor_encoder_len \<lparr>enc_null = False, enc_cap = 9, enc_data = [0x01], enc_error = False\<rparr> \<le> length [0x18, 0x01 :: u8]"
  by (rule encode_type_arg_shortest [where major = 0 and n = 1 and cap = 9 and mem = "\<lambda>_. True"
        and d = "\<lparr>dec_buf = [0x18, 0x01], dec_len = 2, dec_pos = 2, dec_error = False\<rparr>"])
     (simp_all add: decode_head_def cbor_decoder_init_def decoder_read_byte_def decode_arg_def
        cbor_decoder_ok_def cbor_decoder_eof_def cbor_encoder_init_def encode_type_arg_def
        encoder_write_byte_def encoder_ensure_space_def cbor_encoder_ok_def word_le_nat_alt)

text \<open>
  C13: The map builder is canonical: with pairwise different keys the bytes it writes do not depend on
  the order of insertion. Whatever \<open>qsort\<close> does with the table, the two encoders end in the same
  state.
\<close>

theorem map_builder_order_independent:
  assumes "is_qsort qsort"
    and "map_builder_add_all mem cbor_map_builder_init es = (True, mb)"
    and "map_builder_add_all mem cbor_map_builder_init es' = (True, mb')"
    and "mset es = mset es'" and "distinct (map me_key es)"
  shows "map_option snd (cbor_map_builder_encode mem qsort mb enc)
       = map_option snd (cbor_map_builder_encode mem qsort mb' enc)"
proof -
  have ents: "mb_entries mb = es" "mb_entries mb' = es'"
    using add_all_entries assms(2,3) by (fastforce simp: cbor_map_builder_init_def)+
  have set: "set es' = set es" and len: "length es' = length es"
    using assms(4) by (metis set_mset_mset, metis size_mset)
  let ?s = "\<lambda>es. if 1 < length es then qsort compare_map_entries es else es"
  have sorted: "sorted_wrt (\<lambda>a b. compare_map_entries a b \<le> 0) (?s xs)" "mset (?s xs) = mset xs" for xs
    using assms(1) by (auto simp: is_qsort_def not_less le_Suc_eq length_Suc_conv)
  have "?s es = ?s es'"
  proof (rule sorted_table_unique)
    fix x y assume "x \<in> set (?s es)" "y \<in> set (?s es)"
      and "compare_map_entries x y \<le> 0" "compare_map_entries y x \<le> 0"
    moreover have "set (?s es) = set es" by (metis set_mset_mset sorted(2))
    moreover have "inj_on me_key (set es)" using assms(5) by (simp add: distinct_map)
    ultimately show "x = y" using compare_antisym [of x y] by (metis inj_onD)
  qed (use sorted assms(4) in auto)
  moreover have enc: "map_option snd (cbor_map_builder_encode mem qsort m enc) =
      cbor_encode_map mem enc (length (?s (mb_entries m))) \<bind>
        (\<lambda>enc. fold_opt (\<lambda>enc e. do { enc \<leftarrow> cbor_encode_text mem enc (Some (me_key e));
                                       cbor_encode_raw mem enc (me_value e) }) enc (?s (mb_entries m)))" for m
    by (simp add: cbor_map_builder_encode_def Let_def map_snd_bind)
  ultimately show ?thesis unfolding enc ents by simp
qed

theorem map_builder_order_independent_witness:
  "map_option snd (cbor_map_builder_encode (\<lambda>_. True)
      (\<lambda>_. sort_key (\<lambda>e. (length (me_key e), text_bytes (me_key e))))
      \<lparr>mb_entries = [\<lparr>me_key = ''b'', me_value = [1]\<rparr>, \<lparr>me_key = ''a'', me_value = [2]\<rparr>], mb_cap = 8\<rparr>
      (cbor_encoder_init False 20))
   = map_option snd (cbor_map_builder_encode (\<lambda>_. True)
      (\<lambda>_. sort_key (\<lambda>e. (length (me_key e), text_bytes (me_key e))))
      \<lparr>mb_entries = [\<lparr>me_key = ''a'', me_value = [2]\<rparr>, \<lparr>me_key = ''b'', me_value = [1]\<rparr>], mb_cap = 8\<rparr>
      (cbor_encoder_init False 20))"
  by (rule map_builder_order_independent
        [where es = "[\<lparr>me_key = ''b'', me_value = [1]\<rparr>, \<lparr>me_key = ''a'', me_value = [2]\<rparr>]"
           and es' = "[\<lparr>me_key = ''a'', me_value = [2]\<rparr>, \<lparr>me_key = ''b'', me_value = [1]\<rparr>]"])
     (simp_all add: is_qsort_sort_key cbor_map_builder_init_def cbor_map_builder_add_def Let_def)

text \<open>
  C14: \<open>cbor_map_find_key\<close> is a lookup. On the encoded pairs of a map it answers whether the key is
  present; if it is, the decoder stands at the value of the first pair with that key, otherwise the
  decoder is as before the call.
\<close>

theorem map_find_key_lookup:
  assumes "\<forall>(k, v) \<in> set ps. cbor_height v < depth"
    and "addressable pre (concat (map pair_bytes ps) @ rest)"
  shows "case map_of ps (text_bytes key) of
       None \<Rightarrow> cbor_map_find_key depth (dec_at pre (concat (map pair_bytes ps) @ rest)) key (length ps)
                 = Some (False, dec_at pre (concat (map pair_bytes ps) @ rest))
     | Some v \<Rightarrow> \<exists>pre' rest'.
          cbor_map_find_key depth (dec_at pre (concat (map pair_bytes ps) @ rest)) key (length ps)
            = Some (True, dec_at pre' (cbor_enc v @ rest'))"
proof (cases "map_of ps (text_bytes key)")
  case None
  have "(dec_at (pre @ p) r)\<lparr>dec_pos := dec_pos (dec_at pre (p @ r))\<rparr> = dec_at pre (p @ r)" for p r
    by (simp add: dec_at_def)
  then show ?thesis
    using None find_key_loop_dec_at [OF assms, of "text_bytes key"] by (simp add: cbor_map_find_key_def)
next
  case (Some v)
  then show ?thesis
    using find_key_loop_dec_at [OF assms, of "text_bytes key"] by (auto simp: cbor_map_find_key_def)
qed

theorem map_find_key_lookup_witness:
  "\<exists>pre' rest'.
     cbor_map_find_key 1 (dec_at [] (concat (map pair_bytes [([0x61], CUInt 1), ([0x62], CNull)]) @ [])) ''b''
       (length [([0x61 :: u8], CUInt 1), ([0x62], CNull)]) = Some (True, dec_at pre' (cbor_enc CNull @ rest'))"
proof -
  have "map_of [([0x61], CUInt 1), ([0x62], CNull)] (text_bytes ''b'') = Some CNull"
    by (simp add: text_bytes_def)
  moreover have "\<forall>(k, v) \<in> set [([0x61 :: u8], CUInt 1), ([0x62], CNull)]. cbor_height v < 1" by simp
  moreover have "addressable [] (concat (map pair_bytes [([0x61], CUInt 1), ([0x62], CNull)]) @ [])"
    by (simp add: cbor_head_def)
  ultimately show ?thesis
    using map_find_key_lookup [of "[([0x61], CUInt 1), ([0x62], CNull)]" 1 "[]" "[]" "''b''"]
    by (simp only: option.case)
qed

text \<open>
  C15: \<open>cbor_decode_map_foreach\<close> on an encoded map calls the handler once per pair, in order, with the
  key and a sub-decoder that holds exactly the encoded value, until the handler declines; it returns
  whether all pairs were handled, and then stands behind the map.
\<close>

theorem map_foreach_calls_handler:
  assumes "\<forall>(k, v) \<in> set ps. cbor_height v < depth"
    and "length (cbor_enc (CMap (map (\<lambda>(k, v). (CText k, v)) ps)) @ rest) < 2 ^ 64"
    and "buf = cbor_enc (CMap (map (\<lambda>(k, v). (CText k, v)) ps)) @ rest"
  shows "\<exists>d. cbor_decode_map_foreach depth (cbor_decoder_init buf) (reading_handler buf h) ctx =
            Some (fst (each_pair h ps ctx), d, snd (each_pair h ps ctx)) \<and>
          (fst (each_pair h ps ctx) \<longrightarrow>
             cbor_decoder_ok d \<and> unat (cbor_decoder_pos d) = length buf - length rest)"
proof -
  let ?B = "concat (map pair_bytes ps)"
  let ?h = "cbor_head CBOR_TYPE_MAP (length ps)"
  have enc: "cbor_enc (CMap (map (\<lambda>(k, v). (CText k, v)) ps)) = ?h @ ?B"
    by (simp add: comp_def case_prod_beta)
  have a: "addressable [] (?h @ ?B @ rest)" "addressable ?h (?B @ rest)" using assms(2) enc by simp_all
  have n: "length ps < 2 ^ 64"
    using length_less_addressable [of ps pair_bytes "[]" ?h rest] a by (simp add: case_prod_beta)
  have "decode_head 5 (dec_at [] (?h @ ?B @ rest)) = (word_of_nat (length ps), dec_at ?h (?B @ rest))"
    using decode_head_dec_at [of 5 "length ps" "[]" "?B @ rest"] a n by simp
  then have e: "cbor_decode_map_foreach depth (cbor_decoder_init buf) (reading_handler buf h) ctx =
      foreach_loop depth (reading_handler (?h @ ?B @ rest) h) (length ps) (dec_at ?h (?B @ rest)) ctx"
    using n by (simp add: cbor_decode_map_foreach_def cbor_decode_map_def init_dec_at assms(3) enc unat_of_nat
        del: cbor_enc.simps)
  obtain d where d: "foreach_loop depth (reading_handler (?h @ ?B @ rest) h) (length ps) (dec_at ?h (?B @ rest)) ctx =
       Some (fst (each_pair h ps ctx), d, snd (each_pair h ps ctx))"
    "fst (each_pair h ps ctx) \<longrightarrow> d = dec_at (?h @ ?B) rest"
    using foreach_loop_dec_at [OF assms(1) a(2), where h = h and ctx = ctx] by (elim exE conjE) (rule that)
  have "cbor_decoder_ok (dec_at (?h @ ?B) rest) \<and>
      unat (cbor_decoder_pos (dec_at (?h @ ?B) rest)) = length buf - length rest"
    using a(1) assms(3) enc
    by (simp add: dec_at_def cbor_decoder_ok_def cbor_decoder_pos_def unat_of_nat del: of_nat_add cbor_enc.simps)
  then show ?thesis using d e by (intro exI [of _ d]) auto
qed

theorem map_foreach_calls_handler_witness:
  "\<exists>d. cbor_decode_map_foreach 1 (cbor_decoder_init [0xA1, 0x61, 0x6B, 0x07])
          (reading_handler [0xA1, 0x61, 0x6B, 0x07] (\<lambda>k v c. (True, (k, v) # c))) [] =
        Some (True, d, [([0x6B], [0x07])]) \<and> cbor_decoder_ok d \<and> unat (cbor_decoder_pos d) = 4"
proof -
  let ?h = "\<lambda>k v c. (True, (k, v) # c)" and ?ps = "[([0x6B], CUInt 7)]"
  have spec: "each_pair ?h ?ps [] = (True, [([0x6B], [0x07])])"
    by (simp add: cbor_head_def)
  have "\<exists>d. cbor_decode_map_foreach 1 (cbor_decoder_init [0xA1, 0x61, 0x6B, 0x07])
          (reading_handler [0xA1, 0x61, 0x6B, 0x07] ?h) [] =
            Some (fst (each_pair ?h ?ps []), d, snd (each_pair ?h ?ps [])) \<and>
          (fst (each_pair ?h ?ps []) \<longrightarrow>
             cbor_decoder_ok d \<and> unat (cbor_decoder_pos d) = length [0xA1, 0x61, 0x6B, 0x07 :: u8] - length ([] :: bytes))"
    by (rule map_foreach_calls_handler) (simp_all add: cbor_head_def)
  then show ?thesis unfolding spec by (simp add: numeral_eq_Suc)
qed

text \<open>
  C16: Decoding untrusted bytes never reads outside the buffer. Every decoder operation, started with its
  position inside the buffer, has the same result whatever bytes follow the buffer in memory, leaves the
  position inside the buffer and the buffer alone, and does not clear the error flag; the copying variants
  always have a result. The bound on the destination and on the key, together with the buffer below
  \<open>2^64\<close> bytes, is what the C comparison of \<open>pos + len\<close> needs. Where \<open>cbor_skip\<close> has no result with a
  stack of \<open>depth\<close> frames, it has none whatever follows. Of \<open>cbor_decode_map_foreach\<close> this is
  said of the function itself, with a handler that does not read from its sub-decoder.
\<close>

theorem decoder_stays_in_buffer:
  assumes "dec_inv buf dec" and "cap + length buf < 2 ^ 64" and "length key + length buf < 2 ^ 64"
    and "ignores_sub_decoder handler"
  shows "reads_inside buf (\<lambda>d. Some (cbor_peek_type d)) dec \<and>
    reads_inside buf (\<lambda>d. Some (cbor_decode_uint d)) dec \<and>
    reads_inside buf (\<lambda>d. Some (cbor_decode_int d)) dec \<and>
    reads_inside buf (\<lambda>d. Some (cbor_decode_bool d)) dec \<and>
    reads_inside buf (\<lambda>d. Some (cbor_decode_bytes d)) dec \<and>
    reads_inside buf (\<lambda>d. Some (cbor_decode_text d)) dec \<and>
    reads_inside buf (\<lambda>d. cbor_decode_bytes_copy d cap) dec \<and> cbor_decode_bytes_copy dec cap \<noteq> None \<and>
    reads_inside buf (\<lambda>d. cbor_decode_text_copy d cap) dec \<and> cbor_decode_text_copy dec cap \<noteq> None \<and>
    reads_inside buf (\<lambda>d. Some (cbor_decode_array d)) dec \<and>
    reads_inside buf (\<lambda>d. Some (cbor_decode_map d)) dec \<and>
    reads_inside buf (\<lambda>d. map_option (Pair ()) (cbor_skip depth d)) dec \<and>
    reads_inside buf (\<lambda>d. cbor_map_find_key depth d key pair_count) dec \<and>
    reads_inside buf (\<lambda>d. map_option (\<lambda>(r, d, c). ((r, c), d)) (cbor_decode_map_foreach depth d handler ctx)) dec"
proof -
  note total = total_reads_inside [OF assms(1)]
  have heads: "reads_inside buf (\<lambda>d. Some (decode_head m d)) dec" "reads_inside buf (\<lambda>d. Some (decode_string m d)) dec" for m
    by (rule total, rule decode_head_behind [OF assms(1)], rule decode_head_keeps)
      (rule total, rule decode_string_behind [OF assms(1)], rule decode_string_keeps)
  have "reads_inside buf (\<lambda>d. map_option (Pair ()) (cbor_skip depth d)) dec"
    by (rule reads_insideI) (auto simp: skip_behind [OF assms(1)] option.map_comp comp_def assms(1) intro: skip_keeps)
  moreover have "reads_inside buf (\<lambda>d. cbor_decode_bytes_copy d cap) dec" "reads_inside buf (\<lambda>d. cbor_decode_text_copy d cap) dec"
    by (rule reads_insideI, rule copies_inside [OF assms(1,2)], rule assms(1), erule copies_keep)+
  ultimately show ?thesis
    unfolding cbor_decode_uint_def cbor_decode_bytes_def cbor_decode_text_def cbor_decode_array_def cbor_decode_map_def
    using copies_inside(3,4) [OF assms(1,2)] find_key_behind [OF assms(1,3)] foreach_behind [OF assms(1,4)]
      total [OF peek_type_behind [OF assms(1)] reads_keep(1)] total [OF decode_int_behind [OF assms(1)] reads_keep(2)]
      total [OF decode_bool_behind [OF assms(1)] reads_keep(3)]
      heads by blast
qed

text \<open>The map \<open>{"k": 7}\<close> with a cut second pair behind it, and a handler that counts.\<close>

theorem decoder_stays_in_buffer_witness:
  "\<exists>d. cbor_map_find_key 2 (cbor_decoder_init [0x61, 0x6B, 0x07, 0x62, 0x6B]) ''kk'' 2 = Some (False, d) \<and>
     cbor_map_find_key 2 (behind [0x6B, 0x07] (cbor_decoder_init [0x61, 0x6B, 0x07, 0x62, 0x6B])) ''kk'' 2 =
       Some (False, behind [0x6B, 0x07] d)"
proof -
  let ?d = "cbor_decoder_init [0x61, 0x6B, 0x07, 0x62, 0x6B]"
  have "reads_inside [0x61, 0x6B, 0x07, 0x62, 0x6B] (\<lambda>d. cbor_map_find_key 2 d ''kk'' 2) ?d"
    using decoder_stays_in_buffer [of "[0x61, 0x6B, 0x07, 0x62, 0x6B]" ?d 16 "''kk''" "\<lambda>p s c. (True, Suc c)" 2 2 0]
    by (simp add: dec_inv_def cbor_decoder_init_def ignores_sub_decoder_def)
  moreover have "map_option fst (cbor_map_find_key 2 ?d ''kk'' 2) = Some False"
    by code_simp
  ultimately show ?thesis by (auto simp: reads_inside_def)
qed

text \<open>
  C17: The bounds check of a string adds the announced length to the position in 64-bit arithmetic and
  wraps: a ten-byte array whose first element announces \<open>2^64 - 10\<close> bytes sends the decoder back to
  its first byte. \<open>cbor_validate\<close> on this input exhausts every stack.
\<close>

theorem cbor_validate_diverges:
  "cbor_validate depth [0x82, 0x5B, 0xFF, 0xFF, 0xFF, 0xFF, 0xFF, 0xFF, 0xFF, 0xF6] = None"
proof -
  let ?b = "[0x82, 0x5B, 0xFF, 0xFF, 0xFF, 0xFF, 0xFF, 0xFF, 0xFF, 0xF6] :: bytes"
  let ?n = "18446744073709551606 :: nat"
  let ?h = "cbor_head CBOR_TYPE_ARRAY 2" and ?s = "cbor_head CBOR_TYPE_BYTES ?n"
  have b: "?b = ?h @ ?s" by (simp add: cbor_head_def be_simps)
  have "?s = [0x5B, 0xFF, 0xFF, 0xFF, 0xFF, 0xFF, 0xFF, 0xFF, 0xF6]" "?h = [0x82]"
    by (simp_all add: cbor_head_def be_simps)
  then have wrap: "(dec_at (?h @ ?s) [])\<lparr>dec_pos := 0\<rparr> = dec_at [] (?h @ ?s)"
    "dec_pos (dec_at (?h @ ?s) []) + word_of_nat ?n = 0"
    "addressable ?h (?s @ [])" "addressable [] (?h @ ?s)"
    by (simp_all add: dec_at_def)
  have inner: "cbor_skip (Suc m) (dec_at ?h ?s) = Some (dec_at [] (?h @ ?s))" for m
    using skip_head [of 2 ?n ?h "[]" m] wrap by simp
  have outer: "cbor_skip (Suc m) (dec_at [] (?h @ ?s)) = dec_times (cbor_skip m) 2 (dec_at ?h ?s)" for m
    using skip_head [of 4 2 "[]" ?s m] wrap by simp
  have "cbor_skip m (dec_at [] (?h @ ?s)) = None" for m
  proof (induction m)
    case (Suc m)
    then show ?case
      by (cases m) (simp_all add: outer inner dec_times.simps)
  qed simp
  then show ?thesis by (simp only: cbor_validate_def init_dec_at b) simp
qed

end
