(* ===== verification/Plank_Core.thy ===== *)
theory Plank_Core
  imports Plank_Cbor
begin

text \<open>
  The core of the PLANK network layer: the cryptographic wrappers and utilities of
  \<^verbatim>\<open>src/plank/plank_crypto.c\<close> and the addresses, objects and message bodies of
  \<^verbatim>\<open>src/plank/plank_core.c\<close>.

  OpenSSL is not part of the program: a record of functions stands for the calls of it that the
  wrappers make, and what is relied on is a named hypothesis about such a record. A NUL-terminated
  \<open>char\<close> array is the string in front of its terminator; an array of identifier bytes is the list of
  its bytes. A pointer with a length is the block it points to (\<^term>\<open>None\<close> for NULL) and the length,
  because some operations set the length to more than the block holds. A result of the form
  \<^term>\<open>Inl msg\<close> is the \<open>false\<close> or NULL result with \<open>msg\<close> left for \<open>plank_last_error\<close>; an outer
  \<^term>\<open>None\<close> is a read outside of a block.
\<close>

section \<open>Cryptography\<close>

abbreviation PLANK_NODE_ID_SIZE :: nat where "PLANK_NODE_ID_SIZE \<equiv> 16"
abbreviation PLANK_LINK_ID_SIZE :: nat where "PLANK_LINK_ID_SIZE \<equiv> 16"
abbreviation PLANK_OBJECT_ID_SIZE :: nat where "PLANK_OBJECT_ID_SIZE \<equiv> 32"
abbreviation PLANK_ATTACHMENT_ID_SIZE :: nat where "PLANK_ATTACHMENT_ID_SIZE \<equiv> 32"
abbreviation PLANK_NONCE_SIZE :: nat where "PLANK_NONCE_SIZE \<equiv> 32"
abbreviation PLANK_SIGNATURE_SIZE :: nat where "PLANK_SIGNATURE_SIZE \<equiv> 64"
abbreviation PLANK_PUBKEY_SIZE :: nat where "PLANK_PUBKEY_SIZE \<equiv> 32"
abbreviation PLANK_HASH_SIZE :: nat where "PLANK_HASH_SIZE \<equiv> 32"
abbreviation PLANK_MAX_NODE_NAME :: nat where "PLANK_MAX_NODE_NAME \<equiv> 32"
abbreviation PLANK_MAX_NETWORK_NAME :: nat where "PLANK_MAX_NETWORK_NAME \<equiv> 32"
abbreviation PLANK_MAX_USER_NAME :: nat where "PLANK_MAX_USER_NAME \<equiv> 32"
abbreviation PLANK_MAX_AREA_SLUG :: nat where "PLANK_MAX_AREA_SLUG \<equiv> 48"
abbreviation PLANK_MAX_SUBJECT :: nat where "PLANK_MAX_SUBJECT \<equiv> 256"
abbreviation PLANK_MAX_ADDRESS :: nat where "PLANK_MAX_ADDRESS \<equiv> 128"

text \<open>
  \<open>evp_digest_sign seed msg\<close> is the sequence from \<open>EVP_PKEY_new_raw_private_key\<close> to \<open>EVP_DigestSign\<close> with
  the output buffer of 64 bytes, \<^term>\<open>None\<close> when one of its calls fails; \<open>evp_digest_verify pub msg sig\<close>
  is the result 1 of \<open>EVP_DigestVerify\<close>; \<open>evp_sha256\<close> is \<open>EVP_Digest\<close> with the bytes it writes.
\<close>

record openssl =
  evp_digest_sign :: "bytes \<Rightarrow> bytes \<Rightarrow> bytes option"
  evp_digest_verify :: "bytes \<Rightarrow> bytes \<Rightarrow> bytes \<Rightarrow> bool"
  evp_sha256 :: "bytes \<Rightarrow> bytes option"

text \<open>
  The documented behaviour: a signature has 64 bytes, and what the private key of a pair has signed
  is verified with its public key.
\<close>

definition ed25519_keypair :: "openssl \<Rightarrow> bytes \<Rightarrow> bytes \<Rightarrow> bool" where
  "ed25519_keypair ssl seed pub \<longleftrightarrow>
     (\<forall>msg sig. evp_digest_sign ssl seed msg = Some sig \<longrightarrow>
        length sig = PLANK_SIGNATURE_SIZE \<and> evp_digest_verify ssl pub msg sig)"

definition plank_crypto_pubkey_from_privkey :: "bytes \<Rightarrow> bytes" where
  "plank_crypto_pubkey_from_privkey privkey = take 32 (drop 32 privkey)"

definition plank_crypto_sign_ed25519 :: "openssl \<Rightarrow> bytes \<Rightarrow> bytes \<Rightarrow> bytes option" where
  "plank_crypto_sign_ed25519 ssl msg privkey = evp_digest_sign ssl (take 32 privkey) msg"

definition plank_crypto_verify_ed25519 :: "openssl \<Rightarrow> bytes \<Rightarrow> bytes \<Rightarrow> bytes \<Rightarrow> bool" where
  "plank_crypto_verify_ed25519 ssl msg signature pubkey =
     evp_digest_verify ssl (take PLANK_PUBKEY_SIZE pubkey) msg (take PLANK_SIGNATURE_SIZE signature)"

definition plank_crypto_sha256 :: "openssl \<Rightarrow> bytes \<Rightarrow> bytes option" where
  "plank_crypto_sha256 ssl data =
     (case evp_sha256 ssl data of
        Some hash \<Rightarrow> if length hash = PLANK_HASH_SIZE then Some hash else None
      | None \<Rightarrow> None)"

definition plank_crypto_key_fingerprint :: "openssl \<Rightarrow> bytes \<Rightarrow> bytes option" where
  "plank_crypto_key_fingerprint ssl pubkey = plank_crypto_sha256 ssl (take PLANK_PUBKEY_SIZE pubkey)"

text \<open>The arguments are the identifiers and nonces of the two sides, arrays of the sizes that are copied.\<close>

definition plank_crypto_build_auth_transcript ::
    "bytes \<Rightarrow> bytes \<Rightarrow> bytes \<Rightarrow> bytes \<Rightarrow> bytes \<Rightarrow> u64 \<Rightarrow> u64 \<Rightarrow> bytes" where
  "plank_crypto_build_auth_transcript initiator_node_id responder_node_id initiator_link_id
       initiator_nonce responder_nonce initiator_timestamp responder_timestamp =
     text_bytes ''PLANK-AUTH-v1''
       @ take PLANK_NODE_ID_SIZE initiator_node_id @ take PLANK_NODE_ID_SIZE responder_node_id
       @ take PLANK_LINK_ID_SIZE initiator_link_id
       @ take PLANK_NONCE_SIZE initiator_nonce @ take PLANK_NONCE_SIZE responder_nonce
       @ be_bytes 8 (unat initiator_timestamp) @ be_bytes 8 (unat responder_timestamp)"

definition plank_crypto_sign_auth_transcript :: "openssl \<Rightarrow> bytes \<Rightarrow> bytes \<Rightarrow> bytes option" where
  "plank_crypto_sign_auth_transcript ssl transcript privkey = plank_crypto_sign_ed25519 ssl transcript privkey"

definition plank_crypto_verify_auth_transcript :: "openssl \<Rightarrow> bytes \<Rightarrow> bytes \<Rightarrow> bytes \<Rightarrow> bool" where
  "plank_crypto_verify_auth_transcript ssl transcript signature pubkey =
     plank_crypto_verify_ed25519 ssl transcript signature pubkey"

text \<open>The comparison in constant time: the differences of all bytes are collected.\<close>

definition plank_crypto_memcmp :: "bytes \<Rightarrow> bytes \<Rightarrow> nat \<Rightarrow> bool" where
  "plank_crypto_memcmp a b len =
     (foldl (\<lambda>diff (x, y). diff OR (x XOR y)) 0 (zip (take len a) (take len b)) = 0)"

definition plank_crypto_memzero :: "bytes \<Rightarrow> nat \<Rightarrow> bytes" where
  "plank_crypto_memzero p len = replicate (min len (length p)) 0 @ drop len p"

definition hex_chars :: string where
  "hex_chars = ''0123456789abcdef''"

definition plank_crypto_to_hex :: "bytes \<Rightarrow> string" where
  "plank_crypto_to_hex bs =
     concat (map (\<lambda>b. [hex_chars ! unat (drop_bit 4 b AND 0xF), hex_chars ! unat (b AND 0xF)]) bs)"

definition hex_digit :: "char \<Rightarrow> int" where
  "hex_digit c =
     (if code CHR ''0'' \<le> code c \<and> code c \<le> code CHR ''9'' then int (code c - code CHR ''0'')
      else if code CHR ''a'' \<le> code c \<and> code c \<le> code CHR ''f'' then int (code c - code CHR ''a'') + 10
      else if code CHR ''A'' \<le> code c \<and> code c \<le> code CHR ''F'' then int (code c - code CHR ''A'') + 10
      else - 1)"

text \<open>The bytes that are written; what a failing call has written before is not looked at.\<close>

fun hex_pairs :: "string \<Rightarrow> bytes option" where
  "hex_pairs (h # l # s) =
     (let hi = hex_digit h; lo = hex_digit l in
      if hi < 0 \<or> lo < 0 then None
      else map_option (Cons (word_of_int (push_bit 4 hi OR lo))) (hex_pairs s))"
| "hex_pairs _ = Some []"

definition plank_crypto_from_hex :: "string \<Rightarrow> nat \<Rightarrow> bytes option" where
  "plank_crypto_from_hex hex max_len =
     (if length hex mod 2 \<noteq> 0 then None
      else if max_len < length hex div 2 then None
      else hex_pairs hex)"

section \<open>Addresses\<close>

definition is_valid_name_char :: "char \<Rightarrow> bool" where
  "is_valid_name_char c \<longleftrightarrow>
     (code CHR ''a'' \<le> code c \<and> code c \<le> code CHR ''z'') \<or>
     (code CHR ''0'' \<le> code c \<and> code c \<le> code CHR ''9'') \<or>
     c = CHR ''_'' \<or> c = CHR ''-''"

definition is_valid_user_char :: "char \<Rightarrow> bool" where
  "is_valid_user_char c \<longleftrightarrow> is_valid_name_char c \<or> c = CHR ''.''"

definition is_valid_slug_char :: "char \<Rightarrow> bool" where
  "is_valid_slug_char c \<longleftrightarrow> is_valid_name_char c \<or> c = CHR ''.''"

definition validate_name :: "string \<Rightarrow> nat \<Rightarrow> bool" where
  "validate_name name max_len \<longleftrightarrow> name \<noteq> [] \<and> length name \<le> max_len \<and> list_all is_valid_name_char name"

definition plank_canonicalize_addr :: "string \<Rightarrow> string" where
  "plank_canonicalize_addr addr = map c_tolower addr"

definition plank_format_node_addr :: "string \<Rightarrow> string \<Rightarrow> nat \<Rightarrow> string + string" where
  "plank_format_node_addr node_name network_name addr_max =
     (if \<not> validate_name node_name PLANK_MAX_NODE_NAME then Inl ''Invalid node name''
      else if \<not> validate_name network_name PLANK_MAX_NETWORK_NAME then Inl ''Invalid network name''
      else
        (let addr = node_name @ ''@'' @ network_name in
         if addr_max \<le> length addr then Inl ''Address buffer too small''
         else Inr (plank_canonicalize_addr addr)))"

definition plank_format_user_addr :: "string \<Rightarrow> string \<Rightarrow> string \<Rightarrow> nat \<Rightarrow> string + string" where
  "plank_format_user_addr user node_name network_name addr_max =
     (if user = [] \<or> PLANK_MAX_USER_NAME < length user then Inl ''Invalid user name length''
      else if \<not> list_all is_valid_user_char user then Inl ''Invalid character in user name''
      else if \<not> validate_name node_name PLANK_MAX_NODE_NAME then Inl ''Invalid node name''
      else if \<not> validate_name network_name PLANK_MAX_NETWORK_NAME then Inl ''Invalid network name''
      else
        (let addr = user @ ''@'' @ node_name @ ''@'' @ network_name in
         if addr_max \<le> length addr then Inl ''Address buffer too small''
         else Inr (plank_canonicalize_addr addr)))"

definition plank_format_area_addr :: "string \<Rightarrow> string \<Rightarrow> string \<Rightarrow> nat \<Rightarrow> string + string" where
  "plank_format_area_addr slug origin_node network_name addr_max =
     (if slug = [] \<or> PLANK_MAX_AREA_SLUG < length slug then Inl ''Invalid area slug length''
      else if \<not> list_all is_valid_slug_char slug then Inl ''Invalid character in area slug''
      else if \<not> validate_name origin_node PLANK_MAX_NODE_NAME then Inl ''Invalid origin node name''
      else if \<not> validate_name network_name PLANK_MAX_NETWORK_NAME then Inl ''Invalid network name''
      else
        (let addr = slug @ ''@'' @ origin_node @ ''@'' @ network_name in
         if addr_max \<le> length addr then Inl ''Address buffer too small''
         else Inr (plank_canonicalize_addr addr)))"

text \<open>\<open>strchr (s, c)\<close>: the rest of the string from the first \<open>c\<close> on, for a \<open>c\<close> other than NUL.\<close>

definition c_strchr :: "char \<Rightarrow> string \<Rightarrow> string option" where
  "c_strchr c s = (case dropWhile (\<lambda>x. x \<noteq> c) s of [] \<Rightarrow> None | r \<Rightarrow> Some r)"

definition plank_parse_node_addr :: "string \<Rightarrow> nat \<Rightarrow> nat \<Rightarrow> (string \<times> string) option" where
  "plank_parse_node_addr addr node_max network_max =
     (case c_strchr CHR ''@'' addr of
        None \<Rightarrow> None
      | Some at \<Rightarrow>
          (let node_len = length addr - length at; net = tl at in
           if node_len = 0 \<or> node_max \<le> node_len then None
           else if net = [] \<or> network_max \<le> length net then None
           else if c_strchr CHR ''@'' net \<noteq> None then None
           else Some (take node_len addr, net)))"

definition plank_parse_user_addr :: "string \<Rightarrow> nat \<Rightarrow> nat \<Rightarrow> nat \<Rightarrow> (string \<times> string \<times> string) option" where
  "plank_parse_user_addr addr user_max node_max network_max =
     (case c_strchr CHR ''@'' addr of
        None \<Rightarrow> None
      | Some at1 \<Rightarrow>
          (case c_strchr CHR ''@'' (tl at1) of
             None \<Rightarrow> None
           | Some at2 \<Rightarrow>
               if c_strchr CHR ''@'' (tl at2) \<noteq> None then None
               else
                 (let user_len = length addr - length at1;
                      node_len = length at1 - length at2 - 1;
                      net = tl at2 in
                  if user_len = 0 \<or> user_max \<le> user_len then None
                  else if node_len = 0 \<or> node_max \<le> node_len then None
                  else if net = [] \<or> network_max \<le> length net then None
                  else Some (take user_len addr, take node_len (tl at1), net))))"

definition plank_parse_area_addr :: "string \<Rightarrow> nat \<Rightarrow> nat \<Rightarrow> nat \<Rightarrow> (string \<times> string \<times> string) option" where
  "plank_parse_area_addr addr slug_max origin_max network_max =
     plank_parse_user_addr addr slug_max origin_max network_max"

definition plank_validate_node_addr :: "string \<Rightarrow> bool" where
  "plank_validate_node_addr addr =
     (plank_parse_node_addr addr (PLANK_MAX_NODE_NAME + 1) (PLANK_MAX_NETWORK_NAME + 1) \<noteq> None)"

definition plank_validate_user_addr :: "string \<Rightarrow> bool" where
  "plank_validate_user_addr addr =
     (plank_parse_user_addr addr (PLANK_MAX_USER_NAME + 1) (PLANK_MAX_NODE_NAME + 1)
        (PLANK_MAX_NETWORK_NAME + 1) \<noteq> None)"

definition plank_validate_area_addr :: "string \<Rightarrow> bool" where
  "plank_validate_area_addr addr =
     (plank_parse_area_addr addr (PLANK_MAX_AREA_SLUG + 1) (PLANK_MAX_NODE_NAME + 1)
        (PLANK_MAX_NETWORK_NAME + 1) \<noteq> None)"

section \<open>Objects\<close>

text \<open>The enumeration types are 32-bit unsigned integers.\<close>

abbreviation PLANK_CLASS_AREA_DEFINITION :: u32 where "PLANK_CLASS_AREA_DEFINITION \<equiv> 1"
abbreviation PLANK_CLASS_AREA_POLICY :: u32 where "PLANK_CLASS_AREA_POLICY \<equiv> 2"
abbreviation PLANK_CLASS_MESSAGE :: u32 where "PLANK_CLASS_MESSAGE \<equiv> 3"
abbreviation PLANK_CLASS_ATTACHMENT_META :: u32 where "PLANK_CLASS_ATTACHMENT_META \<equiv> 4"
abbreviation PLANK_CLASS_SUBSCRIPTION :: u32 where "PLANK_CLASS_SUBSCRIPTION \<equiv> 5"
abbreviation PLANK_CLASS_MODERATION :: u32 where "PLANK_CLASS_MODERATION \<equiv> 6"
abbreviation PLANK_CLASS_ROUTING :: u32 where "PLANK_CLASS_ROUTING \<equiv> 7"
abbreviation PLANK_CLASS_RECEIPT :: u32 where "PLANK_CLASS_RECEIPT \<equiv> 8"
abbreviation PLANK_CLASS_LINK_EVENT :: u32 where "PLANK_CLASS_LINK_EVENT \<equiv> 9"
abbreviation PLANK_CLASS_BUNDLE_CHECKPOINT :: u32 where "PLANK_CLASS_BUNDLE_CHECKPOINT \<equiv> 10"
abbreviation PLANK_CLASS_NODE_INFO :: u32 where "PLANK_CLASS_NODE_INFO \<equiv> 11"
abbreviation PLANK_SIG_ED25519 :: u32 where "PLANK_SIG_ED25519 \<equiv> 1"
abbreviation PLANK_MSG_AREA_POST :: u32 where "PLANK_MSG_AREA_POST \<equiv> 1"
abbreviation PLANK_MSG_DIRECT_POST :: u32 where "PLANK_MSG_DIRECT_POST \<equiv> 2"
abbreviation PLANK_MSG_SYSTEM_POST :: u32 where "PLANK_MSG_SYSTEM_POST \<equiv> 3"
abbreviation PLANK_BODY_PLAIN_UTF8 :: u32 where "PLANK_BODY_PLAIN_UTF8 \<equiv> 1"
abbreviation PLANK_RETENTION_STANDARD :: u32 where "PLANK_RETENTION_STANDARD \<equiv> 2"
abbreviation PLANK_VIS_VISIBLE :: u32 where "PLANK_VIS_VISIBLE \<equiv> 1"

record plank_object_t =
  ob_version :: u16
  ob_class :: u32
  ob_origin_node_id :: bytes
  ob_origin_node_addr :: string
  ob_created_at :: u64
  ob_object_id :: bytes
  ob_sig_alg :: u32
  ob_signature :: bytes
  ob_body_cbor :: "bytes option"
  ob_body_cbor_len :: nat
  ob_envelope_cbor :: "bytes option"
  ob_envelope_cbor_len :: nat

definition plank_object_new :: "(nat \<Rightarrow> bool) \<Rightarrow> plank_object_t option" where
  "plank_object_new mem =
     (if mem 296 then Some
        \<lparr>ob_version = 1, ob_class = 0, ob_origin_node_id = replicate PLANK_NODE_ID_SIZE 0,
         ob_origin_node_addr = [], ob_created_at = 0, ob_object_id = replicate PLANK_OBJECT_ID_SIZE 0,
         ob_sig_alg = PLANK_SIG_ED25519, ob_signature = replicate PLANK_SIGNATURE_SIZE 0,
         ob_body_cbor = None, ob_body_cbor_len = 0, ob_envelope_cbor = None, ob_envelope_cbor_len = 0\<rparr>
      else None)"

text \<open>
  Copying a block of \<open>len\<close> bytes into a new one, the shape of the copies of both \<open>clone\<close> functions:
  \<^term>\<open>Inl ()\<close> when the allocation fails.
\<close>

definition clone_block :: "(nat \<Rightarrow> bool) \<Rightarrow> bytes option \<Rightarrow> nat \<Rightarrow> (unit + bytes option) option" where
  "clone_block mem blk len =
     (case blk of
        None \<Rightarrow> Some (Inr None)
      | Some b \<Rightarrow>
          if len = 0 then Some (Inr None)
          else if \<not> mem len then Some (Inl ())
          else if length b < len then None
          else Some (Inr (Some (take len b))))"

definition plank_object_clone :: "(nat \<Rightarrow> bool) \<Rightarrow> plank_object_t \<Rightarrow> plank_object_t option option" where
  "plank_object_clone mem obj =
     (case plank_object_new mem of
        None \<Rightarrow> Some None
      | Some _ \<Rightarrow> do {
          body \<leftarrow> clone_block mem (ob_body_cbor obj) (ob_body_cbor_len obj);
          (case body of
             Inl _ \<Rightarrow> Some None
           | Inr body \<Rightarrow> do {
               env \<leftarrow> clone_block mem (ob_envelope_cbor obj) (ob_envelope_cbor_len obj);
               (case env of
                  Inl _ \<Rightarrow> Some None
                | Inr env \<Rightarrow> Some (Some (obj\<lparr>ob_body_cbor := body, ob_envelope_cbor := env\<rparr>))) }) })"

section \<open>Message bodies\<close>

text \<open>
  The arrays of pointers are lists with their count as length; an element is \<^term>\<open>None\<close> for a NULL
  pointer.
\<close>

record plank_message_body_t =
  msg_type :: u32
  msg_author_user :: string
  msg_author_display :: string
  msg_from_addr :: string
  msg_to_addrs :: "string option list"
  msg_area_addr :: string
  msg_subject :: string
  msg_body_format :: u32
  msg_body_text :: "bytes option"
  msg_body_text_len :: nat
  msg_thread_root_id :: bytes
  msg_parent_id :: bytes
  msg_reply_to :: string
  msg_attachment_refs :: "bytes option list"
  msg_retention_class :: u32
  msg_visibility :: u32
  msg_flags :: u32
  msg_path :: "bytes option list"
  msg_hop_count :: u32

definition plank_message_body_new :: "(nat \<Rightarrow> bool) \<Rightarrow> plank_message_body_t option" where
  "plank_message_body_new mem =
     (if mem 872 then Some
        \<lparr>msg_type = PLANK_MSG_AREA_POST, msg_author_user = [], msg_author_display = [],
         msg_from_addr = [], msg_to_addrs = [], msg_area_addr = [], msg_subject = [],
         msg_body_format = PLANK_BODY_PLAIN_UTF8, msg_body_text = None, msg_body_text_len = 0,
         msg_thread_root_id = replicate PLANK_OBJECT_ID_SIZE 0,
         msg_parent_id = replicate PLANK_OBJECT_ID_SIZE 0, msg_reply_to = [],
         msg_attachment_refs = [], msg_retention_class = PLANK_RETENTION_STANDARD,
         msg_visibility = PLANK_VIS_VISIBLE, msg_flags = 0, msg_path = [], msg_hop_count = 0\<rparr>
      else None)"

text \<open>
  The loops over the arrays of pointers: \<open>dup\<close> copies one element, \<^term>\<open>Inl ()\<close> is a failing
  allocation. The array itself takes eight bytes per element.
\<close>

fun clone_elems :: "('a \<Rightarrow> (unit + 'a) option) \<Rightarrow> 'a list \<Rightarrow> (unit + 'a list) option" where
  "clone_elems dup [] = Some (Inr [])"
| "clone_elems dup (x # xs) =
     (case dup x of
        None \<Rightarrow> None
      | Some (Inl _) \<Rightarrow> Some (Inl ())
      | Some (Inr y) \<Rightarrow>
          (case clone_elems dup xs of
             None \<Rightarrow> None
           | Some (Inl _) \<Rightarrow> Some (Inl ())
           | Some (Inr ys) \<Rightarrow> Some (Inr (y # ys))))"

definition clone_array :: "(nat \<Rightarrow> bool) \<Rightarrow> ('a \<Rightarrow> (unit + 'a) option) \<Rightarrow> 'a list \<Rightarrow> (unit + 'a list) option" where
  "clone_array mem dup xs =
     (if xs = [] then Some (Inr [])
      else if \<not> mem (8 * length xs) then Some (Inl ())
      else clone_elems dup xs)"

definition dup_text :: "(nat \<Rightarrow> bool) \<Rightarrow> string option \<Rightarrow> (unit + string option) option" where
  "dup_text mem s =
     (case s of
        None \<Rightarrow> None
      | Some t \<Rightarrow> if mem (length t + 1) then Some (Inr (Some t)) else Some (Inl ()))"

definition dup_id :: "(nat \<Rightarrow> bool) \<Rightarrow> nat \<Rightarrow> bytes option \<Rightarrow> (unit + bytes option) option" where
  "dup_id mem n i =
     (if \<not> mem n then Some (Inl ())
      else (case i of None \<Rightarrow> None
            | Some b \<Rightarrow> if length b < n then None else Some (Inr (Some (take n b)))))"

text \<open>The copy of the text is followed by a terminating NUL.\<close>

definition clone_text :: "(nat \<Rightarrow> bool) \<Rightarrow> bytes option \<Rightarrow> nat \<Rightarrow> (unit + bytes option) option" where
  "clone_text mem blk len =
     (case blk of
        None \<Rightarrow> Some (Inr None)
      | Some b \<Rightarrow>
          if len = 0 then Some (Inr None)
          else if \<not> mem (len + 1) then Some (Inl ())
          else if length b < len then None
          else Some (Inr (Some (take len b @ [0]))))"

definition plank_message_body_clone ::
    "(nat \<Rightarrow> bool) \<Rightarrow> plank_message_body_t \<Rightarrow> plank_message_body_t option option" where
  "plank_message_body_clone mem body =
     (case plank_message_body_new mem of
        None \<Rightarrow> Some None
      | Some _ \<Rightarrow> do {
          txt \<leftarrow> clone_text mem (msg_body_text body) (msg_body_text_len body);
          (case txt of Inl _ \<Rightarrow> Some None | Inr txt \<Rightarrow> do {
             to \<leftarrow> clone_array mem (dup_text mem) (msg_to_addrs body);
             (case to of Inl _ \<Rightarrow> Some None | Inr to \<Rightarrow> do {
                refs \<leftarrow> clone_array mem (dup_id mem PLANK_ATTACHMENT_ID_SIZE) (msg_attachment_refs body);
                (case refs of Inl _ \<Rightarrow> Some None | Inr refs \<Rightarrow> do {
                   path \<leftarrow> clone_array mem (dup_id mem PLANK_NODE_ID_SIZE) (msg_path body);
                   (case path of Inl _ \<Rightarrow> Some None | Inr path \<Rightarrow>
                      Some (Some (body\<lparr>
                        msg_body_text := txt,
                        msg_body_text_len := (if txt = None then 0 else msg_body_text_len body),
                        msg_to_addrs := to, msg_attachment_refs := refs, msg_path := path\<rparr>))) }) }) }) })"

section \<open>Utilities\<close>

definition plank_object_id_to_hex :: "bytes \<Rightarrow> string" where
  "plank_object_id_to_hex i = plank_crypto_to_hex (take PLANK_OBJECT_ID_SIZE i)"

definition plank_hex_to_object_id :: "string \<Rightarrow> bytes option" where
  "plank_hex_to_object_id hex =
     (if length hex \<noteq> PLANK_OBJECT_ID_SIZE * 2 then None
      else plank_crypto_from_hex hex PLANK_OBJECT_ID_SIZE)"

definition plank_object_class_name :: "u32 \<Rightarrow> string" where
  "plank_object_class_name cls =
     (if cls = PLANK_CLASS_AREA_DEFINITION then ''AreaDefinition''
      else if cls = PLANK_CLASS_AREA_POLICY then ''AreaPolicy''
      else if cls = PLANK_CLASS_MESSAGE then ''Message''
      else if cls = PLANK_CLASS_ATTACHMENT_META then ''AttachmentMeta''
      else if cls = PLANK_CLASS_SUBSCRIPTION then ''SubscriptionEvent''
      else if cls = PLANK_CLASS_MODERATION then ''ModerationEvent''
      else if cls = PLANK_CLASS_ROUTING then ''RoutingEvent''
      else if cls = PLANK_CLASS_RECEIPT then ''ReceiptEvent''
      else if cls = PLANK_CLASS_LINK_EVENT then ''LinkEvent''
      else if cls = PLANK_CLASS_BUNDLE_CHECKPOINT then ''BundleCheckpoint''
      else if cls = PLANK_CLASS_NODE_INFO then ''NodeInfo''
      else ''Unknown'')"

definition plank_message_type_name :: "u32 \<Rightarrow> string" where
  "plank_message_type_name t =
     (if t = PLANK_MSG_AREA_POST then ''AREA_POST''
      else if t = PLANK_MSG_DIRECT_POST then ''DIRECT_POST''
      else if t = PLANK_MSG_SYSTEM_POST then ''SYSTEM_POST''
      else ''Unknown'')"

definition plank_object_id_equal :: "bytes \<Rightarrow> bytes \<Rightarrow> bool" where
  "plank_object_id_equal a b = plank_crypto_memcmp a b PLANK_OBJECT_ID_SIZE"

definition plank_object_id_is_zero :: "bytes \<Rightarrow> bool" where
  "plank_object_id_is_zero i = list_all (\<lambda>b. b = 0) (take PLANK_OBJECT_ID_SIZE i)"

section \<open>Cryptographic utilities\<close>

lemma foldl_or_zero: "foldl (\<lambda>diff (x, y). diff OR (x XOR y)) d ps = 0 \<longleftrightarrow> d = (0 :: u8) \<and> (\<forall>(x, y) \<in> set ps. x = y)"
proof (induction ps arbitrary: d)
  case (Cons p ps)
  have "d OR (x XOR y) = 0 \<longleftrightarrow> d = 0 \<and> x = y" for x y :: u8
    by (auto simp: bit_eq_iff bit_simps)
  with Cons show ?case by (cases p) auto
qed simp

lemma memcmp_iff_eq: "length a = len \<Longrightarrow> length b = len \<Longrightarrow> plank_crypto_memcmp a b len \<longleftrightarrow> a = b"
  by (simp add: plank_crypto_memcmp_def foldl_or_zero list_eq_iff_zip_eq)

lemma nibble_less: "unat (b AND 0xF :: u8) < 16"
proof -
  have "b AND 0xF = take_bit 4 b" by (simp add: take_bit_eq_mask mask_eq_exp_minus_1)
  then show ?thesis
    using take_bit_nat_less_exp [of 4 "unat b"] by (simp add: unsigned_take_bit_eq)
qed

lemma hex_digit_chars: "n < 16 \<Longrightarrow> hex_digit (hex_chars ! n) = int n"
proof -
  assume "n < 16"
  then have "n \<in> set [0..<16]" by simp
  moreover have "\<forall>n \<in> set [0..<16]. hex_digit (hex_chars ! n) = int n"
    by (simp add: upt_rec hex_digit_def hex_chars_def)
  ultimately show ?thesis by blast
qed

lemma join_nibbles:
  "(word_of_int (push_bit 4 (uint (drop_bit 4 b AND 0xF)) OR uint (b AND 0xF)) :: u8) = b"
proof -
  have m: "x AND 0xF = take_bit 4 x" for x :: u8 by (simp add: take_bit_eq_mask mask_eq_exp_minus_1)
  have "word_of_int (push_bit 4 (uint (take_bit 4 (drop_bit 4 b))) OR uint (take_bit 4 b)) =
      (push_bit 4 (take_bit 4 (drop_bit 4 b)) OR take_bit 4 b :: u8)"
    by (rule bit_word_eqI) (auto simp: bit_simps)
  also have "\<dots> = b"
    by (rule bit_word_eqI) (auto simp: bit_simps)
  finally show ?thesis by (simp add: m)
qed

lemma hex_pairs_to_hex: "hex_pairs (plank_crypto_to_hex bs) = Some bs"
proof (induction bs)
  case (Cons b bs)
  have "plank_crypto_to_hex (b # bs) =
      hex_chars ! unat (drop_bit 4 b AND 0xF) # hex_chars ! unat (b AND 0xF) # plank_crypto_to_hex bs"
    by (simp add: plank_crypto_to_hex_def)
  then show ?case
    using Cons by (simp add: hex_digit_chars nibble_less join_nibbles Let_def)
qed (simp add: plank_crypto_to_hex_def)

lemma length_to_hex [simp]: "length (plank_crypto_to_hex bs) = 2 * length bs"
  by (induction bs) (simp_all add: plank_crypto_to_hex_def)

lemma from_hex_to_hex: "length bs \<le> max_len \<Longrightarrow> plank_crypto_from_hex (plank_crypto_to_hex bs) max_len = Some bs"
  by (simp add: plank_crypto_from_hex_def hex_pairs_to_hex)

section \<open>Addresses\<close>

lemma name_char_not_at: "is_valid_name_char c \<Longrightarrow> c \<noteq> CHR ''@''"
  by (auto simp: is_valid_name_char_def)

lemma user_char_not_at: "is_valid_user_char c \<Longrightarrow> c \<noteq> CHR ''@''"
  by (auto simp: is_valid_user_char_def is_valid_name_char_def)

lemma name_char_lower: "is_valid_name_char c \<Longrightarrow> c_tolower c = c"
  by (auto simp: is_valid_name_char_def c_defs)

lemma user_char_lower: "is_valid_user_char c \<Longrightarrow> c_tolower c = c"
  by (auto simp: is_valid_user_char_def is_valid_name_char_def c_defs)

lemma strchr_append: "list_all (\<lambda>x. x \<noteq> c) a \<Longrightarrow> c_strchr c (a @ c # b) = Some (c # b)"
  by (simp add: c_strchr_def list_all_iff dropWhile_append2)

lemma strchr_None: "list_all (\<lambda>x. x \<noteq> c) a \<Longrightarrow> c_strchr c a = None"
  by (simp add: c_strchr_def list_all_iff dropWhile_eq_Nil_conv [THEN iffD2])

lemma validate_nameD:
  assumes "validate_name s n"
  shows "s \<noteq> []" "length s \<le> n" "list_all (\<lambda>x. x \<noteq> CHR ''@'') s" "map c_tolower s = s"
  using assms name_char_not_at name_char_lower by (auto simp: validate_name_def list_all_iff map_idI)

lemma user_charsD:
  assumes "list_all is_valid_user_char s"
  shows "list_all (\<lambda>x. x \<noteq> CHR ''@'') s" "map c_tolower s = s"
  using assms user_char_not_at user_char_lower by (auto simp: list_all_iff map_idI)

lemma lower_at [simp]: "c_tolower CHR ''@'' = CHR ''@''"
  by (simp add: c_defs)

lemma format_parse_node:
  assumes "plank_format_node_addr node net addr_max = Inr addr"
  shows "addr = node @ ''@'' @ net" "plank_parse_node_addr addr 33 33 = Some (node, net)"
proof -
  have v: "validate_name node 32" "validate_name net 32" and a: "addr = plank_canonicalize_addr (node @ ''@'' @ net)"
    using assms by (auto simp: plank_format_node_addr_def Let_def split: if_splits)
  note n = validate_nameD [OF v(1)] and w = validate_nameD [OF v(2)]
  show addr: "addr = node @ ''@'' @ net" using n w a by (simp add: plank_canonicalize_addr_def)
  show "plank_parse_node_addr addr 33 33 = Some (node, net)"
    using n w unfolding addr
    by (simp add: plank_parse_node_addr_def strchr_append strchr_None)
qed

lemma parse_user_parts:
  assumes "user \<noteq> []" "length user < um" "list_all (\<lambda>x. x \<noteq> CHR ''@'') user"
    and "validate_name node 32" "validate_name net 32"
  shows "plank_parse_user_addr (user @ ''@'' @ node @ ''@'' @ net) um 33 33 = Some (user, node, net)"
  using assms(1-3) validate_nameD [OF assms(4)] validate_nameD [OF assms(5)]
  by (simp add: plank_parse_user_addr_def strchr_append strchr_None)

lemma format_parse_user:
  assumes "plank_format_user_addr user node net addr_max = Inr addr"
  shows "addr = user @ ''@'' @ node @ ''@'' @ net" "plank_parse_user_addr addr 33 33 33 = Some (user, node, net)"
proof -
  have v: "validate_name node 32" "validate_name net 32" "user \<noteq> []" "length user < 33"
    "list_all is_valid_user_char user"
    and a: "addr = plank_canonicalize_addr (user @ ''@'' @ node @ ''@'' @ net)"
    using assms by (auto simp: plank_format_user_addr_def Let_def split: if_splits)
  note u = user_charsD [OF v(5)]
  show addr: "addr = user @ ''@'' @ node @ ''@'' @ net"
    using validate_nameD(4) [OF v(1)] validate_nameD(4) [OF v(2)] u a by (simp add: plank_canonicalize_addr_def)
  show "plank_parse_user_addr addr 33 33 33 = Some (user, node, net)"
    unfolding addr by (rule parse_user_parts [OF v(3,4) u(1) v(1,2)])
qed

lemma format_parse_area:
  assumes "plank_format_area_addr slug node net addr_max = Inr addr"
  shows "addr = slug @ ''@'' @ node @ ''@'' @ net" "plank_parse_area_addr addr 49 33 33 = Some (slug, node, net)"
proof -
  have slug: "is_valid_slug_char = is_valid_user_char"
    by (simp add: fun_eq_iff is_valid_slug_char_def is_valid_user_char_def)
  have v: "validate_name node 32" "validate_name net 32" "slug \<noteq> []" "length slug < 49"
    "list_all is_valid_user_char slug"
    and a: "addr = plank_canonicalize_addr (slug @ ''@'' @ node @ ''@'' @ net)"
    using assms by (auto simp: plank_format_area_addr_def slug Let_def split: if_splits)
  note u = user_charsD [OF v(5)]
  show addr: "addr = slug @ ''@'' @ node @ ''@'' @ net"
    using validate_nameD(4) [OF v(1)] validate_nameD(4) [OF v(2)] u a by (simp add: plank_canonicalize_addr_def)
  show "plank_parse_area_addr addr 49 33 33 = Some (slug, node, net)"
    unfolding addr plank_parse_area_addr_def by (rule parse_user_parts [OF v(3,4) u(1) v(1,2)])
qed

section \<open>Transcripts\<close>

lemma be_bytes_8_inj: "be_bytes 8 (unat s) = be_bytes 8 (unat t) \<longleftrightarrow> s = (t :: u64)"
proof
  assume "be_bytes 8 (unat s) = be_bytes 8 (unat t)"
  then have "be_nat (be_bytes 8 (unat s)) = be_nat (be_bytes 8 (unat t))" by (rule arg_cong)
  moreover have "be_nat (be_bytes 8 (unat w)) = unat w" for w :: u64
    by (rule be_nat_be_bytes) simp
  ultimately show "s = t" by (metis unsigned_word_eqI)
qed simp

lemma transcript_inj:
  assumes "plank_crypto_build_auth_transcript a b l n m s t = plank_crypto_build_auth_transcript a' b' l' n' m' s' t'"
    and "length a = 16" "length b = 16" "length l = 16" "length n = 32" "length m = 32"
    and "length a' = 16" "length b' = 16" "length l' = 16" "length n' = 32" "length m' = 32"
  shows "a = a' \<and> b = b' \<and> l = l' \<and> n = n' \<and> m = m' \<and> s = s' \<and> t = t'"
proof -
  have "a @ b @ l @ n @ m @ be_bytes 8 (unat s) @ be_bytes 8 (unat t) =
      a' @ b' @ l' @ n' @ m' @ be_bytes 8 (unat s') @ be_bytes 8 (unat t')"
    using assms(1) by (simp add: plank_crypto_build_auth_transcript_def assms(2-))
  then have "a = a' \<and> b = b' \<and> l = l' \<and> n = n' \<and> m = m' \<and>
      be_bytes 8 (unat s) @ be_bytes 8 (unat t) = be_bytes 8 (unat s') @ be_bytes 8 (unat t')"
    using assms(2-) by (simp only: append_eq_append_conv simp_thms)
  then show ?thesis by (simp add: be_bytes_8_inj)
qed

section \<open>Copies\<close>

lemma clone_object:
  assumes "ob_body_cbor obj = Some b" "ob_body_cbor_len obj = length b" "b \<noteq> []"
    and "ob_envelope_cbor obj = Some e" "ob_envelope_cbor_len obj = length e" "e \<noteq> []"
  shows "plank_object_clone (\<lambda>_. True) obj = Some (Some obj)"
  using assms by (simp add: plank_object_clone_def plank_object_new_def clone_block_def)

section \<open>Addresses and their parts\<close>

text \<open>What formatting and parsing promise, for the three kinds of address.\<close>

locale address_codec =
  fixes fmt :: "'p \<Rightarrow> string + string" and parse :: "string \<Rightarrow> 'p option"
  assumes parse_fmt: "fmt p = Inr addr \<Longrightarrow> parse addr = Some p"
begin

lemma fmt_inj: "fmt p = Inr addr \<Longrightarrow> fmt q = Inr addr \<Longrightarrow> p = q"
  using parse_fmt [of p addr] parse_fmt [of q addr] by simp

lemma fmt_valid: "fmt p = Inr addr \<Longrightarrow> parse addr \<noteq> None"
  using parse_fmt by simp

end

interpretation node_addr: address_codec
  "\<lambda>(node, net). plank_format_node_addr node net addr_max"
  "\<lambda>addr. plank_parse_node_addr addr 33 33" for addr_max
  by unfold_locales (auto dest: format_parse_node(2))

interpretation user_addr: address_codec
  "\<lambda>(user, node, net). plank_format_user_addr user node net addr_max"
  "\<lambda>addr. plank_parse_user_addr addr 33 33 33" for addr_max
  by unfold_locales (auto dest: format_parse_user(2))

interpretation area_addr: address_codec
  "\<lambda>(slug, node, net). plank_format_area_addr slug node net addr_max"
  "\<lambda>addr. plank_parse_area_addr addr 49 33 33" for addr_max
  by unfold_locales (auto dest: format_parse_area(2))

lemma formatted_addresses_valid:
  "plank_format_node_addr node net m = Inr addr \<Longrightarrow> plank_validate_node_addr addr"
  "plank_format_user_addr user node net m = Inr addr \<Longrightarrow> plank_validate_user_addr addr"
  "plank_format_area_addr slug node net m = Inr addr \<Longrightarrow> plank_validate_area_addr addr"
  using node_addr.fmt_valid [of m "(node, net)" addr] user_addr.fmt_valid [of m "(user, node, net)" addr]
    area_addr.fmt_valid [of m "(slug, node, net)" addr]
  by (simp_all add: plank_validate_node_addr_def plank_validate_user_addr_def plank_validate_area_addr_def)

text \<open>
  C22: A node, user or area address that a formatting function produced is parsed back into exactly the parts it
  was made of, with buffers of the sizes the program uses, and the validation function of its kind accepts it.
\<close>

theorem addresses_parse_back:
  "(plank_format_node_addr node net m = Inr na \<longrightarrow>
      plank_parse_node_addr na (PLANK_MAX_NODE_NAME + 1) (PLANK_MAX_NETWORK_NAME + 1) = Some (node, net) \<and>
      plank_validate_node_addr na) \<and>
   (plank_format_user_addr user node net m = Inr ua \<longrightarrow>
      plank_parse_user_addr ua (PLANK_MAX_USER_NAME + 1) (PLANK_MAX_NODE_NAME + 1) (PLANK_MAX_NETWORK_NAME + 1)
        = Some (user, node, net) \<and>
      plank_validate_user_addr ua) \<and>
   (plank_format_area_addr slug node net m = Inr aa \<longrightarrow>
      plank_parse_area_addr aa (PLANK_MAX_AREA_SLUG + 1) (PLANK_MAX_NODE_NAME + 1) (PLANK_MAX_NETWORK_NAME + 1)
        = Some (slug, node, net) \<and>
      plank_validate_area_addr aa)"
  using node_addr.parse_fmt [of m "(node, net)"] user_addr.parse_fmt [of m "(user, node, net)"]
    area_addr.parse_fmt [of m "(slug, node, net)"]
  by (simp add: formatted_addresses_valid)

theorem addresses_parse_back_witness:
  "plank_parse_node_addr ''hub@fsx'' 33 33 = Some (''hub'', ''fsx'') \<and>
   plank_parse_user_addr ''al.b@hub@fsx'' 33 33 33 = Some (''al.b'', ''hub'', ''fsx'') \<and>
   plank_parse_area_addr ''gen@hub@fsx'' 49 33 33 = Some (''gen'', ''hub'', ''fsx'')"
proof -
  have "plank_format_node_addr ''hub'' ''fsx'' 128 = Inr ''hub@fsx''"
    "plank_format_user_addr ''al.b'' ''hub'' ''fsx'' 128 = Inr ''al.b@hub@fsx''"
    "plank_format_area_addr ''gen'' ''hub'' ''fsx'' 128 = Inr ''gen@hub@fsx''" by code_simp+
  then show ?thesis
    using addresses_parse_back [of "''hub''" "''fsx''" 128 "''hub@fsx''" "''al.b''" "''al.b@hub@fsx''" "''gen''" "''gen@hub@fsx''"]
    by simp
qed

end
