(* ===== verification/Plank_Object.thy ===== *)
theory Plank_Object
  imports Plank_Core
begin

text \<open>
  PLANK objects, \<^verbatim>\<open>src/plank/plank_object.c\<close>: encoding of message bodies and envelopes with the canonical
  map builder, object identifiers, signatures, decoding and validation.

  \<open>mem\<close> says which allocations succeed, \<open>qsort\<close> is the sorting function of the C library, \<open>ssl\<close> stands
  for OpenSSL and \<open>depth\<close> is the number of stack frames for \<open>cbor_skip\<close>.
\<close>

section \<open>Encoding\<close>

text \<open>
  One field: its value is written into the local buffer of \<open>cap\<close> bytes, and what the buffer then holds is
  added under the key. Neither an error of the temporary encoder nor the result of
  \<open>cbor_map_builder_add\<close> is looked at.
\<close>

definition add_field ::
    "(nat \<Rightarrow> bool) \<Rightarrow> nat \<Rightarrow> string \<Rightarrow> (cbor_encoder_t \<Rightarrow> cbor_encoder_t option) \<Rightarrow>
     cbor_map_builder_t \<Rightarrow> cbor_map_builder_t option" where
  "add_field mem cap key put mb =
     (case put (cbor_encoder_init False cap) of
        None \<Rightarrow> None
      | Some tmp \<Rightarrow> Some (snd (cbor_map_builder_add mem mb key (enc_data tmp))))"

definition add_raw_field ::
    "(nat \<Rightarrow> bool) \<Rightarrow> string \<Rightarrow> bytes option \<Rightarrow> nat \<Rightarrow> cbor_map_builder_t \<Rightarrow> cbor_map_builder_t option" where
  "add_raw_field mem key blk len mb =
     (case blk of
        None \<Rightarrow> if len = 0 then Some (snd (cbor_map_builder_add mem mb key [])) else None
      | Some b \<Rightarrow> if length b < len then None else Some (snd (cbor_map_builder_add mem mb key (take len b))))"

text \<open>The fields one after the other, then the sorted map into the encoder.\<close>

definition encode_fields ::
    "(nat \<Rightarrow> bool) \<Rightarrow> ((cbor_map_entry_t \<Rightarrow> cbor_map_entry_t \<Rightarrow> int) \<Rightarrow> cbor_map_entry_t list \<Rightarrow> cbor_map_entry_t list)
     \<Rightarrow> (cbor_map_builder_t \<Rightarrow> cbor_map_builder_t option) list \<Rightarrow> cbor_encoder_t \<Rightarrow> (bool \<times> cbor_encoder_t) option" where
  "encode_fields mem qsort fds enc =
     do { mb \<leftarrow> fold_opt (\<lambda>mb f. f mb) cbor_map_builder_init fds;
          (mb, enc) \<leftarrow> cbor_map_builder_encode mem qsort mb enc;
          Some (cbor_encoder_ok enc, enc) }"

definition encode_texts :: "(nat \<Rightarrow> bool) \<Rightarrow> string option list \<Rightarrow> cbor_encoder_t \<Rightarrow> cbor_encoder_t option" where
  "encode_texts mem xs tmp =
     do { tmp \<leftarrow> cbor_encode_array mem tmp (length xs); fold_opt (cbor_encode_text mem) tmp xs }"

definition encode_ids :: "(nat \<Rightarrow> bool) \<Rightarrow> nat \<Rightarrow> bytes option list \<Rightarrow> cbor_encoder_t \<Rightarrow> cbor_encoder_t option" where
  "encode_ids mem n xs tmp =
     do { tmp \<leftarrow> cbor_encode_array mem tmp (length xs); fold_opt (\<lambda>tmp x. cbor_encode_bytes mem tmp x n) tmp xs }"

definition message_body_fields ::
    "(nat \<Rightarrow> bool) \<Rightarrow> plank_message_body_t \<Rightarrow> (cbor_map_builder_t \<Rightarrow> cbor_map_builder_t option) list" where
  "message_body_fields mem body =
     ([add_field mem 8192 ''message_type'' (\<lambda>tmp. cbor_encode_uint mem tmp (ucast (msg_type body))),
       add_field mem 8192 ''author_user'' (\<lambda>tmp. cbor_encode_text mem tmp (Some (msg_author_user body)))]
      @ (if msg_author_display body \<noteq> []
         then [add_field mem 8192 ''author_display'' (\<lambda>tmp. cbor_encode_text mem tmp (Some (msg_author_display body)))]
         else [])
      @ [add_field mem 8192 ''from_addr'' (\<lambda>tmp. cbor_encode_text mem tmp (Some (msg_from_addr body))),
         add_field mem 8192 ''to_addrs'' (encode_texts mem (msg_to_addrs body))]
      @ (if msg_type body = PLANK_MSG_AREA_POST \<and> msg_area_addr body \<noteq> []
         then [add_field mem 8192 ''area_addr'' (\<lambda>tmp. cbor_encode_text mem tmp (Some (msg_area_addr body)))]
         else [])
      @ [add_field mem 8192 ''subject'' (\<lambda>tmp. cbor_encode_text mem tmp (Some (msg_subject body))),
         add_field mem 8192 ''body_format'' (\<lambda>tmp. cbor_encode_uint mem tmp (ucast (msg_body_format body))),
         add_field mem 8192 ''body_text''
           (\<lambda>tmp. cbor_encode_text_len mem tmp (msg_body_text body) (msg_body_text_len body))]
      @ (if \<not> plank_object_id_is_zero (msg_thread_root_id body)
         then [add_field mem 8192 ''thread_root_id''
                 (\<lambda>tmp. cbor_encode_bytes mem tmp (Some (msg_thread_root_id body)) PLANK_OBJECT_ID_SIZE)]
         else [])
      @ (if \<not> plank_object_id_is_zero (msg_parent_id body)
         then [add_field mem 8192 ''parent_id''
                 (\<lambda>tmp. cbor_encode_bytes mem tmp (Some (msg_parent_id body)) PLANK_OBJECT_ID_SIZE)]
         else [])
      @ (if msg_reply_to body \<noteq> []
         then [add_field mem 8192 ''reply_to'' (\<lambda>tmp. cbor_encode_text mem tmp (Some (msg_reply_to body)))]
         else [])
      @ [add_field mem 8192 ''attachment_refs'' (encode_ids mem PLANK_ATTACHMENT_ID_SIZE (msg_attachment_refs body)),
         add_field mem 8192 ''retention_class'' (\<lambda>tmp. cbor_encode_uint mem tmp (ucast (msg_retention_class body))),
         add_field mem 8192 ''visibility'' (\<lambda>tmp. cbor_encode_uint mem tmp (ucast (msg_visibility body))),
         add_field mem 8192 ''flags'' (\<lambda>tmp. cbor_encode_uint mem tmp (ucast (msg_flags body))),
         add_field mem 8192 ''path'' (encode_ids mem PLANK_NODE_ID_SIZE (msg_path body)),
         add_field mem 8192 ''hop_count'' (\<lambda>tmp. cbor_encode_uint mem tmp (ucast (msg_hop_count body)))])"

definition encode_message_body ::
    "(nat \<Rightarrow> bool) \<Rightarrow> ((cbor_map_entry_t \<Rightarrow> cbor_map_entry_t \<Rightarrow> int) \<Rightarrow> cbor_map_entry_t list \<Rightarrow> cbor_map_entry_t list)
     \<Rightarrow> cbor_encoder_t \<Rightarrow> plank_message_body_t \<Rightarrow> (bool \<times> cbor_encoder_t) option" where
  "encode_message_body mem qsort enc body = encode_fields mem qsort (message_body_fields mem body) enc"

definition envelope_fields ::
    "(nat \<Rightarrow> bool) \<Rightarrow> plank_object_t \<Rightarrow> (cbor_map_builder_t \<Rightarrow> cbor_map_builder_t option) list" where
  "envelope_fields mem obj =
     [add_field mem 256 ''version'' (\<lambda>tmp. cbor_encode_uint mem tmp (ucast (ob_version obj))),
      add_field mem 256 ''class'' (\<lambda>tmp. cbor_encode_uint mem tmp (ucast (ob_class obj))),
      add_field mem 256 ''origin_node_id''
        (\<lambda>tmp. cbor_encode_bytes mem tmp (Some (ob_origin_node_id obj)) PLANK_NODE_ID_SIZE),
      add_field mem 256 ''origin_node_addr'' (\<lambda>tmp. cbor_encode_text mem tmp (Some (ob_origin_node_addr obj))),
      add_field mem 256 ''created_at'' (\<lambda>tmp. cbor_encode_uint mem tmp (ob_created_at obj)),
      add_field mem 256 ''object_id''
        (\<lambda>tmp. cbor_encode_bytes mem tmp (Some (ob_object_id obj)) PLANK_OBJECT_ID_SIZE),
      add_raw_field mem ''body'' (ob_body_cbor obj) (ob_body_cbor_len obj),
      add_field mem 256 ''sig_alg'' (\<lambda>tmp. cbor_encode_uint mem tmp (ucast (ob_sig_alg obj)))]"

definition encode_envelope_without_sig ::
    "(nat \<Rightarrow> bool) \<Rightarrow> ((cbor_map_entry_t \<Rightarrow> cbor_map_entry_t \<Rightarrow> int) \<Rightarrow> cbor_map_entry_t list \<Rightarrow> cbor_map_entry_t list)
     \<Rightarrow> cbor_encoder_t \<Rightarrow> plank_object_t \<Rightarrow> (bool \<times> cbor_encoder_t) option" where
  "encode_envelope_without_sig mem qsort enc obj = encode_fields mem qsort (envelope_fields mem obj) enc"

definition encode_envelope_with_sig ::
    "(nat \<Rightarrow> bool) \<Rightarrow> ((cbor_map_entry_t \<Rightarrow> cbor_map_entry_t \<Rightarrow> int) \<Rightarrow> cbor_map_entry_t list \<Rightarrow> cbor_map_entry_t list)
     \<Rightarrow> cbor_encoder_t \<Rightarrow> plank_object_t \<Rightarrow> (bool \<times> cbor_encoder_t) option" where
  "encode_envelope_with_sig mem qsort enc obj = encode_fields mem qsort
     (envelope_fields mem obj
      @ [add_field mem 256 ''signature''
           (\<lambda>tmp. cbor_encode_bytes mem tmp (Some (ob_signature obj)) PLANK_SIGNATURE_SIZE)])
     enc"

text \<open>Functions that change an object return it with their result.\<close>

definition plank_object_encode ::
    "(nat \<Rightarrow> bool) \<Rightarrow> ((cbor_map_entry_t \<Rightarrow> cbor_map_entry_t \<Rightarrow> int) \<Rightarrow> cbor_map_entry_t list \<Rightarrow> cbor_map_entry_t list)
     \<Rightarrow> plank_object_t \<Rightarrow> ((string + unit) \<times> plank_object_t) option" where
  "plank_object_encode mem qsort obj =
     (if ob_body_cbor obj = None then Some (Inl ''Invalid object for encoding'', obj)
      else
        (let obj = obj\<lparr>ob_envelope_cbor := None, ob_envelope_cbor_len := 0\<rparr> in
         do { (ok, enc) \<leftarrow> encode_envelope_with_sig mem qsort (cbor_encoder_init_dynamic mem 4096) obj;
              (if \<not> ok then Some (Inl ''Failed to encode object envelope'', obj)
               else Some (Inr (), obj\<lparr>ob_envelope_cbor := cbor_encoder_data enc,
                                      ob_envelope_cbor_len := cbor_encoder_len enc\<rparr>)) }))"

section \<open>Identifiers and signatures\<close>

definition plank_object_compute_id ::
    "(nat \<Rightarrow> bool) \<Rightarrow> ((cbor_map_entry_t \<Rightarrow> cbor_map_entry_t \<Rightarrow> int) \<Rightarrow> cbor_map_entry_t list \<Rightarrow> cbor_map_entry_t list)
     \<Rightarrow> openssl \<Rightarrow> plank_object_t \<Rightarrow> ((string + unit) \<times> plank_object_t) option" where
  "plank_object_compute_id mem qsort ssl obj =
     (if ob_body_cbor obj = None then Some (Inl ''Invalid object for ID computation'', obj)
      else
        (let saved_id = ob_object_id obj;
             obj = obj\<lparr>ob_object_id := replicate PLANK_OBJECT_ID_SIZE 0\<rparr> in
         do { (ok, enc) \<leftarrow> encode_envelope_without_sig mem qsort (cbor_encoder_init_dynamic mem 4096) obj;
              (if \<not> ok then Some (Inl ''Failed to encode for ID computation'', obj\<lparr>ob_object_id := saved_id\<rparr>)
               else (case plank_crypto_sha256 ssl (enc_data enc) of
                       None \<Rightarrow> Some (Inl ''Failed to hash for object ID'', obj\<lparr>ob_object_id := saved_id\<rparr>)
                     | Some hash \<Rightarrow> Some (Inr (), obj\<lparr>ob_object_id := hash\<rparr>))) }))"

definition plank_object_sign ::
    "(nat \<Rightarrow> bool) \<Rightarrow> ((cbor_map_entry_t \<Rightarrow> cbor_map_entry_t \<Rightarrow> int) \<Rightarrow> cbor_map_entry_t list \<Rightarrow> cbor_map_entry_t list)
     \<Rightarrow> openssl \<Rightarrow> plank_object_t \<Rightarrow> bytes \<Rightarrow> ((string + unit) \<times> plank_object_t) option" where
  "plank_object_sign mem qsort ssl obj signing_key_priv =
     (if ob_body_cbor obj = None then Some (Inl ''Invalid arguments for signing'', obj)
      else
        do { (r, obj) \<leftarrow> plank_object_compute_id mem qsort ssl obj;
             (case r of
                Inl e \<Rightarrow> Some (Inl e, obj)
              | Inr _ \<Rightarrow>
                  do { (ok, enc) \<leftarrow> encode_envelope_without_sig mem qsort (cbor_encoder_init_dynamic mem 4096) obj;
                       (if \<not> ok then Some (Inl ''Failed to encode for signing'', obj)
                        else (case plank_crypto_sign_ed25519 ssl (enc_data enc) signing_key_priv of
                                None \<Rightarrow> Some (Inl ''Failed to sign object'', obj)
                              | Some sig \<Rightarrow> plank_object_encode mem qsort (obj\<lparr>ob_signature := sig\<rparr>))) }) })"

definition plank_object_verify ::
    "(nat \<Rightarrow> bool) \<Rightarrow> ((cbor_map_entry_t \<Rightarrow> cbor_map_entry_t \<Rightarrow> int) \<Rightarrow> cbor_map_entry_t list \<Rightarrow> cbor_map_entry_t list)
     \<Rightarrow> openssl \<Rightarrow> plank_object_t \<Rightarrow> bytes \<Rightarrow> (string + unit) option" where
  "plank_object_verify mem qsort ssl obj signing_key_pub =
     (if ob_body_cbor obj = None then Some (Inl ''Invalid arguments for verification'')
      else
        (case plank_object_clone mem obj of
           None \<Rightarrow> None
         | Some None \<Rightarrow> Some (Inl ''Failed to clone object for verification'')
         | Some (Some tmp) \<Rightarrow>
             do { (ok, enc) \<leftarrow> encode_envelope_without_sig mem qsort (cbor_encoder_init_dynamic mem 4096) tmp;
                  (if \<not> ok then Some (Inl ''Failed to encode for verification'')
                   else if \<not> plank_crypto_verify_ed25519 ssl (enc_data enc) (ob_signature obj) signing_key_pub
                   then Some (Inl ''Signature verification failed'')
                   else Some (Inr ())) }))"

definition plank_object_verify_id ::
    "(nat \<Rightarrow> bool) \<Rightarrow> ((cbor_map_entry_t \<Rightarrow> cbor_map_entry_t \<Rightarrow> int) \<Rightarrow> cbor_map_entry_t list \<Rightarrow> cbor_map_entry_t list)
     \<Rightarrow> openssl \<Rightarrow> plank_object_t \<Rightarrow> bool option" where
  "plank_object_verify_id mem qsort ssl obj =
     (if ob_body_cbor obj = None then Some False
      else
        (case plank_object_clone mem obj of
           None \<Rightarrow> None
         | Some None \<Rightarrow> Some False
         | Some (Some tmp) \<Rightarrow>
             do { (r, tmp) \<leftarrow> plank_object_compute_id mem qsort ssl tmp;
                  (case r of
                     Inl _ \<Rightarrow> Some False
                   | Inr _ \<Rightarrow> Some (plank_object_id_equal (ob_object_id obj) (ob_object_id tmp))) }))"

text \<open>\<open>now\<close> is the result of \<open>time (NULL)\<close>.\<close>

definition plank_object_create_message ::
    "(nat \<Rightarrow> bool) \<Rightarrow> ((cbor_map_entry_t \<Rightarrow> cbor_map_entry_t \<Rightarrow> int) \<Rightarrow> cbor_map_entry_t list \<Rightarrow> cbor_map_entry_t list)
     \<Rightarrow> openssl \<Rightarrow> u64 \<Rightarrow> bytes \<Rightarrow> string \<Rightarrow> plank_message_body_t \<Rightarrow> bytes \<Rightarrow> (string + plank_object_t) option" where
  "plank_object_create_message mem qsort ssl now origin_node_id origin_node_addr body signing_key_priv =
     (case plank_object_new mem of
        None \<Rightarrow> Some (Inl ''Failed to allocate object'')
      | Some obj \<Rightarrow>
          (let obj = obj\<lparr>ob_class := PLANK_CLASS_MESSAGE,
                         ob_origin_node_id := take PLANK_NODE_ID_SIZE origin_node_id,
                         ob_origin_node_addr := take (PLANK_MAX_ADDRESS - 1) origin_node_addr,
                         ob_created_at := now\<rparr> in
           do { (ok, enc) \<leftarrow> encode_message_body mem qsort (cbor_encoder_init_dynamic mem 8192) body;
                (if \<not> ok then Some (Inl ''Failed to encode message body'')
                 else
                   do { (r, obj) \<leftarrow> plank_object_sign mem qsort ssl
                          (obj\<lparr>ob_body_cbor := cbor_encoder_data enc, ob_body_cbor_len := cbor_encoder_len enc\<rparr>)
                          signing_key_priv;
                        (case r of Inl e \<Rightarrow> Some (Inl e) | Inr _ \<Rightarrow> Some (Inr obj)) }) }))"

section \<open>Decoding\<close>

text \<open>
  The chain of comparisons with the known keys: the key is read only when its length is that of the
  known one. The result is the branch that is taken, an inner \<^term>\<open>None\<close> for the last \<open>else\<close>.
\<close>

fun find_field :: "bytes \<Rightarrow> u64 \<times> u64 \<Rightarrow> (string \<times> 'h) list \<Rightarrow> 'h option option" where
  "find_field buf p [] = Some None"
| "find_field buf p ((k, h) # fs) =
     (if unat (snd p) \<noteq> length k then find_field buf p fs
      else (case slice buf p of
              None \<Rightarrow> None
            | Some b \<Rightarrow> if b = text_bytes k then Some (Some h) else find_field buf p fs))"

text \<open>The loop over the pairs of the map; \<open>fs\<close> are the branches by key.\<close>

fun decode_fields ::
    "nat \<Rightarrow> (string \<times> ('o \<Rightarrow> cbor_decoder_t \<Rightarrow> ('o \<times> cbor_decoder_t) option)) list \<Rightarrow> nat \<Rightarrow> 'o \<Rightarrow> cbor_decoder_t
     \<Rightarrow> ('o \<times> cbor_decoder_t) option" where
  "decode_fields depth fs 0 obj dec = Some (obj, dec)"
| "decode_fields depth fs (Suc n) obj dec =
     (if dec_error dec then Some (obj, dec)
      else
        (case cbor_decode_text dec of
           (None, dec) \<Rightarrow> Some (obj, dec)
         | (Some p, dec) \<Rightarrow>
             (case find_field (dec_buf dec) p fs of
                None \<Rightarrow> None
              | Some None \<Rightarrow>
                  (case cbor_skip depth dec of None \<Rightarrow> None | Some dec \<Rightarrow> decode_fields depth fs n obj dec)
              | Some (Some h) \<Rightarrow>
                  (case h obj dec of None \<Rightarrow> None | Some (obj, dec) \<Rightarrow> decode_fields depth fs n obj dec))))"

text \<open>An integer field, a byte string that is copied when it has the right size, and a text copied into an array.\<close>

definition read_uint :: "(u64 \<Rightarrow> 'o \<Rightarrow> 'o) \<Rightarrow> 'o \<Rightarrow> cbor_decoder_t \<Rightarrow> ('o \<times> cbor_decoder_t) option" where
  "read_uint put obj dec = (let (v, dec) = cbor_decode_uint dec in Some (put v obj, dec))"

definition read_id :: "nat \<Rightarrow> (bytes \<Rightarrow> 'o \<Rightarrow> 'o) \<Rightarrow> 'o \<Rightarrow> cbor_decoder_t \<Rightarrow> ('o \<times> cbor_decoder_t) option" where
  "read_id n put obj dec =
     (case cbor_decode_bytes dec of
        (None, dec) \<Rightarrow> Some (obj, dec)
      | (Some p, dec) \<Rightarrow>
          if unat (snd p) = n
          then (case slice (dec_buf dec) p of None \<Rightarrow> None | Some b \<Rightarrow> Some (put b obj, dec))
          else Some (obj, dec))"

definition cstr_of :: "bytes \<Rightarrow> string" where
  "cstr_of d = map (\<lambda>b. char_of (unat b)) (takeWhile (\<lambda>b. b \<noteq> 0) d)"

definition read_text :: "nat \<Rightarrow> (string \<Rightarrow> 'o \<Rightarrow> 'o) \<Rightarrow> 'o \<Rightarrow> cbor_decoder_t \<Rightarrow> ('o \<times> cbor_decoder_t) option" where
  "read_text cap put obj dec =
     (case cbor_decode_text_copy dec cap of
        None \<Rightarrow> None
      | Some (None, dec) \<Rightarrow> Some (obj, dec)
      | Some (Some d, dec) \<Rightarrow> Some (put (cstr_of d) obj, dec))"

text \<open>The body is skipped, and the bytes that were passed over are copied.\<close>

definition read_body ::
    "nat \<Rightarrow> (nat \<Rightarrow> bool) \<Rightarrow> plank_object_t \<Rightarrow> cbor_decoder_t \<Rightarrow> (plank_object_t \<times> cbor_decoder_t) option" where
  "read_body depth mem obj dec =
     (let body_start = dec_pos dec in
      case cbor_skip depth dec of
        None \<Rightarrow> None
      | Some dec \<Rightarrow>
          (let len = dec_pos dec - body_start;
               obj = obj\<lparr>ob_body_cbor_len := unat len\<rparr> in
           if \<not> mem (unat len) then Some (obj\<lparr>ob_body_cbor := None\<rparr>, dec)
           else (case slice (dec_buf dec) (body_start, len) of
                   None \<Rightarrow> None
                 | Some b \<Rightarrow> Some (obj\<lparr>ob_body_cbor := Some b\<rparr>, dec))))"

definition object_fields ::
    "nat \<Rightarrow> (nat \<Rightarrow> bool)
     \<Rightarrow> (string \<times> (plank_object_t \<Rightarrow> cbor_decoder_t \<Rightarrow> (plank_object_t \<times> cbor_decoder_t) option)) list" where
  "object_fields depth mem =
     [(''version'', read_uint (\<lambda>v. ob_version_update (\<lambda>_. ucast v))),
      (''class'', read_uint (\<lambda>v. ob_class_update (\<lambda>_. ucast v))),
      (''origin_node_id'', read_id PLANK_NODE_ID_SIZE (\<lambda>b. ob_origin_node_id_update (\<lambda>_. b))),
      (''origin_node_addr'', read_text PLANK_MAX_ADDRESS (\<lambda>s. ob_origin_node_addr_update (\<lambda>_. s))),
      (''created_at'', read_uint (\<lambda>v. ob_created_at_update (\<lambda>_. v))),
      (''object_id'', read_id PLANK_OBJECT_ID_SIZE (\<lambda>b. ob_object_id_update (\<lambda>_. b))),
      (''body'', read_body depth mem),
      (''sig_alg'', read_uint (\<lambda>v. ob_sig_alg_update (\<lambda>_. ucast v))),
      (''signature'', read_id PLANK_SIGNATURE_SIZE (\<lambda>b. ob_signature_update (\<lambda>_. b)))]"

definition plank_object_decode :: "nat \<Rightarrow> (nat \<Rightarrow> bool) \<Rightarrow> bytes \<Rightarrow> (string + plank_object_t) option" where
  "plank_object_decode depth mem cbor =
     (if cbor = [] then Some (Inl ''Invalid CBOR data'')
      else
        (let (map_count, dec) = cbor_decode_map (cbor_decoder_init cbor) in
         if \<not> cbor_decoder_ok dec then Some (Inl ''Failed to decode object map'')
         else
           (case plank_object_new mem of
              None \<Rightarrow> Some (Inl ''Failed to allocate object'')
            | Some obj \<Rightarrow>
                if \<not> mem (length cbor) then Some (Inl ''Failed to allocate envelope buffer'')
                else
                  (case decode_fields depth (object_fields depth mem) (unat map_count)
                          (obj\<lparr>ob_envelope_cbor := Some cbor, ob_envelope_cbor_len := length cbor\<rparr>) dec of
                     None \<Rightarrow> None
                   | Some (obj, dec) \<Rightarrow>
                       if \<not> cbor_decoder_ok dec then Some (Inl ''Failed to decode object'')
                       else Some (Inr obj)))))"

text \<open>
  \<open>strndup\<close> at a position of the buffer: the bytes in front of the first NUL, at most the length. It leaves
  the buffer when neither comes in time.
\<close>

definition c_strndup :: "(nat \<Rightarrow> bool) \<Rightarrow> bytes \<Rightarrow> u64 \<times> u64 \<Rightarrow> bytes option option" where
  "c_strndup mem buf p =
     (let r = take (unat (snd p)) (drop (unat (fst p)) buf); t = takeWhile (\<lambda>b. b \<noteq> 0) r in
      if length t = length r \<and> length buf < unat (fst p) + unat (snd p) then None
      else if mem (length t + 1) then Some (Some (t @ [0])) else Some None)"

text \<open>
  The loops over the elements of an array: \<open>calloc\<close> has filled it with NULL pointers, and the count is
  set whether or not all elements could be read. If the array cannot be allocated, its elements are
  left unread.
\<close>

fun decode_elems ::
    "(cbor_decoder_t \<Rightarrow> ('e option \<times> cbor_decoder_t) option) \<Rightarrow> nat \<Rightarrow> cbor_decoder_t
     \<Rightarrow> ('e option list \<times> cbor_decoder_t) option" where
  "decode_elems elem 0 dec = Some ([], dec)"
| "decode_elems elem (Suc n) dec =
     (if dec_error dec then Some (replicate (Suc n) None, dec)
      else
        (case elem dec of
           None \<Rightarrow> None
         | Some (x, dec) \<Rightarrow>
             (case decode_elems elem n dec of
                None \<Rightarrow> None
              | Some (xs, dec) \<Rightarrow> Some (x # xs, dec))))"

definition read_array ::
    "(nat \<Rightarrow> bool) \<Rightarrow> (cbor_decoder_t \<Rightarrow> ('e option \<times> cbor_decoder_t) option) \<Rightarrow> ('e option list \<Rightarrow> 'o \<Rightarrow> 'o)
     \<Rightarrow> 'o \<Rightarrow> cbor_decoder_t \<Rightarrow> ('o \<times> cbor_decoder_t) option" where
  "read_array mem elem put obj dec =
     (let (arr_count, dec) = cbor_decode_array dec in
      if arr_count = 0 \<or> \<not> mem (8 * unat arr_count) then Some (obj, dec)
      else (case decode_elems elem (unat arr_count) dec of
              None \<Rightarrow> None
            | Some (xs, dec) \<Rightarrow> Some (put xs obj, dec)))"

definition read_addr :: "(nat \<Rightarrow> bool) \<Rightarrow> cbor_decoder_t \<Rightarrow> (string option \<times> cbor_decoder_t) option" where
  "read_addr mem dec =
     (case cbor_decode_text dec of
        (None, dec) \<Rightarrow> Some (None, dec)
      | (Some p, dec) \<Rightarrow>
          (case c_strndup mem (dec_buf dec) p of
             None \<Rightarrow> None
           | Some s \<Rightarrow> Some (map_option cstr_of s, dec)))"

definition read_path_node :: "(nat \<Rightarrow> bool) \<Rightarrow> cbor_decoder_t \<Rightarrow> (bytes option \<times> cbor_decoder_t) option" where
  "read_path_node mem dec =
     (case cbor_decode_bytes dec of
        (None, dec) \<Rightarrow> Some (None, dec)
      | (Some p, dec) \<Rightarrow>
          if unat (snd p) = PLANK_NODE_ID_SIZE \<and> mem PLANK_NODE_ID_SIZE
          then (case slice (dec_buf dec) p of None \<Rightarrow> None | Some b \<Rightarrow> Some (Some b, dec))
          else Some (None, dec))"

definition read_body_text ::
    "(nat \<Rightarrow> bool) \<Rightarrow> plank_message_body_t \<Rightarrow> cbor_decoder_t \<Rightarrow> (plank_message_body_t \<times> cbor_decoder_t) option" where
  "read_body_text mem body dec =
     (case cbor_decode_text dec of
        (None, dec) \<Rightarrow> Some (body, dec)
      | (Some p, dec) \<Rightarrow>
          (case c_strndup mem (dec_buf dec) p of
             None \<Rightarrow> None
           | Some s \<Rightarrow> Some (body\<lparr>msg_body_text := s, msg_body_text_len := unat (snd p)\<rparr>, dec)))"

definition message_fields ::
    "(nat \<Rightarrow> bool)
     \<Rightarrow> (string \<times> (plank_message_body_t \<Rightarrow> cbor_decoder_t \<Rightarrow> (plank_message_body_t \<times> cbor_decoder_t) option)) list" where
  "message_fields mem =
     [(''message_type'', read_uint (\<lambda>v. msg_type_update (\<lambda>_. ucast v))),
      (''author_user'', read_text PLANK_MAX_USER_NAME (\<lambda>s. msg_author_user_update (\<lambda>_. s))),
      (''author_display'', read_text PLANK_MAX_USER_NAME (\<lambda>s. msg_author_display_update (\<lambda>_. s))),
      (''from_addr'', read_text PLANK_MAX_ADDRESS (\<lambda>s. msg_from_addr_update (\<lambda>_. s))),
      (''to_addrs'', read_array mem (read_addr mem) (\<lambda>xs. msg_to_addrs_update (\<lambda>_. xs))),
      (''area_addr'', read_text PLANK_MAX_ADDRESS (\<lambda>s. msg_area_addr_update (\<lambda>_. s))),
      (''subject'', read_text PLANK_MAX_SUBJECT (\<lambda>s. msg_subject_update (\<lambda>_. s))),
      (''body_format'', read_uint (\<lambda>v. msg_body_format_update (\<lambda>_. ucast v))),
      (''body_text'', read_body_text mem),
      (''thread_root_id'', read_id PLANK_OBJECT_ID_SIZE (\<lambda>b. msg_thread_root_id_update (\<lambda>_. b))),
      (''parent_id'', read_id PLANK_OBJECT_ID_SIZE (\<lambda>b. msg_parent_id_update (\<lambda>_. b))),
      (''retention_class'', read_uint (\<lambda>v. msg_retention_class_update (\<lambda>_. ucast v))),
      (''visibility'', read_uint (\<lambda>v. msg_visibility_update (\<lambda>_. ucast v))),
      (''flags'', read_uint (\<lambda>v. msg_flags_update (\<lambda>_. ucast v))),
      (''hop_count'', read_uint (\<lambda>v. msg_hop_count_update (\<lambda>_. ucast v))),
      (''path'', read_array mem (read_path_node mem) (\<lambda>xs. msg_path_update (\<lambda>_. xs)))]"

definition plank_object_decode_message_body ::
    "nat \<Rightarrow> (nat \<Rightarrow> bool) \<Rightarrow> plank_object_t \<Rightarrow> (string + plank_message_body_t) option" where
  "plank_object_decode_message_body depth mem obj =
     (case ob_body_cbor obj of
        None \<Rightarrow> Some (Inl ''Invalid object for message body decoding'')
      | Some b \<Rightarrow>
          if ob_class obj \<noteq> PLANK_CLASS_MESSAGE then Some (Inl ''Invalid object for message body decoding'')
          else if length b < ob_body_cbor_len obj then None
          else
            (let (map_count, dec) = cbor_decode_map (cbor_decoder_init (take (ob_body_cbor_len obj) b)) in
             if \<not> cbor_decoder_ok dec then Some (Inl ''Failed to decode message body map'')
             else
               (case plank_message_body_new mem of
                  None \<Rightarrow> Some (Inl ''Failed to allocate message body'')
                | Some body \<Rightarrow>
                    (case decode_fields depth (message_fields mem) (unat map_count) body dec of
                       None \<Rightarrow> None
                     | Some (body, dec) \<Rightarrow>
                         if \<not> cbor_decoder_ok dec then Some (Inl ''Failed to decode message body'')
                         else Some (Inr body)))))"

section \<open>Validation\<close>

text \<open>The error text, \<^term>\<open>None\<close> for a valid object.\<close>

definition plank_object_validate :: "plank_object_t \<Rightarrow> string option" where
  "plank_object_validate obj =
     (if ob_version obj \<noteq> 1 then Some (''Unsupported version: '' @ show_int (uint (ob_version obj)))
      else if ob_class obj < PLANK_CLASS_AREA_DEFINITION \<or> PLANK_CLASS_NODE_INFO < ob_class obj
      then Some (''Invalid object class: '' @ show_int (sint (ob_class obj)))
      else if ob_origin_node_addr obj = [] then Some ''Missing origin node address''
      else if ob_created_at obj = 0 then Some ''Missing creation timestamp''
      else if ob_body_cbor obj = None \<or> ob_body_cbor_len obj = 0 then Some ''Missing body''
      else if ob_sig_alg obj \<noteq> PLANK_SIG_ED25519 then Some ''Unsupported signature algorithm''
      else None)"

section \<open>Maps with known keys\<close>

text \<open>
  An item is a key, the data item stored under it and what reading it does to the object under
  construction.
\<close>

type_synonym 'o field_item = "string \<times> cbor \<times> ('o \<Rightarrow> 'o)"

abbreviation item_bytes :: "'o field_item \<Rightarrow> bytes" where
  "item_bytes t \<equiv> (case t of (k, v, u) \<Rightarrow> cbor_enc (CText (text_bytes k)) @ cbor_enc v)"

abbreviation item_pair :: "'o field_item \<Rightarrow> cbor \<times> cbor" where
  "item_pair t \<equiv> (case t of (k, v, u) \<Rightarrow> (CText (text_bytes k), v))"

abbreviation apply_items :: "'o field_item list \<Rightarrow> 'o \<Rightarrow> 'o" where
  "apply_items items \<equiv> fold (\<lambda>(k, v, u). u) items"

text \<open>A statement that adds the entry of an item, and a branch that reads it.\<close>

definition puts_item :: "(cbor_map_builder_t \<Rightarrow> cbor_map_builder_t option) \<Rightarrow> 'o field_item \<Rightarrow> bool" where
  "puts_item f t \<longleftrightarrow> (case t of (k, v, u) \<Rightarrow>
     \<forall>mb. \<exists>mb'. f mb = Some mb' \<and> mb_entries mb' = mb_entries mb @ [\<lparr>me_key = k, me_value = cbor_enc v\<rparr>])"

definition reads_item ::
    "nat \<Rightarrow> (string \<times> ('o \<Rightarrow> cbor_decoder_t \<Rightarrow> ('o \<times> cbor_decoder_t) option)) list \<Rightarrow> 'o field_item \<Rightarrow> bool" where
  "reads_item depth fs t \<longleftrightarrow> (case t of (k, v, u) \<Rightarrow>
     (case map_of fs k of
        None \<Rightarrow> cbor_height v < depth \<and> u = id
      | Some h \<Rightarrow> \<forall>obj pre rest. addressable pre (cbor_enc v @ rest) \<longrightarrow>
          h obj (dec_at pre (cbor_enc v @ rest)) = Some (u obj, dec_at (pre @ cbor_enc v) rest)))"

lemma enc_map_items:
  fixes items :: "'o field_item list"
  shows "cbor_enc (CMap (map item_pair items)) = cbor_head 5 (length items) @ concat (map item_bytes items)"
proof -
  have "(\<lambda>(k, v). cbor_enc k @ cbor_enc v) \<circ> item_pair = (item_bytes :: 'o field_item \<Rightarrow> bytes)"
    by (simp add: fun_eq_iff split: prod.splits)
  then show ?thesis by (simp only: cbor_enc.simps(6) length_map map_map)
qed

lemma find_field_at:
  "slice buf q = Some (text_bytes key) \<Longrightarrow> unat (snd q) = length key \<Longrightarrow> find_field buf q fs = Some (map_of fs key)"
  by (induction fs) (auto simp: text_bytes_inj)

lemma decode_fields_append:
  assumes "\<forall>t \<in> set items. reads_item depth fs t"
    and "addressable pre (concat (map item_bytes items) @ rest)"
  shows "decode_fields depth fs (length items + m) obj (dec_at pre (concat (map item_bytes items) @ rest)) =
     decode_fields depth fs m (apply_items items obj) (dec_at (pre @ concat (map item_bytes items)) rest)"
  using assms
proof (induction items arbitrary: pre obj)
  case Nil
  then show ?case by simp
next
  case (Cons t items)
  obtain k v u where t: "t = (k, v, u)" by (cases t) auto
  let ?R = "concat (map item_bytes items) @ rest"
  have a: "addressable pre (cbor_enc (CText (text_bytes k)) @ cbor_enc v @ ?R)"
    using Cons.prems(2) t by simp
  obtain q where q:
    "cbor_decode_text (dec_at pre (cbor_enc (CText (text_bytes k)) @ cbor_enc v @ ?R)) =
       (Some q, dec_at (pre @ cbor_enc (CText (text_bytes k))) (cbor_enc v @ ?R))"
    "slice (pre @ cbor_enc (CText (text_bytes k)) @ cbor_enc v @ ?R) q = Some (text_bytes k)"
    "unat (snd q) = length (text_bytes k)"
    using decode_text_dec_at [OF a] by blast
  let ?p = "pre @ cbor_enc (CText (text_bytes k))"
  have ff: "find_field (pre @ cbor_enc (CText (text_bytes k)) @ cbor_enc v @ ?R) q fs = Some (map_of fs k)"
    using q(2,3) by (intro find_field_at) simp_all
  have a2: "addressable ?p (cbor_enc v @ ?R)" using a by simp
  have ih: "decode_fields depth fs (length items + m) obj' (dec_at (?p @ cbor_enc v) ?R) =
      decode_fields depth fs m (apply_items items obj') (dec_at ((?p @ cbor_enc v) @ concat (map item_bytes items)) rest)" for obj'
    using Cons.prems a by (intro Cons.IH) auto
  have r: "reads_item depth fs (k, v, u)" using Cons.prems(1) t by simp
  have "decode_fields depth fs (Suc (length items + m)) obj (dec_at pre (cbor_enc (CText (text_bytes k)) @ cbor_enc v @ ?R)) =
      decode_fields depth fs m (apply_items items (u obj)) (dec_at ((?p @ cbor_enc v) @ concat (map item_bytes items)) rest)"
  proof (cases "map_of fs k")
    case None
    then have "cbor_height v < depth" "u = id" using r by (simp_all add: reads_item_def)
    then show ?thesis
      using q(1) ff None skip_enc [of v depth ?p ?R] a2 ih by (simp del: cbor_enc.simps append_assoc add: append_assoc [symmetric])
  next
    case (Some h)
    then have "h obj (dec_at ?p (cbor_enc v @ ?R)) = Some (u obj, dec_at (?p @ cbor_enc v) ?R)"
      using r a2 by (simp add: reads_item_def del: cbor_enc.simps)
    then show ?thesis
      using q(1) ff Some ih by (simp del: cbor_enc.simps append_assoc add: append_assoc [symmetric])
  qed
  then show ?case using t by (simp del: cbor_enc.simps)
qed

lemma decode_fields_dec_at:
  assumes "\<forall>t \<in> set items. reads_item depth fs t"
    and "addressable pre (concat (map item_bytes items) @ rest)"
  shows "decode_fields depth fs (length items) obj (dec_at pre (concat (map item_bytes items) @ rest)) =
     Some (apply_items items obj, dec_at (pre @ concat (map item_bytes items)) rest)"
  using decode_fields_append [OF assms, of 0] by simp

lemma map_of_mset:
  "mset ys = image_mset f (mset xs) \<Longrightarrow> \<exists>zs. mset zs = mset xs \<and> map f zs = ys"
proof (induction ys arbitrary: xs)
  case Nil
  then show ?case by simp
next
  case (Cons y ys)
  then have "y \<in># image_mset f (mset xs)" by (metis union_single_eq_member mset.simps(2))
  then obtain x where x: "x \<in> set xs" "y = f x" by auto
  then have ms: "mset xs = add_mset x (mset (remove1 x xs))" by simp
  have "add_mset y (mset ys) = add_mset (f x) (image_mset f (mset (remove1 x xs)))"
    using Cons.prems by (subst (asm) ms) simp
  then have "mset ys = image_mset f (mset (remove1 x xs))" using x(2) by simp
  then obtain zs where "mset zs = mset (remove1 x xs)" "map f zs = ys" using Cons.IH by blast
  then have "mset (x # zs) = add_mset x (mset (remove1 x xs))" "map f (x # zs) = y # ys"
    using x(2) by (simp_all only: mset.simps list.map)
  then show ?case using ms by metis
qed

lemma fold_puts:
  "list_all2 puts_item fds items \<Longrightarrow>
   \<exists>mb'. fold_opt (\<lambda>mb f. f mb) mb fds = Some mb' \<and>
     mb_entries mb' = mb_entries mb @ map (\<lambda>(k, v, u). \<lparr>me_key = k, me_value = cbor_enc v\<rparr>) items"
proof (induction arbitrary: mb rule: list_all2_induct)
  case Nil
  then show ?case by simp
next
  case (Cons f fds t items)
  obtain k v u where t: "t = (k, v, u)" by (cases t) auto
  then obtain mb1 where f: "f mb = Some mb1"
    "mb_entries mb1 = mb_entries mb @ [\<lparr>me_key = k, me_value = cbor_enc v\<rparr>]"
    using Cons.hyps(1) by (auto simp: puts_item_def)
  then show ?case using Cons.IH [of mb1] t by auto
qed

lemma encode_fields_snd:
  "encode_fields mem qsort fds enc = Some (ok, e) \<Longrightarrow> ok \<longleftrightarrow> \<not> enc_error e"
  by (auto simp: encode_fields_def cbor_encoder_ok_def split: Option.bind_splits)

lemma encode_fields_bind:
  assumes "fold_opt (\<lambda>mb f. f mb) cbor_map_builder_init fds = Some mb"
  shows "map_option snd (encode_fields mem qsort fds enc) = map_option snd (cbor_map_builder_encode mem qsort mb enc)"
proof -
  have "encode_fields mem qsort fds enc =
      cbor_map_builder_encode mem qsort mb enc \<bind> (\<lambda>(mb, enc). Some (cbor_encoder_ok enc, enc))"
    unfolding encode_fields_def assms by (simp only: bind.bind_lunit)
  moreover have "map_option snd (r \<bind> (\<lambda>(mb, enc). Some (cbor_encoder_ok enc, enc))) = map_option snd r" for r :: "(cbor_map_builder_t \<times> cbor_encoder_t) option"
    by (cases r) (simp_all add: case_prod_beta)
  ultimately show ?thesis by (simp only:)
qed

lemma encode_fields_items:
  fixes items :: "'o field_item list"
  assumes q: "is_qsort qsort" and inv: "enc_inv enc" and p: "list_all2 puts_item fds items"
    and n: "length items < 2 ^ 64" and keys: "\<forall>(k, v, u) \<in> set items. length k < 2 ^ 64"
  obtains items' where "mset items' = mset items"
    "emits enc (cbor_enc (CMap (map item_pair items'))) (map_option snd (encode_fields mem qsort fds enc))"
proof -
  let ?e = "\<lambda>(k, v, u). \<lparr>me_key = k, me_value = cbor_enc v\<rparr>"
  obtain mb where mb: "fold_opt (\<lambda>mb f. f mb) cbor_map_builder_init fds = Some mb" "mb_entries mb = map ?e items"
    using fold_puts [OF p, of cbor_map_builder_init] by (auto simp: cbor_map_builder_init_def)
  have k: "\<forall>e \<in> set (mb_entries mb). length (me_key e) < 2 ^ 64" using keys mb(2) by auto
  have l: "length (mb_entries mb) < 2 ^ 64" using n mb(2) by simp
  obtain ss where ss: "mset ss = mset (mb_entries mb)"
    "emits enc (cbor_head CBOR_TYPE_MAP (length ss) @ concat (map entry_bytes ss))
       (map_option snd (cbor_map_builder_encode mem qsort mb enc))"
    by (rule emits_builder [OF q inv l k, of mem])
  obtain items' where items': "mset items' = mset items" "map ?e items' = ss"
    using map_of_mset [of ss ?e items] ss(1) mb(2) by auto
  have "cbor_head CBOR_TYPE_MAP (length ss) @ concat (map entry_bytes ss) = cbor_enc (CMap (map item_pair items'))"
  proof -
    have "entry_bytes \<circ> ?e = (item_bytes :: 'o field_item \<Rightarrow> bytes)"
      by (simp add: fun_eq_iff split: prod.splits)
    then show ?thesis
      unfolding items'(2) [symmetric] enc_map_items by (simp only: map_map length_map)
  qed
  moreover have "map_option snd (encode_fields mem qsort fds enc) = map_option snd (cbor_map_builder_encode mem qsort mb enc)"
    using mb(1) by (rule encode_fields_bind)
  ultimately show ?thesis using items'(1) ss(2) that by simp
qed

lemma apply_items_perm:
  assumes "mset items' = mset items"
    and "\<And>s t. s \<in> set items \<Longrightarrow> t \<in> set items \<Longrightarrow> snd (snd s) \<circ> snd (snd t) = snd (snd t) \<circ> snd (snd s)"
  shows "apply_items items' = apply_items items"
proof -
  have "set items' = set items" using assms(1) by (metis set_mset_mset)
  then show ?thesis
    by (intro fold_multiset_equiv) (use assms in \<open>auto simp: case_prod_beta\<close>)
qed

text \<open>
  The round trip of such a map: encoding with enough room succeeds and writes a canonical map, and
  decoding applies all items.
\<close>

lemma length_map_bytes:
  fixes items :: "'o field_item list"
  shows "mset items' = mset items \<Longrightarrow>
   length (cbor_enc (CMap (map item_pair items'))) = length (cbor_enc (CMap (map item_pair items)))"
proof -
  assume m: "mset items' = mset items"
  then have "length items' = length items" by (metis size_mset)
  moreover have "sum_list (map (length \<circ> item_bytes) items') = sum_list (map (length \<circ> item_bytes) items)"
    using m by (simp only: mset_map flip: sum_mset_sum_list)
  ultimately show ?thesis
    by (simp only: enc_map_items length_append length_concat map_map)
qed

lemma decode_map_items:
  fixes items :: "'o field_item list"
  assumes "\<forall>t \<in> set items. reads_item depth fs t"
    and "length (cbor_enc (CMap (map item_pair items))) < 2 ^ 64"
  shows "\<exists>n d. cbor_decode_map (cbor_decoder_init (cbor_enc (CMap (map item_pair items)))) = (n, d) \<and>
     cbor_decoder_ok d \<and>
     decode_fields depth fs (unat n) obj d = Some (apply_items items obj, dec_at (cbor_enc (CMap (map item_pair items))) [])"
proof -
  let ?c = "concat (map item_bytes items)"
  have enc: "cbor_enc (CMap (map item_pair items)) = cbor_head 5 (length items) @ ?c"
    by (rule enc_map_items)
  have "\<forall>t \<in> set items. item_bytes t \<noteq> []" by (auto simp del: cbor_enc.simps)
  then have n: "length items < 2 ^ 64" using length_concat_ge [of items item_bytes] assms(2) enc by simp
  have "cbor_decode_map (dec_at [] (cbor_head 5 (length items) @ ?c)) =
      (word_of_nat (length items), dec_at (cbor_head 5 (length items)) ?c)"
    using decode_head_dec_at [of 5 "length items" "[]" ?c] assms(2) n enc by (simp add: cbor_decode_map_def)
  moreover have "decode_fields depth fs (length items) obj (dec_at (cbor_head 5 (length items)) (?c @ [])) =
      Some (apply_items items obj, dec_at (cbor_head 5 (length items) @ ?c) [])"
    using assms enc by (intro decode_fields_dec_at) simp_all
  ultimately show ?thesis
    using n unfolding enc init_dec_at by (simp add: cbor_decoder_ok_def unat_of_nat)
qed

lemma init_dynamic_inv [simp]: "enc_inv (cbor_encoder_init_dynamic mem cap)"
  by (simp add: cbor_encoder_init_dynamic_def enc_inv_def)

lemma init_fixed_inv [simp]: "enc_inv (cbor_encoder_init False cap)"
  by (simp add: cbor_encoder_init_def enc_inv_def)

text \<open>A field whose encoding fits the local buffer is stored unharmed.\<close>

lemma puts_add_field:
  assumes "emits (cbor_encoder_init False cap) (cbor_enc v) (put (cbor_encoder_init False cap))"
    and "length (cbor_enc v) \<le> cap"
  shows "puts_item (add_field (\<lambda>_. True) cap key put) (key, v, u)"
  using assms
  by (auto simp: puts_item_def add_field_def emits_def cbor_encoder_init_def cbor_map_builder_add_def Let_def)

lemma puts_add_raw:
  "blk = Some (cbor_enc v) \<Longrightarrow> len = length (cbor_enc v) \<Longrightarrow> puts_item (add_raw_field (\<lambda>_. True) key blk len) (key, v, u)"
  by (auto simp: puts_item_def add_raw_field_def cbor_map_builder_add_def Let_def)

section \<open>Reading single fields\<close>

lemma read_uint_dec_at:
  assumes "addressable pre (cbor_enc (CUInt n) @ rest)"
  shows "read_uint put obj (dec_at pre (cbor_enc (CUInt n) @ rest)) = Some (put n obj, dec_at (pre @ cbor_enc (CUInt n)) rest)"
  using assms decode_head_dec_at [of 0 "unat n" pre rest]
  by (simp add: read_uint_def cbor_decode_uint_def)

lemma decode_bytes_dec_at:
  assumes "addressable pre (cbor_enc (CBytes b) @ rest)"
  obtains q where
    "cbor_decode_bytes (dec_at pre (cbor_enc (CBytes b) @ rest)) = (Some q, dec_at (pre @ cbor_enc (CBytes b)) rest)"
    "slice (pre @ cbor_enc (CBytes b) @ rest) q = Some b" "unat (snd q) = length b"
proof
  let ?h = "cbor_head CBOR_TYPE_BYTES (length b)"
  let ?q = "(word_of_nat (length (pre @ ?h)), word_of_nat (length b)) :: u64 \<times> u64"
  show "cbor_decode_bytes (dec_at pre (cbor_enc (CBytes b) @ rest)) = (Some ?q, dec_at (pre @ cbor_enc (CBytes b)) rest)"
    using assms decode_string_dec_at [of 2 pre b rest] by (simp add: cbor_decode_bytes_def)
  show "slice (pre @ cbor_enc (CBytes b) @ rest) ?q = Some b"
    using slice_dec_at [of "pre @ ?h" b rest] assms by (simp del: of_nat_add)
  show "unat (snd ?q) = length b"
    using assms by (simp add: unat_of_nat)
qed

lemma read_id_dec_at:
  assumes "addressable pre (cbor_enc (CBytes b) @ rest)" and "length b = n"
  shows "read_id n put obj (dec_at pre (cbor_enc (CBytes b) @ rest)) = Some (put b obj, dec_at (pre @ cbor_enc (CBytes b)) rest)"
  by (rule decode_bytes_dec_at [OF assms(1)]) (use assms(2) in \<open>simp add: read_id_def del: cbor_enc.simps\<close>)

text \<open>What a \<open>char\<close> array can hold: no NUL inside.\<close>

definition c_string :: "string \<Rightarrow> bool" where
  "c_string s \<longleftrightarrow> CHR 0x00 \<notin> set s"

lemma of_char_eq_0_iff: "(of_char c :: u8) = 0 \<longleftrightarrow> c = CHR 0x00"
  using of_char_u8_inj [of c "CHR 0x00"] by simp

lemma char_of_of_char_u8 [simp]: "char_of (unat (of_char c :: u8)) = c"
proof -
  have "(of_char c :: u8) = word_of_nat (of_char c)" by (simp add: of_nat_of_char)
  then show ?thesis by (simp add: unat_of_nat)
qed

lemma takeWhile_text: "c_string s \<Longrightarrow> takeWhile (\<lambda>b. b \<noteq> 0) (text_bytes s) = text_bytes s"
  by (auto simp: takeWhile_eq_all_conv text_bytes_def c_string_def of_char_eq_0_iff)

lemma takeWhile_text_NUL: "c_string s \<Longrightarrow> takeWhile (\<lambda>b. b \<noteq> 0) (text_bytes s @ [0]) = text_bytes s"
  by (induction s) (auto simp: text_bytes_def c_string_def of_char_eq_0_iff)

lemma cstr_of_text: "c_string s \<Longrightarrow> cstr_of (text_bytes s @ [0]) = s"
  by (simp add: cstr_of_def takeWhile_text_NUL) (simp add: text_bytes_def map_idI)

lemma read_text_dec_at:
  assumes "addressable pre (cbor_enc (CText (text_bytes s)) @ rest)" and "length s < cap" and "c_string s"
  shows "read_text cap put obj (dec_at pre (cbor_enc (CText (text_bytes s)) @ rest)) =
     Some (put s obj, dec_at (pre @ cbor_enc (CText (text_bytes s))) rest)"
  by (rule decode_text_dec_at [OF assms(1)])
     (use assms(2,3) in \<open>simp add: read_text_def cbor_decode_text_copy_def cstr_of_text del: cbor_enc.simps\<close>)

lemma read_body_dec_at:
  assumes "addressable pre (cbor_enc x @ rest)" and "cbor_height x < depth"
  shows "read_body depth (\<lambda>_. True) obj (dec_at pre (cbor_enc x @ rest)) =
     Some (obj\<lparr>ob_body_cbor := Some (cbor_enc x), ob_body_cbor_len := length (cbor_enc x)\<rparr>,
           dec_at (pre @ cbor_enc x) rest)"
proof -
  have pos: "dec_pos (dec_at p r) = word_of_nat (length p)" for p r by (simp add: dec_at_def)
  have "(word_of_nat (length (pre @ cbor_enc x)) - word_of_nat (length pre) :: u64) = word_of_nat (length (cbor_enc x))"
    by simp
  moreover have "slice (pre @ cbor_enc x @ rest) (word_of_nat (length pre), word_of_nat (length (cbor_enc x))) = Some (cbor_enc x)"
    using assms(1) by (rule slice_dec_at)
  moreover have "unat (word_of_nat (length (cbor_enc x)) :: u64) = length (cbor_enc x)"
    using assms(1) by (simp add: unat_of_nat)
  ultimately show ?thesis
    using assms skip_enc [of x depth pre rest]
    by (simp add: read_body_def pos Let_def del: of_nat_add length_append)
qed

section \<open>The envelope\<close>

definition object_items :: "plank_object_t \<Rightarrow> cbor \<Rightarrow> plank_object_t field_item list" where
  "object_items obj x =
     [(''version'', CUInt (ucast (ob_version obj)), ob_version_update (\<lambda>_. ob_version obj)),
      (''class'', CUInt (ucast (ob_class obj)), ob_class_update (\<lambda>_. ob_class obj)),
      (''origin_node_id'', CBytes (ob_origin_node_id obj), ob_origin_node_id_update (\<lambda>_. ob_origin_node_id obj)),
      (''origin_node_addr'', CText (text_bytes (ob_origin_node_addr obj)),
         ob_origin_node_addr_update (\<lambda>_. ob_origin_node_addr obj)),
      (''created_at'', CUInt (ob_created_at obj), ob_created_at_update (\<lambda>_. ob_created_at obj)),
      (''object_id'', CBytes (ob_object_id obj), ob_object_id_update (\<lambda>_. ob_object_id obj)),
      (''body'', x, \<lambda>o'. o'\<lparr>ob_body_cbor := Some (cbor_enc x), ob_body_cbor_len := length (cbor_enc x)\<rparr>),
      (''sig_alg'', CUInt (ucast (ob_sig_alg obj)), ob_sig_alg_update (\<lambda>_. ob_sig_alg obj))]"

definition signature_item :: "plank_object_t \<Rightarrow> plank_object_t field_item" where
  "signature_item obj = (''signature'', CBytes (ob_signature obj), ob_signature_update (\<lambda>_. ob_signature obj))"

text \<open>An object whose fields fit their arrays and whose body is one encoded item.\<close>

definition object_ok :: "nat \<Rightarrow> plank_object_t \<Rightarrow> cbor \<Rightarrow> bool" where
  "object_ok depth obj x \<longleftrightarrow>
     length (ob_origin_node_id obj) = PLANK_NODE_ID_SIZE \<and> length (ob_object_id obj) = PLANK_OBJECT_ID_SIZE \<and>
     length (ob_origin_node_addr obj) < PLANK_MAX_ADDRESS \<and> c_string (ob_origin_node_addr obj) \<and>
     ob_body_cbor obj = Some (cbor_enc x) \<and> ob_body_cbor_len obj = length (cbor_enc x) \<and>
     cbor_height x < depth \<and> length (cbor_enc x) \<le> 3737"

lemma length_head: "n < 2 ^ 64 \<Longrightarrow> length (cbor_head m n) \<le> 9"
  by (simp add: cbor_head_def Let_def)

lemma length_head_small: "n < 256 \<Longrightarrow> length (cbor_head m n) \<le> 2"
  by (simp add: cbor_head_def Let_def)

lemma length_head_16: "n < 65536 \<Longrightarrow> length (cbor_head m n) \<le> 3"
  by (simp add: cbor_head_def Let_def)

lemma length_head_32: "n < 4294967296 \<Longrightarrow> length (cbor_head m n) \<le> 5"
  by (simp add: cbor_head_def Let_def)

lemma length_head_tiny: "n < 24 \<Longrightarrow> length (cbor_head m n) = 1"
  by (simp add: cbor_head_def Let_def)

lemma emits_text: "enc_inv enc \<Longrightarrow> length s < 2 ^ 64 \<Longrightarrow> emits enc (cbor_enc (CText (text_bytes s))) (cbor_encode_text mem enc (Some s))"
  using emits_string(2) [of enc "text_bytes s" mem] by (simp add: cbor_encode_text_def)

lemma emits_bytes:
  "enc_inv enc \<Longrightarrow> length b = n \<Longrightarrow> n < 2 ^ 64 \<Longrightarrow> emits enc (cbor_enc (CBytes b)) (cbor_encode_bytes mem enc (Some b) n)"
  using emits_string(1) [of enc b mem] by simp

lemma emits_uint: "enc_inv enc \<Longrightarrow> emits enc (cbor_enc (CUInt n)) (cbor_encode_uint mem enc n)"
  by (simp add: cbor_encode_uint_def emits_type_arg)

lemma object_items_put:
  assumes "object_ok depth obj x"
  shows "list_all2 puts_item (envelope_fields (\<lambda>_. True) obj) (object_items obj x)"
proof -
  have u: "length (cbor_enc (CUInt n)) \<le> 256" for n
    using length_head [of "unat n" 0] by simp
  show ?thesis
    using assms u length_head_small [of 16 2] length_head_small [of 32 2]
      length_head_small [of "length (ob_origin_node_addr obj)" 3]
    unfolding envelope_fields_def object_items_def object_ok_def
    by (auto intro!: puts_add_field puts_add_raw emits_text emits_bytes emits_uint simp del: cbor_enc.simps
          simp: cbor_enc.simps(3,4))
qed

lemma signature_item_put:
  "length (ob_signature obj) = PLANK_SIGNATURE_SIZE \<Longrightarrow>
   puts_item (add_field (\<lambda>_. True) 256 ''signature''
     (\<lambda>tmp. cbor_encode_bytes (\<lambda>_. True) tmp (Some (ob_signature obj)) PLANK_SIGNATURE_SIZE)) (signature_item obj)"
  using length_head_small [of 64 2]
  by (auto simp: signature_item_def simp del: cbor_enc.simps simp: cbor_enc.simps(3) intro!: puts_add_field emits_bytes)

lemma ucast_up_down:
  assumes "LENGTH('a) \<le> LENGTH('b)"
  shows "ucast (ucast (w :: 'a::len word) :: 'b::len word) = w"
proof (rule unsigned_word_eqI [where ?'a = nat])
  show "unat (ucast (ucast w :: 'b word) :: 'a word) = unat w"
    by (simp add: unsigned_ucast_eq [of "ucast w :: 'b word"] unat_ucast_up [OF assms] take_bit_nat_eq_self)
qed

lemmas ucast_enums [simp] =
  ucast_up_down [where ?'a = 16 and ?'b = 64, simplified] ucast_up_down [where ?'a = 32 and ?'b = 64, simplified]

lemma reads_object_items:
  assumes "object_ok depth obj x" and "length (ob_signature obj) = PLANK_SIGNATURE_SIZE"
  shows "\<forall>t \<in> set (object_items obj x @ [signature_item obj]). reads_item depth (object_fields depth (\<lambda>_. True)) t"
  using assms
  by (auto simp: object_ok_def object_items_def signature_item_def reads_item_def object_fields_def
        read_uint_dec_at read_id_dec_at read_text_dec_at read_body_dec_at simp del: cbor_enc.simps)

lemma commute_object_items:
  "s \<in> set (object_items obj x @ [signature_item obj]) \<Longrightarrow> t \<in> set (object_items obj x @ [signature_item obj]) \<Longrightarrow>
   snd (snd s) \<circ> snd (snd t) = snd (snd t) \<circ> snd (snd s)"
  by (auto simp: object_items_def signature_item_def fun_eq_iff)

lemma length_envelope:
  assumes "object_ok depth obj x" and "length (ob_signature obj) = PLANK_SIGNATURE_SIZE"
  shows "length (cbor_enc (CMap (map item_pair (object_items obj x @ [signature_item obj])))) \<le> 4096"
    and "length (cbor_enc (CMap (map item_pair (object_items obj x)))) \<le> 4096"
proof -
  have "unat (ucast (ob_version obj) :: u64) < 65536" "unat (ucast (ob_class obj) :: u64) < 4294967296"
    "unat (ucast (ob_sig_alg obj) :: u64) < 4294967296"
    by (simp_all add: unat_ucast_up)
  note h = length_head_16 [OF this(1), of 0] length_head_32 [OF this(2), of 0] length_head_32 [OF this(3), of 0]
    length_head [of "unat (ob_created_at obj)" 0] length_head_small [of 16 2] length_head_small [of 32 2]
    length_head_small [of 64 2] length_head_small [of "length (ob_origin_node_addr obj)" 3]
  have k: "\<And>n. n < 24 \<Longrightarrow> length (cbor_head m n) = 1" for m by (rule length_head_tiny)
  show "length (cbor_enc (CMap (map item_pair (object_items obj x @ [signature_item obj])))) \<le> 4096"
    "length (cbor_enc (CMap (map item_pair (object_items obj x)))) \<le> 4096"
    using assms h unfolding enc_map_items object_ok_def
    by (simp_all add: object_items_def signature_item_def k)
qed

lemma encode_fields_ok:
  fixes items :: "'o field_item list"
  assumes q: "is_qsort qsort" and p: "list_all2 puts_item fds items"
    and n: "length items < 2 ^ 64" and keys: "\<forall>(k, v, u) \<in> set items. length k < 2 ^ 64"
    and fits: "length (cbor_enc (CMap (map item_pair items))) \<le> cap" "64 \<le> cap"
  obtains items' where "mset items' = mset items"
    "encode_fields (\<lambda>_. True) qsort fds (cbor_encoder_init_dynamic (\<lambda>_. True) cap) =
       Some (True, \<lparr>enc_null = False, enc_cap = cap, enc_data = cbor_enc (CMap (map item_pair items')),
                    enc_error = False\<rparr>)"
proof -
  let ?enc = "cbor_encoder_init_dynamic (\<lambda>_. True) cap"
  have enc: "?enc = \<lparr>enc_null = False, enc_cap = cap, enc_data = [], enc_error = False\<rparr>"
    using fits(2) by (simp add: cbor_encoder_init_dynamic_def Let_def)
  obtain items' where i: "mset items' = mset items"
    "emits ?enc (cbor_enc (CMap (map item_pair items'))) (map_option snd (encode_fields (\<lambda>_. True) qsort fds ?enc))"
    by (rule encode_fields_items [OF q init_dynamic_inv p n keys])
  have l: "length (cbor_enc (CMap (map item_pair items'))) \<le> cap"
    using fits(1) length_map_bytes [OF i(1)] by simp
  obtain ok e where r: "encode_fields (\<lambda>_. True) qsort fds ?enc = Some (ok, e)"
    "e = ?enc\<lparr>enc_data := cbor_enc (CMap (map item_pair items'))\<rparr>"
    using i(2) l by (auto simp: emits_def enc simp del: cbor_enc.simps)
  moreover have "ok" using encode_fields_snd [OF r(1)] r(2) by (simp add: enc)
  ultimately have "encode_fields (\<lambda>_. True) qsort fds ?enc =
      Some (True, \<lparr>enc_null = False, enc_cap = cap, enc_data = cbor_enc (CMap (map item_pair items')), enc_error = False\<rparr>)"
    by (simp add: enc del: cbor_enc.simps)
  then show ?thesis using i(1) that by blast
qed

abbreviation dyn_encoder :: "nat \<Rightarrow> bytes \<Rightarrow> cbor_encoder_t" where
  "dyn_encoder cap bs \<equiv> \<lparr>enc_null = False, enc_cap = cap, enc_data = bs, enc_error = False\<rparr>"

abbreviation signed_items :: "plank_object_t \<Rightarrow> cbor \<Rightarrow> plank_object_t field_item list" where
  "signed_items obj x \<equiv> object_items obj x @ [signature_item obj]"

lemma envelope_with_sig:
  assumes "is_qsort qsort" and "object_ok depth obj x" and "length (ob_signature obj) = PLANK_SIGNATURE_SIZE"
  obtains items' where "mset items' = mset (signed_items obj x)"
    "encode_envelope_with_sig (\<lambda>_. True) qsort (cbor_encoder_init_dynamic (\<lambda>_. True) 4096) obj =
       Some (True, dyn_encoder 4096 (cbor_enc (CMap (map item_pair items'))))"
proof (rule encode_fields_ok [OF assms(1)])
  show "list_all2 puts_item (envelope_fields (\<lambda>_. True) obj @ [add_field (\<lambda>_. True) 256 ''signature''
      (\<lambda>tmp. cbor_encode_bytes (\<lambda>_. True) tmp (Some (ob_signature obj)) PLANK_SIGNATURE_SIZE)]) (signed_items obj x)"
    using object_items_put [OF assms(2)] signature_item_put [OF assms(3)] by (simp add: list_all2_appendI)
  show "length (cbor_enc (CMap (map item_pair (signed_items obj x)))) \<le> 4096"
    by (rule length_envelope [OF assms(2,3)])
qed (auto simp: encode_envelope_with_sig_def object_items_def signature_item_def simp del: cbor_enc.simps intro: that)

lemma envelope_without_sig:
  assumes "is_qsort qsort" and "object_ok depth obj x" and "length (ob_signature obj) = PLANK_SIGNATURE_SIZE"
  obtains items' where "mset items' = mset (object_items obj x)"
    "encode_envelope_without_sig (\<lambda>_. True) qsort (cbor_encoder_init_dynamic (\<lambda>_. True) 4096) obj =
       Some (True, dyn_encoder 4096 (cbor_enc (CMap (map item_pair items'))))"
  by (rule encode_fields_ok [OF assms(1) object_items_put [OF assms(2)] _ _ length_envelope(2) [OF assms(2,3)]])
     (auto simp: encode_envelope_without_sig_def object_items_def simp del: cbor_enc.simps intro: that)

lemma without_sig_cong:
  "encode_envelope_without_sig mem qsort enc (obj\<lparr>ob_signature := s, ob_envelope_cbor := e, ob_envelope_cbor_len := l\<rparr>) =
     encode_envelope_without_sig mem qsort enc obj"
  "encode_envelope_without_sig mem qsort enc (obj\<lparr>ob_signature := s\<rparr>) = encode_envelope_without_sig mem qsort enc obj"
  "encode_envelope_without_sig mem qsort enc (obj\<lparr>ob_envelope_cbor := e, ob_envelope_cbor_len := l\<rparr>) =
     encode_envelope_without_sig mem qsort enc obj"
  by (simp_all add: encode_envelope_without_sig_def envelope_fields_def)

lemma encode_decode_object:
  assumes "is_qsort qsort" and ok: "object_ok depth obj x" and sig: "length (ob_signature obj) = PLANK_SIGNATURE_SIZE"
  obtains env where "env \<noteq> []" "length env \<le> 4096"
    "plank_object_encode (\<lambda>_. True) qsort obj =
       Some (Inr (), obj\<lparr>ob_envelope_cbor := Some env, ob_envelope_cbor_len := length env\<rparr>)"
    "plank_object_decode depth (\<lambda>_. True) env =
       Some (Inr (obj\<lparr>ob_envelope_cbor := Some env, ob_envelope_cbor_len := length env\<rparr>))"
proof -
  let ?obj = "obj\<lparr>ob_envelope_cbor := None, ob_envelope_cbor_len := 0\<rparr>"
  have ok': "object_ok depth ?obj x" and sig': "length (ob_signature ?obj) = PLANK_SIGNATURE_SIZE"
    using ok sig by (simp_all add: object_ok_def)
  obtain items' where i: "mset items' = mset (signed_items ?obj x)"
    "encode_envelope_with_sig (\<lambda>_. True) qsort (cbor_encoder_init_dynamic (\<lambda>_. True) 4096) ?obj =
       Some (True, dyn_encoder 4096 (cbor_enc (CMap (map item_pair items'))))"
    by (rule envelope_with_sig [OF assms(1) ok' sig'])
  define env where "env = cbor_enc (CMap (map item_pair items'))"
  have len: "length env \<le> 4096"
    using length_map_bytes [OF i(1)] length_envelope(1) [OF ok' sig'] unfolding env_def by simp
  have ne: "env \<noteq> []" unfolding env_def by (rule cbor_enc_nonempty)
  have body: "ob_body_cbor obj = Some (cbor_enc x)" using ok by (simp add: object_ok_def)
  have enc: "plank_object_encode (\<lambda>_. True) qsort obj =
      Some (Inr (), obj\<lparr>ob_envelope_cbor := Some env, ob_envelope_cbor_len := length env\<rparr>)"
    using i(2) body unfolding env_def [symmetric]
    by (simp add: plank_object_encode_def Let_def cbor_encoder_data_def cbor_encoder_len_def)
  have "set items' = set (signed_items ?obj x)" using i(1) by (metis set_mset_mset)
  then have reads: "\<forall>t \<in> set items'. reads_item depth (object_fields depth (\<lambda>_. True)) t"
    using reads_object_items [OF ok' sig'] by simp
  have len64: "length (cbor_enc (CMap (map item_pair items'))) < 2 ^ 64" using len unfolding env_def by simp
  obtain new where new: "plank_object_new (\<lambda>_. True) = Some new" by (simp add: plank_object_new_def)
  let ?new = "new\<lparr>ob_envelope_cbor := Some env, ob_envelope_cbor_len := length env\<rparr>"
  obtain n d where d: "cbor_decode_map (cbor_decoder_init env) = (n, d)" "cbor_decoder_ok d"
    "decode_fields depth (object_fields depth (\<lambda>_. True)) (unat n) ?new d = Some (apply_items items' ?new, dec_at env [])"
    using decode_map_items [OF reads len64, of ?new] unfolding env_def by blast
  have "apply_items items' = apply_items (signed_items ?obj x)"
    by (rule apply_items_perm [OF i(1) commute_object_items])
  moreover have "apply_items (signed_items ?obj x) ?new = obj\<lparr>ob_envelope_cbor := Some env, ob_envelope_cbor_len := length env\<rparr>"
    using ok new by (simp add: object_items_def signature_item_def object_ok_def plank_object_new_def)
  ultimately have "plank_object_decode depth (\<lambda>_. True) env =
      Some (Inr (obj\<lparr>ob_envelope_cbor := Some env, ob_envelope_cbor_len := length env\<rparr>))"
    using d new ne by (simp add: plank_object_decode_def cbor_decoder_ok_def)
  then show ?thesis using enc ne len that by blast
qed

section \<open>Signed objects\<close>

definition openssl_available :: "openssl \<Rightarrow> bytes \<Rightarrow> bool" where
  "openssl_available ssl seed \<longleftrightarrow>
     (\<forall>msg. evp_digest_sign ssl seed msg \<noteq> None) \<and>
     (\<forall>data. \<exists>hash. evp_sha256 ssl data = Some hash \<and> length hash = PLANK_HASH_SIZE)"

lemma object_ok_update:
  "length i = PLANK_OBJECT_ID_SIZE \<Longrightarrow> object_ok depth obj x \<Longrightarrow> object_ok depth (obj\<lparr>ob_object_id := i\<rparr>) x"
  "object_ok depth (obj\<lparr>ob_signature := s\<rparr>) x \<longleftrightarrow> object_ok depth obj x"
  "object_ok depth (obj\<lparr>ob_envelope_cbor := e, ob_envelope_cbor_len := l\<rparr>) x \<longleftrightarrow> object_ok depth obj x"
  by (simp_all add: object_ok_def)

text \<open>The bytes that are signed, whatever the signature and the envelope of the object are.\<close>

lemma signed_bytes:
  assumes "is_qsort qsort" and "object_ok depth obj x"
  obtains items' where "mset items' = mset (object_items obj x)"
    "encode_envelope_without_sig (\<lambda>_. True) qsort (cbor_encoder_init_dynamic (\<lambda>_. True) 4096) obj =
       Some (True, dyn_encoder 4096 (cbor_enc (CMap (map item_pair items'))))"
proof -
  let ?o = "obj\<lparr>ob_signature := replicate 64 0\<rparr>"
  obtain items' where i: "mset items' = mset (object_items ?o x)"
    "encode_envelope_without_sig (\<lambda>_. True) qsort (cbor_encoder_init_dynamic (\<lambda>_. True) 4096) ?o =
       Some (True, dyn_encoder 4096 (cbor_enc (CMap (map item_pair items'))))"
    by (rule envelope_without_sig [OF assms(1), of depth ?o x]) (use assms(2) in \<open>simp_all add: object_ok_update\<close>)
  have "object_items ?o x = object_items obj x" by (simp add: object_items_def)
  then show ?thesis using i without_sig_cong(2) that by metis
qed

lemma compute_id_ok:
  assumes "is_qsort qsort" and ok: "object_ok depth obj x" and "openssl_available ssl seed"
  obtains hash where "length hash = PLANK_OBJECT_ID_SIZE"
    "plank_object_compute_id (\<lambda>_. True) qsort ssl obj = Some (Inr (), obj\<lparr>ob_object_id := hash\<rparr>)"
    "\<forall>o'. o'\<lparr>ob_object_id := [], ob_signature := [], ob_envelope_cbor := None, ob_envelope_cbor_len := 0\<rparr> =
           obj\<lparr>ob_object_id := [], ob_signature := [], ob_envelope_cbor := None, ob_envelope_cbor_len := 0\<rparr> \<longrightarrow>
       plank_object_compute_id (\<lambda>_. True) qsort ssl o' = Some (Inr (), o'\<lparr>ob_object_id := hash\<rparr>)"
proof -
  let ?z = "\<lambda>o'. o'\<lparr>ob_object_id := replicate 32 0\<rparr>"
  have z: "object_ok depth (?z obj) x" by (rule object_ok_update) (simp_all add: ok)
  obtain items' where "mset items' = mset (object_items (?z obj) x)"
    and i: "encode_envelope_without_sig (\<lambda>_. True) qsort (cbor_encoder_init_dynamic (\<lambda>_. True) 4096) (?z obj) =
       Some (True, dyn_encoder 4096 (cbor_enc (CMap (map item_pair items'))))"
    by (rule signed_bytes [OF assms(1) z])
  define bs where "bs = cbor_enc (CMap (map item_pair items'))"
  obtain hash where h: "evp_sha256 ssl bs = Some hash" "length hash = 32"
    using assms(3) by (auto simp: openssl_available_def)
  have same: "plank_object_compute_id (\<lambda>_. True) qsort ssl o' = Some (Inr (), o'\<lparr>ob_object_id := hash\<rparr>)"
    if "o'\<lparr>ob_object_id := [], ob_signature := [], ob_envelope_cbor := None, ob_envelope_cbor_len := 0\<rparr> =
        obj\<lparr>ob_object_id := [], ob_signature := [], ob_envelope_cbor := None, ob_envelope_cbor_len := 0\<rparr>" for o'
  proof -
    have f: "ob_version o' = ob_version obj" "ob_class o' = ob_class obj" "ob_origin_node_id o' = ob_origin_node_id obj"
      "ob_origin_node_addr o' = ob_origin_node_addr obj" "ob_created_at o' = ob_created_at obj"
      "ob_sig_alg o' = ob_sig_alg obj" "ob_body_cbor o' = ob_body_cbor obj" "ob_body_cbor_len o' = ob_body_cbor_len obj"
      using that [THEN arg_cong, of ob_version] that [THEN arg_cong, of ob_class]
        that [THEN arg_cong, of ob_origin_node_id] that [THEN arg_cong, of ob_origin_node_addr]
        that [THEN arg_cong, of ob_created_at] that [THEN arg_cong, of ob_sig_alg]
        that [THEN arg_cong, of ob_body_cbor] that [THEN arg_cong, of ob_body_cbor_len]
      by simp_all
    have "encode_envelope_without_sig (\<lambda>_. True) qsort (cbor_encoder_init_dynamic (\<lambda>_. True) 4096) (?z o') =
        encode_envelope_without_sig (\<lambda>_. True) qsort (cbor_encoder_init_dynamic (\<lambda>_. True) 4096) (?z obj)"
      by (simp add: encode_envelope_without_sig_def envelope_fields_def f)
    then show ?thesis
      using ok i h f unfolding bs_def [symmetric]
      by (simp add: plank_object_compute_id_def object_ok_def plank_crypto_sha256_def Let_def)
  qed
  show ?thesis by (rule that [OF h(2) same [OF refl]]) (use same in blast)
qed

lemma sign_ok:
  assumes q: "is_qsort qsort" and ok: "object_ok depth obj x"
    and av: "openssl_available ssl (take 32 priv)" and kp: "ed25519_keypair ssl (take 32 priv) (take 32 pub)"
  obtains sent env where
    "plank_object_sign (\<lambda>_. True) qsort ssl obj priv = Some (Inr (), sent)"
    "ob_envelope_cbor sent = Some env" "plank_object_decode depth (\<lambda>_. True) env = Some (Inr sent)"
    "plank_object_verify_id (\<lambda>_. True) qsort ssl sent = Some True"
    "plank_object_verify (\<lambda>_. True) qsort ssl sent pub = Some (Inr ())"
    "sent = obj\<lparr>ob_object_id := ob_object_id sent, ob_signature := ob_signature sent,
                ob_envelope_cbor := ob_envelope_cbor sent, ob_envelope_cbor_len := ob_envelope_cbor_len sent\<rparr>"
proof -
  obtain hash where h: "length hash = 32"
    "plank_object_compute_id (\<lambda>_. True) qsort ssl obj = Some (Inr (), obj\<lparr>ob_object_id := hash\<rparr>)"
    and id: "\<forall>o'. o'\<lparr>ob_object_id := [], ob_signature := [], ob_envelope_cbor := None, ob_envelope_cbor_len := 0\<rparr> =
           obj\<lparr>ob_object_id := [], ob_signature := [], ob_envelope_cbor := None, ob_envelope_cbor_len := 0\<rparr> \<longrightarrow>
       plank_object_compute_id (\<lambda>_. True) qsort ssl o' = Some (Inr (), o'\<lparr>ob_object_id := hash\<rparr>)"
    by (rule compute_id_ok [OF q ok av])
  let ?o1 = "obj\<lparr>ob_object_id := hash\<rparr>"
  have ok1: "object_ok depth ?o1 x" by (rule object_ok_update) (simp_all add: ok h)
  obtain items' where "mset items' = mset (object_items ?o1 x)"
    and e: "encode_envelope_without_sig (\<lambda>_. True) qsort (cbor_encoder_init_dynamic (\<lambda>_. True) 4096) ?o1 =
       Some (True, dyn_encoder 4096 (cbor_enc (CMap (map item_pair items'))))"
    by (rule signed_bytes [OF q ok1])
  define bs where "bs = cbor_enc (CMap (map item_pair items'))"
  obtain sig where s: "evp_digest_sign ssl (take 32 priv) bs = Some sig"
    using av by (auto simp: openssl_available_def)
  then have sl: "length sig = 64" and sv: "evp_digest_verify ssl (take 32 pub) bs sig"
    using kp by (auto simp: ed25519_keypair_def)
  let ?o2 = "?o1\<lparr>ob_signature := sig\<rparr>"
  have ok2: "object_ok depth ?o2 x" using ok1 by (simp add: object_ok_def)
  have sl2: "length (ob_signature ?o2) = 64" using sl by simp
  obtain env where env: "env \<noteq> []"
    "plank_object_encode (\<lambda>_. True) qsort ?o2 = Some (Inr (), ?o2\<lparr>ob_envelope_cbor := Some env, ob_envelope_cbor_len := length env\<rparr>)"
    "plank_object_decode depth (\<lambda>_. True) env = Some (Inr (?o2\<lparr>ob_envelope_cbor := Some env, ob_envelope_cbor_len := length env\<rparr>))"
    by (rule encode_decode_object [OF q ok2 sl2])
  let ?sent = "?o2\<lparr>ob_envelope_cbor := Some env, ob_envelope_cbor_len := length env\<rparr>"
  have body: "ob_body_cbor obj = Some (cbor_enc x)" "ob_body_cbor_len obj = length (cbor_enc x)"
    using ok by (simp_all add: object_ok_def)
  have clone: "plank_object_clone (\<lambda>_. True) ?sent = Some (Some ?sent)"
    by (rule clone_object [where b = "cbor_enc x" and e = env]) (simp_all add: body env(1))
  have sign: "plank_object_sign (\<lambda>_. True) qsort ssl obj priv = Some (Inr (), ?sent)"
    using body h(2) e s env(2) unfolding bs_def [symmetric]
    by (simp add: plank_object_sign_def plank_crypto_sign_ed25519_def)
  have enc: "encode_envelope_without_sig (\<lambda>_. True) qsort (cbor_encoder_init_dynamic (\<lambda>_. True) 4096) ?sent =
      Some (True, dyn_encoder 4096 bs)"
    using e unfolding bs_def [symmetric] by (simp add: without_sig_cong)
  have ver: "plank_object_verify (\<lambda>_. True) qsort ssl ?sent pub = Some (Inr ())"
    using body clone enc sl sv by (simp add: plank_object_verify_def plank_crypto_verify_ed25519_def)
  have "plank_object_compute_id (\<lambda>_. True) qsort ssl ?sent = Some (Inr (), ?sent)"
    using id [THEN spec, of ?sent] by simp
  then have vid: "plank_object_verify_id (\<lambda>_. True) qsort ssl ?sent = Some True"
    using body clone h(1) by (simp add: plank_object_verify_id_def plank_object_id_equal_def memcmp_iff_eq)
  show ?thesis
    by (rule that [OF sign _ env(3) vid ver]) simp_all
qed

text \<open>The signed bytes determine every field they cover.\<close>

lemma signed_bytes_inj:
  assumes q: "is_qsort qsort" and ok: "object_ok depth obj x" and ok': "object_ok depth obj' x'"
    and eq: "encode_envelope_without_sig (\<lambda>_. True) qsort (cbor_encoder_init_dynamic (\<lambda>_. True) 4096) obj =
             encode_envelope_without_sig (\<lambda>_. True) qsort (cbor_encoder_init_dynamic (\<lambda>_. True) 4096) obj'"
  shows "obj'\<lparr>ob_signature := [], ob_envelope_cbor := None, ob_envelope_cbor_len := 0\<rparr> =
         obj\<lparr>ob_signature := [], ob_envelope_cbor := None, ob_envelope_cbor_len := 0\<rparr>"
proof -
  let ?blank = "\<lparr>ob_version = 0, ob_class = 0,
         ob_origin_node_id = [], ob_origin_node_addr = [], ob_created_at = 0, ob_object_id = [], ob_sig_alg = 0,
         ob_signature = [], ob_body_cbor = None, ob_body_cbor_len = 0, ob_envelope_cbor = None, ob_envelope_cbor_len = 0\<rparr>"
  have decode: "\<exists>n d. cbor_decode_map (cbor_decoder_init bs) = (n, d) \<and>
      decode_fields depth (object_fields depth (\<lambda>_. True)) (unat n) ?blank d =
      Some (o1\<lparr>ob_signature := [], ob_envelope_cbor := None, ob_envelope_cbor_len := 0\<rparr>, dec_at bs [])"
    if o1: "object_ok depth o1 y" and bs: "encode_envelope_without_sig (\<lambda>_. True) qsort (cbor_encoder_init_dynamic (\<lambda>_. True) 4096) o1 =
        Some (True, dyn_encoder 4096 bs)" for o1 y bs
  proof -
    let ?o = "o1\<lparr>ob_signature := replicate 64 0\<rparr>"
    have ok: "object_ok depth ?o y" and sig: "length (ob_signature ?o) = 64" using o1 by (simp_all add: object_ok_def)
    have it: "object_items ?o y = object_items o1 y" by (simp add: object_items_def)
    obtain items' where i: "mset items' = mset (object_items o1 y)" "bs = cbor_enc (CMap (map item_pair items'))"
      by (rule signed_bytes [OF q o1]) (use bs in simp)
    have set: "set items' = set (object_items o1 y)" using i(1) by (metis set_mset_mset)
    then have reads: "\<forall>t \<in> set items'. reads_item depth (object_fields depth (\<lambda>_. True)) t"
      using reads_object_items [OF ok sig] it by simp
    have len: "length (cbor_enc (CMap (map item_pair items'))) < 2 ^ 64"
      using length_map_bytes [OF i(1)] length_envelope(2) [OF ok sig] it by simp
    have "apply_items items' = apply_items (object_items o1 y)"
      by (rule apply_items_perm [OF i(1)]) (rule commute_object_items [of _ o1 y]; simp)
    moreover have "apply_items (object_items o1 y) ?blank =
        o1\<lparr>ob_signature := [], ob_envelope_cbor := None, ob_envelope_cbor_len := 0\<rparr>"
      using o1 by (simp add: object_items_def object_ok_def)
    ultimately show ?thesis
      using decode_map_items [OF reads len, of ?blank] unfolding i(2) [symmetric] by auto
  qed
  obtain items' where "mset items' = mset (object_items obj x)"
    and bs: "encode_envelope_without_sig (\<lambda>_. True) qsort (cbor_encoder_init_dynamic (\<lambda>_. True) 4096) obj =
      Some (True, dyn_encoder 4096 (cbor_enc (CMap (map item_pair items'))))"
    by (rule signed_bytes [OF q ok])
  define bs where "bs = cbor_enc (CMap (map item_pair items'))"
  have bs': "encode_envelope_without_sig (\<lambda>_. True) qsort (cbor_encoder_init_dynamic (\<lambda>_. True) 4096) obj' =
      Some (True, dyn_encoder 4096 bs)"
    using eq bs unfolding bs_def by simp
  have "Some (obj'\<lparr>ob_signature := [], ob_envelope_cbor := None, ob_envelope_cbor_len := 0\<rparr>, dec_at bs []) =
      Some (obj\<lparr>ob_signature := [], ob_envelope_cbor := None, ob_envelope_cbor_len := 0\<rparr>, dec_at bs [])"
    using decode [OF ok bs [folded bs_def]] decode [OF ok' bs'] by auto
  then show ?thesis by simp
qed

section \<open>Properties\<close>

text \<open>
  C18: An object that is sent is the object that is received: the envelope that \<open>plank_object_encode\<close> makes of it
  fits its buffer of 4096 bytes, and \<open>plank_object_decode\<close> reads every field of the object back from it, whatever order
  \<open>qsort\<close> has given entries that compare equal.
\<close>

theorem object_roundtrip:
  assumes "is_qsort qsort" and "object_ok depth obj x" and "length (ob_signature obj) = PLANK_SIGNATURE_SIZE"
  shows "\<exists>env. length env \<le> 4096 \<and>
    plank_object_encode (\<lambda>_. True) qsort obj =
      Some (Inr (), obj\<lparr>ob_envelope_cbor := Some env, ob_envelope_cbor_len := length env\<rparr>) \<and>
    plank_object_decode depth (\<lambda>_. True) env =
      Some (Inr (obj\<lparr>ob_envelope_cbor := Some env, ob_envelope_cbor_len := length env\<rparr>))"
  by (rule encode_decode_object [OF assms]) blast

definition example_object :: plank_object_t where
  "example_object = \<lparr>ob_version = 1, ob_class = PLANK_CLASS_MESSAGE, ob_origin_node_id = replicate 16 7,
     ob_origin_node_addr = ''hub@fsx'', ob_created_at = 1700000000, ob_object_id = replicate 32 9,
     ob_sig_alg = PLANK_SIG_ED25519, ob_signature = replicate 64 3,
     ob_body_cbor = Some (cbor_enc (CUInt 5)), ob_body_cbor_len = length (cbor_enc (CUInt 5)),
     ob_envelope_cbor = None, ob_envelope_cbor_len = 0\<rparr>"

lemma example_object_ok:
  "object_ok 1 example_object (CUInt 5)" "length (ob_signature example_object) = PLANK_SIGNATURE_SIZE"
  by (simp_all add: example_object_def object_ok_def cbor_head_def c_string_def)

theorem object_roundtrip_witness:
  "\<exists>env. plank_object_decode 1 (\<lambda>_. True) env =
     Some (Inr (example_object\<lparr>ob_envelope_cbor := Some env, ob_envelope_cbor_len := length env\<rparr>))"
  using object_roundtrip [OF is_qsort_sort_key example_object_ok] by blast

text \<open>
  C19: What is signed determines the object: if the bytes that \<open>plank_object_sign\<close> signs and
  \<open>plank_object_verify\<close> checks are the same for two objects, the objects agree in every field but the signature and
  the cached envelope.
\<close>

theorem signed_bytes_determine_object:
  assumes "is_qsort qsort" and "object_ok depth obj x" and "object_ok depth obj' x'"
    and "encode_envelope_without_sig (\<lambda>_. True) qsort (cbor_encoder_init_dynamic (\<lambda>_. True) 4096) obj =
         encode_envelope_without_sig (\<lambda>_. True) qsort (cbor_encoder_init_dynamic (\<lambda>_. True) 4096) obj'"
  shows "obj'\<lparr>ob_signature := [], ob_envelope_cbor := None, ob_envelope_cbor_len := 0\<rparr> =
         obj\<lparr>ob_signature := [], ob_envelope_cbor := None, ob_envelope_cbor_len := 0\<rparr>"
  by (rule signed_bytes_inj [OF assms])

theorem signed_bytes_determine_object_witness:
  "(example_object\<lparr>ob_signature := replicate 64 4\<rparr>)\<lparr>ob_signature := [], ob_envelope_cbor := None, ob_envelope_cbor_len := 0\<rparr> =
   example_object\<lparr>ob_signature := [], ob_envelope_cbor := None, ob_envelope_cbor_len := 0\<rparr>"
  by (rule signed_bytes_determine_object [OF is_qsort_sort_key example_object_ok(1), where x' = "CUInt 5"])
     (simp_all add: example_object_ok(1) [simplified] object_ok_update without_sig_cong)

end
