(* ===== verification/Plank_Message.thy ===== *)
theory Plank_Message
  imports Plank_Object
begin

text \<open>
  PLANK messages: the body of \<open>Plank_Object.message_body_fields\<close> on its way through \<open>encode_message_body\<close> and
  \<open>plank_object_decode_message_body\<close>.

  \<^item> \<open>message_items\<close> are the fields of a body as data items with what reading them sets; \<open>message_ok\<close> says that the body
    is what its declaration allows, and \<open>received_body\<close> what of it arrives.
  \<^item> \<open>create_message_ok\<close> follows a message from \<open>plank_object_create_message\<close> to the decoder of the receiver.
  \<^item> Texts that are too long for the local buffer and texts with a NUL inside do not arrive.
\<close>

section \<open>Message bodies\<close>

lemma strndup_slice:
  "slice buf p = Some t \<Longrightarrow> 0 \<notin> set t \<Longrightarrow> c_strndup (\<lambda>_. True) buf p = Some (Some (t @ [0]))"
  by (auto simp: slice_def c_strndup_def Let_def takeWhile_eq_all_conv split: if_splits)

lemma text_bytes_nonzero: "c_string s \<Longrightarrow> 0 \<notin> set (text_bytes s)"
  by (auto simp: text_bytes_def c_string_def of_char_eq_0_iff eq_commute [of 0])

lemma read_addr_dec_at:
  assumes "addressable pre (cbor_enc (CText (text_bytes s)) @ rest)" and "c_string s"
  shows "read_addr (\<lambda>_. True) (dec_at pre (cbor_enc (CText (text_bytes s)) @ rest)) =
     Some (Some s, dec_at (pre @ cbor_enc (CText (text_bytes s))) rest)"
  by (rule decode_text_dec_at [OF assms(1)])
     (use assms(2) in \<open>simp add: read_addr_def strndup_slice text_bytes_nonzero cstr_of_text del: cbor_enc.simps\<close>)

lemma read_path_node_dec_at:
  assumes "addressable pre (cbor_enc (CBytes b) @ rest)" and "length b = PLANK_NODE_ID_SIZE"
  shows "read_path_node (\<lambda>_. True) (dec_at pre (cbor_enc (CBytes b) @ rest)) =
     Some (Some b, dec_at (pre @ cbor_enc (CBytes b)) rest)"
  by (rule decode_bytes_dec_at [OF assms(1)]) (use assms(2) in \<open>simp add: read_path_node_def del: cbor_enc.simps\<close>)

lemma read_body_text_dec_at:
  assumes "addressable pre (cbor_enc (CText t) @ rest)" and "0 \<notin> set t"
  shows "read_body_text (\<lambda>_. True) body (dec_at pre (cbor_enc (CText t) @ rest)) =
     Some (body\<lparr>msg_body_text := Some (t @ [0]), msg_body_text_len := length t\<rparr>, dec_at (pre @ cbor_enc (CText t)) rest)"
  by (rule decode_text_dec_at [OF assms(1)])
     (use assms(2) in \<open>simp add: read_body_text_def strndup_slice del: cbor_enc.simps\<close>)

lemma decode_elems_dec_at:
  assumes "\<And>x pre rest. x \<in> set xs \<Longrightarrow> addressable pre (cbor_enc (g x) @ rest) \<Longrightarrow>
       elem (dec_at pre (cbor_enc (g x) @ rest)) = Some (x, dec_at (pre @ cbor_enc (g x)) rest)"
    and "addressable pre (concat (map (cbor_enc \<circ> g) xs) @ rest)"
  shows "decode_elems elem (length xs) (dec_at pre (concat (map (cbor_enc \<circ> g) xs) @ rest)) =
     Some (xs, dec_at (pre @ concat (map (cbor_enc \<circ> g) xs)) rest)"
  using assms
proof (induction xs arbitrary: pre)
  case Nil
  then show ?case by simp
next
  case (Cons x xs)
  have "elem (dec_at pre (cbor_enc (g x) @ concat (map (cbor_enc \<circ> g) xs) @ rest)) =
      Some (x, dec_at (pre @ cbor_enc (g x)) (concat (map (cbor_enc \<circ> g) xs) @ rest))"
    using Cons.prems by (intro Cons.prems(1)) (auto simp: comp_def)
  moreover have "decode_elems elem (length xs) (dec_at (pre @ cbor_enc (g x)) (concat (map (cbor_enc \<circ> g) xs) @ rest)) =
      Some (xs, dec_at ((pre @ cbor_enc (g x)) @ concat (map (cbor_enc \<circ> g) xs)) rest)"
    using Cons.prems by (intro Cons.IH) (auto simp: comp_def)
  ultimately show ?case by (simp add: comp_def)
qed

lemma read_array_dec_at:
  assumes "\<And>x pre rest. x \<in> set xs \<Longrightarrow> addressable pre (cbor_enc (g x) @ rest) \<Longrightarrow>
       elem (dec_at pre (cbor_enc (g x) @ rest)) = Some (x, dec_at (pre @ cbor_enc (g x)) rest)"
    and a: "addressable pre (cbor_enc (CArray (map g xs)) @ rest)"
  shows "read_array (\<lambda>_. True) elem put obj (dec_at pre (cbor_enc (CArray (map g xs)) @ rest)) =
     Some ((if xs = [] then id else put xs) obj, dec_at (pre @ cbor_enc (CArray (map g xs))) rest)"
proof -
  let ?c = "concat (map (cbor_enc \<circ> g) xs)" and ?h = "cbor_head 4 (length xs)"
  have enc: "cbor_enc (CArray (map g xs)) = ?h @ ?c" by simp
  have n: "length xs < 2 ^ 64"
    using length_concat_ge [of xs "cbor_enc \<circ> g"] a unfolding enc by simp
  have "cbor_decode_array (dec_at pre (?h @ ?c @ rest)) = (word_of_nat (length xs), dec_at (pre @ ?h) (?c @ rest))"
    using decode_head_dec_at [of 4 "length xs" pre "?c @ rest"] n a unfolding enc by (simp add: cbor_decode_array_def)
  moreover have "decode_elems elem (length xs) (dec_at (pre @ ?h) (?c @ rest)) = Some (xs, dec_at ((pre @ ?h) @ ?c) rest)"
    using a unfolding enc by (intro decode_elems_dec_at assms(1)) auto
  moreover have "unat (word_of_nat (length xs) :: u64) = length xs" using n by (simp add: unat_of_nat)
  moreover have "(word_of_nat (length xs) :: u64) = 0 \<longleftrightarrow> xs = []"
    using n by (metis calculation(3) length_0_conv unat_eq_zero)
  ultimately show ?thesis
    unfolding enc by (cases "xs = []") (simp_all add: read_array_def)
qed

text \<open>The fields as data items, and the item lists the encoder writes.\<close>

abbreviation text_item :: "string option \<Rightarrow> cbor" where
  "text_item a \<equiv> CText (text_bytes (the a))"

abbreviation id_item :: "bytes option \<Rightarrow> cbor" where
  "id_item b \<equiv> CBytes (the b)"

definition message_items :: "plank_message_body_t \<Rightarrow> plank_message_body_t field_item list" where
  "message_items body =
     [(''message_type'', CUInt (ucast (msg_type body)), msg_type_update (\<lambda>_. msg_type body)),
      (''author_user'', CText (text_bytes (msg_author_user body)), msg_author_user_update (\<lambda>_. msg_author_user body))]
     @ (if msg_author_display body \<noteq> []
        then [(''author_display'', CText (text_bytes (msg_author_display body)),
               msg_author_display_update (\<lambda>_. msg_author_display body))] else [])
     @ [(''from_addr'', CText (text_bytes (msg_from_addr body)), msg_from_addr_update (\<lambda>_. msg_from_addr body)),
        (''to_addrs'', CArray (map text_item (msg_to_addrs body)),
           (if msg_to_addrs body = [] then id else msg_to_addrs_update (\<lambda>_. msg_to_addrs body)))]
     @ (if msg_type body = PLANK_MSG_AREA_POST \<and> msg_area_addr body \<noteq> []
        then [(''area_addr'', CText (text_bytes (msg_area_addr body)), msg_area_addr_update (\<lambda>_. msg_area_addr body))]
        else [])
     @ [(''subject'', CText (text_bytes (msg_subject body)), msg_subject_update (\<lambda>_. msg_subject body)),
        (''body_format'', CUInt (ucast (msg_body_format body)), msg_body_format_update (\<lambda>_. msg_body_format body)),
        (''body_text'', CText (butlast (the (msg_body_text body))),
           \<lambda>b. b\<lparr>msg_body_text := msg_body_text body, msg_body_text_len := msg_body_text_len body\<rparr>)]
     @ (if \<not> plank_object_id_is_zero (msg_thread_root_id body)
        then [(''thread_root_id'', CBytes (msg_thread_root_id body), msg_thread_root_id_update (\<lambda>_. msg_thread_root_id body))]
        else [])
     @ (if \<not> plank_object_id_is_zero (msg_parent_id body)
        then [(''parent_id'', CBytes (msg_parent_id body), msg_parent_id_update (\<lambda>_. msg_parent_id body))] else [])
     @ (if msg_reply_to body \<noteq> [] then [(''reply_to'', CText (text_bytes (msg_reply_to body)), id)] else [])
     @ [(''attachment_refs'', CArray (map id_item (msg_attachment_refs body)), id),
        (''retention_class'', CUInt (ucast (msg_retention_class body)), msg_retention_class_update (\<lambda>_. msg_retention_class body)),
        (''visibility'', CUInt (ucast (msg_visibility body)), msg_visibility_update (\<lambda>_. msg_visibility body)),
        (''flags'', CUInt (ucast (msg_flags body)), msg_flags_update (\<lambda>_. msg_flags body)),
        (''path'', CArray (map id_item (msg_path body)),
           (if msg_path body = [] then id else msg_path_update (\<lambda>_. msg_path body))),
        (''hop_count'', CUInt (ucast (msg_hop_count body)), msg_hop_count_update (\<lambda>_. msg_hop_count body))]"

definition message_item :: "plank_message_body_t \<Rightarrow> cbor" where
  "message_item body = CMap (map item_pair (message_items body))"

text \<open>
  A body whose fields are what their declarations allow: strings that fit their arrays, a text with its
  terminator and no NUL inside, identifiers of the right size and no NULL elements.
\<close>

definition message_ok :: "plank_message_body_t \<Rightarrow> bool" where
  "message_ok body \<longleftrightarrow>
     length (msg_author_user body) < PLANK_MAX_USER_NAME \<and> c_string (msg_author_user body) \<and>
     length (msg_author_display body) < PLANK_MAX_USER_NAME \<and> c_string (msg_author_display body) \<and>
     length (msg_from_addr body) < PLANK_MAX_ADDRESS \<and> c_string (msg_from_addr body) \<and>
     length (msg_area_addr body) < PLANK_MAX_ADDRESS \<and> c_string (msg_area_addr body) \<and>
     length (msg_subject body) < PLANK_MAX_SUBJECT \<and> c_string (msg_subject body) \<and>
     length (msg_reply_to body) < PLANK_MAX_ADDRESS \<and> c_string (msg_reply_to body) \<and>
     (\<exists>t. msg_body_text body = Some (t @ [0]) \<and> msg_body_text_len body = length t \<and> 0 \<notin> set t) \<and>
     length (msg_thread_root_id body) = PLANK_OBJECT_ID_SIZE \<and> length (msg_parent_id body) = PLANK_OBJECT_ID_SIZE \<and>
     list_all (\<lambda>a. \<exists>s. a = Some s \<and> c_string s) (msg_to_addrs body) \<and>
     list_all (\<lambda>a. \<exists>b. a = Some b \<and> length b = PLANK_ATTACHMENT_ID_SIZE) (msg_attachment_refs body) \<and>
     list_all (\<lambda>a. \<exists>b. a = Some b \<and> length b = PLANK_NODE_ID_SIZE) (msg_path body)"

lemma item_length:
  fixes items :: "'o field_item list"
  assumes "(k, v, u) \<in> set items"
  shows "length (cbor_enc v) \<le> length (cbor_enc (CMap (map item_pair items)))"
proof -
  have "length (item_bytes (k, v, u)) \<le> length (concat (map item_bytes items))"
    using member_le_sum_list [of "length (item_bytes (k, v, u))" "map (length \<circ> item_bytes) items"] assms
    by (force simp: length_concat simp del: cbor_enc.simps)
  then show ?thesis unfolding enc_map_items by (simp del: cbor_enc.simps)
qed

lemma encode_texts_put:
  "list_all (\<lambda>a. \<exists>s. a = Some s \<and> c_string s) xs \<Longrightarrow> encode_texts mem xs tmp = cbor_put mem tmp (CArray (map text_item xs))"
proof -
  assume "list_all (\<lambda>a. \<exists>s. a = Some s \<and> c_string s) xs"
  then have "fold_opt (cbor_encode_text mem) e xs = fold_opt (cbor_put mem) e (map text_item xs)" for e
    by (induction xs arbitrary: e) (auto simp: cbor_encode_text_def split: option.splits)
  then show ?thesis by (simp add: encode_texts_def)
qed

lemma encode_ids_put:
  "list_all (\<lambda>a. \<exists>b. a = Some b \<and> length b = n) xs \<Longrightarrow> encode_ids mem n xs tmp = cbor_put mem tmp (CArray (map id_item xs))"
proof -
  assume "list_all (\<lambda>a. \<exists>b. a = Some b \<and> length b = n) xs"
  then have "fold_opt (\<lambda>e x. cbor_encode_bytes mem e x n) e xs = fold_opt (cbor_put mem) e (map id_item xs)" for e
    by (induction xs arbitrary: e) (auto split: option.splits)
  then show ?thesis by (simp add: encode_ids_def)
qed

lemma fits_short: "length (cbor_enc x) < 2 ^ 64 \<Longrightarrow> cbor_fits x"
proof (induction x)
  case (CArray xs)
  have "length xs \<le> length (concat (map cbor_enc xs))" by (rule length_concat_ge) simp
  moreover have "x \<in> set xs \<Longrightarrow> length (cbor_enc x) \<le> length (concat (map cbor_enc xs))" for x
    using member_le_sum_list [of "length (cbor_enc x)" "map (length \<circ> cbor_enc) xs"] by (force simp: length_concat)
  ultimately show ?case using CArray by (fastforce simp: list_all_iff)
next
  case (CMap ps)
  let ?g = "\<lambda>(k, v). cbor_enc k @ cbor_enc v"
  have "length ps \<le> length (concat (map ?g ps))" by (rule length_concat_ge) (auto simp: case_prod_beta)
  moreover have "p \<in> set ps \<Longrightarrow> length (?g p) \<le> length (concat (map ?g ps))" for p
    using member_le_sum_list [of "length (?g p)" "map (length \<circ> ?g) ps"] by (force simp: length_concat)
  ultimately show ?case using CMap by (fastforce simp: list_all_iff)
qed auto

lemma fields_emit:
  assumes "enc_inv tmp" "length (cbor_enc v) < 2 ^ 64"
  shows "v = CUInt n \<Longrightarrow> emits tmp (cbor_enc v) (cbor_encode_uint mem tmp n)"
    and "v = CText (text_bytes s) \<Longrightarrow> emits tmp (cbor_enc v) (cbor_encode_text mem tmp (Some s))"
    and "v = CBytes b \<Longrightarrow> length b = k \<Longrightarrow> emits tmp (cbor_enc v) (cbor_encode_bytes mem tmp (Some b) k)"
    and "v = CArray (map text_item xs) \<Longrightarrow> list_all (\<lambda>a. \<exists>s. a = Some s \<and> c_string s) xs \<Longrightarrow>
         emits tmp (cbor_enc v) (encode_texts mem xs tmp)"
    and "v = CArray (map id_item ys) \<Longrightarrow> list_all (\<lambda>a. \<exists>b. a = Some b \<and> length b = k) ys \<Longrightarrow>
         emits tmp (cbor_enc v) (encode_ids mem k ys tmp)"
    and "v = CText t \<Longrightarrow> emits tmp (cbor_enc v) (cbor_encode_text_len mem tmp (Some (t @ [0])) (length t))"
proof -
  have fits: "cbor_fits v" using assms(2) by (rule fits_short)
  show "v = CUInt n \<Longrightarrow> emits tmp (cbor_enc v) (cbor_encode_uint mem tmp n)"
    using assms(1) by (simp add: emits_uint del: cbor_enc.simps)
  show "v = CText (text_bytes s) \<Longrightarrow> emits tmp (cbor_enc v) (cbor_encode_text mem tmp (Some s))"
    using fits assms(1) by (auto simp del: cbor_enc.simps intro!: emits_text)
  show "v = CBytes b \<Longrightarrow> length b = k \<Longrightarrow> emits tmp (cbor_enc v) (cbor_encode_bytes mem tmp (Some b) k)"
    using fits assms(1) by (auto simp del: cbor_enc.simps intro!: emits_bytes)
  show "v = CArray (map text_item xs) \<Longrightarrow> list_all (\<lambda>a. \<exists>s. a = Some s \<and> c_string s) xs \<Longrightarrow>
         emits tmp (cbor_enc v) (encode_texts mem xs tmp)"
    using emits_put [OF fits assms(1), of mem] by (simp add: encode_texts_put del: cbor_enc.simps)
  show "v = CArray (map id_item ys) \<Longrightarrow> list_all (\<lambda>a. \<exists>b. a = Some b \<and> length b = k) ys \<Longrightarrow>
         emits tmp (cbor_enc v) (encode_ids mem k ys tmp)"
    using emits_put [OF fits assms(1), of mem] by (simp add: encode_ids_put del: cbor_enc.simps)
  have "cbor_encode_text_len mem tmp (Some (t @ [0])) (length t) = cbor_encode_text_len mem tmp (Some t) (length t)"
    by (simp add: cbor_encode_text_len_def cong: if_cong)
  then show "v = CText t \<Longrightarrow> emits tmp (cbor_enc v) (cbor_encode_text_len mem tmp (Some (t @ [0])) (length t))"
    using fits emits_string(2) [OF assms(1), of t mem] by simp
qed

lemma message_items_put:
  assumes ok: "message_ok body" and len: "length (cbor_enc (message_item body)) \<le> 8192"
  shows "list_all2 puts_item (message_body_fields (\<lambda>_. True) body) (message_items body)"
proof -
  have l: "(k, v, u) \<in> set (message_items body) \<Longrightarrow> length (cbor_enc v) \<le> 8192" for k v u
    using item_length [of k v u "message_items body"] len by (simp add: message_item_def del: cbor_enc.simps)
  obtain t where t: "msg_body_text body = Some (t @ [0])" "msg_body_text_len body = length t"
    using ok by (auto simp: message_ok_def)
  have put: "puts_item (add_field (\<lambda>_. True) 8192 k put) (k, v, u)"
    if "(k, v, u) \<in> set (message_items body)"
      "\<And>tmp. enc_inv tmp \<Longrightarrow> length (cbor_enc v) < 2 ^ 64 \<Longrightarrow> emits tmp (cbor_enc v) (put tmp)" for k v u put
    using l [OF that(1)] that(2) by (intro puts_add_field) auto
  have "length (msg_thread_root_id body) = 32" "length (msg_parent_id body) = 32"
    "list_all (\<lambda>a. \<exists>s. a = Some s \<and> c_string s) (msg_to_addrs body)"
    "list_all (\<lambda>a. \<exists>b. a = Some b \<and> length b = 32) (msg_attachment_refs body)"
    "list_all (\<lambda>a. \<exists>b. a = Some b \<and> length b = 16) (msg_path body)"
    using ok by (simp_all add: message_ok_def)
  note ok = this
  show ?thesis
    unfolding message_body_fields_def message_items_def t
    by (intro list_all2_appendI list_all2_Cons [THEN iffD2] conjI list_all2_Nil [THEN iffD2] TrueI)
       (auto intro!: put fields_emit simp: message_items_def t ok simp del: cbor_enc.simps)
qed

lemma reads_message_items:
  assumes ok: "message_ok body" and d: "2 \<le> depth"
  shows "\<forall>t \<in> set (message_items body). reads_item depth (message_fields (\<lambda>_. True)) t"
proof -
  obtain t where t: "msg_body_text body = Some (t @ [0])" "msg_body_text_len body = length t" "0 \<notin> set t"
    using ok by (auto simp: message_ok_def)
  have to: "read_array (\<lambda>_. True) (read_addr (\<lambda>_. True)) put b (dec_at pre (cbor_enc (CArray (map text_item (msg_to_addrs body))) @ rest)) =
      Some ((if msg_to_addrs body = [] then id else put (msg_to_addrs body)) b,
            dec_at (pre @ cbor_enc (CArray (map text_item (msg_to_addrs body)))) rest)"
    if "addressable pre (cbor_enc (CArray (map text_item (msg_to_addrs body))) @ rest)"
    for put pre rest and b :: plank_message_body_t
    by (rule read_array_dec_at [OF _ that])
       (use ok in \<open>auto simp: message_ok_def list_all_iff read_addr_dec_at simp del: cbor_enc.simps\<close>)
  have path: "read_array (\<lambda>_. True) (read_path_node (\<lambda>_. True)) put b (dec_at pre (cbor_enc (CArray (map id_item (msg_path body))) @ rest)) =
      Some ((if msg_path body = [] then id else put (msg_path body)) b,
            dec_at (pre @ cbor_enc (CArray (map id_item (msg_path body)))) rest)"
    if "addressable pre (cbor_enc (CArray (map id_item (msg_path body))) @ rest)"
    for put pre rest and b :: plank_message_body_t
    by (rule read_array_dec_at [OF _ that])
       (use ok in \<open>auto simp: message_ok_def list_all_iff read_path_node_dec_at simp del: cbor_enc.simps\<close>)
  have h: "cbor_height (CArray (map id_item (msg_attachment_refs body))) < depth"
    using d by (auto simp: comp_def image_constant_conv)
  show ?thesis
    using ok d h t
    by (auto simp: message_ok_def message_items_def reads_item_def message_fields_def read_uint_dec_at
          read_id_dec_at read_text_dec_at read_body_text_dec_at to path fun_eq_iff
          simp del: cbor_enc.simps cbor_height.simps(1))
qed

lemma commute_message_items:
  assumes "s \<in> set (message_items body)" "t \<in> set (message_items body)"
  shows "snd (snd s) \<circ> snd (snd t) = snd (snd t) \<circ> snd (snd s)"
proof -
  let ?us = "[id, msg_type_update (\<lambda>_. msg_type body), msg_author_user_update (\<lambda>_. msg_author_user body),
    msg_author_display_update (\<lambda>_. msg_author_display body), msg_from_addr_update (\<lambda>_. msg_from_addr body),
    msg_to_addrs_update (\<lambda>_. msg_to_addrs body), msg_area_addr_update (\<lambda>_. msg_area_addr body),
    msg_subject_update (\<lambda>_. msg_subject body), msg_body_format_update (\<lambda>_. msg_body_format body),
    (\<lambda>b. b\<lparr>msg_body_text := msg_body_text body, msg_body_text_len := msg_body_text_len body\<rparr>),
    msg_thread_root_id_update (\<lambda>_. msg_thread_root_id body), msg_parent_id_update (\<lambda>_. msg_parent_id body),
    msg_retention_class_update (\<lambda>_. msg_retention_class body), msg_visibility_update (\<lambda>_. msg_visibility body),
    msg_flags_update (\<lambda>_. msg_flags body), msg_path_update (\<lambda>_. msg_path body),
    msg_hop_count_update (\<lambda>_. msg_hop_count body)]"
  have u: "t \<in> set (message_items body) \<Longrightarrow> snd (snd t) \<in> set ?us" for t
    by (auto simp: message_items_def split: if_splits)
  have "\<forall>f \<in> set ?us. \<forall>g \<in> set ?us. f \<circ> g = g \<circ> f"
    by (simp add: fun_eq_iff)
  then show ?thesis using u assms by blast
qed

lemma zero_id: "plank_object_id_is_zero i \<Longrightarrow> length i = PLANK_OBJECT_ID_SIZE \<Longrightarrow> i = replicate PLANK_OBJECT_ID_SIZE 0"
  by (simp add: plank_object_id_is_zero_def list_all_iff replicate_eqI)

text \<open>What the receiver gets: the reply address and the attachments are not decoded.\<close>

definition received_body :: "plank_message_body_t \<Rightarrow> plank_message_body_t" where
  "received_body body = body\<lparr>
     msg_area_addr := (if msg_type body = PLANK_MSG_AREA_POST then msg_area_addr body else []),
     msg_reply_to := [], msg_attachment_refs := []\<rparr>"

lemmas msg_if =
  if_distrib [of msg_type] if_distrib [of msg_author_user] if_distrib [of msg_author_display] if_distrib [of msg_from_addr]
  if_distrib [of msg_to_addrs] if_distrib [of msg_area_addr] if_distrib [of msg_subject] if_distrib [of msg_body_format]
  if_distrib [of msg_body_text] if_distrib [of msg_body_text_len] if_distrib [of msg_thread_root_id] if_distrib [of msg_parent_id]
  if_distrib [of msg_reply_to] if_distrib [of msg_attachment_refs] if_distrib [of msg_retention_class] if_distrib [of msg_visibility]
  if_distrib [of msg_flags] if_distrib [of msg_path] if_distrib [of msg_hop_count]

lemma apply_optional: "apply_items (if c then [(k, v, u)] else []) obj = (if c then u obj else obj)"
  by simp

lemma apply_message_items:
  assumes "message_ok body" and "plank_message_body_new (\<lambda>_. True) = Some new"
  shows "apply_items (message_items body) new = received_body body"
proof -
  have ids: "plank_object_id_is_zero (msg_thread_root_id body) \<Longrightarrow> msg_thread_root_id body = replicate 32 0"
    "plank_object_id_is_zero (msg_parent_id body) \<Longrightarrow> msg_parent_id body = replicate 32 0"
    using assms(1) by (auto simp: message_ok_def intro!: zero_id)
  have new: "msg_author_display new = []" "msg_to_addrs new = []" "msg_area_addr new = []" "msg_reply_to new = []"
    "msg_attachment_refs new = []" "msg_path new = []" "msg_thread_root_id new = replicate 32 0"
    "msg_parent_id new = replicate 32 0"
    using assms(2) by (auto simp: plank_message_body_new_def)
  show ?thesis
    unfolding message_items_def fold_append comp_apply apply_optional
    by (rule plank_message_body_t.equality) (simp_all add: received_body_def new ids msg_if if_distribR)
qed

lemma encode_message_ok:
  assumes q: "is_qsort qsort" and ok: "message_ok body" and len: "length (cbor_enc (message_item body)) \<le> 8192"
  obtains items' where "mset items' = mset (message_items body)"
    "encode_message_body (\<lambda>_. True) qsort (cbor_encoder_init_dynamic (\<lambda>_. True) 8192) body =
       Some (True, dyn_encoder 8192 (cbor_enc (CMap (map item_pair items'))))"
proof (rule encode_fields_ok [OF q message_items_put [OF ok len]])
  show "length (message_items body) < 2 ^ 64"
    by (simp add: message_items_def)
  show "\<forall>(k, v, u) \<in> set (message_items body). length k < 2 ^ 64"
    by (auto simp: message_items_def simp del: cbor_enc.simps)
  show "length (cbor_enc (CMap (map item_pair (message_items body)))) \<le> 8192"
    using len by (simp add: message_item_def del: cbor_enc.simps)
qed (auto simp: encode_message_body_def simp del: cbor_enc.simps intro: that)

lemma decode_message_ok:
  assumes ok: "message_ok body" and d: "2 \<le> depth" and len: "length (cbor_enc (message_item body)) \<le> 8192"
    and i: "mset items' = mset (message_items body)"
    and obj: "ob_class obj = PLANK_CLASS_MESSAGE" "ob_body_cbor obj = Some (cbor_enc (CMap (map item_pair items')))"
      "ob_body_cbor_len obj = length (cbor_enc (CMap (map item_pair items')))"
  shows "plank_object_decode_message_body depth (\<lambda>_. True) obj = Some (Inr (received_body body))"
proof -
  have "set items' = set (message_items body)" using i by (metis set_mset_mset)
  then have reads: "\<forall>t \<in> set items'. reads_item depth (message_fields (\<lambda>_. True)) t"
    using reads_message_items [OF ok d] by simp
  have l: "length (cbor_enc (CMap (map item_pair items'))) < 2 ^ 64"
    using length_map_bytes [OF i] len by (simp add: message_item_def del: cbor_enc.simps)
  obtain new where new: "plank_message_body_new (\<lambda>_. True) = Some new" by (simp add: plank_message_body_new_def)
  have "apply_items items' new = received_body body"
    using apply_items_perm [OF i commute_message_items] apply_message_items [OF ok new] by simp
  then show ?thesis
    using decode_map_items [OF reads l, of new] obj new
    by (auto simp: plank_object_decode_message_body_def cbor_decoder_ok_def simp del: cbor_enc.simps)
qed

lemma height_message:
  assumes "mset items' = mset (message_items body)" "3 \<le> depth"
  shows "cbor_height (CMap (map item_pair items')) < depth"
proof -
  have "set items' = set (message_items body)" using assms(1) by (metis set_mset_mset)
  moreover have "(k, v, u) \<in> set (message_items body) \<Longrightarrow> cbor_height v \<le> 1" for k v u
    by (auto simp: message_items_def comp_def image_constant_conv split: if_splits)
  ultimately have "Max (insert 0 (set (map (\<lambda>(k, v). max (cbor_height k) (cbor_height v)) (map item_pair items')))) \<le> 1"
    by (subst Max_le_iff) auto
  then show ?thesis using assms(2) unfolding cbor_height.simps by linarith
qed

text \<open>The whole way of a message.\<close>

lemma create_message_ok:
  assumes q: "is_qsort qsort" and ok: "message_ok body" and len: "length (cbor_enc (message_item body)) \<le> 3737"
    and d: "3 \<le> depth" and node: "length origin_node_id = PLANK_NODE_ID_SIZE"
    and addr: "length origin_node_addr < PLANK_MAX_ADDRESS" "c_string origin_node_addr" "origin_node_addr \<noteq> []"
    and now: "now \<noteq> 0"
    and av: "openssl_available ssl (take 32 priv)" and kp: "ed25519_keypair ssl (take 32 priv) (take 32 pub)"
  obtains sent env where
    "plank_object_create_message (\<lambda>_. True) qsort ssl now origin_node_id origin_node_addr body priv = Some (Inr sent)"
    "ob_envelope_cbor sent = Some env" "plank_object_decode depth (\<lambda>_. True) env = Some (Inr sent)"
    "plank_object_validate sent = None"
    "plank_object_verify_id (\<lambda>_. True) qsort ssl sent = Some True"
    "plank_object_verify (\<lambda>_. True) qsort ssl sent pub = Some (Inr ())"
    "plank_object_decode_message_body depth (\<lambda>_. True) sent = Some (Inr (received_body body))"
    "ob_origin_node_id sent = origin_node_id" "ob_origin_node_addr sent = origin_node_addr" "ob_created_at sent = now"
proof -
  have len': "length (cbor_enc (message_item body)) \<le> 8192" using len by simp
  obtain items' where i: "mset items' = mset (message_items body)"
    "encode_message_body (\<lambda>_. True) qsort (cbor_encoder_init_dynamic (\<lambda>_. True) 8192) body =
       Some (True, dyn_encoder 8192 (cbor_enc (CMap (map item_pair items'))))"
    by (rule encode_message_ok [OF q ok len'])
  define x where "x = CMap (map item_pair items')"
  obtain new where new: "plank_object_new (\<lambda>_. True) = Some new" by (simp add: plank_object_new_def)
  have newf: "ob_object_id new = replicate 32 0" "ob_version new = 1" "ob_sig_alg new = 1"
    using new by (auto simp: plank_object_new_def)
  let ?obj = "new\<lparr>ob_class := PLANK_CLASS_MESSAGE, ob_origin_node_id := origin_node_id,
      ob_origin_node_addr := origin_node_addr, ob_created_at := now,
      ob_body_cbor := Some (cbor_enc x), ob_body_cbor_len := length (cbor_enc x)\<rparr>"
  have xl: "length (cbor_enc x) \<le> 3737"
    using len length_map_bytes [OF i(1)] by (simp add: x_def message_item_def del: cbor_enc.simps)
  have xh: "cbor_height x < depth" unfolding x_def by (rule height_message [OF i(1) d])
  have oo: "object_ok depth ?obj x"
    using newf node addr xl xh by (simp add: object_ok_def)
  obtain sent env where s: "plank_object_sign (\<lambda>_. True) qsort ssl ?obj priv = Some (Inr (), sent)"
    "ob_envelope_cbor sent = Some env" "plank_object_decode depth (\<lambda>_. True) env = Some (Inr sent)"
    "plank_object_verify_id (\<lambda>_. True) qsort ssl sent = Some True"
    "plank_object_verify (\<lambda>_. True) qsort ssl sent pub = Some (Inr ())"
    and f: "sent = ?obj\<lparr>ob_object_id := ob_object_id sent, ob_signature := ob_signature sent,
                ob_envelope_cbor := ob_envelope_cbor sent, ob_envelope_cbor_len := ob_envelope_cbor_len sent\<rparr>"
    by (rule sign_ok [OF q oo av kp])
  have fs: "ob_class sent = PLANK_CLASS_MESSAGE" "ob_origin_node_id sent = origin_node_id"
    "ob_origin_node_addr sent = origin_node_addr" "ob_created_at sent = now"
    "ob_body_cbor sent = Some (cbor_enc x)" "ob_body_cbor_len sent = length (cbor_enc x)"
    "ob_version sent = 1" "ob_sig_alg sent = 1"
    by (subst f, simp add: newf)+
  have create: "plank_object_create_message (\<lambda>_. True) qsort ssl now origin_node_id origin_node_addr body priv = Some (Inr sent)"
    using i(2) s(1) new node addr(1) unfolding x_def [symmetric]
    by (simp add: plank_object_create_message_def cbor_encoder_data_def cbor_encoder_len_def Let_def)
  have valid: "plank_object_validate sent = None"
    using fs addr(3) now cbor_enc_nonempty [of x] by (simp add: plank_object_validate_def)
  have d2: "2 \<le> depth" using d by simp
  have msg: "plank_object_decode_message_body depth (\<lambda>_. True) sent = Some (Inr (received_body body))"
    by (rule decode_message_ok [OF ok d2 len' i(1)]) (simp_all only: fs x_def)
  show ?thesis by (rule that [OF create s(2,3) valid s(4,5) msg fs(2-4)])
qed

section \<open>Long texts\<close>

text \<open>
  A text of 8190 bytes or more does not fit the local buffer behind its head; the head alone becomes
  the value of the field.
\<close>

lemma length_head_3: "256 \<le> n \<Longrightarrow> n < 65536 \<Longrightarrow> length (cbor_head m n) = 3"
  by (simp add: cbor_head_def Let_def)

lemma text_overflow:
  assumes "8190 \<le> length t" "length t < 65536"
  shows "cbor_encode_text_len (\<lambda>_. True) (cbor_encoder_init False 8192) (Some (t @ [0])) (length t) =
     Some \<lparr>enc_null = False, enc_cap = 8192, enc_data = cbor_head 3 (length t), enc_error = True\<rparr>"
proof -
  have "emits (cbor_encoder_init False 8192) (cbor_head 3 (length t))
      (encode_type_arg (\<lambda>_. True) (cbor_encoder_init False 8192) CBOR_TYPE_TEXT (word_of_nat (length t)))"
    using assms(2) by (intro emits_type_len) simp_all
  then have "encode_type_arg (\<lambda>_. True) (cbor_encoder_init False 8192) CBOR_TYPE_TEXT (word_of_nat (length t)) =
      Some \<lparr>enc_null = False, enc_cap = 8192, enc_data = cbor_head 3 (length t), enc_error = False\<rparr>"
    using assms by (auto simp: emits_def cbor_encoder_init_def length_head_3)
  moreover have "t \<noteq> []" using assms(1) by auto
  ultimately show ?thesis
    using assms by (simp add: cbor_encode_text_len_def encoder_write_bytes_def encoder_ensure_space_def Let_def length_head_3)
qed

lemma text_field_overflow:
  assumes "8190 \<le> length t" "length t < 65536"
  shows "add_field (\<lambda>_. True) 8192 key (\<lambda>tmp. cbor_encode_text_len (\<lambda>_. True) tmp (Some (t @ [0])) (length t)) =
     (\<lambda>mb. Some (snd (cbor_map_builder_add (\<lambda>_. True) mb key (cbor_head 3 (length t)))))"
  by (simp add: fun_eq_iff add_field_def text_overflow [OF assms])

lemma long_text_irrelevant:
  assumes "msg_body_text body = Some (t @ [0])" "msg_body_text_len body = length t" "8190 \<le> length t" "length t < 65536"
    and "length t' = length t"
  shows "encode_message_body (\<lambda>_. True) qsort enc (body\<lparr>msg_body_text := Some (t' @ [0])\<rparr>) =
     encode_message_body (\<lambda>_. True) qsort enc body"
  using assms text_field_overflow [of t] text_field_overflow [of t']
  by (simp add: encode_message_body_def message_body_fields_def)

text \<open>The entries of such a message.\<close>

abbreviation without_text :: "plank_message_body_t \<Rightarrow> plank_message_body_t" where
  "without_text body \<equiv> body\<lparr>msg_body_text := Some [0], msg_body_text_len := 0\<rparr>"

definition long_entry :: "nat \<Rightarrow> plank_message_body_t field_item \<Rightarrow> cbor_map_entry_t" where
  "long_entry n t = (case t of (k, v, u) \<Rightarrow>
     \<lparr>me_key = k, me_value = (if k = ''body_text'' then cbor_head 3 n else cbor_enc v)\<rparr>)"

definition puts_entry :: "(cbor_map_builder_t \<Rightarrow> cbor_map_builder_t option) \<Rightarrow> cbor_map_entry_t \<Rightarrow> bool" where
  "puts_entry f e \<longleftrightarrow> (\<forall>mb. \<exists>mb'. f mb = Some mb' \<and> mb_entries mb' = mb_entries mb @ [e])"

lemma fold_puts_entries:
  "list_all2 puts_entry fds es \<Longrightarrow> \<exists>mb'. fold_opt (\<lambda>mb f. f mb) mb fds = Some mb' \<and> mb_entries mb' = mb_entries mb @ es"
proof (induction arbitrary: mb rule: list_all2_induct)
  case Nil
  then show ?case by simp
next
  case (Cons f fds e es)
  obtain mb1 where f: "f mb = Some mb1" "mb_entries mb1 = mb_entries mb @ [e]"
    using Cons.hyps(1) by (auto simp: puts_entry_def)
  then show ?case using Cons.IH [of mb1] by auto
qed

lemma puts_entry_field:
  "puts_item (add_field mem cap k put) (k', v, u) \<Longrightarrow> puts_entry (add_field mem cap k put) \<lparr>me_key = k', me_value = cbor_enc v\<rparr>"
  by (simp add: puts_item_def puts_entry_def)

lemma long_message_puts:
  assumes ok: "message_ok (without_text body)" and len: "length (cbor_enc (message_item (without_text body))) \<le> 8192"
    and t: "msg_body_text body = Some (t @ [0])" "msg_body_text_len body = length t"
      "8190 \<le> length t" "length t < 65536"
  shows "list_all2 puts_entry (message_body_fields (\<lambda>_. True) body)
     (map (long_entry (length t)) (message_items (without_text body)))"
proof -
  let ?b = "without_text body"
  have l: "v \<in> (\<lambda>(k, v, u). v) ` set (message_items ?b) \<Longrightarrow> length (cbor_enc v) \<le> 8192" for v
    using item_length [of _ v _ "message_items ?b"] len by (fastforce simp: message_item_def simp del: cbor_enc.simps)
  have put: "puts_entry (add_field (\<lambda>_. True) 8192 k put) \<lparr>me_key = k, me_value = cbor_enc v\<rparr>"
    if "v \<in> (\<lambda>(k, v, u). v) ` set (message_items ?b)"
      "\<And>tmp. enc_inv tmp \<Longrightarrow> length (cbor_enc v) < 2 ^ 64 \<Longrightarrow> emits tmp (cbor_enc v) (put tmp)" for k v put
    using l [OF that(1)] that(2) by (intro puts_entry_field puts_add_field) auto
  have tx: "puts_entry (\<lambda>mb. Some (snd (cbor_map_builder_add (\<lambda>_. True) mb ''body_text'' (cbor_head 3 (length t)))))
      \<lparr>me_key = ''body_text'', me_value = cbor_head 3 (length t)\<rparr>"
    by (simp add: puts_entry_def cbor_map_builder_add_def Let_def)
  have "length (msg_thread_root_id body) = 32" "length (msg_parent_id body) = 32"
    "list_all (\<lambda>a. \<exists>s. a = Some s \<and> c_string s) (msg_to_addrs body)"
    "list_all (\<lambda>a. \<exists>b. a = Some b \<and> length b = 32) (msg_attachment_refs body)"
    "list_all (\<lambda>a. \<exists>b. a = Some b \<and> length b = 16) (msg_path body)"
    using ok by (simp_all add: message_ok_def)
  note ok = this
  show ?thesis
    unfolding message_body_fields_def t text_field_overflow [OF t(3,4)] message_items_def map_append
    by (intro list_all2_appendI)
       (auto intro!: put fields_emit tx simp: long_entry_def message_items_def ok simp del: cbor_enc.simps)
qed

lemma sum_list_add2: "(\<Sum>i\<leftarrow>xs. f i + 2) = sum_list (map f xs) + 2 * length xs" for f :: "'a \<Rightarrow> nat"
  by (induction xs) simp_all

lemma long_message_encoded:
  assumes q: "is_qsort qsort" and ok: "message_ok (without_text body)"
    and len: "length (cbor_enc (message_item (without_text body))) \<le> 8000"
    and t: "msg_body_text body = Some (t @ [0])" "msg_body_text_len body = length t"
      "8190 \<le> length t" "length t < 65536"
  obtains items' where "mset items' = mset (message_items (without_text body))"
    "encode_message_body (\<lambda>_. True) qsort (cbor_encoder_init_dynamic (\<lambda>_. True) 8192) body =
       Some (True, dyn_encoder 8192 (cbor_head 5 (length items') @ concat (map (\<lambda>i. entry_bytes (long_entry (length t) i)) items')))"
    "length (concat (map (\<lambda>i. entry_bytes (long_entry (length t) i)) items')) \<le> 8100"
proof -
  let ?items = "message_items (without_text body)" and ?e = "long_entry (length t)"
  let ?enc = "cbor_encoder_init_dynamic (\<lambda>_. True) 8192"
  have enc: "?enc = dyn_encoder 8192 []" by (simp add: cbor_encoder_init_dynamic_def Let_def)
  have len8: "length (cbor_enc (message_item (without_text body))) \<le> 8192" using len by simp
  obtain mb where mb: "fold_opt (\<lambda>mb f. f mb) cbor_map_builder_init (message_body_fields (\<lambda>_. True) body) = Some mb"
    "mb_entries mb = map ?e ?items"
    using fold_puts_entries [OF long_message_puts [OF ok len8 t], of cbor_map_builder_init]
    by (auto simp: cbor_map_builder_init_def)
  have n18: "length ?items \<le> 18" by (simp add: message_items_def)
  have keys: "\<forall>e \<in> set (mb_entries mb). length (me_key e) < 2 ^ 64"
    unfolding mb(2) by (auto simp: long_entry_def message_items_def simp del: cbor_enc.simps)
  have n: "length (mb_entries mb) < 2 ^ 64" using n18 by (simp add: mb(2))
  obtain ss where ss: "mset ss = mset (mb_entries mb)"
    "emits ?enc (cbor_head CBOR_TYPE_MAP (length ss) @ concat (map entry_bytes ss))
       (map_option snd (cbor_map_builder_encode (\<lambda>_. True) qsort mb ?enc))"
    by (rule emits_builder [OF q init_dynamic_inv n keys])
  obtain items' where i: "mset items' = mset ?items" "map ?e items' = ss"
    using map_of_mset [of ss ?e ?items] ss(1) mb(2) by auto
  have le: "length (entry_bytes (?e i)) \<le> length (item_bytes i) + 2" for i
    using t(3,4) length_head_3 [of "length t" 3] cbor_enc_nonempty [of "fst (snd i)"]
    by (cases i) (auto simp: long_entry_def Suc_le_eq simp del: cbor_enc_nonempty cbor_enc.simps)
  have n': "length items' = length ?items" using i(1) by (metis size_mset)
  have "length (concat (map (\<lambda>i. entry_bytes (?e i)) items')) \<le> (\<Sum>i\<leftarrow>items'. length (item_bytes i) + 2)"
    unfolding length_concat map_map comp_def by (intro sum_list_mono le)
  also have "\<dots> = length (concat (map item_bytes items')) + 2 * length items'"
    by (simp only: sum_list_add2 length_concat map_map comp_def)
  also have "\<dots> \<le> length (cbor_enc (message_item (without_text body))) + 36"
    using n18 length_map_bytes [OF i(1)] unfolding message_item_def enc_map_items length_append n' by linarith
  finally have short: "length (concat (map (\<lambda>i. entry_bytes (?e i)) items')) \<le> 8100" using len by simp
  have "length (cbor_head 5 (length items')) = 1" using n' n18 by (intro length_head_tiny) simp
  then obtain ok e where r: "encode_message_body (\<lambda>_. True) qsort ?enc body = Some (ok, e)"
    "e = ?enc\<lparr>enc_data := cbor_head 5 (length items') @ concat (map (\<lambda>i. entry_bytes (?e i)) items')\<rparr>"
    using ss(2) short unfolding i(2) [symmetric] encode_fields_bind [OF mb(1), symmetric] encode_message_body_def [symmetric]
    by (auto simp: emits_def enc comp_def simp del: cbor_enc.simps)
  moreover have ok using encode_fields_snd [OF r(1) [unfolded encode_message_body_def]] r(2) by (simp add: enc)
  ultimately show ?thesis using i(1) short that by (simp add: enc del: cbor_enc.simps)
qed

lemma decode_text_short:
  assumes "addressable pre (cbor_head 3 n @ rest)" and "length rest < n" and "length pre + 9 + n < 2 ^ 64"
  shows "cbor_decode_text (dec_at pre (cbor_head 3 n @ rest)) = (None, dec_fail (dec_at (pre @ cbor_head 3 n) rest))"
proof -
  have "length (cbor_head CBOR_TYPE_TEXT n) \<le> 9" using assms(3) by (intro length_head) simp
  then have w: "length (pre @ cbor_head 3 n) + n < 2 ^ 64" using assms(3) by simp
  have "(word_of_nat (length (pre @ cbor_head 3 n)) + word_of_nat n :: u64) = word_of_nat (length (pre @ cbor_head 3 n) + n)"
    by simp
  then have "dec_len (dec_at (pre @ cbor_head 3 n) rest) < dec_pos (dec_at (pre @ cbor_head 3 n) rest) + word_of_nat n"
    using assms(1,2) w by (simp add: dec_at_def word_less_nat_alt unat_of_nat del: of_nat_add)
  then show ?thesis
    using assms(1) w decode_head_dec_at [of 3 n pre rest] by (simp add: cbor_decode_text_def decode_string_def)
qed

lemma decode_fields_error: "dec_error dec \<Longrightarrow> decode_fields depth fs m obj dec = Some (obj, dec)"
  by (cases m) simp_all

lemma long_message_unreadable:
  assumes ok: "message_ok (without_text body)" and d: "2 \<le> depth" and n: "8190 \<le> n" "n < 65536"
    and i: "mset items' = mset (message_items (without_text body))"
    and short: "length (concat (map (\<lambda>i. entry_bytes (long_entry n i)) items')) \<le> 8100"
    and obj: "ob_class obj = PLANK_CLASS_MESSAGE"
      "ob_body_cbor obj = Some (cbor_head 5 (length items') @ concat (map (\<lambda>i. entry_bytes (long_entry n i)) items'))"
      "ob_body_cbor_len obj = length (cbor_head 5 (length items') @ concat (map (\<lambda>i. entry_bytes (long_entry n i)) items'))"
  shows "plank_object_decode_message_body depth (\<lambda>_. True) obj = Some (Inl ''Failed to decode message body'')"
proof -
  let ?c = "concat (map (\<lambda>i. entry_bytes (long_entry n i)) items')" and ?h = "cbor_head 5 (length items')"
  have set: "set items' = set (message_items (without_text body))" using i by (metis set_mset_mset)
  have "length items' = length (message_items (without_text body))" using i by (metis size_mset)
  then have l: "length items' \<le> 18" by (simp add: message_items_def)
  have "\<exists>x \<in> set items'. fst x = ''body_text''" unfolding set by (auto simp: message_items_def)
  from split_list_first_prop [OF this] obtain bef x aft where s: "items' = bef @ x # aft" "fst x = ''body_text''"
    "\<forall>y \<in> set bef. fst y \<noteq> ''body_text''" by blast
  let ?k = "cbor_enc (CText (text_bytes ''body_text''))" and ?r = "concat (map (\<lambda>i. entry_bytes (long_entry n i)) aft)"
  have bef: "concat (map (\<lambda>i. entry_bytes (long_entry n i)) bef) = concat (map item_bytes bef)"
    using s(3) by (intro arg_cong [of _ _ concat] map_cong) (auto simp: long_entry_def simp del: cbor_enc.simps)
  have c: "?c = concat (map item_bytes bef) @ ?k @ cbor_head 3 n @ ?r"
    using s(2) unfolding s(1) bef [symmetric] by (cases x) (simp add: long_entry_def del: cbor_enc.simps)
  have h1: "length ?h = 1" using l by (intro length_head_tiny) simp
  have a: "addressable ?h ?c" using short h1 by simp
  have dm: "cbor_decode_map (cbor_decoder_init (?h @ ?c)) = (word_of_nat (length items'), dec_at ?h ?c)"
    using decode_head_dec_at [of 5 "length items'" "[]" ?c] a l by (simp add: cbor_decode_map_def init_dec_at)
  obtain new where new: "plank_message_body_new (\<lambda>_. True) = Some new" by (simp add: plank_message_body_new_def)
  have reads: "\<forall>t \<in> set bef. reads_item depth (message_fields (\<lambda>_. True)) t"
    using reads_message_items [OF ok d] set s(1) by auto
  let ?p = "?h @ concat (map item_bytes bef)"
  have e1: "decode_fields depth (message_fields (\<lambda>_. True)) (length items') new (dec_at ?h ?c) =
      decode_fields depth (message_fields (\<lambda>_. True)) (Suc (length aft)) (apply_items bef new)
        (dec_at ?p (?k @ cbor_head 3 n @ ?r))"
    using decode_fields_append [OF reads, of ?h "?k @ cbor_head 3 n @ ?r" "Suc (length aft)" new] a
    unfolding c by (simp add: s(1) del: cbor_enc.simps)
  have a2: "addressable ?p (?k @ cbor_head 3 n @ ?r)" using a unfolding c by simp
  obtain qq where qq: "cbor_decode_text (dec_at ?p (?k @ cbor_head 3 n @ ?r)) = (Some qq, dec_at (?p @ ?k) (cbor_head 3 n @ ?r))"
    "slice (?p @ ?k @ cbor_head 3 n @ ?r) qq = Some (text_bytes ''body_text'')" "unat (snd qq) = length (text_bytes ''body_text'')"
    by (rule decode_text_dec_at [OF a2])
  have ff: "find_field (?p @ ?k @ cbor_head 3 n @ ?r) qq (message_fields (\<lambda>_. True)) = Some (Some (read_body_text (\<lambda>_. True)))"
    using find_field_at [OF qq(2), of "message_fields (\<lambda>_. True)"] qq(3) by (simp add: message_fields_def)
  have le: "length (?p @ ?k @ cbor_head 3 n @ ?r) \<le> 8101" using short h1 unfolding c by simp
  have "cbor_decode_text (dec_at (?p @ ?k) (cbor_head 3 n @ ?r)) = (None, dec_fail (dec_at ((?p @ ?k) @ cbor_head 3 n) ?r))"
    using le n by (intro decode_text_short) auto
  then have rb: "read_body_text (\<lambda>_. True) b (dec_at (?p @ ?k) (cbor_head 3 n @ ?r)) =
      Some (b, dec_fail (dec_at ((?p @ ?k) @ cbor_head 3 n) ?r))" for b
    by (simp add: read_body_text_def)
  have e2: "decode_fields depth (message_fields (\<lambda>_. True)) (Suc (length aft)) b (dec_at ?p (?k @ cbor_head 3 n @ ?r)) =
      Some (b, dec_fail (dec_at ((?p @ ?k) @ cbor_head 3 n) ?r))" for b
    using qq(1) ff rb [of b] by (simp add: decode_fields_error del: cbor_enc.simps append_assoc add: append_assoc [symmetric])
  have "unat (word_of_nat (length items') :: u64) = length items'" using l by (simp add: unat_of_nat)
  then show ?thesis
    using obj dm e1 e2 new by (simp add: plank_object_decode_message_body_def cbor_decoder_ok_def del: cbor_enc.simps)
qed

section \<open>Texts with a NUL inside\<close>

lemma text_with_nul:
  assumes "0 \<in> set (butlast t)" and "length t < 2 ^ 32" and "2 \<le> depth"
    and "ob_class obj = PLANK_CLASS_MESSAGE"
    and "ob_body_cbor obj = Some (cbor_enc (CMap [(CText (text_bytes ''body_text''), CText t)]))"
    and "ob_body_cbor_len obj = length (cbor_enc (CMap [(CText (text_bytes ''body_text''), CText t)]))"
  shows "\<exists>b. plank_object_decode_message_body depth (\<lambda>_. True) obj = Some (Inr b) \<and>
    plank_message_body_clone (\<lambda>_. True) b = None"
proof -
  let ?b = "takeWhile (\<lambda>b. b \<noteq> 0) t @ [0]"
  let ?u = "\<lambda>b. b\<lparr>msg_body_text := Some ?b, msg_body_text_len := length t\<rparr>"
  let ?i = "[(''body_text'', CText t, ?u)]"
  obtain new where new: "plank_message_body_new (\<lambda>_. True) = Some new" by (simp add: plank_message_body_new_def)
  have t: "t = butlast t @ [last t]" using assms(1) by (cases t rule: rev_cases) auto
  have shorter: "0 \<in> set s \<Longrightarrow> length (takeWhile (\<lambda>b. b \<noteq> 0) s) < length s" for s :: bytes
    by (induction s) auto
  have "takeWhile (\<lambda>b. b \<noteq> 0) t = takeWhile (\<lambda>b. b \<noteq> 0) (butlast t)"
    by (subst t) (use assms(1) in \<open>auto simp: takeWhile_append1\<close>)
  moreover have "length (takeWhile (\<lambda>b. b \<noteq> 0) (butlast t)) < length (butlast t)"
    using assms(1) by (rule shorter)
  ultimately have over: "length ?b < length t" by simp
  have sd: "c_strndup (\<lambda>_. True) buf p = Some (Some ?b)" if "slice buf p = Some t" for buf p
    using that over by (auto simp: slice_def c_strndup_def Let_def split: if_splits)
  have reads: "\<forall>x \<in> set ?i. reads_item depth (message_fields (\<lambda>_. True)) x"
  proof -
    have "read_body_text (\<lambda>_. True) b (dec_at pre (cbor_enc (CText t) @ rest)) = Some (?u b, dec_at (pre @ cbor_enc (CText t)) rest)"
      if "addressable pre (cbor_enc (CText t) @ rest)" for b pre rest
      by (rule decode_text_dec_at [OF that]) (simp add: read_body_text_def sd del: cbor_enc.simps)
    then show ?thesis by (simp add: reads_item_def message_fields_def del: cbor_enc.simps)
  qed
  have "length (cbor_head CBOR_TYPE_TEXT (length t)) \<le> 9" using assms(2) by (intro length_head) simp
  moreover have "length (cbor_head CBOR_TYPE_TEXT (length (text_bytes ''body_text''))) \<le> 9"
    by (intro length_head) simp
  moreover have "length (cbor_head CBOR_TYPE_MAP 1) = 1"
    by (simp add: length_head_tiny)
  ultimately have len: "length (cbor_enc (CMap (map item_pair ?i))) < 2 ^ 64" using assms(2) by simp
  have dec: "plank_object_decode_message_body depth (\<lambda>_. True) obj = Some (Inr (?u new))"
    using decode_map_items [OF reads len, of new] assms(4-6) new
    by (auto simp: plank_object_decode_message_body_def cbor_decoder_ok_def simp del: cbor_enc.simps)
  have "t \<noteq> []" using assms(1) by auto
  then have "plank_message_body_clone (\<lambda>_. True) (?u new) = None"
    using over new by (simp add: plank_message_body_clone_def clone_text_def)
  then show ?thesis using dec by blast
qed

section \<open>Properties\<close>

text \<open>
  C20: A message text of 8190 to 65535 bytes, in a message whose other fields encode to at most 8000 bytes, is lost without an
  error: encoding succeeds, the result is the same for every
  other text of that length, and no receiver can decode a message object with such a body.
\<close>

theorem long_text_is_lost:
  assumes "is_qsort qsort" and "message_ok (body\<lparr>msg_body_text := Some [0], msg_body_text_len := 0\<rparr>)"
    and "length (cbor_enc (message_item (body\<lparr>msg_body_text := Some [0], msg_body_text_len := 0\<rparr>))) \<le> 8000"
    and "msg_body_text body = Some (t @ [0])" "msg_body_text_len body = length t" "8190 \<le> length t" "length t < 65536"
    and "2 \<le> depth"
  shows "\<exists>enc. encode_message_body (\<lambda>_. True) qsort (cbor_encoder_init_dynamic (\<lambda>_. True) 8192) body = Some (True, enc) \<and>
    (\<forall>t'. length t' = length t \<longrightarrow>
       encode_message_body (\<lambda>_. True) qsort (cbor_encoder_init_dynamic (\<lambda>_. True) 8192)
         (body\<lparr>msg_body_text := Some (t' @ [0])\<rparr>) = Some (True, enc)) \<and>
    (\<forall>obj. ob_class obj = PLANK_CLASS_MESSAGE \<and> ob_body_cbor obj = cbor_encoder_data enc \<and>
       ob_body_cbor_len obj = cbor_encoder_len enc \<longrightarrow>
       plank_object_decode_message_body depth (\<lambda>_. True) obj = Some (Inl ''Failed to decode message body''))"
proof -
  obtain items' where i: "mset items' = mset (message_items (without_text body))"
    "encode_message_body (\<lambda>_. True) qsort (cbor_encoder_init_dynamic (\<lambda>_. True) 8192) body =
       Some (True, dyn_encoder 8192 (cbor_head 5 (length items') @ concat (map (\<lambda>i. entry_bytes (long_entry (length t) i)) items')))"
    "length (concat (map (\<lambda>i. entry_bytes (long_entry (length t) i)) items')) \<le> 8100"
    by (rule long_message_encoded [OF assms(1-7)])
  show ?thesis
    using i(2) long_text_irrelevant [OF assms(4-7)] long_message_unreadable [OF assms(2,8,6,7) i(1,3)]
    by (auto simp: cbor_encoder_data_def cbor_encoder_len_def)
qed

definition example_body :: "bytes \<Rightarrow> plank_message_body_t" where
  "example_body t = \<lparr>msg_type = PLANK_MSG_AREA_POST, msg_author_user = ''al'', msg_author_display = [],
     msg_from_addr = ''al@hub@fsx'', msg_to_addrs = [Some ''bo@hub@fsx''], msg_area_addr = ''gen@hub@fsx'',
     msg_subject = ''hi'', msg_body_format = PLANK_BODY_PLAIN_UTF8, msg_body_text = Some (t @ [0]),
     msg_body_text_len = length t, msg_thread_root_id = replicate 32 0, msg_parent_id = replicate 32 5,
     msg_reply_to = [], msg_attachment_refs = [], msg_retention_class = PLANK_RETENTION_STANDARD,
     msg_visibility = PLANK_VIS_VISIBLE, msg_flags = 0, msg_path = [Some (replicate 16 1)], msg_hop_count = 1\<rparr>"

lemma example_body_ok: "0 \<notin> set t \<Longrightarrow> message_ok (example_body t)"
  by (simp add: example_body_def message_ok_def c_string_def)

lemma example_body_length: "length (cbor_enc (message_item (example_body [72, 105]))) \<le> 3737"
  "length (cbor_enc (message_item (example_body []))) \<le> 3737"
  by code_simp+

lemma example_body_without_text: "without_text (example_body t) = example_body []"
  by (simp add: example_body_def)

theorem long_text_is_lost_witness:
  "\<exists>enc. encode_message_body (\<lambda>_. True) (\<lambda>_. sort_key (\<lambda>e. (length (me_key e), text_bytes (me_key e))))
     (cbor_encoder_init_dynamic (\<lambda>_. True) 8192) (example_body (replicate 9000 65)) = Some (True, enc)"
  using long_text_is_lost [OF is_qsort_sort_key, where body = "example_body (replicate 9000 65)" and t = "replicate 9000 65"
      and depth = 2] example_body_length(2) example_body_ok [of "[]"]
  unfolding example_body_without_text
  by (auto simp: example_body_def)

text \<open>
  C21: A message whose text has a NUL byte inside is decoded into a body whose length says more than its text holds, so
  copying that body reads behind the text.
\<close>

theorem embedded_nul_overreads:
  assumes "0 \<in> set (butlast t)" and "length t < 2 ^ 32" and "2 \<le> depth"
    and "ob_class obj = PLANK_CLASS_MESSAGE"
    and "ob_body_cbor obj = Some (cbor_enc (CMap [(CText (text_bytes ''body_text''), CText t)]))"
    and "ob_body_cbor_len obj = length (cbor_enc (CMap [(CText (text_bytes ''body_text''), CText t)]))"
  shows "\<exists>b. plank_object_decode_message_body depth (\<lambda>_. True) obj = Some (Inr b) \<and>
    plank_message_body_clone (\<lambda>_. True) b = None"
  by (rule text_with_nul [OF assms])

theorem embedded_nul_overreads_witness:
  "\<exists>b. plank_object_decode_message_body 2 (\<lambda>_. True)
     (example_object\<lparr>ob_body_cbor := Some (cbor_enc (CMap [(CText (text_bytes ''body_text''), CText [65, 0, 66])])),
        ob_body_cbor_len := length (cbor_enc (CMap [(CText (text_bytes ''body_text''), CText [65, 0, 66])]))\<rparr>) = Some (Inr b) \<and>
   plank_message_body_clone (\<lambda>_. True) b = None"
  by (rule embedded_nul_overreads [where t = "[65, 0, 66]"]) (simp_all add: example_object_def del: cbor_enc.simps)

end
