(* ===== verification/Plank_Policy.thy ===== *)
theory Plank_Policy
  imports Plank_Message
begin

text \<open>
  The PLANK policy engine, \<^verbatim>\<open>src/plank/plank_policy.c\<close>: the checks a received object has to pass, limits,
  retention and clock tolerance.

  Pointer arguments that may be NULL are options. The settings are read from the store when the policy is
  created; \<open>config key default\<close> stands for \<open>plank_store_config_get_int\<close>. \<open>now\<close> is the result of
  \<open>time (NULL)\<close>, a 64-bit two's complement number. A log message has no effect on the state.
\<close>

section \<open>The policy\<close>

abbreviation PLANK_QUARANTINE_NONE :: u32 where "PLANK_QUARANTINE_NONE \<equiv> 0"
abbreviation PLANK_QUARANTINE_BAD_SIGNATURE :: u32 where "PLANK_QUARANTINE_BAD_SIGNATURE \<equiv> 1"
abbreviation PLANK_QUARANTINE_POLICY_DENY :: u32 where "PLANK_QUARANTINE_POLICY_DENY \<equiv> 2"
abbreviation PLANK_QUARANTINE_SIZE_EXCEEDED :: u32 where "PLANK_QUARANTINE_SIZE_EXCEEDED \<equiv> 3"
abbreviation PLANK_QUARANTINE_HOP_EXCEEDED :: u32 where "PLANK_QUARANTINE_HOP_EXCEEDED \<equiv> 4"
abbreviation PLANK_RETENTION_EPHEMERAL :: u32 where "PLANK_RETENTION_EPHEMERAL \<equiv> 1"
abbreviation PLANK_RETENTION_LONG_TERM :: u32 where "PLANK_RETENTION_LONG_TERM \<equiv> 3"
abbreviation PLANK_RETENTION_ARCHIVE :: u32 where "PLANK_RETENTION_ARCHIVE \<equiv> 4"
abbreviation PLANK_RETENTION_LEGAL_HOLD :: u32 where "PLANK_RETENTION_LEGAL_HOLD \<equiv> 5"
abbreviation PLANK_VIS_HIDDEN :: u32 where "PLANK_VIS_HIDDEN \<equiv> 4"

text \<open>The members for the store and the node's identity are set but not read by any function of the file.\<close>

record plank_policy =
  pol_max_message_bytes :: u32
  pol_max_attachment_bytes :: u32
  pol_max_attachments_per_message :: u32
  pol_max_hop_count :: int
  pol_clock_drift_tolerance_sec :: int
  pol_default_retention_days :: int
  pol_quarantine_auto_reject_days :: int

definition plank_policy_create :: "(nat \<Rightarrow> bool) \<Rightarrow> (string \<Rightarrow> int \<Rightarrow> int) option \<Rightarrow> string + plank_policy" where
  "plank_policy_create mem store =
     (case store of
        None \<Rightarrow> Inl ''NULL store''
      | Some config \<Rightarrow>
          if \<not> mem 552 then Inl ''Failed to allocate policy''
          else Inr \<lparr>pol_max_message_bytes = word_of_int (config ''max_message_bytes'' 65536),
                    pol_max_attachment_bytes = word_of_int (config ''max_attachment_bytes'' 10485760),
                    pol_max_attachments_per_message = word_of_int (config ''max_attachments_per_message'' 10),
                    pol_max_hop_count = config ''max_hop_count'' 16,
                    pol_clock_drift_tolerance_sec = config ''clock_drift_tolerance_sec'' 300,
                    pol_default_retention_days = config ''default_retention_days'' 365,
                    pol_quarantine_auto_reject_days = config ''quarantine_auto_reject_days'' 30\<rparr>)"

record plank_validation_result_t =
  vr_valid :: bool
  vr_should_quarantine :: bool
  vr_quarantine_reason :: u32
  vr_error :: string

definition valid_result :: plank_validation_result_t where
  "valid_result = \<lparr>vr_valid = True, vr_should_quarantine = False,
     vr_quarantine_reason = PLANK_QUARANTINE_NONE, vr_error = []\<rparr>"

section \<open>Validation\<close>

text \<open>
  The result structure is \<open>*result\<close> before the call and after it. With a missing argument only two of its
  members are written.
\<close>

definition bad_arguments :: "plank_validation_result_t \<Rightarrow> bool \<times> plank_validation_result_t" where
  "bad_arguments result = (False, result\<lparr>vr_valid := False, vr_error := ''Invalid arguments''\<rparr>)"

definition plank_policy_validate_object ::
    "(nat \<Rightarrow> bool) \<Rightarrow> ((cbor_map_entry_t \<Rightarrow> cbor_map_entry_t \<Rightarrow> int) \<Rightarrow> cbor_map_entry_t list \<Rightarrow> cbor_map_entry_t list)
     \<Rightarrow> openssl \<Rightarrow> u64 \<Rightarrow> plank_policy option \<Rightarrow> plank_object_t option \<Rightarrow> bytes option
     \<Rightarrow> plank_validation_result_t \<Rightarrow> (bool \<times> plank_validation_result_t) option" where
  "plank_policy_validate_object mem qsort ssl now policy obj signing_key_pub result =
     (case (policy, obj) of
        (Some policy, Some obj) \<Rightarrow>
          (case plank_object_validate obj of
             Some error_buf \<Rightarrow> Some (False, valid_result\<lparr>vr_valid := False, vr_error := error_buf\<rparr>)
           | None \<Rightarrow> do {
               id_ok \<leftarrow> plank_object_verify_id mem qsort ssl obj;
               (if \<not> id_ok
                then Some (False, valid_result\<lparr>vr_valid := False, vr_error := ''Object ID verification failed''\<rparr>)
                else do {
                  sig_ok \<leftarrow> (case signing_key_pub of
                              None \<Rightarrow> Some True
                            | Some pub \<Rightarrow> map_option (\<lambda>r. r = Inr ()) (plank_object_verify mem qsort ssl obj pub));
                  (if \<not> sig_ok
                   then Some (False, valid_result\<lparr>vr_valid := False, vr_should_quarantine := True,
                                vr_quarantine_reason := PLANK_QUARANTINE_BAD_SIGNATURE,
                                vr_error := ''Signature verification failed''\<rparr>)
                   else
                     (let drift = sint (ob_created_at obj - now) in
                      if pol_clock_drift_tolerance_sec policy < drift
                      then Some (False, valid_result\<lparr>vr_valid := False, vr_should_quarantine := True,
                                   vr_quarantine_reason := PLANK_QUARANTINE_POLICY_DENY,
                                   vr_error := ''Timestamp too far in future: '' @ show_int drift @ '' seconds''\<rparr>)
                      else Some (True, valid_result))) }) })
      | _ \<Rightarrow> Some (bad_arguments result))"

definition plank_policy_validate_message_for_area ::
    "plank_policy option \<Rightarrow> plank_object_t option \<Rightarrow> plank_message_body_t option \<Rightarrow> string option
     \<Rightarrow> plank_validation_result_t \<Rightarrow> bool \<times> plank_validation_result_t" where
  "plank_policy_validate_message_for_area policy obj body area_addr result =
     (case (policy, obj, body, area_addr) of
        (Some policy, Some obj, Some body, Some _) \<Rightarrow>
          if unat (pol_max_message_bytes policy) < ob_envelope_cbor_len obj
          then (False, valid_result\<lparr>vr_valid := False, vr_should_quarantine := True,
                  vr_quarantine_reason := PLANK_QUARANTINE_SIZE_EXCEEDED,
                  vr_error := ''Message too large: '' @ show_nat (ob_envelope_cbor_len obj) @ '' > ''
                     @ show_nat (unat (pol_max_message_bytes policy)) @ '' bytes''\<rparr>)
          else if word_of_int (pol_max_hop_count policy) < msg_hop_count body
          then (False, valid_result\<lparr>vr_valid := False, vr_should_quarantine := True,
                  vr_quarantine_reason := PLANK_QUARANTINE_HOP_EXCEEDED,
                  vr_error := ''Hop count exceeded: '' @ show_nat (unat (msg_hop_count body)) @ '' > ''
                     @ show_int (pol_max_hop_count policy)\<rparr>)
          else if unat (pol_max_attachments_per_message policy) < length (msg_attachment_refs body)
          then (False, valid_result\<lparr>vr_valid := False,
                  vr_error := ''Too many attachments: '' @ show_nat (length (msg_attachment_refs body)) @ '' > ''
                     @ show_nat (unat (pol_max_attachments_per_message policy))\<rparr>)
          else (True, valid_result)
      | _ \<Rightarrow> bad_arguments result)"

text \<open>Of an attachment only the announced size is looked at.\<close>

definition plank_policy_validate_attachment ::
    "plank_policy option \<Rightarrow> u64 option \<Rightarrow> plank_validation_result_t \<Rightarrow> bool \<times> plank_validation_result_t" where
  "plank_policy_validate_attachment policy size_bytes result =
     (case (policy, size_bytes) of
        (Some policy, Some att_size) \<Rightarrow>
          if ucast (pol_max_attachment_bytes policy) < att_size
          then (False, valid_result\<lparr>vr_valid := False, vr_should_quarantine := True,
                  vr_quarantine_reason := PLANK_QUARANTINE_SIZE_EXCEEDED,
                  vr_error := ''Attachment too large: '' @ show_nat (unat att_size) @ '' > ''
                     @ show_nat (unat (pol_max_attachment_bytes policy)) @ '' bytes''\<rparr>)
          else (True, valid_result)
      | _ \<Rightarrow> bad_arguments result)"

text \<open>Moderation and subscription objects are accepted whatever they say; \<open>body\<close> is not read.\<close>

definition plank_policy_validate_moderation ::
    "plank_policy option \<Rightarrow> plank_object_t option \<Rightarrow> 'b option \<Rightarrow> plank_validation_result_t \<Rightarrow> bool \<times> plank_validation_result_t" where
  "plank_policy_validate_moderation policy obj body result =
     (if policy = None \<or> obj = None \<or> Option.is_none body then bad_arguments result else (True, valid_result))"

definition plank_policy_validate_subscription ::
    "plank_policy option \<Rightarrow> plank_object_t option \<Rightarrow> 'b option \<Rightarrow> plank_validation_result_t \<Rightarrow> bool \<times> plank_validation_result_t" where
  "plank_policy_validate_subscription policy obj body result =
     (if policy = None \<or> obj = None \<or> Option.is_none body then bad_arguments result else (True, valid_result))"

section \<open>Limits, bans and retention\<close>

definition plank_policy_check_message_size :: "plank_policy option \<Rightarrow> nat \<Rightarrow> bool" where
  "plank_policy_check_message_size policy body_size =
     (case policy of None \<Rightarrow> False | Some p \<Rightarrow> body_size \<le> unat (pol_max_message_bytes p))"

definition plank_policy_check_attachment_size :: "plank_policy option \<Rightarrow> nat \<Rightarrow> bool" where
  "plank_policy_check_attachment_size policy attachment_size =
     (case policy of None \<Rightarrow> False | Some p \<Rightarrow> attachment_size \<le> unat (pol_max_attachment_bytes p))"

definition plank_policy_check_body_format :: "plank_policy option \<Rightarrow> string option \<Rightarrow> u32 \<Rightarrow> bool" where
  "plank_policy_check_body_format policy area_addr format = (policy \<noteq> None \<and> area_addr \<noteq> None)"

definition plank_policy_check_hop_count :: "plank_policy option \<Rightarrow> u32 \<Rightarrow> bool" where
  "plank_policy_check_hop_count policy hop_count =
     (case policy of None \<Rightarrow> False | Some p \<Rightarrow> hop_count \<le> word_of_int (pol_max_hop_count p))"

text \<open>Banning writes a log message; nothing is remembered, and nobody is ever found banned.\<close>

definition plank_policy_is_node_banned :: "plank_policy option \<Rightarrow> string option \<Rightarrow> bool" where
  "plank_policy_is_node_banned policy node_addr = False"

definition plank_policy_is_user_banned :: "plank_policy option \<Rightarrow> string option \<Rightarrow> bool" where
  "plank_policy_is_user_banned policy user_addr = False"

definition plank_policy_ban_node :: "plank_policy option \<Rightarrow> string option \<Rightarrow> bool \<times> plank_policy option" where
  "plank_policy_ban_node policy node_addr = (policy \<noteq> None \<and> node_addr \<noteq> None, policy)"

definition plank_policy_unban_node :: "plank_policy option \<Rightarrow> string option \<Rightarrow> bool \<times> plank_policy option" where
  "plank_policy_unban_node policy node_addr = (policy \<noteq> None \<and> node_addr \<noteq> None, policy)"

definition plank_policy_ban_user :: "plank_policy option \<Rightarrow> string option \<Rightarrow> bool \<times> plank_policy option" where
  "plank_policy_ban_user policy user_addr = (policy \<noteq> None \<and> user_addr \<noteq> None, policy)"

definition plank_policy_unban_user :: "plank_policy option \<Rightarrow> string option \<Rightarrow> bool \<times> plank_policy option" where
  "plank_policy_unban_user policy user_addr = (policy \<noteq> None \<and> user_addr \<noteq> None, policy)"

definition plank_policy_can_post :: "plank_policy option \<Rightarrow> string option \<Rightarrow> string option \<Rightarrow> bool" where
  "plank_policy_can_post policy area_addr from_addr =
     (if policy = None \<or> area_addr = None \<or> from_addr = None then False
      else \<not> plank_policy_is_user_banned policy from_addr)"

definition plank_policy_can_moderate :: "plank_policy option \<Rightarrow> string option \<Rightarrow> string option \<Rightarrow> bool" where
  "plank_policy_can_moderate policy area_addr from_addr =
     (policy \<noteq> None \<and> area_addr \<noteq> None \<and> from_addr \<noteq> None)"

record plank_area_policy_config_t =
  apc_area_addr :: string
  apc_moderation_mode :: u32
  apc_max_message_bytes :: u32
  apc_max_attachment_bytes :: u32
  apc_retention_days :: u32
  apc_duplicate_window_days :: u32
  apc_max_hops :: u32
  apc_quarantine_on_violation :: bool
  apc_allowed_body_formats :: "u16 list"

text \<open>The structure is set to zero first: the list of formats is empty. The buffer for the address has 128 bytes.\<close>

definition plank_policy_get_area_policy :: "plank_policy option \<Rightarrow> string option \<Rightarrow> plank_area_policy_config_t option" where
  "plank_policy_get_area_policy policy area_addr =
     (case (policy, area_addr) of
        (Some p, Some a) \<Rightarrow> Some
          \<lparr>apc_area_addr = take (PLANK_MAX_ADDRESS - 1) a, apc_moderation_mode = 0,
           apc_max_message_bytes = pol_max_message_bytes p,
           apc_max_attachment_bytes = pol_max_attachment_bytes p,
           apc_retention_days = word_of_int (pol_default_retention_days p), apc_duplicate_window_days = 0,
           apc_max_hops = word_of_int (pol_max_hop_count p), apc_quarantine_on_violation = False,
           apc_allowed_body_formats = []\<rparr>
      | _ \<Rightarrow> None)"

definition plank_policy_set_area_policy ::
    "plank_policy option \<Rightarrow> plank_area_policy_config_t option \<Rightarrow> bool \<times> plank_policy option" where
  "plank_policy_set_area_policy policy cfg = (policy \<noteq> None \<and> cfg \<noteq> None, policy)"

text \<open>Applying a moderation event writes a log message; no object changes its visibility.\<close>

definition plank_policy_apply_moderation :: "plank_policy option \<Rightarrow> 'b option \<Rightarrow> bool \<times> plank_policy option" where
  "plank_policy_apply_moderation policy mod_body = (policy \<noteq> None \<and> \<not> Option.is_none mod_body, policy)"

definition plank_policy_is_tombstoned :: "plank_policy option \<Rightarrow> bytes option \<Rightarrow> bool" where
  "plank_policy_is_tombstoned policy object_id = False"

definition plank_policy_is_thread_locked :: "plank_policy option \<Rightarrow> bytes option \<Rightarrow> bool" where
  "plank_policy_is_thread_locked policy thread_root_id = False"

definition plank_policy_should_quarantine :: "plank_policy option \<Rightarrow> string option \<Rightarrow> bool" where
  "plank_policy_should_quarantine policy area_addr = True"

definition plank_policy_get_visibility :: "plank_policy option \<Rightarrow> bytes option \<Rightarrow> u32" where
  "plank_policy_get_visibility policy object_id =
     (if policy = None \<or> object_id = None then PLANK_VIS_HIDDEN else PLANK_VIS_VISIBLE)"

definition plank_policy_calc_retention :: "plank_policy option \<Rightarrow> string option \<Rightarrow> u32 \<Rightarrow> u32" where
  "plank_policy_calc_retention policy area_addr requested =
     (if policy = None then PLANK_RETENTION_STANDARD else requested)"

text \<open>\<open>days * 86400\<close> and \<open>days * 2\<close> are computed in \<open>int\<close>.\<close>

definition plank_policy_should_prune :: "u64 \<Rightarrow> plank_policy option \<Rightarrow> bytes option \<Rightarrow> u32 \<Rightarrow> u64 \<Rightarrow> bool" where
  "plank_policy_should_prune now policy object_id retention created_at =
     (case (policy, object_id) of
        (Some p, Some _) \<Rightarrow>
          if retention = PLANK_RETENTION_ARCHIVE \<or> retention = PLANK_RETENTION_LEGAL_HOLD then False
          else
            (let days = (if retention = PLANK_RETENTION_EPHEMERAL then 7
                         else if retention = PLANK_RETENTION_LONG_TERM then c_int (pol_default_retention_days p * 2)
                         else pol_default_retention_days p);
                 age = sint (now - created_at)
             in c_int (days * 86400) < age)
      | _ \<Rightarrow> False)"

definition plank_policy_check_timestamp :: "u64 \<Rightarrow> plank_policy option \<Rightarrow> u64 \<Rightarrow> bool" where
  "plank_policy_check_timestamp now policy timestamp =
     (case policy of
        None \<Rightarrow> False
      | Some p \<Rightarrow>
          (let drift = timestamp - now;
               drift = (if sint drift < 0 then - drift else drift)
           in sint drift \<le> pol_clock_drift_tolerance_sec p))"

definition plank_policy_get_clock_tolerance :: "plank_policy option \<Rightarrow> int" where
  "plank_policy_get_clock_tolerance policy =
     (case policy of Some p \<Rightarrow> pol_clock_drift_tolerance_sec p | None \<Rightarrow> 300)"

definition plank_policy_set_clock_tolerance :: "plank_policy option \<Rightarrow> int \<Rightarrow> plank_policy option" where
  "plank_policy_set_clock_tolerance policy seconds = map_option (\<lambda>p. p\<lparr>pol_clock_drift_tolerance_sec := seconds\<rparr>) policy"

definition plank_policy_get_quarantine_auto_reject_days :: "plank_policy option \<Rightarrow> int" where
  "plank_policy_get_quarantine_auto_reject_days policy =
     (case policy of Some p \<Rightarrow> pol_quarantine_auto_reject_days p | None \<Rightarrow> 30)"

definition plank_policy_link_can_send :: "plank_policy option \<Rightarrow> int \<Rightarrow> string option \<Rightarrow> bool" where
  "plank_policy_link_can_send policy link_id area_addr = (policy \<noteq> None \<and> area_addr \<noteq> None)"

definition plank_policy_link_can_receive :: "plank_policy option \<Rightarrow> int \<Rightarrow> string option \<Rightarrow> bool" where
  "plank_policy_link_can_receive policy link_id area_addr = (policy \<noteq> None \<and> area_addr \<noteq> None)"

section \<open>Messages on their way\<close>

lemma accepted_when_checked:
  assumes "plank_object_validate obj = None" "plank_object_verify_id mem qsort ssl obj = Some True"
    and "plank_object_verify mem qsort ssl obj pub = Some (Inr ())"
    and "sint (ob_created_at obj - now) \<le> pol_clock_drift_tolerance_sec policy"
  shows "plank_policy_validate_object mem qsort ssl now (Some policy) (Some obj) (Some pub) result = Some (True, valid_result)"
  using assms by (simp add: plank_policy_validate_object_def Let_def)

text \<open>
  C3: A message gets through: when a node creates a message with its private key, the envelope decodes at the receiver to the
  very object that was sent, the receiver's policy accepts it with the public key of the pair as soon as its clock is not
  behind by more than the tolerance. The body decodes to \<open>received_body body\<close>: what was written, with no reply address and no
  attachments, and with no area address unless the message is an area post. A message that has none of the three to lose
  is read back as it was written.
  The body has to fit the fixed envelope buffer; OpenSSL has to sign, and to verify what it has signed.
\<close>

theorem sent_message_is_accepted:
  assumes "is_qsort qsort" and "message_ok body" and "length (cbor_enc (message_item body)) \<le> 3737"
    and "3 \<le> depth" and "length origin_node_id = PLANK_NODE_ID_SIZE"
    and "length origin_node_addr < PLANK_MAX_ADDRESS" "c_string origin_node_addr" "origin_node_addr \<noteq> []" and "now \<noteq> 0"
    and "openssl_available ssl (take 32 priv)" and "ed25519_keypair ssl (take 32 priv) (take 32 pub)"
    and "sint (now - later) \<le> pol_clock_drift_tolerance_sec policy"
  shows "\<exists>sent env.
    plank_object_create_message (\<lambda>_. True) qsort ssl now origin_node_id origin_node_addr body priv = Some (Inr sent) \<and>
    ob_envelope_cbor sent = Some env \<and>
    plank_object_decode depth (\<lambda>_. True) env = Some (Inr sent) \<and>
    plank_policy_validate_object (\<lambda>_. True) qsort ssl later (Some policy) (Some sent) (Some pub) result =
      Some (True, valid_result) \<and>
    plank_object_decode_message_body depth (\<lambda>_. True) sent = Some (Inr (received_body body)) \<and>
    (msg_reply_to body = [] \<and> msg_attachment_refs body = [] \<and>
       (msg_type body = PLANK_MSG_AREA_POST \<or> msg_area_addr body = []) \<longrightarrow> received_body body = body)"
proof -
  have whole: "received_body body = body"
    if "msg_reply_to body = []" "msg_attachment_refs body = []"
      "msg_type body = PLANK_MSG_AREA_POST \<or> msg_area_addr body = []"
    using that by (intro plank_message_body_t.equality) (auto simp: received_body_def)
  obtain sent env where s:
    "plank_object_create_message (\<lambda>_. True) qsort ssl now origin_node_id origin_node_addr body priv = Some (Inr sent)"
    "ob_envelope_cbor sent = Some env" "plank_object_decode depth (\<lambda>_. True) env = Some (Inr sent)"
    "plank_object_validate sent = None" "plank_object_verify_id (\<lambda>_. True) qsort ssl sent = Some True"
    "plank_object_verify (\<lambda>_. True) qsort ssl sent pub = Some (Inr ())"
    "plank_object_decode_message_body depth (\<lambda>_. True) sent = Some (Inr (received_body body))"
    "ob_created_at sent = now"
    by (rule create_message_ok [OF assms(1-11)])
  then show ?thesis using accepted_when_checked assms(12) whole by blast
qed

text \<open>A signature scheme, a key and the default settings to apply it to.\<close>

definition example_ssl :: openssl where
  "example_ssl = \<lparr>evp_digest_sign = (\<lambda>seed msg. Some (replicate 64 (of_nat (length msg)))),
     evp_digest_verify = (\<lambda>pub msg sig. sig = replicate 64 (of_nat (length msg))),
     evp_sha256 = (\<lambda>data. Some (replicate 32 (of_nat (length data))))\<rparr>"

definition example_policy :: plank_policy where
  "example_policy = \<lparr>pol_max_message_bytes = 65536, pol_max_attachment_bytes = 10485760,
     pol_max_attachments_per_message = 10, pol_max_hop_count = 16, pol_clock_drift_tolerance_sec = 300,
     pol_default_retention_days = 365, pol_quarantine_auto_reject_days = 30\<rparr>"

theorem sent_message_is_accepted_witness:
  "\<exists>sent env.
    plank_object_create_message (\<lambda>_. True) (\<lambda>_. sort_key (\<lambda>e. (length (me_key e), text_bytes (me_key e)))) example_ssl
      1700000000 (replicate 16 7) ''hub@fsx'' (example_body [72, 105]) (replicate 64 2) = Some (Inr sent) \<and>
    plank_object_decode 3 (\<lambda>_. True) env = Some (Inr sent) \<and>
    plank_policy_validate_object (\<lambda>_. True) (\<lambda>_. sort_key (\<lambda>e. (length (me_key e), text_bytes (me_key e)))) example_ssl
      1699999900 (Some example_policy) (Some sent) (Some (replicate 32 2)) valid_result = Some (True, valid_result) \<and>
    plank_object_decode_message_body 3 (\<lambda>_. True) sent = Some (Inr (example_body [72, 105]))"
proof -
  have "sint ((1700000000 :: u64) - 1699999900) \<le> pol_clock_drift_tolerance_sec example_policy"
    by (simp add: example_policy_def)
  moreover have "openssl_available example_ssl (take 32 (replicate 64 2))"
    "ed25519_keypair example_ssl (take 32 (replicate 64 2)) (take 32 (replicate 32 2))"
    by (simp_all add: openssl_available_def ed25519_keypair_def example_ssl_def)
  moreover have "c_string ''hub@fsx''" by (simp add: c_string_def)
  moreover have "message_ok (example_body [72, 105])" by (rule example_body_ok) simp
  moreover have "msg_reply_to (example_body [72, 105]) = []" "msg_attachment_refs (example_body [72, 105]) = []"
    "msg_type (example_body [72, 105]) = PLANK_MSG_AREA_POST \<or> msg_area_addr (example_body [72, 105]) = []"
    by (simp_all add: example_body_def)
  ultimately show ?thesis
    using sent_message_is_accepted [OF is_qsort_sort_key, where body = "example_body [72, 105]" and depth = 3
        and origin_node_id = "replicate 16 7" and origin_node_addr = "''hub@fsx''" and now = 1700000000
        and later = 1699999900 and policy = example_policy and ssl = example_ssl
        and priv = "replicate 64 2" and pub = "replicate 32 2" and result = valid_result] example_body_length(1)
    by fastforce
qed

end
