(* ===== verification/Bucc_Value.thy ===== *)
theory Bucc_Value
  imports Mutineer_Prelude
begin

text \<open>
  The runtime values of the Buccaneer language, \<^verbatim>\<open>src/buccaneer/value.c\<close> and
  \<^verbatim>\<open>include/bucc_value.h\<close>: strings, arrays, maps and errors on a reference-counted heap.

  \<^item> The heap is a list of objects; an address is an index, a freed object is \<^term>\<open>None\<close>, and
    addresses are not reused. Reading, writing or freeing a freed object, or one of another kind, is
    undefined behaviour and makes the operation \<^term>\<open>None\<close>. A pointer is an optional address.
  \<^item> Reference counts are 32-bit words that wrap.
  \<^item> The heap carries the outcome of every allocation (\<open>h_mem n\<close> says whether the \<open>n\<close>-th call of
    \<open>malloc\<close> succeeds) and the number of stack frames available to the recursive operations
    (\<open>h_stack\<close>); running out of stack is undefined behaviour as well.
  \<^item> A \<open>double\<close> is its 64-bit pattern; the operations take its arithmetic as a parameter of type
    \<^typ>\<open>float_ops\<close>.
\<close>

section \<open>Values and objects\<close>

type_synonym addr = nat
type_synonym ptr = "addr option"

record bucc_date_t =
  d_year :: "16 word"
  d_month :: u8
  d_day :: u8

record bucc_datetime_t =
  dt_year :: "16 word"
  dt_month :: u8
  dt_day :: u8
  dt_hour :: u8
  dt_minute :: u8
  dt_second :: u8

datatype bucc_value =
    VNull
  | VBool bool
  | VI64 i64
  | VF64 f64
  | VString ptr
  | VDate bucc_date_t
  | VDatetime bucc_datetime_t
  | VArray ptr
  | VMap ptr
  | VError ptr

record bucc_string_t =
  s_data :: bytes
  s_refcount :: u32
  s_hash :: u32

record bucc_array_t =
  a_items :: "bucc_value list"
  a_cap :: nat
  a_refcount :: u32

text \<open>
  A map entry owns its value cell exclusively, so the cell is part of the entry; \<^term>\<open>None\<close> is a NULL
  cell.
\<close>

record bucc_map_t =
  m_entries :: "(addr \<times> bucc_value option) list"
  m_cap :: nat
  m_refcount :: u32

record bucc_error_t =
  e_message :: "bytes option"
  e_code :: "bytes option"
  e_line :: "32 word"
  e_refcount :: u32

datatype hobj =
    HString bucc_string_t
  | HArray bucc_array_t
  | HMap bucc_map_t
  | HError bucc_error_t

record heap =
  h_objs :: "hobj option list"
  h_mem :: "nat \<Rightarrow> bool"
  h_allocs :: nat
  h_stack :: nat

section \<open>Heap access\<close>

definition get_string :: "heap \<Rightarrow> addr \<Rightarrow> bucc_string_t option" where
  "get_string h a = (case arr_get (h_objs h) a of Some (Some (HString s)) \<Rightarrow> Some s | _ \<Rightarrow> None)"

definition get_array :: "heap \<Rightarrow> addr \<Rightarrow> bucc_array_t option" where
  "get_array h a = (case arr_get (h_objs h) a of Some (Some (HArray x)) \<Rightarrow> Some x | _ \<Rightarrow> None)"

definition get_map :: "heap \<Rightarrow> addr \<Rightarrow> bucc_map_t option" where
  "get_map h a = (case arr_get (h_objs h) a of Some (Some (HMap x)) \<Rightarrow> Some x | _ \<Rightarrow> None)"

definition get_error :: "heap \<Rightarrow> addr \<Rightarrow> bucc_error_t option" where
  "get_error h a = (case arr_get (h_objs h) a of Some (Some (HError x)) \<Rightarrow> Some x | _ \<Rightarrow> None)"

definition put_obj :: "heap \<Rightarrow> addr \<Rightarrow> hobj \<Rightarrow> heap" where
  "put_obj h a x = h\<lparr>h_objs := (h_objs h)[a := Some x]\<rparr>"

definition free_obj :: "heap \<Rightarrow> addr \<Rightarrow> heap option" where
  "free_obj h a =
     (case arr_get (h_objs h) a of Some (Some _) \<Rightarrow> Some (h\<lparr>h_objs := (h_objs h)[a := None]\<rparr>) | _ \<Rightarrow> None)"

text \<open>One call of the allocator; the object it makes room for is added when it is complete.\<close>

definition malloc_ok :: "heap \<Rightarrow> bool \<times> heap" where
  "malloc_ok h = (h_mem h (h_allocs h), h\<lparr>h_allocs := h_allocs h + 1\<rparr>)"

definition new_obj :: "heap \<Rightarrow> hobj \<Rightarrow> ptr \<times> heap" where
  "new_obj h x = (Some (length (h_objs h)), h\<lparr>h_objs := h_objs h @ [Some x]\<rparr>)"

definition cstr_bytes :: "string \<Rightarrow> bytes" where
  "cstr_bytes s = map of_char s"

section \<open>Strings\<close>

definition hash_bytes :: "bytes \<Rightarrow> u32" where
  "hash_bytes data = foldl (\<lambda>hash b. (hash XOR ucast b) * 16777619) 2166136261 data"

definition bucc_string_new :: "heap \<Rightarrow> bytes \<Rightarrow> ptr \<times> heap" where
  "bucc_string_new h data =
     (let (ok, h) = malloc_ok h in
      if \<not> ok then (None, h)
      else
        (let (ok, h) = malloc_ok h in
         if \<not> ok then (None, h)
         else new_obj h (HString \<lparr>s_data = data, s_refcount = 1, s_hash = hash_bytes data\<rparr>)))"

text \<open>A C string argument is the bytes before its terminator, or \<^term>\<open>None\<close> for NULL.\<close>

definition bucc_string_from_cstr :: "heap \<Rightarrow> bytes option \<Rightarrow> ptr \<times> heap" where
  "bucc_string_from_cstr h cstr = bucc_string_new h (case cstr of None \<Rightarrow> [] | Some b \<Rightarrow> b)"

definition bucc_string_retain :: "heap \<Rightarrow> ptr \<Rightarrow> heap option" where
  "bucc_string_retain h p =
     (case p of
        None \<Rightarrow> Some h
      | Some a \<Rightarrow> do { s \<leftarrow> get_string h a; Some (put_obj h a (HString (s\<lparr>s_refcount := s_refcount s + 1\<rparr>))) })"

definition bucc_string_release :: "heap \<Rightarrow> ptr \<Rightarrow> heap option" where
  "bucc_string_release h p =
     (case p of
        None \<Rightarrow> Some h
      | Some a \<Rightarrow> do {
          s \<leftarrow> get_string h a;
          let h = put_obj h a (HString (s\<lparr>s_refcount := s_refcount s - 1\<rparr>));
          if s_refcount s - 1 = 0 then free_obj h a else Some h })"

definition bucc_string_concat :: "heap \<Rightarrow> ptr \<Rightarrow> ptr \<Rightarrow> (ptr \<times> heap) option" where
  "bucc_string_concat h a b =
     (case (a, b) of
        (None, None) \<Rightarrow> Some (bucc_string_new h [])
      | (None, Some _) \<Rightarrow> do { h \<leftarrow> bucc_string_retain h b; Some (b, h) }
      | (Some _, None) \<Rightarrow> do { h \<leftarrow> bucc_string_retain h a; Some (a, h) }
      | (Some x, Some y) \<Rightarrow> do {
          s \<leftarrow> get_string h x;
          t \<leftarrow> get_string h y;
          Some (bucc_string_new h (s_data s @ s_data t)) })"

definition string_cmp :: "bytes \<Rightarrow> bytes \<Rightarrow> int" where
  "string_cmp a b =
     (let min_len = (if length a < length b then length a else length b);
          cmp = mem_cmp (take min_len a) (take min_len b)
      in if cmp \<noteq> 0 then cmp else if length a < length b then -1 else if length b < length a then 1 else 0)"

definition bucc_string_cmp :: "heap \<Rightarrow> ptr \<Rightarrow> ptr \<Rightarrow> int option" where
  "bucc_string_cmp h a b =
     (case (a, b) of
        (None, None) \<Rightarrow> Some 0
      | (None, Some _) \<Rightarrow> Some (-1)
      | (Some _, None) \<Rightarrow> Some 1
      | (Some x, Some y) \<Rightarrow> do { s \<leftarrow> get_string h x; t \<leftarrow> get_string h y; Some (string_cmp (s_data s) (s_data t)) })"

definition bucc_string_hash :: "heap \<Rightarrow> ptr \<Rightarrow> u32 option" where
  "bucc_string_hash h p = (case p of None \<Rightarrow> Some 0 | Some a \<Rightarrow> map_option s_hash (get_string h a))"

section \<open>Errors\<close>

text \<open>\<open>strdup\<close> allocates the copy; when it fails the field is NULL.\<close>

definition dup_cstr :: "heap \<Rightarrow> bytes option \<Rightarrow> bytes option \<times> heap" where
  "dup_cstr h s =
     (case s of
        None \<Rightarrow> (None, h)
      | Some b \<Rightarrow> (let (ok, h) = malloc_ok h in (if ok then Some b else None, h)))"

definition bucc_error_new :: "heap \<Rightarrow> bytes option \<Rightarrow> bytes option \<Rightarrow> 32 word \<Rightarrow> ptr \<times> heap" where
  "bucc_error_new h message code_str line =
     (let (ok, h) = malloc_ok h in
      if \<not> ok then (None, h)
      else
        (let (m, h) = dup_cstr h message; (c, h) = dup_cstr h code_str
         in new_obj h (HError \<lparr>e_message = m, e_code = c, e_line = line, e_refcount = 1\<rparr>)))"

definition bucc_error_retain :: "heap \<Rightarrow> ptr \<Rightarrow> heap option" where
  "bucc_error_retain h p =
     (case p of
        None \<Rightarrow> Some h
      | Some a \<Rightarrow> do { e \<leftarrow> get_error h a; Some (put_obj h a (HError (e\<lparr>e_refcount := e_refcount e + 1\<rparr>))) })"

definition bucc_error_release :: "heap \<Rightarrow> ptr \<Rightarrow> heap option" where
  "bucc_error_release h p =
     (case p of
        None \<Rightarrow> Some h
      | Some a \<Rightarrow> do {
          e \<leftarrow> get_error h a;
          let h = put_obj h a (HError (e\<lparr>e_refcount := e_refcount e - 1\<rparr>));
          if e_refcount e - 1 = 0 then free_obj h a else Some h })"

section \<open>Reference counts of values\<close>

definition bucc_array_retain :: "heap \<Rightarrow> ptr \<Rightarrow> heap option" where
  "bucc_array_retain h p =
     (case p of
        None \<Rightarrow> Some h
      | Some a \<Rightarrow> do { x \<leftarrow> get_array h a; Some (put_obj h a (HArray (x\<lparr>a_refcount := a_refcount x + 1\<rparr>))) })"

definition bucc_map_retain :: "heap \<Rightarrow> ptr \<Rightarrow> heap option" where
  "bucc_map_retain h p =
     (case p of
        None \<Rightarrow> Some h
      | Some a \<Rightarrow> do { x \<leftarrow> get_map h a; Some (put_obj h a (HMap (x\<lparr>m_refcount := m_refcount x + 1\<rparr>))) })"

definition bucc_value_retain :: "heap \<Rightarrow> bucc_value \<Rightarrow> heap option" where
  "bucc_value_retain h v =
     (case v of
        VString p \<Rightarrow> bucc_string_retain h p
      | VArray p \<Rightarrow> bucc_array_retain h p
      | VMap p \<Rightarrow> bucc_map_retain h p
      | VError p \<Rightarrow> bucc_error_retain h p
      | _ \<Rightarrow> Some h)"

text \<open>
  \<open>bucc_value_release\<close>, \<open>bucc_array_release\<close> and \<open>bucc_map_release\<close> call each other; the first
  argument is the number of stack frames left for containers. The children are those of the container
  when its count reaches zero: releasing them changes reference counts and frees objects, but never
  the contents of a container.
\<close>

fun release_within :: "nat \<Rightarrow> heap \<Rightarrow> bucc_value \<Rightarrow> heap option" where
  "release_within d h (VString p) = bucc_string_release h p"
| "release_within d h (VError p) = bucc_error_release h p"
| "release_within d h (VArray None) = Some h"
| "release_within 0 h (VArray (Some a)) = None"
| "release_within (Suc d) h (VArray (Some a)) = do {
     x \<leftarrow> get_array h a;
     let h = put_obj h a (HArray (x\<lparr>a_refcount := a_refcount x - 1\<rparr>));
     if a_refcount x - 1 = 0
     then do { h \<leftarrow> fold_opt (release_within d) h (a_items x); free_obj h a }
     else Some h }"
| "release_within d h (VMap None) = Some h"
| "release_within 0 h (VMap (Some a)) = None"
| "release_within (Suc d) h (VMap (Some a)) = do {
     x \<leftarrow> get_map h a;
     let h = put_obj h a (HMap (x\<lparr>m_refcount := m_refcount x - 1\<rparr>));
     if m_refcount x - 1 = 0
     then do {
       h \<leftarrow> fold_opt (\<lambda>h (k, cell). do {
              h \<leftarrow> bucc_string_release h (Some k);
              (case cell of None \<Rightarrow> Some h | Some v \<Rightarrow> release_within d h v) }) h (m_entries x);
       free_obj h a }
     else Some h }"
| "release_within d h _ = Some h"

definition bucc_value_release :: "heap \<Rightarrow> bucc_value \<Rightarrow> heap option" where
  "bucc_value_release h v = release_within (h_stack h) h v"

definition bucc_array_release :: "heap \<Rightarrow> ptr \<Rightarrow> heap option" where
  "bucc_array_release h p = bucc_value_release h (VArray p)"

definition bucc_map_release :: "heap \<Rightarrow> ptr \<Rightarrow> heap option" where
  "bucc_map_release h p = bucc_value_release h (VMap p)"

definition bucc_value_copy :: "heap \<Rightarrow> bucc_value \<Rightarrow> (bucc_value \<times> heap) option" where
  "bucc_value_copy h v = do { h \<leftarrow> bucc_value_retain h v; Some (v, h) }"

section \<open>Arrays\<close>

definition bucc_array_new :: "heap \<Rightarrow> nat \<Rightarrow> ptr \<times> heap" where
  "bucc_array_new h initial_cap =
     (let (ok, h) = malloc_ok h in
      if \<not> ok then (None, h)
      else
        (let initial_cap = (if initial_cap = 0 then 8 else initial_cap); (ok, h) = malloc_ok h in
         if \<not> ok then (None, h)
         else new_obj h (HArray \<lparr>a_items = [], a_cap = initial_cap, a_refcount = 1\<rparr>)))"

definition array_grow :: "heap \<Rightarrow> addr \<Rightarrow> (bool \<times> heap) option" where
  "array_grow h a = do {
     x \<leftarrow> get_array h a;
     let (ok, h) = malloc_ok h;
     if \<not> ok then Some (False, h)
     else Some (True, put_obj h a (HArray (x\<lparr>a_cap := a_cap x * 2\<rparr>))) }"

definition bucc_array_push :: "heap \<Rightarrow> ptr \<Rightarrow> bucc_value \<Rightarrow> (bool \<times> heap) option" where
  "bucc_array_push h p val =
     (case p of
        None \<Rightarrow> Some (False, h)
      | Some a \<Rightarrow> do {
          x \<leftarrow> get_array h a;
          (ok, h) \<leftarrow> (if a_cap x \<le> length (a_items x) then array_grow h a else Some (True, h));
          if \<not> ok then Some (False, h)
          else do {
            h \<leftarrow> bucc_value_retain h val;
            x \<leftarrow> get_array h a;
            Some (True, put_obj h a (HArray (x\<lparr>a_items := a_items x @ [val]\<rparr>))) } })"

definition bucc_array_pop :: "heap \<Rightarrow> ptr \<Rightarrow> (bucc_value \<times> heap) option" where
  "bucc_array_pop h p =
     (case p of
        None \<Rightarrow> Some (VNull, h)
      | Some a \<Rightarrow> do {
          x \<leftarrow> get_array h a;
          if a_items x = [] then Some (VNull, h)
          else Some (last (a_items x), put_obj h a (HArray (x\<lparr>a_items := butlast (a_items x)\<rparr>))) })"

definition bucc_array_get :: "heap \<Rightarrow> ptr \<Rightarrow> nat \<Rightarrow> (bucc_value \<times> heap) option" where
  "bucc_array_get h p idx =
     (case p of
        None \<Rightarrow> Some (VNull, h)
      | Some a \<Rightarrow> do {
          x \<leftarrow> get_array h a;
          if length (a_items x) \<le> idx then Some (VNull, h)
          else do { h \<leftarrow> bucc_value_retain h (a_items x ! idx); Some (a_items x ! idx, h) } })"

definition bucc_array_set :: "heap \<Rightarrow> ptr \<Rightarrow> nat \<Rightarrow> bucc_value \<Rightarrow> (bool \<times> heap) option" where
  "bucc_array_set h p idx val =
     (case p of
        None \<Rightarrow> Some (False, h)
      | Some a \<Rightarrow> do {
          x \<leftarrow> get_array h a;
          if length (a_items x) \<le> idx then Some (False, h)
          else do {
            h \<leftarrow> bucc_value_release h (a_items x ! idx);
            h \<leftarrow> bucc_value_retain h val;
            x \<leftarrow> get_array h a;
            Some (True, put_obj h a (HArray (x\<lparr>a_items := (a_items x)[idx := val]\<rparr>))) } })"

section \<open>Maps\<close>

definition bucc_map_new :: "heap \<Rightarrow> nat \<Rightarrow> ptr \<times> heap" where
  "bucc_map_new h initial_cap =
     (let (ok, h) = malloc_ok h in
      if \<not> ok then (None, h)
      else
        (let initial_cap = (if initial_cap = 0 then 8 else initial_cap); (ok, h) = malloc_ok h in
         if \<not> ok then (None, h)
         else new_obj h (HMap \<lparr>m_entries = [], m_cap = initial_cap, m_refcount = 1\<rparr>)))"

text \<open>The outer option is undefined behaviour, the inner one the result \<open>-1\<close>.\<close>

fun find_entry :: "heap \<Rightarrow> (addr \<times> bucc_value option) list \<Rightarrow> bucc_string_t \<Rightarrow> nat \<Rightarrow> nat option option" where
  "find_entry h [] key i = Some None"
| "find_entry h ((k, _) # es) key i = do {
     s \<leftarrow> get_string h k;
     if s_hash s = s_hash key \<and> string_cmp (s_data s) (s_data key) = 0 then Some (Some i)
     else find_entry h es key (Suc i) }"

definition map_find :: "heap \<Rightarrow> ptr \<Rightarrow> ptr \<Rightarrow> nat option option" where
  "map_find h m key =
     (case (m, key) of
        (Some a, Some k) \<Rightarrow> do { x \<leftarrow> get_map h a; s \<leftarrow> get_string h k; find_entry h (m_entries x) s 0 }
      | _ \<Rightarrow> Some None)"

definition bucc_map_get :: "heap \<Rightarrow> ptr \<Rightarrow> ptr \<Rightarrow> (bucc_value \<times> heap) option" where
  "bucc_map_get h m key = do {
     idx \<leftarrow> map_find h m key;
     (case (m, idx) of
        (Some a, Some i) \<Rightarrow> do {
          x \<leftarrow> get_map h a;
          (_, cell) \<leftarrow> arr_get (m_entries x) i;
          (case cell of
             None \<Rightarrow> Some (VNull, h)
           | Some v \<Rightarrow> do { h \<leftarrow> bucc_value_retain h v; Some (v, h) }) }
      | _ \<Rightarrow> Some (VNull, h)) }"

definition map_put_entry :: "heap \<Rightarrow> addr \<Rightarrow> nat \<Rightarrow> bucc_value option \<Rightarrow> heap option" where
  "map_put_entry h a i cell = do {
     x \<leftarrow> get_map h a;
     (k, _) \<leftarrow> arr_get (m_entries x) i;
     Some (put_obj h a (HMap (x\<lparr>m_entries := (m_entries x)[i := (k, cell)]\<rparr>))) }"

definition bucc_map_set :: "heap \<Rightarrow> ptr \<Rightarrow> ptr \<Rightarrow> bucc_value \<Rightarrow> (bool \<times> heap) option" where
  "bucc_map_set h m key val =
     (case (m, key) of
        (Some a, Some k) \<Rightarrow> do {
          idx \<leftarrow> map_find h m key;
          x \<leftarrow> get_map h a;
          (case idx of
             Some i \<Rightarrow> do {
               (_, cell) \<leftarrow> arr_get (m_entries x) i;
               (ok, h) \<leftarrow> (case cell of
                            Some v \<Rightarrow> do { h \<leftarrow> bucc_value_release h v; Some (True, h) }
                          | None \<Rightarrow> Some (malloc_ok h));
               if \<not> ok then Some (False, h)
               else do {
                 h \<leftarrow> bucc_value_retain h val;
                 h \<leftarrow> map_put_entry h a i (Some val);
                 Some (True, h) } }
           | None \<Rightarrow> do {
               let full = (m_cap x \<le> length (m_entries x));
               let (ok, h) = (if full then malloc_ok h else (True, h));
               if \<not> ok then Some (False, h)
               else do {
                 let h = (if full then put_obj h a (HMap (x\<lparr>m_cap := m_cap x * 2\<rparr>)) else h);
                 h \<leftarrow> bucc_string_retain h key;
                 h \<leftarrow> bucc_value_retain h val;
                 let (ok, h) = malloc_ok h;
                 if \<not> ok then do { h \<leftarrow> bucc_string_release h key; Some (False, h) }
                 else do {
                   x \<leftarrow> get_map h a;
                   Some (True, put_obj h a (HMap (x\<lparr>m_entries := m_entries x @ [(k, Some val)]\<rparr>))) } } }) }
      | _ \<Rightarrow> Some (False, h))"

definition bucc_map_has :: "heap \<Rightarrow> ptr \<Rightarrow> ptr \<Rightarrow> bool option" where
  "bucc_map_has h m key = do { idx \<leftarrow> map_find h m key; Some (idx \<noteq> None) }"

text \<open>The \<open>memmove\<close> closes the gap the deleted entry leaves.\<close>

definition bucc_map_delete :: "heap \<Rightarrow> ptr \<Rightarrow> ptr \<Rightarrow> (bool \<times> heap) option" where
  "bucc_map_delete h m key = do {
     idx \<leftarrow> map_find h m key;
     (case (m, idx) of
        (Some a, Some i) \<Rightarrow> do {
          x \<leftarrow> get_map h a;
          (k, cell) \<leftarrow> arr_get (m_entries x) i;
          h \<leftarrow> bucc_string_release h (Some k);
          h \<leftarrow> (case cell of None \<Rightarrow> Some h | Some v \<Rightarrow> bucc_value_release h v);
          x \<leftarrow> get_map h a;
          Some (True, put_obj h a (HMap (x\<lparr>m_entries := take i (m_entries x) @ drop (Suc i) (m_entries x)\<rparr>))) }
      | _ \<Rightarrow> Some (False, h)) }"

definition bucc_map_keys :: "heap \<Rightarrow> ptr \<Rightarrow> (ptr \<times> heap) option" where
  "bucc_map_keys h m =
     (case m of
        None \<Rightarrow> Some (None, h)
      | Some a \<Rightarrow> do {
          x \<leftarrow> get_map h a;
          let (keys, h) = bucc_array_new h (if m_entries x = [] then 1 else length (m_entries x));
          if keys = None then Some (None, h)
          else do {
            h \<leftarrow> fold_opt (\<lambda>h (k, _). do {
                   h \<leftarrow> bucc_string_retain h (Some k);
                   (_, h) \<leftarrow> bucc_array_push h keys (VString (Some k));
                   Some h }) h (m_entries x);
            Some (keys, h) } })"

section \<open>Tests and comparisons\<close>

primrec kind_number :: "bucc_value \<Rightarrow> int" where
  "kind_number VNull = 0"
| "kind_number (VBool _) = 1"
| "kind_number (VI64 _) = 2"
| "kind_number (VF64 _) = 3"
| "kind_number (VString _) = 4"
| "kind_number (VDate _) = 5"
| "kind_number (VDatetime _) = 6"
| "kind_number (VArray _) = 7"
| "kind_number (VMap _) = 8"
| "kind_number (VError _) = 9"

definition bucc_value_kind_name :: "bucc_value \<Rightarrow> string" where
  "bucc_value_kind_name v =
     (case v of
        VNull \<Rightarrow> ''NULL'' | VBool _ \<Rightarrow> ''BOOLEAN'' | VI64 _ \<Rightarrow> ''INTEGER'' | VF64 _ \<Rightarrow> ''DOUBLE''
      | VString _ \<Rightarrow> ''STRING'' | VDate _ \<Rightarrow> ''DATE'' | VDatetime _ \<Rightarrow> ''DATETIME''
      | VArray _ \<Rightarrow> ''ARRAY'' | VMap _ \<Rightarrow> ''MAP'' | VError _ \<Rightarrow> ''ERROR'')"

definition BUCC_IS_NUMERIC :: "bucc_value \<Rightarrow> bool" where
  "BUCC_IS_NUMERIC v = (case v of VI64 _ \<Rightarrow> True | VF64 _ \<Rightarrow> True | _ \<Rightarrow> False)"

definition num_f64 :: "float_ops \<Rightarrow> bucc_value \<Rightarrow> f64" where
  "num_f64 fo v = (case v of VI64 i \<Rightarrow> f_of_i64 fo i | VF64 d \<Rightarrow> d | _ \<Rightarrow> f_zero fo)"

definition bucc_value_truthy :: "float_ops \<Rightarrow> heap \<Rightarrow> bucc_value \<Rightarrow> bool option" where
  "bucc_value_truthy fo h v =
     (case v of
        VNull \<Rightarrow> Some False
      | VBool b \<Rightarrow> Some b
      | VI64 i \<Rightarrow> Some (i \<noteq> 0)
      | VF64 d \<Rightarrow> Some (\<not> f_eq fo d (f_zero fo))
      | VString None \<Rightarrow> Some False
      | VString (Some a) \<Rightarrow> do { s \<leftarrow> get_string h a; Some (s_data s \<noteq> []) }
      | VArray None \<Rightarrow> Some False
      | VArray (Some a) \<Rightarrow> do { x \<leftarrow> get_array h a; Some (a_items x \<noteq> []) }
      | VMap None \<Rightarrow> Some False
      | VMap (Some a) \<Rightarrow> do { x \<leftarrow> get_map h a; Some (m_entries x \<noteq> []) }
      | VError _ \<Rightarrow> Some False
      | _ \<Rightarrow> Some True)"

text \<open>
  Comparing containers recurses into their elements; \<open>d\<close> is the number of stack frames left. The
  loop over the elements stops at the first difference.
\<close>

fun all_while :: "(heap \<Rightarrow> 'a \<Rightarrow> (bool \<times> heap) option) \<Rightarrow> heap \<Rightarrow> 'a list \<Rightarrow> (bool \<times> heap) option" where
  "all_while f h [] = Some (True, h)"
| "all_while f h (x # xs) =
     (case f h x of
        None \<Rightarrow> None
      | Some (False, h) \<Rightarrow> Some (False, h)
      | Some (True, h) \<Rightarrow> all_while f h xs)"

lemma all_while_cong [fundef_cong]:
  "h = h' \<Longrightarrow> xs = ys \<Longrightarrow> (\<And>h x. x \<in> set ys \<Longrightarrow> f h x = g h x) \<Longrightarrow> all_while f h xs = all_while g h' ys"
  by (induction xs arbitrary: h h' ys) (auto split: option.splits bool.splits)

fun equal_within :: "float_ops \<Rightarrow> nat \<Rightarrow> heap \<Rightarrow> bucc_value \<Rightarrow> bucc_value \<Rightarrow> (bool \<times> heap) option" where
  "equal_within fo 0 h a b = None"
| "equal_within fo (Suc d) h a b =
     (if kind_number a \<noteq> kind_number b then
        (if BUCC_IS_NUMERIC a \<and> BUCC_IS_NUMERIC b
         then Some (f_eq fo (num_f64 fo a) (num_f64 fo b), h) else Some (False, h))
      else
        (case (a, b) of
           (VNull, VNull) \<Rightarrow> Some (True, h)
         | (VBool x, VBool y) \<Rightarrow> Some (x = y, h)
         | (VI64 x, VI64 y) \<Rightarrow> Some (x = y, h)
         | (VF64 x, VF64 y) \<Rightarrow> Some (f_eq fo x y, h)
         | (VString p, VString q) \<Rightarrow> do { c \<leftarrow> bucc_string_cmp h p q; Some (c = 0, h) }
         | (VDate x, VDate y) \<Rightarrow> Some (x = y, h)
         | (VDatetime x, VDatetime y) \<Rightarrow> Some (x = y, h)
         | (VArray (Some p), VArray (Some q)) \<Rightarrow> do {
             x \<leftarrow> get_array h p;
             y \<leftarrow> get_array h q;
             if length (a_items x) \<noteq> length (a_items y) then Some (False, h)
             else all_while (\<lambda>h (u, v). equal_within fo d h u v) h (zip (a_items x) (a_items y)) }
         | (VArray p, VArray q) \<Rightarrow> Some (p = q, h)
         | (VMap (Some p), VMap (Some q)) \<Rightarrow> do {
             x \<leftarrow> get_map h p;
             y \<leftarrow> get_map h q;
             if length (m_entries x) \<noteq> length (m_entries y) then Some (False, h)
             else all_while (\<lambda>h (k, cell).
                    case cell of
                      None \<Rightarrow> Some (False, h)
                    | Some v \<Rightarrow> do {
                        (other, h) \<leftarrow> bucc_map_get h (Some q) (Some k);
                        has \<leftarrow> (if other = VNull then bucc_map_has h (Some q) (Some k) else Some True);
                        (eq, h) \<leftarrow> (if has then equal_within fo d h v other else Some (False, h));
                        h \<leftarrow> bucc_value_release h other;
                        Some (eq, h) }) h (m_entries x) }
         | (VMap p, VMap q) \<Rightarrow> Some (p = q, h)
         | (VError p, VError q) \<Rightarrow> Some (p = q, h)
         | _ \<Rightarrow> Some (False, h)))"

definition bucc_value_equal :: "float_ops \<Rightarrow> heap \<Rightarrow> bucc_value \<Rightarrow> bucc_value \<Rightarrow> (bool \<times> heap) option" where
  "bucc_value_equal fo h a b = equal_within fo (h_stack h) h a b"

text \<open>The sum of a chain of field comparisons: the first field that differs decides.\<close>

fun first_diff :: "(int \<times> int) list \<Rightarrow> int" where
  "first_diff [] = 0"
| "first_diff ((x, y) # ps) = (if x \<noteq> y then x - y else first_diff ps)"

definition date_fields :: "bucc_date_t \<Rightarrow> int list" where
  "date_fields d = [sint (d_year d), uint (d_month d), uint (d_day d)]"

definition datetime_fields :: "bucc_datetime_t \<Rightarrow> int list" where
  "datetime_fields d =
     [sint (dt_year d), uint (dt_month d), uint (dt_day d), uint (dt_hour d), uint (dt_minute d), uint (dt_second d)]"

definition bucc_value_compare :: "float_ops \<Rightarrow> heap \<Rightarrow> bucc_value \<Rightarrow> bucc_value \<Rightarrow> int option" where
  "bucc_value_compare fo h a b =
     (if BUCC_IS_NUMERIC a \<and> BUCC_IS_NUMERIC b then
        Some (if f_lt fo (num_f64 fo a) (num_f64 fo b) then -1
              else if f_lt fo (num_f64 fo b) (num_f64 fo a) then 1 else 0)
      else if kind_number a \<noteq> kind_number b then Some (kind_number a - kind_number b)
      else
        (case (a, b) of
           (VString p, VString q) \<Rightarrow> bucc_string_cmp h p q
         | (VDate x, VDate y) \<Rightarrow> Some (first_diff (zip (date_fields x) (date_fields y)))
         | (VDatetime x, VDatetime y) \<Rightarrow> Some (first_diff (zip (datetime_fields x) (datetime_fields y)))
         | _ \<Rightarrow> Some 0))"

text \<open>The shallow equality used by the host interface.\<close>

definition bucc_value_equals :: "float_ops \<Rightarrow> heap \<Rightarrow> bucc_value \<Rightarrow> bucc_value \<Rightarrow> bool option" where
  "bucc_value_equals fo h a b =
     (case (a, b) of
        (VNull, VNull) \<Rightarrow> Some True
      | (VBool x, VBool y) \<Rightarrow> Some (x = y)
      | (VI64 x, VI64 y) \<Rightarrow> Some (x = y)
      | (VF64 x, VF64 y) \<Rightarrow> Some (f_eq fo x y)
      | (VString p, VString q) \<Rightarrow> do { c \<leftarrow> bucc_string_cmp h p q; Some (c = 0) }
      | (VDate x, VDate y) \<Rightarrow> Some (x = y)
      | (VDatetime x, VDatetime y) \<Rightarrow> Some (x = y)
      | _ \<Rightarrow> Some False)"

section \<open>Conversions\<close>

text \<open>\<open>%s\<close> and the conversions of \<open>strtod\<close> and \<open>strtoll\<close> stop at the first NUL of the data.\<close>

definition until_nul :: "bytes \<Rightarrow> bytes" where
  "until_nul b = takeWhile (\<lambda>c. c \<noteq> 0) b"

definition bytes_chars :: "bytes \<Rightarrow> string" where
  "bytes_chars b = map (\<lambda>c. char_of (unat c)) b"

definition date_text :: "bucc_date_t \<Rightarrow> string" where
  "date_text d =
     ''#'' @ show_int_pad 4 (sint (d_year d)) @ ''-'' @ show_int_pad 2 (uint (d_month d)) @ ''-''
       @ show_int_pad 2 (uint (d_day d)) @ ''#''"

definition datetime_text :: "bucc_datetime_t \<Rightarrow> string" where
  "datetime_text d =
     ''#'' @ show_int_pad 4 (sint (dt_year d)) @ ''-'' @ show_int_pad 2 (uint (dt_month d)) @ ''-''
       @ show_int_pad 2 (uint (dt_day d)) @ ''T'' @ show_int_pad 2 (uint (dt_hour d)) @ '':''
       @ show_int_pad 2 (uint (dt_minute d)) @ '':'' @ show_int_pad 2 (uint (dt_second d)) @ ''#''"

definition bucc_value_to_string :: "float_ops \<Rightarrow> heap \<Rightarrow> bucc_value \<Rightarrow> (ptr \<times> heap) option" where
  "bucc_value_to_string fo h v =
     (let lit = (\<lambda>s. Some (bucc_string_from_cstr h (Some (cstr_bytes s)))) in
      case v of
        VNull \<Rightarrow> lit ''NULL''
      | VBool b \<Rightarrow> lit (if b then ''TRUE'' else ''FALSE'')
      | VI64 i \<Rightarrow> lit (show_int (sint i))
      | VF64 d \<Rightarrow> Some (bucc_string_from_cstr h (Some (take 127 (f_format_g fo d))))
      | VString p \<Rightarrow> do { h \<leftarrow> bucc_string_retain h p; Some (p, h) }
      | VDate d \<Rightarrow> lit (date_text d)
      | VDatetime d \<Rightarrow> lit (datetime_text d)
      | VArray p \<Rightarrow> do {
          n \<leftarrow> (case p of None \<Rightarrow> Some 0 | Some a \<Rightarrow> map_option (length \<circ> a_items) (get_array h a));
          lit (''[ARRAY len='' @ show_nat n @ '']'') }
      | VMap p \<Rightarrow> do {
          n \<leftarrow> (case p of None \<Rightarrow> Some 0 | Some a \<Rightarrow> map_option (length \<circ> m_entries) (get_map h a));
          lit (''{MAP len='' @ show_nat n @ ''}'') }
      | VError p \<Rightarrow> do {
          msg \<leftarrow> (case p of None \<Rightarrow> Some None | Some a \<Rightarrow> map_option e_message (get_error h a));
          (case msg of Some m \<Rightarrow> Some (bucc_string_from_cstr h (Some m)) | None \<Rightarrow> lit ''[ERROR]'') })"

text \<open>The number and the \<open>*ok\<close> flag.\<close>

definition bucc_value_to_number :: "float_ops \<Rightarrow> heap \<Rightarrow> bucc_value \<Rightarrow> (f64 \<times> bool) option" where
  "bucc_value_to_number fo h v =
     (case v of
        VI64 i \<Rightarrow> Some (f_of_i64 fo i, True)
      | VF64 d \<Rightarrow> Some (d, True)
      | VBool b \<Rightarrow> Some (if b then f_one fo else f_zero fo, True)
      | VString (Some a) \<Rightarrow> do {
          s \<leftarrow> get_string h a;
          (case f_strtod fo (until_nul (s_data s)) of Some d \<Rightarrow> Some (d, True) | None \<Rightarrow> Some (f_zero fo, False)) }
      | _ \<Rightarrow> Some (f_zero fo, False))"

text \<open>A \<open>char *\<close> result is the bytes before the terminator, \<^term>\<open>None\<close> for NULL.\<close>

definition bucc_value_to_cstring :: "float_ops \<Rightarrow> heap \<Rightarrow> bucc_value \<Rightarrow> (bytes option \<times> heap) option" where
  "bucc_value_to_cstring fo h v = do {
     (s, h) \<leftarrow> bucc_value_to_string fo h v;
     (case s of
        None \<Rightarrow> Some (dup_cstr h (Some []))
      | Some a \<Rightarrow> do {
          str \<leftarrow> get_string h a;
          let (result, h) = dup_cstr h (Some (until_nul (s_data str)));
          h \<leftarrow> bucc_string_release h s;
          Some (result, h) }) }"

definition bucc_value_to_int :: "float_ops \<Rightarrow> heap \<Rightarrow> bucc_value \<Rightarrow> i64 option" where
  "bucc_value_to_int fo h v =
     (case v of
        VI64 i \<Rightarrow> Some i
      | VF64 d \<Rightarrow> f_to_i64 fo d
      | VBool b \<Rightarrow> Some (if b then 1 else 0)
      | VString (Some a) \<Rightarrow> do {
          s \<leftarrow> get_string h a;
          Some (word_of_int (c_strtol (bytes_chars (until_nul (s_data s))))) }
      | _ \<Rightarrow> Some 0)"

section \<open>Convenience for C callers\<close>

definition bucc_make_string :: "heap \<Rightarrow> bytes option \<Rightarrow> bucc_value \<times> heap" where
  "bucc_make_string h s =
     (let (p, h) = bucc_string_from_cstr h (Some (case s of None \<Rightarrow> [] | Some b \<Rightarrow> b)) in (VString p, h))"

definition bucc_make_error :: "heap \<Rightarrow> bytes option \<Rightarrow> bucc_value \<times> heap" where
  "bucc_make_error h msg = (let (p, h) = bucc_error_new h msg None 0 in (VError p, h))"

text \<open>
  The result is a pointer to the value cell of an entry: the map and the index, or \<^term>\<open>None\<close> for
  NULL. \<open>strcmp\<close> compares up to the first NUL of the stored key.
\<close>

fun find_cstr :: "heap \<Rightarrow> (addr \<times> bucc_value option) list \<Rightarrow> bytes \<Rightarrow> nat \<Rightarrow> nat option option" where
  "find_cstr h [] key i = Some None"
| "find_cstr h ((k, _) # es) key i = do {
     s \<leftarrow> get_string h k;
     if until_nul (s_data s) = key then Some (Some i) else find_cstr h es key (Suc i) }"

definition bucc_map_get_cstr :: "heap \<Rightarrow> ptr \<Rightarrow> bytes option \<Rightarrow> ((addr \<times> nat) option \<times> heap) option" where
  "bucc_map_get_cstr h m key =
     (case (m, key) of
        (Some a, Some kb) \<Rightarrow> do {
          let (k, h) = bucc_string_from_cstr h (Some kb);
          (result, h) \<leftarrow> bucc_map_get h m k;
          h \<leftarrow> bucc_string_release h k;
          if result = VNull then Some (None, h)
          else do {
            x \<leftarrow> get_map h a;
            i \<leftarrow> find_cstr h (m_entries x) kb 0;
            (case i of
               None \<Rightarrow> Some (None, h)
             | Some j \<Rightarrow> do { (_, cell) \<leftarrow> arr_get (m_entries x) j; Some (map_option (\<lambda>_. (a, j)) cell, h) }) } }
      | _ \<Rightarrow> Some (None, h))"

definition bucc_map_set_cstr :: "heap \<Rightarrow> ptr \<Rightarrow> bytes option \<Rightarrow> bucc_value \<Rightarrow> (bool \<times> heap) option" where
  "bucc_map_set_cstr h m key val =
     (case (m, key) of
        (Some a, Some kb) \<Rightarrow> do {
          let (k, h) = bucc_string_from_cstr h (Some kb);
          (r, h) \<leftarrow> bucc_map_set h m k val;
          h \<leftarrow> bucc_string_release h k;
          Some (r, h) }
      | _ \<Rightarrow> Some (False, h))"

definition bucc_map_has_cstr :: "heap \<Rightarrow> ptr \<Rightarrow> bytes option \<Rightarrow> (bool \<times> heap) option" where
  "bucc_map_has_cstr h m key =
     (case (m, key) of
        (Some a, Some kb) \<Rightarrow> do {
          let (k, h) = bucc_string_from_cstr h (Some kb);
          r \<leftarrow> bucc_map_has h m k;
          h \<leftarrow> bucc_string_release h k;
          Some (r, h) }
      | _ \<Rightarrow> Some (False, h))"

definition bucc_map_delete_cstr :: "heap \<Rightarrow> ptr \<Rightarrow> bytes option \<Rightarrow> (bool \<times> heap) option" where
  "bucc_map_delete_cstr h m key =
     (case (m, key) of
        (Some a, Some kb) \<Rightarrow> do {
          let (k, h) = bucc_string_from_cstr h (Some kb);
          (r, h) \<leftarrow> bucc_map_delete h m k;
          h \<leftarrow> bucc_string_release h k;
          Some (r, h) }
      | _ \<Rightarrow> Some (False, h))"

end
