(* ===== verification/Bucc_Heap.thy ===== *)
theory Bucc_Heap
  imports Bucc_Value "HOL-Library.Multiset"
begin

text \<open>
  Reference counting is sound. The owners of references are the values a program holds (the roots)
  and the containers of the heap. The invariant \<open>rc_inv\<close> says that every owned reference leads to a
  living object of the right kind, and that the count of every living object is at least the number
  of references to it. Retaining, releasing and the container operations keep the invariant and never
  touch freed memory; releasing returns, because each level of its recursion kills one more object.
  Objects whose count has reached zero and that are being torn down are not alive any more.
\<close>

section \<open>References and objects\<close>

primrec addr_of :: "bucc_value \<Rightarrow> addr option" where
  "addr_of VNull = None"
| "addr_of (VBool _) = None"
| "addr_of (VI64 _) = None"
| "addr_of (VF64 _) = None"
| "addr_of (VString p) = p"
| "addr_of (VDate _) = None"
| "addr_of (VDatetime _) = None"
| "addr_of (VArray p) = p"
| "addr_of (VMap p) = p"
| "addr_of (VError p) = p"

primrec rc :: "hobj \<Rightarrow> u32" where
  "rc (HString s) = s_refcount s"
| "rc (HArray x) = a_refcount x"
| "rc (HMap x) = m_refcount x"
| "rc (HError e) = e_refcount e"

primrec set_rc :: "u32 \<Rightarrow> hobj \<Rightarrow> hobj" where
  "set_rc n (HString s) = HString (s\<lparr>s_refcount := n\<rparr>)"
| "set_rc n (HArray x) = HArray (x\<lparr>a_refcount := n\<rparr>)"
| "set_rc n (HMap x) = HMap (x\<lparr>m_refcount := n\<rparr>)"
| "set_rc n (HError e) = HError (e\<lparr>e_refcount := n\<rparr>)"

definition entry_refs :: "addr \<times> bucc_value option \<Rightarrow> bucc_value list" where
  "entry_refs e = VString (Some (fst e)) # (case snd e of None \<Rightarrow> [] | Some v \<Rightarrow> [v])"

primrec children :: "hobj \<Rightarrow> bucc_value list" where
  "children (HString s) = []"
| "children (HArray x) = a_items x"
| "children (HMap x) = concat (map entry_refs (m_entries x))"
| "children (HError e) = []"

fun kind_ok :: "bucc_value \<Rightarrow> hobj \<Rightarrow> bool" where
  "kind_ok (VString _) (HString _) = True"
| "kind_ok (VArray _) (HArray _) = True"
| "kind_ok (VMap _) (HMap _) = True"
| "kind_ok (VError _) (HError _) = True"
| "kind_ok _ _ = False"

definition obj :: "heap \<Rightarrow> addr \<Rightarrow> hobj option" where
  "obj h a = (if a < length (h_objs h) then h_objs h ! a else None)"

definition alive :: "heap \<Rightarrow> addr set" where
  "alive h = {a. \<exists>x. obj h a = Some x \<and> rc x \<noteq> 0}"

lemma rc_set_rc [simp]: "rc (set_rc n x) = n" "children (set_rc n x) = children x"
  "kind_ok v (set_rc n x) = kind_ok v x" "set_rc m (set_rc n x) = set_rc m x"
  by (cases x; cases v; simp)+

lemma set_rc_self [simp]: "set_rc (rc x) x = x"
  by (cases x) simp_all

lemma finite_alive [simp]: "finite (alive h)"
  by (rule finite_subset [of _ "{..<length (h_objs h)}"]) (auto simp: alive_def obj_def split: if_splits)

lemma obj_put [simp]:
  "obj h a = Some x \<Longrightarrow> obj (put_obj h a y) b = (if b = a then Some y else obj h b)"
  by (auto simp: obj_def put_obj_def split: if_splits)

lemma obj_alloc [simp]: "obj (h\<lparr>h_allocs := n\<rparr>) = obj h"
  by (rule ext) (simp add: obj_def)

lemma get_obj:
  "get_string h a = Some s \<longleftrightarrow> obj h a = Some (HString s)"
  "get_array h a = Some x \<longleftrightarrow> obj h a = Some (HArray x)"
  "get_map h a = Some m \<longleftrightarrow> obj h a = Some (HMap m)"
  "get_error h a = Some e \<longleftrightarrow> obj h a = Some (HError e)"
  by (auto simp: get_string_def get_array_def get_map_def get_error_def obj_def arr_get_def
      split: option.splits hobj.splits if_splits)

lemma free_obj_eq: "obj h a = Some x \<Longrightarrow> free_obj h a = Some (h\<lparr>h_objs := (h_objs h)[a := None]\<rparr>)"
  by (auto simp: free_obj_def obj_def arr_get_def split: if_splits)

lemma obj_freed [simp]: "obj (h\<lparr>h_objs := (h_objs h)[a := None]\<rparr>) b = (if b = a then None else obj h b)"
  by (auto simp: obj_def nth_list_update)

section \<open>The invariant\<close>

lemma word_minus_one_le: "n \<noteq> 0 \<Longrightarrow> n - 1 \<le> (n :: 'a::len word)"
  by (simp add: word_le_nat_alt unat_minus_one)

lemma word_plus_one:
  "n \<noteq> - 1 \<Longrightarrow> n + 1 \<noteq> (0 :: 'a::len word)" "n \<noteq> - 1 \<Longrightarrow> unat (n + 1) = unat n + 1"
  by (metis add.inverse_inverse add_eq_0_iff, metis add.commute add.inverse_inverse add_eq_0_iff unatSuc Suc_eq_plus1)

text \<open>
  While an array element or a map entry is being replaced, the container still holds the old value
  although its reference has been given up. The map \<open>ov\<close> says which references such a container
  really owns. Only containers the program holds on to are in this state (\<open>rooted\<close>).
\<close>

type_synonym overrides = "addr \<Rightarrow> bucc_value list option"

definition owned :: "overrides \<Rightarrow> heap \<Rightarrow> addr \<Rightarrow> bucc_value list" where
  "owned ov h a = (case ov a of Some vs \<Rightarrow> vs | None \<Rightarrow> (case obj h a of Some x \<Rightarrow> children x | None \<Rightarrow> []))"

definition heap_refs :: "overrides \<Rightarrow> heap \<Rightarrow> bucc_value multiset" where
  "heap_refs ov h = (\<Sum>a \<in> alive h. mset (owned ov h a))"

definition typed :: "heap \<Rightarrow> bucc_value \<Rightarrow> bool" where
  "typed h v \<longleftrightarrow> (\<forall>a. addr_of v = Some a \<longrightarrow> (\<exists>x. obj h a = Some x \<and> rc x \<noteq> 0 \<and> kind_ok v x))"

definition refs_to :: "addr \<Rightarrow> bucc_value multiset \<Rightarrow> nat" where
  "refs_to a M = size {#v \<in># M. addr_of v = Some a#}"

definition rc_inv :: "overrides \<Rightarrow> heap \<Rightarrow> bucc_value multiset \<Rightarrow> bool" where
  "rc_inv ov h R \<longleftrightarrow>
     (\<forall>v \<in># R + heap_refs ov h. typed h v) \<and>
     (\<forall>a x. obj h a = Some x \<longrightarrow> rc x \<noteq> 0 \<longrightarrow> refs_to a (R + heap_refs ov h) \<le> unat (rc x))"

definition rooted :: "overrides \<Rightarrow> bucc_value multiset \<Rightarrow> bool" where
  "rooted ov R \<longleftrightarrow> (\<forall>a \<in> dom ov. \<exists>v \<in># R. addr_of v = Some a)"

lemma rooted_single: "v \<in># R \<Longrightarrow> addr_of v = Some a \<Longrightarrow> rooted (Map.empty(a \<mapsto> vs)) R"
  unfolding rooted_def by (intro ballI bexI [of _ v]) simp_all

lemma refs_to_simps [simp]:
  "refs_to a (M + N) = refs_to a M + refs_to a N"
  "refs_to a (add_mset v M) = (if addr_of v = Some a then 1 else 0) + refs_to a M"
  "refs_to a {#} = 0"
  by (simp_all add: refs_to_def)

lemma refs_to_none: "\<forall>w \<in># M. addr_of w \<noteq> Some a \<Longrightarrow> refs_to a M = 0"
  by (induction M) auto

lemma refs_to_pos: "v \<in># M \<Longrightarrow> addr_of v = Some a \<Longrightarrow> 0 < refs_to a M"
  by (drule multi_member_split) auto

text \<open>
  How a step changes the heap apart from reference counts: objects may die, the contents of those that
  remain are the same, and objects that are being torn down are left alone. A releasing step moreover
  raises no count.
\<close>

definition evolves :: "heap \<Rightarrow> heap \<Rightarrow> bool" where
  "evolves h h' \<longleftrightarrow>
     alive h' \<subseteq> alive h \<and>
     (\<forall>a x'. obj h' a = Some x' \<longrightarrow> (\<exists>x. obj h a = Some x \<and> set_rc 0 x' = set_rc 0 x)) \<and>
     (\<forall>a x. obj h a = Some x \<longrightarrow> rc x = 0 \<longrightarrow> obj h' a = Some x) \<and>
     h_mem h' = h_mem h \<and> h_allocs h' = h_allocs h \<and> h_stack h' = h_stack h"

definition shrinks :: "heap \<Rightarrow> heap \<Rightarrow> bool" where
  "shrinks h h' \<longleftrightarrow> evolves h h' \<and> (\<forall>a x x'. obj h a = Some x \<longrightarrow> obj h' a = Some x' \<longrightarrow> rc x' \<le> rc x)"

lemma evolves_refl [simp]: "evolves h h"
  by (simp add: evolves_def)

lemma evolves_trans: "evolves h1 h2 \<Longrightarrow> evolves h2 h3 \<Longrightarrow> evolves h1 h3"
  unfolding evolves_def by (smt (verit, best) subset_trans)

lemma shrinks_refl [simp]: "shrinks h h"
  by (simp add: shrinks_def)

lemma shrinks_trans: "shrinks h1 h2 \<Longrightarrow> shrinks h2 h3 \<Longrightarrow> shrinks h1 h3"
  unfolding shrinks_def using evolves_trans [of h1 h2 h3]
  by (metis (no_types, lifting) evolves_def order.trans)

lemma evolves_obj:
  assumes "evolves h h'" "obj h' a = Some x'"
  obtains x where "obj h a = Some x" "x' = set_rc (rc x') x"
proof -
  obtain x where x: "obj h a = Some x" "set_rc 0 x' = set_rc 0 x"
    using assms unfolding evolves_def by blast
  have "x' = set_rc (rc x') x"
    using arg_cong [OF x(2), of "set_rc (rc x')"] by simp
  with x that show ?thesis by blast
qed

lemma alive_put:
  "obj h a = Some x \<Longrightarrow> alive (put_obj h a y) = (if rc y \<noteq> 0 then insert a (alive h) else alive h - {a})"
  by (auto simp: alive_def)

lemma alive_freed: "alive (h\<lparr>h_objs := (h_objs h)[a := None]\<rparr>) = alive h - {a}"
  by (auto simp: alive_def)

lemma evolves_put:
  "obj h a = Some x \<Longrightarrow> rc x \<noteq> 0 \<Longrightarrow> evolves h (put_obj h a (set_rc n x))"
  by (auto simp: evolves_def alive_put) (auto simp: alive_def put_obj_def)

lemma shrinks_put:
  "obj h a = Some x \<Longrightarrow> rc x \<noteq> 0 \<Longrightarrow> n \<le> rc x \<Longrightarrow> shrinks h (put_obj h a (set_rc n x))"
  by (auto simp: shrinks_def evolves_put)

lemma heap_refs_split:
  "a \<in> alive h \<Longrightarrow> heap_refs ov h = mset (owned ov h a) + (\<Sum>b \<in> alive h - {a}. mset (owned ov h b))"
  by (simp add: heap_refs_def sum.remove)

lemma owned_put: "obj h a = Some x \<Longrightarrow> b \<noteq> a \<Longrightarrow> owned ov (put_obj h a y) b = owned ov h b"
  by (simp add: owned_def split: option.splits)

text \<open>Replacing a living object by one with the same kind: the references it gains or loses move to the roots.\<close>

lemma heap_refs_put:
  assumes "obj h a = Some x" "rc x \<noteq> 0" "rc y \<noteq> 0"
  shows "mset (owned ov h a) + heap_refs ov' (put_obj h a y) =
         mset (owned ov' (put_obj h a y) a) + heap_refs ov h \<or> (\<exists>b. b \<noteq> a \<and> ov' b \<noteq> ov b)"
proof (cases "\<exists>b. b \<noteq> a \<and> ov' b \<noteq> ov b")
  case False
  then have "owned ov' (put_obj h a y) b = owned ov h b" if "b \<noteq> a" for b
  proof -
    have "ov' b = ov b" using False that by blast
    then show ?thesis using that assms(1) by (simp add: owned_def split: option.splits)
  qed
  then have "(\<Sum>b \<in> alive h - {a}. mset (owned ov' (put_obj h a y) b)) = (\<Sum>b \<in> alive h - {a}. mset (owned ov h b))"
    by (intro sum.cong) auto
  moreover have "a \<in> alive h" "alive (put_obj h a y) = alive h" "a \<in> alive (put_obj h a y)"
    using assms by (auto simp: alive_def)
  ultimately show ?thesis
    using heap_refs_split [of a h ov] heap_refs_split [of a "put_obj h a y" ov'] by simp
qed simp

lemma rc_inv_put:
  assumes inv: "rc_inv ov h R" and x: "obj h a = Some x" "rc x \<noteq> 0"
    and y: "rc y = rc x" "\<And>v. kind_ok v y = kind_ok v x"
    and ov: "\<And>b. b \<noteq> a \<Longrightarrow> ov' b = ov b"
    and bal: "R + mset (owned ov h a) = R' + mset (owned ov' (put_obj h a y) a)"
  shows "rc_inv ov' (put_obj h a y) R'"
proof -
  have "mset (owned ov h a) + heap_refs ov' (put_obj h a y) = mset (owned ov' (put_obj h a y) a) + heap_refs ov h"
    using heap_refs_put [OF x, of y ov ov'] x(2) y(1) ov by auto
  then have "mset (owned ov h a) + (R' + heap_refs ov' (put_obj h a y)) =
             R' + mset (owned ov' (put_obj h a y) a) + heap_refs ov h"
    by (simp add: ac_simps)
  then have "mset (owned ov h a) + (R' + heap_refs ov' (put_obj h a y)) =
             mset (owned ov h a) + (R + heap_refs ov h)"
    unfolding bal [symmetric] by (simp add: ac_simps)
  then have eq: "R' + heap_refs ov' (put_obj h a y) = R + heap_refs ov h"
    by (rule add_left_imp_eq)
  have "typed (put_obj h a y) v" if "typed h v" for v
    using that x y by (auto simp: typed_def)
  then show ?thesis
    using inv x y unfolding rc_inv_def eq by auto
qed

section \<open>Releasing\<close>

text \<open>What releasing a reference to the object \<open>x\<close> at \<open>a\<close> does, for all kinds alike.\<close>

definition release_obj :: "nat \<Rightarrow> heap \<Rightarrow> addr \<Rightarrow> hobj \<Rightarrow> heap option" where
  "release_obj d h a x =
     (let h = put_obj h a (set_rc (rc x - 1) x) in
      if rc x - 1 = 0 then do { h \<leftarrow> fold_opt (release_within d) h (children x); free_obj h a }
      else Some h)"

lemma release_within_None: "addr_of v = None \<Longrightarrow> release_within d h v = Some h"
  by (cases v) (auto simp: bucc_string_release_def bucc_error_release_def)

lemma fold_release_map:
  "fold_opt (\<lambda>h (k, cell). do {
      h \<leftarrow> bucc_string_release h (Some k);
      (case cell of None \<Rightarrow> Some h | Some v \<Rightarrow> release_within d h v) }) h es =
   fold_opt (release_within d) h (concat (map entry_refs es))"
proof -
  have "(do { h \<leftarrow> bucc_string_release h (Some k);
          (case cell of None \<Rightarrow> Some h | Some v \<Rightarrow> release_within d h v) }) =
        fold_opt (release_within d) h (entry_refs (k, cell))" for h k cell
    by (cases "bucc_string_release h (Some k)") (auto simp: entry_refs_def split: option.splits)
  then show ?thesis
    unfolding fold_opt_concat by (intro fold_opt_cong) auto
qed

lemma release_within_obj:
  assumes "obj h a = Some x" "addr_of v = Some a" "kind_ok v x"
  shows "release_within (Suc d) h v = release_obj d h a x"
proof (cases x)
  case (HString s)
  then have "get_string h a = Some s" using assms by (simp add: get_obj)
  then show ?thesis
    using HString assms by (cases v) (auto simp: release_obj_def bucc_string_release_def Let_def)
next
  case (HError e)
  then have "get_error h a = Some e" using assms by (simp add: get_obj)
  then show ?thesis
    using HError assms by (cases v) (auto simp: release_obj_def bucc_error_release_def Let_def)
next
  case (HArray y)
  then have "get_array h a = Some y" using assms by (simp add: get_obj)
  then show ?thesis
    using HArray assms by (cases v) (auto simp: release_obj_def Let_def)
next
  case (HMap y)
  then have "get_map h a = Some y" using assms by (simp add: get_obj)
  then show ?thesis
    using HMap assms by (cases v) (auto simp: release_obj_def fold_release_map Let_def)
qed

lemma rc_inv_typed: "rc_inv ov h R \<Longrightarrow> v \<in># R \<Longrightarrow> typed h v"
  by (auto simp: rc_inv_def)

lemma rc_inv_rc_bound:
  assumes "rc_inv ov h R" "obj h a = Some x" "rc x \<noteq> 0"
  shows "refs_to a R \<le> unat (rc x)"
  using assms by (fastforce simp: rc_inv_def)

text \<open>Giving up one of several references.\<close>

lemma rc_inv_decrement:
  assumes inv: "rc_inv ov h (add_mset v R)" and v: "addr_of v = Some a" and x: "obj h a = Some x" "rc x \<noteq> 0"
    and many: "rc x - 1 \<noteq> 0"
  shows "rc_inv ov (put_obj h a (set_rc (rc x - 1) x)) R"
proof -
  let ?h = "put_obj h a (set_rc (rc x - 1) x)"
  have "owned ov ?h b = owned ov h b" for b
    using x by (cases "b = a") (simp_all add: owned_def split: option.splits)
  moreover have "alive ?h = alive h"
    using x many by (auto simp: alive_put) (auto simp: alive_def)
  ultimately have refs: "heap_refs ov ?h = heap_refs ov h" by (simp add: heap_refs_def)
  have "typed ?h w" if "typed h w" for w
    using that x many by (auto simp: typed_def)
  moreover have "unat (rc x - 1) = unat (rc x) - 1"
    using x(2) by (simp add: unat_minus_one)
  ultimately show ?thesis
    using inv v x unfolding rc_inv_def refs by (auto split: if_splits) fastforce
qed

text \<open>Giving up the last reference: the object dies, and what it owned is owed by the caller.\<close>

lemma rc_inv_die:
  assumes inv: "rc_inv ov h (add_mset v R)" and v: "addr_of v = Some a" and x: "obj h a = Some x" "rc x = 1"
    and ov: "rooted ov R"
  shows "rc_inv ov (put_obj h a (set_rc 0 x)) (mset (children x) + R)"
    and "ov a = None"
proof -
  let ?h = "put_obj h a (set_rc 0 x)"
  have le: "refs_to a (add_mset v R + heap_refs ov h) \<le> 1"
    using inv x unfolding rc_inv_def by (metis unsigned_1 zero_neq_one)
  then have none: "refs_to a R = 0" "refs_to a (heap_refs ov h) = 0" using v by simp_all
  then show ov_a: "ov a = None"
    using ov refs_to_pos [of _ R a] by (fastforce simp: rooted_def)
  have alive: "a \<in> alive h" "alive ?h = alive h - {a}" using x by (auto simp: alive_def)
  have "(\<Sum>b \<in> alive h - {a}. mset (owned ov ?h b)) = (\<Sum>b \<in> alive h - {a}. mset (owned ov h b))"
    by (intro sum.cong) (use x in \<open>simp_all add: owned_put\<close>)
  then have refs: "heap_refs ov h = mset (children x) + heap_refs ov ?h"
    using heap_refs_split [OF alive(1), of ov] x ov_a by (simp add: heap_refs_def alive(2) owned_def)
  have eq: "mset (children x) + R + heap_refs ov ?h = R + heap_refs ov h"
    using refs by (simp add: ac_simps)
  have "typed ?h w" if "w \<in># R + heap_refs ov h" for w
  proof -
    have "addr_of w \<noteq> Some a"
      using none refs_to_pos [of w "R + heap_refs ov h" a] that by auto
    moreover have "typed h w" using inv that by (auto simp: rc_inv_def)
    ultimately show ?thesis using x by (auto simp: typed_def)
  qed
  moreover have "refs_to b (R + heap_refs ov h) \<le> unat (rc y)" if "obj h b = Some y" "rc y \<noteq> 0" for b y
  proof -
    have "refs_to b (add_mset v R + heap_refs ov h) \<le> unat (rc y)"
      using inv that unfolding rc_inv_def by blast
    then show ?thesis by simp
  qed
  ultimately show "rc_inv ov ?h (mset (children x) + R)"
    using x unfolding rc_inv_def eq by auto
qed

text \<open>
  Releasing an owned value returns, as long as there are as many stack frames as living objects, and
  keeps the invariant for the remaining roots.
\<close>

lemma release_sound:
  assumes "rc_inv ov h (add_mset v R)" "rooted ov R" "card (alive h) \<le> d"
  shows "\<exists>h'. release_within d h v = Some h' \<and> rc_inv ov h' R \<and> shrinks h h'"
  using assms
proof (induction d arbitrary: h v R)
  case 0
  then have "alive h = {}" by simp
  then have "addr_of v = None"
    using rc_inv_typed [OF 0(1), of v] by (cases "addr_of v") (auto simp: typed_def alive_def)
  then show ?case using 0(1) by (auto simp: release_within_None rc_inv_def)
next
  case (Suc d)
  show ?case
  proof (cases "addr_of v")
    case None
    then show ?thesis using Suc.prems(1) by (auto simp: release_within_None rc_inv_def)
  next
    case (Some a)
    then obtain x where x: "obj h a = Some x" "rc x \<noteq> 0" "kind_ok v x"
      using rc_inv_typed [OF Suc.prems(1), of v] by (auto simp: typed_def)
    have rel: "release_within (Suc d) h v = release_obj d h a x"
      using release_within_obj [OF x(1) Some x(3)] .
    show ?thesis
    proof (cases "rc x - 1 = 0")
      case False
      then show ?thesis
        using rc_inv_decrement [OF Suc.prems(1) Some x(1,2)] shrinks_put [OF x(1,2)] rel x(2) word_minus_one_le [of "rc x"]
        by (simp add: release_obj_def)
    next
      case True
      then have one: "rc x = 1" by simp
      let ?h = "put_obj h a (set_rc 0 x)"
      have dead: "rc_inv ov ?h (mset (children x) + R)"
        using rc_inv_die(1) [OF Suc.prems(1) Some x(1) one Suc.prems(2)] .
      have card: "card (alive ?h) \<le> d"
        using Suc.prems(3) x by (auto simp: alive_put) (auto simp: alive_def card_Diff_singleton_if)
      have step: "\<exists>h'. fold_opt (release_within d) h vs = Some h' \<and> rc_inv ov h' R \<and> shrinks h h'"
        if "rc_inv ov h (mset vs + R)" "card (alive h) \<le> d" for vs h
        using that
      proof (induction vs arbitrary: h)
        case (Cons w vs)
        have "rooted ov (mset vs + R)" using Suc.prems(2) by (auto simp: rooted_def)
        then obtain h1 where h1: "release_within d h w = Some h1" "rc_inv ov h1 (mset vs + R)" "shrinks h h1"
          using Suc.IH [of h w "mset vs + R"] Cons.prems by auto
        have "card (alive h1) \<le> d"
          using h1(3) Cons.prems(2) card_mono [of "alive h" "alive h1"] by (simp add: shrinks_def evolves_def)
        then show ?case using Cons.IH [OF h1(2)] h1 shrinks_trans by fastforce
      qed simp
      obtain h1 where h1: "fold_opt (release_within d) ?h (children x) = Some h1" "rc_inv ov h1 R" "shrinks ?h h1"
        using step [OF dead card] by blast
      have kept: "obj h1 a = Some (set_rc 0 x)"
        using h1(3) x(1) by (simp add: shrinks_def evolves_def)
      let ?h2 = "h1\<lparr>h_objs := (h_objs h1)[a := None]\<rparr>"
      have "a \<notin> alive h1" using kept by (auto simp: alive_def)
      then have al: "alive ?h2 = alive h1" by (simp add: alive_freed)
      then have "heap_refs ov ?h2 = heap_refs ov h1"
        using \<open>a \<notin> alive h1\<close> unfolding heap_refs_def al
        by (intro sum.cong) (auto simp: owned_def split: option.splits)
      moreover have "typed ?h2 w" if "typed h1 w" for w
        using that kept by (auto simp: typed_def)
      ultimately have "rc_inv ov ?h2 R"
        using h1(2) by (auto simp: rc_inv_def)
      moreover have "shrinks h ?h2"
        using shrinks_trans [OF shrinks_put [OF x(1,2), of 0] h1(3)] x al
        by (auto simp: shrinks_def evolves_def)
      ultimately show ?thesis
        using rel True h1(1) one free_obj_eq [OF kept] by (simp add: release_obj_def)
    qed
  qed
qed

text \<open>\<open>room\<close>: the count of the object can be raised once more.\<close>

definition room :: "heap \<Rightarrow> bucc_value \<Rightarrow> bool" where
  "room h v \<longleftrightarrow> (\<forall>a x. addr_of v = Some a \<longrightarrow> obj h a = Some x \<longrightarrow> rc x \<noteq> - 1)"

lemma retain_obj:
  assumes "obj h a = Some x" "addr_of v = Some a" "kind_ok v x"
  shows "bucc_value_retain h v = Some (put_obj h a (set_rc (rc x + 1) x))"
proof -
  have "x = HString s \<Longrightarrow> get_string h a = Some s" "x = HArray y \<Longrightarrow> get_array h a = Some y"
    "x = HMap z \<Longrightarrow> get_map h a = Some z" "x = HError e \<Longrightarrow> get_error h a = Some e" for s y z e
    using assms(1) by (simp_all add: get_obj)
  then show ?thesis
    using assms by (cases v; cases x)
      (auto simp: bucc_value_retain_def bucc_string_retain_def bucc_array_retain_def bucc_map_retain_def
         bucc_error_retain_def)
qed

lemma retain_None: "addr_of v = None \<Longrightarrow> bucc_value_retain h v = Some h"
  by (cases v) (auto simp: bucc_value_retain_def bucc_string_retain_def bucc_array_retain_def
      bucc_map_retain_def bucc_error_retain_def)

lemma retain_sound:
  assumes inv: "rc_inv ov h R" and t: "typed h v" and room: "room h v"
  shows "\<exists>h'. bucc_value_retain h v = Some h' \<and> rc_inv ov h' (add_mset v R) \<and> evolves h h'"
proof (cases "addr_of v")
  case None
  then have "typed h v" by (simp add: typed_def)
  then show ?thesis using inv None by (auto simp: retain_None rc_inv_def)
next
  case (Some a)
  then obtain x where x: "obj h a = Some x" "rc x \<noteq> 0" "kind_ok v x"
    using t by (auto simp: typed_def)
  let ?h = "put_obj h a (set_rc (rc x + 1) x)"
  have nz: "rc x + 1 \<noteq> 0" "unat (rc x + 1) = unat (rc x) + 1"
    using room Some x word_plus_one [of "rc x"] by (auto simp: room_def)
  have "owned ov ?h b = owned ov h b" for b
    using x by (cases "b = a") (simp_all add: owned_def split: option.splits)
  moreover have "alive ?h = alive h"
    using x nz by (auto simp: alive_put) (auto simp: alive_def)
  ultimately have refs: "heap_refs ov ?h = heap_refs ov h" by (simp add: heap_refs_def)
  have ty: "typed ?h w" if "typed h w" for w
    using that x nz by (auto simp: typed_def)
  have "refs_to b (add_mset v R + heap_refs ov h) \<le> unat (rc y)" if "obj ?h b = Some y" "rc y \<noteq> 0" for b y
  proof -
    have "refs_to b (R + heap_refs ov h) \<le> unat (rc z)" if "obj h b = Some z" "rc z \<noteq> 0" for z
      using inv that unfolding rc_inv_def by blast
    then show ?thesis using that x nz Some by (cases "b = a") auto
  qed
  then have "rc_inv ov ?h (add_mset v R)"
    using inv ty t unfolding rc_inv_def refs by auto
  then show ?thesis
    using retain_obj [OF x(1) Some x(3)] evolves_put [OF x(1,2)] by blast
qed

section \<open>Arrays\<close>

abbreviation rc_ok :: "heap \<Rightarrow> bucc_value multiset \<Rightarrow> bool" where
  "rc_ok h R \<equiv> rc_inv Map.empty h R"

text \<open>Enough stack for the deepest possible release.\<close>

definition stack_ok :: "heap \<Rightarrow> bool" where
  "stack_ok h \<longleftrightarrow> card (alive h) \<le> h_stack h"

lemma alloc_simps [simp]:
  "alive (h\<lparr>h_allocs := n\<rparr>) = alive h" "typed (h\<lparr>h_allocs := n\<rparr>) v = typed h v"
  "owned ov (h\<lparr>h_allocs := n\<rparr>) a = owned ov h a" "room (h\<lparr>h_allocs := n\<rparr>) v = room h v"
  by (simp_all add: alive_def typed_def owned_def room_def split: option.split)

lemma rc_inv_alloc [simp]: "rc_inv ov (h\<lparr>h_allocs := n\<rparr>) R = rc_inv ov h R"
  by (simp add: rc_inv_def heap_refs_def)

lemma put_obj_same: "obj h a = Some x \<Longrightarrow> put_obj h a x = h"
proof -
  assume "obj h a = Some x"
  then have "Some x = h_objs h ! a" by (simp add: obj_def split: if_splits)
  then have "(h_objs h)[a := Some x] = h_objs h" by (simp only: list_update_id)
  then show ?thesis by (simp add: put_obj_def)
qed

text \<open>Setting aside the references a container is about to lose, and giving it others.\<close>

lemma rc_inv_set_aside:
  assumes "rc_inv ov h R" "obj h a = Some x" "rc x \<noteq> 0"
    and "R + mset (owned ov h a) = R' + mset vs"
  shows "rc_inv (ov(a \<mapsto> vs)) h R'"
  using rc_inv_put [of ov h R a x x "ov(a \<mapsto> vs)" R'] assms by (simp add: put_obj_same owned_def)

lemma rc_inv_store:
  assumes "rc_inv ov h R" "obj h a = Some x" "rc x \<noteq> 0" "rc y = rc x" "\<And>v. kind_ok v y = kind_ok v x"
    and "R + mset (owned ov h a) = R' + mset (children y)"
  shows "rc_inv (ov(a := None)) (put_obj h a y) R'"
  using rc_inv_put [of ov h R a x y "ov(a := None)" R'] assms by (simp add: owned_def)

lemma root_array:
  assumes "rc_inv ov h R" "VArray (Some a) \<in># R"
  obtains x where "get_array h a = Some x" "obj h a = Some (HArray x)" "a_refcount x \<noteq> 0"
  using rc_inv_typed [OF assms] by (auto simp: typed_def get_obj elim!: kind_ok.elims)

lemma evolves_array:
  assumes "evolves h h'" "obj h a = Some (HArray x)" "rc_inv ov h' R" "VArray (Some a) \<in># R"
  obtains n where "n \<noteq> 0" "obj h' a = Some (HArray (x\<lparr>a_refcount := n\<rparr>))"
proof -
  obtain x' where x': "obj h' a = Some (HArray x')" "a_refcount x' \<noteq> 0"
    using root_array [OF assms(3,4)] by metis
  then have "HArray x' = set_rc (a_refcount x') (HArray x)"
    using evolves_obj [OF assms(1) x'(1)] assms(2) by auto
  with x' that show ?thesis by simp
qed

lemma array_push_sound:
  assumes "rc_ok h R" "VArray (Some a) \<in># R" "typed h val" "room h val" "get_array h a = Some x"
  shows "\<exists>ok h'. bucc_array_push h (Some a) val = Some (ok, h') \<and> rc_ok h' R \<and>
     map_option a_items (get_array h' a) = Some (if ok then a_items x @ [val] else a_items x)"
proof -
  have x: "obj h a = Some (HArray x)" using assms(5) by (simp add: get_obj)
  obtain y where "get_array h a = Some y" "a_refcount y \<noteq> 0"
    by (rule root_array [OF assms(1,2)])
  then have nz: "a_refcount x \<noteq> 0" using assms(5) by simp
  \<comment> \<open>after the capacity check\<close>
  have main: "\<exists>h'. (do { h \<leftarrow> bucc_value_retain h1 val; x \<leftarrow> get_array h a;
            Some (True, put_obj h a (HArray (x\<lparr>a_items := a_items x @ [val]\<rparr>))) }) = Some (True, h') \<and>
      rc_ok h' R \<and> map_option a_items (get_array h' a) = Some (a_items x @ [val])"
    if h1: "rc_ok h1 R" "typed h1 val" "room h1 val" "obj h1 a = Some (HArray y)" "a_items y = a_items x" for h1 y
  proof -
    obtain h2 where h2: "bucc_value_retain h1 val = Some h2" "rc_ok h2 (add_mset val R)" "evolves h1 h2"
      using retain_sound [OF h1(1-3)] by blast
    then obtain n where n: "n \<noteq> 0" "obj h2 a = Some (HArray (y\<lparr>a_refcount := n\<rparr>))"
      using evolves_array [OF h2(3) h1(4) h2(2)] assms(2) by auto
    let ?y = "y\<lparr>a_refcount := n, a_items := a_items y @ [val]\<rparr>"
    have "rc_inv (Map.empty(a := None)) (put_obj h2 a (HArray ?y)) R"
    proof (rule rc_inv_store [OF h2(2) n(2)])
      show "kind_ok v (HArray ?y) = kind_ok v (HArray (y\<lparr>a_refcount := n\<rparr>))" for v by (cases v) auto
    qed (use n in \<open>simp_all add: owned_def\<close>)
    moreover have "get_array h2 a = Some (y\<lparr>a_refcount := n\<rparr>)" using n by (simp add: get_obj)
    moreover have "get_array (put_obj h2 a (HArray ?y)) a = Some ?y" using n by (simp add: get_obj)
    ultimately show ?thesis using h2(1) h1(5) by simp
  qed
  show ?thesis
  proof (cases "a_cap x \<le> length (a_items x)")
    case False
    then show ?thesis using main [OF assms(1,3,4) x] assms(5) by (auto simp: bucc_array_push_def)
  next
    case full: True
    let ?h = "h\<lparr>h_allocs := h_allocs h + 1\<rparr>" and ?y = "x\<lparr>a_cap := a_cap x * 2\<rparr>"
    show ?thesis
    proof (cases "h_mem h (h_allocs h)")
      case False
      then have "get_array ?h a = Some x" using x by (simp add: get_obj)
      then show ?thesis
        using False full assms(1,5)
        by (intro exI [of _ False] exI [of _ ?h]) (simp add: bucc_array_push_def array_grow_def malloc_ok_def)
    next
      case True
      have xa: "obj ?h a = Some (HArray x)" using x by simp
      have "rc_inv (Map.empty(a := None)) (put_obj ?h a (HArray ?y)) R"
      proof (rule rc_inv_store [OF _ xa])
        show "kind_ok v (HArray ?y) = kind_ok v (HArray x)" for v by (cases v) auto
      qed (use assms(1) nz x in \<open>simp_all add: owned_def\<close>)
      moreover have "typed (put_obj ?h a (HArray ?y)) val"
        using assms(3) x nz by (auto simp: typed_def elim!: kind_ok.elims)
      moreover have "room (put_obj ?h a (HArray ?y)) val"
        using assms(4) x by (auto simp: room_def)
      moreover have "obj (put_obj ?h a (HArray ?y)) a = Some (HArray ?y)" using xa by simp
      ultimately obtain h' where h': "(do { h \<leftarrow> bucc_value_retain (put_obj ?h a (HArray ?y)) val;
            x \<leftarrow> get_array h a; Some (True, put_obj h a (HArray (x\<lparr>a_items := a_items x @ [val]\<rparr>))) }) = Some (True, h')"
          "rc_ok h' R" "map_option a_items (get_array h' a) = Some (a_items x @ [val])"
        using main [of "put_obj ?h a (HArray ?y)" ?y] by auto
      have "get_array ?h a = Some x" using x by (simp add: get_obj)
      then have "bucc_array_push h (Some a) val = Some (True, h')"
        using True full assms(5) h'(1) by (simp add: bucc_array_push_def array_grow_def malloc_ok_def)
      then show ?thesis using h'(2,3) by auto
    qed
  qed
qed

lemma array_pop_sound:
  assumes "rc_ok h R" "VArray (Some a) \<in># R" "get_array h a = Some x"
  shows "\<exists>v h'. bucc_array_pop h (Some a) = Some (v, h') \<and> rc_ok h' (add_mset v R) \<and>
     (if a_items x = [] then v = VNull else v = last (a_items x)) \<and>
     map_option a_items (get_array h' a) = Some (butlast (a_items x))"
proof (cases "a_items x = []")
  case True
  have "rc_ok h (add_mset VNull R)"
    using assms(1) by (auto simp: rc_inv_def typed_def)
  then show ?thesis using True assms(3) by (simp add: bucc_array_pop_def)
next
  case False
  have x: "obj h a = Some (HArray x)" using assms(3) by (simp add: get_obj)
  obtain y where "get_array h a = Some y" "a_refcount y \<noteq> 0"
    by (rule root_array [OF assms(1,2)])
  then have nz: "a_refcount x \<noteq> 0" using assms(3) by simp
  let ?y = "x\<lparr>a_items := butlast (a_items x)\<rparr>"
  have "mset (a_items x) = add_mset (last (a_items x)) (mset (butlast (a_items x)))"
    using False by (metis append_butlast_last_id mset_append mset_single_iff_right add_mset_add_single mset.simps)
  then have "rc_inv (Map.empty(a := None)) (put_obj h a (HArray ?y)) (add_mset (last (a_items x)) R)"
  proof (intro rc_inv_store [OF assms(1) x])
    show "kind_ok v (HArray ?y) = kind_ok v (HArray x)" for v by (cases v) auto
  qed (use nz x in \<open>simp_all add: owned_def\<close>)
  moreover have "get_array (put_obj h a (HArray ?y)) a = Some ?y" using x by (simp add: get_obj)
  ultimately show ?thesis
    using False assms(3) by (simp add: bucc_array_pop_def)
qed

lemma array_get_sound:
  assumes "rc_ok h R" "VArray (Some a) \<in># R" "get_array h a = Some x" "\<forall>v \<in> set (a_items x). room h v"
  shows "\<exists>h'. bucc_array_get h (Some a) i = Some (if i < length (a_items x) then a_items x ! i else VNull, h') \<and>
     rc_ok h' (add_mset (if i < length (a_items x) then a_items x ! i else VNull) R)"
proof (cases "i < length (a_items x)")
  case False
  have "rc_ok h (add_mset VNull R)"
    using assms(1) by (auto simp: rc_inv_def typed_def)
  then show ?thesis using False assms(3) by (simp add: bucc_array_get_def)
next
  case True
  have x: "obj h a = Some (HArray x)" using assms(3) by (simp add: get_obj)
  obtain y where "get_array h a = Some y" "a_refcount y \<noteq> 0"
    by (rule root_array [OF assms(1,2)])
  then have "a \<in> alive h" using x assms(3) by (auto simp: alive_def)
  then have "a_items x ! i \<in># heap_refs Map.empty h"
    using heap_refs_split [of a h Map.empty] x True by (simp add: owned_def)
  then have "typed h (a_items x ! i)" using assms(1) by (auto simp: rc_inv_def)
  moreover have "room h (a_items x ! i)" using assms(4) True by simp
  ultimately obtain h' where "bucc_value_retain h (a_items x ! i) = Some h'" "rc_ok h' (add_mset (a_items x ! i) R)"
    using retain_sound [OF assms(1)] by blast
  then show ?thesis using True assms(3) by (simp add: bucc_array_get_def)
qed

lemma mset_without: "i < length xs \<Longrightarrow> mset xs = add_mset (xs ! i) (mset (take i xs @ drop (Suc i) xs))"
  by (metis (no_types, lifting) id_take_nth_drop mset.simps(2) mset_append union_mset_add_mset_right)

lemma array_set_sound:
  assumes "rc_ok h R" "VArray (Some a) \<in># R" "get_array h a = Some x" "val \<in># R" "room h val" "stack_ok h"
  shows "\<exists>h'. bucc_array_set h (Some a) i val = Some (i < length (a_items x), h') \<and> rc_ok h' R \<and>
     map_option a_items (get_array h' a) = Some ((a_items x)[i := val])"
proof (cases "i < length (a_items x)")
  case False
  then have "(a_items x)[i := val] = a_items x" by (intro list_update_beyond) simp
  then show ?thesis using False assms(1,3) by (simp add: bucc_array_set_def)
next
  case True
  have x: "obj h a = Some (HArray x)" using assms(3) by (simp add: get_obj)
  obtain y where "get_array h a = Some y" "a_refcount y \<noteq> 0"
    by (rule root_array [OF assms(1,2)])
  then have nz: "a_refcount x \<noteq> 0" using assms(3) by simp
  let ?old = "a_items x ! i" and ?vs = "take i (a_items x) @ drop (Suc i) (a_items x)"
  let ?ov = "Map.empty(a \<mapsto> ?vs)"
  have "rc_inv ?ov h (add_mset ?old R)"
    using rc_inv_set_aside [OF assms(1) x, of "add_mset ?old R" ?vs] nz mset_without [OF True] x
    by (simp add: owned_def)
  moreover have "rooted ?ov R" using assms(2) by (rule rooted_single) simp
  ultimately obtain h1 where h1: "bucc_value_release h ?old = Some h1" "rc_inv ?ov h1 R" "shrinks h h1"
    using release_sound [of ?ov h ?old R] assms(6) by (auto simp: bucc_value_release_def stack_ok_def)
  have "room h1 val"
    using assms(5) h1(3) rc_inv_typed [OF assms(1,4)]
    by (fastforce simp: room_def shrinks_def typed_def word_order.extremum_unique)
  then obtain h2 where h2: "bucc_value_retain h1 val = Some h2" "rc_inv ?ov h2 (add_mset val R)" "evolves h1 h2"
    using retain_sound [OF h1(2) rc_inv_typed [OF h1(2) assms(4)]] by blast
  have ev: "evolves h h2" using evolves_trans [OF _ h2(3)] h1(3) by (simp add: shrinks_def)
  then obtain n where n: "n \<noteq> 0" "obj h2 a = Some (HArray (x\<lparr>a_refcount := n\<rparr>))"
    using evolves_array [OF ev x h2(2)] assms(2) by auto
  let ?y = "x\<lparr>a_refcount := n, a_items := (a_items x)[i := val]\<rparr>"
  have "rc_inv (?ov(a := None)) (put_obj h2 a (HArray ?y)) R"
  proof (rule rc_inv_store [OF h2(2) n(2)])
    show "kind_ok v (HArray ?y) = kind_ok v (HArray (x\<lparr>a_refcount := n\<rparr>))" for v by (cases v) auto
    have "mset ((a_items x)[i := val]) = add_mset val (mset ?vs)"
      using mset_without [of i "(a_items x)[i := val]"] True by simp
    then show "add_mset val R + mset (owned ?ov h2 a) = R + mset (children (HArray ?y))"
      by (simp add: owned_def)
  qed (use n in simp_all)
  moreover have "get_array h2 a = Some (x\<lparr>a_refcount := n\<rparr>)" using n by (simp add: get_obj)
  moreover have "get_array (put_obj h2 a (HArray ?y)) a = Some ?y" using n by (simp add: get_obj)
  ultimately show ?thesis
    using True assms(3) h1(1) h2(1) by (simp add: bucc_array_set_def)
qed

section \<open>Maps\<close>

text \<open>The stored hash of every string is the hash of its bytes.\<close>

definition hashes_ok :: "heap \<Rightarrow> bool" where
  "hashes_ok h \<longleftrightarrow> (\<forall>a s. obj h a = Some (HString s) \<longrightarrow> s_hash s = hash_bytes (s_data s))"

lemma evolves_string:
  assumes "evolves h h'" "obj h' a = Some (HString s)"
  obtains t where "obj h a = Some (HString t)" "s_data s = s_data t" "s_hash s = s_hash t"
proof -
  obtain x where x: "obj h a = Some x" "set_rc 0 (HString s) = set_rc 0 x"
    using assms unfolding evolves_def by blast
  then obtain t where t: "x = HString t" "s\<lparr>s_refcount := 0\<rparr> = t\<lparr>s_refcount := 0\<rparr>"
    by (cases x) auto
  then have "s_data s = s_data t \<and> s_hash s = s_hash t" by (cases s; cases t) simp
  with x t that show ?thesis by blast
qed

lemma hashes_evolve: "evolves h h' \<Longrightarrow> hashes_ok h \<Longrightarrow> hashes_ok h'"
  unfolding hashes_ok_def by (metis evolves_string)

text \<open>The bytes of a key, and a map as the list of its keys and cells.\<close>

definition key_bytes :: "heap \<Rightarrow> addr \<Rightarrow> bytes" where
  "key_bytes h k = (case obj h k of Some (HString s) \<Rightarrow> s_data s | _ \<Rightarrow> [])"

definition pairs_of :: "heap \<Rightarrow> (addr \<times> bucc_value option) list \<Rightarrow> (bytes \<times> bucc_value option) list" where
  "pairs_of h es = map (\<lambda>(k, cell). (key_bytes h k, cell)) es"

definition map_view :: "heap \<Rightarrow> addr \<Rightarrow> (bytes \<times> bucc_value option) list" where
  "map_view h a = (case obj h a of Some (HMap x) \<Rightarrow> pairs_of h (m_entries x) | _ \<Rightarrow> [])"

lemma alloc_map_simps [simp]:
  "hashes_ok (h\<lparr>h_allocs := n\<rparr>) = hashes_ok h" "key_bytes (h\<lparr>h_allocs := n\<rparr>) k = key_bytes h k"
  "pairs_of (h\<lparr>h_allocs := n\<rparr>) es = pairs_of h es" "map_view (h\<lparr>h_allocs := n\<rparr>) a = map_view h a"
  by (simp_all add: hashes_ok_def key_bytes_def pairs_of_def map_view_def split: option.split hobj.split)

lemma string_cmp_eq_0_iff: "string_cmp a b = 0 \<longleftrightarrow> a = b"
proof
  assume c: "string_cmp a b = 0"
  then have len: "length a = length b" by (auto simp: string_cmp_def Let_def split: if_splits)
  then show "a = b" using c mem_cmp_eq_0_iff [of a b] by (auto simp: string_cmp_def Let_def split: if_splits)
qed (simp add: string_cmp_def)

fun first_index :: "'a \<Rightarrow> 'a list \<Rightarrow> nat option" where
  "first_index k [] = None"
| "first_index k (x # xs) = (if x = k then Some 0 else map_option Suc (first_index k xs))"

lemma first_index_None: "first_index k xs = None \<longleftrightarrow> k \<notin> set xs"
  by (induction xs) auto

lemma first_index_Some: "first_index k xs = Some i \<Longrightarrow> i < length xs \<and> xs ! i = k \<and> k \<notin> set (take i xs)"
  by (induction xs arbitrary: i) (auto split: if_splits)

lemma find_entry_index:
  assumes "\<forall>(k, cell) \<in> set es. \<exists>s. obj h k = Some (HString s)" "hashes_ok h" "s_hash key = hash_bytes (s_data key)"
  shows "find_entry h es key i = Some (map_option (\<lambda>j. i + j) (first_index (s_data key) (map fst (pairs_of h es))))"
  using assms(1)
proof (induction es arbitrary: i)
  case Nil
  then show ?case by (simp add: pairs_of_def)
next
  case (Cons e es)
  obtain k cell where e: "e = (k, cell)" by fastforce
  then obtain s where s: "obj h k = Some (HString s)" using Cons.prems by auto
  then have g: "get_string h k = Some s" "key_bytes h k = s_data s" "s_hash s = hash_bytes (s_data s)"
    using assms(2) by (auto simp: get_obj key_bytes_def hashes_ok_def)
  have ih: "find_entry h es key (Suc i) =
      Some (map_option (\<lambda>j. Suc i + j) (first_index (s_data key) (map fst (pairs_of h es))))"
    using Cons.IH [of "Suc i"] Cons.prems by simp
  show ?case
    using g ih assms(3) e
    by (auto simp: string_cmp_eq_0_iff pairs_of_def option.map_comp comp_def)
qed

lemma root_map:
  assumes "rc_inv ov h R" "VMap (Some a) \<in># R"
  obtains x where "get_map h a = Some x" "obj h a = Some (HMap x)" "m_refcount x \<noteq> 0"
  using rc_inv_typed [OF assms] by (auto simp: typed_def get_obj elim!: kind_ok.elims)

lemma root_string:
  assumes "rc_inv ov h R" "VString (Some k) \<in># R"
  obtains s where "get_string h k = Some s" "obj h k = Some (HString s)" "s_refcount s \<noteq> 0"
  using rc_inv_typed [OF assms] by (auto simp: typed_def get_obj elim!: kind_ok.elims)

text \<open>Every reference inside a living map is typed.\<close>

lemma map_children_typed:
  assumes "rc_inv ov h R" "obj h a = Some (HMap x)" "m_refcount x \<noteq> 0" "ov a = None" "(k, cell) \<in> set (m_entries x)"
  shows "typed h (VString (Some k))" "cell = Some v \<Longrightarrow> typed h v"
proof -
  have "a \<in> alive h" using assms(2,3) by (auto simp: alive_def)
  then have "w \<in> set (children (HMap x)) \<Longrightarrow> typed h w" for w
    using heap_refs_split [of a h ov] assms(1,2,4) by (auto simp: rc_inv_def owned_def)
  moreover have "VString (Some k) \<in> set (children (HMap x))" "cell = Some v \<Longrightarrow> v \<in> set (children (HMap x))"
    using assms(5) by (force simp: entry_refs_def)+
  ultimately show "typed h (VString (Some k))" "cell = Some v \<Longrightarrow> typed h v" by blast+
qed

lemma map_find_index:
  assumes "rc_ok h R" "hashes_ok h" "VMap (Some a) \<in># R" "VString (Some k) \<in># R"
  shows "map_find h (Some a) (Some k) = Some (first_index (key_bytes h k) (map fst (map_view h a)))"
proof -
  obtain x where x: "get_map h a = Some x" "obj h a = Some (HMap x)" "m_refcount x \<noteq> 0"
    by (rule root_map [OF assms(1,3)])
  obtain s where s: "get_string h k = Some s" "obj h k = Some (HString s)" "s_refcount s \<noteq> 0"
    by (rule root_string [OF assms(1,4)])
  have "\<forall>(k, cell) \<in> set (m_entries x). \<exists>s. obj h k = Some (HString s)"
  proof clarify
    fix k cell assume "(k, cell) \<in> set (m_entries x)"
    then have "typed h (VString (Some k))"
      using map_children_typed(1) [OF assms(1) x(2,3)] by simp
    then show "\<exists>s. obj h k = Some (HString s)" by (auto simp: typed_def elim!: kind_ok.elims)
  qed
  then have "find_entry h (m_entries x) s 0 =
      Some (first_index (s_data s) (map fst (pairs_of h (m_entries x))))"
    using find_entry_index [of "m_entries x" h s 0] assms(2) s(2)
    by (auto simp: hashes_ok_def option.map_ident)
  then show ?thesis
    using x s by (simp add: map_find_def map_view_def key_bytes_def)
qed

lemma map_has_sound:
  assumes "rc_ok h R" "hashes_ok h" "VMap (Some a) \<in># R" "VString (Some k) \<in># R"
  shows "bucc_map_has h (Some a) (Some k) = Some (map_of (map_view h a) (key_bytes h k) \<noteq> None)"
proof -
  have "(first_index (key_bytes h k) (map fst (map_view h a)) = None)
      = (map_of (map_view h a) (key_bytes h k) = None)"
    by (simp only: first_index_None map_of_eq_None_iff) simp
  then show ?thesis
    unfolding bucc_map_has_def map_find_index [OF assms] Option.bind.bind_lunit by (simp only:)
qed

lemma first_index_map_of:
  "first_index k (map fst ps) = Some i \<Longrightarrow> map_of ps k = Some (snd (ps ! i))"
  by (induction ps arbitrary: i) (auto split: if_splits)

lemma map_get_sound:
  assumes "rc_ok h R" "hashes_ok h" "VMap (Some a) \<in># R" "VString (Some k) \<in># R"
    and "\<forall>v. Some v \<in> snd ` set (map_view h a) \<longrightarrow> room h v"
  shows "\<exists>v h'. bucc_map_get h (Some a) (Some k) = Some (v, h') \<and> rc_ok h' (add_mset v R) \<and> evolves h h' \<and>
     v = (case map_of (map_view h a) (key_bytes h k) of Some (Some v) \<Rightarrow> v | _ \<Rightarrow> VNull)"
proof -
  obtain x where x: "get_map h a = Some x" "obj h a = Some (HMap x)" "m_refcount x \<noteq> 0"
    by (rule root_map [OF assms(1,3)])
  have view: "map_view h a = pairs_of h (m_entries x)" using x by (simp add: map_view_def)
  have null: "rc_ok h (add_mset VNull R)"
    using assms(1) by (auto simp: rc_inv_def typed_def)
  show ?thesis
  proof (cases "first_index (key_bytes h k) (map fst (map_view h a))")
    case None
    then have "map_of (map_view h a) (key_bytes h k) = None"
      by (simp add: first_index_None map_of_eq_None_iff)
    then show ?thesis using null None x by (simp add: bucc_map_get_def map_find_index [OF assms(1-4)])
  next
    case (Some i)
    then have i: "i < length (m_entries x)"
      using first_index_Some [OF Some] view by (simp add: pairs_of_def)
    obtain kk cell where e: "m_entries x ! i = (kk, cell)" by fastforce
    have m: "map_of (map_view h a) (key_bytes h k) = Some cell"
      using first_index_map_of [OF Some] view i e by (simp add: pairs_of_def)
    show ?thesis
    proof (cases cell)
      case None
      then show ?thesis using null Some x i e m by (simp add: bucc_map_get_def map_find_index [OF assms(1-4)])
    next
      case c: (Some v)
      have "(kk, cell) \<in> set (m_entries x)" using i e by (metis nth_mem)
      then have "typed h v" "room h v"
        using map_children_typed(2) [OF assms(1) x(2,3), of kk cell v] c assms(5) view
        by (simp, force simp: pairs_of_def)
      then obtain h' where "bucc_value_retain h v = Some h'" "rc_ok h' (add_mset v R)" "evolves h h'"
        using retain_sound [OF assms(1)] by blast
      then show ?thesis
        using Some x i e m c by (simp add: bucc_map_get_def map_find_index [OF assms(1-4)])
    qed
  qed
qed

definition roomy :: "heap \<Rightarrow> bool" where
  "roomy h \<longleftrightarrow> (\<forall>a x. obj h a = Some x \<longrightarrow> unat (rc x) < 2 ^ 32 - 2)"

lemma small_not_max: "unat (n :: u32) < 2 ^ 32 - 2 \<Longrightarrow> n \<noteq> - 1 \<and> n + 1 \<noteq> - 1"
proof -
  assume lt: "unat n < 2 ^ 32 - 2"
  have "word_of_nat (unat n + k) \<noteq> (0 :: u32)" if "k \<in> {1, 2}" for k
  proof
    assume "word_of_nat (unat n + k) = (0 :: u32)"
    then have "2 ^ 32 dvd unat n + k" by (simp add: word_of_nat_eq_0_iff del: of_nat_add)
    then have "2 ^ 32 \<le> unat n + k" by (rule dvd_imp_le) (use that in auto)
    then show False using lt that by auto
  qed
  from this [of 1] this [of 2] have "n + 1 \<noteq> 0" "n + 2 \<noteq> 0" by (simp_all add: add.commute)
  moreover have "n + 2 = (n + 1) + 1" by simp
  ultimately show ?thesis by auto
qed

lemma roomy_room: "roomy h \<Longrightarrow> room h v"
  using small_not_max by (auto simp: roomy_def room_def)

lemma room_shrinks: "shrinks h h' \<Longrightarrow> typed h' v \<Longrightarrow> room h v \<Longrightarrow> room h' v"
  unfolding room_def
proof (intro allI impI)
  fix a x' assume sh: "shrinks h h'" and r: "\<forall>a x. addr_of v = Some a \<longrightarrow> obj h a = Some x \<longrightarrow> rc x \<noteq> - 1"
    and a: "addr_of v = Some a" and x': "obj h' a = Some x'"
  obtain x where x: "obj h a = Some x"
    using sh x' by (auto simp: shrinks_def elim: evolves_obj)
  then have "rc x' \<le> rc x" "rc x \<noteq> - 1" using sh r a x' by (auto simp: shrinks_def)
  then show "rc x' \<noteq> - 1" by (metis word_order.extremum_unique)
qed

lemma room_retain:
  assumes "roomy h" "bucc_value_retain h w = Some h'" "typed h w"
  shows "room h' v"
proof (cases "addr_of w")
  case None
  then show ?thesis using assms roomy_room by (simp add: retain_None)
next
  case (Some a)
  then obtain x where x: "obj h a = Some x" "kind_ok w x" using assms(3) by (auto simp: typed_def)
  have "rc y \<noteq> - 1" "rc y + 1 \<noteq> - 1" if "obj h b = Some y" for b y
    using small_not_max [of "rc y"] assms(1) that by (auto simp: roomy_def)
  then show ?thesis
    using retain_obj [OF x(1) Some x(2)] assms(2) x(1) by (auto simp: room_def split: if_splits)
qed

lemma rc_inv_drop: "rc_inv ov h (add_mset v R) \<Longrightarrow> rc_inv ov h R"
  unfolding rc_inv_def by fastforce

lemma key_bytes_evolve:
  assumes "evolves h h'" "typed h' (VString (Some k))"
  shows "key_bytes h' k = key_bytes h k"
proof -
  obtain s' where s': "obj h' k = Some (HString s')"
    using assms(2) by (auto simp: typed_def elim!: kind_ok.elims)
  then obtain t where "obj h k = Some (HString t)" "s_data s' = s_data t"
    using evolves_string [OF assms(1)] by metis
  then show ?thesis using s' by (simp add: key_bytes_def)
qed

lemma pairs_of_evolve:
  "evolves h h' \<Longrightarrow> \<forall>e \<in> set es. typed h' (VString (Some (fst e))) \<Longrightarrow> pairs_of h' es = pairs_of h es"
  by (auto simp: pairs_of_def key_bytes_evolve)

lemma pairs_of_put [simp]:
  "obj h a = Some (HMap x) \<Longrightarrow> pairs_of (put_obj h a (HMap y)) es = pairs_of h es"
  by (auto simp: pairs_of_def key_bytes_def)

lemma hashes_put [simp]:
  "obj h a = Some (HMap x) \<Longrightarrow> hashes_ok (put_obj h a (HMap y)) = hashes_ok h"
  by (auto simp: hashes_ok_def split: if_splits) (metis hobj.distinct(3) option.inject)

lemma evolves_map:
  assumes "evolves h h'" "obj h a = Some (HMap x)" "rc_inv ov h' R" "VMap (Some a) \<in># R"
  obtains n where "n \<noteq> 0" "obj h' a = Some (HMap (x\<lparr>m_refcount := n\<rparr>))"
proof -
  obtain x' where x': "obj h' a = Some (HMap x')" "m_refcount x' \<noteq> 0"
    using root_map [OF assms(3,4)] by metis
  then have "HMap x' = set_rc (m_refcount x') (HMap x)"
    using evolves_obj [OF assms(1) x'(1)] assms(2) by auto
  with x' that show ?thesis by simp
qed

abbreviation all_refs :: "(addr \<times> bucc_value option) list \<Rightarrow> bucc_value list" where
  "all_refs es \<equiv> concat (map entry_refs es)"

lemma all_refs_split:
  "i < length es \<Longrightarrow> mset (all_refs es) = mset (entry_refs (es ! i)) + mset (all_refs (take i es @ drop (Suc i) es))"
proof -
  assume "i < length es"
  then have "es = take i es @ es ! i # drop (Suc i) es" by (rule id_take_nth_drop)
  then have "mset (all_refs es) = mset (all_refs (take i es @ es ! i # drop (Suc i) es))" by simp
  then show ?thesis by (simp add: ac_simps)
qed

lemma all_refs_update:
  "i < length es \<Longrightarrow> mset (all_refs (es[i := e])) = mset (entry_refs e) + mset (all_refs (take i es @ drop (Suc i) es))"
  using all_refs_split [of i "es[i := e]"] by simp

lemma key_in_all_refs: "(k, cell) \<in> set es \<Longrightarrow> VString (Some k) \<in> set (all_refs es)"
  by (force simp: entry_refs_def)

text \<open>The second half of replacing a value: the entry at \<open>i\<close> has given up what it had.\<close>

lemma map_set_store:
  assumes inv: "rc_inv (Map.empty(a \<mapsto> all_refs (es[i := (kk, None)]))) h R"
    and x: "obj h a = Some (HMap x)" "m_refcount x \<noteq> 0" "m_entries x = es"
    and i: "i < length es" "es ! i = (kk, cell)"
    and val: "val \<in># R" "room h val" and m: "VMap (Some a) \<in># R" and hs: "hashes_ok h"
  shows "\<exists>h'. (do { h \<leftarrow> bucc_value_retain h val; h \<leftarrow> map_put_entry h a i (Some val); Some (True, h) }) = Some (True, h')
     \<and> rc_ok h' R \<and> hashes_ok h' \<and> map_view h' a = (pairs_of h es)[i := (key_bytes h kk, Some val)]"
proof -
  let ?ov = "Map.empty(a \<mapsto> all_refs (es[i := (kk, None)]))"
  obtain h2 where h2: "bucc_value_retain h val = Some h2" "rc_inv ?ov h2 (add_mset val R)" "evolves h h2"
    using retain_sound [OF inv rc_inv_typed [OF inv val(1)] val(2)] by blast
  then obtain n where n: "n \<noteq> 0" "obj h2 a = Some (HMap (x\<lparr>m_refcount := n\<rparr>))"
    using evolves_map [OF h2(3) x(1) h2(2)] m by auto
  let ?y = "x\<lparr>m_refcount := n, m_entries := es[i := (kk, Some val)]\<rparr>"
  have inv3: "rc_inv (?ov(a := None)) (put_obj h2 a (HMap ?y)) R"
  proof (rule rc_inv_store [OF h2(2) n(2)])
    show "kind_ok v (HMap ?y) = kind_ok v (HMap (x\<lparr>m_refcount := n\<rparr>))" for v by (cases v) auto
    show "add_mset val R + mset (owned ?ov h2 a) = R + mset (children (HMap ?y))"
      using i by (simp add: owned_def all_refs_update entry_refs_def)
  qed (use n in simp_all)
  have keys: "typed h2 (VString (Some (fst e)))" if "e \<in> set es" for e
  proof -
    have "fst e \<in> fst ` set (es[i := (kk, None)])"
    proof -
      have "map fst (es[i := (kk, None)]) = map fst es"
        using i by (metis fst_conv list_update_id map_update)
      then show ?thesis using that by (metis image_eqI list.set_map)
    qed
    then have "VString (Some (fst e)) \<in> set (all_refs (es[i := (kk, None)]))"
      using key_in_all_refs by force
    moreover have "a \<in> alive h2" using n by (auto simp: alive_def)
    ultimately show ?thesis
      using heap_refs_split [of a h2 ?ov] h2(2) by (auto simp: rc_inv_def owned_def)
  qed
  have "map_view (put_obj h2 a (HMap ?y)) a = pairs_of h2 (es[i := (kk, Some val)])"
    using n by (simp add: map_view_def)
  also have "\<dots> = (pairs_of h2 es)[i := (key_bytes h2 kk, Some val)]"
    by (simp add: pairs_of_def map_update)
  also have "\<dots> = (pairs_of h es)[i := (key_bytes h kk, Some val)]"
    using pairs_of_evolve [OF h2(3), of es] key_bytes_evolve [OF h2(3), of kk] keys i
    by (metis fst_conv nth_mem)
  finally have view: "map_view (put_obj h2 a (HMap ?y)) a = (pairs_of h es)[i := (key_bytes h kk, Some val)]" .
  have "get_map h2 a = Some (x\<lparr>m_refcount := n\<rparr>)" using n(2) by (simp add: get_obj)
  then have "map_put_entry h2 a i (Some val) = Some (put_obj h2 a (HMap ?y))"
    using i x(3) by (simp add: map_put_entry_def)
  then show ?thesis
    using h2(1) inv3 view hashes_evolve [OF h2(3) hs] n(2) by auto
qed

lemma map_of_update_first:
  assumes "first_index k (map fst ps) = Some i"
  shows "map_of (ps[i := (k, v)]) = (map_of ps)(k \<mapsto> v)"
  using assms
proof (induction ps arbitrary: i)
  case (Cons p ps)
  show ?case
  proof (cases "fst p = k")
    case True
    then show ?thesis using Cons.prems by (cases p) (auto simp: fun_eq_iff)
  next
    case False
    then obtain j where "i = Suc j" "first_index k (map fst ps) = Some j" using Cons.prems by auto
    then show ?thesis using Cons.IH [of j] False by (cases p) (auto simp: fun_eq_iff)
  qed
qed simp

lemma map_of_snoc: "k \<notin> set (map fst ps) \<Longrightarrow> map_of (ps @ [(k, v)]) = (map_of ps)(k \<mapsto> v)"
  by (induction ps) (auto simp: fun_eq_iff)

lemma map_of_remove:
  "distinct (map fst ps) \<Longrightarrow> i < length ps \<Longrightarrow>
   map_of (take i ps @ drop (Suc i) ps) = (map_of ps)(fst (ps ! i) := None)"
proof (induction ps arbitrary: i)
  case (Cons p ps)
  show ?case
  proof (cases i)
    case 0
    then have "map_of ps (fst p) = None" using Cons.prems by (simp add: map_of_eq_None_iff)
    then show ?thesis using 0 by (cases p) (auto simp: fun_eq_iff)
  next
    case (Suc j)
    then have "fst (ps ! j) \<in> fst ` set ps" using Cons.prems by simp
    moreover have "fst p \<notin> fst ` set ps" using Cons.prems(1) by simp
    ultimately have "fst (ps ! j) \<noteq> fst p" by metis
    then show ?thesis using Suc Cons.IH [of j] Cons.prems by (cases p) (auto simp: fun_eq_iff)
  qed
qed simp

lemma distinct_without: "distinct xs \<Longrightarrow> distinct (take i xs @ drop (Suc i) xs)"
  using set_take_disj_set_drop_if_distinct [of xs i "Suc i"] by simp

text \<open>Overwriting the value of a key that is present.\<close>

lemma map_set_present:
  assumes "rc_ok h R" "hashes_ok h" "VMap (Some a) \<in># R" "VString (Some k) \<in># R" "val \<in># R"
    and "roomy h" "stack_ok h"
    and x: "get_map h a = Some x" "obj h a = Some (HMap x)" "m_refcount x \<noteq> 0"
    and i: "first_index (key_bytes h k) (map fst (map_view h a)) = Some i"
  shows "\<exists>ok h'. bucc_map_set h (Some a) (Some k) val = Some (ok, h') \<and> rc_ok h' R \<and> hashes_ok h' \<and>
     map_view h' a = (if ok then (map_view h a)[i := (key_bytes h k, Some val)] else map_view h a)"
proof -
  let ?es = "m_entries x"
  have view: "map_view h a = pairs_of h ?es" using x by (simp add: map_view_def)
  obtain kk cell where e: "?es ! i = (kk, cell)" by fastforce
  have il: "i < length ?es" and kk: "key_bytes h kk = key_bytes h k"
    using first_index_Some [OF i] view e by (auto simp: pairs_of_def)
  let ?vs = "all_refs (?es[i := (kk, None)])"
  note find = map_find_index [OF assms(1-4), unfolded i]
  have set: "bucc_map_set h (Some a) (Some k) val = do {
      (ok, h) \<leftarrow> (case cell of
                   Some v \<Rightarrow> do { h \<leftarrow> bucc_value_release h v; Some (True, h) }
                 | None \<Rightarrow> Some (malloc_ok h));
      if \<not> ok then Some (False, h)
      else do { h \<leftarrow> bucc_value_retain h val; h \<leftarrow> map_put_entry h a i (Some val); Some (True, h) } }"
    using find x(1) il e by (simp add: bucc_map_set_def)
  have store: "\<exists>ok h'. do { h \<leftarrow> bucc_value_retain h1 val; h \<leftarrow> map_put_entry h a i (Some val); Some (True, h) }
        = Some (ok, h') \<and> rc_ok h' R \<and> hashes_ok h' \<and>
        map_view h' a = (if ok then (map_view h a)[i := (key_bytes h k, Some val)] else map_view h a)"
    if h1: "rc_inv (Map.empty(a \<mapsto> ?vs)) h1 R" "obj h1 a = Some (HMap y)" "m_refcount y \<noteq> 0" "m_entries y = ?es"
      "room h1 val" "hashes_ok h1" "pairs_of h1 ?es = pairs_of h ?es" for h1 y
  proof -
    have "key_bytes h1 kk = key_bytes h kk"
      using arg_cong [OF h1(7), of "\<lambda>ps. fst (ps ! i)"] il e by (simp add: pairs_of_def)
    then show ?thesis
      using map_set_store [OF h1(1-4) il e assms(5) h1(5) assms(3) h1(6)] h1(7) view kk by auto
  qed
  show ?thesis
  proof (cases cell)
    case None
    have same: "?es[i := (kk, None)] = ?es" using e None by (metis list_update_id)
    have inv: "rc_inv (Map.empty(a \<mapsto> ?vs)) h R"
      using rc_inv_set_aside [OF assms(1) x(2), of R ?vs] x(2,3) same by (simp add: owned_def)
    let ?h = "h\<lparr>h_allocs := h_allocs h + 1\<rparr>"
    have "pairs_of ?h ?es = pairs_of h ?es" "hashes_ok ?h = hashes_ok h"
      by (simp_all add: pairs_of_def key_bytes_def hashes_ok_def)
    then show ?thesis
      using store [of ?h x] inv x assms(1,2) roomy_room [OF assms(6)] None set
      by (cases "h_mem h (h_allocs h)") (auto simp: malloc_ok_def map_view_def)
  next
    case (Some old)
    have "mset (all_refs ?es) = add_mset old (mset ?vs)"
      using all_refs_split [OF il] all_refs_update [OF il, of "(kk, None)"] e Some by (simp add: entry_refs_def)
    then have "rc_inv (Map.empty(a \<mapsto> ?vs)) h (add_mset old R)"
      using rc_inv_set_aside [OF assms(1) x(2), of "add_mset old R" ?vs] x(2,3) by (simp add: owned_def)
    moreover have "rooted (Map.empty(a \<mapsto> ?vs)) R" using assms(3) by (rule rooted_single) simp
    ultimately obtain h1 where h1: "bucc_value_release h old = Some h1"
      "rc_inv (Map.empty(a \<mapsto> ?vs)) h1 R" "shrinks h h1"
      using release_sound [of "Map.empty(a \<mapsto> ?vs)" h old R] assms(7)
      by (auto simp: bucc_value_release_def stack_ok_def)
    have ev: "evolves h h1" using h1(3) by (simp add: shrinks_def)
    obtain n where n: "n \<noteq> 0" "obj h1 a = Some (HMap (x\<lparr>m_refcount := n\<rparr>))"
      using evolves_map [OF ev x(2) h1(2) assms(3)] by blast
    have "room h1 val"
      using room_shrinks [OF h1(3) rc_inv_typed [OF h1(2) assms(5)]] roomy_room [OF assms(6)] by simp
    moreover have "pairs_of h1 ?es = pairs_of h ?es"
    proof (rule pairs_of_evolve [OF ev], rule ballI)
      fix e' assume "e' \<in> set ?es"
      moreover have "map fst (?es[i := (kk, None)]) = map fst ?es"
        using e by (metis fst_conv list_update_id map_update)
      ultimately have "fst e' \<in> fst ` set (?es[i := (kk, None)])" by (metis image_eqI list.set_map)
      then have "VString (Some (fst e')) \<in> set ?vs" using key_in_all_refs by force
      moreover have "a \<in> alive h1" using n by (auto simp: alive_def)
      ultimately show "typed h1 (VString (Some (fst e')))"
        using heap_refs_split [of a h1 "Map.empty(a \<mapsto> ?vs)"] h1(2) by (auto simp: rc_inv_def owned_def)
    qed
    ultimately show ?thesis
      using store [of h1 "x\<lparr>m_refcount := n\<rparr>"] h1(1,2) n hashes_evolve [OF ev assms(2)] Some set by simp
  qed
qed

text \<open>Adding a key that is absent: both halves of the code after the search.\<close>

lemma map_set_append:
  assumes inv: "rc_ok h R" and hs: "hashes_ok h" and m: "VMap (Some a) \<in># R" and k: "VString (Some k) \<in># R"
    and val: "val \<in># R" and roomy: "roomy h" and stack: "stack_ok h" and x: "obj h a = Some (HMap x)"
  shows "\<exists>ok h'. do {
       h \<leftarrow> bucc_string_retain h (Some k);
       h \<leftarrow> bucc_value_retain h val;
       let (ok, h) = malloc_ok h;
       if \<not> ok then do { h \<leftarrow> bucc_string_release h (Some k); Some (False, h) }
       else do { x \<leftarrow> get_map h a; Some (True, put_obj h a (HMap (x\<lparr>m_entries := m_entries x @ [(k, Some val)]\<rparr>))) } }
     = Some (ok, h') \<and> rc_ok h' R \<and> hashes_ok h' \<and>
     map_view h' a = (if ok then pairs_of h (m_entries x) @ [(key_bytes h k, Some val)] else pairs_of h (m_entries x))"
proof -
  have ks: "bucc_string_retain h (Some k) = bucc_value_retain h (VString (Some k))" for h
    by (simp add: bucc_value_retain_def)
  have tk: "typed h (VString (Some k))" by (rule rc_inv_typed [OF inv k])
  obtain h1 where h1: "bucc_value_retain h (VString (Some k)) = Some h1"
    "rc_ok h1 (add_mset (VString (Some k)) R)" "evolves h h1"
    using retain_sound [OF inv tk roomy_room [OF roomy]] by blast
  have "room h1 val" by (rule room_retain [OF roomy h1(1) tk])
  moreover have "typed h1 val" using rc_inv_typed [OF h1(2), of val] val by simp
  ultimately obtain h2 where h2: "bucc_value_retain h1 val = Some h2"
    "rc_ok h2 (add_mset val (add_mset (VString (Some k)) R))" "evolves h1 h2"
    using retain_sound [OF h1(2)] by blast
  have ev: "evolves h h2" by (rule evolves_trans [OF h1(3) h2(3)])
  let ?h3 = "h2\<lparr>h_allocs := h_allocs h2 + 1\<rparr>"
  obtain n where n: "n \<noteq> 0" "obj h2 a = Some (HMap (x\<lparr>m_refcount := n\<rparr>))"
    using evolves_map [OF ev x h2(2)] m by auto
  have keys: "typed g (VString (Some (fst e)))"
    if g: "rc_ok g R'" "obj g a = Some (HMap (x\<lparr>m_refcount := j\<rparr>))" "j \<noteq> 0" and e: "e \<in> set (m_entries x)" for g R' j e
    using map_children_typed(1) [OF g(1,2), of "fst e" "snd e"] g(3) e by simp
  have pairs2: "pairs_of h2 (m_entries x) = pairs_of h (m_entries x)"
    using pairs_of_evolve [OF ev] keys [OF h2(2) n(2,1)] by blast
  show ?thesis
  proof (cases "h_mem h2 (h_allocs h2)")
    case True
    let ?y = "x\<lparr>m_refcount := n, m_entries := m_entries x @ [(k, Some val)]\<rparr>"
    have n3: "obj ?h3 a = Some (HMap (x\<lparr>m_refcount := n\<rparr>))" using n by simp
    have "rc_inv (Map.empty(a := None)) (put_obj ?h3 a (HMap ?y)) R"
    proof (rule rc_inv_store [OF _ n3])
      show "rc_ok ?h3 (add_mset val (add_mset (VString (Some k)) R))" using h2(2) by simp
      show "kind_ok v (HMap ?y) = kind_ok v (HMap (x\<lparr>m_refcount := n\<rparr>))" for v by (cases v) auto
    qed (use n in \<open>simp_all add: owned_def entry_refs_def\<close>)
    moreover have "get_map ?h3 a = Some (x\<lparr>m_refcount := n\<rparr>)" using n3 by (simp add: get_obj)
    moreover have "hashes_ok ?h3"
      using hashes_evolve [OF ev hs] by (simp add: hashes_ok_def)
    moreover have "key_bytes h2 k = key_bytes h k"
      using key_bytes_evolve [OF ev] rc_inv_typed [OF h2(2)] by simp
    then have "map_view (put_obj ?h3 a (HMap ?y)) a = pairs_of h (m_entries x) @ [(key_bytes h k, Some val)]"
      using n3 pairs2 by (simp add: map_view_def) (simp add: pairs_of_def key_bytes_def)
    ultimately show ?thesis
      using True h1(1) h2(1) n3
      by (intro exI [of _ True] exI [of _ "put_obj ?h3 a (HMap ?y)"]) (simp add: ks malloc_ok_def)
  next
    case False
    have "rc_ok ?h3 (add_mset (VString (Some k)) (add_mset val R))"
      using h2(2) by (simp add: add_mset_commute)
    moreover have "card (alive ?h3) \<le> h_stack h"
      using stack ev card_mono [of "alive h" "alive h2"] by (simp add: stack_ok_def evolves_def)
    ultimately obtain h4 where h4: "release_within (h_stack h) ?h3 (VString (Some k)) = Some h4"
      "rc_ok h4 (add_mset val R)" "shrinks ?h3 h4"
      using release_sound [of Map.empty ?h3 "VString (Some k)"] by (auto simp: rooted_def)
    have ev3: "evolves ?h3 h4" using h4(3) by (simp add: shrinks_def)
    have n3: "obj ?h3 a = Some (HMap (x\<lparr>m_refcount := n\<rparr>))" using n by simp
    obtain j where j: "j \<noteq> 0" "obj h4 a = Some (HMap (x\<lparr>m_refcount := n, m_refcount := j\<rparr>))"
      using evolves_map [OF ev3 n3 h4(2)] m by auto
    have "pairs_of h4 (m_entries x) = pairs_of ?h3 (m_entries x)"
      using pairs_of_evolve [OF ev3, of "m_entries x"] keys [OF h4(2) _ j(1)] j(2) by simp
    moreover have "pairs_of ?h3 (m_entries x) = pairs_of h2 (m_entries x)"
      by (simp add: pairs_of_def key_bytes_def)
    ultimately have "map_view h4 a = pairs_of h (m_entries x)"
      using j pairs2 by (simp add: map_view_def)
    moreover have "hashes_ok h4"
      using hashes_evolve [OF ev3] hashes_evolve [OF ev hs] by (simp add: hashes_ok_def)
    ultimately show ?thesis
      using False h1(1) h2(1) h4(1) rc_inv_drop [OF h4(2)]
      by (intro exI [of _ False] exI [of _ h4]) (simp add: ks malloc_ok_def)
  qed
qed

lemma map_set_sound:
  assumes "rc_ok h R" "hashes_ok h" "VMap (Some a) \<in># R" "VString (Some k) \<in># R" "val \<in># R"
    and "roomy h" "stack_ok h"
  shows "\<exists>ok h'. bucc_map_set h (Some a) (Some k) val = Some (ok, h') \<and> rc_ok h' R \<and> hashes_ok h' \<and>
     map_of (map_view h' a) =
       (if ok then (map_of (map_view h a))(key_bytes h k \<mapsto> Some val) else map_of (map_view h a)) \<and>
     (distinct (map fst (map_view h a)) \<longrightarrow> distinct (map fst (map_view h' a)))"
proof -
  obtain x where x: "get_map h a = Some x" "obj h a = Some (HMap x)" "m_refcount x \<noteq> 0"
    by (rule root_map [OF assms(1,3)])
  have view: "map_view h a = pairs_of h (m_entries x)" using x by (simp add: map_view_def)
  show ?thesis
  proof (cases "first_index (key_bytes h k) (map fst (map_view h a))")
    case (Some i)
    obtain ok h' where h': "bucc_map_set h (Some a) (Some k) val = Some (ok, h')" "rc_ok h' R" "hashes_ok h'"
      "map_view h' a = (if ok then (map_view h a)[i := (key_bytes h k, Some val)] else map_view h a)"
      using map_set_present [OF assms x Some] by blast
    have "map fst ((map_view h a)[i := (key_bytes h k, Some val)]) = map fst (map_view h a)"
      using first_index_Some [OF Some] by (metis fst_conv list_update_id map_update)
    then show ?thesis
      using h' map_of_update_first [OF Some] by (intro exI [of _ ok] exI [of _ h']) simp
  next
    case None
    then have fresh: "key_bytes h k \<notin> set (map fst (map_view h a))" by (simp only: first_index_None not_False_eq_True)
    let ?tail = "\<lambda>h. do {
       h \<leftarrow> bucc_string_retain h (Some k);
       h \<leftarrow> bucc_value_retain h val;
       let (ok, h) = malloc_ok h;
       if \<not> ok then do { h \<leftarrow> bucc_string_release h (Some k); Some (False, h) }
       else do { x \<leftarrow> get_map h a; Some (True, put_obj h a (HMap (x\<lparr>m_entries := m_entries x @ [(k, Some val)]\<rparr>))) } }"
    have rest: "\<exists>ok h'. ?tail g = Some (ok, h') \<and> rc_ok h' R \<and> hashes_ok h' \<and>
       map_of (map_view h' a) =
         (if ok then (map_of (map_view h a))(key_bytes h k \<mapsto> Some val) else map_of (map_view h a)) \<and>
       (distinct (map fst (map_view h a)) \<longrightarrow> distinct (map fst (map_view h' a)))"
      if g: "rc_ok g R" "hashes_ok g" "roomy g" "stack_ok g" "obj g a = Some (HMap y)" "m_entries y = m_entries x"
        "pairs_of g (m_entries x) = pairs_of h (m_entries x)" "key_bytes g k = key_bytes h k" for g y
    proof -
      obtain ok h' where "?tail g = Some (ok, h')" "rc_ok h' R" "hashes_ok h'"
        "map_view h' a = (if ok then map_view h a @ [(key_bytes h k, Some val)] else map_view h a)"
        using map_set_append [OF g(1,2) assms(3-5) g(3-5)] g(6-8) view by auto
      then show ?thesis
        using map_of_snoc [OF fresh] fresh by (intro exI [of _ ok] exI [of _ h']) auto
    qed
    note find = map_find_index [OF assms(1-4), unfolded None]
    show ?thesis
    proof (cases "m_cap x \<le> length (m_entries x)")
      case False
      then have "bucc_map_set h (Some a) (Some k) val = ?tail h"
        using find x(1) by (simp add: bucc_map_set_def)
      then show ?thesis using rest [OF assms(1,2,6,7) x(2)] by simp
    next
      case full: True
      let ?h = "h\<lparr>h_allocs := h_allocs h + 1\<rparr>" and ?y = "x\<lparr>m_cap := m_cap x * 2\<rparr>"
      show ?thesis
      proof (cases "h_mem h (h_allocs h)")
        case False
        have "bucc_map_set h (Some a) (Some k) val = Some (False, ?h)"
          using find x(1) full False by (simp add: bucc_map_set_def malloc_ok_def)
        moreover have "map_view ?h a = map_view h a" "hashes_ok ?h"
          using assms(2) by simp_all
        ultimately show ?thesis using assms(1) by (intro exI [of _ False] exI [of _ ?h]) simp
      next
        case True
        have xa: "obj ?h a = Some (HMap x)" using x by simp
        let ?g = "put_obj ?h a (HMap ?y)"
        have "bucc_map_set h (Some a) (Some k) val = ?tail ?g"
          using find x(1) full True by (simp add: bucc_map_set_def malloc_ok_def)
        moreover have "rc_inv (Map.empty(a := None)) ?g R"
        proof (rule rc_inv_store [OF _ xa])
          show "kind_ok v (HMap ?y) = kind_ok v (HMap x)" for v by (cases v) auto
        qed (use assms(1) x in \<open>simp_all add: owned_def\<close>)
        moreover have "alive ?g = alive h"
          using xa x(2,3) by (auto simp: alive_put) (auto simp: alive_def)
        then have "stack_ok ?g" using assms(7) by (simp add: stack_ok_def put_obj_def)
        moreover have "unat (m_refcount x) < 2 ^ 32 - 2"
          using assms(6) x(2) unfolding roomy_def by (metis rc.simps(3))
        then have "roomy ?g"
          using assms(6) xa by (auto simp: roomy_def)
        moreover have "hashes_ok ?g" using assms(2) xa by (simp add: hashes_ok_def)
        moreover have "pairs_of ?g es = pairs_of h es" for es
          using xa by simp
        moreover have "key_bytes ?g k = key_bytes h k"
          using xa x(2) by (simp add: key_bytes_def)
        moreover have "obj ?g a = Some (HMap ?y)" using xa by simp
        ultimately show ?thesis using rest [of ?g ?y] by simp
      qed
    qed
  qed
qed

lemma map_delete_sound:
  assumes "rc_ok h R" "hashes_ok h" "VMap (Some a) \<in># R" "VString (Some k) \<in># R" "stack_ok h"
    and dist: "distinct (map fst (map_view h a))"
  shows "\<exists>h'. bucc_map_delete h (Some a) (Some k) =
       Some (map_of (map_view h a) (key_bytes h k) \<noteq> None, h') \<and> rc_ok h' R \<and> hashes_ok h' \<and>
     map_of (map_view h' a) = (map_of (map_view h a))(key_bytes h k := None) \<and>
     distinct (map fst (map_view h' a))"
proof -
  obtain x where x: "get_map h a = Some x" "obj h a = Some (HMap x)" "m_refcount x \<noteq> 0"
    by (rule root_map [OF assms(1,3)])
  have view: "map_view h a = pairs_of h (m_entries x)" using x by (simp add: map_view_def)
  show ?thesis
  proof (cases "first_index (key_bytes h k) (map fst (map_view h a))")
    case None
    then have "map_of (map_view h a) (key_bytes h k) = None"
      by (simp only: first_index_None map_of_eq_None_iff) simp
    moreover have "bucc_map_delete h (Some a) (Some k) = Some (False, h)"
      using map_find_index [OF assms(1-4), unfolded None] by (simp add: bucc_map_delete_def)
    ultimately show ?thesis
      using assms(1,2) dist by (intro exI [of _ h]) (simp add: fun_upd_idem)
  next
    case (Some i)
    let ?es = "m_entries x" and ?rest = "take i (m_entries x) @ drop (Suc i) (m_entries x)"
    obtain kk cell where e: "?es ! i = (kk, cell)" by fastforce
    have i: "i < length ?es" "key_bytes h kk = key_bytes h k"
      using first_index_Some [OF Some] view e by (auto simp: pairs_of_def)
    let ?ov = "Map.empty(a \<mapsto> all_refs ?rest)"
    let ?old = "case cell of None \<Rightarrow> {#} | Some v \<Rightarrow> {#v#}"
    have "mset (all_refs ?es) = add_mset (VString (Some kk)) (?old + mset (all_refs ?rest))"
      using all_refs_split [OF i(1)] e by (auto simp: entry_refs_def split: option.splits)
    then have "rc_inv ?ov h (add_mset (VString (Some kk)) (?old + R))"
      using rc_inv_set_aside [OF assms(1) x(2), of "add_mset (VString (Some kk)) (?old + R)" "all_refs ?rest"] x(2,3)
      by (simp add: owned_def ac_simps)
    moreover have "rooted ?ov (?old + R)" by (rule rooted_single [where v = "VMap (Some a)"]) (use assms(3) in auto)
    ultimately obtain h1 where h1: "bucc_string_release h (Some kk) = Some h1" "rc_inv ?ov h1 (?old + R)" "shrinks h h1"
      using release_sound [of ?ov h "VString (Some kk)" "?old + R" "h_stack h"] assms(5) by (auto simp: stack_ok_def)
    have "card (alive h1) \<le> h_stack h1"
      using assms(5) h1(3) card_mono [of "alive h" "alive h1"] by (simp add: stack_ok_def shrinks_def evolves_def)
    moreover have "rooted ?ov R" using assms(3) by (rule rooted_single) simp
    ultimately obtain h2 where h2: "(case cell of None \<Rightarrow> Some h1 | Some v \<Rightarrow> bucc_value_release h1 v) = Some h2"
      "rc_inv ?ov h2 R" "shrinks h1 h2"
      using release_sound [of ?ov h1 _ R "h_stack h1"] h1(2)
      by (cases cell) (auto simp: bucc_value_release_def)
    have ev: "evolves h h2" using shrinks_trans [OF h1(3) h2(3)] by (simp add: shrinks_def)
    obtain n where n: "n \<noteq> 0" "obj h2 a = Some (HMap (x\<lparr>m_refcount := n\<rparr>))"
      using evolves_map [OF ev x(2) h2(2) assms(3)] by blast
    let ?y = "x\<lparr>m_refcount := n, m_entries := ?rest\<rparr>"
    have "rc_inv (?ov(a := None)) (put_obj h2 a (HMap ?y)) R"
    proof (rule rc_inv_store [OF h2(2) n(2)])
      show "kind_ok v (HMap ?y) = kind_ok v (HMap (x\<lparr>m_refcount := n\<rparr>))" for v by (cases v) auto
    qed (use n in \<open>simp_all add: owned_def\<close>)
    then have inv: "rc_ok (put_obj h2 a (HMap ?y)) R" by simp
    have "pairs_of h2 ?rest = pairs_of h ?rest"
    proof (rule pairs_of_evolve [OF ev], rule ballI)
      fix e' assume "e' \<in> set ?rest"
      then have "VString (Some (fst e')) \<in> set (all_refs ?rest)"
        by (metis key_in_all_refs prod.collapse)
      moreover have "a \<in> alive h2" using n by (auto simp: alive_def)
      ultimately show "typed h2 (VString (Some (fst e')))"
        using heap_refs_split [of a h2 ?ov] h2(2) by (auto simp: rc_inv_def owned_def)
    qed
    then have view': "map_view (put_obj h2 a (HMap ?y)) a = take i (map_view h a) @ drop (Suc i) (map_view h a)"
      using n view by (simp add: map_view_def) (simp add: pairs_of_def take_map drop_map)
    have len: "i < length (map_view h a)" using i view by (simp add: pairs_of_def)
    have fi: "fst (map_view h a ! i) = key_bytes h k" using first_index_Some [OF Some] len by simp
    have "distinct (map fst (take i (map_view h a) @ drop (Suc i) (map_view h a)))"
      using distinct_without [OF dist, of i] by (simp add: take_map drop_map)
    moreover have "map_of (map_view h a) (key_bytes h k) \<noteq> None"
      using first_index_map_of [OF Some] by simp
    moreover have "get_map h2 a = Some (x\<lparr>m_refcount := n\<rparr>)" using n by (simp add: get_obj)
    ultimately show ?thesis
      using map_find_index [OF assms(1-4), unfolded Some] x(1) e i(1) h1(1) h2(1) inv view'
        map_of_remove [OF dist len] fi hashes_evolve [OF ev assms(2)] n(2)
      by (intro exI [of _ "put_obj h2 a (HMap ?y)"]) (simp add: bucc_map_delete_def)
  qed
qed

section \<open>Allocation\<close>

lemma obj_new:
  "obj (h\<lparr>h_objs := h_objs h @ [Some x]\<rparr>) b = (if b = length (h_objs h) then Some x else obj h b)"
  by (auto simp: obj_def nth_append)

lemma owned_new:
  "b \<noteq> length (h_objs h) \<Longrightarrow> owned ov (h\<lparr>h_objs := h_objs h @ [Some x]\<rparr>) b = owned ov h b"
  by (simp add: owned_def obj_new split: option.splits)

lemma rc_inv_new:
  assumes "rc_inv ov h R" "children x = []" "rc x = 1" "kind_ok v x" "addr_of v = Some (length (h_objs h))"
    and "ov (length (h_objs h)) = None"
  shows "rc_inv ov (h\<lparr>h_objs := h_objs h @ [Some x]\<rparr>) (add_mset v R)"
proof -
  let ?a = "length (h_objs h)" and ?h = "h\<lparr>h_objs := h_objs h @ [Some x]\<rparr>"
  note o = obj_new [of h x]
  have oa: "obj h ?a = None" by (simp add: obj_def)
  have "alive ?h = insert ?a (alive h)" using o oa assms(3) by (auto simp: alive_def)
  moreover have na: "?a \<notin> alive h" using oa by (simp add: alive_def)
  moreover have "owned ov ?h ?a = []" using o assms(2,6) by (simp add: owned_def)
  moreover have "(\<Sum>b \<in> alive h. mset (owned ov ?h b)) = (\<Sum>b \<in> alive h. mset (owned ov h b))"
  proof (rule sum.cong [OF refl])
    fix b assume "b \<in> alive h"
    then have "b \<noteq> ?a" using na by auto
    then show "mset (owned ov ?h b) = mset (owned ov h b)" by (simp add: owned_new)
  qed
  ultimately have refs: "heap_refs ov ?h = heap_refs ov h"
    by (simp add: heap_refs_def)
  have "typed ?h w" if "typed h w" for w
    using that oa by (force simp: typed_def o)
  moreover have "typed ?h v" using assms(3-5) o by (simp add: typed_def)
  moreover have "refs_to ?a (R + heap_refs ov h) = 0"
  proof -
    have "\<forall>w \<in># R + heap_refs ov h. addr_of w \<noteq> Some ?a"
    proof (rule ballI, rule notI)
      fix w assume "w \<in># R + heap_refs ov h" "addr_of w = Some ?a"
      then have "obj h ?a \<noteq> None" using assms(1) unfolding rc_inv_def typed_def by fastforce
      then show False using oa by simp
    qed
    then show ?thesis by (rule refs_to_none)
  qed
  ultimately show ?thesis
    using assms unfolding rc_inv_def refs by (auto simp: o)
qed

lemma string_new_sound:
  assumes "rc_ok h R" "hashes_ok h" "bucc_string_new h data = (p, h')"
  shows "rc_ok h' (add_mset (VString p) R) \<and> hashes_ok h' \<and> (\<forall>a. p = Some a \<longrightarrow> key_bytes h' a = data)"
proof -
  have null: "rc_ok g (add_mset (VString None) R)" if "rc_ok g R" for g
    using that by (auto simp: rc_inv_def typed_def)
  let ?h = "h\<lparr>h_allocs := h_allocs h + 1, h_allocs := h_allocs h + 1 + 1\<rparr>"
  let ?s = "HString \<lparr>s_data = data, s_refcount = 1, s_hash = hash_bytes data\<rparr>"
  have "rc_ok (?h\<lparr>h_objs := h_objs ?h @ [Some ?s]\<rparr>) (add_mset (VString (Some (length (h_objs ?h)))) R)"
    using assms(1) by (intro rc_inv_new) (simp_all del: heap.update_convs)
  moreover have "hashes_ok (?h\<lparr>h_objs := h_objs ?h @ [Some ?s]\<rparr>)"
    using assms(2) by (auto simp: hashes_ok_def obj_def nth_append split: if_splits)
  ultimately show ?thesis
    using assms null
    by (auto simp: bucc_string_new_def malloc_ok_def new_obj_def key_bytes_def obj_def split: if_splits)
qed

section \<open>Properties\<close>

text \<open>A heap with the array \<open>[''A'']\<close> and the map \<open>{''A'': ''A''}\<close>, for the witnesses.\<close>

definition example_heap :: heap where
  "example_heap =
     \<lparr>h_objs = [Some (HString \<lparr>s_data = [65], s_refcount = 4, s_hash = hash_bytes [65]\<rparr>),
                Some (HArray \<lparr>a_items = [VString (Some 0)], a_cap = 8, a_refcount = 1\<rparr>),
                Some (HMap \<lparr>m_entries = [(0, Some (VString (Some 0)))], m_cap = 8, m_refcount = 1\<rparr>)],
      h_mem = (\<lambda>_. True), h_allocs = 0, h_stack = 3\<rparr>"

definition example_roots :: "bucc_value multiset" where
  "example_roots = {#VArray (Some 1), VMap (Some 2), VString (Some 0)#}"

lemma alive_code: "alive h = set (filter (\<lambda>a. case obj h a of None \<Rightarrow> False | Some x \<Rightarrow> rc x \<noteq> 0) [0..<length (h_objs h)])"
  by (auto simp: alive_def obj_def split: option.splits if_splits)

lemma example_obj:
  "obj example_heap a =
     (if a = 0 then Some (HString \<lparr>s_data = [65], s_refcount = 4, s_hash = hash_bytes [65]\<rparr>)
      else if a = 1 then Some (HArray \<lparr>a_items = [VString (Some 0)], a_cap = 8, a_refcount = 1\<rparr>)
      else if a = 2 then Some (HMap \<lparr>m_entries = [(0, Some (VString (Some 0)))], m_cap = 8, m_refcount = 1\<rparr>)
      else None)"
  by (auto simp: obj_def example_heap_def nth_Cons split: nat.splits)

lemma example_alive: "alive example_heap = {0, 1, 2}"
  by (auto simp: alive_def example_obj)

lemma example_ok:
  "rc_ok example_heap example_roots" "hashes_ok example_heap" "stack_ok example_heap" "roomy example_heap"
  "VArray (Some 1) \<in># example_roots" "VMap (Some 2) \<in># example_roots" "VString (Some 0) \<in># example_roots"
proof -
  have "heap_refs Map.empty example_heap = {#VString (Some 0), VString (Some 0), VString (Some 0)#}"
    by (simp add: heap_refs_def example_alive owned_def example_obj entry_refs_def)
  then show "rc_ok example_heap example_roots"
    by (auto simp: rc_inv_def example_roots_def typed_def example_obj split: if_splits)
  show "stack_ok example_heap" by (simp add: stack_ok_def example_alive) (simp add: example_heap_def)
qed (auto simp: hashes_ok_def roomy_def example_obj example_roots_def split: if_splits)

text \<open>
  C23: Releasing a value the program owns is safe and returns. With one stack frame per living object,
  \<open>bucc_value_release\<close> never touches freed memory, frees nothing that is still referenced, changes no
  object except for its count, and leaves the reference counts sound for the remaining owners. Cyclic
  structures are covered: the recursion follows each object at most once.
\<close>

theorem value_release_sound:
  assumes "rc_ok h (add_mset v R)" and "card (alive h) \<le> h_stack h"
  shows "\<exists>h'. bucc_value_release h v = Some h' \<and> rc_ok h' R \<and> shrinks h h'"
  using release_sound [of Map.empty h v R "h_stack h"] assms
  by (simp add: bucc_value_release_def rooted_def)

theorem value_release_sound_witness:
  "\<exists>h'. bucc_value_release example_heap (VArray (Some 1)) = Some h' \<and>
     rc_ok h' {#VMap (Some 2), VString (Some 0)#} \<and> shrinks example_heap h'"
  by (rule value_release_sound) (use example_ok(1,3) in \<open>simp_all add: example_roots_def stack_ok_def\<close>)

text \<open>
  C24: On an array the program holds, the operations are those of a list, on every outcome of the
  allocator, and keep reference counting sound: \<open>bucc_array_push\<close> appends or changes nothing,
  \<open>bucc_array_set\<close> replaces the element when the index is in range, \<open>bucc_array_pop\<close> removes the last
  element and hands its reference to the caller, NULL for an empty array.
\<close>

theorem array_operations_are_list_operations:
  assumes "rc_ok h R" and "stack_ok h" and "VArray (Some a) \<in># R" and "val \<in># R" and "room h val"
    and "get_array h a = Some x"
  shows "(\<exists>ok h'. bucc_array_push h (Some a) val = Some (ok, h') \<and> rc_ok h' R \<and>
            map_option a_items (get_array h' a) = Some (if ok then a_items x @ [val] else a_items x))
    \<and> (\<exists>h'. bucc_array_set h (Some a) i val = Some (i < length (a_items x), h') \<and> rc_ok h' R \<and>
            map_option a_items (get_array h' a) = Some ((a_items x)[i := val]))
    \<and> (\<exists>v h'. bucc_array_pop h (Some a) = Some (v, h') \<and> rc_ok h' (add_mset v R) \<and>
            v = (if a_items x = [] then VNull else last (a_items x)) \<and>
            map_option a_items (get_array h' a) = Some (butlast (a_items x)))"
  using array_push_sound [OF assms(1,3) rc_inv_typed [OF assms(1,4)] assms(5,6)]
    array_set_sound [OF assms(1,3,6,4,5,2), of i] array_pop_sound [OF assms(1,3,6)]
  by (intro conjI) (assumption | metis)+

theorem array_operations_are_list_operations_witness:
  "\<exists>h'. bucc_array_set example_heap (Some 1) 0 (VMap (Some 2)) = Some (True, h') \<and> rc_ok h' example_roots \<and>
     map_option a_items (get_array h' 1) = Some [VMap (Some 2)]"
proof -
  have "get_array example_heap 1 = Some \<lparr>a_items = [VString (Some 0)], a_cap = 8, a_refcount = 1\<rparr>"
    by (simp add: get_obj example_obj)
  from array_operations_are_list_operations [OF example_ok(1,3,5,6) roomy_room [OF example_ok(4)] this, of 0]
  show ?thesis by simp
qed

text \<open>
  C25: A map behaves as a finite map from the bytes of its keys to values. On a map and a key the
  program holds, \<open>bucc_map_set\<close> updates the key (or, when an allocation fails, changes nothing),
  \<open>bucc_map_get\<close> returns the stored value, NULL when there is none, and \<open>bucc_map_has\<close> tells whether
  the key is present; comparing the stored hashes first never hides a key. Reference counting stays
  sound and keys stay distinct.
\<close>

theorem map_set_get_has:
  assumes "rc_ok h R" and "hashes_ok h" and "stack_ok h" and "roomy h"
    and "VMap (Some a) \<in># R" and "VString (Some k) \<in># R" and "val \<in># R"
  shows "(\<exists>ok h'. bucc_map_set h (Some a) (Some k) val = Some (ok, h') \<and> rc_ok h' R \<and> hashes_ok h' \<and>
            map_of (map_view h' a) =
              (if ok then (map_of (map_view h a))(key_bytes h k \<mapsto> Some val) else map_of (map_view h a)) \<and>
            (distinct (map fst (map_view h a)) \<longrightarrow> distinct (map fst (map_view h' a))))
    \<and> (\<exists>v h'. bucc_map_get h (Some a) (Some k) = Some (v, h') \<and> rc_ok h' (add_mset v R) \<and>
            v = (case map_of (map_view h a) (key_bytes h k) of Some (Some v) \<Rightarrow> v | _ \<Rightarrow> VNull))
    \<and> bucc_map_has h (Some a) (Some k) = Some (map_of (map_view h a) (key_bytes h k) \<noteq> None)"
  using map_set_sound [OF assms(1,2,5-7,4,3)] map_get_sound [OF assms(1,2,5,6)] map_has_sound [OF assms(1,2,5,6)]
    roomy_room [OF assms(4)] by blast

theorem map_set_get_has_witness:
  "(\<exists>v h'. bucc_map_get example_heap (Some 2) (Some 0) = Some (v, h') \<and> rc_ok h' (add_mset v example_roots) \<and>
       v = VString (Some 0))
   \<and> bucc_map_has example_heap (Some 2) (Some 0) = Some True"
proof -
  have "map_of (map_view example_heap 2) (key_bytes example_heap 0) = Some (Some (VString (Some 0)))"
    by (simp add: map_view_def example_obj pairs_of_def key_bytes_def)
  then show ?thesis
    using map_set_get_has [OF example_ok(1,2,3,4,6,7,5)] by simp
qed

text \<open>
  C26: \<open>bucc_map_delete\<close> removes exactly the key it is given, tells whether it was there, releases the
  stored key and value without touching freed memory, and keeps the other entries.
\<close>

theorem map_delete_removes_key:
  assumes "rc_ok h R" and "hashes_ok h" and "stack_ok h"
    and "VMap (Some a) \<in># R" and "VString (Some k) \<in># R" and "distinct (map fst (map_view h a))"
  shows "\<exists>h'. bucc_map_delete h (Some a) (Some k) =
       Some (map_of (map_view h a) (key_bytes h k) \<noteq> None, h') \<and> rc_ok h' R \<and> hashes_ok h' \<and>
     map_of (map_view h' a) = (map_of (map_view h a))(key_bytes h k := None) \<and>
     distinct (map fst (map_view h' a))"
  by (rule map_delete_sound [OF assms(1,2,4,5,3,6)])

theorem map_delete_removes_key_witness:
  "\<exists>h'. bucc_map_delete example_heap (Some 2) (Some 0) = Some (True, h') \<and> rc_ok h' example_roots \<and>
     hashes_ok h' \<and> map_of (map_view h' 2) = Map.empty"
proof -
  have view: "map_view example_heap 2 = [([65], Some (VString (Some 0)))]" "key_bytes example_heap 0 = [65]"
    by (simp_all add: map_view_def example_obj pairs_of_def key_bytes_def)
  then have "distinct (map fst (map_view example_heap 2))" by simp
  from map_delete_removes_key [OF example_ok(1,2,3,6,7) this] show ?thesis
    by (simp add: view) blast
qed

end
