(* ===== verification/Bucc_Module.thy ===== *)
theory Bucc_Module
  imports Bucc_Value
begin

text \<open>
  Compiled Buccaneer modules, \<^verbatim>\<open>src/buccaneer/module.c\<close>: the in-memory module, the loader of the
  \<^verbatim>\<open>.bc\<close> format, the writer, lookups and the verifier.

  \<^item> Offsets into the file image are natural numbers below its length; the fields of the format are
    words. A read outside the image is undefined behaviour and makes the loader \<^term>\<open>None\<close>.
  \<^item> A \<open>char *\<close> is the bytes before its terminator. A table that could not be allocated is \<^term>\<open>None\<close>;
    an entry of a string table is \<^term>\<open>None\<close> when it is NULL.
  \<^item> \<open>mem n\<close> says whether an allocation of \<open>n\<close> bytes succeeds. Diagnostics are left out: they do not
    influence the result.
\<close>

section \<open>The module\<close>

record bucc_module_header_t =
  magic :: bytes
  format_major :: u16
  format_minor :: u16
  flags :: u32
  header_size :: u32
  metadata_offset :: u32
  string_pool_offset :: u32
  const_pool_offset :: u32
  symbol_table_offset :: u32
  proc_table_offset :: u32
  dataset_table_offset :: u32
  import_table_offset :: u32
  bytecode_offset :: u32
  debug_map_offset :: u32
  file_length :: u32
  crc32 :: u32

record bucc_module_proc_t =
  p_name :: "bytes option"
  p_id :: u32
  p_code_offset :: u32
  p_code_len :: u32
  p_param_count :: u32
  p_local_count :: u32
  p_is_function :: bool

record bucc_module_import_t =
  i_ns :: "bytes option"
  i_fn :: "bytes option"
  i_id :: u32

text \<open>
  The counts are the C fields; a table has as many entries as its count unless it is NULL. The
  bytecode is \<^term>\<open>None\<close> when the pointer is NULL.
\<close>

record bucc_module_t =
  mod_header :: bucc_module_header_t
  mod_strings :: "bytes option list option"
  string_count :: u32
  mod_constants :: "bucc_value list option"
  const_count :: u32
  mod_procs :: "bucc_module_proc_t list option"
  proc_count :: u32
  mod_imports :: "bucc_module_import_t list option"
  import_count :: u32
  bytecode :: "bytes option"
  bytecode_len :: u32

abbreviation BUCC_MAGIC :: bytes where "BUCC_MAGIC \<equiv> [0x42, 0x55, 0x43, 0x43]"
abbreviation BUCC_FORMAT_MAJOR :: u16 where "BUCC_FORMAT_MAJOR \<equiv> 1"
abbreviation BUCC_FORMAT_MINOR :: u16 where "BUCC_FORMAT_MINOR \<equiv> 0"
abbreviation HEADER_SIZE :: nat where "HEADER_SIZE \<equiv> 60"
abbreviation SIZEOF_MODULE :: nat where "SIZEOF_MODULE \<equiv> 176"

definition zero_header :: bucc_module_header_t where
  "zero_header =
     \<lparr>magic = [0, 0, 0, 0], format_major = 0, format_minor = 0, flags = 0, header_size = 0,
      metadata_offset = 0, string_pool_offset = 0, const_pool_offset = 0, symbol_table_offset = 0,
      proc_table_offset = 0, dataset_table_offset = 0, import_table_offset = 0, bytecode_offset = 0,
      debug_map_offset = 0, file_length = 0, crc32 = 0\<rparr>"

definition zero_proc :: bucc_module_proc_t where
  "zero_proc =
     \<lparr>p_name = None, p_id = 0, p_code_offset = 0, p_code_len = 0, p_param_count = 0, p_local_count = 0,
      p_is_function = False\<rparr>"

definition zero_import :: bucc_module_import_t where
  "zero_import = \<lparr>i_ns = None, i_fn = None, i_id = 0\<rparr>"

definition zero_module :: bucc_module_t where
  "zero_module =
     \<lparr>mod_header = zero_header, mod_strings = None, string_count = 0, mod_constants = None, const_count = 0,
      mod_procs = None, proc_count = 0, mod_imports = None, import_count = 0, bytecode = None, bytecode_len = 0\<rparr>"

section \<open>Primitives\<close>

definition m_read_u8 :: "bytes \<Rightarrow> nat \<Rightarrow> u8 option" where
  "m_read_u8 data p = arr_get data p"

definition m_read_u32 :: "bytes \<Rightarrow> nat \<Rightarrow> u32 option" where
  "m_read_u32 data p =
     (if p + 4 \<le> length data then Some (word_of_nat (be_nat (take 4 (drop p data)))) else None)"

definition m_read_u16 :: "bytes \<Rightarrow> nat \<Rightarrow> u16 option" where
  "m_read_u16 data p =
     (if p + 2 \<le> length data then Some (word_of_nat (be_nat (take 2 (drop p data)))) else None)"

definition m_read_u64 :: "bytes \<Rightarrow> nat \<Rightarrow> u64 option" where
  "m_read_u64 data p =
     (if p + 8 \<le> length data then Some (word_of_nat (be_nat (take 8 (drop p data)))) else None)"

definition write_u32 :: "u32 \<Rightarrow> bytes" where
  "write_u32 v = be_bytes 4 (unat v)"

definition write_u16 :: "u16 \<Rightarrow> bytes" where
  "write_u16 v = be_bytes 2 (unat v)"

definition strcasecmp_local :: "bytes \<Rightarrow> bytes \<Rightarrow> int" where
  "strcasecmp_local a b =
     (let low = (\<lambda>c. code (c_tolower (char_of (unat (c :: u8)))));
          x = map low a @ [0]; y = map low b @ [0];
          p = filter (\<lambda>(u, v). u \<noteq> v) (zip x y)
      in case p of [] \<Rightarrow> 0 | (u, v) # _ \<Rightarrow> int u - int v)"

text \<open>The table driven CRC-32: eight steps per table entry, one table lookup per byte.\<close>

definition crc32_step :: "u32 \<Rightarrow> u32" where
  "crc32_step c = drop_bit 1 c XOR (if c AND 1 \<noteq> 0 then 0xEDB88320 else 0)"

definition crc32_table :: "u32 list" where
  "crc32_table = map (\<lambda>i. (crc32_step ^^ 8) (word_of_nat i)) [0..<256]"

definition compute_crc32 :: "bytes \<Rightarrow> u32" where
  "compute_crc32 data =
     foldl (\<lambda>crc b. (crc32_table ! unat ((crc XOR ucast b) AND 0xFF)) XOR drop_bit 8 crc) 0xFFFFFFFF data
       XOR 0xFFFFFFFF"

section \<open>Loading\<close>

text \<open>The loops stop at the count or when the cursor leaves the image; the other entries stay zero.\<close>

fun load_strings :: "(nat \<Rightarrow> bool) \<Rightarrow> bytes \<Rightarrow> nat \<Rightarrow> nat \<Rightarrow> bytes option list option" where
  "load_strings mem data 0 sp = Some []"
| "load_strings mem data (Suc n) sp =
     (if length data \<le> sp then Some (replicate (Suc n) None)
      else do {
        slen \<leftarrow> m_read_u16 data sp;
        let sp = sp + 2;
        let l = unat slen;
        if sp + l \<le> length data then do {
          rest \<leftarrow> load_strings mem data n (sp + l);
          Some ((if mem (l + 1) then Some (until_nul (take l (drop sp data))) else None) # rest) }
        else do { rest \<leftarrow> load_strings mem data n sp; Some (None # rest) } })"

fun load_constants :: "bytes \<Rightarrow> nat \<Rightarrow> nat \<Rightarrow> bucc_value list option" where
  "load_constants data 0 cp = Some []"
| "load_constants data (Suc n) cp =
     (if length data \<le> cp then Some (replicate (Suc n) VNull)
      else do {
        ty \<leftarrow> m_read_u8 data cp;
        let cp = cp + 1;
        (v, cp) \<leftarrow>
          (if ty = 1 then do { b \<leftarrow> m_read_u8 data cp; Some (VBool (b \<noteq> 0), cp + 1) }
           else if ty = 2 then do { w \<leftarrow> m_read_u64 data cp; Some (VI64 w, cp + 8) }
           else if ty = 3 then do { w \<leftarrow> m_read_u64 data cp; Some (VF64 w, cp + 8) }
           else Some (VNull, cp));
        rest \<leftarrow> load_constants data n cp;
        Some (v # rest) })"

text \<open>\<open>strdup (mod->strings[idx])\<close>, for an index below the string count.\<close>

definition dup_string :: "(nat \<Rightarrow> bool) \<Rightarrow> bytes option list option \<Rightarrow> u32 \<Rightarrow> bytes option option" where
  "dup_string mem strs idx = do {
     table \<leftarrow> strs;
     entry \<leftarrow> arr_get table (unat idx);
     s \<leftarrow> entry;
     Some (if mem (length s + 1) then Some s else None) }"

definition load_name :: "(nat \<Rightarrow> bool) \<Rightarrow> bytes option list option \<Rightarrow> u32 \<Rightarrow> u32 \<Rightarrow> bytes option option" where
  "load_name mem strs scount idx = (if idx < scount then dup_string mem strs idx else Some None)"

fun load_procs :: "(nat \<Rightarrow> bool) \<Rightarrow> bytes \<Rightarrow> bytes option list option \<Rightarrow> u32 \<Rightarrow> nat \<Rightarrow> nat
    \<Rightarrow> bucc_module_proc_t list option" where
  "load_procs mem data strs scount 0 pt = Some []"
| "load_procs mem data strs scount (Suc n) pt =
     (if length data < pt + 16 then Some (replicate (Suc n) zero_proc)
      else do {
        name_idx \<leftarrow> m_read_u32 data pt;
        i \<leftarrow> m_read_u32 data (pt + 4);
        off \<leftarrow> m_read_u32 data (pt + 8);
        len \<leftarrow> m_read_u32 data (pt + 12);
        params \<leftarrow> m_read_u16 data (pt + 16);
        locals \<leftarrow> m_read_u16 data (pt + 18);
        f \<leftarrow> m_read_u8 data (pt + 20);
        name \<leftarrow> load_name mem strs scount name_idx;
        rest \<leftarrow> load_procs mem data strs scount n (pt + 24);
        Some (\<lparr>p_name = name, p_id = i, p_code_offset = off, p_code_len = len, p_param_count = ucast params,
               p_local_count = ucast locals, p_is_function = (f \<noteq> 0)\<rparr> # rest) })"

fun load_imports :: "(nat \<Rightarrow> bool) \<Rightarrow> bytes \<Rightarrow> bytes option list option \<Rightarrow> u32 \<Rightarrow> nat \<Rightarrow> nat
    \<Rightarrow> bucc_module_import_t list option" where
  "load_imports mem data strs scount 0 it = Some []"
| "load_imports mem data strs scount (Suc n) it =
     (if length data < it + 12 then Some (replicate (Suc n) zero_import)
      else do {
        ns_idx \<leftarrow> m_read_u32 data it;
        fn_idx \<leftarrow> m_read_u32 data (it + 4);
        i \<leftarrow> m_read_u32 data (it + 8);
        ns \<leftarrow> load_name mem strs scount ns_idx;
        fn \<leftarrow> load_name mem strs scount fn_idx;
        rest \<leftarrow> load_imports mem data strs scount n (it + 12);
        Some (\<lparr>i_ns = ns, i_fn = fn, i_id = i\<rparr> # rest) })"

definition load_header :: "bytes \<Rightarrow> bucc_module_header_t option" where
  "load_header data = do {
     major \<leftarrow> m_read_u16 data 4; minor \<leftarrow> m_read_u16 data 6; fl \<leftarrow> m_read_u32 data 8;
     hs \<leftarrow> m_read_u32 data 12; md \<leftarrow> m_read_u32 data 16; sp \<leftarrow> m_read_u32 data 20;
     cp \<leftarrow> m_read_u32 data 24; st \<leftarrow> m_read_u32 data 28; pt \<leftarrow> m_read_u32 data 32;
     dt \<leftarrow> m_read_u32 data 36; it \<leftarrow> m_read_u32 data 40; bc \<leftarrow> m_read_u32 data 44;
     dm \<leftarrow> m_read_u32 data 48; fl_len \<leftarrow> m_read_u32 data 52; crc \<leftarrow> m_read_u32 data 56;
     Some \<lparr>magic = take 4 data, format_major = major, format_minor = minor, flags = fl, header_size = hs,
           metadata_offset = md, string_pool_offset = sp, const_pool_offset = cp, symbol_table_offset = st,
           proc_table_offset = pt, dataset_table_offset = dt, import_table_offset = it, bytecode_offset = bc,
           debug_map_offset = dm, file_length = fl_len, crc32 = crc\<rparr> }"

text \<open>
  A section is present when its offset is neither 0 nor past the end. Its count comes first; the
  table is allocated for that many entries of \<open>esz\<close> bytes, and read only if that succeeded.
\<close>

definition load_section :: "(nat \<Rightarrow> bool) \<Rightarrow> bytes \<Rightarrow> u32 \<Rightarrow> nat \<Rightarrow> (nat \<Rightarrow> nat \<Rightarrow> 'a list option)
    \<Rightarrow> (u32 \<times> 'a list option) option" where
  "load_section mem data off esz body =
     (if 0 < off \<and> unat off < length data then do {
        cnt \<leftarrow> m_read_u32 data (unat off);
        if mem (unat cnt * esz) then do { xs \<leftarrow> body (unat cnt) (unat off + 4); Some (cnt, Some xs) }
        else Some (cnt, None) }
      else Some (0, None))"

definition load_bytecode :: "(nat \<Rightarrow> bool) \<Rightarrow> bytes \<Rightarrow> bucc_module_header_t \<Rightarrow> (bytes option \<times> u32) option" where
  "load_bytecode mem data h =
     (if 0 < bytecode_offset h \<and> unat (bytecode_offset h) < length data then
        (let bc_len = (if bytecode_offset h < debug_map_offset h
                       then debug_map_offset h - bytecode_offset h
                       else word_of_nat (length data - unat (bytecode_offset h)))
         in if mem (unat bc_len) then
              (if unat (bytecode_offset h) + unat bc_len \<le> length data
               then Some (Some (take (unat bc_len) (drop (unat (bytecode_offset h)) data)), bc_len)
               else None)
            else Some (None, 0))
      else Some (None, 0))"

text \<open>The outer option is undefined behaviour, the inner one a NULL result.\<close>

definition bucc_module_load_memory :: "(nat \<Rightarrow> bool) \<Rightarrow> bytes \<Rightarrow> bucc_module_t option option" where
  "bucc_module_load_memory mem data =
     (if length data < HEADER_SIZE then Some None
      else if take 4 data \<noteq> BUCC_MAGIC then Some None
      else if \<not> mem SIZEOF_MODULE then Some None
      else do {
        h \<leftarrow> load_header data;
        if format_major h \<noteq> BUCC_FORMAT_MAJOR then Some None
        else do {
          (sc, strs) \<leftarrow> load_section mem data (string_pool_offset h) 8 (load_strings mem data);
          (cc, cs) \<leftarrow> load_section mem data (const_pool_offset h) 16 (load_constants data);
          (pc, ps) \<leftarrow> load_section mem data (proc_table_offset h) 32 (load_procs mem data strs sc);
          (ic, im) \<leftarrow> load_section mem data (import_table_offset h) 32 (load_imports mem data strs sc);
          (bc, bl) \<leftarrow> load_bytecode mem data h;
          Some (Some \<lparr>mod_header = h, mod_strings = strs, string_count = sc, mod_constants = cs, const_count = cc,
                      mod_procs = ps, proc_count = pc, mod_imports = im, import_count = ic,
                      bytecode = bc, bytecode_len = bl\<rparr>) } })"

text \<open>
  \<open>bucc_module_load_file\<close>: \<open>file\<close> is the content of the file, \<^term>\<open>None\<close> if it cannot be opened or
  read.
\<close>

definition bucc_module_load_file :: "(nat \<Rightarrow> bool) \<Rightarrow> bytes option \<Rightarrow> bucc_module_t option option" where
  "bucc_module_load_file mem file =
     (case file of
        None \<Rightarrow> Some None
      | Some data \<Rightarrow>
          if data = [] then Some None
          else if \<not> mem (length data) then Some None
          else bucc_module_load_memory mem data)"

section \<open>Lookups\<close>

definition bucc_module_find_proc :: "bucc_module_t \<Rightarrow> bytes \<Rightarrow> nat option option" where
  "bucc_module_find_proc m name =
     (if proc_count m = 0 then Some None
      else do {
        ps \<leftarrow> mod_procs m;
        Some (case filter (\<lambda>i. case p_name (ps ! i) of None \<Rightarrow> False | Some n \<Rightarrow> strcasecmp_local n name = 0)
                     [0..<length ps] of
                [] \<Rightarrow> None | i # _ \<Rightarrow> Some i) })"

definition bucc_module_get_main :: "bucc_module_t \<Rightarrow> nat option option" where
  "bucc_module_get_main m = bucc_module_find_proc m (cstr_bytes ''Main'')"

text \<open>The outer option is the read of the table, the inner one a NULL result.\<close>

definition bucc_module_get_string :: "bucc_module_t \<Rightarrow> u32 \<Rightarrow> bytes option option" where
  "bucc_module_get_string m index =
     (if string_count m \<le> index then Some None
      else do { strs \<leftarrow> mod_strings m; arr_get strs (unat index) })"

definition bucc_module_get_constant :: "bucc_module_t \<Rightarrow> u32 \<Rightarrow> bucc_value option" where
  "bucc_module_get_constant m index =
     (if const_count m \<le> index then Some VNull
      else do { cs \<leftarrow> mod_constants m; arr_get cs (unat index) })"

section \<open>Writing\<close>

record pool =
  pool_strings :: "bytes option list"
  pool_cap :: nat

text \<open>The index of the string and the pool; \<open>strcmp\<close> on equal C strings is equality.\<close>

definition add_string_to_pool :: "(nat \<Rightarrow> bool) \<Rightarrow> pool \<Rightarrow> bytes option \<Rightarrow> nat \<times> pool" where
  "add_string_to_pool mem p str =
     (let s = (case str of None \<Rightarrow> [] | Some s \<Rightarrow> s);
          hits = filter (\<lambda>i. pool_strings p ! i = Some s) [0..<length (pool_strings p)];
          dup = (if mem (length s + 1) then Some s else None) in
      case hits of
        i # _ \<Rightarrow> (i, p)
      | [] \<Rightarrow>
          if pool_cap p \<le> length (pool_strings p) then
            (let new_cap = (if pool_cap p = 0 then 16 else pool_cap p * 2) in
             if mem (new_cap * 8)
             then (length (pool_strings p), p\<lparr>pool_strings := pool_strings p @ [dup], pool_cap := new_cap\<rparr>)
             else (0, p))
          else (length (pool_strings p), p\<lparr>pool_strings := pool_strings p @ [dup]\<rparr>))"

fun add_strings :: "(nat \<Rightarrow> bool) \<Rightarrow> pool \<Rightarrow> bytes option list \<Rightarrow> nat list \<times> pool" where
  "add_strings mem p [] = ([], p)"
| "add_strings mem p (s # ss) =
     (let (i, p) = add_string_to_pool mem p s; (js, p) = add_strings mem p ss in (i # js, p))"

fun add_imports :: "(nat \<Rightarrow> bool) \<Rightarrow> pool \<Rightarrow> bucc_module_import_t list \<Rightarrow> (nat \<times> nat) list \<times> pool" where
  "add_imports mem p [] = ([], p)"
| "add_imports mem p (x # xs) =
     (let (i, p) = add_string_to_pool mem p (i_ns x);
          (j, p) = add_string_to_pool mem p (i_fn x);
          (js, p) = add_imports mem p xs in ((i, j) # js, p))"

definition table_of :: "u32 \<Rightarrow> 'a list option \<Rightarrow> 'a list option" where
  "table_of n t = (if n = 0 then Some [] else t)"

definition string_bytes :: "bytes option \<Rightarrow> bytes" where
  "string_bytes s =
     (let b = (case s of None \<Rightarrow> [] | Some b \<Rightarrow> b) in write_u16 (word_of_nat (length b)) @ b)"

definition constant_bytes :: "bucc_value \<Rightarrow> bytes" where
  "constant_bytes v =
     (case v of
        VBool b \<Rightarrow> [1, if b then 1 else 0]
      | VI64 i \<Rightarrow> 2 # be_bytes 8 (unat i)
      | VF64 d \<Rightarrow> 3 # be_bytes 8 (unat d)
      | _ \<Rightarrow> [0])"

definition proc_bytes :: "nat \<Rightarrow> bucc_module_proc_t \<Rightarrow> bytes" where
  "proc_bytes name_idx p =
     write_u32 (word_of_nat name_idx) @ write_u32 (p_id p) @ write_u32 (p_code_offset p)
       @ write_u32 (p_code_len p) @ write_u16 (ucast (p_param_count p)) @ write_u16 (ucast (p_local_count p))
       @ [if p_is_function p then 1 else 0, 0, 0, 0]"

definition import_bytes :: "nat \<times> nat \<Rightarrow> bucc_module_import_t \<Rightarrow> bytes" where
  "import_bytes idx x =
     write_u32 (word_of_nat (fst idx)) @ write_u32 (word_of_nat (snd idx)) @ write_u32 (i_id x)"

text \<open>
  The image the writer assembles in its buffer: the header, then the sections one behind the other.
  The buffer is exactly as long as the sections, whose sizes are added up first; they are assumed to
  stay below 4 GB, as the 32-bit offsets of the format require.
\<close>

definition header_bytes :: "u32 \<Rightarrow> nat \<Rightarrow> nat \<Rightarrow> nat \<Rightarrow> nat \<Rightarrow> nat \<Rightarrow> nat \<Rightarrow> u32 \<Rightarrow> bytes" where
  "header_bytes fl sp cp pt it bc total_size crc =
     BUCC_MAGIC @ write_u16 BUCC_FORMAT_MAJOR @ write_u16 BUCC_FORMAT_MINOR @ write_u32 fl
       @ write_u32 60 @ write_u32 0 @ write_u32 (word_of_nat sp) @ write_u32 (word_of_nat cp) @ write_u32 0
       @ write_u32 (word_of_nat pt) @ write_u32 0 @ write_u32 (word_of_nat it) @ write_u32 (word_of_nat bc)
       @ write_u32 0 @ write_u32 (word_of_nat total_size) @ write_u32 crc"

definition image_of :: "u32 \<Rightarrow> bytes option list \<Rightarrow> bucc_value list \<Rightarrow> (nat \<times> bucc_module_proc_t) list
    \<Rightarrow> ((nat \<times> nat) \<times> bucc_module_import_t) list \<Rightarrow> bytes \<Rightarrow> bytes" where
  "image_of fl strs cs ps im bc =
     (let sb = write_u32 (word_of_nat (length strs)) @ concat (map string_bytes strs);
          cb = write_u32 (word_of_nat (length cs)) @ concat (map constant_bytes cs);
          pb = write_u32 (word_of_nat (length ps)) @ concat (map (\<lambda>(i, p). proc_bytes i p) ps);
          ib = write_u32 (word_of_nat (length im)) @ concat (map (\<lambda>(i, x). import_bytes i x) im);
          o1 = HEADER_SIZE; o2 = o1 + length sb; o3 = o2 + length cb; o4 = o3 + length pb; o5 = o4 + length ib;
          total_size = o5 + length bc;
          body = sb @ cb @ pb @ ib @ bc;
          crc = compute_crc32 (header_bytes fl o1 o2 o3 o4 o5 total_size 0 @ body)
      in header_bytes fl o1 o2 o3 o4 o5 total_size crc @ body)"

text \<open>
  \<open>bucc_module_save_file\<close> up to the file: the image it writes, or \<^term>\<open>None\<close> inside for the \<open>false\<close> result
  when the buffer cannot be allocated. The index tables are written without checking that they were
  allocated.
\<close>

definition module_image :: "(nat \<Rightarrow> bool) \<Rightarrow> bucc_module_t \<Rightarrow> bytes option option" where
  "module_image mem m = do {
     strs \<leftarrow> table_of (string_count m) (mod_strings m);
     ps \<leftarrow> table_of (proc_count m) (mod_procs m);
     im \<leftarrow> table_of (import_count m) (mod_imports m);
     cs \<leftarrow> table_of (const_count m) (mod_constants m);
     let cap = unat (string_count m) + unat (import_count m) * 2 + unat (proc_count m) + 16;
     if \<not> mem (cap * 8) \<and> (strs \<noteq> [] \<or> ps \<noteq> [] \<or> im \<noteq> []) then None
     else if \<not> mem (max 1 (length ps) * 4) \<and> ps \<noteq> [] then None
     else if \<not> mem (max 1 (length im) * 4) \<and> im \<noteq> [] then None
     else do {
       let (_, p) = add_strings mem \<lparr>pool_strings = [], pool_cap = cap\<rparr> strs;
       let (pn, p) = add_strings mem p (map p_name ps);
       let (ix, p) = add_imports mem p im;
       let img = image_of (flags (mod_header m)) (pool_strings p) cs (zip pn ps) (zip ix im)
                   (case bytecode m of Some bc \<Rightarrow> bc | None \<Rightarrow> replicate (unat (bytecode_len m)) 0);
       Some (if mem (length img) then Some img else None) } }"

text \<open>\<open>fwrite n\<close> says how many of \<open>n\<close> bytes reach the file, \<^term>\<open>None\<close> if it cannot be created.\<close>

definition bucc_module_save_file ::
    "(nat \<Rightarrow> bool) \<Rightarrow> (nat \<Rightarrow> nat) option \<Rightarrow> bucc_module_t \<Rightarrow> (bool \<times> bytes option) option" where
  "bucc_module_save_file mem fwrite m = do {
     img \<leftarrow> module_image mem m;
     (case (img, fwrite) of
        (Some b, Some w) \<Rightarrow> Some (w (length b) = length b, Some (take (w (length b)) b))
      | _ \<Rightarrow> Some (False, None)) }"

section \<open>Verification\<close>

text \<open>The operand bytes the verifier assumes for an opcode, \<^term>\<open>None\<close> for an unknown one.\<close>

definition verify_operands :: "u8 \<Rightarrow> nat option" where
  "verify_operands op =
     (if op \<in> {0x00, 0x01, 0x02, 0x03, 0x04, 0x0A, 0x0B, 0x0C,
               0x20, 0x21, 0x22, 0x23, 0x24, 0x25, 0x26, 0x27, 0x28, 0x29, 0x2A, 0x2B, 0x2C, 0x2D, 0x2E, 0x2F,
               0x35, 0x36, 0x38, 0x40, 0x41, 0x42, 0x43, 0x44, 0x45, 0x46, 0x47, 0x48, 0x49,
               0x61, 0x62, 0x63, 0x70, 0x71, 0x72, 0x73, 0x74, 0x75, 0x76, 0x7F} then Some 0
      else if op \<in> {0x05, 0x06, 0x07, 0x08, 0x09, 0x10, 0x11, 0x12, 0x13, 0x14, 0x7E} then Some 2
      else if op \<in> {0x33, 0x34, 0x50, 0x51} then Some 3
      else if op \<in> {0x30, 0x31, 0x32, 0x37, 0x60} then Some 4
      else None)"

text \<open>
  The loop over the bytecode. The offset is a 32-bit word; the bytecode is shorter than its range, so
  every round moves the offset up. A round that did not (possible only within four bytes of \<open>2^32\<close>)
  would repeat for ever.
\<close>

partial_function (option) verify_loop :: "bytes \<Rightarrow> u32 \<Rightarrow> u32 \<Rightarrow> bool option" where
  "verify_loop bc len ip =
     (if len \<le> ip then Some True
      else
        (case verify_operands (bc ! unat ip) of
           None \<Rightarrow> Some False
         | Some n \<Rightarrow>
             let ip = ip + 1 in
             if n \<noteq> 0 \<and> len < ip + word_of_nat n then Some False
             else verify_loop bc len (ip + word_of_nat n)))"

definition verify_bytecode_bounds :: "bucc_module_t \<Rightarrow> bool option" where
  "verify_bytecode_bounds m =
     (case bytecode m of
        None \<Rightarrow> Some True
      | Some bc \<Rightarrow> if bytecode_len m = 0 then Some True else verify_loop bc (bytecode_len m) 0)"

definition verify_procedure_offsets :: "bucc_module_t \<Rightarrow> bool option" where
  "verify_procedure_offsets m = do {
     ps \<leftarrow> table_of (proc_count m) (mod_procs m);
     Some (list_all (\<lambda>p. p_code_offset p \<le> bytecode_len m
                        \<and> p_code_offset p + p_code_len p \<le> bytecode_len m) ps) }"

definition verify_import_table :: "bucc_module_t \<Rightarrow> bool option" where
  "verify_import_table m = do {
     im \<leftarrow> table_of (import_count m) (mod_imports m);
     Some (list_all (\<lambda>x. i_ns x \<noteq> None \<and> i_ns x \<noteq> Some [] \<and> i_fn x \<noteq> None \<and> i_fn x \<noteq> Some []) im) }"

definition verify_constant_pool :: "bucc_module_t \<Rightarrow> bool option" where
  "verify_constant_pool m = do {
     cs \<leftarrow> table_of (const_count m) (mod_constants m);
     Some (list_all (\<lambda>c. case c of VString _ \<Rightarrow> False | VArray _ \<Rightarrow> False | VMap _ \<Rightarrow> False | VError _ \<Rightarrow> False
                          | _ \<Rightarrow> True) cs) }"

text \<open>\<open>and_then\<close>: the checks stop at the first that fails.\<close>

definition and_then :: "bool option \<Rightarrow> bool option \<Rightarrow> bool option" where
  "and_then a b = (case a of None \<Rightarrow> None | Some False \<Rightarrow> Some False | Some True \<Rightarrow> b)"

definition bucc_module_verify :: "bucc_module_t \<Rightarrow> bool option" where
  "bucc_module_verify m =
     (if magic (mod_header m) \<noteq> BUCC_MAGIC then Some False
      else if format_major (mod_header m) \<noteq> BUCC_FORMAT_MAJOR then Some False
      else
        and_then (map_option (\<lambda>i. i \<noteq> None) (bucc_module_get_main m))
          (and_then (verify_procedure_offsets m)
            (and_then (verify_import_table m)
              (and_then (verify_constant_pool m) (verify_bytecode_bounds m)))))"

section \<open>Reading what was written\<close>

lemma length_write [simp]: "length (write_u32 v) = 4" "length (write_u16 w) = 2"
  by (simp_all add: write_u32_def write_u16_def)

lemma m_read_u32_at:
  "length pre = n \<Longrightarrow> m_read_u32 (pre @ write_u32 v @ post) n = Some v"
  by (auto simp: m_read_u32_def write_u32_def be_nat_be_bytes)

lemma m_read_u16_at:
  "length pre = n \<Longrightarrow> m_read_u16 (pre @ write_u16 v @ post) n = Some v"
  by (auto simp: m_read_u16_def write_u16_def be_nat_be_bytes)

lemma m_read_u64_at:
  "length pre = n \<Longrightarrow> m_read_u64 (pre @ be_bytes 8 (unat v) @ post) n = Some v"
  by (auto simp: m_read_u64_def be_nat_be_bytes)

lemma m_read_u8_at: "length pre = n \<Longrightarrow> m_read_u8 (pre @ b # post) n = Some b"
  by (auto simp: m_read_u8_def arr_get_def nth_append)

text \<open>A C string that fits the format: no NUL, at most 65535 bytes.\<close>

definition text_ok :: "bytes option \<Rightarrow> bool" where
  "text_ok s \<longleftrightarrow> (\<exists>b. s = Some b \<and> 0 \<notin> set b \<and> length b < 2 ^ 16)"

lemma load_strings_at:
  assumes "\<forall>n. mem n" "\<forall>s \<in> set strs. text_ok s" "length pre = sp"
  shows "load_strings mem (pre @ concat (map string_bytes strs) @ post) (length strs) sp = Some strs"
  using assms(2,3)
proof (induction strs arbitrary: pre sp)
  case Nil
  then show ?case by simp
next
  case (Cons s strs)
  then obtain b where b: "s = Some b" "0 \<notin> set b" "length b < 2 ^ 16" by (auto simp: text_ok_def)
  let ?R = "concat (map string_bytes strs) @ post"
  have sb: "string_bytes s = write_u16 (word_of_nat (length b)) @ b"
    using b by (simp add: string_bytes_def)
  have rd: "m_read_u16 (pre @ write_u16 (word_of_nat (length b)) @ b @ ?R) sp = Some (word_of_nat (length b))"
    using Cons.prems by (intro m_read_u16_at) simp
  have u: "unat (word_of_nat (length b) :: u16) = length b" using b by (simp add: unat_of_nat)
  have nul: "until_nul b = b" using b(2) by (auto simp: until_nul_def takeWhile_eq_all_conv)
  have "load_strings mem ((pre @ string_bytes s) @ ?R) (length strs) (sp + 2 + length b) = Some strs"
    using Cons.prems sb by (intro Cons.IH) auto
  moreover have "mem (length b + 1)" using assms(1) by blast
  ultimately show ?case
    using rd u nul b(1) Cons.prems(2) sb by (simp add: Let_def)
qed

lemma constant_bytes_simps:
  "constant_bytes VNull = [0]" "constant_bytes (VBool b) = [1, if b then 1 else 0]"
  "constant_bytes (VI64 i) = 2 # be_bytes 8 (unat i)" "constant_bytes (VF64 d) = 3 # be_bytes 8 (unat d)"
  by (simp_all add: constant_bytes_def)

definition constant_ok :: "bucc_value \<Rightarrow> bool" where
  "constant_ok v \<longleftrightarrow> (case v of VNull \<Rightarrow> True | VBool _ \<Rightarrow> True | VI64 _ \<Rightarrow> True | VF64 _ \<Rightarrow> True | _ \<Rightarrow> False)"

lemma load_constants_at:
  assumes "\<forall>c \<in> set cs. constant_ok c" "length pre = cp"
  shows "load_constants (pre @ concat (map constant_bytes cs) @ post) (length cs) cp = Some cs"
  using assms
proof (induction cs arbitrary: pre cp)
  case Nil
  then show ?case by simp
next
  case (Cons c cs)
  let ?R = "concat (map constant_bytes cs) @ post"
  have ih: "load_constants ((pre @ constant_bytes c) @ ?R) (length cs) (cp + length (constant_bytes c)) = Some cs"
    using Cons.prems by (intro Cons.IH) auto
  have ty: "m_read_u8 (pre @ constant_bytes c @ ?R) cp = Some (hd (constant_bytes c))"
    using Cons.prems m_read_u8_at [of pre cp "hd (constant_bytes c)" "tl (constant_bytes c) @ ?R"]
    by (cases c) (auto simp: constant_bytes_def)
  show ?case
  proof (cases c)
    case (VBool b)
    have "m_read_u8 (pre @ 1 # (if b then 1 else 0) # ?R) (cp + 1) = Some (if b then 1 else 0)"
      using m_read_u8_at [of "pre @ [1]" "cp + 1" "if b then 1 else 0" ?R] Cons.prems by simp
    then show ?thesis using VBool ty ih Cons.prems(2) by (simp add: constant_bytes_simps)
  next
    case (VI64 v)
    have "m_read_u64 (pre @ 2 # be_bytes 8 (unat v) @ ?R) (cp + 1) = Some v"
      using m_read_u64_at [of "pre @ [2]" "cp + 1" v ?R] Cons.prems by simp
    then show ?thesis using VI64 ty ih Cons.prems(2) by (simp add: constant_bytes_simps add.commute del: be_bytes.simps)
  next
    case (VF64 v)
    have "m_read_u64 (pre @ 3 # be_bytes 8 (unat v) @ ?R) (cp + 1) = Some v"
      using m_read_u64_at [of "pre @ [3]" "cp + 1" v ?R] Cons.prems by simp
    then show ?thesis using VF64 ty ih Cons.prems(2) by (simp add: constant_bytes_simps add.commute del: be_bytes.simps)
  qed (use Cons.prems ty ih in \<open>simp_all add: constant_ok_def constant_bytes_simps\<close>)
qed

text \<open>An index into the string pool that leads to a given string.\<close>

definition points_to :: "bytes option list \<Rightarrow> nat \<Rightarrow> bytes option \<Rightarrow> bool" where
  "points_to strs i s \<longleftrightarrow> i < length strs \<and> strs ! i = s"

lemma load_name_at:
  "\<forall>n. mem n \<Longrightarrow> points_to strs i (Some b) \<Longrightarrow> length strs < 2 ^ 32 \<Longrightarrow>
   load_name mem (Some strs) (word_of_nat (length strs)) (word_of_nat i) = Some (Some b)"
  by (simp add: load_name_def dup_string_def points_to_def word_less_nat_alt unat_of_nat)

definition proc_ok :: "bucc_module_proc_t \<Rightarrow> bool" where
  "proc_ok p \<longleftrightarrow> text_ok (p_name p) \<and> unat (p_param_count p) < 2 ^ 16 \<and> unat (p_local_count p) < 2 ^ 16"

lemma ucast_ucast_u16: "unat (w :: u32) < 2 ^ 16 \<Longrightarrow> (ucast (ucast w :: u16) :: u32) = w"
proof -
  assume "unat w < 2 ^ 16"
  then have "unat (ucast (ucast w :: u16) :: u32) = unat w"
    by (simp add: unsigned_ucast_eq unsigned_take_bit_eq take_bit_nat_eq_self)
  then show ?thesis by (simp only: unsigned_word_eqI)
qed

lemma load_procs_at:
  assumes "\<forall>n. mem n" "\<forall>(i, p) \<in> set ps. proc_ok p \<and> points_to strs i (p_name p)" "length strs < 2 ^ 32"
    and "length pre = pt"
  shows "load_procs mem (pre @ concat (map (\<lambda>(i, p). proc_bytes i p) ps) @ post) (Some strs)
           (word_of_nat (length strs)) (length ps) pt = Some (map snd ps)"
  using assms(2,4)
proof (induction ps arbitrary: pre pt)
  case Nil
  then show ?case by simp
next
  case (Cons x ps)
  obtain i p where x: "x = (i, p)" by fastforce
  then obtain b where p: "p_name p = Some b" "points_to strs i (Some b)"
    "unat (p_param_count p) < 2 ^ 16" "unat (p_local_count p) < 2 ^ 16"
    using Cons.prems(1) by (auto simp: proc_ok_def text_ok_def)
  let ?R = "concat (map (\<lambda>(i, p). proc_bytes i p) ps) @ post"
  let ?w = "\<lambda>n. write_u32 (word_of_nat n)"
  let ?f = "if p_is_function p then 1 else 0 :: u8"
  let ?t = "[?f, 0, 0, 0] @ ?R"
  let ?t1 = "write_u16 (ucast (p_local_count p)) @ ?t"
  let ?t2 = "write_u16 (ucast (p_param_count p)) @ ?t1"
  let ?D = "pre @ ?w i @ write_u32 (p_id p) @ write_u32 (p_code_offset p) @ write_u32 (p_code_len p) @ ?t2"
  have D: "pre @ proc_bytes i p @ ?R = ?D" by (simp add: proc_bytes_def)
  have rd: "m_read_u32 ?D pt = Some (word_of_nat i)" "m_read_u32 ?D (pt + 4) = Some (p_id p)"
    "m_read_u32 ?D (pt + 8) = Some (p_code_offset p)" "m_read_u32 ?D (pt + 12) = Some (p_code_len p)"
    "m_read_u16 ?D (pt + 16) = Some (ucast (p_param_count p))" "m_read_u16 ?D (pt + 18) = Some (ucast (p_local_count p))"
    "m_read_u8 ?D (pt + 20) = Some ?f"
    using Cons.prems(2)
      m_read_u32_at [of pre pt]
      m_read_u32_at [of "pre @ ?w i" "pt + 4"]
      m_read_u32_at [of "pre @ ?w i @ write_u32 (p_id p)" "pt + 8"]
      m_read_u32_at [of "pre @ ?w i @ write_u32 (p_id p) @ write_u32 (p_code_offset p)" "pt + 12"]
      m_read_u16_at [of "pre @ ?w i @ write_u32 (p_id p) @ write_u32 (p_code_offset p) @ write_u32 (p_code_len p)" "pt + 16"]
      m_read_u16_at [of "pre @ ?w i @ write_u32 (p_id p) @ write_u32 (p_code_offset p) @ write_u32 (p_code_len p)
         @ write_u16 (ucast (p_param_count p))" "pt + 18"]
      m_read_u8_at [of "pre @ ?w i @ write_u32 (p_id p) @ write_u32 (p_code_offset p) @ write_u32 (p_code_len p)
         @ write_u16 (ucast (p_param_count p)) @ write_u16 (ucast (p_local_count p))" "pt + 20"]
    by simp_all
  have name: "load_name mem (Some strs) (word_of_nat (length strs)) (word_of_nat i) = Some (Some b)"
    by (rule load_name_at [OF assms(1) p(2) assms(3)])
  have "load_procs mem ((pre @ proc_bytes i p) @ ?R) (Some strs) (word_of_nat (length strs)) (length ps) (pt + 24)
      = Some (map snd ps)"
    using Cons.prems by (intro Cons.IH) (auto simp: proc_bytes_def)
  then have ih: "load_procs mem ?D (Some strs) (word_of_nat (length strs)) (length ps) (pt + 24) = Some (map snd ps)"
    using D by simp
  have len: "\<not> length ?D < pt + 16" using Cons.prems(2) by simp
  have "p = \<lparr>p_name = Some b, p_id = p_id p, p_code_offset = p_code_offset p, p_code_len = p_code_len p,
      p_param_count = p_param_count p, p_local_count = p_local_count p, p_is_function = p_is_function p\<rparr>"
    using p(1) by (cases p) simp
  moreover have "load_procs mem ?D (Some strs) (word_of_nat (length strs)) (length (x # ps)) pt =
     Some (\<lparr>p_name = Some b, p_id = p_id p, p_code_offset = p_code_offset p, p_code_len = p_code_len p,
      p_param_count = p_param_count p, p_local_count = p_local_count p, p_is_function = p_is_function p\<rparr> # map snd ps)"
    using len rd name ih p(3,4) by (simp add: ucast_ucast_u16 del: append.simps length_append)
  ultimately show ?case using D x by simp
qed

definition import_ok :: "bucc_module_import_t \<Rightarrow> bool" where
  "import_ok x \<longleftrightarrow> text_ok (i_ns x) \<and> text_ok (i_fn x)"

lemma load_imports_at:
  assumes "\<forall>n. mem n"
    "\<forall>((i, j), x) \<in> set xs. import_ok x \<and> points_to strs i (i_ns x) \<and> points_to strs j (i_fn x)"
    "length strs < 2 ^ 32" "length pre = it"
  shows "load_imports mem (pre @ concat (map (\<lambda>(i, x). import_bytes i x) xs) @ post) (Some strs)
           (word_of_nat (length strs)) (length xs) it = Some (map snd xs)"
  using assms(2,4)
proof (induction xs arbitrary: pre it)
  case Nil
  then show ?case by simp
next
  case (Cons y xs)
  obtain i j x where y: "y = ((i, j), x)" by (metis prod.exhaust)
  then obtain b c where p: "i_ns x = Some b" "points_to strs i (Some b)" "i_fn x = Some c" "points_to strs j (Some c)"
    using Cons.prems(1) by (auto simp: import_ok_def text_ok_def)
  let ?R = "concat (map (\<lambda>(i, x). import_bytes i x) xs) @ post"
  let ?w = "\<lambda>n. write_u32 (word_of_nat n)"
  let ?D = "pre @ ?w i @ ?w j @ write_u32 (i_id x) @ ?R"
  have D: "pre @ import_bytes (i, j) x @ ?R = ?D" by (simp add: import_bytes_def)
  have rd: "m_read_u32 ?D it = Some (word_of_nat i)" "m_read_u32 ?D (it + 4) = Some (word_of_nat j)"
    "m_read_u32 ?D (it + 8) = Some (i_id x)"
    using Cons.prems(2) m_read_u32_at [of pre it] m_read_u32_at [of "pre @ ?w i" "it + 4"]
      m_read_u32_at [of "pre @ ?w i @ ?w j" "it + 8"] by simp_all
  note names = load_name_at [OF assms(1) p(2) assms(3)] load_name_at [OF assms(1) p(4) assms(3)]
  have "load_imports mem ((pre @ import_bytes (i, j) x) @ ?R) (Some strs) (word_of_nat (length strs)) (length xs)
      (it + 12) = Some (map snd xs)"
    using Cons.prems by (intro Cons.IH) (auto simp: import_bytes_def)
  then have ih: "load_imports mem ?D (Some strs) (word_of_nat (length strs)) (length xs) (it + 12) = Some (map snd xs)"
    using D by simp
  have len: "\<not> length ?D < it + 12" using Cons.prems(2) by simp
  have "x = \<lparr>i_ns = Some b, i_fn = Some c, i_id = i_id x\<rparr>"
    using p(1,3) by (cases x) simp
  moreover have "load_imports mem ?D (Some strs) (word_of_nat (length strs)) (length (y # xs)) it =
     Some (\<lparr>i_ns = Some b, i_fn = Some c, i_id = i_id x\<rparr> # map snd xs)"
    using len rd names ih by (simp del: append.simps length_append)
  ultimately show ?case using D y by simp
qed

section \<open>The string pool\<close>

lemma add_string_to_pool_correct:
  assumes "\<forall>n. mem n" "add_string_to_pool mem p (Some s) = (i, p')"
  obtains ext where "pool_strings p' = pool_strings p @ ext" "points_to (pool_strings p') i (Some s)"
    "set ext \<subseteq> {Some s}"
    "Some s \<notin> set (pool_strings p) \<longrightarrow> ext = [Some s] \<and> i = length (pool_strings p)"
proof -
  have m: "mem n" for n using assms(1) by blast
  let ?hits = "filter (\<lambda>i. pool_strings p ! i = Some s) [0..<length (pool_strings p)]"
  show ?thesis
  proof (cases ?hits)
    case Nil
    then have "\<forall>j < length (pool_strings p). pool_strings p ! j \<noteq> Some s"
      by (auto simp: filter_empty_conv)
    then have "pool_strings p' = pool_strings p @ [Some s] \<and> i = length (pool_strings p)"
      using assms(2) Nil m by (auto simp: add_string_to_pool_def Let_def split: if_splits)
    then show ?thesis by (intro that [of "[Some s]"]) (auto simp: points_to_def)
  next
    case (Cons j js)
    then have j: "j < length (pool_strings p)" "pool_strings p ! j = Some s"
    proof -
      have "j \<in> set ?hits" using Cons by simp
      then show "j < length (pool_strings p)" "pool_strings p ! j = Some s" by auto
    qed
    then have "Some s \<in> set (pool_strings p)" by (metis nth_mem)
    moreover have "i = j" "p' = p" using assms(2) Cons by (auto simp: add_string_to_pool_def Let_def)
    ultimately show ?thesis using j by (intro that [of "[]"]) (auto simp: points_to_def)
  qed
qed

lemma points_to_append: "points_to strs i s \<Longrightarrow> points_to (strs @ ext) i s"
  by (auto simp: points_to_def nth_append)

lemma add_strings_correct:
  assumes "\<forall>n. mem n" "\<forall>s \<in> set ss. text_ok s" "add_strings mem p ss = (js, p')"
  shows "\<exists>ext. pool_strings p' = pool_strings p @ ext \<and> set ext \<subseteq> set ss \<and> length js = length ss \<and>
     (\<forall>(j, s) \<in> set (zip js ss). points_to (pool_strings p') j s) \<and>
     (distinct (pool_strings p @ ss) \<longrightarrow> ext = ss)"
  using assms(2,3)
proof (induction ss arbitrary: p js p')
  case Nil
  then show ?case by simp
next
  case (Cons s ss)
  obtain b where b: "s = Some b" using Cons.prems(1) by (auto simp: text_ok_def)
  obtain i p1 where i: "add_string_to_pool mem p s = (i, p1)" by fastforce
  obtain js1 where js: "add_strings mem p1 ss = (js1, p')" "js = i # js1"
    using Cons.prems(2) i by (auto split: prod.splits)
  obtain e1 where e1: "pool_strings p1 = pool_strings p @ e1" "points_to (pool_strings p1) i (Some b)"
    "set e1 \<subseteq> {Some b}" "Some b \<notin> set (pool_strings p) \<longrightarrow> e1 = [Some b] \<and> i = length (pool_strings p)"
    by (rule add_string_to_pool_correct [OF assms(1) i [unfolded b]])
  obtain e2 where e2: "pool_strings p' = pool_strings p1 @ e2" "set e2 \<subseteq> set ss" "length js1 = length ss"
    "\<forall>(j, s) \<in> set (zip js1 ss). points_to (pool_strings p') j s" "distinct (pool_strings p1 @ ss) \<longrightarrow> e2 = ss"
  proof -
    have "\<forall>s \<in> set ss. text_ok s" using Cons.prems(1) by simp
    from Cons.IH [OF this js(1)] show ?thesis using that by (elim exE conjE)
  qed
  have "points_to (pool_strings p') i s" using e1(2) e2(1) b points_to_append by metis
  moreover have "e1 @ e2 = s # ss" if "distinct (pool_strings p @ s # ss)"
    using that e1(1,4) e2(5) b by auto
  ultimately show ?case
    using e1 e2 js b by (intro exI [of _ "e1 @ e2"]) auto
qed

lemma add_imports_correct:
  assumes "\<forall>n. mem n" "\<forall>x \<in> set xs. import_ok x" "add_imports mem p xs = (js, p')"
  shows "\<exists>ext. pool_strings p' = pool_strings p @ ext \<and> (\<forall>s \<in> set ext. text_ok s) \<and> length js = length xs \<and>
     (\<forall>((i, j), x) \<in> set (zip js xs). points_to (pool_strings p') i (i_ns x) \<and> points_to (pool_strings p') j (i_fn x))"
  using assms(2,3)
proof (induction xs arbitrary: p js p')
  case Nil
  then show ?case by simp
next
  case (Cons x xs)
  obtain b c where b: "i_ns x = Some b" "i_fn x = Some c" "text_ok (Some b)" "text_ok (Some c)"
    using Cons.prems(1) by (auto simp: import_ok_def text_ok_def)
  obtain i p1 where i: "add_string_to_pool mem p (i_ns x) = (i, p1)" by fastforce
  obtain j p2 where j: "add_string_to_pool mem p1 (i_fn x) = (j, p2)" by fastforce
  obtain js1 where js: "add_imports mem p2 xs = (js1, p')" "js = (i, j) # js1"
    using Cons.prems(2) i j by (auto split: prod.splits)
  obtain e1 where e1: "pool_strings p1 = pool_strings p @ e1" "points_to (pool_strings p1) i (Some b)" "set e1 \<subseteq> {Some b}"
    by (rule add_string_to_pool_correct [OF assms(1) i [unfolded b]])
  obtain e2 where e2: "pool_strings p2 = pool_strings p1 @ e2" "points_to (pool_strings p2) j (Some c)" "set e2 \<subseteq> {Some c}"
    by (rule add_string_to_pool_correct [OF assms(1) j [unfolded b]])
  obtain e3 where e3: "pool_strings p' = pool_strings p2 @ e3" "\<forall>s \<in> set e3. text_ok s" "length js1 = length xs"
    "\<forall>((i, j), x) \<in> set (zip js1 xs). points_to (pool_strings p') i (i_ns x) \<and> points_to (pool_strings p') j (i_fn x)"
  proof -
    have "\<forall>x \<in> set xs. import_ok x" using Cons.prems(1) by simp
    from Cons.IH [OF this js(1)] show ?thesis using that by (elim exE conjE)
  qed
  have "points_to (pool_strings p') i (i_ns x)" "points_to (pool_strings p') j (i_fn x)"
    using e1(2) e2(1,2) e3(1) b points_to_append by metis+
  then show ?case
    using e1 e2 e3 js b by (intro exI [of _ "e1 @ e2 @ e3"]) auto
qed

section \<open>The round trip\<close>

lemma load_header_at:
  "load_header (header_bytes fl sp cp pt it bc len crc @ body) = Some
     \<lparr>magic = BUCC_MAGIC, format_major = 1, format_minor = 0, flags = fl, header_size = 60, metadata_offset = 0,
      string_pool_offset = word_of_nat sp, const_pool_offset = word_of_nat cp, symbol_table_offset = 0,
      proc_table_offset = word_of_nat pt, dataset_table_offset = 0, import_table_offset = word_of_nat it,
      bytecode_offset = word_of_nat bc, debug_map_offset = 0, file_length = word_of_nat len, crc32 = crc\<rparr>"
proof -
  let ?m = "BUCC_MAGIC"
  let ?h4 = "?m @ write_u16 1"
  let ?h6 = "?h4 @ write_u16 0"
  let ?h8 = "?h6 @ write_u32 fl"
  let ?h12 = "?h8 @ write_u32 60"
  let ?h16 = "?h12 @ write_u32 0"
  let ?h20 = "?h16 @ write_u32 (word_of_nat sp)"
  let ?h24 = "?h20 @ write_u32 (word_of_nat cp)"
  let ?h28 = "?h24 @ write_u32 0"
  let ?h32 = "?h28 @ write_u32 (word_of_nat pt)"
  let ?h36 = "?h32 @ write_u32 0"
  let ?h40 = "?h36 @ write_u32 (word_of_nat it)"
  let ?h44 = "?h40 @ write_u32 (word_of_nat bc)"
  let ?h48 = "?h44 @ write_u32 0"
  let ?h52 = "?h48 @ write_u32 (word_of_nat len)"
  let ?D = "header_bytes fl sp cp pt it bc len crc @ body"
  have "m_read_u16 ?D 4 = Some 1" "m_read_u16 ?D 6 = Some 0" "m_read_u32 ?D 8 = Some fl"
    "m_read_u32 ?D 12 = Some 60" "m_read_u32 ?D 16 = Some 0" "m_read_u32 ?D 20 = Some (word_of_nat sp)"
    "m_read_u32 ?D 24 = Some (word_of_nat cp)" "m_read_u32 ?D 28 = Some 0"
    "m_read_u32 ?D 32 = Some (word_of_nat pt)" "m_read_u32 ?D 36 = Some 0"
    "m_read_u32 ?D 40 = Some (word_of_nat it)" "m_read_u32 ?D 44 = Some (word_of_nat bc)"
    "m_read_u32 ?D 48 = Some 0" "m_read_u32 ?D 52 = Some (word_of_nat len)" "m_read_u32 ?D 56 = Some crc"
    unfolding header_bytes_def
    using m_read_u16_at [of ?m 4 1] m_read_u16_at [of ?h4 6 0] m_read_u32_at [of ?h6 8 fl]
      m_read_u32_at [of ?h8 12 60] m_read_u32_at [of ?h12 16 0] m_read_u32_at [of ?h16 20 "word_of_nat sp"]
      m_read_u32_at [of ?h20 24 "word_of_nat cp"] m_read_u32_at [of ?h24 28 0]
      m_read_u32_at [of ?h28 32 "word_of_nat pt"] m_read_u32_at [of ?h32 36 0]
      m_read_u32_at [of ?h36 40 "word_of_nat it"] m_read_u32_at [of ?h40 44 "word_of_nat bc"]
      m_read_u32_at [of ?h44 48 0] m_read_u32_at [of ?h48 52 "word_of_nat len"] m_read_u32_at [of ?h52 56 crc]
    by simp_all
  moreover have "take 4 ?D = BUCC_MAGIC" by (simp add: header_bytes_def)
  ultimately show ?thesis by (simp add: load_header_def)
qed

lemma length_header_bytes [simp]: "length (header_bytes fl sp cp pt it bc len crc) = 60"
  by (simp add: header_bytes_def)

lemma length_le_concat: "\<forall>x \<in> set xs. 1 \<le> length (f x) \<Longrightarrow> length xs \<le> length (concat (map f xs))"
  by (induction xs) auto

lemma entry_lengths [simp]:
  "1 \<le> length (string_bytes s)" "1 \<le> length (constant_bytes v)" "1 \<le> length (proc_bytes i p)"
  "1 \<le> length (import_bytes j x)"
  by (simp_all add: string_bytes_def constant_bytes_def proc_bytes_def import_bytes_def Let_def
      split: bucc_value.split)

text \<open>A section is found at the place where its bytes were put.\<close>

lemma load_section_at:
  assumes "\<forall>n. mem n" "length pre = off" "0 < off" "n < 2 ^ 32" "off < 2 ^ 32"
    "data = pre @ write_u32 (word_of_nat n) @ post" "body n (off + 4) = Some xs"
  shows "load_section mem data (word_of_nat off) esz body = Some (word_of_nat n, Some xs)"
proof -
  have "unat (word_of_nat off :: u32) = off" "unat (word_of_nat n :: u32) = n"
    using assms by (simp_all add: unat_of_nat)
  moreover have "mem (n * esz)" using assms(1) by blast
  moreover have "m_read_u32 data off = Some (word_of_nat n)"
    using assms by (simp add: m_read_u32_at)
  ultimately show ?thesis
    using assms by (simp add: load_section_def word_gt_0 word_less_nat_alt)
qed

lemma load_bytecode_at:
  assumes "mem (length bc)" "length pre < 2 ^ 32" "0 < length pre" "length (pre @ bc) < 2 ^ 32" "bc \<noteq> []"
    "bytecode_offset h = word_of_nat (length pre)" "debug_map_offset h = 0"
  shows "load_bytecode mem (pre @ bc) h = Some (Some bc, word_of_nat (length bc))"
proof -
  have "unat (word_of_nat (length pre) :: u32) = length pre" "unat (word_of_nat (length bc) :: u32) = length bc"
    using assms by (simp_all add: unat_of_nat)
  then show ?thesis
    using assms by (simp add: load_bytecode_def word_less_nat_alt Let_def)
qed

text \<open>The image, read back: every table, and the bytecode.\<close>

lemma load_image_of:
  assumes mem: "\<forall>n. mem n" and small: "length (image_of fl strs cs ps im bc) < 2 ^ 32" and bc: "bc \<noteq> []"
    and strs: "\<forall>s \<in> set strs. text_ok s" and cs: "\<forall>c \<in> set cs. constant_ok c"
    and ps: "\<forall>(i, p) \<in> set ps. proc_ok p \<and> points_to strs i (p_name p)"
    and im: "\<forall>((i, j), x) \<in> set im. import_ok x \<and> points_to strs i (i_ns x) \<and> points_to strs j (i_fn x)"
  shows "\<exists>h. bucc_module_load_memory mem (image_of fl strs cs ps im bc) = Some (Some
     \<lparr>mod_header = h, mod_strings = Some strs, string_count = word_of_nat (length strs), mod_constants = Some cs,
      const_count = word_of_nat (length cs), mod_procs = Some (map snd ps), proc_count = word_of_nat (length ps),
      mod_imports = Some (map snd im), import_count = word_of_nat (length im), bytecode = Some bc,
      bytecode_len = word_of_nat (length bc)\<rparr>) \<and> magic h = BUCC_MAGIC \<and> format_major h = 1 \<and> flags h = fl"
proof -
  define S where "S = concat (map string_bytes strs)"
  define C where "C = concat (map constant_bytes cs)"
  define P where "P = concat (map (\<lambda>(i, p). proc_bytes i p) ps)"
  define I where "I = concat (map (\<lambda>(i, x). import_bytes i x) im)"
  let ?n = "\<lambda>xs. write_u32 (word_of_nat (length xs))"
  define o2 where "o2 = 64 + length S"
  define o3 where "o3 = o2 + 4 + length C"
  define o4 where "o4 = o3 + 4 + length P"
  define o5 where "o5 = o4 + 4 + length I"
  obtain crc where img: "image_of fl strs cs ps im bc = header_bytes fl 60 o2 o3 o4 o5 (o5 + length bc) crc
     @ ?n strs @ S @ ?n cs @ C @ ?n ps @ P @ ?n im @ I @ bc"
    by (simp add: image_of_def Let_def S_def C_def P_def I_def o2_def o3_def o4_def o5_def add.commute add.left_commute)
  define H where "H = header_bytes fl 60 o2 o3 o4 o5 (o5 + length bc) crc"
  define D where "D = H @ ?n strs @ S @ ?n cs @ C @ ?n ps @ P @ ?n im @ I @ bc"
  have [simp]: "length H = 60" by (simp add: H_def)
  have lenD: "length D < 2 ^ 32" using small img by (simp add: D_def H_def)
  have counts: "length strs \<le> length S" "length cs \<le> length C" "length ps \<le> length P" "length im \<le> length I"
    unfolding S_def C_def P_def I_def by (auto intro!: length_le_concat simp: Suc_le_eq [symmetric] simp del: One_nat_def)
  have lens: "length strs < 2 ^ 32" "length cs < 2 ^ 32" "length ps < 2 ^ 32" "length im < 2 ^ 32"
    "o2 < 2 ^ 32" "o3 < 2 ^ 32" "o4 < 2 ^ 32" "o5 < 2 ^ 32"
    using lenD counts by (simp_all add: D_def o2_def o3_def o4_def o5_def)
  let ?sc = "word_of_nat (length strs) :: u32"
  have sec1: "load_section mem D 60 8 (load_strings mem D) = Some (?sc, Some strs)"
    using load_section_at [OF mem, of H 60 "length strs" D "S @ ?n cs @ C @ ?n ps @ P @ ?n im @ I @ bc"
        "load_strings mem D" strs 8]
      load_strings_at [OF mem strs, of "H @ ?n strs" 64 "?n cs @ C @ ?n ps @ P @ ?n im @ I @ bc"] lens
    by (simp add: D_def S_def)
  have sec2: "load_section mem D (word_of_nat o2) 16 (load_constants D) = Some (word_of_nat (length cs), Some cs)"
    by (rule load_section_at [OF mem, of "H @ ?n strs @ S" _ _ _ "C @ ?n ps @ P @ ?n im @ I @ bc"])
      (use lens load_constants_at [OF cs, of "H @ ?n strs @ S @ ?n cs" "o2 + 4" "?n ps @ P @ ?n im @ I @ bc"]
        in \<open>simp_all add: D_def C_def o2_def\<close>)
  have sec3: "load_section mem D (word_of_nat o3) 32 (load_procs mem D (Some strs) ?sc)
      = Some (word_of_nat (length ps), Some (map snd ps))"
    by (rule load_section_at [OF mem, of "H @ ?n strs @ S @ ?n cs @ C" _ _ _ "P @ ?n im @ I @ bc"])
      (use lens load_procs_at [OF mem ps, of "H @ ?n strs @ S @ ?n cs @ C @ ?n ps" "o3 + 4" "?n im @ I @ bc"]
        in \<open>simp_all add: D_def P_def o2_def o3_def\<close>)
  have sec4: "load_section mem D (word_of_nat o4) 32 (load_imports mem D (Some strs) ?sc)
      = Some (word_of_nat (length im), Some (map snd im))"
    by (rule load_section_at [OF mem, of "H @ ?n strs @ S @ ?n cs @ C @ ?n ps @ P" _ _ _ "I @ bc"])
      (use lens load_imports_at [OF mem im, of "H @ ?n strs @ S @ ?n cs @ C @ ?n ps @ P @ ?n im" "o4 + 4" "bc"]
        in \<open>simp_all add: D_def I_def o2_def o3_def o4_def\<close>)
  let ?h = "\<lparr>magic = BUCC_MAGIC, format_major = 1, format_minor = 0, flags = fl, header_size = 60, metadata_offset = 0,
      string_pool_offset = 60, const_pool_offset = word_of_nat o2, symbol_table_offset = 0,
      proc_table_offset = word_of_nat o3, dataset_table_offset = 0, import_table_offset = word_of_nat o4,
      bytecode_offset = word_of_nat o5, debug_map_offset = 0, file_length = word_of_nat (o5 + length bc), crc32 = crc\<rparr>"
  have memb: "mem (length bc)" "mem SIZEOF_MODULE" using mem by blast+
  have sec5: "load_bytecode mem D ?h = Some (Some bc, word_of_nat (length bc))"
    using load_bytecode_at [of mem bc "H @ ?n strs @ S @ ?n cs @ C @ ?n ps @ P @ ?n im @ I" ?h] memb lenD lens bc
    by (simp add: D_def o2_def o3_def o4_def o5_def)
  have hd: "load_header D = Some ?h"
    using load_header_at [of fl 60 o2 o3 o4 o5 "o5 + length bc" crc] by (simp add: D_def H_def)
  have "take 4 D = BUCC_MAGIC" by (simp add: D_def H_def header_bytes_def)
  moreover have "\<not> length D < HEADER_SIZE" by (simp add: D_def)
  ultimately show ?thesis
    using hd sec1 sec2 sec3 sec4 sec5 memb(2)
    by (simp add: bucc_module_load_memory_def img H_def [symmetric] D_def [symmetric])
qed

text \<open>
  A module the compiler produces: its tables match their counts, names are C strings the format can
  hold, constants are scalars other than dates, and there is code.
\<close>

definition module_ok :: "bucc_module_t \<Rightarrow> bool" where
  "module_ok m \<longleftrightarrow> (\<exists>strs cs ps im bc.
     mod_strings m = Some strs \<and> string_count m = word_of_nat (length strs) \<and> length strs < 2 ^ 32 \<and>
     list_all text_ok strs \<and> distinct strs \<and>
     mod_constants m = Some cs \<and> const_count m = word_of_nat (length cs) \<and> length cs < 2 ^ 32 \<and>
     list_all constant_ok cs \<and>
     mod_procs m = Some ps \<and> proc_count m = word_of_nat (length ps) \<and> length ps < 2 ^ 32 \<and> list_all proc_ok ps \<and>
     mod_imports m = Some im \<and> import_count m = word_of_nat (length im) \<and> length im < 2 ^ 32 \<and>
     list_all import_ok im \<and>
     bytecode m = Some bc \<and> bc \<noteq> [] \<and> length bc < 2 ^ 32 \<and> bytecode_len m = word_of_nat (length bc))"

lemma table_of_counted:
  "length xs < 2 ^ 32 \<Longrightarrow> table_of (word_of_nat (length xs)) (Some xs) = Some xs"
  by (auto simp: table_of_def word_unat_eq_iff unat_of_nat)

lemma module_image_shape:
  assumes mem: "\<forall>n. mem n" and ok: "module_ok m" and img: "module_image mem m = Some (Some img)"
  obtains strs ext cs ps im bc pn ix where
    "mod_strings m = Some strs" "string_count m = word_of_nat (length strs)" "length strs < 2 ^ 32"
    "mod_constants m = Some cs" "const_count m = word_of_nat (length cs)" "mod_procs m = Some ps"
    "proc_count m = word_of_nat (length ps)" "mod_imports m = Some im" "import_count m = word_of_nat (length im)"
    "bytecode m = Some bc" "bytecode_len m = word_of_nat (length bc)" "bc \<noteq> []" "\<forall>c \<in> set cs. constant_ok c"
    "img = image_of (flags (mod_header m)) (strs @ ext) cs (zip pn ps) (zip ix im) bc"
    "\<forall>s \<in> set (strs @ ext). text_ok s" "length pn = length ps" "length ix = length im"
    "\<forall>(i, p) \<in> set (zip pn ps). proc_ok p \<and> points_to (strs @ ext) i (p_name p)"
    "\<forall>((i, j), x) \<in> set (zip ix im). import_ok x \<and> points_to (strs @ ext) i (i_ns x) \<and> points_to (strs @ ext) j (i_fn x)"
proof -
  obtain strs cs ps im bc where
    a: "mod_strings m = Some strs" "string_count m = word_of_nat (length strs)" "length strs < 2 ^ 32"
       "\<forall>s \<in> set strs. text_ok s" "distinct strs" and
    b: "mod_constants m = Some cs" "const_count m = word_of_nat (length cs)" "length cs < 2 ^ 32"
       "\<forall>c \<in> set cs. constant_ok c" and
    c: "mod_procs m = Some ps" "proc_count m = word_of_nat (length ps)" "length ps < 2 ^ 32" "\<forall>p \<in> set ps. proc_ok p" and
    d: "mod_imports m = Some im" "import_count m = word_of_nat (length im)" "length im < 2 ^ 32"
       "\<forall>x \<in> set im. import_ok x" and
    e: "bytecode m = Some bc" "bc \<noteq> []" "bytecode_len m = word_of_nat (length bc)"
    using ok unfolding module_ok_def list_all_iff by (elim exE conjE)
  define cap where "cap = unat (word_of_nat (length strs) :: u32) + unat (word_of_nat (length im) :: u32) * 2
    + unat (word_of_nat (length ps) :: u32) + 16"
  obtain js0 p1 where r1: "add_strings mem \<lparr>pool_strings = [], pool_cap = cap\<rparr> strs = (js0, p1)" by fastforce
  obtain pn p2 where r2: "add_strings mem p1 (map p_name ps) = (pn, p2)" by fastforce
  obtain ix p3 where r3: "add_imports mem p2 im = (ix, p3)" by fastforce
  have names: "\<forall>s \<in> set (map p_name ps). text_ok s" using c(4) by (auto simp: proc_ok_def)
  have p1: "pool_strings p1 = strs"
    using add_strings_correct [OF mem a(4) r1] a(5) by auto
  obtain e2 where p2: "pool_strings p2 = strs @ e2" "set e2 \<subseteq> set (map p_name ps)" "length pn = length (map p_name ps)"
    "\<forall>(j, s) \<in> set (zip pn (map p_name ps)). points_to (pool_strings p2) j s"
    using add_strings_correct [OF mem names r2] unfolding p1 by (elim exE conjE)
  obtain e3 where p3: "pool_strings p3 = pool_strings p2 @ e3" "\<forall>s \<in> set e3. text_ok s" "length ix = length im"
    "\<forall>((i, j), x) \<in> set (zip ix im). points_to (pool_strings p3) i (i_ns x) \<and> points_to (pool_strings p3) j (i_fn x)"
    using add_imports_correct [OF mem d(4) r3] by (elim exE conjE)
  have pool: "pool_strings p3 = strs @ (e2 @ e3)" using p2(1) p3(1) by simp
  have mems: "mem n" for n using mem by blast
  have image: "img = image_of (flags (mod_header m)) (strs @ (e2 @ e3)) cs (zip pn ps) (zip ix im) bc"
    using img mems r1 r2 r3 a b c d e pool
    by (simp add: module_image_def table_of_counted Let_def cap_def [symmetric])
  have "\<forall>(i, p) \<in> set (zip pn ps). proc_ok p \<and> points_to (strs @ (e2 @ e3)) i (p_name p)"
  proof (intro ballI, clarify)
    fix i p assume ip: "(i, p) \<in> set (zip pn ps)"
    then have "(i, p_name p) \<in> set (zip pn (map p_name ps))" by (force simp: zip_map2)
    then have "points_to (pool_strings p2) i (p_name p)" using p2(4) by auto
    then show "proc_ok p \<and> points_to (strs @ (e2 @ e3)) i (p_name p)"
      using points_to_append [of "strs @ e2" i "p_name p" e3] p2(1) c(4) set_zip_rightD [OF ip] by simp
  qed
  moreover have "\<forall>((i, j), x) \<in> set (zip ix im). import_ok x \<and> points_to (strs @ (e2 @ e3)) i (i_ns x)
      \<and> points_to (strs @ (e2 @ e3)) j (i_fn x)"
    using p3(4) d(4) pool by (auto dest: set_zip_rightD)
  moreover have "\<forall>s \<in> set (strs @ (e2 @ e3)). text_ok s"
    using a(4) names p2(2) p3(2) by auto
  moreover have "length pn = length ps" using p2(3) by simp
  ultimately show ?thesis
    using that [OF a(1-3) b(1,2) c(1,2) d(1,2) e(1,3,2) b(4) image] p3(3) by blast
qed

section \<open>The bytecode check\<close>

text \<open>
  What the bytecode check takes for whole instructions, by its own table of operand sizes: none with an unknown
  opcode and none whose operands are cut off at the end.
\<close>

inductive instructions :: "bytes \<Rightarrow> bool" where
  none: "instructions []"
| one: "verify_operands op = Some n \<Longrightarrow> length args = n \<Longrightarrow> instructions rest \<Longrightarrow> instructions (op # args @ rest)"

inductive_simps instructions_Nil: "instructions []"
inductive_simps instructions_Cons: "instructions (op # bs)"

lemma verify_operands_le: "verify_operands op = Some n \<Longrightarrow> n \<le> 4"
  by (auto simp: verify_operands_def split: if_splits)

lemma instructions_step:
  assumes "verify_operands op = Some n"
  shows "instructions (op # bs) \<longleftrightarrow> n \<le> length bs \<and> instructions (drop n bs)"
proof
  assume "instructions (op # bs)"
  then obtain args rest where "bs = args @ rest" "length args = n" "instructions rest"
    using assms by (auto simp: instructions_Cons)
  then show "n \<le> length bs \<and> instructions (drop n bs)" by simp
next
  assume r: "n \<le> length bs \<and> instructions (drop n bs)"
  then have "instructions (op # take n bs @ drop n bs)"
    using assms by (intro instructions.one [of _ n]) simp_all
  then show "instructions (op # bs)" by simp
qed

lemma verify_loop_from:
  assumes "length bc + 4 < 2 ^ 32" "i \<le> length bc"
  shows "verify_loop bc (word_of_nat (length bc)) (word_of_nat i) = Some (instructions (drop i bc))"
  using assms(2)
proof (induction "length bc - i" arbitrary: i rule: less_induct)
  case less
  have u: "unat (word_of_nat k :: u32) = k" if "k \<le> length bc + 4" for k
    using that assms(1) by (simp add: unat_of_nat)
  show ?case
  proof (cases "i = length bc")
    case True
    then show ?thesis by (simp add: verify_loop.simps instructions.none)
  next
    case False
    then have i: "i < length bc" using less.prems by simp
    have cons: "drop i bc = bc ! i # drop (i + 1) bc" using i by (simp add: Cons_nth_drop_Suc)
    have nle: "\<not> (word_of_nat (length bc) :: u32) \<le> word_of_nat i"
      using i u [of i] u [of "length bc"] by (simp add: word_le_nat_alt)
    show ?thesis
    proof (cases "verify_operands (bc ! i)")
      case None
      then show ?thesis
        using i nle u [of i] cons by (simp add: verify_loop.simps instructions_Cons)
    next
      case (Some n)
      have n: "n \<le> 4" using Some by (rule verify_operands_le)
      have nxt: "(word_of_nat i + 1 + word_of_nat n :: u32) = word_of_nat (i + 1 + n)" by simp
      have cut: "(word_of_nat (length bc) :: u32) < word_of_nat i + 1 + word_of_nat n \<longleftrightarrow> length bc < i + 1 + n"
        unfolding nxt using u [of "length bc"] u [of "i + 1 + n"] i n
        by (simp add: word_less_nat_alt del: of_nat_add of_nat_Suc)
      have unroll: "verify_loop bc (word_of_nat (length bc)) (word_of_nat i) =
          (if n \<noteq> 0 \<and> length bc < i + 1 + n then Some False
           else verify_loop bc (word_of_nat (length bc)) (word_of_nat (i + 1 + n)))"
        using nle u [of i] i Some cut unfolding nxt [symmetric] by (subst verify_loop.simps) (simp only: option.case Let_def if_False)
      show ?thesis
      proof (cases "length bc < i + 1 + n")
        case True
        then show ?thesis
          unfolding unroll cons instructions_step [OF Some] using i by auto
      next
        case False
        then have "verify_loop bc (word_of_nat (length bc)) (word_of_nat (i + 1 + n)) = Some (instructions (drop (i + 1 + n) bc))"
          using i by (intro less.hyps) auto
        moreover have "drop n (drop (i + 1) bc) = drop (i + 1 + n) bc" by (simp add: add.commute)
        ultimately show ?thesis
          unfolding unroll cons instructions_step [OF Some] using False i by (auto simp: le_diff_conv2)
      qed
    qed
  qed
qed

section \<open>Properties\<close>


definition example_module :: bucc_module_t where
  "example_module =
     zero_module\<lparr>mod_header := zero_header\<lparr>magic := BUCC_MAGIC, format_major := 1, flags := 5\<rparr>,
       mod_strings := Some [Some [72, 105]], string_count := 1, mod_constants := Some [VI64 7, VNull], const_count := 2,
       mod_procs := Some [\<lparr>p_name = Some (cstr_bytes ''Main''), p_id = 1, p_code_offset = 0, p_code_len = 4,
                           p_param_count = 0, p_local_count = 2, p_is_function = False\<rparr>], proc_count := 1,
       mod_imports := Some [\<lparr>i_ns = Some [65], i_fn = Some [66], i_id = 9\<rparr>], import_count := 1,
       bytecode := Some [0x05, 0, 0, 0x7F], bytecode_len := 4\<rparr>"

lemma example_module_ok: "module_ok example_module"
  by (simp add: module_ok_def example_module_def zero_module_def text_ok_def constant_ok_def proc_ok_def
      import_ok_def cstr_bytes_def)


text \<open>The check always ends, and accepts what its own table of operand sizes takes for whole instructions.\<close>

lemma verify_decides_instructions:
  assumes "bytecode m = Some bc" "bytecode_len m = word_of_nat (length bc)" "length bc + 4 < 2 ^ 32"
  shows "verify_bytecode_bounds m = Some (instructions bc)"
proof (cases "bc = []")
  case True
  then show ?thesis using assms by (simp add: verify_bytecode_bounds_def instructions.none)
next
  case False
  then have "bytecode_len m \<noteq> 0" using assms by (simp add: word_unat_eq_iff unat_of_nat)
  then show ?thesis
    using assms verify_loop_from [OF assms(3), of 0] by (simp add: verify_bytecode_bounds_def)
qed

text \<open>A count that does not lie inside the file, and a procedure record cut behind its sixteenth byte.\<close>

lemma load_section_cut:
  "0 < off \<Longrightarrow> unat off < length data \<Longrightarrow> length data < unat off + 4 \<Longrightarrow> load_section mem data off esz body = None"
  by (simp add: load_section_def m_read_u32_def)

lemma load_procs_cut:
  assumes "k < n" "pt + 24 * k + 16 \<le> length data" "length data < pt + 24 * k + 21"
  shows "load_procs mem data strs sc n pt = None"
  using assms
proof (induction n arbitrary: k pt)
  case (Suc n)
  show ?case
  proof (cases k)
    case 0
    then have "m_read_u8 data (pt + 20) = None" using Suc.prems by (simp add: m_read_u8_def arr_get_def)
    then show ?thesis using Suc.prems 0 by (simp add: Let_def split: bind_split)
  next
    case (Suc j)
    then have "load_procs mem data strs sc n (pt + 24) = None"
      using Suc.prems by (intro Suc.IH [of j]) simp_all
    then show ?thesis using Suc.prems Suc by (simp split: bind_split)
  qed
qed simp

lemma load_memory_sections:
  assumes "load_header data = Some h"
    and "load_section mem data (string_pool_offset h) 8 (load_strings mem data) = None \<or>
      load_section mem data (const_pool_offset h) 16 (load_constants data) = None \<or>
      (\<forall>strs sc. load_section mem data (proc_table_offset h) 32 (load_procs mem data strs sc) = None) \<or>
      (\<forall>strs sc. load_section mem data (import_table_offset h) 32 (load_imports mem data strs sc) = None)"
    and "HEADER_SIZE \<le> length data" "take 4 data = BUCC_MAGIC" "mem SIZEOF_MODULE" "format_major h = BUCC_FORMAT_MAJOR"
  shows "bucc_module_load_memory mem data = None"
  using assms by (auto simp: bucc_module_load_memory_def split_def split: bind_split)

text \<open>
  C29: The loader trusts the offsets and counts of the file. Take any file that passes all the checks of
  \<open>bucc_module_load_memory\<close>: it has the size of a header, the magic number and the format version. If the
  string pool, the constant pool, the procedure table or the import table is said to start fewer than four
  bytes before the end of the file, the loader reads the count of that section beyond the end; if the file ends
  in one of the last five bytes of a procedure record, it reads the rest of the record beyond the end.
\<close>

theorem load_memory_reads_past_the_file:
  assumes "HEADER_SIZE \<le> length data" "take 4 data = BUCC_MAGIC" "load_header data = Some h"
    and "format_major h = BUCC_FORMAT_MAJOR" "mem SIZEOF_MODULE" "mem (length data)"
    and "(\<exists>off \<in> {string_pool_offset h, const_pool_offset h, proc_table_offset h, import_table_offset h}.
        0 < off \<and> unat off < length data \<and> length data < unat off + 4) \<or>
      (\<exists>cnt k. 0 < proc_table_offset h \<and> m_read_u32 data (unat (proc_table_offset h)) = Some cnt \<and>
        mem (unat cnt * 32) \<and> k < unat cnt \<and> unat (proc_table_offset h) + 4 + 24 * k + 16 \<le> length data \<and>
        length data < unat (proc_table_offset h) + 4 + 24 * k + 21)"
  shows "bucc_module_load_memory mem data = None \<and> bucc_module_load_file mem (Some data) = None"
proof -
  have procs: "load_section mem data (proc_table_offset h) 32 (load_procs mem data strs sc) = None"
    if "0 < proc_table_offset h" "m_read_u32 data (unat (proc_table_offset h)) = Some cnt" "mem (unat cnt * 32)"
      "k < unat cnt" "unat (proc_table_offset h) + 4 + 24 * k + 16 \<le> length data"
      "length data < unat (proc_table_offset h) + 4 + 24 * k + 21" for cnt k strs sc
    using that load_procs_cut [OF that(4-6), of mem strs sc] by (simp add: load_section_def)
  have cut: "load_section mem data (string_pool_offset h) 8 (load_strings mem data) = None \<or>
      load_section mem data (const_pool_offset h) 16 (load_constants data) = None \<or>
      (\<forall>strs sc. load_section mem data (proc_table_offset h) 32 (load_procs mem data strs sc) = None) \<or>
      (\<forall>strs sc. load_section mem data (import_table_offset h) 32 (load_imports mem data strs sc) = None)"
    using assms(7)
  proof
    assume "\<exists>off \<in> {string_pool_offset h, const_pool_offset h, proc_table_offset h, import_table_offset h}.
        0 < off \<and> unat off < length data \<and> length data < unat off + 4"
    then show ?thesis by (auto simp: load_section_cut)
  next
    assume "\<exists>cnt k. 0 < proc_table_offset h \<and> m_read_u32 data (unat (proc_table_offset h)) = Some cnt \<and>
        mem (unat cnt * 32) \<and> k < unat cnt \<and> unat (proc_table_offset h) + 4 + 24 * k + 16 \<le> length data \<and>
        length data < unat (proc_table_offset h) + 4 + 24 * k + 21"
    then show ?thesis using procs by blast
  qed
  have "bucc_module_load_memory mem data = None"
    by (rule load_memory_sections [where mem = mem, OF assms(3) cut]) (rule assms(1,2,4,5))+
  then show ?thesis using assms(1,6) by (auto simp: bucc_module_load_file_def)
qed

theorem load_memory_reads_past_the_file_witness:
  "length (header_bytes 0 60 0 0 0 0 61 0 @ [7]) = 61 \<and>
   bucc_module_load_memory (\<lambda>_. True) (header_bytes 0 60 0 0 0 0 61 0 @ [7]) = None"
proof -
  let ?D = "header_bytes 0 60 0 0 0 0 61 0 @ [7]"
  have l: "length ?D = 61" by (simp add: header_bytes_def)
  have "take 4 ?D = BUCC_MAGIC" by (simp add: header_bytes_def)
  then show ?thesis
    using load_memory_reads_past_the_file [of ?D _ "\<lambda>_. True", OF _ _ load_header_at] l by simp
qed

text \<open>The verifier accepts a procedure far longer than the code: the sum of offset and length wraps.\<close>

lemma verify_accepts_wrapping_procedure:
  "verify_procedure_offsets (example_module\<lparr>mod_procs :=
     Some [zero_proc\<lparr>p_code_offset := 1, p_code_len := 0xFFFFFFFF\<rparr>]\<rparr>) = Some True"
  by (simp add: verify_procedure_offsets_def example_module_def table_of_def zero_proc_def)

end
