(* ===== verification/Bucc_Vm.thy ===== *)
theory Bucc_Vm
  imports Bucc_Module "HOL-Library.Signed_Division"
begin

text \<open>
  The Buccaneer virtual machine, \<^verbatim>\<open>src/buccaneer/vm.c\<close>: the state of a machine, its operand stack,
  globals and locals, exceptions, every instruction, the step function and the run loop.

  \<^item> The operand stack is a list whose head is the top; \<open>sp\<close> is its length. The call frames are a
    list whose head is the innermost frame; \<open>fp\<close> is its length. \<open>globals\<close> and \<open>locals\<close> are the lists
    of the first \<open>global_count\<close> and \<open>local_count\<close> entries, \<open>try_stack\<close> the linked list of handlers.
    What the arrays hold beyond these counts is never read.
  \<^item> The machine owns the heap of its values (\<^verbatim>\<open>Bucc_Value\<close>). A step is \<^term>\<open>None\<close> where the C code
    has undefined behaviour: a read outside an array, the use of freed memory, or the division of
    the smallest integer by \<open>-1\<close>. Addition, subtraction, multiplication and negation of integers wrap,
    as compiled code does.
  \<^item> What a machine does not change is gathered in \<open>vm_env\<close>: the module, the operations on \<open>double\<close>,
    the value that reading \<open>as.i64\<close> gives for a value of another kind, and the host handler.
\<close>

section \<open>The machine\<close>

datatype bucc_vm_status_t =
    VM_OK | VM_HALT | VM_YIELD | VM_CHAIN | VM_ERROR | VM_STACK_OVERFLOW | VM_STACK_UNDERFLOW
  | VM_FRAME_OVERFLOW | VM_INVALID_OPCODE | VM_DIVISION_BY_ZERO | VM_TYPE_ERROR | VM_LIMIT_EXCEEDED

record bucc_frame_t =
  f_proc :: nat \<comment> \<open>index into the procedure table\<close>
  f_ip :: u32
  f_bp :: u32
  f_local_base :: u32

record bucc_exception_t =
  x_value :: bucc_value
  x_frame_depth :: u32
  x_active :: bool

record bucc_limits_t =
  max_instructions :: u32
  max_stack_depth :: u32
  max_heap_bytes :: u32
  max_string_bytes :: u32
  max_host_calls :: u32
  timeslice_ms :: u32

record bucc_counters_t =
  c_instructions :: u64
  c_stack_depth :: u32
  c_heap_bytes :: u32
  c_string_bytes :: u32
  c_host_calls :: u32
  c_elapsed_ms :: u32
  c_profile_ticks :: u32

record bucc_try_frame_t =
  t_handler_ip :: u32
  t_frame_depth :: nat
  t_stack_depth :: nat

record bucc_vm_t =
  stack :: "bucc_value list"
  frames :: "bucc_frame_t list"
  globals :: "bucc_value list"
  locals :: "bucc_value list"
  ip :: u32
  exception :: bucc_exception_t
  try_stack :: "bucc_try_frame_t list"
  limits :: bucc_limits_t
  counters :: bucc_counters_t
  status :: bucc_vm_status_t
  error_message :: "bytes option"
  chain_target :: "bytes option"
  chain_args :: bucc_value
  running :: bool
  heap_of :: heap

type_synonym bucc_host_fn_t =
  "bucc_vm_t \<Rightarrow> bytes option \<Rightarrow> bytes option \<Rightarrow> bucc_value list \<Rightarrow> (bucc_value \<times> bucc_vm_t) option"

record vm_env =
  e_module :: bucc_module_t
  e_float :: float_ops
  e_pun :: "bucc_value \<Rightarrow> i64"
  e_host :: "bucc_host_fn_t option"

abbreviation BUCC_STACK_MAX :: nat where "BUCC_STACK_MAX \<equiv> 1024"
abbreviation BUCC_FRAMES_MAX :: nat where "BUCC_FRAMES_MAX \<equiv> 256"
abbreviation BUCC_GLOBALS_MAX :: nat where "BUCC_GLOBALS_MAX \<equiv> 256"
abbreviation BUCC_LOCALS_MAX :: nat where "BUCC_LOCALS_MAX \<equiv> 256"

abbreviation sp :: "bucc_vm_t \<Rightarrow> nat" where "sp vm \<equiv> length (stack vm)"
abbreviation fp :: "bucc_vm_t \<Rightarrow> nat" where "fp vm \<equiv> length (frames vm)"

section \<open>Access to the heap\<close>

text \<open>Operations on the heap of a machine: with a result, and without.\<close>

definition on_heap :: "(heap \<Rightarrow> ('a \<times> heap) option) \<Rightarrow> bucc_vm_t \<Rightarrow> ('a \<times> bucc_vm_t) option" where
  "on_heap f vm = do { (r, h) \<leftarrow> f (heap_of vm); Some (r, vm\<lparr>heap_of := h\<rparr>) }"

definition in_heap :: "(heap \<Rightarrow> heap option) \<Rightarrow> bucc_vm_t \<Rightarrow> bucc_vm_t option" where
  "in_heap f vm = do { h \<leftarrow> f (heap_of vm); Some (vm\<lparr>heap_of := h\<rparr>) }"

definition value_release :: "bucc_value \<Rightarrow> bucc_vm_t \<Rightarrow> bucc_vm_t option" where
  "value_release v = in_heap (\<lambda>h. bucc_value_release h v)"

definition value_retain :: "bucc_value \<Rightarrow> bucc_vm_t \<Rightarrow> bucc_vm_t option" where
  "value_retain v = in_heap (\<lambda>h. bucc_value_retain h v)"

definition string_release :: "ptr \<Rightarrow> bucc_vm_t \<Rightarrow> bucc_vm_t option" where
  "string_release p = in_heap (\<lambda>h. bucc_string_release h p)"

definition vm_malloc :: "bucc_vm_t \<Rightarrow> bool \<times> bucc_vm_t" where
  "vm_malloc vm = (let (ok, h) = malloc_ok (heap_of vm) in (ok, vm\<lparr>heap_of := h\<rparr>))"

section \<open>Creating, freeing and resetting a machine\<close>

definition bucc_vm_new :: "heap \<Rightarrow> bucc_vm_t option" where
  "bucc_vm_new h =
     (let (ok, h) = malloc_ok h in
      if \<not> ok then None
      else Some
        \<lparr>stack = [], frames = [], globals = [], locals = [], ip = 0,
         exception = \<lparr>x_value = VNull, x_frame_depth = 0, x_active = False\<rparr>, try_stack = [],
         limits = \<lparr>max_instructions = 1000000, max_stack_depth = 1024, max_heap_bytes = 1024 * 1024,
                   max_string_bytes = 256 * 1024, max_host_calls = 10000, timeslice_ms = 5000\<rparr>,
         counters = \<lparr>c_instructions = 0, c_stack_depth = 0, c_heap_bytes = 0, c_string_bytes = 0,
                     c_host_calls = 0, c_elapsed_ms = 0, c_profile_ticks = 0\<rparr>,
         status = VM_OK, error_message = None, chain_target = None, chain_args = VNull, running = False,
         heap_of = h\<rparr>)"

definition release_all :: "bucc_value list \<Rightarrow> bucc_vm_t \<Rightarrow> bucc_vm_t option" where
  "release_all vs = in_heap (\<lambda>h. fold_opt bucc_value_release h vs)"

text \<open>What is left of a freed machine is its heap.\<close>

definition bucc_vm_free :: "bucc_vm_t \<Rightarrow> heap option" where
  "bucc_vm_free vm = do {
     vm \<leftarrow> release_all (rev (stack vm)) vm;
     vm \<leftarrow> release_all (globals vm) vm;
     vm \<leftarrow> release_all (locals vm) vm;
     vm \<leftarrow> value_release (x_value (exception vm)) vm;
     vm \<leftarrow> value_release (chain_args vm) vm;
     Some (heap_of vm) }"

definition bucc_vm_reset :: "bucc_vm_t \<Rightarrow> bucc_vm_t option" where
  "bucc_vm_reset vm = do {
     vm \<leftarrow> release_all (rev (stack vm)) vm;
     let vm = vm\<lparr>stack := [], frames := [], ip := 0\<rparr>;
     vm \<leftarrow> release_all (locals vm) vm;
     let vm = vm\<lparr>locals := []\<rparr>;
     vm \<leftarrow> value_release (x_value (exception vm)) vm;
     let vm = vm\<lparr>exception := (exception vm)\<lparr>x_active := False\<rparr>, try_stack := [],
                counters := \<lparr>c_instructions = 0, c_stack_depth = 0, c_heap_bytes = 0, c_string_bytes = 0,
                             c_host_calls = 0, c_elapsed_ms = 0, c_profile_ticks = 0\<rparr>,
                status := VM_OK, error_message := None, chain_target := None\<rparr>;
     vm \<leftarrow> value_release (chain_args vm) vm;
     Some (vm\<lparr>chain_args := VNull, running := False\<rparr>) }"

definition bucc_vm_set_host_handler :: "vm_env \<Rightarrow> bucc_host_fn_t option \<Rightarrow> vm_env" where
  "bucc_vm_set_host_handler env handler = env\<lparr>e_host := handler\<rparr>"

definition bucc_vm_set_limits :: "bucc_vm_t \<Rightarrow> bucc_limits_t \<Rightarrow> bucc_vm_t" where
  "bucc_vm_set_limits vm l = vm\<lparr>limits := l\<rparr>"

section \<open>Stack, globals and locals\<close>

definition bucc_vm_push :: "bucc_value \<Rightarrow> bucc_vm_t \<Rightarrow> bucc_vm_t option" where
  "bucc_vm_push v vm =
     (if BUCC_STACK_MAX \<le> sp vm then Some (vm\<lparr>status := VM_STACK_OVERFLOW\<rparr>)
      else do {
        vm \<leftarrow> value_retain v vm;
        let vm = vm\<lparr>stack := v # stack vm\<rparr>;
        Some (if c_stack_depth (counters vm) < word_of_nat (sp vm)
              then vm\<lparr>counters := (counters vm)\<lparr>c_stack_depth := word_of_nat (sp vm)\<rparr>\<rparr> else vm) })"

definition bucc_vm_pop :: "bucc_vm_t \<Rightarrow> bucc_value \<times> bucc_vm_t" where
  "bucc_vm_pop vm =
     (case stack vm of
        [] \<Rightarrow> (VNull, vm\<lparr>status := VM_STACK_UNDERFLOW\<rparr>)
      | v # vs \<Rightarrow> (v, vm\<lparr>stack := vs\<rparr>))"

text \<open>The index \<open>sp - 1 - offset\<close> is a 32-bit difference, compared with \<open>sp\<close>.\<close>

definition bucc_vm_peek :: "bucc_vm_t \<Rightarrow> 32 word \<Rightarrow> bucc_value" where
  "bucc_vm_peek vm offset =
     (if sp vm = 0 then VNull
      else
        (let idx = (word_of_nat (sp vm) - 1 - offset :: u32) in
         if word_of_nat (sp vm) \<le> idx then VNull else rev (stack vm) ! unat idx))"

definition bucc_vm_get_global :: "u32 \<Rightarrow> bucc_vm_t \<Rightarrow> (bucc_value \<times> bucc_vm_t) option" where
  "bucc_vm_get_global index vm =
     (if length (globals vm) \<le> unat index then Some (VNull, vm)
      else do { let v = globals vm ! unat index; vm \<leftarrow> value_retain v vm; Some (v, vm) })"

definition bucc_vm_set_global :: "u32 \<Rightarrow> bucc_value \<Rightarrow> bucc_vm_t \<Rightarrow> bucc_vm_t option" where
  "bucc_vm_set_global index v vm =
     (if BUCC_GLOBALS_MAX \<le> unat index then Some vm
      else do {
        let vm = vm\<lparr>globals := globals vm @ replicate (unat index + 1 - length (globals vm)) VNull\<rparr>;
        vm \<leftarrow> value_release (globals vm ! unat index) vm;
        vm \<leftarrow> value_retain v vm;
        Some (vm\<lparr>globals := (globals vm)[unat index := v]\<rparr>) })"

definition local_base :: "bucc_vm_t \<Rightarrow> u32" where
  "local_base vm = (case frames vm of [] \<Rightarrow> 0 | f # _ \<Rightarrow> f_local_base f)"

definition bucc_vm_get_local :: "u32 \<Rightarrow> bucc_vm_t \<Rightarrow> (bucc_value \<times> bucc_vm_t) option" where
  "bucc_vm_get_local index vm =
     (let actual = unat (local_base vm + index) in
      if length (locals vm) \<le> actual then Some (VNull, vm)
      else do { let v = locals vm ! actual; vm \<leftarrow> value_retain v vm; Some (v, vm) })"

definition bucc_vm_set_local :: "u32 \<Rightarrow> bucc_value \<Rightarrow> bucc_vm_t \<Rightarrow> bucc_vm_t option" where
  "bucc_vm_set_local index v vm =
     (let actual = unat (local_base vm + index) in
      if BUCC_LOCALS_MAX \<le> actual then Some vm
      else do {
        let vm = vm\<lparr>locals := locals vm @ replicate (actual + 1 - length (locals vm)) VNull\<rparr>;
        vm \<leftarrow> value_release (locals vm ! actual) vm;
        vm \<leftarrow> value_retain v vm;
        Some (vm\<lparr>locals := (locals vm)[actual := v]\<rparr>) })"

section \<open>Exceptions, errors and operands\<close>

definition bucc_vm_throw :: "bucc_value \<Rightarrow> bucc_vm_t \<Rightarrow> bucc_vm_t option" where
  "bucc_vm_throw err vm = do {
     vm \<leftarrow> value_release (x_value (exception vm)) vm;
     vm \<leftarrow> value_retain err vm;
     Some (vm\<lparr>exception := \<lparr>x_value = err, x_frame_depth = word_of_nat (fp vm), x_active = True\<rparr>\<rparr>) }"

definition bucc_vm_has_exception :: "bucc_vm_t \<Rightarrow> bool" where
  "bucc_vm_has_exception vm = x_active (exception vm)"

definition bucc_vm_get_exception :: "bucc_vm_t \<Rightarrow> (bucc_value \<times> bucc_vm_t) option" where
  "bucc_vm_get_exception vm =
     (if \<not> x_active (exception vm) then Some (VNull, vm)
      else do { let v = x_value (exception vm); vm \<leftarrow> value_retain v vm; Some (v, vm) })"

definition bucc_vm_get_chain_target :: "bucc_vm_t \<Rightarrow> bytes option" where
  "bucc_vm_get_chain_target vm = chain_target vm"

definition bucc_vm_get_chain_args :: "bucc_vm_t \<Rightarrow> (bucc_value \<times> bucc_vm_t) option" where
  "bucc_vm_get_chain_args vm = do { let v = chain_args vm; vm \<leftarrow> value_retain v vm; Some (v, vm) }"

definition vm_error :: "bucc_vm_status_t \<Rightarrow> string \<Rightarrow> bucc_vm_t \<Rightarrow> bucc_vm_t" where
  "vm_error st msg vm =
     (let (m, h) = dup_cstr (heap_of vm) (Some (cstr_bytes msg))
      in vm\<lparr>status := st, error_message := m, running := False, heap_of := h\<rparr>)"

definition read_u8 :: "vm_env \<Rightarrow> bucc_vm_t \<Rightarrow> (u8 \<times> bucc_vm_t) option" where
  "read_u8 env vm =
     (if bytecode_len (e_module env) \<le> ip vm then Some (0, vm_error VM_ERROR ''read past end of bytecode'' vm)
      else do {
        bc \<leftarrow> bytecode (e_module env);
        b \<leftarrow> arr_get bc (unat (ip vm));
        Some (b, vm\<lparr>ip := ip vm + 1\<rparr>) })"

definition read_u16 :: "vm_env \<Rightarrow> bucc_vm_t \<Rightarrow> (u16 \<times> bucc_vm_t) option" where
  "read_u16 env vm =
     (if bytecode_len (e_module env) < ip vm + 2 then Some (0, vm_error VM_ERROR ''read past end of bytecode'' vm)
      else do {
        bc \<leftarrow> bytecode (e_module env);
        b0 \<leftarrow> arr_get bc (unat (ip vm));
        b1 \<leftarrow> arr_get bc (unat (ip vm + 1));
        Some (push_bit 8 (ucast b0) OR ucast b1, vm\<lparr>ip := ip vm + 2\<rparr>) })"

definition read_i32 :: "vm_env \<Rightarrow> bucc_vm_t \<Rightarrow> (u32 \<times> bucc_vm_t) option" where
  "read_i32 env vm =
     (if bytecode_len (e_module env) < ip vm + 4 then Some (0, vm_error VM_ERROR ''read past end of bytecode'' vm)
      else do {
        bc \<leftarrow> bytecode (e_module env);
        b0 \<leftarrow> arr_get bc (unat (ip vm));
        b1 \<leftarrow> arr_get bc (unat (ip vm + 1));
        b2 \<leftarrow> arr_get bc (unat (ip vm + 2));
        b3 \<leftarrow> arr_get bc (unat (ip vm + 3));
        Some (push_bit 24 (ucast b0) OR push_bit 16 (ucast b1) OR push_bit 8 (ucast b2) OR ucast b3,
              vm\<lparr>ip := ip vm + 4\<rparr>) })"

text \<open>Popping and releasing \<open>n\<close> values, and the last \<open>n\<close> locals.\<close>

primrec pop_release :: "nat \<Rightarrow> bucc_vm_t \<Rightarrow> bucc_vm_t option" where
  "pop_release 0 vm = Some vm"
| "pop_release (Suc n) vm = (let (v, vm) = bucc_vm_pop vm in do { vm \<leftarrow> value_release v vm; pop_release n vm })"

primrec drop_locals :: "nat \<Rightarrow> bucc_vm_t \<Rightarrow> bucc_vm_t option" where
  "drop_locals 0 vm = Some vm"
| "drop_locals (Suc n) vm = do {
     let v = last (locals vm);
     vm \<leftarrow> value_release v (vm\<lparr>locals := butlast (locals vm)\<rparr>);
     drop_locals n vm }"

text \<open>The loop over the handlers returns in its first round: the innermost handler takes the exception.\<close>

definition handle_exception :: "bucc_vm_t \<Rightarrow> (bool \<times> bucc_vm_t) option" where
  "handle_exception vm =
     (if \<not> x_active (exception vm) then Some (False, vm)
      else
        (case try_stack vm of
           [] \<Rightarrow> Some (False, vm)
         | tf # rest \<Rightarrow> do {
             let vm = vm\<lparr>try_stack := rest, frames := drop (fp vm - t_frame_depth tf) (frames vm)\<rparr>;
             vm \<leftarrow> pop_release (sp vm - t_stack_depth tf) vm;
             vm \<leftarrow> bucc_vm_push (x_value (exception vm)) vm;
             let vm = vm\<lparr>exception := (exception vm)\<lparr>x_active := False, x_value := VNull\<rparr>,
                        ip := t_handler_ip tf\<rparr>;
             Some (True, vm) }))"

section \<open>Instructions: constants, stack and variables\<close>

definition exec_push_const :: "vm_env \<Rightarrow> bucc_vm_t \<Rightarrow> bucc_vm_t option" where
  "exec_push_const env vm = do {
     (idx, vm) \<leftarrow> read_u16 env vm;
     v \<leftarrow> bucc_module_get_constant (e_module env) (ucast idx);
     bucc_vm_push v vm }"

definition exec_push_str :: "vm_env \<Rightarrow> bucc_vm_t \<Rightarrow> bucc_vm_t option" where
  "exec_push_str env vm = do {
     (idx, vm) \<leftarrow> read_u16 env vm;
     str \<leftarrow> bucc_module_get_string (e_module env) (ucast idx);
     (s, vm) \<leftarrow> on_heap (\<lambda>h. Some (bucc_string_from_cstr h str)) vm;
     vm \<leftarrow> bucc_vm_push (VString s) vm;
     string_release s vm }"

definition exec_pop :: "bucc_vm_t \<Rightarrow> bucc_vm_t option" where
  "exec_pop vm = (let (v, vm) = bucc_vm_pop vm in value_release v vm)"

definition exec_dup :: "bucc_vm_t \<Rightarrow> bucc_vm_t option" where
  "exec_dup vm = bucc_vm_push (bucc_vm_peek vm 0) vm"

definition exec_swap :: "bucc_vm_t \<Rightarrow> bucc_vm_t option" where
  "exec_swap vm =
     (case stack vm of
        a # b # vs \<Rightarrow> Some (vm\<lparr>stack := b # a # vs\<rparr>)
      | _ \<Rightarrow> Some (vm_error VM_STACK_UNDERFLOW ''stack underflow on SWAP'' vm))"

definition exec_load_global :: "vm_env \<Rightarrow> bucc_vm_t \<Rightarrow> bucc_vm_t option" where
  "exec_load_global env vm = do {
     (idx, vm) \<leftarrow> read_u16 env vm;
     (v, vm) \<leftarrow> bucc_vm_get_global (ucast idx) vm;
     vm \<leftarrow> bucc_vm_push v vm;
     value_release v vm }"

definition exec_store_global :: "vm_env \<Rightarrow> bucc_vm_t \<Rightarrow> bucc_vm_t option" where
  "exec_store_global env vm = do {
     (idx, vm) \<leftarrow> read_u16 env vm;
     let (v, vm) = bucc_vm_pop vm;
     vm \<leftarrow> bucc_vm_set_global (ucast idx) v vm;
     value_release v vm }"

definition exec_load_local :: "vm_env \<Rightarrow> bucc_vm_t \<Rightarrow> bucc_vm_t option" where
  "exec_load_local env vm = do {
     (idx, vm) \<leftarrow> read_u16 env vm;
     (v, vm) \<leftarrow> bucc_vm_get_local (ucast idx) vm;
     vm \<leftarrow> bucc_vm_push v vm;
     value_release v vm }"

definition exec_store_local :: "vm_env \<Rightarrow> bucc_vm_t \<Rightarrow> bucc_vm_t option" where
  "exec_store_local env vm = do {
     (idx, vm) \<leftarrow> read_u16 env vm;
     let (v, vm) = bucc_vm_pop vm;
     vm \<leftarrow> bucc_vm_set_local (ucast idx) v vm;
     value_release v vm }"

section \<open>Instructions: arithmetic and logic\<close>

text \<open>
  The two operands of an instruction are popped, the second one first, used, and released when the
  result has been pushed.
\<close>

definition with_operands ::
    "(bucc_value \<Rightarrow> bucc_value \<Rightarrow> bucc_vm_t \<Rightarrow> bucc_vm_t option) \<Rightarrow> bucc_vm_t \<Rightarrow> bucc_vm_t option" where
  "with_operands f vm = do {
     let (b, vm) = bucc_vm_pop vm;
     let (a, vm) = bucc_vm_pop vm;
     vm \<leftarrow> f a b vm;
     vm \<leftarrow> value_release a vm;
     value_release b vm }"

definition with_operand :: "(bucc_value \<Rightarrow> bucc_vm_t \<Rightarrow> bucc_vm_t option) \<Rightarrow> bucc_vm_t \<Rightarrow> bucc_vm_t option" where
  "with_operand f vm = do {
     let (a, vm) = bucc_vm_pop vm;
     vm \<leftarrow> f a vm;
     value_release a vm }"

definition as_i64 :: "vm_env \<Rightarrow> bucc_value \<Rightarrow> i64" where
  "as_i64 env v = (case v of VI64 i \<Rightarrow> i | _ \<Rightarrow> e_pun env v)"

definition as_double :: "vm_env \<Rightarrow> bucc_value \<Rightarrow> f64" where
  "as_double env v = (case v of VF64 d \<Rightarrow> d | _ \<Rightarrow> f_of_i64 (e_float env) (as_i64 env v))"

definition is_f64 :: "bucc_value \<Rightarrow> bool" where
  "is_f64 v = (case v of VF64 _ \<Rightarrow> True | _ \<Rightarrow> False)"

definition is_string :: "bucc_value \<Rightarrow> bool" where
  "is_string v = (case v of VString _ \<Rightarrow> True | _ \<Rightarrow> False)"

definition concat_values :: "vm_env \<Rightarrow> bucc_value \<Rightarrow> bucc_value \<Rightarrow> bucc_vm_t \<Rightarrow> bucc_vm_t option" where
  "concat_values env a b vm = do {
     (sa, vm) \<leftarrow> on_heap (\<lambda>h. bucc_value_to_string (e_float env) h a) vm;
     (sb, vm) \<leftarrow> on_heap (\<lambda>h. bucc_value_to_string (e_float env) h b) vm;
     (result, vm) \<leftarrow> on_heap (\<lambda>h. bucc_string_concat h sa sb) vm;
     vm \<leftarrow> bucc_vm_push (VString result) vm;
     vm \<leftarrow> string_release sa vm;
     vm \<leftarrow> string_release sb vm;
     string_release result vm }"

definition exec_add :: "vm_env \<Rightarrow> bucc_vm_t \<Rightarrow> bucc_vm_t option" where
  "exec_add env = with_operands (\<lambda>a b vm.
     if is_string a \<or> is_string b then concat_values env a b vm
     else if is_f64 a \<or> is_f64 b
     then bucc_vm_push (VF64 (f_add (e_float env) (as_double env a) (as_double env b))) vm
     else bucc_vm_push (VI64 (as_i64 env a + as_i64 env b)) vm)"

definition exec_sub :: "vm_env \<Rightarrow> bucc_vm_t \<Rightarrow> bucc_vm_t option" where
  "exec_sub env = with_operands (\<lambda>a b vm.
     if is_f64 a \<or> is_f64 b
     then bucc_vm_push (VF64 (f_sub (e_float env) (as_double env a) (as_double env b))) vm
     else bucc_vm_push (VI64 (as_i64 env a - as_i64 env b)) vm)"

definition exec_mul :: "vm_env \<Rightarrow> bucc_vm_t \<Rightarrow> bucc_vm_t option" where
  "exec_mul env = with_operands (\<lambda>a b vm.
     if is_f64 a \<or> is_f64 b
     then bucc_vm_push (VF64 (f_mul (e_float env) (as_double env a) (as_double env b))) vm
     else bucc_vm_push (VI64 (as_i64 env a * as_i64 env b)) vm)"

text \<open>
  Division truncates. The smallest integer divided by \<open>-1\<close> is undefined, for the quotient and the
  remainder.
\<close>

definition i64_div :: "i64 \<Rightarrow> i64 \<Rightarrow> i64 option" where
  "i64_div a b = (if sint a = - (2 ^ 63) \<and> sint b = -1 then None else Some (word_of_int (sint a sdiv sint b)))"

definition i64_mod :: "i64 \<Rightarrow> i64 \<Rightarrow> i64 option" where
  "i64_mod a b = (if sint a = - (2 ^ 63) \<and> sint b = -1 then None else Some (word_of_int (sint a smod sint b)))"

definition throw_div_zero :: "bucc_vm_t \<Rightarrow> bucc_vm_t option" where
  "throw_div_zero vm = do {
     (e, vm) \<leftarrow> on_heap (\<lambda>h. Some (bucc_error_new h (Some (cstr_bytes ''Division by zero''))
                                    (Some (cstr_bytes ''DIV_ZERO'')) 0)) vm;
     vm \<leftarrow> bucc_vm_throw (VError e) vm;
     (_, vm) \<leftarrow> handle_exception vm;
     Some vm }"

definition exec_div :: "vm_env \<Rightarrow> bucc_vm_t \<Rightarrow> bucc_vm_t option" where
  "exec_div env = with_operands (\<lambda>a b vm.
     if is_f64 a \<or> is_f64 b then
       (if f_eq (e_float env) (as_double env b) (f_zero (e_float env)) then throw_div_zero vm
        else bucc_vm_push (VF64 (f_div (e_float env) (as_double env a) (as_double env b))) vm)
     else
       (if as_i64 env b = 0 then throw_div_zero vm
        else do { q \<leftarrow> i64_div (as_i64 env a) (as_i64 env b); bucc_vm_push (VI64 q) vm }))"

definition exec_mod :: "vm_env \<Rightarrow> bucc_vm_t \<Rightarrow> bucc_vm_t option" where
  "exec_mod env = with_operands (\<lambda>a b vm.
     if as_i64 env b = 0 then throw_div_zero vm
     else do { r \<leftarrow> i64_mod (as_i64 env a) (as_i64 env b); bucc_vm_push (VI64 r) vm })"

definition exec_neg :: "vm_env \<Rightarrow> bucc_vm_t \<Rightarrow> bucc_vm_t option" where
  "exec_neg env = with_operand (\<lambda>a vm.
     case a of
       VF64 d \<Rightarrow> bucc_vm_push (VF64 (f_neg (e_float env) d)) vm
     | _ \<Rightarrow> bucc_vm_push (VI64 (- as_i64 env a)) vm)"

definition exec_equality :: "vm_env \<Rightarrow> (bool \<Rightarrow> bool) \<Rightarrow> bucc_vm_t \<Rightarrow> bucc_vm_t option" where
  "exec_equality env f = with_operands (\<lambda>a b vm. do {
     (eq, vm) \<leftarrow> on_heap (\<lambda>h. bucc_value_equal (e_float env) h a b) vm;
     bucc_vm_push (VBool (f eq)) vm })"

definition exec_compare :: "vm_env \<Rightarrow> (int \<Rightarrow> bool) \<Rightarrow> bucc_vm_t \<Rightarrow> bucc_vm_t option" where
  "exec_compare env f = with_operands (\<lambda>a b vm. do {
     c \<leftarrow> bucc_value_compare (e_float env) (heap_of vm) a b;
     bucc_vm_push (VBool (f c)) vm })"

definition vm_truthy :: "vm_env \<Rightarrow> bucc_vm_t \<Rightarrow> bucc_value \<Rightarrow> bool option" where
  "vm_truthy env vm v = bucc_value_truthy (e_float env) (heap_of vm) v"

definition exec_and :: "vm_env \<Rightarrow> bucc_vm_t \<Rightarrow> bucc_vm_t option" where
  "exec_and env = with_operands (\<lambda>a b vm. do {
     x \<leftarrow> vm_truthy env vm a;
     y \<leftarrow> (if x then vm_truthy env vm b else Some False);
     bucc_vm_push (VBool y) vm })"

definition exec_or :: "vm_env \<Rightarrow> bucc_vm_t \<Rightarrow> bucc_vm_t option" where
  "exec_or env = with_operands (\<lambda>a b vm. do {
     x \<leftarrow> vm_truthy env vm a;
     y \<leftarrow> (if x then Some True else vm_truthy env vm b);
     bucc_vm_push (VBool y) vm })"

definition exec_not :: "vm_env \<Rightarrow> bucc_vm_t \<Rightarrow> bucc_vm_t option" where
  "exec_not env = with_operand (\<lambda>a vm. do { x \<leftarrow> vm_truthy env vm a; bucc_vm_push (VBool (\<not> x)) vm })"

definition exec_concat :: "vm_env \<Rightarrow> bucc_vm_t \<Rightarrow> bucc_vm_t option" where
  "exec_concat env = with_operands (concat_values env)"

section \<open>Instructions: control\<close>

definition exec_jmp :: "vm_env \<Rightarrow> bucc_vm_t \<Rightarrow> bucc_vm_t option" where
  "exec_jmp env vm = do { (offset, vm) \<leftarrow> read_i32 env vm; Some (vm\<lparr>ip := ip vm + offset\<rparr>) }"

definition exec_jmp_if :: "vm_env \<Rightarrow> bool \<Rightarrow> bucc_vm_t \<Rightarrow> bucc_vm_t option" where
  "exec_jmp_if env want vm = do {
     (offset, vm) \<leftarrow> read_i32 env vm;
     let (cond, vm) = bucc_vm_pop vm;
     x \<leftarrow> vm_truthy env vm cond;
     value_release cond (if x = want then vm\<lparr>ip := ip vm + offset\<rparr> else vm) }"

text \<open>The arguments stay on the stack; \<open>bp + i\<close> indexes it from the bottom and is not checked.\<close>

primrec copy_args :: "u32 \<Rightarrow> nat \<Rightarrow> nat \<Rightarrow> bucc_vm_t \<Rightarrow> bucc_vm_t option" where
  "copy_args bp i 0 vm = Some vm"
| "copy_args bp i (Suc n) vm = do {
     arg \<leftarrow> arr_get (rev (stack vm)) (unat (bp + word_of_nat i));
     vm \<leftarrow> bucc_vm_set_local (word_of_nat i) arg vm;
     copy_args bp (Suc i) n vm }"

definition enter_proc :: "vm_env \<Rightarrow> u32 \<Rightarrow> u32 \<Rightarrow> bucc_vm_t \<Rightarrow> (bucc_module_proc_t \<times> bucc_vm_t) option" where
  "enter_proc env proc_id bp vm = do {
     ps \<leftarrow> mod_procs (e_module env);
     proc \<leftarrow> arr_get ps (unat proc_id);
     let frame = \<lparr>f_proc = unat proc_id, f_ip = ip vm, f_bp = bp,
                  f_local_base = word_of_nat (length (locals vm))\<rparr>;
     Some (proc, vm\<lparr>frames := frame # frames vm\<rparr>) }"

definition exec_call :: "vm_env \<Rightarrow> bucc_vm_t \<Rightarrow> bucc_vm_t option" where
  "exec_call env vm = do {
     (proc_id, vm) \<leftarrow> read_u16 env vm;
     (argc, vm) \<leftarrow> read_u8 env vm;
     if proc_count (e_module env) \<le> ucast proc_id then Some (vm_error VM_ERROR ''invalid procedure id'' vm)
     else if BUCC_FRAMES_MAX \<le> fp vm then Some (vm_error VM_FRAME_OVERFLOW ''call stack overflow'' vm)
     else do {
       let bp = word_of_nat (sp vm) - ucast argc;
       (proc, vm) \<leftarrow> enter_proc env (ucast proc_id) bp vm;
       vm \<leftarrow> copy_args bp 0 (unat argc) vm;
       Some (vm\<lparr>ip := p_code_offset proc\<rparr>) } }"

text \<open>\<open>args[argc - 1]\<close> is popped first; the list has \<open>args[0]\<close> first.\<close>

primrec pop_args :: "nat \<Rightarrow> bucc_value list \<Rightarrow> bucc_vm_t \<Rightarrow> bucc_value list \<times> bucc_vm_t" where
  "pop_args 0 args vm = (args, vm)"
| "pop_args (Suc n) args vm = (let (v, vm) = bucc_vm_pop vm in pop_args n (v # args) vm)"

definition exec_call_host :: "vm_env \<Rightarrow> bucc_vm_t \<Rightarrow> bucc_vm_t option" where
  "exec_call_host env vm = do {
     (import_id, vm) \<leftarrow> read_u16 env vm;
     (argc, vm) \<leftarrow> read_u8 env vm;
     if import_count (e_module env) \<le> ucast import_id then Some (vm_error VM_ERROR ''invalid import id'' vm)
     else
       (case e_host env of
          Some handler \<Rightarrow>
            if 16 < argc then Some (vm_error VM_ERROR ''host call has too many arguments'' vm)
            else do {
              im \<leftarrow> mod_imports (e_module env);
              imp \<leftarrow> arr_get im (unat import_id);
              let (args, vm) = pop_args (unat argc) [] vm;
              let vm = vm\<lparr>counters := (counters vm)\<lparr>c_host_calls := c_host_calls (counters vm) + 1\<rparr>\<rparr>;
              (result, vm) \<leftarrow> handler vm (i_ns imp) (i_fn imp) args;
              vm \<leftarrow> bucc_vm_push result vm;
              release_all args vm }
        | None \<Rightarrow> do {
            vm \<leftarrow> pop_release (unat argc) vm;
            bucc_vm_push VNull vm }) }"

definition leave_frame :: "bucc_frame_t \<Rightarrow> bucc_frame_t list \<Rightarrow> bucc_vm_t \<Rightarrow> bucc_vm_t option" where
  "leave_frame f fs vm = do {
     let vm = vm\<lparr>frames := fs\<rparr>;
     vm \<leftarrow> drop_locals (length (locals vm) - unat (f_local_base f)) vm;
     vm \<leftarrow> pop_release (sp vm - unat (f_bp f)) vm;
     Some (vm\<lparr>ip := f_ip f\<rparr>) }"

definition exec_return :: "bucc_vm_t \<Rightarrow> bucc_vm_t option" where
  "exec_return vm =
     (case frames vm of
        [] \<Rightarrow> Some (vm\<lparr>status := VM_HALT, running := False\<rparr>)
      | f # fs \<Rightarrow> leave_frame f fs vm)"

definition exec_return_value :: "bucc_vm_t \<Rightarrow> bucc_vm_t option" where
  "exec_return_value = with_operand (\<lambda>ret vm.
     case frames vm of
       [] \<Rightarrow> do { vm \<leftarrow> bucc_vm_push ret vm; Some (vm\<lparr>status := VM_HALT, running := False\<rparr>) }
     | f # fs \<Rightarrow> do { vm \<leftarrow> leave_frame f fs vm; bucc_vm_push ret vm })"

definition exec_chain :: "vm_env \<Rightarrow> bucc_vm_t \<Rightarrow> bucc_vm_t option" where
  "exec_chain env vm = do {
     (target_idx, vm) \<leftarrow> read_u16 env vm;
     (has_args, vm) \<leftarrow> read_u8 env vm;
     target \<leftarrow> bucc_module_get_string (e_module env) (ucast target_idx);
     (t, vm) \<leftarrow> on_heap (\<lambda>h. Some (dup_cstr h target)) vm;
     let vm = vm\<lparr>chain_target := t\<rparr>;
     vm \<leftarrow> (if has_args \<noteq> 0 then do {
              vm \<leftarrow> value_release (chain_args vm) vm;
              let (v, vm) = bucc_vm_pop vm;
              Some (vm\<lparr>chain_args := v\<rparr>) }
            else Some vm);
     Some (vm\<lparr>status := VM_CHAIN, running := False\<rparr>) }"

section \<open>Instructions: arrays and maps\<close>

text \<open>The items are popped into a buffer, the last one first, and pushed onto the array in order.\<close>

primrec push_items :: "ptr \<Rightarrow> bucc_value list \<Rightarrow> bucc_vm_t \<Rightarrow> bucc_vm_t option" where
  "push_items arr [] vm = Some vm"
| "push_items arr (v # vs) vm = do {
     (_, vm) \<leftarrow> on_heap (\<lambda>h. bucc_array_push h arr v) vm;
     vm \<leftarrow> value_release v vm;
     push_items arr vs vm }"

definition exec_array_new :: "vm_env \<Rightarrow> bucc_vm_t \<Rightarrow> bucc_vm_t option" where
  "exec_array_new env vm = do {
     (n, vm) \<leftarrow> read_u16 env vm;
     (arr, vm) \<leftarrow> on_heap (\<lambda>h. Some (bucc_array_new h (if n > 0 then unat n else 8))) vm;
     let (ok, vm) = (if n > 0 then vm_malloc vm else (True, vm));
     if \<not> ok then do {
       vm \<leftarrow> value_release (VArray arr) vm;
       Some (vm_error VM_ERROR ''out of memory creating array'' vm) }
     else do {
       let (items, vm) = pop_args (unat n) [] vm;
       vm \<leftarrow> push_items arr items vm;
       vm \<leftarrow> bucc_vm_push (VArray arr) vm;
       value_release (VArray arr) vm } }"

definition exec_array_get :: "vm_env \<Rightarrow> bucc_vm_t \<Rightarrow> bucc_vm_t option" where
  "exec_array_get env = with_operands (\<lambda>arr idx vm.
     case (arr, idx) of
       (VArray p, VI64 i) \<Rightarrow> do {
         (v, vm) \<leftarrow> on_heap (\<lambda>h. bucc_array_get h p (unat i)) vm;
         vm \<leftarrow> bucc_vm_push v vm;
         value_release v vm }
     | _ \<Rightarrow> bucc_vm_push VNull vm)"

text \<open>Three operands, popped last first; the order of the releases is that of the arguments.\<close>

definition with_three ::
    "(bucc_value \<Rightarrow> bucc_value \<Rightarrow> bucc_value \<Rightarrow> bucc_vm_t \<Rightarrow> bucc_vm_t option) \<Rightarrow> bucc_vm_t \<Rightarrow> bucc_vm_t option" where
  "with_three f vm = do {
     let (c, vm) = bucc_vm_pop vm;
     let (b, vm) = bucc_vm_pop vm;
     let (a, vm) = bucc_vm_pop vm;
     vm \<leftarrow> f a b c vm;
     vm \<leftarrow> value_release a vm;
     vm \<leftarrow> value_release b vm;
     value_release c vm }"

definition exec_array_set :: "vm_env \<Rightarrow> bucc_vm_t \<Rightarrow> bucc_vm_t option" where
  "exec_array_set env = with_three (\<lambda>arr idx v vm.
     case (arr, idx) of
       (VArray p, VI64 i) \<Rightarrow> do { (_, vm) \<leftarrow> on_heap (\<lambda>h. bucc_array_set h p (unat i) v) vm; Some vm }
     | _ \<Rightarrow> Some vm)"

definition exec_array_push :: "vm_env \<Rightarrow> bucc_vm_t \<Rightarrow> bucc_vm_t option" where
  "exec_array_push env = with_operands (\<lambda>arr v vm.
     case arr of
       VArray p \<Rightarrow> do { (_, vm) \<leftarrow> on_heap (\<lambda>h. bucc_array_push h p v) vm; Some vm }
     | _ \<Rightarrow> Some vm)"

definition exec_array_pop :: "vm_env \<Rightarrow> bucc_vm_t \<Rightarrow> bucc_vm_t option" where
  "exec_array_pop env = with_operand (\<lambda>arr vm.
     case arr of
       VArray p \<Rightarrow> do { (v, vm) \<leftarrow> on_heap (\<lambda>h. bucc_array_pop h p) vm; bucc_vm_push v vm }
     | _ \<Rightarrow> bucc_vm_push VNull vm)"

primrec set_entries :: "ptr \<Rightarrow> nat \<Rightarrow> bucc_vm_t \<Rightarrow> bucc_vm_t option" where
  "set_entries m 0 vm = Some vm"
| "set_entries m (Suc n) vm = do {
     let (v, vm) = bucc_vm_pop vm;
     let (key, vm) = bucc_vm_pop vm;
     vm \<leftarrow> (case key of
              VString k \<Rightarrow> do { (_, vm) \<leftarrow> on_heap (\<lambda>h. bucc_map_set h m k v) vm; Some vm }
            | _ \<Rightarrow> Some vm);
     vm \<leftarrow> value_release key vm;
     vm \<leftarrow> value_release v vm;
     set_entries m n vm }"

definition exec_map_new :: "vm_env \<Rightarrow> bucc_vm_t \<Rightarrow> bucc_vm_t option" where
  "exec_map_new env vm = do {
     (n, vm) \<leftarrow> read_u16 env vm;
     (m, vm) \<leftarrow> on_heap (\<lambda>h. Some (bucc_map_new h (if n > 0 then unat n else 8))) vm;
     vm \<leftarrow> set_entries m (unat n) vm;
     vm \<leftarrow> bucc_vm_push (VMap m) vm;
     value_release (VMap m) vm }"

definition exec_map_get :: "vm_env \<Rightarrow> bucc_vm_t \<Rightarrow> bucc_vm_t option" where
  "exec_map_get env = with_operands (\<lambda>m key vm.
     case (m, key) of
       (VMap p, VString k) \<Rightarrow> do {
         (v, vm) \<leftarrow> on_heap (\<lambda>h. bucc_map_get h p k) vm;
         vm \<leftarrow> bucc_vm_push v vm;
         value_release v vm }
     | _ \<Rightarrow> bucc_vm_push VNull vm)"

definition exec_map_set :: "vm_env \<Rightarrow> bucc_vm_t \<Rightarrow> bucc_vm_t option" where
  "exec_map_set env = with_three (\<lambda>m key v vm.
     case (m, key) of
       (VMap p, VString k) \<Rightarrow> do { (_, vm) \<leftarrow> on_heap (\<lambda>h. bucc_map_set h p k v) vm; Some vm }
     | _ \<Rightarrow> Some vm)"

definition exec_map_has :: "vm_env \<Rightarrow> bucc_vm_t \<Rightarrow> bucc_vm_t option" where
  "exec_map_has env = with_operands (\<lambda>m key vm. do {
     has \<leftarrow> (case (m, key) of
               (VMap p, VString k) \<Rightarrow> bucc_map_has (heap_of vm) p k
             | _ \<Rightarrow> Some False);
     bucc_vm_push (VBool has) vm })"

definition exec_map_keys :: "vm_env \<Rightarrow> bucc_vm_t \<Rightarrow> bucc_vm_t option" where
  "exec_map_keys env = with_operand (\<lambda>m vm.
     case m of
       VMap p \<Rightarrow> do {
         (keys, vm) \<leftarrow> on_heap (\<lambda>h. bucc_map_keys h p) vm;
         vm \<leftarrow> bucc_vm_push (VArray keys) vm;
         value_release (VArray keys) vm }
     | _ \<Rightarrow> do {
         (arr, vm) \<leftarrow> on_heap (\<lambda>h. Some (bucc_array_new h 0)) vm;
         bucc_vm_push (VArray arr) vm })"

section \<open>Instructions: exceptions\<close>

definition exec_try_begin :: "vm_env \<Rightarrow> bucc_vm_t \<Rightarrow> bucc_vm_t option" where
  "exec_try_begin env vm = do {
     (offset, vm) \<leftarrow> read_i32 env vm;
     let (ok, vm) = vm_malloc vm;
     Some (if ok
           then vm\<lparr>try_stack := \<lparr>t_handler_ip = ip vm + offset, t_frame_depth = fp vm, t_stack_depth = sp vm\<rparr>
                                 # try_stack vm\<rparr>
           else vm) }"

definition exec_try_end :: "bucc_vm_t \<Rightarrow> bucc_vm_t option" where
  "exec_try_end vm = Some (vm\<lparr>try_stack := tl (try_stack vm)\<rparr>)"

definition raise_exception :: "bucc_vm_t \<Rightarrow> bucc_vm_t option" where
  "raise_exception vm = do {
     (handled, vm) \<leftarrow> handle_exception vm;
     Some (if handled then vm else vm_error VM_ERROR ''unhandled exception'' vm) }"

definition exec_throw :: "bucc_vm_t \<Rightarrow> bucc_vm_t option" where
  "exec_throw vm = do {
     vm \<leftarrow> with_operand bucc_vm_throw vm;
     raise_exception vm }"

definition exec_re_throw :: "bucc_vm_t \<Rightarrow> bucc_vm_t option" where
  "exec_re_throw vm = (if x_active (exception vm) then raise_exception vm else Some vm)"

section \<open>Instructions: casts\<close>

definition exec_cast_i64 :: "vm_env \<Rightarrow> bucc_vm_t \<Rightarrow> bucc_vm_t option" where
  "exec_cast_i64 env = with_operand (\<lambda>v vm. do {
     (d, _) \<leftarrow> bucc_value_to_number (e_float env) (heap_of vm) v;
     i \<leftarrow> f_to_i64 (e_float env) d;
     bucc_vm_push (VI64 i) vm })"

definition exec_cast_f64 :: "vm_env \<Rightarrow> bucc_vm_t \<Rightarrow> bucc_vm_t option" where
  "exec_cast_f64 env = with_operand (\<lambda>v vm. do {
     (d, _) \<leftarrow> bucc_value_to_number (e_float env) (heap_of vm) v;
     bucc_vm_push (VF64 d) vm })"

definition exec_cast_string :: "vm_env \<Rightarrow> bucc_vm_t \<Rightarrow> bucc_vm_t option" where
  "exec_cast_string env = with_operand (\<lambda>v vm. do {
     (s, vm) \<leftarrow> on_heap (\<lambda>h. bucc_value_to_string (e_float env) h v) vm;
     vm \<leftarrow> bucc_vm_push (VString s) vm;
     string_release s vm })"

definition exec_cast_bool :: "vm_env \<Rightarrow> bucc_vm_t \<Rightarrow> bucc_vm_t option" where
  "exec_cast_bool env = with_operand (\<lambda>v vm. do { b \<leftarrow> vm_truthy env vm v; bucc_vm_push (VBool b) vm })"

definition exec_typeof :: "vm_env \<Rightarrow> bucc_vm_t \<Rightarrow> bucc_vm_t option" where
  "exec_typeof env = with_operand (\<lambda>v vm. do {
     (s, vm) \<leftarrow> on_heap (\<lambda>h. Some (bucc_string_from_cstr h (Some (cstr_bytes (bucc_value_kind_name v))))) vm;
     vm \<leftarrow> bucc_vm_push (VString s) vm;
     string_release s vm })"

text \<open>The calendar: days since 1970 to year, month and day.\<close>

definition is_leap :: "int \<Rightarrow> bool" where
  "is_leap y \<longleftrightarrow> y mod 4 = 0 \<and> (y mod 100 \<noteq> 0 \<or> y mod 400 = 0)"

definition year_days :: "int \<Rightarrow> int" where
  "year_days y = (if is_leap y then 366 else 365)"

function years_loop :: "int \<Rightarrow> int \<Rightarrow> int \<times> int" where
  "years_loop y days =
     (if 365 \<le> days \<and> year_days y \<le> days then years_loop (y + 1) (days - year_days y) else (y, days))"
  by pat_completeness auto
termination
  by (relation "measure (\<lambda>(y, days). nat days)") (auto simp: year_days_def)

declare years_loop.simps [simp del]

definition days_in_month :: "int list" where
  "days_in_month = [31, 28, 31, 30, 31, 30, 31, 31, 30, 31, 30, 31]"

definition month_days :: "int \<Rightarrow> nat \<Rightarrow> int" where
  "month_days y m = (if m = 1 \<and> is_leap y then 29 else days_in_month ! m)"

function months_loop :: "int \<Rightarrow> nat \<Rightarrow> int \<Rightarrow> nat \<times> int" where
  "months_loop y m days =
     (if m < 12 then if days < month_days y m then (m, days) else months_loop y (m + 1) (days - month_days y m)
      else (m, days))"
  by pat_completeness auto
termination
  by (relation "measure (\<lambda>(y, m, days). 12 - m)") auto

declare months_loop.simps [simp del]

definition civil_of_days :: "int \<Rightarrow> bucc_date_t" where
  "civil_of_days days =
     (let (y, days) = years_loop 1970 days; (m, days) = months_loop y 0 days
      in \<lparr>d_year = word_of_int y, d_month = word_of_int (int m + 1), d_day = word_of_int (days + 1)\<rparr>)"

text \<open>\<open>%d-%d-%d\<close> and \<open>%d-%d-%d %d:%d:%d\<close>.\<close>

definition date_format :: "scan_item list" where
  "date_format = [ScanInt, ScanChar CHR ''-'', ScanInt, ScanChar CHR ''-'', ScanInt]"

definition datetime_format :: "scan_item list" where
  "datetime_format =
     date_format @ [ScanSpace, ScanInt, ScanChar CHR '':'', ScanInt, ScanChar CHR '':'', ScanInt]"

definition zero_date :: bucc_date_t where
  "zero_date = \<lparr>d_year = 0, d_month = 0, d_day = 0\<rparr>"

definition zero_datetime :: bucc_datetime_t where
  "zero_datetime = \<lparr>dt_year = 0, dt_month = 0, dt_day = 0, dt_hour = 0, dt_minute = 0, dt_second = 0\<rparr>"

definition cast_date :: "heap \<Rightarrow> bucc_value \<Rightarrow> bucc_date_t option" where
  "cast_date h v =
     (case v of
        VDate d \<Rightarrow> Some d
      | VDatetime d \<Rightarrow> Some \<lparr>d_year = dt_year d, d_month = dt_month d, d_day = dt_day d\<rparr>
      | VString (Some a) \<Rightarrow> do {
          s \<leftarrow> get_string h a;
          Some (case c_sscanf date_format (bytes_chars (until_nul (s_data s))) of
                  [y, m, d] \<Rightarrow> \<lparr>d_year = word_of_int y, d_month = word_of_int m, d_day = word_of_int d\<rparr>
                | _ \<Rightarrow> zero_date) }
      | VI64 i \<Rightarrow> Some (civil_of_days (sint i))
      | _ \<Rightarrow> Some zero_date)"

definition exec_cast_date :: "vm_env \<Rightarrow> bucc_vm_t \<Rightarrow> bucc_vm_t option" where
  "exec_cast_date env vm = do {
     let (v, vm) = bucc_vm_pop vm;
     d \<leftarrow> cast_date (heap_of vm) v;
     vm \<leftarrow> value_release v vm;
     bucc_vm_push (VDate d) vm }"

text \<open>A time stamp: \<open>/\<close> and \<open>%\<close> truncate, and a negative remainder is moved up by one day.\<close>

definition datetime_of_seconds :: "int \<Rightarrow> bucc_datetime_t" where
  "datetime_of_seconds ts =
     (let days = ts sdiv 86400;
          secs = ts smod 86400;
          (days, secs) = (if secs < 0 then (days - 1, secs + 86400) else (days, secs));
          d = civil_of_days days
      in \<lparr>dt_year = d_year d, dt_month = d_month d, dt_day = d_day d,
          dt_hour = word_of_int (secs div 3600), dt_minute = word_of_int (secs mod 3600 div 60),
          dt_second = word_of_int (secs mod 60)\<rparr>)"

definition cast_datetime :: "heap \<Rightarrow> bucc_value \<Rightarrow> bucc_datetime_t option" where
  "cast_datetime h v =
     (case v of
        VDatetime d \<Rightarrow> Some d
      | VDate d \<Rightarrow> Some (zero_datetime\<lparr>dt_year := d_year d, dt_month := d_month d, dt_day := d_day d\<rparr>)
      | VString (Some a) \<Rightarrow> do {
          s \<leftarrow> get_string h a;
          let ns = c_sscanf datetime_format (bytes_chars (until_nul (s_data s)));
          let field = (\<lambda>i. if i < length ns then ns ! i else 0);
          Some (if 3 \<le> length ns
                then \<lparr>dt_year = word_of_int (field 0), dt_month = word_of_int (field 1), dt_day = word_of_int (field 2),
                      dt_hour = word_of_int (field 3), dt_minute = word_of_int (field 4),
                      dt_second = word_of_int (field 5)\<rparr>
                else zero_datetime) }
      | VI64 i \<Rightarrow> Some (datetime_of_seconds (sint i))
      | _ \<Rightarrow> Some zero_datetime)"

definition exec_cast_datetime :: "vm_env \<Rightarrow> bucc_vm_t \<Rightarrow> bucc_vm_t option" where
  "exec_cast_datetime env vm = do {
     let (v, vm) = bucc_vm_pop vm;
     d \<leftarrow> cast_datetime (heap_of vm) v;
     vm \<leftarrow> value_release v vm;
     bucc_vm_push (VDatetime d) vm }"

section \<open>Instructions: dispatch and ranges\<close>

text \<open>The selector as a signed integer.\<close>

definition selector_index :: "vm_env \<Rightarrow> bucc_value \<Rightarrow> int option" where
  "selector_index env v =
     (case v of
        VI64 i \<Rightarrow> Some (sint i)
      | VF64 d \<Rightarrow> map_option sint (f_to_i64 (e_float env) d)
      | _ \<Rightarrow> Some 0)"

definition exec_dispatch_call :: "vm_env \<Rightarrow> bucc_vm_t \<Rightarrow> bucc_vm_t option" where
  "exec_dispatch_call env vm = do {
     (base_proc, vm) \<leftarrow> read_u16 env vm;
     (target_count, vm) \<leftarrow> read_u8 env vm;
     let (selector, vm) = bucc_vm_pop vm;
     index \<leftarrow> selector_index env selector;
     vm \<leftarrow> value_release selector vm;
     if 1 \<le> index \<and> index \<le> uint target_count then
       (let proc_id = ucast base_proc + word_of_int (index - 1) in
        if proc_id < proc_count (e_module env) then
          (if BUCC_FRAMES_MAX \<le> fp vm then Some (vm_error VM_FRAME_OVERFLOW ''call stack overflow'' vm)
           else do {
             (proc, vm) \<leftarrow> enter_proc env proc_id (word_of_nat (sp vm)) vm;
             Some (vm\<lparr>ip := p_code_offset proc\<rparr>) })
        else Some (vm_error VM_ERROR ''dispatch target procedure out of range'' vm))
     else Some (vm_error VM_ERROR ''invalid dispatch selector'' vm) }"

definition f_le :: "float_ops \<Rightarrow> f64 \<Rightarrow> f64 \<Rightarrow> bool" where
  "f_le fo a b \<longleftrightarrow> f_lt fo a b \<or> f_eq fo a b"

definition in_range :: "vm_env \<Rightarrow> heap \<Rightarrow> bucc_value \<Rightarrow> bucc_value \<Rightarrow> bucc_value \<Rightarrow> bool option" where
  "in_range env h v low high =
     (case (v, low, high) of
        (VI64 x, VI64 l, VI64 u) \<Rightarrow> Some (sint l \<le> sint x \<and> sint x \<le> sint u)
      | (VString p, VString l, VString u) \<Rightarrow> do {
          c \<leftarrow> bucc_string_cmp h p l;
          d \<leftarrow> bucc_string_cmp h p u;
          Some (0 \<le> c \<and> d \<le> 0) }
      | _ \<Rightarrow>
          if BUCC_IS_NUMERIC v \<and> BUCC_IS_NUMERIC low \<and> BUCC_IS_NUMERIC high
          then (let fo = e_float env; x = as_double env v; l = as_double env low; u = as_double env high
                in Some (f_le fo l x \<and> f_le fo x u))
          else Some False)"

definition exec_range_test :: "vm_env \<Rightarrow> bucc_vm_t \<Rightarrow> bucc_vm_t option" where
  "exec_range_test env vm = do {
     (_, vm) \<leftarrow> read_u16 env vm;
     (_, vm) \<leftarrow> read_u8 env vm;
     let (high, vm) = bucc_vm_pop vm;
     let (low, vm) = bucc_vm_pop vm;
     let (v, vm) = bucc_vm_pop vm;
     r \<leftarrow> in_range env (heap_of vm) v low high;
     vm \<leftarrow> release_all [v, low, high] vm;
     bucc_vm_push (VBool r) vm }"

section \<open>One step\<close>

abbreviation OP_NOP :: u8 where "OP_NOP \<equiv> 0x00"
abbreviation OP_HALT :: u8 where "OP_HALT \<equiv> 0x01"
abbreviation OP_PUSH_NULL :: u8 where "OP_PUSH_NULL \<equiv> 0x02"
abbreviation OP_PUSH_TRUE :: u8 where "OP_PUSH_TRUE \<equiv> 0x03"
abbreviation OP_PUSH_FALSE :: u8 where "OP_PUSH_FALSE \<equiv> 0x04"
abbreviation OP_PUSH_I64 :: u8 where "OP_PUSH_I64 \<equiv> 0x05"
abbreviation OP_PUSH_F64 :: u8 where "OP_PUSH_F64 \<equiv> 0x06"
abbreviation OP_PUSH_STR :: u8 where "OP_PUSH_STR \<equiv> 0x07"
abbreviation OP_PUSH_DATE :: u8 where "OP_PUSH_DATE \<equiv> 0x08"
abbreviation OP_PUSH_DATETIME :: u8 where "OP_PUSH_DATETIME \<equiv> 0x09"
abbreviation OP_POP :: u8 where "OP_POP \<equiv> 0x0A"
abbreviation OP_DUP :: u8 where "OP_DUP \<equiv> 0x0B"
abbreviation OP_SWAP :: u8 where "OP_SWAP \<equiv> 0x0C"
abbreviation OP_LOAD_GLOBAL :: u8 where "OP_LOAD_GLOBAL \<equiv> 0x10"
abbreviation OP_STORE_GLOBAL :: u8 where "OP_STORE_GLOBAL \<equiv> 0x11"
abbreviation OP_LOAD_LOCAL :: u8 where "OP_LOAD_LOCAL \<equiv> 0x12"
abbreviation OP_STORE_LOCAL :: u8 where "OP_STORE_LOCAL \<equiv> 0x13"
abbreviation OP_LOAD_ARG :: u8 where "OP_LOAD_ARG \<equiv> 0x14"
abbreviation OP_ADD :: u8 where "OP_ADD \<equiv> 0x20"
abbreviation OP_SUB :: u8 where "OP_SUB \<equiv> 0x21"
abbreviation OP_MUL :: u8 where "OP_MUL \<equiv> 0x22"
abbreviation OP_DIV :: u8 where "OP_DIV \<equiv> 0x23"
abbreviation OP_MOD :: u8 where "OP_MOD \<equiv> 0x24"
abbreviation OP_NEG :: u8 where "OP_NEG \<equiv> 0x25"
abbreviation OP_EQ :: u8 where "OP_EQ \<equiv> 0x26"
abbreviation OP_NE :: u8 where "OP_NE \<equiv> 0x27"
abbreviation OP_LT :: u8 where "OP_LT \<equiv> 0x28"
abbreviation OP_LE :: u8 where "OP_LE \<equiv> 0x29"
abbreviation OP_GT :: u8 where "OP_GT \<equiv> 0x2A"
abbreviation OP_GE :: u8 where "OP_GE \<equiv> 0x2B"
abbreviation OP_AND :: u8 where "OP_AND \<equiv> 0x2C"
abbreviation OP_OR :: u8 where "OP_OR \<equiv> 0x2D"
abbreviation OP_NOT :: u8 where "OP_NOT \<equiv> 0x2E"
abbreviation OP_CONCAT :: u8 where "OP_CONCAT \<equiv> 0x2F"
abbreviation OP_JMP :: u8 where "OP_JMP \<equiv> 0x30"
abbreviation OP_JMP_FALSE :: u8 where "OP_JMP_FALSE \<equiv> 0x31"
abbreviation OP_JMP_TRUE :: u8 where "OP_JMP_TRUE \<equiv> 0x32"
abbreviation OP_CALL :: u8 where "OP_CALL \<equiv> 0x33"
abbreviation OP_CALL_HOST :: u8 where "OP_CALL_HOST \<equiv> 0x34"
abbreviation OP_RETURN :: u8 where "OP_RETURN \<equiv> 0x35"
abbreviation OP_RETURN_VALUE :: u8 where "OP_RETURN_VALUE \<equiv> 0x36"
abbreviation OP_CHAIN :: u8 where "OP_CHAIN \<equiv> 0x37"
abbreviation OP_YIELD :: u8 where "OP_YIELD \<equiv> 0x38"
abbreviation OP_ARRAY_NEW :: u8 where "OP_ARRAY_NEW \<equiv> 0x40"
abbreviation OP_ARRAY_GET :: u8 where "OP_ARRAY_GET \<equiv> 0x41"
abbreviation OP_ARRAY_SET :: u8 where "OP_ARRAY_SET \<equiv> 0x42"
abbreviation OP_ARRAY_PUSH :: u8 where "OP_ARRAY_PUSH \<equiv> 0x43"
abbreviation OP_ARRAY_POP :: u8 where "OP_ARRAY_POP \<equiv> 0x44"
abbreviation OP_MAP_NEW :: u8 where "OP_MAP_NEW \<equiv> 0x45"
abbreviation OP_MAP_GET :: u8 where "OP_MAP_GET \<equiv> 0x46"
abbreviation OP_MAP_SET :: u8 where "OP_MAP_SET \<equiv> 0x47"
abbreviation OP_MAP_HAS :: u8 where "OP_MAP_HAS \<equiv> 0x48"
abbreviation OP_MAP_KEYS :: u8 where "OP_MAP_KEYS \<equiv> 0x49"
abbreviation OP_DISPATCH_CALL :: u8 where "OP_DISPATCH_CALL \<equiv> 0x50"
abbreviation OP_RANGE_TEST :: u8 where "OP_RANGE_TEST \<equiv> 0x51"
abbreviation OP_TRY_BEGIN :: u8 where "OP_TRY_BEGIN \<equiv> 0x60"
abbreviation OP_TRY_END :: u8 where "OP_TRY_END \<equiv> 0x61"
abbreviation OP_THROW :: u8 where "OP_THROW \<equiv> 0x62"
abbreviation OP_RE_THROW :: u8 where "OP_RE_THROW \<equiv> 0x63"
abbreviation OP_CAST_I64 :: u8 where "OP_CAST_I64 \<equiv> 0x70"
abbreviation OP_CAST_F64 :: u8 where "OP_CAST_F64 \<equiv> 0x71"
abbreviation OP_CAST_STRING :: u8 where "OP_CAST_STRING \<equiv> 0x72"
abbreviation OP_CAST_BOOL :: u8 where "OP_CAST_BOOL \<equiv> 0x73"
abbreviation OP_CAST_DATE :: u8 where "OP_CAST_DATE \<equiv> 0x74"
abbreviation OP_CAST_DATETIME :: u8 where "OP_CAST_DATETIME \<equiv> 0x75"
abbreviation OP_TYPEOF :: u8 where "OP_TYPEOF \<equiv> 0x76"
abbreviation OP_DEBUG_LINE :: u8 where "OP_DEBUG_LINE \<equiv> 0x7E"
abbreviation OP_PROF_TICK :: u8 where "OP_PROF_TICK \<equiv> 0x7F"

text \<open>
  The switch over the opcodes, as a table; any other byte takes the default branch.
\<close>

definition exec_table :: "vm_env \<Rightarrow> (u8 \<times> (bucc_vm_t \<Rightarrow> bucc_vm_t option)) list" where
  "exec_table env =
     [(OP_NOP, \<lambda>vm. Some vm),
      (OP_HALT, \<lambda>vm. Some (vm\<lparr>status := VM_HALT, running := False\<rparr>)),
      (OP_PUSH_NULL, bucc_vm_push VNull), (OP_PUSH_TRUE, bucc_vm_push (VBool True)),
      (OP_PUSH_FALSE, bucc_vm_push (VBool False)), (OP_PUSH_I64, exec_push_const env),
      (OP_PUSH_F64, exec_push_const env), (OP_PUSH_STR, exec_push_str env),
      (OP_PUSH_DATE, exec_push_const env), (OP_PUSH_DATETIME, exec_push_const env),
      (OP_POP, exec_pop), (OP_DUP, exec_dup), (OP_SWAP, exec_swap),
      (OP_LOAD_GLOBAL, exec_load_global env), (OP_STORE_GLOBAL, exec_store_global env),
      (OP_LOAD_LOCAL, exec_load_local env), (OP_STORE_LOCAL, exec_store_local env),
      (OP_LOAD_ARG, exec_load_local env),
      (OP_ADD, exec_add env), (OP_SUB, exec_sub env), (OP_MUL, exec_mul env), (OP_DIV, exec_div env),
      (OP_MOD, exec_mod env), (OP_NEG, exec_neg env),
      (OP_EQ, exec_equality env (\<lambda>b. b)), (OP_NE, exec_equality env Not),
      (OP_LT, exec_compare env (\<lambda>c. c < 0)), (OP_LE, exec_compare env (\<lambda>c. c \<le> 0)),
      (OP_GT, exec_compare env (\<lambda>c. c > 0)), (OP_GE, exec_compare env (\<lambda>c. c \<ge> 0)),
      (OP_AND, exec_and env), (OP_OR, exec_or env), (OP_NOT, exec_not env), (OP_CONCAT, exec_concat env),
      (OP_JMP, exec_jmp env), (OP_JMP_FALSE, exec_jmp_if env False), (OP_JMP_TRUE, exec_jmp_if env True),
      (OP_CALL, exec_call env), (OP_CALL_HOST, exec_call_host env), (OP_RETURN, exec_return),
      (OP_RETURN_VALUE, exec_return_value), (OP_CHAIN, exec_chain env),
      (OP_YIELD, \<lambda>vm. Some (vm\<lparr>status := VM_YIELD, running := False\<rparr>)),
      (OP_ARRAY_NEW, exec_array_new env), (OP_ARRAY_GET, exec_array_get env),
      (OP_ARRAY_SET, exec_array_set env), (OP_ARRAY_PUSH, exec_array_push env),
      (OP_ARRAY_POP, exec_array_pop env), (OP_MAP_NEW, exec_map_new env), (OP_MAP_GET, exec_map_get env),
      (OP_MAP_SET, exec_map_set env), (OP_MAP_HAS, exec_map_has env), (OP_MAP_KEYS, exec_map_keys env),
      (OP_DISPATCH_CALL, exec_dispatch_call env), (OP_RANGE_TEST, exec_range_test env),
      (OP_TRY_BEGIN, exec_try_begin env), (OP_TRY_END, exec_try_end), (OP_THROW, exec_throw),
      (OP_RE_THROW, exec_re_throw),
      (OP_CAST_I64, exec_cast_i64 env), (OP_CAST_F64, exec_cast_f64 env),
      (OP_CAST_STRING, exec_cast_string env), (OP_CAST_BOOL, exec_cast_bool env),
      (OP_CAST_DATE, exec_cast_date env), (OP_CAST_DATETIME, exec_cast_datetime env),
      (OP_TYPEOF, exec_typeof env),
      (OP_DEBUG_LINE, \<lambda>vm. map_option snd (read_u16 env vm)),
      (OP_PROF_TICK, \<lambda>vm. Some (vm\<lparr>counters := (counters vm)\<lparr>c_profile_ticks := c_profile_ticks (counters vm) + 1\<rparr>\<rparr>))]"

definition exec_op :: "vm_env \<Rightarrow> u8 \<Rightarrow> bucc_vm_t \<Rightarrow> bucc_vm_t option" where
  "exec_op env op vm =
     (case map_of (exec_table env) op of
        Some f \<Rightarrow> f vm
      | None \<Rightarrow> Some (vm_error VM_INVALID_OPCODE ''invalid opcode'' vm))"

text \<open>The limit is a 32-bit number, the counter a 64-bit one.\<close>

definition bucc_vm_step :: "vm_env \<Rightarrow> bucc_vm_t \<Rightarrow> (bucc_vm_status_t \<times> bucc_vm_t) option" where
  "bucc_vm_step env vm =
     (if bytecode (e_module env) = None then Some (VM_ERROR, vm)
      else if status vm \<noteq> VM_OK then Some (status vm, vm)
      else if ucast (max_instructions (limits vm)) \<le> c_instructions (counters vm) then
        (let vm = vm_error VM_LIMIT_EXCEEDED ''instruction limit exceeded'' vm in Some (status vm, vm))
      else if bytecode_len (e_module env) \<le> ip vm then Some (VM_HALT, vm\<lparr>status := VM_HALT\<rparr>)
      else do {
        let vm = vm\<lparr>counters := (counters vm)\<lparr>c_instructions := c_instructions (counters vm) + 1\<rparr>\<rparr>;
        (op, vm) \<leftarrow> read_u8 env vm;
        vm \<leftarrow> exec_op env op vm;
        Some (status vm, vm) })"

section \<open>Running\<close>

text \<open>
  The run loop. \<^term>\<open>None\<close> is a loop that does not end, \<^term>\<open>Some None\<close> undefined behaviour in a step.
\<close>

partial_function (option) run_loop :: "vm_env \<Rightarrow> bucc_vm_t \<Rightarrow> bucc_vm_t option option" where
  "run_loop env vm =
     (if running vm \<and> status vm = VM_OK then
        (case bucc_vm_step env vm of
           None \<Rightarrow> Some None
         | Some r \<Rightarrow> run_loop env (snd r))
      else Some (Some vm))"

definition bucc_vm_run :: "vm_env \<Rightarrow> bucc_vm_t \<Rightarrow> (bucc_vm_status_t \<times> bucc_vm_t) option option" where
  "bucc_vm_run env vm = map_option (map_option (\<lambda>vm. (status vm, vm))) (run_loop env (vm\<lparr>running := True\<rparr>))"

primrec push_args :: "bucc_value list \<Rightarrow> bucc_vm_t \<Rightarrow> bucc_vm_t option" where
  "push_args [] vm = Some vm"
| "push_args (v # vs) vm = do { vm \<leftarrow> bucc_vm_push v vm; push_args vs vm }"

definition bucc_vm_call :: "vm_env \<Rightarrow> bytes \<Rightarrow> bucc_value list \<Rightarrow> bucc_vm_t
    \<Rightarrow> (bucc_vm_status_t \<times> bucc_vm_t) option option" where
  "bucc_vm_call env proc_name args vm =
     (case bucc_module_find_proc (e_module env) proc_name of
        None \<Rightarrow> Some None
      | Some None \<Rightarrow>
          (let vm = vm_error VM_ERROR ''procedure not found'' vm in Some (Some (status vm, vm)))
      | Some (Some i) \<Rightarrow>
          (case (push_args args vm, mod_procs (e_module env)) of
             (Some vm, Some ps) \<Rightarrow> bucc_vm_run env (vm\<lparr>ip := p_code_offset (ps ! i)\<rparr>)
           | _ \<Rightarrow> Some None))"

definition bucc_vm_status_name :: "bucc_vm_status_t \<Rightarrow> string" where
  "bucc_vm_status_name st =
     (case st of
        VM_OK \<Rightarrow> ''OK'' | VM_HALT \<Rightarrow> ''HALT'' | VM_YIELD \<Rightarrow> ''YIELD'' | VM_CHAIN \<Rightarrow> ''CHAIN'' | VM_ERROR \<Rightarrow> ''ERROR''
      | VM_STACK_OVERFLOW \<Rightarrow> ''STACK_OVERFLOW'' | VM_STACK_UNDERFLOW \<Rightarrow> ''STACK_UNDERFLOW''
      | VM_FRAME_OVERFLOW \<Rightarrow> ''FRAME_OVERFLOW'' | VM_INVALID_OPCODE \<Rightarrow> ''INVALID_OPCODE''
      | VM_DIVISION_BY_ZERO \<Rightarrow> ''DIVISION_BY_ZERO'' | VM_TYPE_ERROR \<Rightarrow> ''TYPE_ERROR''
      | VM_LIMIT_EXCEEDED \<Rightarrow> ''LIMIT_EXCEEDED'')"

definition bucc_vm_get_error :: "bucc_vm_t \<Rightarrow> bytes option" where
  "bucc_vm_get_error vm = error_message vm"

end
