(* ===== verification/Bucc_Invariant.thy ===== *)
theory Bucc_Invariant
  imports Bucc_Vm
begin

text \<open>
  Invariants of the Buccaneer machine, instruction by instruction. A property of machines that does not
  depend on the values in them is carried through every instruction from the parts it is composed of.

  \<^item> \<open>vm_data_invariant\<close>: the property survives changes of the heap, the value lists within their
    bounds, and the fields that only record an outcome. It then survives every operation on values.
  \<^item> \<open>vm_invariant\<close>: it also survives the unwinding to a handler, so every instruction without operand
    bytes that neither calls nor returns preserves it.
  \<^item> \<open>vm_reading\<close>: what holds in front of the operand bytes of an instruction, so that the property holds
    behind them; then the instructions with operands preserve it.
\<close>

section \<open>Operations on values\<close>

definition allV :: "(bucc_vm_t \<Rightarrow> bool) \<Rightarrow> bucc_vm_t option \<Rightarrow> bool" where
  "allV P m \<longleftrightarrow> (\<forall>vm. m = Some vm \<longrightarrow> P vm)"

definition allP :: "(bucc_vm_t \<Rightarrow> bool) \<Rightarrow> ('a \<times> bucc_vm_t) option \<Rightarrow> bool" where
  "allP P m \<longleftrightarrow> (\<forall>r vm. m = Some (r, vm) \<longrightarrow> P vm)"

named_theorems inv_rules \<open>introduction rules for the outcomes of operations\<close>

lemma all_some [inv_rules]: "P vm \<Longrightarrow> allV P (Some vm)" "P vm \<Longrightarrow> allP P (Some (r, vm))" "allV P None" "allP P None"
  by (simp_all add: allV_def allP_def)

lemma all_bind:
  "allV Q m \<Longrightarrow> (\<And>vm. Q vm \<Longrightarrow> allV P (f vm)) \<Longrightarrow> allV P (m \<bind> f)"
  "allP Q n \<Longrightarrow> (\<And>r vm. Q vm \<Longrightarrow> allV P (g r vm)) \<Longrightarrow> allV P (n \<bind> (\<lambda>(r, vm). g r vm))"
  "allV Q m \<Longrightarrow> (\<And>vm. Q vm \<Longrightarrow> allP P (f' vm)) \<Longrightarrow> allP P (m \<bind> f')"
  "allP Q n \<Longrightarrow> (\<And>r vm. Q vm \<Longrightarrow> allP P (g' r vm)) \<Longrightarrow> allP P (n \<bind> (\<lambda>(r, vm). g' r vm))"
  by (fastforce simp: allV_def allP_def bind_eq_Some_conv)+

lemma all_pure:
  "(\<And>x. m = Some x \<Longrightarrow> allV P (f x)) \<Longrightarrow> allV P (m \<bind> f)" "(\<And>x. m = Some x \<Longrightarrow> allP P (g x)) \<Longrightarrow> allP P (m \<bind> g)"
  by (auto simp: allV_def allP_def bind_eq_Some_conv)

lemmas all_pure_ops [inv_rules] =
  all_pure [where m = "bucc_module_get_constant m i" for m i]
  all_pure [where m = "bucc_module_get_string m i" for m i]
  all_pure [where m = "bucc_value_compare fo h a b" for fo h a b]
  all_pure [where m = "vm_truthy env vm v" for env vm v]
  all_pure [where m = "i64_div a b" for a b]
  all_pure [where m = "i64_mod a b" for a b]
  all_pure [where m = "bucc_value_to_number fo h v" for fo h v]
  all_pure [where m = "f_to_i64 fo d" for fo d]
  all_pure [where m = "in_range env h a b c" for env h a b c]
  all_pure [where m = "cast_date h v" for h v]
  all_pure [where m = "cast_datetime h v" for h v]
  all_pure [where m = "selector_index env v" for env v]
  all_pure [where m = "mod_procs m" for m]
  all_pure [where m = "mod_imports m" for m]
  all_pure [where m = "arr_get xs i" for xs i]
  all_pure [where m = "bucc_map_has h m k" for h m k]
  all_pure [where m = "if c then m else Some (b :: bool)" for c m b]
  all_pure [where m = "case_prod f p :: bool option" for f p]

lemma all_if [inv_rules]:
  "(c \<Longrightarrow> allV P m1) \<Longrightarrow> (\<not> c \<Longrightarrow> allV P m2) \<Longrightarrow> allV P (if c then m1 else m2)"
  "(c \<Longrightarrow> allP P n1) \<Longrightarrow> (\<not> c \<Longrightarrow> allP P n2) \<Longrightarrow> allP P (if c then n1 else n2)"
  by auto

lemma all_option_case:
  "(m = None \<Longrightarrow> allV P a) \<Longrightarrow> (\<And>x. m = Some x \<Longrightarrow> allV P (f x)) \<Longrightarrow> allV P (case m of None \<Rightarrow> a | Some x \<Rightarrow> f x)"
  by (cases m) auto

lemma all_list_case:
  "(m = [] \<Longrightarrow> allV P a) \<Longrightarrow> (\<And>x xs. m = x # xs \<Longrightarrow> allV P (f x xs)) \<Longrightarrow> allV P (case m of [] \<Rightarrow> a | x # xs \<Rightarrow> f x xs)"
  by (cases m) auto

locale vm_data_invariant =
  fixes P :: "bucc_vm_t \<Rightarrow> bool"
  assumes P_status: "P vm \<Longrightarrow> st \<noteq> VM_INVALID_OPCODE \<Longrightarrow> P (vm\<lparr>status := st\<rparr>)"
    and P_running: "P vm \<Longrightarrow> P (vm\<lparr>running := r\<rparr>)"
    and P_heap: "P vm \<Longrightarrow> P (vm\<lparr>heap_of := h\<rparr>)"
    and P_exception: "P vm \<Longrightarrow> P (vm\<lparr>exception := x\<rparr>)"
    and P_message: "P vm \<Longrightarrow> P (vm\<lparr>error_message := m\<rparr>)"
    and P_chain: "P vm \<Longrightarrow> P (vm\<lparr>chain_target := t\<rparr>)" "P vm \<Longrightarrow> P (vm\<lparr>chain_args := v\<rparr>)"
    and P_counters: "P vm \<Longrightarrow> c_instructions c = c_instructions (counters vm) \<Longrightarrow> P (vm\<lparr>counters := c\<rparr>)"
    and P_stack: "P vm \<Longrightarrow> length s \<le> max BUCC_STACK_MAX (sp vm) \<Longrightarrow> P (vm\<lparr>stack := s\<rparr>)"
    and P_globals: "P vm \<Longrightarrow> length g \<le> max BUCC_GLOBALS_MAX (length (globals vm)) \<Longrightarrow> P (vm\<lparr>globals := g\<rparr>)"
    and P_locals: "P vm \<Longrightarrow> length l \<le> max BUCC_LOCALS_MAX (length (locals vm)) \<Longrightarrow> P (vm\<lparr>locals := l\<rparr>)"
begin

lemmas P_bind [inv_rules] = all_bind [where Q = P]

lemmas P_updates [inv_rules] = P_status P_running P_heap P_exception P_message P_chain P_counters

lemma P_vm_error [inv_rules]: "P vm \<Longrightarrow> st \<noteq> VM_INVALID_OPCODE \<Longrightarrow> P (vm_error st msg vm)"
  unfolding vm_error_def Let_def split_def by (intro inv_rules) simp_all

lemma all_heap [inv_rules]: "P vm \<Longrightarrow> allP P (on_heap f vm)" "P vm \<Longrightarrow> allV P (in_heap g vm)"
  by (auto simp: on_heap_def in_heap_def allP_def allV_def bind_eq_Some_conv intro: P_heap)

lemma all_value_ops [inv_rules]:
  assumes "P vm"
  shows "allV P (value_release v vm)" "allV P (value_retain v vm)" "allV P (string_release p vm)" "allV P (release_all vs vm)"
  using assms unfolding value_release_def value_retain_def string_release_def release_all_def
  by (auto intro!: all_heap)

lemma all_push [inv_rules]:
  assumes "P vm"
  shows "allV P (bucc_vm_push v vm)"
proof (cases "BUCC_STACK_MAX \<le> sp vm")
  case True
  then show ?thesis using assms by (simp add: bucc_vm_push_def allV_def P_status)
next
  case False
  have "P (vm\<lparr>heap_of := h, stack := v # stack vm, counters := c\<rparr>)" if "c_instructions c = c_instructions (counters vm)" for h c
    using False that by (intro P_counters P_stack P_heap assms) simp_all
  moreover have "P (vm\<lparr>heap_of := h, stack := v # stack vm\<rparr>)" for h
    using False by (intro P_stack P_heap assms) simp
  ultimately show ?thesis
    using False by (auto simp: bucc_vm_push_def value_retain_def in_heap_def allV_def bind_eq_Some_conv Let_def)
qed

lemma P_pop: "P vm \<Longrightarrow> P (snd (bucc_vm_pop vm))"
  by (cases "stack vm") (auto simp: bucc_vm_pop_def intro!: P_status P_stack)

lemma all_pop [inv_rules]:
  "P vm \<Longrightarrow> (\<And>v vm'. P vm' \<Longrightarrow> allV Q (f v vm')) \<Longrightarrow> allV Q (case bucc_vm_pop vm of (v, vm') \<Rightarrow> f v vm')"
  "P vm \<Longrightarrow> (\<And>v vm'. P vm' \<Longrightarrow> allP Q (g v vm')) \<Longrightarrow> allP Q (case bucc_vm_pop vm of (v, vm') \<Rightarrow> g v vm')"
  using P_pop by (auto simp: split_def)

lemma all_malloc [inv_rules]:
  "P vm \<Longrightarrow> (\<And>v vm'. P vm' \<Longrightarrow> allV Q (f v vm')) \<Longrightarrow> allV Q (case vm_malloc vm of (v, vm') \<Rightarrow> f v vm')"
  by (auto simp: vm_malloc_def split_def Let_def intro: P_heap)

lemma all_get [inv_rules]:
  "P vm \<Longrightarrow> allP P (bucc_vm_get_global i vm)" "P vm \<Longrightarrow> allP P (bucc_vm_get_local i vm)"
  unfolding bucc_vm_get_global_def bucc_vm_get_local_def Let_def by (auto intro!: inv_rules)

lemma P_pad [inv_rules]:
  "P vm \<Longrightarrow> n < BUCC_GLOBALS_MAX \<Longrightarrow> P (vm\<lparr>globals := globals vm @ replicate (n + 1 - length (globals vm)) v\<rparr>)"
  "P vm \<Longrightarrow> n < BUCC_LOCALS_MAX \<Longrightarrow> P (vm\<lparr>locals := locals vm @ replicate (n + 1 - length (locals vm)) v\<rparr>)"
  "P vm \<Longrightarrow> P (vm\<lparr>globals := (globals vm)[n := v]\<rparr>)" "P vm \<Longrightarrow> P (vm\<lparr>locals := (locals vm)[n := v]\<rparr>)"
  by (auto intro!: P_globals P_locals)

lemma all_set [inv_rules]:
  assumes "P vm"
  shows "allV P (bucc_vm_set_global i v vm)" "allV P (bucc_vm_set_local i v vm)"
  unfolding bucc_vm_set_global_def bucc_vm_set_local_def Let_def
  using assms by (auto intro!: inv_rules simp: not_le simp del: One_nat_def add_Suc_right)

lemma all_pop_release [inv_rules]: "P vm \<Longrightarrow> allV P (pop_release n vm)"
  by (induction n arbitrary: vm) (auto intro!: inv_rules simp: Let_def)

lemma P_shorter [inv_rules]:
  "P vm \<Longrightarrow> length s \<le> sp vm \<Longrightarrow> P (vm\<lparr>stack := s\<rparr>)" "P vm \<Longrightarrow> length l \<le> length (locals vm) \<Longrightarrow> P (vm\<lparr>locals := l\<rparr>)"
  by (auto intro!: P_stack P_locals)

lemma all_drop_locals [inv_rules]: "P vm \<Longrightarrow> allV P (drop_locals n vm)"
  by (induction n arbitrary: vm) (auto intro!: inv_rules simp: Let_def)

lemma all_throw [inv_rules]: "P vm \<Longrightarrow> allV P (bucc_vm_throw v vm)"
  unfolding bucc_vm_throw_def by (auto intro!: inv_rules)

lemma all_operands [inv_rules]:
  "P vm \<Longrightarrow> (\<And>a b vm'. P vm' \<Longrightarrow> allV P (f a b vm')) \<Longrightarrow> allV P (with_operands f vm)"
  "P vm \<Longrightarrow> (\<And>a vm'. P vm' \<Longrightarrow> allV P (g a vm')) \<Longrightarrow> allV P (with_operand g vm)"
  "P vm \<Longrightarrow> (\<And>a b c vm'. P vm' \<Longrightarrow> allV P (k a b c vm')) \<Longrightarrow> allV P (with_three k vm)"
  unfolding with_operands_def with_operand_def with_three_def Let_def by (auto intro!: inv_rules)

lemma all_concat [inv_rules]: "P vm \<Longrightarrow> allV P (concat_values env a b vm)"
  unfolding concat_values_def by (auto intro!: inv_rules)

lemma all_copy_args [inv_rules]: "P vm \<Longrightarrow> allV P (copy_args bp i n vm)"
  by (induction n arbitrary: i vm) (auto intro!: inv_rules)

lemma all_pop_args [inv_rules]:
  assumes "P vm" "\<And>vs vm'. P vm' \<Longrightarrow> allV Q (f vs vm')"
  shows "allV Q (case pop_args n vs vm of (args, vm') \<Rightarrow> f args vm')"
  using assms(1)
  by (induction n arbitrary: vs vm) (auto simp: split_def Let_def intro: assms(2) P_pop)

lemma all_push_items [inv_rules]: "P vm \<Longrightarrow> allV P (push_items arr vs vm)"
  by (induction vs arbitrary: vm) (auto intro!: inv_rules)

lemma all_set_entries [inv_rules]: "P vm \<Longrightarrow> allV P (set_entries m n vm)"
  by (induction n arbitrary: vm) (auto intro!: inv_rules split: bucc_value.split simp: Let_def)

end

section \<open>Instructions\<close>

lemmas exec_variable_defs = exec_push_const_def exec_push_str_def exec_pop_def exec_dup_def exec_swap_def
  exec_load_global_def exec_store_global_def exec_load_local_def exec_store_local_def

lemmas exec_arith_defs = exec_add_def exec_sub_def exec_mul_def exec_div_def exec_mod_def exec_neg_def
  exec_equality_def exec_compare_def exec_and_def exec_or_def exec_not_def exec_concat_def

locale vm_invariant = vm_data_invariant +
  assumes P_handler: "P vm \<Longrightarrow> handle_exception vm = Some (b, vm') \<Longrightarrow> P vm'"
    and P_try_end: "P vm \<Longrightarrow> P (vm\<lparr>try_stack := tl (try_stack vm)\<rparr>)"
begin

lemma all_handle_exception [inv_rules]: "P vm \<Longrightarrow> allP P (handle_exception vm)"
  using P_handler by (auto simp: allP_def)

lemma all_div_zero [inv_rules]: "P vm \<Longrightarrow> allV P (throw_div_zero vm)"
  unfolding throw_div_zero_def by (auto intro!: inv_rules)

lemma all_stack_ops:
  assumes "P vm"
  shows "allV P (exec_pop vm)" "allV P (exec_dup vm)" "allV P (exec_swap vm)"
  unfolding exec_variable_defs Let_def using assms by (auto intro!: inv_rules split: list.split)

lemma all_arith:
  assumes "P vm"
  shows "allV P (exec_add env vm)" "allV P (exec_sub env vm)" "allV P (exec_mul env vm)"
    "allV P (exec_div env vm)" "allV P (exec_mod env vm)" "allV P (exec_neg env vm)"
    "allV P (exec_equality env p vm)" "allV P (exec_compare env q vm)" "allV P (exec_and env vm)"
    "allV P (exec_or env vm)" "allV P (exec_not env vm)" "allV P (exec_concat env vm)"
  unfolding exec_arith_defs using assms
  by (auto intro!: inv_rules split: bucc_value.split)

lemma all_containers:
  assumes "P vm"
  shows "allV P (exec_array_get env vm)" "allV P (exec_array_set env vm)" "allV P (exec_array_push env vm)"
    "allV P (exec_array_pop env vm)" "allV P (exec_map_get env vm)"
    "allV P (exec_map_set env vm)" "allV P (exec_map_has env vm)" "allV P (exec_map_keys env vm)"
  unfolding exec_array_get_def exec_array_set_def exec_array_push_def exec_array_pop_def
    exec_map_get_def exec_map_set_def exec_map_has_def exec_map_keys_def
  using assms by (auto intro!: inv_rules split: bucc_value.split)

lemma all_exceptions:
  assumes "P vm"
  shows "allV P (exec_try_end vm)" "allV P (raise_exception vm)" "allV P (exec_throw vm)" "allV P (exec_re_throw vm)"
  unfolding exec_try_end_def raise_exception_def exec_throw_def exec_re_throw_def Let_def
  using assms by (auto intro!: inv_rules P_try_end split: list.split)

lemma all_casts:
  assumes "P vm"
  shows "allV P (exec_cast_i64 env vm)" "allV P (exec_cast_f64 env vm)" "allV P (exec_cast_string env vm)"
    "allV P (exec_cast_bool env vm)" "allV P (exec_typeof env vm)" "allV P (exec_cast_date env vm)"
    "allV P (exec_cast_datetime env vm)"
  unfolding exec_cast_i64_def exec_cast_f64_def exec_cast_string_def exec_cast_bool_def exec_typeof_def
    exec_cast_date_def exec_cast_datetime_def Let_def
  using assms by (auto intro!: inv_rules)

end

locale vm_reading = vm_invariant +
  fixes env :: vm_env and P2 P3 P1 :: "bucc_vm_t \<Rightarrow> bool"
  assumes P2_read: "P2 vm \<Longrightarrow> read_u16 env vm = Some (w, vm') \<Longrightarrow> P vm'"
    and P3_read: "P3 vm \<Longrightarrow> read_u16 env vm = Some (w, vm') \<Longrightarrow> P1 vm'"
    and P1_read: "P1 vm \<Longrightarrow> read_u8 env vm = Some (b, vm') \<Longrightarrow> P vm'"
    and P_host: "P vm \<Longrightarrow> e_host env = Some handler \<Longrightarrow> handler vm ns fn args = Some (v, vm') \<Longrightarrow> P vm'"
begin

lemma all_reads [inv_rules]:
  "P2 vm \<Longrightarrow> allP P (read_u16 env vm)" "P1 vm \<Longrightarrow> allP P (read_u8 env vm)"
  using P2_read P1_read by (auto simp: allP_def)

lemma all_read3: "P3 vm \<Longrightarrow> allP P1 (read_u16 env vm)"
  using P3_read by (auto simp: allP_def)

lemmas all_bind1 = all_bind(2) [where Q = P1 and P = P, OF all_read3]

lemma all_variables:
  assumes "P2 vm"
  shows "allV P (exec_push_const env vm)" "allV P (exec_push_str env vm)" "allV P (exec_load_global env vm)"
    "allV P (exec_store_global env vm)" "allV P (exec_load_local env vm)" "allV P (exec_store_local env vm)"
  unfolding exec_variable_defs Let_def using assms by (auto intro!: inv_rules)

lemma all_new:
  assumes "P2 vm"
  shows "allV P (exec_array_new env vm)" "allV P (exec_map_new env vm)"
  unfolding exec_array_new_def exec_map_new_def Let_def using assms by (auto intro!: inv_rules)

lemma all_chain: "P3 vm \<Longrightarrow> allV P (exec_chain env vm)"
  unfolding exec_chain_def Let_def by (rule all_bind1) (auto intro!: inv_rules)

lemma all_range_test: "P3 vm \<Longrightarrow> allV P (exec_range_test env vm)"
  unfolding exec_range_test_def Let_def by (rule all_bind1) (auto intro!: inv_rules)

lemma all_handler: "e_host env = Some handler \<Longrightarrow> P vm \<Longrightarrow> allP P (handler vm ns fn args)"
  unfolding allP_def using P_host by blast

lemma all_call_host: "P3 vm \<Longrightarrow> allV P (exec_call_host env vm)"
  unfolding exec_call_host_def Let_def
  by (rule all_bind1) (auto intro!: inv_rules all_option_case all_handler)

end

end
