(* ===== verification/Bucc_Machine.thy ===== *)
theory Bucc_Machine
  imports Bucc_Invariant
begin

text \<open>
  What the Buccaneer virtual machine guarantees: its array bounds as an invariant of every reachable
  machine, the end of every run, and the effect of the instructions on stack, frames and locals.

  \<^item> \<open>conserves\<close> relates the machine before and after an operation: bounds, instruction counter and
    limits. It is interpreted as a \<open>vm_reading\<close> invariant (\<^verbatim>\<open>Bucc_Invariant\<close>), which gives it for every
    instruction that is not a jump, a call or a return; these are treated here.
  \<^item> A run is a \<open>counted_machine\<close>: each step that leaves the machine runnable uses up budget.
  \<^item> \<open>at_op\<close> and \<open>step_at_op\<close> reduce a step to the instruction it executes.
\<close>

section \<open>What every operation conserves\<close>

definition vm_bounds :: "bucc_vm_t \<Rightarrow> bool" where
  "vm_bounds vm \<longleftrightarrow> sp vm \<le> BUCC_STACK_MAX \<and> fp vm \<le> BUCC_FRAMES_MAX \<and>
     length (globals vm) \<le> BUCC_GLOBALS_MAX \<and> length (locals vm) \<le> BUCC_LOCALS_MAX"

definition conserves :: "bucc_vm_t \<Rightarrow> bucc_vm_t \<Rightarrow> bool" where
  "conserves vm vm' \<longleftrightarrow> (vm_bounds vm \<longrightarrow> vm_bounds vm') \<and>
     c_instructions (counters vm') = c_instructions (counters vm) \<and> limits vm' = limits vm"

lemma conserves_refl [simp]: "conserves vm vm" by (simp add: conserves_def)

lemma conserves_trans: "conserves a b \<Longrightarrow> conserves b c \<Longrightarrow> conserves a c" by (auto simp: conserves_def)

text \<open>Updates of fields the invariant does not read, and updates of the frames.\<close>

lemma conserves_updates [simp]:
  "conserves vm (vm'\<lparr>status := a\<rparr>) = conserves vm vm'"
  "conserves vm (vm'\<lparr>running := r\<rparr>) = conserves vm vm'"
  "conserves vm (vm'\<lparr>ip := i\<rparr>) = conserves vm vm'"
  "conserves vm (vm'\<lparr>heap_of := h\<rparr>) = conserves vm vm'"
  "conserves vm (vm'\<lparr>exception := x\<rparr>) = conserves vm vm'"
  "conserves vm (vm'\<lparr>try_stack := t\<rparr>) = conserves vm vm'"
  "conserves vm (vm'\<lparr>error_message := m\<rparr>) = conserves vm vm'"
  "conserves vm (vm'\<lparr>chain_target := c\<rparr>) = conserves vm vm'"
  "conserves vm (vm'\<lparr>chain_args := v\<rparr>) = conserves vm vm'"
  "c_instructions c' = c_instructions (counters vm') \<Longrightarrow> conserves vm (vm'\<lparr>counters := c'\<rparr>) = conserves vm vm'"
  by (simp_all add: conserves_def vm_bounds_def)

lemma conserves_frames:
  "conserves vm0 vm \<Longrightarrow> length f \<le> max BUCC_FRAMES_MAX (fp vm) \<Longrightarrow> conserves vm0 (vm\<lparr>frames := f\<rparr>)"
  by (auto simp: conserves_def vm_bounds_def)

lemma conserves_reads:
  assumes "conserves vm0 vm"
  shows "allP (conserves vm0) (read_u8 env vm)" "allP (conserves vm0) (read_u16 env vm)" "allP (conserves vm0) (read_i32 env vm)"
  using assms
  by (auto simp: read_u8_def read_u16_def read_i32_def allP_def bind_eq_Some_conv vm_error_def split_def Let_def split: if_splits)

text \<open>The contract of a host handler: it stays within the limits and does not turn the clock back.\<close>

definition host_conserves :: "vm_env \<Rightarrow> bool" where
  "host_conserves env \<longleftrightarrow>
     (\<forall>handler vm ns fn args v vm'. e_host env = Some handler \<longrightarrow> handler vm ns fn args = Some (v, vm') \<longrightarrow> conserves vm vm')"

definition conserved :: "vm_env \<Rightarrow> bucc_vm_t \<Rightarrow> bucc_vm_t \<Rightarrow> bool" where
  "conserved env vm0 vm \<longleftrightarrow> host_conserves env \<and> conserves vm0 vm"

lemma con_ip: "conserved env vm0 (vm\<lparr>ip := i\<rparr>) = conserved env vm0 vm" "conserved env vm0 (vm\<lparr>try_stack := t\<rparr>) = conserved env vm0 vm"
    "conserved env vm0 vm \<Longrightarrow> length f \<le> max BUCC_FRAMES_MAX (fp vm) \<Longrightarrow> conserved env vm0 (vm\<lparr>frames := f\<rparr>)"
  by (simp_all add: conserved_def conserves_frames)

lemma con_reads:
  assumes "conserved env vm0 vm"
  shows "allP (conserved env vm0) (read_u8 env vm)" "allP (conserved env vm0) (read_u16 env vm)"
    "allP (conserved env vm0) (read_i32 env vm)"
  using assms conserves_reads [of vm0 vm env] unfolding conserved_def allP_def by blast+

interpretation con: vm_data_invariant "conserved env vm0" for env vm0
  by unfold_locales (auto simp: conserved_def conserves_def vm_bounds_def)

interpretation con: vm_invariant "conserved env vm0" for env vm0
proof
  fix vm b vm' assume P: "conserved env vm0 vm" and h: "handle_exception vm = Some (b, vm')"
  have "allP (conserved env vm0) (handle_exception vm)"
  proof (cases "try_stack vm")
    case (Cons tf rest)
    have "conserved env vm0 (vm\<lparr>try_stack := rest, frames := drop (fp vm - t_frame_depth tf) (frames vm)\<rparr>)"
      using P con_ip(3) [of env vm0 "vm\<lparr>try_stack := rest\<rparr>" "drop (fp vm - t_frame_depth tf) (frames vm)"]
      by (simp add: con_ip(2))
    moreover have "conserved env vm0 (vm\<lparr>exception := x, ip := i\<rparr>)" if "conserved env vm0 vm" for x i vm
      using that by (simp add: conserved_def)
    ultimately show ?thesis
      using P unfolding handle_exception_def Cons Let_def list.case by (auto intro!: inv_rules)
  qed (use P in \<open>simp add: handle_exception_def inv_rules\<close>)
  then show "conserved env vm0 vm'" using h by (auto simp: allP_def)
qed (simp add: conserved_def)

interpretation con: vm_reading "conserved env vm0" env "conserved env vm0" "conserved env vm0" "conserved env vm0" for env vm0
proof
  fix vm handler ns fn args v vm'
  assume "conserved env vm0 vm" "e_host env = Some handler" "handler vm ns fn args = Some (v, vm')"
  then show "conserved env vm0 vm'" unfolding conserved_def host_conserves_def by (blast intro: conserves_trans)
next
  fix vm w vm' assume "conserved env vm0 vm" "read_u16 env vm = Some (w, vm')"
  then show "conserved env vm0 vm'" using con_reads(2) unfolding allP_def by blast
next
  fix vm b vm' assume "conserved env vm0 vm" "read_u8 env vm = Some (b, vm')"
  then show "conserved env vm0 vm'" using con_reads(1) unfolding allP_def by blast
qed

lemma con_enter: "conserved env vm0 vm \<Longrightarrow> fp vm < BUCC_FRAMES_MAX \<Longrightarrow> allP (conserved env vm0) (enter_proc env i bp vm)"
  by (auto simp: enter_proc_def Let_def allP_def bind_eq_Some_conv intro!: con_ip(3))

lemma con_leave: "conserved env vm0 vm \<Longrightarrow> length fs \<le> fp vm \<Longrightarrow> allV (conserved env vm0) (leave_frame f fs vm)"
  unfolding leave_frame_def Let_def
  by (auto intro!: inv_rules con_ip(3) simp: con_ip(1,2))

lemmas con_rules = inv_rules con_reads(3) con_enter con_leave all_list_case

lemma con_control:
  assumes "conserved env vm0 vm"
  shows "allV (conserved env vm0) (exec_jmp env vm)" "allV (conserved env vm0) (exec_jmp_if env w vm)"
    "allV (conserved env vm0) (exec_call env vm)" "allV (conserved env vm0) (exec_return vm)"
    "allV (conserved env vm0) (exec_return_value vm)" "allV (conserved env vm0) (exec_dispatch_call env vm)"
    "allV (conserved env vm0) (exec_try_begin env vm)"
  unfolding exec_jmp_def exec_jmp_if_def exec_call_def exec_return_def exec_return_value_def exec_dispatch_call_def
    exec_try_begin_def Let_def
  using assms by (auto intro!: con_rules simp: con_ip(1,2))

lemma conserves_table:
  assumes "host_conserves env" "(op, f) \<in> set (exec_table env)"
  shows "allV (conserves vm) (f vm)"
proof -
  have P: "conserved env vm vm" using assms(1) by (simp add: conserved_def)
  have "\<forall>(op, f) \<in> set (exec_table env). allV (conserved env vm) (f vm)"
    using P unfolding exec_table_def
    by (simp add: inv_rules con.all_stack_ops con.all_arith con.all_containers con.all_exceptions con.all_casts
        con.all_variables con.all_new con.all_chain con.all_range_test con.all_call_host con_control)
      (auto simp: allV_def intro: con.P2_read)
  then show ?thesis using assms(2) by (auto simp: allV_def conserved_def)
qed

lemma conserves_exec_op: "host_conserves env \<Longrightarrow> exec_op env op vm = Some vm' \<Longrightarrow> conserves vm vm'"
  by (auto simp: exec_op_def allV_def vm_error_def split_def Let_def dest!: conserves_table map_of_SomeD split: option.splits)

section \<open>The run loop\<close>

lemma conserves_read_u8: "read_u8 env vm = Some (b, vm') \<Longrightarrow> conserves vm vm'"
  using conserves_reads(1) [OF conserves_refl] by (auto simp: allP_def)

text \<open>A step that leaves the machine runnable has counted one instruction.\<close>

lemma step_counts:
  assumes "bytecode (e_module env) \<noteq> None" "host_conserves env" "bucc_vm_step env vm = Some (st, vm')" "status vm = VM_OK"
    "status vm' = VM_OK"
  shows "c_instructions (counters vm) < ucast (max_instructions (limits vm)) \<and>
    c_instructions (counters vm') = c_instructions (counters vm) + 1 \<and> limits vm' = limits vm \<and>
    (vm_bounds vm \<longrightarrow> vm_bounds vm')"
proof -
  let ?vm = "vm\<lparr>counters := (counters vm)\<lparr>c_instructions := c_instructions (counters vm) + 1\<rparr>\<rparr>"
  have room: "\<not> ucast (max_instructions (limits vm)) \<le> c_instructions (counters vm)"
    and ip: "\<not> bytecode_len (e_module env) \<le> ip vm"
    using assms by (auto simp: bucc_vm_step_def Let_def vm_error_def split_def split: if_splits)
  then obtain op vm1 where op: "read_u8 env ?vm = Some (op, vm1)" "exec_op env op vm1 = Some vm'"
    using assms by (auto simp: bucc_vm_step_def Let_def bind_eq_Some_conv)
  have "conserves ?vm vm'"
    using conserves_read_u8 [OF op(1)] conserves_exec_op [OF assms(2) op(2)] by (rule conserves_trans)
  then show ?thesis using room by (simp add: conserves_def vm_bounds_def)
qed

lemma step_bounds:
  assumes "host_conserves env" "bucc_vm_step env vm = Some (st, vm')" "vm_bounds vm"
  shows "vm_bounds vm'"
proof -
  let ?vm = "vm\<lparr>counters := (counters vm)\<lparr>c_instructions := c_instructions (counters vm) + 1\<rparr>\<rparr>"
  have unchanged: "vm_bounds (vm_error s m vm)" "vm_bounds (vm\<lparr>status := s\<rparr>)" "vm_bounds ?vm" for s m
    using assms(3) by (simp_all add: vm_bounds_def vm_error_def split_def Let_def)
  have "vm_bounds vm'" if "read_u8 env ?vm = Some (op, vm1)" "exec_op env op vm1 = Some vm'" for op vm1
    using conserves_trans [OF conserves_read_u8 [OF that(1)] conserves_exec_op [OF assms(1) that(2)]] unchanged(3)
    by (simp add: conserves_def)
  then show ?thesis
    using assms(2,3) unchanged by (auto simp: bucc_vm_step_def Let_def bind_eq_Some_conv split: if_splits)
qed

text \<open>The limits do not change, whatever the step.\<close>

lemma step_conserves:
  assumes "host_conserves env" "bucc_vm_step env vm = Some (st, vm')"
  shows "limits vm' = limits vm \<and>
    (c_instructions (counters vm) \<le> ucast (max_instructions (limits vm)) \<longrightarrow>
     c_instructions (counters vm') \<le> ucast (max_instructions (limits vm)))"
proof -
  let ?vm = "vm\<lparr>counters := (counters vm)\<lparr>c_instructions := c_instructions (counters vm) + 1\<rparr>\<rparr>"
  have "limits vm' = limits vm \<and> c_instructions (counters vm') = c_instructions (counters vm) + 1"
    if "read_u8 env ?vm = Some (op, vm1)" "exec_op env op vm1 = Some vm'" for op vm1
    using conserves_trans [OF conserves_read_u8 [OF that(1)] conserves_exec_op [OF assms(1) that(2)]]
    by (simp add: conserves_def)
  moreover have "c + 1 \<le> m" if "\<not> m \<le> c" for c m :: u64
    using that by (simp add: inc_le not_le)
  ultimately show ?thesis
    using assms(2)
    by (auto simp: bucc_vm_step_def Let_def bind_eq_Some_conv vm_error_def split_def split: if_splits)
qed

definition vm_runnable :: "bucc_vm_t \<Rightarrow> bool" where
  "vm_runnable vm \<longleftrightarrow> running vm \<and> status vm = VM_OK"

definition vm_budget :: "bucc_vm_t \<Rightarrow> nat" where
  "vm_budget vm = unat (max_instructions (limits vm)) - unat (c_instructions (counters vm))"

text \<open>What a run conserves: the limits it started with, the counter below them, and the bounds.\<close>

definition vm_inv :: "vm_env \<Rightarrow> bucc_limits_t \<Rightarrow> bool \<Rightarrow> bucc_vm_t \<Rightarrow> bool" where
  "vm_inv env l bounded vm \<longleftrightarrow> bytecode (e_module env) \<noteq> None \<and> host_conserves env \<and> limits vm = l \<and>
     (bounded \<longrightarrow> vm_bounds vm)"

definition vm_next :: "vm_env \<Rightarrow> bucc_vm_t \<Rightarrow> bucc_vm_t option" where
  "vm_next env vm = map_option snd (bucc_vm_step env vm)"

interpretation vm: counted_machine "vm_next env" vm_runnable "vm_inv env l bounded" vm_budget for env l bounded
proof
  fix vm vm' assume inv: "vm_inv env l bounded vm" and run: "vm_runnable vm" and "vm_next env vm = Some vm'"
  then obtain st where st: "bucc_vm_step env vm = Some (st, vm')" by (auto simp: vm_next_def)
  have host: "host_conserves env" "bytecode (e_module env) \<noteq> None" using inv by (simp_all add: vm_inv_def)
  show "vm_inv env l bounded vm'"
    using inv step_conserves [OF host(1) st] step_bounds [OF host(1) st] by (simp add: vm_inv_def)
  assume "vm_runnable vm'"
  then have c: "c_instructions (counters vm) < ucast (max_instructions (limits vm))"
    "c_instructions (counters vm') = c_instructions (counters vm) + 1" "limits vm' = limits vm"
    using step_counts [OF host(2,1) st] run by (simp_all add: vm_runnable_def)
  have "unat (ucast (max_instructions (limits vm)) :: u64) = unat (max_instructions (limits vm))"
  proof -
    have "unat (max_instructions (limits vm)) < 2 ^ 64"
      by (rule less_trans [OF unat_range(3)]) simp
    then show ?thesis by (simp add: unsigned_ucast_eq take_bit_nat_eq_self)
  qed
  then have less: "unat (c_instructions (counters vm)) < unat (max_instructions (limits vm))"
    using c(1) by (simp add: word_less_nat_alt)
  have "unat (c_instructions (counters vm)) + 1 < 18446744073709551616"
    using less unat_range(3) [of "max_instructions (limits vm)"] by linarith
  then have "unat (c_instructions (counters vm) + 1) = unat (c_instructions (counters vm)) + 1"
    by (simp add: unat_word_ariths)
  then show "vm_budget vm' < vm_budget vm" using c(2,3) less by (simp add: vm_budget_def)
qed

text \<open>The instruction counter: a step counts one instruction below the limit, or none.\<close>

lemma step_counter:
  assumes "host_conserves env" "bucc_vm_step env vm = Some (st, vm')"
  shows "c_instructions (counters vm') = c_instructions (counters vm) \<or>
    c_instructions (counters vm) < ucast (max_instructions (limits vm)) \<and>
    c_instructions (counters vm') = c_instructions (counters vm) + 1"
proof -
  let ?vm = "vm\<lparr>counters := (counters vm)\<lparr>c_instructions := c_instructions (counters vm) + 1\<rparr>\<rparr>"
  have "c_instructions (counters vm') = c_instructions (counters vm) + 1"
    if "read_u8 env ?vm = Some (op, vm1)" "exec_op env op vm1 = Some vm'" for op vm1
    using conserves_trans [OF conserves_read_u8 [OF that(1)] conserves_exec_op [OF assms(1) that(2)]]
    by (simp add: conserves_def)
  then show ?thesis
    using assms(2)
    by (auto simp: bucc_vm_step_def Let_def bind_eq_Some_conv vm_error_def split_def split: if_splits)
qed

definition count_inv :: "vm_env \<Rightarrow> bucc_limits_t \<Rightarrow> nat \<Rightarrow> bucc_vm_t \<Rightarrow> bool" where
  "count_inv env l start vm \<longleftrightarrow> vm_inv env l True vm \<and>
     unat (c_instructions (counters vm)) \<le> max start (unat (max_instructions l))"

interpretation counted: counted_machine "vm_next env" vm_runnable "count_inv env l start" vm_budget for env l start
proof
  fix vm vm' assume inv: "count_inv env l start vm" and run: "vm_runnable vm" and step: "vm_next env vm = Some vm'"
  then obtain st where st: "bucc_vm_step env vm = Some (st, vm')" by (auto simp: vm_next_def)
  have v: "vm_inv env l True vm" "host_conserves env" "limits vm = l" using inv by (simp_all add: count_inv_def vm_inv_def)
  have "unat (c_instructions (counters vm) + 1) \<le> unat (max_instructions l)"
    if "c_instructions (counters vm) < ucast (max_instructions l)"
  proof -
    have "c_instructions (counters vm) + 1 \<le> ucast (max_instructions l)" using that by (rule inc_le)
    then show ?thesis by (simp add: word_le_nat_alt unsigned_ucast_eq take_bit_nat_eq_self
          less_trans [OF unat_range(3)])
  qed
  then have "unat (c_instructions (counters vm')) \<le> max start (unat (max_instructions l))"
    using step_counter [OF v(2) st] inv v(3) by (auto simp: count_inv_def)
  then show "count_inv env l start vm'"
    using vm.inv_step [OF v(1) run step] by (simp add: count_inv_def)
  assume "vm_runnable vm'"
  then show "vm_budget vm' < vm_budget vm" by (rule vm.budget_step [OF v(1) run step])
qed

lemma run_loop_drive:
  "drive (vm_next env) vm_runnable n vm = Some r \<Longrightarrow> run_loop env vm = Some r"
proof (induction n arbitrary: vm)
  case 0
  then show ?case by simp
next
  case (Suc n)
  then show ?case
    by (subst run_loop.simps) (auto simp: vm_next_def vm_runnable_def split: if_splits option.splits)
qed

lemma run_loop_no_bytecode:
  assumes "run_loop env vm = Some r"
  shows "bytecode (e_module env) = None \<longrightarrow> running vm \<longrightarrow> status vm \<noteq> VM_OK"
proof (rule run_loop.raw_induct [OF _ assms])
  fix loop env vm r
  assume ih: "\<And>env vm r. loop env vm = Some r \<Longrightarrow> bytecode (e_module env) = None \<longrightarrow> running vm \<longrightarrow> status vm \<noteq> VM_OK"
    and body: "(if running vm \<and> status vm = VM_OK
      then case bucc_vm_step env vm of None \<Rightarrow> Some None | Some r \<Rightarrow> loop env (snd r) else Some (Some vm)) = Some r"
  show "bytecode (e_module env) = None \<longrightarrow> running vm \<longrightarrow> status vm \<noteq> VM_OK"
  proof (intro impI notI)
    assume a: "bytecode (e_module env) = None" "running vm" "status vm = VM_OK"
    then have "bucc_vm_step env vm = Some (VM_ERROR, vm)" by (simp add: bucc_vm_step_def)
    then have "loop env vm = Some r" using body a by simp
    from ih [OF this] show False using a by blast
  qed
qed

section \<open>Reachable machines\<close>

text \<open>The machines a host can produce: the functions of the interface, and steps, in any order.\<close>

inductive vm_reachable :: "vm_env \<Rightarrow> bucc_vm_t \<Rightarrow> bool" for env where
  new: "bucc_vm_new h = Some vm \<Longrightarrow> vm_reachable env vm"
| set_limits: "vm_reachable env vm \<Longrightarrow> vm_reachable env (bucc_vm_set_limits vm l)"
| start: "vm_reachable env vm \<Longrightarrow> vm_reachable env (vm\<lparr>running := True\<rparr>)"
| step: "vm_reachable env vm \<Longrightarrow> bucc_vm_step env vm = Some (st, vm') \<Longrightarrow> vm_reachable env vm'"
| push: "vm_reachable env vm \<Longrightarrow> bucc_vm_push v vm = Some vm' \<Longrightarrow> vm_reachable env vm'"
| pop: "vm_reachable env vm \<Longrightarrow> bucc_vm_pop vm = (v, vm') \<Longrightarrow> vm_reachable env vm'"
| set_global: "vm_reachable env vm \<Longrightarrow> bucc_vm_set_global i v vm = Some vm' \<Longrightarrow> vm_reachable env vm'"
| set_local: "vm_reachable env vm \<Longrightarrow> bucc_vm_set_local i v vm = Some vm' \<Longrightarrow> vm_reachable env vm'"
| throw: "vm_reachable env vm \<Longrightarrow> bucc_vm_throw v vm = Some vm' \<Longrightarrow> vm_reachable env vm'"
| jump: "vm_reachable env vm \<Longrightarrow> vm_reachable env (vm\<lparr>ip := i\<rparr>)"
| reset: "vm_reachable env vm \<Longrightarrow> bucc_vm_reset vm = Some vm' \<Longrightarrow> vm_reachable env vm'"

lemma conserved_refl: "host_conserves env \<Longrightarrow> conserved env vm vm"
  by (simp add: conserved_def)

lemma conserved_bounds: "allV (conserved env vm) m \<Longrightarrow> m = Some vm' \<Longrightarrow> vm_bounds vm \<Longrightarrow> vm_bounds vm'"
  by (auto simp: allV_def conserved_def conserves_def)

lemma reset_bounds:
  assumes "bucc_vm_reset vm = Some vm'" "vm_bounds vm"
  shows "vm_bounds vm'"
  using assms
  by (auto simp: bucc_vm_reset_def release_all_def value_release_def in_heap_def bind_eq_Some_conv Let_def vm_bounds_def)

section \<open>Single instructions\<close>

text \<open>The machine is about to execute the instruction \<open>op\<close>; what the step is then.\<close>

definition at_op :: "vm_env \<Rightarrow> bucc_vm_t \<Rightarrow> u8 \<Rightarrow> bool" where
  "at_op env vm op \<longleftrightarrow>
     (\<exists>bc. bytecode (e_module env) = Some bc \<and> length bc < 2 ^ 32 \<and> bytecode_len (e_module env) = word_of_nat (length bc) \<and>
           unat (ip vm) < length bc \<and> bc ! unat (ip vm) = op) \<and>
     status vm = VM_OK \<and> c_instructions (counters vm) < ucast (max_instructions (limits vm))"

definition fetched :: "bucc_vm_t \<Rightarrow> bucc_vm_t" where
  "fetched vm = vm\<lparr>counters := (counters vm)\<lparr>c_instructions := c_instructions (counters vm) + 1\<rparr>, ip := ip vm + 1\<rparr>"

lemma fetched_simps [simp]:
  "stack (fetched vm) = stack vm" "frames (fetched vm) = frames vm" "globals (fetched vm) = globals vm"
  "locals (fetched vm) = locals vm" "ip (fetched vm) = ip vm + 1" "exception (fetched vm) = exception vm"
  "try_stack (fetched vm) = try_stack vm" "status (fetched vm) = status vm" "heap_of (fetched vm) = heap_of vm"
  "running (fetched vm) = running vm" "limits (fetched vm) = limits vm"
  by (simp_all add: fetched_def)

lemma step_at_op:
  assumes "at_op env vm op"
  shows "bucc_vm_step env vm = map_option (\<lambda>vm'. (status vm', vm')) (exec_op env op (fetched vm))"
proof -
  obtain bc where bc: "bytecode (e_module env) = Some bc" "length bc < 2 ^ 32"
    "bytecode_len (e_module env) = word_of_nat (length bc)" "unat (ip vm) < length bc" "bc ! unat (ip vm) = op"
    "status vm = VM_OK" "c_instructions (counters vm) < ucast (max_instructions (limits vm))"
    using assms by (auto simp: at_op_def)
  have lim: "\<not> ucast (max_instructions (limits vm)) \<le> c_instructions (counters vm)" using bc by (simp add: not_le)
  have ip: "\<not> bytecode_len (e_module env) \<le> ip vm"
    using bc by (simp add: word_le_nat_alt unat_of_nat)
  let ?vm = "vm\<lparr>counters := (counters vm)\<lparr>c_instructions := c_instructions (counters vm) + 1\<rparr>\<rparr>"
  have "read_u8 env ?vm = Some (op, fetched vm)"
    using bc ip by (simp add: read_u8_def fetched_def)
  then show ?thesis
    using bc(1,6) ip lim by (simp add: bucc_vm_step_def Let_def map_conv_bind_option comp_def)
qed

lemma exec_op_lookup: "map_of (exec_table env) op = Some f \<Longrightarrow> exec_op env op vm = f vm"
  by (simp add: exec_op_def)

text \<open>Values without a heap object: releasing and retaining them does nothing.\<close>

definition immediate :: "bucc_value \<Rightarrow> bool" where
  "immediate v \<longleftrightarrow> (case v of VString _ \<Rightarrow> False | VArray _ \<Rightarrow> False | VMap _ \<Rightarrow> False | VError _ \<Rightarrow> False | _ \<Rightarrow> True)"

lemma immediate_simps [simp]:
  "immediate VNull" "immediate (VBool b)" "immediate (VI64 i)" "immediate (VF64 d)" "immediate (VDate x)"
  "immediate (VDatetime y)"
  by (simp_all add: immediate_def)

lemma immediate_release [simp]: "immediate v \<Longrightarrow> value_release v vm = Some vm"
  by (cases v) (simp_all add: immediate_def value_release_def in_heap_def bucc_value_release_def)

lemma immediate_retain [simp]: "immediate v \<Longrightarrow> value_retain v vm = Some vm"
  by (cases v) (simp_all add: immediate_def value_retain_def in_heap_def bucc_value_retain_def)

text \<open>What a push changes: the stack, and the high-water mark.\<close>

definition pushed :: "bucc_value \<Rightarrow> bucc_vm_t \<Rightarrow> bucc_vm_t" where
  "pushed v vm =
     (let vm = vm\<lparr>stack := v # stack vm\<rparr> in
      if c_stack_depth (counters vm) < word_of_nat (sp vm)
      then vm\<lparr>counters := (counters vm)\<lparr>c_stack_depth := word_of_nat (sp vm)\<rparr>\<rparr> else vm)"

lemma pushed_simps [simp]:
  "stack (pushed v vm) = v # stack vm" "frames (pushed v vm) = frames vm" "globals (pushed v vm) = globals vm"
  "locals (pushed v vm) = locals vm" "ip (pushed v vm) = ip vm" "exception (pushed v vm) = exception vm"
  "try_stack (pushed v vm) = try_stack vm" "status (pushed v vm) = status vm" "heap_of (pushed v vm) = heap_of vm"
  "running (pushed v vm) = running vm" "limits (pushed v vm) = limits vm"
  by (simp_all add: pushed_def Let_def)

lemma push_immediate [simp]: "immediate v \<Longrightarrow> sp vm < 1024 \<Longrightarrow> bucc_vm_push v vm = Some (pushed v vm)"
  by (simp add: bucc_vm_push_def pushed_def Let_def)

lemma pop_Cons [simp]: "stack vm = v # vs \<Longrightarrow> bucc_vm_pop vm = (v, vm\<lparr>stack := vs\<rparr>)"
  by (simp add: bucc_vm_pop_def)

text \<open>The mathematical result of an integer instruction, before it is cut to 64 bits.\<close>

definition int_op :: "u8 \<Rightarrow> (int \<Rightarrow> int \<Rightarrow> int) option" where
  "int_op op =
     map_of [(OP_ADD, (+)), (OP_SUB, (-)), (OP_MUL, (*)), (OP_DIV, (sdiv)), (OP_MOD, (smod))] op"

lemma int_op_cases:
  "int_op op = Some f \<Longrightarrow>
   op = OP_ADD \<and> f = (+) \<or> op = OP_SUB \<and> f = (-) \<or> op = OP_MUL \<and> f = (*) \<or> op = OP_DIV \<and> f = (sdiv) \<or> op = OP_MOD \<and> f = (smod)"
  by (auto simp: int_op_def split: if_splits)

lemma exec_arith_lookup:
  "map_of (exec_table env) OP_ADD = Some (exec_add env)" "map_of (exec_table env) OP_SUB = Some (exec_sub env)"
  "map_of (exec_table env) OP_MUL = Some (exec_mul env)" "map_of (exec_table env) OP_DIV = Some (exec_div env)"
  "map_of (exec_table env) OP_MOD = Some (exec_mod env)"
  by (simp_all add: exec_table_def)

lemma exec_int_op:
  assumes "int_op op = Some f" "stack vm = VI64 b # VI64 a # s" "length s < 1023"
    "op = OP_DIV \<or> op = OP_MOD \<longrightarrow> b \<noteq> 0 \<and> \<not> (sint a = - (2 ^ 63) \<and> sint b = -1)"
  shows "exec_op env op vm = Some (pushed (VI64 (word_of_int (f (sint a) (sint b)))) (vm\<lparr>stack := s\<rparr>))"
proof -
  let ?vm = "vm\<lparr>stack := s\<rparr>"
  have ops: "with_operands g vm = g (VI64 a) (VI64 b) ?vm \<bind> (\<lambda>vm. Some vm)" for g
    using assms(2) by (simp add: with_operands_def)
  have "exec_add env vm = Some (pushed (VI64 (a + b)) ?vm)" "exec_sub env vm = Some (pushed (VI64 (a - b)) ?vm)"
    "exec_mul env vm = Some (pushed (VI64 (a * b)) ?vm)"
    using assms(3) by (simp_all add: exec_add_def exec_sub_def exec_mul_def ops is_string_def is_f64_def as_i64_def)
  moreover have "exec_div env vm = Some (pushed (VI64 (word_of_int (sint a sdiv sint b))) ?vm)"
    "exec_mod env vm = Some (pushed (VI64 (word_of_int (sint a smod sint b))) ?vm)"
    if "b \<noteq> 0" "\<not> (sint a = - (2 ^ 63) \<and> sint b = -1)"
    using assms(3) that
    by (simp_all only: exec_div_def exec_mod_def ops is_f64_def as_i64_def i64_div_def i64_mod_def bucc_value.case if_False
        simp_thms Let_def Option.bind.bind_lunit push_immediate immediate_simps) simp_all
  moreover have "a + b = word_of_int (sint a + sint b)" "a - b = word_of_int (sint a - sint b)"
    "a * b = word_of_int (sint a * sint b)"
    by simp_all
  ultimately show ?thesis
    using int_op_cases [OF assms(1)] assms(4) by (elim disjE conjE) (simp_all only: exec_op_def exec_arith_lookup option.case simp_thms)
qed

section \<open>Handlers\<close>

lemma pop_release_immediate:
  "n \<le> sp vm \<Longrightarrow> list_all immediate (take n (stack vm)) \<Longrightarrow> pop_release n vm = Some (vm\<lparr>stack := drop n (stack vm)\<rparr>)"
proof (induction n arbitrary: vm)
  case 0
  then show ?case by simp
next
  case (Suc n)
  then obtain v vs where v: "stack vm = v # vs" by (cases "stack vm") auto
  then show ?case using Suc.prems Suc.IH [of "vm\<lparr>stack := vs\<rparr>"] by simp
qed

section \<open>Calls and returns\<close>

lemma push_bit_or_bytes: "push_bit 8 (ucast (a :: u8)) OR ucast (b :: u8) = (word_of_nat (unat a * 256 + unat b) :: u16)"
proof -
  have "(push_bit 8 (ucast a) OR ucast b :: u16) = push_bit 8 (ucast a) + ucast b"
  proof (rule disjunctive_add [symmetric])
    fix n show "\<not> bit (push_bit 8 (ucast a) :: u16) n \<or> \<not> bit (ucast b :: u16) n"
      by (auto simp: bit_push_bit_iff bit_ucast_iff dest: bit_imp_le_length)
  qed
  then show ?thesis by (simp add: push_bit_eq_mult mult.commute)
qed

definition operand_u16 :: "vm_env \<Rightarrow> u32 \<Rightarrow> u16 option" where
  "operand_u16 env i = do {
     bc \<leftarrow> bytecode (e_module env);
     b0 \<leftarrow> arr_get bc (unat i);
     b1 \<leftarrow> arr_get bc (unat i + 1);
     Some (word_of_nat (unat b0 * 256 + unat b1)) }"

definition operand_u8 :: "vm_env \<Rightarrow> u32 \<Rightarrow> u8 option" where
  "operand_u8 env i = do { bc \<leftarrow> bytecode (e_module env); arr_get bc (unat i) }"

text \<open>The code is as long as the module says, and short enough for its offsets not to wrap.\<close>

definition code_ok :: "vm_env \<Rightarrow> bool" where
  "code_ok env \<longleftrightarrow> (\<exists>bc. bytecode (e_module env) = Some bc \<and> length bc + 8 < 2 ^ 32 \<and>
     bytecode_len (e_module env) = word_of_nat (length bc))"

lemma read_u16_operand:
  assumes "code_ok env" "operand_u16 env (ip vm) = Some w"
  shows "read_u16 env vm = Some (w, vm\<lparr>ip := ip vm + 2\<rparr>)"
proof -
  obtain bc where bc: "bytecode (e_module env) = Some bc" "length bc + 8 < 2 ^ 32"
    "bytecode_len (e_module env) = word_of_nat (length bc)" using assms(1) by (auto simp: code_ok_def)
  have i: "unat (ip vm) + 1 < length bc" "w = word_of_nat (unat (bc ! unat (ip vm)) * 256 + unat (bc ! (unat (ip vm) + 1)))"
    using assms(2) bc(1) by (auto simp: operand_u16_def bind_eq_Some_conv arr_get_eq_Some_iff)
  have u: "unat (ip vm + 2) = unat (ip vm) + 2" "unat (ip vm + 1) = unat (ip vm) + 1"
    using i bc(2) by (simp_all add: unat_word_ariths)
  have "\<not> bytecode_len (e_module env) < ip vm + 2"
    using u i bc by (simp add: word_less_nat_alt unat_of_nat)
  then show ?thesis using bc i u by (simp add: read_u16_def push_bit_or_bytes)
qed

lemma read_u8_operand:
  assumes "code_ok env" "operand_u8 env (ip vm) = Some w"
  shows "read_u8 env vm = Some (w, vm\<lparr>ip := ip vm + 1\<rparr>)"
proof -
  obtain bc where bc: "bytecode (e_module env) = Some bc" "length bc + 8 < 2 ^ 32"
    "bytecode_len (e_module env) = word_of_nat (length bc)" using assms(1) by (auto simp: code_ok_def)
  have i: "unat (ip vm) < length bc" "w = bc ! unat (ip vm)"
    using assms(2) bc(1) by (auto simp: operand_u8_def arr_get_eq_Some_iff)
  have "\<not> bytecode_len (e_module env) \<le> ip vm"
    using i bc by (simp add: word_le_nat_alt unat_of_nat)
  then show ?thesis using bc i by (simp add: read_u8_def)
qed

lemma set_local_append:
  assumes "immediate v" "unat (local_base vm + i) = length (locals vm)" "length (locals vm) < 256"
  shows "bucc_vm_set_local i v vm = Some (vm\<lparr>locals := locals vm @ [v]\<rparr>)"
  using assms by (simp add: bucc_vm_set_local_def Let_def nth_append list_update_append)

lemma copy_args_locals:
  assumes "frames vm = f # fs" "f_local_base f = word_of_nat base" "length (locals vm) = base + i" "base + i + n \<le> 256"
    "unat bp + i + n \<le> sp vm" "sp vm \<le> 1024" "list_all immediate (stack vm)"
  shows "copy_args bp i n vm = Some (vm\<lparr>locals := locals vm @ take n (drop (unat bp + i) (rev (stack vm)))\<rparr>)"
  using assms
proof (induction n arbitrary: i vm)
  case 0
  then show ?case by simp
next
  case (Suc n)
  let ?k = "unat bp + i"
  have k: "?k < length (rev (stack vm))" using Suc.prems by simp
  have u: "unat (bp + word_of_nat i) = ?k"
    using Suc.prems(5,6) by (simp add: unat_word_ariths unat_of_nat)
  define v where "v = rev (stack vm) ! ?k"
  have v: "immediate v" using Suc.prems(7) k nth_mem [OF k] by (simp add: v_def list_all_iff)
  have base: "unat (local_base vm + word_of_nat i) = length (locals vm)"
    using Suc.prems(1-4) by (simp add: local_base_def unat_of_nat flip: of_nat_add)
  have set: "bucc_vm_set_local (word_of_nat i) v vm = Some (vm\<lparr>locals := locals vm @ [v]\<rparr>)"
    using set_local_append [OF v base] Suc.prems(3,4) by simp
  have "copy_args bp (Suc i) n (vm\<lparr>locals := locals vm @ [v]\<rparr>) =
      Some (vm\<lparr>locals := (locals vm @ [v]) @ take n (drop (unat bp + Suc i) (rev (stack vm)))\<rparr>)"
    using Suc.IH [of "vm\<lparr>locals := locals vm @ [v]\<rparr>" "Suc i"] Suc.prems by simp
  moreover have "take (Suc n) (drop ?k (rev (stack vm))) = v # take n (drop (Suc ?k) (rev (stack vm)))"
    using k by (simp add: v_def flip: Cons_nth_drop_Suc)
  ultimately show ?case using u k set by (simp add: v_def)
qed

lemma drop_locals_immediate:
  "n \<le> length (locals vm) \<Longrightarrow> list_all immediate (drop (length (locals vm) - n) (locals vm)) \<Longrightarrow>
   drop_locals n vm = Some (vm\<lparr>locals := take (length (locals vm) - n) (locals vm)\<rparr>)"
proof (induction n arbitrary: vm)
  case 0
  then show ?case by simp
next
  case (Suc n)
  let ?l = "locals vm"
  have ne: "?l \<noteq> []" using Suc.prems by auto
  have last: "immediate (last ?l)"
  proof -
    have "last ?l \<in> set (drop (length ?l - Suc n) ?l)"
      using Suc.prems(1) ne by (metis diff_less drop_eq_Nil last_drop last_in_set not_less length_greater_0_conv zero_less_Suc)
    then show ?thesis using Suc.prems(2) by (simp add: list_all_iff)
  qed
  have "list_all immediate (drop (length (butlast ?l) - n) (butlast ?l))"
  proof -
    have "set (drop (length (butlast ?l) - n) (butlast ?l)) \<subseteq> set (drop (length ?l - Suc n) ?l)"
      by (simp add: butlast_conv_take drop_take set_take_subset)
    then show ?thesis using Suc.prems(2) by (auto simp: list_all_iff)
  qed
  then have "drop_locals n (vm\<lparr>locals := butlast ?l\<rparr>) = Some (vm\<lparr>locals := take (length (butlast ?l) - n) (butlast ?l)\<rparr>)"
    using Suc.IH [of "vm\<lparr>locals := butlast ?l\<rparr>"] Suc.prems(1) by simp
  then show ?case using last by (simp add: butlast_conv_take)
qed

text \<open>The loop of the machine ends within its instruction budget.\<close>

lemma run_loop_ends:
  assumes "vm_inv env l True vm"
  shows "\<exists>r. run_loop env vm = Some r \<and> (\<forall>vm'. r = Some vm' \<longrightarrow> vm_inv env l True vm' \<and> \<not> vm_runnable vm')"
proof -
  from vm.drive_ends [OF assms, of "vm_budget vm + 2"] obtain r where
    "drive (vm_next env) vm_runnable (vm_budget vm + 2) vm = Some r"
    "\<forall>vm'. r = Some vm' \<longrightarrow> vm_inv env l True vm' \<and> \<not> vm_runnable vm'"
    by auto
  then show ?thesis by (blast intro: run_loop_drive)
qed

section \<open>Example machines\<close>

definition example_float :: float_ops where
  "example_float =
     \<lparr>f_add = (+), f_sub = (-), f_mul = (*), f_div = (\<lambda>a b. a), f_neg = uminus, f_eq = (=), f_lt = (<),
      f_of_i64 = (\<lambda>i. i), f_to_i64 = Some, f_zero = 0, f_one = 1, f_format_g = (\<lambda>_. []), f_strtod = (\<lambda>_. None)\<rparr>"

definition example_env :: "bytes \<Rightarrow> vm_env" where
  "example_env bc =
     \<lparr>e_module = zero_module\<lparr>bytecode := Some bc, bytecode_len := word_of_nat (length bc),
        mod_procs := Some [zero_proc\<lparr>p_code_offset := 9\<rparr>], proc_count := 1\<rparr>,
      e_float = example_float, e_pun = (\<lambda>_. 0), e_host = None\<rparr>"

definition fresh_heap :: heap where
  "fresh_heap = \<lparr>h_objs = [], h_mem = (\<lambda>_. True), h_allocs = 0, h_stack = 8\<rparr>"

definition example_vm :: "bucc_value list \<Rightarrow> bucc_vm_t" where
  "example_vm s = (the (bucc_vm_new fresh_heap))\<lparr>stack := s\<rparr>"

lemma example_vm_simps:
  "stack (example_vm s) = s" "frames (example_vm s) = []" "globals (example_vm s) = []" "locals (example_vm s) = []"
  "ip (example_vm s) = 0" "status (example_vm s) = VM_OK" "try_stack (example_vm s) = []" "running (example_vm s) = False"
  "exception (example_vm s) = \<lparr>x_value = VNull, x_frame_depth = 0, x_active = False\<rparr>"
  "c_instructions (counters (example_vm s)) = 0" "max_instructions (limits (example_vm s)) = 1000000"
  by (simp_all add: example_vm_def bucc_vm_new_def malloc_ok_def fresh_heap_def)

lemma example_at_op: "length bc < 2 ^ 32 \<Longrightarrow> bc \<noteq> [] \<Longrightarrow> at_op (example_env bc) (example_vm s) (hd bc)"
  by (simp add: at_op_def example_env_def example_vm_simps zero_module_def hd_conv_nth)

lemma example_host: "host_conserves (example_env bc)"
  by (simp add: host_conserves_def example_env_def)

lemma example_new: "bucc_vm_new fresh_heap = Some (example_vm [])"
  by (simp add: example_vm_def bucc_vm_new_def malloc_ok_def fresh_heap_def)

section \<open>Properties\<close>

text \<open>
  C30: Every run ends within the instruction limit. If the module has bytecode and the host handler changes
  neither the limits nor the instruction counter, \<open>bucc_vm_run\<close> terminates, whatever the bytecode is: with
  \<open>k\<close> instructions left to the limit its loop makes at most \<open>k + 1\<close> rounds, the last of which reports the
  limit (\<open>drive\<close> with \<open>k + 2\<close> looks at the loop condition once more). Unless a step runs into undefined
  behaviour (\<^term>\<open>Some None\<close>), the run ends with a status other than \<open>VM_OK\<close> or with the machine
  stopped; the counter has not passed the limit, or stands where it stood if it was past it before; the limits
  are those it started with, and the stack, frame, global and local arrays have not overflowed.
\<close>

theorem vm_run_terminates:
  assumes "bytecode (e_module env) \<noteq> None" "host_conserves env" "vm_bounds vm"
  shows "\<exists>r. drive (vm_next env) vm_runnable
      (unat (max_instructions (limits vm)) - unat (c_instructions (counters vm)) + 2) (vm\<lparr>running := True\<rparr>) = Some r \<and>
    bucc_vm_run env vm = Some (map_option (\<lambda>vm'. (status vm', vm')) r) \<and>
    (\<forall>vm'. r = Some vm' \<longrightarrow> (status vm' \<noteq> VM_OK \<or> \<not> running vm') \<and>
       unat (c_instructions (counters vm')) \<le> max (unat (c_instructions (counters vm))) (unat (max_instructions (limits vm))) \<and>
       limits vm' = limits vm \<and> vm_bounds vm')"
proof -
  let ?vm = "vm\<lparr>running := True\<rparr>"
  have "count_inv env (limits vm) (unat (c_instructions (counters vm))) ?vm"
    using assms by (simp add: count_inv_def vm_inv_def vm_bounds_def)
  from counted.drive_ends [OF this, of "vm_budget vm + 2"] obtain r where
    r: "drive (vm_next env) vm_runnable (vm_budget vm + 2) ?vm = Some r"
    "\<forall>vm'. r = Some vm' \<longrightarrow> count_inv env (limits vm) (unat (c_instructions (counters vm))) vm' \<and> \<not> vm_runnable vm'"
    by (auto simp: vm_budget_def)
  then show ?thesis using run_loop_drive [OF r(1)]
    by (auto simp: bucc_vm_run_def vm_budget_def count_inv_def vm_inv_def vm_runnable_def)
qed

text \<open>A jump to itself, under the default limit of a million instructions.\<close>

theorem vm_run_terminates_witness:
  "\<exists>r. bucc_vm_run (example_env [0x30, 0xFF, 0xFF, 0xFF, 0xFB]) (example_vm []) = Some r \<and>
     (\<forall>st vm'. r = Some (st, vm') \<longrightarrow> unat (c_instructions (counters vm')) \<le> 1000000)"
proof -
  have "vm_bounds (example_vm [])" by (simp add: vm_bounds_def example_vm_simps)
  then show ?thesis
    using vm_run_terminates [of "example_env [0x30, 0xFF, 0xFF, 0xFF, 0xFB]" "example_vm []", OF _ example_host]
    by (fastforce simp: example_env_def example_vm_simps)
qed

text \<open>
  C31: A module without bytecode hangs its host. The loader gives a module whose bytecode offset is zero
  a NULL bytecode, and the verifier accepts it; each step then returns \<open>VM_ERROR\<close> without recording it,
  so the loop of \<open>bucc_vm_run\<close> never ends.
\<close>

theorem vm_run_without_bytecode_diverges:
  assumes "bytecode (e_module env) = None" "status vm = VM_OK"
  shows "bucc_vm_run env vm = None"
proof -
  have "run_loop env (vm\<lparr>running := True\<rparr>) = None"
    using run_loop_no_bytecode [of env "vm\<lparr>running := True\<rparr>"] assms
    by (cases "run_loop env (vm\<lparr>running := True\<rparr>)") simp_all
  then show ?thesis by (simp add: bucc_vm_run_def)
qed

theorem vm_run_without_bytecode_diverges_witness:
  "bucc_vm_run ((example_env [])\<lparr>e_module := zero_module\<rparr>) (example_vm []) = None"
  by (rule vm_run_without_bytecode_diverges) (simp_all add: zero_module_def example_vm_simps)

text \<open>
  C32: The machine stays inside its arrays. Whatever the bytecode and whatever calls the host makes to the
  functions of \<^verbatim>\<open>bucc_vm.h\<close> in between, the operand stack never holds more than 1024 values, the call
  stack more than 256 frames, and the tables of globals and locals more than 256 entries each.
\<close>

theorem vm_bounds_invariant:
  assumes "vm_reachable env vm" "host_conserves env"
  shows "sp vm \<le> 1024 \<and> fp vm \<le> 256 \<and> length (globals vm) \<le> 256 \<and> length (locals vm) \<le> 256"
proof -
  have "vm_bounds vm"
    using assms(1)
  proof (induction rule: vm_reachable.induct)
    case (new h vm)
    then show ?case by (auto simp: bucc_vm_new_def vm_bounds_def Let_def split_def split: if_splits)
  next
    case (pop vm v vm')
    then show ?case by (auto simp: bucc_vm_pop_def vm_bounds_def split: list.splits)
  next
    case (step vm st vm')
    then show ?case using step_bounds [OF assms(2)] by blast
  next
    case (push vm v vm')
    then show ?case using conserved_bounds [OF con.all_push [OF conserved_refl [OF assms(2)]]] by blast
  next
    case (set_global vm i v vm')
    then show ?case using conserved_bounds [OF con.all_set(1) [OF conserved_refl [OF assms(2)]]] by blast
  next
    case (set_local vm i v vm')
    then show ?case using conserved_bounds [OF con.all_set(2) [OF conserved_refl [OF assms(2)]]] by blast
  next
    case (throw vm v vm')
    then show ?case using conserved_bounds [OF con.all_throw [OF conserved_refl [OF assms(2)]]] by blast
  next
    case (reset vm vm')
    then show ?case using reset_bounds by blast
  qed (simp_all add: bucc_vm_set_limits_def vm_bounds_def)
  then show ?thesis by (simp add: vm_bounds_def)
qed

theorem vm_bounds_invariant_witness:
  "sp (pushed (VI64 3) (example_vm [])) \<le> 1024 \<and> fp (pushed (VI64 3) (example_vm [])) \<le> 256"
proof -
  have "vm_reachable (example_env []) (pushed (VI64 3) (example_vm []))"
    by (rule vm_reachable.push [OF vm_reachable.new [OF example_new], where v = "VI64 3"]) (simp add: example_vm_simps)
  then show ?thesis using vm_bounds_invariant example_host by blast
qed

text \<open>
  Integer arithmetic. With two integers on the stack, one step on \<open>ADD\<close>, \<open>SUB\<close>, \<open>MUL\<close>, \<open>DIV\<close> or
  \<open>MOD\<close> replaces them by the mathematical result, cut to 64 bits in two's complement (division and
  remainder truncating towards zero), and changes nothing else of the machine's memory.
\<close>

lemma integer_arithmetic:
  assumes "at_op env vm op" "int_op op = Some f" "stack vm = VI64 b # VI64 a # s" "sp vm \<le> 1024"
    "op = OP_DIV \<or> op = OP_MOD \<longrightarrow> b \<noteq> 0 \<and> \<not> (sint a = - (2 ^ 63) \<and> sint b = -1)"
  shows "\<exists>vm' r. bucc_vm_step env vm = Some (VM_OK, vm') \<and> stack vm' = VI64 r # s \<and>
     sint r = signed_take_bit 63 (f (sint a) (sint b)) \<and>
     ip vm' = ip vm + 1 \<and> frames vm' = frames vm \<and> globals vm' = globals vm \<and> locals vm' = locals vm \<and>
     heap_of vm' = heap_of vm"
proof -
  have ok: "status vm = VM_OK" using assms(1) by (simp add: at_op_def)
  have "exec_op env op (fetched vm) = Some (pushed (VI64 (word_of_int (f (sint a) (sint b)))) ((fetched vm)\<lparr>stack := s\<rparr>))"
    using assms by (intro exec_int_op) simp_all
  moreover have "sint (word_of_int n :: i64) = signed_take_bit 63 n" for n
    by (simp add: sint_sbintrunc')
  ultimately show ?thesis
    using assms(1) ok by (intro exI [of _ "pushed (VI64 (word_of_int (f (sint a) (sint b)))) ((fetched vm)\<lparr>stack := s\<rparr>)"]
        exI [of _ "word_of_int (f (sint a) (sint b))"]) (simp add: step_at_op)
qed

lemma integer_arithmetic_example:
  "\<exists>vm' r. bucc_vm_step (example_env [0x23]) (example_vm [VI64 2, VI64 (-7)]) = Some (VM_OK, vm') \<and>
     stack vm' = [VI64 r] \<and> sint r = -3"
proof -
  have "at_op (example_env [0x23]) (example_vm [VI64 2, VI64 (-7)]) 0x23"
    using example_at_op [of "[0x23]"] by simp
  moreover have "int_op 0x23 = Some (sdiv)" by (simp add: int_op_def)
  moreover have "sint (- 7 :: i64) = -7" "sint (2 :: i64) = 2" by simp_all
  ultimately show ?thesis
    using integer_arithmetic [of "example_env [0x23]" "example_vm [VI64 2, VI64 (-7)]" "0x23" "(sdiv)" 2 "-7" "[]"]
    by (fastforce simp: example_vm_simps signed_divide_int_def)
qed

text \<open>
  C33: Division by zero outside a \<open>TRY\<close>. The result of \<open>handle_exception\<close> is ignored by \<open>DIV\<close> and
  \<open>MOD\<close>: with no handler in place the step succeeds, the operands are gone, no result is pushed, and the
  machine goes on with the next instruction. (\<open>VM_DIVISION_BY_ZERO\<close> is never set.)
\<close>

theorem division_by_zero_goes_on:
  assumes "at_op env vm op" "op \<in> {OP_DIV, OP_MOD}" "stack vm = VI64 0 # VI64 a # s" "try_stack vm = []"
    "immediate (x_value (exception vm))"
  shows "\<exists>vm'. bucc_vm_step env vm = Some (VM_OK, vm') \<and> stack vm' = s \<and> ip vm' = ip vm + 1 \<and>
     running vm' = running vm \<and> x_active (exception vm')"
proof -
  let ?vm = "(fetched vm)\<lparr>stack := s\<rparr>"
  obtain e h where e: "bucc_error_new (heap_of vm) (Some (cstr_bytes ''Division by zero'')) (Some (cstr_bytes ''DIV_ZERO'')) 0 = (e, h)"
    by fastforce
  have ret: "\<exists>h'. bucc_value_retain h (VError e) = Some h'"
    using e
    by (auto simp: bucc_value_retain_def bucc_error_retain_def bucc_error_new_def dup_cstr_def malloc_ok_def new_obj_def
        get_error_def split_def Let_def split: if_splits)
  then obtain h' where h': "bucc_value_retain h (VError e) = Some h'" by blast
  define vm' where "vm' = ?vm\<lparr>heap_of := h', exception := \<lparr>x_value = VError e, x_frame_depth = word_of_nat (fp vm), x_active = True\<rparr>\<rparr>"
  have "throw_div_zero ?vm = Some vm'"
    using e h' assms(4,5)
    by (simp add: throw_div_zero_def on_heap_def bucc_vm_throw_def value_retain_def in_heap_def handle_exception_def vm'_def)
  then have "exec_div env (fetched vm) = Some vm'" "exec_mod env (fetched vm) = Some vm'"
    using assms(3) by (simp_all add: exec_div_def exec_mod_def with_operands_def is_f64_def as_i64_def)
  then have "exec_op env op (fetched vm) = Some vm'"
    using assms(2) by (auto simp only: exec_op_def exec_arith_lookup option.case insert_iff empty_iff simp_thms)
  then have "bucc_vm_step env vm = Some (status vm', vm')" using step_at_op [OF assms(1)] by simp
  moreover have "status vm = VM_OK" using assms(1) by (simp add: at_op_def)
  ultimately show ?thesis by (intro exI [of _ vm']) (simp add: vm'_def)
qed

theorem division_by_zero_goes_on_witness:
  "\<exists>vm'. bucc_vm_step (example_env [0x24]) (example_vm [VI64 0, VI64 1]) = Some (VM_OK, vm') \<and> stack vm' = []"
proof -
  have "at_op (example_env [0x24]) (example_vm [VI64 0, VI64 1]) 0x24"
    using example_at_op [of "[0x24]"] by simp
  then show ?thesis
    using division_by_zero_goes_on [of "example_env [0x24]" "example_vm [VI64 0, VI64 1]" "0x24" 1 "[]"]
    by (auto simp: example_vm_simps)
qed

text \<open>
  C34: \<open>THROW\<close> inside a \<open>TRY\<close>. The innermost handler takes the exception: the call frames and the operand
  stack are cut back to their depths at \<open>TRY_BEGIN\<close>, the thrown value is pushed, control continues at
  the handler and the handler is used up. The locals are not cut back. (Stated for values without heap
  objects.)
\<close>

theorem throw_unwinds_to_handler:
  assumes "at_op env vm OP_THROW" "stack vm = v # s" "immediate v" "immediate (x_value (exception vm))"
    "try_stack vm = tf # rest" "t_frame_depth tf \<le> fp vm" "t_stack_depth tf \<le> length s" "length s < 1024"
    "list_all immediate (take (length s - t_stack_depth tf) s)"
  shows "\<exists>vm'. bucc_vm_step env vm = Some (VM_OK, vm') \<and> ip vm' = t_handler_ip tf \<and> try_stack vm' = rest \<and>
     stack vm' = v # drop (length s - t_stack_depth tf) s \<and> sp vm' = t_stack_depth tf + 1 \<and>
     frames vm' = drop (fp vm - t_frame_depth tf) (frames vm) \<and> fp vm' = t_frame_depth tf \<and>
     \<not> x_active (exception vm') \<and> locals vm' = locals vm \<and> heap_of vm' = heap_of vm"
proof -
  define s' where "s' = drop (length s - t_stack_depth tf) s"
  have len: "length s' = t_stack_depth tf" using assms(7) by (simp add: s'_def)
  define vm1 where "vm1 = (fetched vm)\<lparr>stack := s, exception := \<lparr>x_value = v, x_frame_depth = word_of_nat (fp vm), x_active = True\<rparr>\<rparr>"
  define vm2 where "vm2 = pushed v (vm1\<lparr>try_stack := rest, frames := drop (fp vm - t_frame_depth tf) (frames vm), stack := s'\<rparr>)"
  have "with_operand bucc_vm_throw (fetched vm) = Some vm1"
    using assms(2-4) by (simp add: with_operand_def bucc_vm_throw_def vm1_def)
  moreover have "handle_exception vm1 =
      Some (True, vm2\<lparr>exception := (exception vm2)\<lparr>x_active := False, x_value := VNull\<rparr>, ip := t_handler_ip tf\<rparr>)"
    using assms(3,5,7-9) len
    by (simp add: handle_exception_def vm1_def vm2_def pop_release_immediate s'_def)
  moreover have "map_of (exec_table env) OP_THROW = Some exec_throw" by (simp add: exec_table_def)
  ultimately have "exec_op env OP_THROW (fetched vm) =
      Some (vm2\<lparr>exception := (exception vm2)\<lparr>x_active := False, x_value := VNull\<rparr>, ip := t_handler_ip tf\<rparr>)"
    by (simp add: exec_op_def exec_throw_def raise_exception_def)
  moreover have "status vm = VM_OK" using assms(1) by (simp add: at_op_def)
  ultimately show ?thesis
    using step_at_op [OF assms(1)] len assms(6)
    by (intro exI [of _ "vm2\<lparr>exception := (exception vm2)\<lparr>x_active := False, x_value := VNull\<rparr>, ip := t_handler_ip tf\<rparr>"])
      (simp add: vm2_def vm1_def s'_def)
qed

theorem throw_unwinds_to_handler_witness:
  "\<exists>vm'. bucc_vm_step (example_env [0x62])
       ((example_vm [VI64 4, VNull, VNull])\<lparr>try_stack := [\<lparr>t_handler_ip = 40, t_frame_depth = 0, t_stack_depth = 1\<rparr>]\<rparr>)
     = Some (VM_OK, vm') \<and> ip vm' = 40 \<and> stack vm' = [VI64 4, VNull]"
proof -
  let ?t = "\<lparr>t_handler_ip = 40, t_frame_depth = 0, t_stack_depth = 1\<rparr>"
  let ?vm = "(example_vm [VI64 4, VNull, VNull])\<lparr>try_stack := [?t]\<rparr>"
  have "at_op (example_env [0x62]) ?vm 0x62"
    using example_at_op [of "[0x62]" "[VI64 4, VNull, VNull]"] by (simp add: at_op_def)
  then show ?thesis
    using throw_unwinds_to_handler [of "example_env [0x62]" ?vm "VI64 4" "[VNull, VNull]" ?t "[]"]
    by (auto simp: example_vm_simps)
qed

text \<open>
  \<open>CALL\<close>. With the arguments on top of the stack, a call of an existing procedure pushes a frame with
  the return address, copies the arguments behind the caller's locals, where they are the first locals
  of the procedure, and continues at its code; the arguments also stay on the stack until the return.
\<close>

lemma call_enters_procedure:
  assumes "at_op env vm OP_CALL" "code_ok env" "operand_u16 env (ip vm + 1) = Some proc_id"
    "operand_u8 env (ip vm + 3) = Some argc" "mod_procs (e_module env) = Some ps"
    "proc_count (e_module env) = word_of_nat (length ps)" "unat proc_id < length ps" "length ps < 2 ^ 32"
    "fp vm < 256" "stack vm = rev args @ s" "length args = unat argc" "sp vm \<le> 1024"
    "list_all immediate (stack vm)" "length (locals vm) + length args \<le> 256"
  shows "\<exists>vm'. bucc_vm_step env vm = Some (VM_OK, vm') \<and> ip vm' = p_code_offset (ps ! unat proc_id) \<and>
     frames vm' = \<lparr>f_proc = unat proc_id, f_ip = ip vm + 4, f_bp = word_of_nat (length s),
                   f_local_base = word_of_nat (length (locals vm))\<rparr> # frames vm \<and>
     locals vm' = locals vm @ args \<and> stack vm' = stack vm \<and> globals vm' = globals vm \<and> heap_of vm' = heap_of vm"
proof -
  let ?v1 = "(fetched vm)\<lparr>ip := ip vm + 4\<rparr>"
  have r1: "read_u16 env (fetched vm) = Some (proc_id, (fetched vm)\<lparr>ip := ip vm + 1 + 2\<rparr>)"
    using read_u16_operand [OF assms(2), of "fetched vm"] assms(3) by simp
  have r2: "read_u8 env ((fetched vm)\<lparr>ip := ip vm + 1 + 2\<rparr>) = Some (argc, ?v1)"
    using read_u8_operand [OF assms(2), of "(fetched vm)\<lparr>ip := ip vm + 1 + 2\<rparr>"] assms(4) by (simp add: add.assoc)
  let ?f = "\<lparr>f_proc = unat proc_id, f_ip = ip vm + 4, f_bp = word_of_nat (length s),
             f_local_base = word_of_nat (length (locals vm))\<rparr>"
  let ?v2 = "?v1\<lparr>frames := ?f # frames vm\<rparr>"
  have up: "unat (ucast proc_id :: u32) = unat proc_id"
    by (simp add: unat_ucast_up)
  have ua: "unat (ucast argc :: u32) = unat argc"
    by (simp add: unat_ucast_up)
  have bp: "word_of_nat (sp vm) - ucast argc = (word_of_nat (length s) :: u32)"
  proof -
    have "(ucast argc :: u32) = word_of_nat (length args)" using ua assms(11) by (simp add: word_unat_eq_iff unat_of_nat)
    then show ?thesis using assms(10) by simp
  qed
  have ubp: "unat (word_of_nat (length s) :: u32) = length s"
    using assms(10,12) by (simp add: unat_of_nat)
  have "\<not> proc_count (e_module env) \<le> ucast proc_id"
    using assms(6-8) up by (simp add: word_le_nat_alt unat_of_nat)
  moreover have "enter_proc env (ucast proc_id) (word_of_nat (length s)) ?v1 = Some (ps ! unat proc_id, ?v2)"
    using assms(5,7) up by (simp add: enter_proc_def)
  moreover have "copy_args (word_of_nat (length s)) 0 (unat argc) ?v2 = Some (?v2\<lparr>locals := locals vm @ args\<rparr>)"
    using copy_args_locals [of ?v2 ?f "frames vm" "length (locals vm)" 0 "unat argc" "word_of_nat (length s)"] assms(10-14) ubp
    by simp
  moreover have "map_of (exec_table env) OP_CALL = Some (exec_call env)" by (simp add: exec_table_def)
  moreover have "status vm = VM_OK" using assms(1) by (simp add: at_op_def)
  ultimately show ?thesis
    using r1 r2 bp assms(9) step_at_op [OF assms(1)]
    by (intro exI [of _ "?v2\<lparr>locals := locals vm @ args, ip := p_code_offset (ps ! unat proc_id)\<rparr>"])
      (simp add: exec_op_def exec_call_def)
qed

lemma call_enters_procedure_example:
  "\<exists>vm'. bucc_vm_step (example_env [0x33, 0, 0, 2]) (example_vm [VI64 6, VI64 5, VNull]) = Some (VM_OK, vm') \<and>
     ip vm' = 9 \<and> locals vm' = [VI64 5, VI64 6] \<and> fp vm' = 1"
proof -
  let ?env = "example_env [0x33, 0, 0, 2]"
  have "at_op ?env (example_vm [VI64 6, VI64 5, VNull]) 0x33"
    using example_at_op [of "[0x33, 0, 0, 2]"] by simp
  moreover have "code_ok ?env" "operand_u16 ?env 1 = Some 0" "operand_u8 ?env 3 = Some 2"
    "mod_procs (e_module ?env) = Some [zero_proc\<lparr>p_code_offset := 9\<rparr>]"
    by (simp_all add: code_ok_def operand_u16_def operand_u8_def example_env_def zero_module_def)
  ultimately show ?thesis
    using call_enters_procedure [of ?env "example_vm [VI64 6, VI64 5, VNull]" 0 2 "[zero_proc\<lparr>p_code_offset := 9\<rparr>]"
        "[VI64 5, VI64 6]" "[VNull]"]
    by (auto simp: example_vm_simps example_env_def zero_module_def)
qed

text \<open>
  \<open>RETURN_VALUE\<close> undoes a call. In a called procedure, whatever it has left on the stack above its
  base and in its locals is released, the value returned is pushed on the caller's stack, the caller's
  locals and frames are back, and control continues at the return address. (Stated for values without
  heap objects.)
\<close>

lemma return_restores_caller:
  assumes "at_op env vm OP_RETURN_VALUE" "frames vm = f # fs" "f_bp f = word_of_nat (length s)"
    "f_local_base f = word_of_nat (length ls)" "stack vm = ret # tmp @ s" "locals vm = ls @ inner"
    "sp vm \<le> 1024" "length (locals vm) \<le> 256" "immediate ret" "list_all immediate tmp" "list_all immediate inner"
  shows "\<exists>vm'. bucc_vm_step env vm = Some (VM_OK, vm') \<and> stack vm' = ret # s \<and> locals vm' = ls \<and> frames vm' = fs \<and>
     ip vm' = f_ip f \<and> globals vm' = globals vm \<and> heap_of vm' = heap_of vm"
proof -
  have u: "unat (word_of_nat (length s) :: u32) = length s" "unat (word_of_nat (length ls) :: u32) = length ls"
    using assms(5-8) by (simp_all add: unat_of_nat)
  let ?v1 = "(fetched vm)\<lparr>stack := tmp @ s, frames := fs\<rparr>"
  let ?v2 = "?v1\<lparr>locals := ls\<rparr>"
  have "drop_locals (length inner) ?v1 = Some ?v2"
    using drop_locals_immediate [of "length inner" ?v1] assms(6,11) by simp
  moreover have "pop_release (length tmp) ?v2 = Some (?v2\<lparr>stack := s\<rparr>)"
    using pop_release_immediate [of "length tmp" ?v2] assms(10) by simp
  ultimately have "leave_frame f fs ((fetched vm)\<lparr>stack := tmp @ s\<rparr>) = Some (?v2\<lparr>stack := s, ip := f_ip f\<rparr>)"
    using assms(3,4,6) u by (simp add: leave_frame_def)
  moreover have "map_of (exec_table env) OP_RETURN_VALUE = Some exec_return_value" by (simp add: exec_table_def)
  moreover have "status vm = VM_OK" using assms(1) by (simp add: at_op_def)
  ultimately show ?thesis
    using assms(2,5,7,9) step_at_op [OF assms(1)]
    by (intro exI [of _ "pushed ret (?v2\<lparr>stack := s, ip := f_ip f\<rparr>)"])
      (simp add: exec_op_def exec_return_value_def with_operand_def)
qed

lemma return_restores_caller_example:
  "\<exists>vm'. bucc_vm_step (example_env [0x36])
       ((example_vm [VI64 1, VNull, VBool True])\<lparr>locals := [VI64 8, VNull],
          frames := [\<lparr>f_proc = 0, f_ip = 77, f_bp = 1, f_local_base = 1\<rparr>]\<rparr>) = Some (VM_OK, vm') \<and>
     stack vm' = [VI64 1, VBool True] \<and> locals vm' = [VI64 8] \<and> ip vm' = 77"
proof -
  let ?f = "\<lparr>f_proc = 0, f_ip = 77, f_bp = 1, f_local_base = 1\<rparr>"
  let ?vm = "(example_vm [VI64 1, VNull, VBool True])\<lparr>locals := [VI64 8, VNull], frames := [?f]\<rparr>"
  have "at_op (example_env [0x36]) ?vm 0x36"
    using example_at_op [of "[0x36]" "[VI64 1, VNull, VBool True]"] by (simp add: at_op_def)
  then show ?thesis
    using return_restores_caller [of "example_env [0x36]" ?vm ?f "[]" "[VBool True]" "[VI64 8]" "VI64 1" "[VNull]" "[VNull]"]
    by (auto simp: example_vm_simps)
qed

end
