(* ===== verification/Bucc_Emit.thy ===== *)
theory Bucc_Emit
  imports Bucc_Vm
begin

text \<open>
  The Buccaneer code generator, \<^verbatim>\<open>src/buccaneer/emit.c\<close>, on the syntax trees of
  \<^verbatim>\<open>include/bucc_ast.h\<close> of that directory, and the symbol tables of \<^verbatim>\<open>semantic.c\<close> it reads.

  \<^item> A syntax tree is a value of \<open>bucc_expr\<close>, \<open>bucc_stmt\<close> or \<open>bucc_decl\<close> with one constructor per node
    kind; names and string literals are byte strings. Optional children are \<^typ>\<open>'a option\<close>.
  \<^item> The linked lists of an emitter grow at the front, as in the code. An entry's index is the number
    of entries behind it, so sorting by index, as \<open>bucc_emitter_to_module\<close> does, is reversal.
  \<^item> Memory is taken to be available: the branches for a failed allocation drop the entry. The code
    buffer grows as needed, so the emitted code is a list.
\<close>

section \<open>Syntax trees\<close>

datatype bucc_unary_op_t = UNARY_NEG | UNARY_NOT

datatype bucc_binary_op_t =
    BINARY_ADD | BINARY_SUB | BINARY_MUL | BINARY_DIV | BINARY_MOD
  | BINARY_EQ | BINARY_NE | BINARY_LT | BINARY_LE | BINARY_GT | BINARY_GE
  | BINARY_AND | BINARY_OR | BINARY_CONCAT

datatype bucc_literal =
    LNull | LBool bool | LI64 i64 | LF64 f64 | LString bytes | LDate bucc_date_t | LDatetime bucc_datetime_t | LOther

datatype bucc_expr =
    NODE_EXPR_LITERAL bucc_literal
  | NODE_EXPR_IDENT bytes
  | NODE_EXPR_QUALIFIED bytes bytes
  | NODE_EXPR_CALL bucc_expr "bucc_expr list"
  | NODE_EXPR_UNARY bucc_unary_op_t bucc_expr
  | NODE_EXPR_BINARY bucc_binary_op_t bucc_expr bucc_expr
  | NODE_EXPR_INDEX bucc_expr bucc_expr
  | NODE_EXPR_MEMBER bucc_expr bytes
  | NODE_EXPR_ARRAY_LIT "bucc_expr list"
  | NODE_EXPR_MAP_LIT "bucc_map_pair list"
  | NODE_EXPR_OTHER
and bucc_map_pair = NODE_EXPR_MAP_PAIR bytes bucc_expr

datatype bucc_loop_kind_t = LOOP_PLAIN | LOOP_UNTIL | LOOP_WHILE

text \<open>A statement has the line and the column where it starts. The branches of \<open>IF\<close> and \<open>SELECT\<close> are clauses.\<close>

datatype bucc_stmt = Stmt u32 u32 bucc_stmt_node
and bucc_stmt_node =
    NODE_STMT_VAR_DECL bytes "bucc_expr option"
  | NODE_STMT_ASSIGN bucc_expr bucc_expr
  | NODE_STMT_EXPR bucc_expr
  | NODE_STMT_IF bucc_expr "bucc_stmt list" "bucc_elseif list" "bucc_stmt list"
  | NODE_STMT_SELECT bucc_expr "bucc_case list" "bucc_stmt list"
  | NODE_STMT_WHILE bucc_expr "bucc_stmt list"
  | NODE_STMT_DO_LOOP "bucc_stmt list" "bucc_expr option" bucc_loop_kind_t
  | NODE_STMT_FOR bytes bucc_expr bucc_expr "bucc_expr option" "bucc_stmt list"
  | NODE_STMT_TRY_CATCH "bucc_stmt list" "bytes option" "bucc_stmt list"
  | NODE_STMT_RETURN "bucc_expr option"
  | NODE_STMT_EXIT
  | NODE_STMT_HALT
  | NODE_STMT_THROW bucc_expr
  | NODE_STMT_CHAIN bytes "bucc_expr option"
  | NODE_STMT_ON_CALL bucc_expr "bucc_expr list"
  | NODE_STMT_OTHER
and bucc_elseif = ElseIf bucc_expr "bucc_stmt list"
and bucc_case = NODE_STMT_CASE "bucc_expr list" "bucc_expr list" "bucc_expr list" "bucc_stmt list"

datatype bucc_decl =
    NODE_PROC_DECL bytes "bytes list" "bucc_stmt list"
  | NODE_FUNC_DECL bytes "bytes list" "bucc_stmt list"

record bucc_ast_module =
  ast_globals :: "bytes list"
  ast_procedures :: "bucc_decl list"

section \<open>Symbol tables\<close>

datatype bucc_symbol_kind_t =
    SYM_GLOBAL | SYM_LOCAL | SYM_PARAM | SYM_PROCEDURE | SYM_FUNCTION | SYM_DATASET | SYM_BUILTIN | SYM_HOST_NS | SYM_HOST_FN

record bucc_symbol_t =
  sym_kind :: bucc_symbol_kind_t
  sym_name :: bytes
  sym_slot :: u32

record bucc_scope_t =
  sc_symbols :: "bucc_symbol_t list"
  sc_local_count :: u32

definition bucc_scope_new :: bucc_scope_t where
  "bucc_scope_new = \<lparr>sc_symbols = [], sc_local_count = 0\<rparr>"

definition bucc_scope_define :: "bytes \<Rightarrow> bucc_symbol_kind_t \<Rightarrow> bucc_scope_t \<Rightarrow> bucc_scope_t" where
  "bucc_scope_define name kind sc =
     \<lparr>sc_symbols = \<lparr>sym_kind = kind, sym_name = name, sym_slot = sc_local_count sc\<rparr> # sc_symbols sc,
      sc_local_count = sc_local_count sc + 1\<rparr>"

definition bucc_scope_lookup_local :: "bytes \<Rightarrow> bucc_scope_t \<Rightarrow> bucc_symbol_t option" where
  "bucc_scope_lookup_local name sc = find (\<lambda>s. strcasecmp_local (sym_name s) name = 0) (sc_symbols sc)"

text \<open>A scope and its parents, innermost first.\<close>

fun bucc_scope_lookup :: "bytes \<Rightarrow> bucc_scope_t list \<Rightarrow> bucc_symbol_t option" where
  "bucc_scope_lookup name [] = None"
| "bucc_scope_lookup name (sc # scs) =
     (case bucc_scope_lookup_local name sc of Some s \<Rightarrow> Some s | None \<Rightarrow> bucc_scope_lookup name scs)"

text \<open>
  What analysing a module leaves in the current scope: the analysis of a body works in a scope of its
  own, which is freed before the analysis ends, and the current scope is the global one again. The
  result counts the errors of the declarations.
\<close>

fun decl_name :: "bucc_decl \<Rightarrow> bytes" where
  "decl_name (NODE_PROC_DECL name _ _) = name"
| "decl_name (NODE_FUNC_DECL name _ _) = name"

fun decl_kind :: "bucc_decl \<Rightarrow> bucc_symbol_kind_t" where
  "decl_kind (NODE_PROC_DECL _ _ _) = SYM_PROCEDURE"
| "decl_kind (NODE_FUNC_DECL _ _ _) = SYM_FUNCTION"

definition declare_procedure :: "bucc_decl \<Rightarrow> bucc_scope_t \<times> nat \<Rightarrow> bucc_scope_t \<times> nat" where
  "declare_procedure d = (\<lambda>(sc, errors).
     case bucc_scope_lookup_local (decl_name d) sc of
       Some _ \<Rightarrow> (sc, errors + 1)
     | None \<Rightarrow> (bucc_scope_define (decl_name d) (decl_kind d) sc, errors))"

definition declare_module :: "bucc_ast_module \<Rightarrow> bucc_scope_t \<times> nat" where
  "declare_module m =
     fold declare_procedure (ast_procedures m)
       (fold (\<lambda>g. bucc_scope_define g SYM_GLOBAL) (ast_globals m) bucc_scope_new, 0)"

section \<open>The emitter\<close>

record bucc_patch_t =
  pt_offset :: u32
  pt_label_id :: nat

record bucc_debug_line_info_t =
  dl_bytecode_offset :: u32
  dl_source_line :: u32
  dl_source_column :: u32

text \<open>\<open>em_scope\<close> is \<open>sem->current_scope\<close>, \<open>em_errors\<close> the number of errors reported to \<open>diag\<close>.\<close>

record bucc_emitter_t =
  em_scope :: "bucc_scope_t list"
  em_errors :: nat
  em_code :: bytes
  em_constants :: "bucc_value list"
  em_strings :: "bytes list"
  em_procedures :: "bucc_module_proc_t list"
  em_imports :: "(bytes \<times> bytes) list"
  em_local_count :: u32
  em_next_label :: nat
  em_labels :: "u32 list list"
  em_patches :: "bucc_patch_t list"
  em_loop_start_label :: nat
  em_loop_end_label :: nat
  em_debug_lines :: "bucc_debug_line_info_t list"
  em_last_debug_line :: u32
  em_emit_debug_info :: bool

definition bucc_emitter_new :: "bucc_scope_t list \<Rightarrow> bucc_emitter_t" where
  "bucc_emitter_new scope =
     \<lparr>em_scope = scope, em_errors = 0, em_code = [], em_constants = [], em_strings = [], em_procedures = [],
      em_imports = [], em_local_count = 0, em_next_label = 0, em_labels = replicate 256 [], em_patches = [],
      em_loop_start_label = 0, em_loop_end_label = 0, em_debug_lines = [], em_last_debug_line = 0,
      em_emit_debug_info = False\<rparr>"

definition bucc_emitter_set_debug :: "bool \<Rightarrow> bucc_emitter_t \<Rightarrow> bucc_emitter_t" where
  "bucc_emitter_set_debug enable e = e\<lparr>em_emit_debug_info := enable\<rparr>"

definition bucc_emit_bytes :: "bytes \<Rightarrow> bucc_emitter_t \<Rightarrow> bucc_emitter_t" where
  "bucc_emit_bytes bs e = e\<lparr>em_code := em_code e @ bs\<rparr>"

definition bucc_emit_byte :: "u8 \<Rightarrow> bucc_emitter_t \<Rightarrow> bucc_emitter_t" where
  "bucc_emit_byte b = bucc_emit_bytes [b]"

definition bucc_emit_u16 :: "u16 \<Rightarrow> bucc_emitter_t \<Rightarrow> bucc_emitter_t" where
  "bucc_emit_u16 v = bucc_emit_bytes [ucast (drop_bit 8 v), ucast v]"

definition u32_bytes :: "u32 \<Rightarrow> bytes" where
  "u32_bytes v = [ucast (drop_bit 24 v), ucast (drop_bit 16 v), ucast (drop_bit 8 v), ucast v]"

definition bucc_emit_u32 :: "u32 \<Rightarrow> bucc_emitter_t \<Rightarrow> bucc_emitter_t" where
  "bucc_emit_u32 v = bucc_emit_bytes (u32_bytes v)"

definition bucc_emit_i32 :: "u32 \<Rightarrow> bucc_emitter_t \<Rightarrow> bucc_emitter_t" where
  "bucc_emit_i32 v = bucc_emit_u32 v"

definition bucc_emit_op :: "u8 \<Rightarrow> bucc_emitter_t \<Rightarrow> bucc_emitter_t" where
  "bucc_emit_op op = bucc_emit_byte op"

definition bucc_emit_op_u8 :: "u8 \<Rightarrow> u8 \<Rightarrow> bucc_emitter_t \<Rightarrow> bucc_emitter_t" where
  "bucc_emit_op_u8 op a e = bucc_emit_byte a (bucc_emit_byte op e)"

definition bucc_emit_op_u16 :: "u8 \<Rightarrow> u16 \<Rightarrow> bucc_emitter_t \<Rightarrow> bucc_emitter_t" where
  "bucc_emit_op_u16 op a e = bucc_emit_u16 a (bucc_emit_byte op e)"

definition bucc_emit_op_u32 :: "u8 \<Rightarrow> u32 \<Rightarrow> bucc_emitter_t \<Rightarrow> bucc_emitter_t" where
  "bucc_emit_op_u32 op a e = bucc_emit_u32 a (bucc_emit_byte op e)"

section \<open>Tables\<close>

text \<open>The first entry that satisfies a test, with its index; entries are numbered from the end.\<close>

fun find_index :: "('a \<Rightarrow> bool) \<Rightarrow> 'a list \<Rightarrow> nat option" where
  "find_index P [] = None"
| "find_index P (x # xs) = (if P x then Some (length xs) else find_index P xs)"

definition bucc_emit_string :: "bytes \<Rightarrow> bucc_emitter_t \<Rightarrow> nat \<times> bucc_emitter_t" where
  "bucc_emit_string str e =
     (case find_index (\<lambda>s. s = str) (em_strings e) of
        Some i \<Rightarrow> (i, e)
      | None \<Rightarrow> (length (em_strings e), e\<lparr>em_strings := str # em_strings e\<rparr>))"

definition add_constant :: "bucc_value \<Rightarrow> bucc_emitter_t \<Rightarrow> nat \<times> bucc_emitter_t" where
  "add_constant v e = (length (em_constants e), e\<lparr>em_constants := v # em_constants e\<rparr>)"

definition bucc_emit_constant_i64 :: "i64 \<Rightarrow> bucc_emitter_t \<Rightarrow> nat \<times> bucc_emitter_t" where
  "bucc_emit_constant_i64 n e =
     (case find_index (\<lambda>c. c = VI64 n) (em_constants e) of
        Some i \<Rightarrow> (i, e)
      | None \<Rightarrow> add_constant (VI64 n) e)"

definition bucc_emit_constant_f64 :: "float_ops \<Rightarrow> f64 \<Rightarrow> bucc_emitter_t \<Rightarrow> nat \<times> bucc_emitter_t" where
  "bucc_emit_constant_f64 fo d e =
     (case find_index (\<lambda>c. case c of VF64 x \<Rightarrow> f_eq fo x d | _ \<Rightarrow> False) (em_constants e) of
        Some i \<Rightarrow> (i, e)
      | None \<Rightarrow> add_constant (VF64 d) e)"

definition bucc_emit_host_import :: "bytes \<Rightarrow> bytes \<Rightarrow> bucc_emitter_t \<Rightarrow> nat \<times> bucc_emitter_t" where
  "bucc_emit_host_import ns fn e =
     (case find_index (\<lambda>(n, f). strcasecmp_local n ns = 0 \<and> strcasecmp_local f fn = 0) (em_imports e) of
        Some i \<Rightarrow> (i, e)
      | None \<Rightarrow> (length (em_imports e), e\<lparr>em_imports := (ns, fn) # em_imports e\<rparr>))"

section \<open>Labels and jumps\<close>

definition bucc_emit_label :: "bucc_emitter_t \<Rightarrow> nat \<times> bucc_emitter_t" where
  "bucc_emit_label e =
     (let e = (if length (em_labels e) \<le> em_next_label e
               then e\<lparr>em_labels := em_labels e @ replicate (length (em_labels e)) []\<rparr> else e)
      in (em_next_label e, e\<lparr>em_next_label := em_next_label e + 1\<rparr>))"

definition bucc_emit_label_here :: "nat \<Rightarrow> bucc_emitter_t \<Rightarrow> bucc_emitter_t" where
  "bucc_emit_label_here label e =
     (if length (em_labels e) \<le> label then e
      else e\<lparr>em_labels := (em_labels e)[label := word_of_nat (length (em_code e)) # em_labels e ! label]\<rparr>)"

definition bucc_emit_jump :: "u8 \<Rightarrow> nat \<Rightarrow> bucc_emitter_t \<Rightarrow> bucc_emitter_t" where
  "bucc_emit_jump op label e =
     (let e = bucc_emit_byte op e;
          e = e\<lparr>em_patches := \<lparr>pt_offset = word_of_nat (length (em_code e)), pt_label_id = label\<rparr> # em_patches e\<rparr>
      in bucc_emit_i32 0 e)"

text \<open>Overwriting the bytes at an offset; the code is at least that long.\<close>

definition write_at :: "nat \<Rightarrow> bytes \<Rightarrow> bytes \<Rightarrow> bytes" where
  "write_at off bs c = take off c @ bs @ drop (off + length bs) c"

definition apply_patch :: "u32 list list \<Rightarrow> bucc_patch_t \<Rightarrow> bytes \<Rightarrow> bytes" where
  "apply_patch labels p c =
     (if pt_label_id p < length labels then
        (case labels ! pt_label_id p of
           target # _ \<Rightarrow> write_at (unat (pt_offset p)) (u32_bytes (target - (pt_offset p + 4))) c
         | [] \<Rightarrow> c)
      else c)"

definition bucc_emit_resolve_patches :: "bucc_emitter_t \<Rightarrow> bucc_emitter_t" where
  "bucc_emit_resolve_patches e = e\<lparr>em_code := fold (apply_patch (em_labels e)) (em_patches e) (em_code e)\<rparr>"

definition bucc_emit_debug_line :: "u32 \<Rightarrow> u32 \<Rightarrow> bucc_emitter_t \<Rightarrow> bucc_emitter_t" where
  "bucc_emit_debug_line line col e =
     (if \<not> em_emit_debug_info e \<or> line = em_last_debug_line e then e
      else bucc_emit_op_u16 OP_DEBUG_LINE (ucast line)
        (e\<lparr>em_last_debug_line := line,
           em_debug_lines := em_debug_lines e @
             [\<lparr>dl_bytecode_offset = word_of_nat (length (em_code e)), dl_source_line = line, dl_source_column = col\<rparr>]\<rparr>))"

section \<open>Expressions\<close>

definition lookup_symbol :: "bucc_emitter_t \<Rightarrow> bytes \<Rightarrow> bucc_symbol_t option" where
  "lookup_symbol e name = bucc_scope_lookup name (em_scope e)"

text \<open>An indexed instruction: the table entry is made first, its index cut to 16 bits.\<close>

definition emit_indexed :: "u8 \<Rightarrow> nat \<times> bucc_emitter_t \<Rightarrow> bucc_emitter_t" where
  "emit_indexed op = (\<lambda>(i, e). bucc_emit_op_u16 op (word_of_nat i) e)"

definition emit_push_str :: "bytes \<Rightarrow> bucc_emitter_t \<Rightarrow> bucc_emitter_t" where
  "emit_push_str str e = emit_indexed OP_PUSH_STR (bucc_emit_string str e)"

definition emit_call_host :: "bytes \<Rightarrow> bytes \<Rightarrow> nat \<Rightarrow> bucc_emitter_t \<Rightarrow> bucc_emitter_t" where
  "emit_call_host ns fn argc e =
     bucc_emit_byte (word_of_nat argc) (emit_indexed OP_CALL_HOST (bucc_emit_host_import ns fn e))"

fun emit_literal :: "float_ops \<Rightarrow> bucc_literal \<Rightarrow> bucc_emitter_t \<Rightarrow> bucc_emitter_t" where
  "emit_literal fo LNull e = bucc_emit_op OP_PUSH_NULL e"
| "emit_literal fo (LBool b) e = bucc_emit_op (if b then OP_PUSH_TRUE else OP_PUSH_FALSE) e"
| "emit_literal fo (LI64 n) e = emit_indexed OP_PUSH_I64 (bucc_emit_constant_i64 n e)"
| "emit_literal fo (LF64 d) e = emit_indexed OP_PUSH_F64 (bucc_emit_constant_f64 fo d e)"
| "emit_literal fo (LString s) e = emit_push_str (until_nul s) e"
| "emit_literal fo (LDate d) e = emit_indexed OP_PUSH_DATE (add_constant (VDate d) e)"
| "emit_literal fo (LDatetime d) e = emit_indexed OP_PUSH_DATETIME (add_constant (VDatetime d) e)"
| "emit_literal fo LOther e = bucc_emit_op OP_PUSH_NULL e"

definition emit_ident :: "bytes \<Rightarrow> bucc_emitter_t \<Rightarrow> bucc_emitter_t" where
  "emit_ident name e =
     (case lookup_symbol e name of
        Some symb \<Rightarrow>
          (case sym_kind symb of
             SYM_GLOBAL \<Rightarrow> bucc_emit_op_u16 OP_LOAD_GLOBAL (ucast (sym_slot symb)) e
           | SYM_LOCAL \<Rightarrow> bucc_emit_op_u16 OP_LOAD_LOCAL (ucast (sym_slot symb)) e
           | SYM_PARAM \<Rightarrow> bucc_emit_op_u16 OP_LOAD_ARG (ucast (sym_slot symb)) e
           | _ \<Rightarrow> bucc_emit_op OP_PUSH_NULL e)
      | None \<Rightarrow> bucc_emit_op OP_PUSH_NULL e)"

definition is_callable :: "bucc_symbol_t \<Rightarrow> bool" where
  "is_callable symb \<longleftrightarrow> sym_kind symb = SYM_PROCEDURE \<or> sym_kind symb = SYM_FUNCTION"

definition emit_call_ident :: "bytes \<Rightarrow> nat \<Rightarrow> bucc_emitter_t \<Rightarrow> bucc_emitter_t" where
  "emit_call_ident name argc e =
     (case lookup_symbol e name of
        Some symb \<Rightarrow>
          (if is_callable symb
           then bucc_emit_byte (word_of_nat argc) (bucc_emit_op_u16 OP_CALL (ucast (sym_slot symb)) e)
           else bucc_emit_op OP_PUSH_NULL e)
      | None \<Rightarrow> bucc_emit_op OP_PUSH_NULL e)"

fun unary_opcode :: "bucc_unary_op_t \<Rightarrow> u8" where
  "unary_opcode UNARY_NEG = OP_NEG"
| "unary_opcode UNARY_NOT = OP_NOT"

fun binary_opcode :: "bucc_binary_op_t \<Rightarrow> u8" where
  "binary_opcode BINARY_ADD = OP_ADD"
| "binary_opcode BINARY_SUB = OP_SUB"
| "binary_opcode BINARY_MUL = OP_MUL"
| "binary_opcode BINARY_DIV = OP_DIV"
| "binary_opcode BINARY_MOD = OP_MOD"
| "binary_opcode BINARY_EQ = OP_EQ"
| "binary_opcode BINARY_NE = OP_NE"
| "binary_opcode BINARY_LT = OP_LT"
| "binary_opcode BINARY_LE = OP_LE"
| "binary_opcode BINARY_GT = OP_GT"
| "binary_opcode BINARY_GE = OP_GE"
| "binary_opcode BINARY_AND = OP_AND"
| "binary_opcode BINARY_OR = OP_OR"
| "binary_opcode BINARY_CONCAT = OP_CONCAT"

fun emit_expr :: "float_ops \<Rightarrow> bucc_expr \<Rightarrow> bucc_emitter_t \<Rightarrow> bucc_emitter_t"
  and emit_exprs :: "float_ops \<Rightarrow> bucc_expr list \<Rightarrow> bucc_emitter_t \<Rightarrow> bucc_emitter_t"
  and emit_pairs :: "float_ops \<Rightarrow> bucc_map_pair list \<Rightarrow> bucc_emitter_t \<Rightarrow> bucc_emitter_t" where
  "emit_expr fo (NODE_EXPR_LITERAL l) e = emit_literal fo l e"
| "emit_expr fo (NODE_EXPR_IDENT name) e = emit_ident name e"
| "emit_expr fo (NODE_EXPR_QUALIFIED ns name) e = emit_call_host ns name 0 e"
| "emit_expr fo (NODE_EXPR_CALL callee args) e =
     (let e = emit_exprs fo args e in
      case callee of
        NODE_EXPR_QUALIFIED ns name \<Rightarrow> emit_call_host ns name (length args) e
      | NODE_EXPR_IDENT name \<Rightarrow> emit_call_ident name (length args) e
      | _ \<Rightarrow> emit_expr fo callee e)"
| "emit_expr fo (NODE_EXPR_UNARY op a) e = bucc_emit_op (unary_opcode op) (emit_expr fo a e)"
| "emit_expr fo (NODE_EXPR_BINARY op a b) e = bucc_emit_op (binary_opcode op) (emit_expr fo b (emit_expr fo a e))"
| "emit_expr fo (NODE_EXPR_INDEX a i) e = bucc_emit_op OP_ARRAY_GET (emit_expr fo i (emit_expr fo a e))"
| "emit_expr fo (NODE_EXPR_MEMBER a name) e = bucc_emit_op OP_MAP_GET (emit_push_str name (emit_expr fo a e))"
| "emit_expr fo (NODE_EXPR_ARRAY_LIT es) e =
     bucc_emit_op_u16 OP_ARRAY_NEW (word_of_nat (length es)) (emit_exprs fo es e)"
| "emit_expr fo (NODE_EXPR_MAP_LIT ps) e =
     bucc_emit_op_u16 OP_MAP_NEW (word_of_nat (length ps)) (emit_pairs fo ps e)"
| "emit_expr fo NODE_EXPR_OTHER e = bucc_emit_op OP_PUSH_NULL e"
| "emit_exprs fo [] e = e"
| "emit_exprs fo (x # xs) e = emit_exprs fo xs (emit_expr fo x e)"
| "emit_pairs fo [] e = e"
| "emit_pairs fo (NODE_EXPR_MAP_PAIR key v # ps) e = emit_pairs fo ps (emit_expr fo v (emit_push_str key e))"

text \<open>Storing the value on top of the stack; an unknown name stores nothing.\<close>

fun emit_lvalue_store :: "float_ops \<Rightarrow> bucc_expr \<Rightarrow> bucc_emitter_t \<Rightarrow> bucc_emitter_t" where
  "emit_lvalue_store fo (NODE_EXPR_IDENT name) e =
     (case lookup_symbol e name of
        Some symb \<Rightarrow>
          (case sym_kind symb of
             SYM_GLOBAL \<Rightarrow> bucc_emit_op_u16 OP_STORE_GLOBAL (ucast (sym_slot symb)) e
           | SYM_LOCAL \<Rightarrow> bucc_emit_op_u16 OP_STORE_LOCAL (ucast (sym_slot symb)) e
           | SYM_PARAM \<Rightarrow> bucc_emit_op_u16 OP_STORE_LOCAL (ucast (sym_slot symb)) e
           | _ \<Rightarrow> e)
      | None \<Rightarrow> e)"
| "emit_lvalue_store fo (NODE_EXPR_INDEX a i) e = bucc_emit_op OP_ARRAY_SET (emit_expr fo i (emit_expr fo a e))"
| "emit_lvalue_store fo (NODE_EXPR_MEMBER a name) e = bucc_emit_op OP_MAP_SET (emit_push_str name (emit_expr fo a e))"
| "emit_lvalue_store fo _ e = e"

section \<open>Statements\<close>

text \<open>The targets of \<open>ON CALL\<close>: procedures with consecutive slots.\<close>

definition target_slot :: "bucc_emitter_t \<Rightarrow> bucc_expr \<Rightarrow> u32 option" where
  "target_slot e t =
     (case t of
        NODE_EXPR_IDENT name \<Rightarrow>
          (case lookup_symbol e name of
             Some symb \<Rightarrow> if is_callable symb then Some (sym_slot symb) else None
           | None \<Rightarrow> None)
      | _ \<Rightarrow> None)"

definition resolve_on_call_base :: "bucc_emitter_t \<Rightarrow> bucc_expr list \<Rightarrow> (u16 \<times> u8) option" where
  "resolve_on_call_base e targets =
     (if targets = [] \<or> 255 < length targets \<or> (\<exists>t \<in> set targets. target_slot e t = None) then None
      else
        (let ids = map (\<lambda>t. the (target_slot e t)) targets; base = hd ids in
         if list_all (\<lambda>i. unat (ids ! i) = unat base + i) [1..<length ids] \<and> base \<le> 0xFFFF
         then Some (ucast base, word_of_nat (length targets)) else None))"

definition bucc_emit_error :: "bucc_emitter_t \<Rightarrow> bucc_emitter_t" where
  "bucc_emit_error e = e\<lparr>em_errors := em_errors e + 1\<rparr>"

text \<open>A slot for a new local variable: the value on top of the stack is stored in it.\<close>

definition emit_new_local :: "bucc_emitter_t \<Rightarrow> bucc_emitter_t" where
  "emit_new_local e = (bucc_emit_op_u16 OP_STORE_LOCAL (ucast (em_local_count e)) e)\<lparr>em_local_count := em_local_count e + 1\<rparr>"

definition emit_opt_expr :: "float_ops \<Rightarrow> bucc_expr option \<Rightarrow> bucc_emitter_t \<Rightarrow> bucc_emitter_t" where
  "emit_opt_expr fo x e = (case x of Some x \<Rightarrow> emit_expr fo x e | None \<Rightarrow> bucc_emit_op OP_PUSH_NULL e)"

fun emit_case_values :: "float_ops \<Rightarrow> nat \<Rightarrow> bucc_expr list \<Rightarrow> bucc_emitter_t \<Rightarrow> bucc_emitter_t" where
  "emit_case_values fo body [] e = e"
| "emit_case_values fo body (v # vs) e =
     emit_case_values fo body vs (bucc_emit_jump OP_JMP_TRUE body (bucc_emit_op OP_EQ (emit_expr fo v (bucc_emit_op OP_DUP e))))"

fun emit_case_ranges :: "float_ops \<Rightarrow> nat \<Rightarrow> (bucc_expr \<times> bucc_expr) list \<Rightarrow> bucc_emitter_t \<Rightarrow> bucc_emitter_t" where
  "emit_case_ranges fo body [] e = e"
| "emit_case_ranges fo body ((lo, hi) # rs) e =
     emit_case_ranges fo body rs
       (bucc_emit_jump OP_JMP_TRUE body
         (bucc_emit_byte 0 (bucc_emit_op_u16 OP_RANGE_TEST 0 (emit_expr fo hi (emit_expr fo lo (bucc_emit_op OP_DUP e))))))"

text \<open>Entering a loop saves the labels of the loop around it, leaving it restores them.\<close>

definition set_loop :: "nat \<Rightarrow> nat \<Rightarrow> bucc_emitter_t \<Rightarrow> bucc_emitter_t" where
  "set_loop start stop e = e\<lparr>em_loop_start_label := start, em_loop_end_label := stop\<rparr>"

fun emit_stmt :: "float_ops \<Rightarrow> bucc_stmt \<Rightarrow> bucc_emitter_t \<Rightarrow> bucc_emitter_t"
  and emit_node :: "float_ops \<Rightarrow> bucc_stmt_node \<Rightarrow> bucc_emitter_t \<Rightarrow> bucc_emitter_t"
  and emit_block :: "float_ops \<Rightarrow> bucc_stmt list \<Rightarrow> bucc_emitter_t \<Rightarrow> bucc_emitter_t"
  and emit_elseifs :: "float_ops \<Rightarrow> nat \<Rightarrow> bucc_elseif list \<Rightarrow> bucc_emitter_t \<Rightarrow> bucc_emitter_t"
  and emit_cases :: "float_ops \<Rightarrow> nat \<Rightarrow> bucc_case list \<Rightarrow> bucc_emitter_t \<Rightarrow> bucc_emitter_t" where
  "emit_stmt fo (Stmt line col node) e =
     emit_node fo node (if em_emit_debug_info e \<and> line > 0 then bucc_emit_debug_line line col e else e)"
| "emit_node fo (NODE_STMT_VAR_DECL name init) e = emit_new_local (emit_opt_expr fo init e)"
| "emit_node fo (NODE_STMT_ASSIGN target v) e = emit_lvalue_store fo target (emit_expr fo v e)"
| "emit_node fo (NODE_STMT_EXPR x) e = bucc_emit_op OP_POP (emit_expr fo x e)"
| "emit_node fo (NODE_STMT_IF c thens elseifs elses) e =
     (let (else_label, e) = bucc_emit_label e;
          (end_label, e) = bucc_emit_label e;
          e = bucc_emit_jump OP_JMP_FALSE else_label (emit_expr fo c e);
          e = bucc_emit_jump OP_JMP end_label (emit_block fo thens e);
          e = bucc_emit_label_here else_label e;
          e = emit_elseifs fo end_label elseifs e;
          e = emit_block fo elses e
      in bucc_emit_label_here end_label e)"
| "emit_node fo (NODE_STMT_SELECT x cases elses) e =
     (let (end_label, e) = bucc_emit_label e;
          e = emit_cases fo end_label cases (emit_expr fo x e);
          e = emit_block fo elses (bucc_emit_op OP_POP e)
      in bucc_emit_label_here end_label e)"
| "emit_node fo (NODE_STMT_WHILE c body) e =
     (let (start_label, e) = bucc_emit_label e;
          (end_label, e) = bucc_emit_label e;
          saved_start = em_loop_start_label e; saved_end = em_loop_end_label e;
          e = bucc_emit_label_here start_label (set_loop start_label end_label e);
          e = bucc_emit_jump OP_JMP_FALSE end_label (emit_expr fo c e);
          e = bucc_emit_jump OP_JMP start_label (emit_block fo body e)
      in set_loop saved_start saved_end (bucc_emit_label_here end_label e))"
| "emit_node fo (NODE_STMT_DO_LOOP body c kind) e =
     (let (start_label, e) = bucc_emit_label e;
          (end_label, e) = bucc_emit_label e;
          saved_start = em_loop_start_label e; saved_end = em_loop_end_label e;
          e = bucc_emit_label_here start_label (set_loop start_label end_label e);
          e = emit_block fo body e;
          e = (case c of
                 Some c \<Rightarrow> bucc_emit_jump (if kind = LOOP_UNTIL then OP_JMP_FALSE else OP_JMP_TRUE) start_label (emit_expr fo c e)
               | None \<Rightarrow> bucc_emit_jump OP_JMP start_label e)
      in set_loop saved_start saved_end (bucc_emit_label_here end_label e))"
| "emit_node fo (NODE_STMT_FOR var start final step body) e =
     (let (start_label, e) = bucc_emit_label e;
          (end_label, e) = bucc_emit_label e;
          saved_start = em_loop_start_label e; saved_end = em_loop_end_label e;
          e = emit_expr fo start (set_loop start_label end_label e);
          var_slot = ucast (em_local_count e);
          e = bucc_emit_label_here start_label (emit_new_local e);
          e = emit_expr fo final (bucc_emit_op_u16 OP_LOAD_LOCAL var_slot e);
          e = bucc_emit_jump OP_JMP_FALSE end_label (bucc_emit_op OP_LE e);
          e = bucc_emit_op_u16 OP_LOAD_LOCAL var_slot (emit_block fo body e);
          e = (case step of
                 Some s \<Rightarrow> emit_expr fo s e
               | None \<Rightarrow> emit_indexed OP_PUSH_I64 (bucc_emit_constant_i64 1 e));
          e = bucc_emit_op_u16 OP_STORE_LOCAL var_slot (bucc_emit_op OP_ADD e);
          e = bucc_emit_jump OP_JMP start_label e
      in set_loop saved_start saved_end (bucc_emit_label_here end_label e))"
| "emit_node fo (NODE_STMT_TRY_CATCH body var handler) e =
     (let (catch_label, e) = bucc_emit_label e;
          (end_label, e) = bucc_emit_label e;
          e = emit_block fo body (bucc_emit_jump OP_TRY_BEGIN catch_label e);
          e = bucc_emit_jump OP_JMP end_label (bucc_emit_op OP_TRY_END e);
          e = bucc_emit_label_here catch_label e;
          e = (case var of Some _ \<Rightarrow> emit_new_local e | None \<Rightarrow> bucc_emit_op OP_POP e)
      in bucc_emit_label_here end_label (emit_block fo handler e))"
| "emit_node fo (NODE_STMT_RETURN v) e =
     (case v of Some x \<Rightarrow> bucc_emit_op OP_RETURN_VALUE (emit_expr fo x e) | None \<Rightarrow> bucc_emit_op OP_RETURN e)"
| "emit_node fo NODE_STMT_EXIT e = bucc_emit_jump OP_JMP (em_loop_end_label e) e"
| "emit_node fo NODE_STMT_HALT e = bucc_emit_op OP_HALT e"
| "emit_node fo (NODE_STMT_THROW x) e = bucc_emit_op OP_THROW (emit_expr fo x e)"
| "emit_node fo (NODE_STMT_CHAIN target args) e =
     (let (i, e) = bucc_emit_string target e in
      case args of
        Some x \<Rightarrow> bucc_emit_byte 1 (bucc_emit_op_u16 OP_CHAIN (word_of_nat i) (emit_expr fo x e))
      | None \<Rightarrow> bucc_emit_byte 0 (bucc_emit_op_u16 OP_CHAIN (word_of_nat i) e))"
| "emit_node fo (NODE_STMT_ON_CALL selector targets) e =
     (case resolve_on_call_base e targets of
        None \<Rightarrow> bucc_emit_error e
      | Some (base, n) \<Rightarrow> bucc_emit_byte n (bucc_emit_op_u16 OP_DISPATCH_CALL base (emit_expr fo selector e)))"
| "emit_node fo NODE_STMT_OTHER e = e"
| "emit_block fo [] e = e"
| "emit_block fo (s # ss) e = emit_block fo ss (emit_stmt fo s e)"
| "emit_elseifs fo end_label [] e = e"
| "emit_elseifs fo end_label (ElseIf c thens # cs) e =
     (let (next_label, e) = bucc_emit_label e;
          e = bucc_emit_jump OP_JMP_FALSE next_label (emit_expr fo c e);
          e = bucc_emit_jump OP_JMP end_label (emit_block fo thens e)
      in emit_elseifs fo end_label cs (bucc_emit_label_here next_label e))"
| "emit_cases fo end_label [] e = e"
| "emit_cases fo end_label (NODE_STMT_CASE vs los his body # cs) e =
     (let (next_case, e) = bucc_emit_label e;
          (case_body, e) = bucc_emit_label e;
          e = emit_case_values fo case_body vs e;
          e = emit_case_ranges fo case_body (zip los his) e;
          e = bucc_emit_label_here case_body (bucc_emit_jump OP_JMP next_case e);
          e = emit_block fo body (bucc_emit_op OP_POP e);
          e = bucc_emit_jump OP_JMP end_label e
      in emit_cases fo end_label cs (bucc_emit_label_here next_case e))"

section \<open>Procedures and modules\<close>

definition emit_body ::
    "float_ops \<Rightarrow> bytes \<Rightarrow> bytes list \<Rightarrow> bool \<Rightarrow> bytes \<Rightarrow> bucc_stmt list \<Rightarrow> bucc_emitter_t \<Rightarrow> bucc_emitter_t" where
  "emit_body fo name params is_function epilogue body e =
     (let offset = word_of_nat (length (em_code e));
          param_count = word_of_nat (length params);
          id = word_of_nat (length (em_procedures e));
          e' = bucc_emit_bytes epilogue (emit_block fo body (e\<lparr>em_local_count := param_count\<rparr>))
      in e'\<lparr>em_procedures :=
           \<lparr>p_name = Some name, p_id = id, p_code_offset = offset,
            p_code_len = word_of_nat (length (em_code e')) - offset, p_param_count = param_count,
            p_local_count = em_local_count e', p_is_function = is_function\<rparr> # em_procedures e'\<rparr>)"

definition emit_procedure :: "float_ops \<Rightarrow> bytes \<Rightarrow> bytes list \<Rightarrow> bucc_stmt list \<Rightarrow> bucc_emitter_t \<Rightarrow> bucc_emitter_t" where
  "emit_procedure fo name params body = emit_body fo name params False [OP_RETURN] body"

definition emit_function :: "float_ops \<Rightarrow> bytes \<Rightarrow> bytes list \<Rightarrow> bucc_stmt list \<Rightarrow> bucc_emitter_t \<Rightarrow> bucc_emitter_t" where
  "emit_function fo name params body = emit_body fo name params True [OP_PUSH_NULL, OP_RETURN_VALUE] body"

fun emit_decl :: "float_ops \<Rightarrow> bucc_decl \<Rightarrow> bucc_emitter_t \<Rightarrow> bucc_emitter_t" where
  "emit_decl fo (NODE_PROC_DECL name params body) e = emit_procedure fo name params body e"
| "emit_decl fo (NODE_FUNC_DECL name params body) e = emit_function fo name params body e"

text \<open>The globals' initialisers are not compiled.\<close>

definition bucc_emit_module :: "float_ops \<Rightarrow> bucc_ast_module \<Rightarrow> bucc_emitter_t \<Rightarrow> bool \<times> bucc_emitter_t" where
  "bucc_emit_module fo m e =
     (let e = bucc_emit_resolve_patches (fold (emit_decl fo) (ast_procedures m) e) in (em_errors e = 0, e))"

definition import_entry :: "nat \<Rightarrow> bytes \<times> bytes \<Rightarrow> bucc_module_import_t" where
  "import_entry i = (\<lambda>(ns, fn). \<lparr>i_ns = Some ns, i_fn = Some fn, i_id = word_of_nat i\<rparr>)"

text \<open>A table without entries is NULL.\<close>

definition table :: "'a list \<Rightarrow> 'a list option" where
  "table xs = (if xs = [] then None else Some xs)"

definition bucc_emitter_to_module :: "bucc_emitter_t \<Rightarrow> bucc_module_t" where
  "bucc_emitter_to_module e =
     \<lparr>mod_header = zero_header\<lparr>magic := BUCC_MAGIC, format_major := BUCC_FORMAT_MAJOR, format_minor := BUCC_FORMAT_MINOR,
        flags := 0, header_size := word_of_nat HEADER_SIZE\<rparr>,
      mod_strings = Some (map Some (rev (em_strings e))), string_count = word_of_nat (length (em_strings e)),
      mod_constants = table (rev (em_constants e)), const_count = word_of_nat (length (em_constants e)),
      mod_procs = table (rev (em_procedures e)), proc_count = word_of_nat (length (em_procedures e)),
      mod_imports = table (map (\<lambda>(i, x). import_entry i x) (enumerate 0 (rev (em_imports e)))),
      import_count = word_of_nat (length (em_imports e)),
      bytecode = table (em_code e), bytecode_len = word_of_nat (length (em_code e))\<rparr>"

end
