(* ===== verification/Bucc_Layout.thy ===== *)
theory Bucc_Layout
  imports Bucc_Emit Bucc_Machine
begin

text \<open>
  The layout of the code that the Buccaneer compiler (\<^verbatim>\<open>src/buccaneer/emit.c\<close>) writes: whole
  instructions, each with the operand bytes the machine reads, and jumps that lead to instructions.

  \<^item> \<open>code_of\<close> writes a list of instructions; \<open>place\<close> is the offset of the k-th one.
  \<^item> \<open>emitted\<close> says that the code of an emitter is such a list, and where its patches, labels and
    procedures point. Every function of the emitter extends it (\<open>emits\<close>, \<open>grows\<close>), by induction on the
    syntax trees; \<open>emits_rules\<close> collects the rules.
  \<^item> Resolving the patches turns every jump into one that lands (\<open>sound_code\<close>).
  \<^item> The bytecode check of \<open>Bucc_Module\<close> is measured against the same operand sizes of the machine.
\<close>

section \<open>Code as a list of instructions\<close>

type_synonym instr = "u8 \<times> bytes"

definition instr_bytes :: "instr \<Rightarrow> bytes" where
  "instr_bytes i = fst i # snd i"

definition code_of :: "instr list \<Rightarrow> bytes" where
  "code_of is = concat (map instr_bytes is)"

text \<open>
  The operand bytes the machine reads after an opcode, instruction by instruction as its switch
  (\<^verbatim>\<open>bucc_vm_step\<close> of \<^verbatim>\<open>src/buccaneer/vm.c\<close>) reads them; \<^term>\<open>None\<close> for a byte that is no
  opcode. That the machine reads just these bytes is used, for every instruction, in \<open>Bucc_Control\<close>.
\<close>

definition operand_count :: "u8 \<Rightarrow> nat option" where
  "operand_count op =
     (if op \<in> {OP_PUSH_I64, OP_PUSH_F64, OP_PUSH_STR, OP_PUSH_DATE, OP_PUSH_DATETIME, OP_LOAD_GLOBAL, OP_STORE_GLOBAL,
               OP_LOAD_LOCAL, OP_STORE_LOCAL, OP_LOAD_ARG, OP_ARRAY_NEW, OP_MAP_NEW, OP_DEBUG_LINE} then Some 2
      else if op \<in> {OP_CALL, OP_CALL_HOST, OP_CHAIN, OP_DISPATCH_CALL, OP_RANGE_TEST} then Some 3
      else if op \<in> {OP_JMP, OP_JMP_FALSE, OP_JMP_TRUE, OP_TRY_BEGIN} then Some 4
      else if op \<in> {OP_NOP, OP_HALT, OP_PUSH_NULL, OP_PUSH_TRUE, OP_PUSH_FALSE, OP_POP, OP_DUP, OP_SWAP,
                    OP_ADD, OP_SUB, OP_MUL, OP_DIV, OP_MOD, OP_NEG, OP_EQ, OP_NE, OP_LT, OP_LE, OP_GT, OP_GE,
                    OP_AND, OP_OR, OP_NOT, OP_CONCAT, OP_RETURN, OP_RETURN_VALUE, OP_YIELD,
                    OP_ARRAY_GET, OP_ARRAY_SET, OP_ARRAY_PUSH, OP_ARRAY_POP, OP_MAP_GET, OP_MAP_SET, OP_MAP_HAS,
                    OP_MAP_KEYS, OP_TRY_END, OP_THROW, OP_RE_THROW, OP_CAST_I64, OP_CAST_F64, OP_CAST_STRING,
                    OP_CAST_BOOL, OP_CAST_DATE, OP_CAST_DATETIME, OP_TYPEOF, OP_PROF_TICK} then Some 0
      else None)"

definition wf_instr :: "instr \<Rightarrow> bool" where
  "wf_instr i \<longleftrightarrow> operand_count (fst i) = Some (length (snd i))"

lemma code_of_simps [simp]:
  "code_of [] = []" "code_of (i # is) = fst i # snd i @ code_of is" "code_of (is @ js) = code_of is @ code_of js"
  by (simp_all add: code_of_def instr_bytes_def)

text \<open>The place of the \<open>k\<close>-th instruction.\<close>

definition place :: "instr list \<Rightarrow> nat \<Rightarrow> nat" where
  "place is k = length (code_of (take k is))"

lemma place_append [simp]: "k \<le> length is \<Longrightarrow> place (is @ js) k = place is k"
  by (simp add: place_def)

lemma place_end: "place is (length is) = length (code_of is)"
  by (simp add: place_def)

lemma length_code_of_update:
  "k < length is \<Longrightarrow> length (snd i) = length (snd (is ! k)) \<Longrightarrow> place (is[k := i]) j = place is j"
proof (induction "is" arbitrary: k j)
  case (Cons a as)
  then show ?case by (cases k; cases j) (simp_all add: place_def)
qed simp

lemma place_Suc: "k < length is \<Longrightarrow> place is (Suc k) = place is k + 1 + length (snd (is ! k))"
  by (simp add: place_def take_Suc_conv_app_nth)

lemma code_split: "k < length is \<Longrightarrow> code_of is = code_of (take k is) @ fst (is ! k) # snd (is ! k) @ code_of (drop (Suc k) is)"
  by (metis append_take_drop_id code_of_simps(2,3) id_take_nth_drop)

lemma write_operands:
  assumes "k < length is" "length bs = length (snd (is ! k))"
  shows "write_at (place is k + 1) bs (code_of is) = code_of (is[k := (fst (is ! k), bs)])"
proof -
  have "code_of (is[k := (fst (is ! k), bs)]) = code_of (take k is) @ fst (is ! k) # bs @ code_of (drop (Suc k) is)"
    using assms(1) by (simp add: upd_conv_take_nth_drop)
  moreover have "write_at (place is k + 1) bs (code_of is) = code_of (take k is) @ fst (is ! k) # bs @ code_of (drop (Suc k) is)"
    using assms(2) by (simp add: write_at_def place_def code_split [OF assms(1)])
  ultimately show ?thesis by simp
qed

section \<open>What the emitter has written\<close>

text \<open>
  \<open>emitted is e\<close>: the code is the list of instructions \<open>is\<close>, each with the operands its opcode needs;
  every patch is the operand of one of them, a jump; every label and every procedure is the place of one,
  or the end of the code.
\<close>

definition is_place :: "instr list \<Rightarrow> u32 \<Rightarrow> bool" where
  "is_place is off \<longleftrightarrow> (\<exists>j \<le> length is. off = word_of_nat (place is j))"

definition is_patch :: "instr list \<Rightarrow> bucc_patch_t \<Rightarrow> bool" where
  "is_patch is p \<longleftrightarrow> (\<exists>k < length is. length (snd (is ! k)) = 4 \<and> pt_offset p = word_of_nat (place is k + 1))"

definition jump_op :: "u8 \<Rightarrow> bool" where
  "jump_op op \<longleftrightarrow> op \<in> {OP_JMP, OP_JMP_FALSE, OP_JMP_TRUE, OP_TRY_BEGIN}"

definition emitted :: "instr list \<Rightarrow> bucc_emitter_t \<Rightarrow> bool" where
  "emitted is e \<longleftrightarrow>
     em_code e = code_of is \<and> list_all wf_instr is \<and> (\<forall>p \<in> set (em_patches e). is_patch is p) \<and>
     (\<forall>l \<in> set (em_labels e). \<forall>off \<in> set l. is_place is off) \<and>
     (\<forall>q \<in> set (em_procedures e). is_place is (p_code_offset q)) \<and>
     (\<forall>i \<in> set is. jump_op (fst i) \<longrightarrow> snd i = [0, 0, 0, 0])"

text \<open>What a piece of code adds: instructions, and neither symbols nor procedures.\<close>

definition grows :: "bucc_emitter_t \<Rightarrow> bucc_emitter_t \<Rightarrow> bool" where
  "grows e e' \<longleftrightarrow> (\<forall>is. emitted is e \<longrightarrow> (\<exists>js. emitted (is @ js) e'))"

text \<open>Jump operands at the offsets \<open>qs\<close>, the last one first, each in an instruction of its own between \<open>lo\<close> and \<open>hi\<close>.\<close>

fun spaced :: "nat \<Rightarrow> nat list \<Rightarrow> nat \<Rightarrow> bool" where
  "spaced lo [] hi \<longleftrightarrow> lo \<le> hi"
| "spaced lo (q # qs) hi \<longleftrightarrow> q + 4 \<le> hi \<and> 0 < q \<and> spaced lo qs (q - 1)"

text \<open>The places of a label, the last one first.\<close>

definition label_of :: "bucc_emitter_t \<Rightarrow> nat \<Rightarrow> u32 list" where
  "label_of e l = (if l < length (em_labels e) then em_labels e ! l else [])"

text \<open>Code, constants, patches and places of labels are only added to.\<close>

definition extends :: "bucc_emitter_t \<Rightarrow> bucc_emitter_t \<Rightarrow> bool" where
  "extends e e' \<longleftrightarrow> (\<exists>bs. em_code e' = em_code e @ bs) \<and> (\<exists>cs. em_constants e' = cs @ em_constants e) \<and>
     (\<forall>l. set (label_of e l) \<subseteq> set (label_of e' l)) \<and>
     (\<exists>ps qs. em_patches e' = ps @ em_patches e \<and> map pt_offset ps = map word_of_nat qs \<and>
        spaced (length (em_code e)) qs (length (em_code e')))"

definition emits :: "bucc_emitter_t \<Rightarrow> bucc_emitter_t \<Rightarrow> bool" where
  "emits e e' \<longleftrightarrow> grows e e' \<and> extends e e' \<and> em_scope e' = em_scope e \<and> em_procedures e' = em_procedures e"

named_theorems emits_rules

lemma grows_refl: "grows e e"
  by (auto simp: grows_def intro: exI [of _ "[]"])

lemma grows_trans: "grows e e' \<Longrightarrow> grows e' e'' \<Longrightarrow> grows e e''"
  unfolding grows_def by (metis append.assoc)

lemma spaced_mono: "spaced lo qs hi \<Longrightarrow> hi \<le> hi' \<Longrightarrow> spaced lo qs hi'"
  by (cases qs) simp_all

lemma spaced_append: "spaced lo qs mid \<Longrightarrow> spaced mid ps hi \<Longrightarrow> spaced lo (ps @ qs) hi"
proof (induction ps arbitrary: hi)
  case Nil
  then show ?case by (simp add: spaced_mono)
qed simp

lemma extends_trans:
  assumes "extends e e'" "extends e' e''"
  shows "extends e e''"
proof -
  obtain bs cs ps qs where a: "em_code e' = em_code e @ bs" "em_constants e' = cs @ em_constants e" "em_patches e' = ps @ em_patches e"
      "map pt_offset ps = map word_of_nat qs" "spaced (length (em_code e)) qs (length (em_code e'))"
    using assms(1) by (auto simp: extends_def)
  obtain bs' cs' ps' qs' where b: "em_code e'' = em_code e' @ bs'" "em_constants e'' = cs' @ em_constants e'"
      "em_patches e'' = ps' @ em_patches e'" "map pt_offset ps' = map word_of_nat qs'"
      "spaced (length (em_code e')) qs' (length (em_code e''))"
    using assms(2) by (auto simp: extends_def)
  have "spaced (length (em_code e)) (qs' @ qs) (length (em_code e''))" using a(5) b(5) by (rule spaced_append)
  moreover have "set (label_of e l) \<subseteq> set (label_of e'' l)" for l using assms unfolding extends_def by blast
  ultimately show ?thesis
    unfolding extends_def using a b by (intro conjI exI [of _ "ps' @ ps"] exI [of _ "qs' @ qs"]) auto
qed

lemma extends_code:
  "em_code e' = em_code e @ bs \<Longrightarrow> em_patches e' = em_patches e \<Longrightarrow> em_constants e' = cs @ em_constants e \<Longrightarrow>
   (\<And>l. set (label_of e l) \<subseteq> set (label_of e' l)) \<Longrightarrow> extends e e'"
  by (auto simp: extends_def intro: exI [of _ "[]"])

lemma emits_refl [emits_rules]: "emits e e"
  using extends_code [of e e "[]" "[]"] by (simp add: emits_def grows_refl)

lemma emits_trans: "emits e e' \<Longrightarrow> emits e' e'' \<Longrightarrow> emits e e''"
  unfolding emits_def using grows_trans extends_trans by auto

lemma emitsI:
  "(\<And>is. emitted is e \<Longrightarrow> emitted (is @ js) e') \<Longrightarrow> extends e e' \<Longrightarrow> em_scope e' = em_scope e \<Longrightarrow>
   em_procedures e' = em_procedures e \<Longrightarrow> emits e e'"
  by (auto simp: emits_def grows_def)

lemma is_place_append: "is_place is off \<Longrightarrow> is_place (is @ js) off"
  unfolding is_place_def
proof (elim exE conjE)
  fix j assume "j \<le> length is" "off = word_of_nat (place is j)"
  then show "\<exists>j\<le>length (is @ js). off = word_of_nat (place (is @ js) j)" by (intro exI [of _ j]) simp
qed

lemma is_patch_append: "is_patch is p \<Longrightarrow> is_patch (is @ js) p"
  by (fastforce simp: is_patch_def nth_append)

lemma emitted_append:
  assumes "emitted is e" "em_code e' = em_code e @ code_of js" "list_all wf_instr js"
    "em_patches e' = em_patches e" "em_labels e' = em_labels e" "em_procedures e' = em_procedures e"
    "\<forall>i \<in> set js. \<not> jump_op (fst i)"
  shows "emitted (is @ js) e'"
  using assms by (auto simp: emitted_def intro: is_place_append is_patch_append)

text \<open>A step that leaves the code and what refers to it alone.\<close>

definition same_code :: "bucc_emitter_t \<Rightarrow> bucc_emitter_t \<Rightarrow> bool" where
  "same_code e e' \<longleftrightarrow> em_code e' = em_code e \<and> em_patches e' = em_patches e \<and> em_procedures e' = em_procedures e \<and>
     em_labels e' = em_labels e \<and> em_scope e' = em_scope e \<and> (\<exists>cs. em_constants e' = cs @ em_constants e)"

lemma same_code_emits:
  assumes "emits e0 e" "same_code e e'"
  shows "emits e0 e'"
proof -
  obtain cs where "em_constants e' = cs @ em_constants e" using assms(2) by (auto simp: same_code_def)
  then have "extends e e'" using assms(2) extends_code [of e' e "[]" cs] by (simp add: same_code_def label_of_def)
  then have "emits e e'"
    using assms(2) by (intro emitsI [of _ "[]"]) (simp_all add: emitted_def same_code_def)
  then show ?thesis using assms(1) emits_trans by blast
qed

lemma same_code_tables:
  "same_code e (snd (bucc_emit_string s e))" "same_code e (snd (bucc_emit_constant_i64 n e))"
  "same_code e (snd (bucc_emit_constant_f64 fo d e))" "same_code e (snd (add_constant v e))"
  "same_code e (snd (bucc_emit_host_import ns fn e))"
  by (auto simp: same_code_def bucc_emit_string_def bucc_emit_constant_i64_def bucc_emit_constant_f64_def add_constant_def
      bucc_emit_host_import_def split: option.splits)

lemmas emits_tables [emits_rules] = same_code_tables [THEN same_code_emits [rotated]]

lemma emits_op:
  assumes "emits e0 e" "operand_count op = Some 0" "\<not> jump_op op"
  shows "emits e0 (bucc_emit_op op e)"
proof -
  have "emits e (bucc_emit_op op e)"
    using assms(2,3)
    by (intro emitsI [of _ "[(op, [])]"] emitted_append extends_code [of _ _ "code_of [(op, [])]" "[]"])
      (auto simp: bucc_emit_op_def bucc_emit_byte_def bucc_emit_bytes_def wf_instr_def label_of_def)
  then show ?thesis using assms(1) emits_trans by blast
qed

lemma emits_op_u16:
  assumes "emits e0 e" "operand_count op = Some 2" "\<not> jump_op op"
  shows "emits e0 (bucc_emit_op_u16 op w e)"
proof -
  have "emits e (bucc_emit_op_u16 op w e)"
    using assms(2,3)
    by (intro emitsI [of _ "[(op, [ucast (drop_bit 8 w), ucast w])]"] emitted_append extends_code [of _ _ "code_of [(op, [ucast (drop_bit 8 w), ucast w])]" "[]"])
      (auto simp: bucc_emit_op_u16_def bucc_emit_u16_def bucc_emit_byte_def bucc_emit_bytes_def wf_instr_def label_of_def)
  then show ?thesis using assms(1) emits_trans by blast
qed

lemma emits_op_u16_u8:
  assumes "emits e0 e" "operand_count op = Some 3" "\<not> jump_op op"
  shows "emits e0 (bucc_emit_byte b (bucc_emit_op_u16 op w e))"
proof -
  have "emits e (bucc_emit_byte b (bucc_emit_op_u16 op w e))"
    using assms(2,3)
    by (intro emitsI [of _ "[(op, [ucast (drop_bit 8 w), ucast w, b])]"] emitted_append extends_code [of _ _ "code_of [(op, [ucast (drop_bit 8 w), ucast w, b])]" "[]"])
      (auto simp: bucc_emit_op_u16_def bucc_emit_u16_def bucc_emit_byte_def bucc_emit_bytes_def wf_instr_def label_of_def)
  then show ?thesis using assms(1) emits_trans by blast
qed

lemma jump_opcodes:
  "operand_count OP_JMP = Some 4" "operand_count OP_JMP_FALSE = Some 4" "operand_count OP_JMP_TRUE = Some 4"
  "operand_count OP_TRY_BEGIN = Some 4"
  by (simp_all add: operand_count_def)

lemma jump_op_operands: "jump_op op \<Longrightarrow> operand_count op = Some 4"
  unfolding jump_op_def using jump_opcodes by blast

lemma emits_jump:
  assumes "emits e0 e" "jump_op op"
  shows "emits e0 (bucc_emit_jump op l e)"
proof -
  have n: "operand_count op = Some 4" using assms(2) by (rule jump_op_operands)
  have "emitted (is @ [(op, [0, 0, 0, 0])]) (bucc_emit_jump op l e)" if "emitted is e" for "is"
  proof -
    let ?js = "is @ [(op, [0, 0, 0, 0 :: u8])]"
    have "is_patch ?js \<lparr>pt_offset = word_of_nat (length (em_code e @ [op])), pt_label_id = l\<rparr>"
      unfolding is_patch_def using that
      by (intro exI [of _ "length is"]) (simp add: emitted_def nth_append place_def)
    then show ?thesis using that n
      by (auto simp: emitted_def bucc_emit_jump_def bucc_emit_i32_def bucc_emit_u32_def u32_bytes_def bucc_emit_byte_def
          bucc_emit_bytes_def wf_instr_def Let_def intro: is_place_append is_patch_append)
  qed
  moreover have "extends e (bucc_emit_jump op l e)"
    unfolding extends_def
    by (intro conjI exI [of _ "[\<lparr>pt_offset = word_of_nat (length (em_code e) + 1), pt_label_id = l\<rparr>]"] exI [of _ "[length (em_code e) + 1]"])
      (simp_all add: bucc_emit_jump_def Let_def bucc_emit_i32_def bucc_emit_u32_def u32_bytes_def bucc_emit_byte_def bucc_emit_bytes_def label_of_def)
  ultimately have "emits e (bucc_emit_jump op l e)"
    by (rule emitsI) (simp_all add: bucc_emit_jump_def Let_def bucc_emit_i32_def bucc_emit_u32_def bucc_emit_byte_def bucc_emit_bytes_def)
  then show ?thesis using assms(1) emits_trans by blast
qed

lemma emits_label: "emits e0 e \<Longrightarrow> emits e0 (snd (bucc_emit_label e))"
proof -
  have "emitted is e \<Longrightarrow> emitted is (snd (bucc_emit_label e))" for "is"
    by (auto simp: emitted_def bucc_emit_label_def Let_def)
  then have "emits e (snd (bucc_emit_label e))"
    by (intro emitsI [of _ "[]"] extends_code [of _ _ "[]" "[]"]) (simp_all add: bucc_emit_label_def Let_def label_of_def nth_append)
  then show "emits e0 e \<Longrightarrow> emits e0 (snd (bucc_emit_label e))" using emits_trans by blast
qed

lemma emits_label_here: "emits e0 e \<Longrightarrow> emits e0 (bucc_emit_label_here l e)"
proof -
  have "emitted is (bucc_emit_label_here l e)" if em: "emitted is e" for "is"
  proof (cases "length (em_labels e) \<le> l")
    case False
    have "is_place is (word_of_nat (length (em_code e)))"
      unfolding is_place_def using em by (intro exI [of _ "length is"]) (simp add: emitted_def place_def)
    moreover have "\<forall>x \<in> set (em_labels e ! l). is_place is x"
    proof -
      have "em_labels e ! l \<in> set (em_labels e)" using False by simp
      then show ?thesis using em unfolding emitted_def by blast
    qed
    ultimately show ?thesis
      using em False by (auto simp: emitted_def bucc_emit_label_here_def dest!: set_update_subset_insert [THEN subsetD])
  qed (use em in \<open>simp add: bucc_emit_label_here_def\<close>)
  then have "emits e (bucc_emit_label_here l e)"
    by (intro emitsI [of _ "[]"] extends_code [of _ _ "[]" "[]"]) (auto simp: bucc_emit_label_here_def label_of_def nth_list_update)
  then show "emits e0 e \<Longrightarrow> emits e0 (bucc_emit_label_here l e)" using emits_trans by blast
qed

declare emits_label [emits_rules] emits_label_here [emits_rules] emits_jump [emits_rules] emits_op [emits_rules]

lemma unary_opcodes [simp]: "operand_count (unary_opcode u) = Some 0" "\<not> jump_op (unary_opcode u)"
  by (cases u; simp add: operand_count_def jump_op_def)+

lemma binary_opcodes [simp]: "operand_count (binary_opcode b) = Some 0" "\<not> jump_op (binary_opcode b)"
  by (cases b; simp add: operand_count_def jump_op_def)+

lemmas opcode_simps = operand_count_def jump_op_def

lemma emits_indexed:
  assumes "emits e0 (snd x)" "operand_count op = Some 2" "\<not> jump_op op"
  shows "emits e0 (emit_indexed op x)"
  using assms by (cases x) (simp add: emit_indexed_def emits_op_u16)

lemma emits_push_str: "emits e0 e \<Longrightarrow> emits e0 (emit_push_str s e)"
  unfolding emit_push_str_def by (intro emits_indexed emits_rules) (simp_all add: opcode_simps)

lemma emits_call_host: "emits e0 e \<Longrightarrow> emits e0 (emit_call_host ns fn n e)"
  unfolding emit_call_host_def emit_indexed_def split_def
  by (intro emits_op_u16_u8 emits_rules) (simp_all add: opcode_simps)

lemma emits_literal: "emits e0 e \<Longrightarrow> emits e0 (emit_literal fo l e)"
  by (cases l) (auto simp: opcode_simps intro!: emits_indexed emits_push_str emits_rules)

lemma emits_ident: "emits e0 e \<Longrightarrow> emits e0 (emit_ident name e)"
  unfolding emit_ident_def
  by (auto simp: opcode_simps split: option.split bucc_symbol_kind_t.split intro!: emits_op emits_op_u16)

lemma emits_call_ident: "emits e0 e \<Longrightarrow> emits e0 (emit_call_ident name n e)"
  unfolding emit_call_ident_def
  by (auto simp: opcode_simps split: option.split intro!: emits_op emits_op_u16_u8)

lemma emits_op_ops:
  assumes "emits e0 e"
  shows "emits e0 (bucc_emit_op (unary_opcode u) e)" "emits e0 (bucc_emit_op (binary_opcode b) e)"
    "emits e0 (bucc_emit_op OP_ARRAY_GET e)" "emits e0 (bucc_emit_op OP_MAP_GET e)" "emits e0 (bucc_emit_op OP_ARRAY_SET e)"
    "emits e0 (bucc_emit_op OP_MAP_SET e)" "emits e0 (bucc_emit_op OP_PUSH_NULL e)" "emits e0 (bucc_emit_op OP_POP e)"
    "emits e0 (bucc_emit_op OP_DUP e)" "emits e0 (bucc_emit_op OP_EQ e)" "emits e0 (bucc_emit_op OP_LE e)"
    "emits e0 (bucc_emit_op OP_ADD e)" "emits e0 (bucc_emit_op OP_TRY_END e)" "emits e0 (bucc_emit_op OP_RETURN e)"
    "emits e0 (bucc_emit_op OP_RETURN_VALUE e)" "emits e0 (bucc_emit_op OP_HALT e)" "emits e0 (bucc_emit_op OP_THROW e)"
  using assms by (simp_all add: emits_op) (simp_all add: emits_op opcode_simps)

lemma emits_op_u16_ops:
  assumes "emits e0 e"
  shows "emits e0 (bucc_emit_op_u16 OP_ARRAY_NEW w e)" "emits e0 (bucc_emit_op_u16 OP_MAP_NEW w e)"
    "emits e0 (bucc_emit_op_u16 OP_LOAD_LOCAL w e)" "emits e0 (bucc_emit_op_u16 OP_STORE_LOCAL w e)"
    "emits e0 (bucc_emit_op_u16 OP_STORE_GLOBAL w e)" "emits e0 (bucc_emit_op_u16 OP_DEBUG_LINE w e)"
    "emits e0 (bucc_emit_byte b (bucc_emit_op_u16 OP_RANGE_TEST w e))"
    "emits e0 (bucc_emit_byte b (bucc_emit_op_u16 OP_CHAIN w e))"
    "emits e0 (bucc_emit_byte b (bucc_emit_op_u16 OP_DISPATCH_CALL w e))"
    "emits e0 (bucc_emit_jump OP_JMP l e)" "emits e0 (bucc_emit_jump OP_JMP_FALSE l e)"
    "emits e0 (bucc_emit_jump OP_JMP_TRUE l e)" "emits e0 (bucc_emit_jump OP_TRY_BEGIN l e)"
  using assms by (simp_all add: emits_op_u16 emits_op_u16_u8 emits_jump opcode_simps)

lemmas emits_code = emits_op_ops emits_op_u16_ops emits_literal emits_ident emits_call_ident emits_call_host emits_push_str

lemma emits_expr:
  "emits e0 e \<Longrightarrow> emits e0 (emit_expr fo x e)" "emits e0 e \<Longrightarrow> emits e0 (emit_exprs fo xs e)"
  "emits e0 e \<Longrightarrow> emits e0 (emit_pairs fo ps e)"
proof (induction fo x e and fo xs e and fo ps e arbitrary: e0 and e0 and e0 rule: emit_expr_emit_exprs_emit_pairs.induct)
  case (4 fo callee args e)
  then show ?case by (auto simp: Let_def emits_code split: bucc_expr.split)
qed (simp_all add: emits_code)

lemma emits_opt_expr: "emits e0 e \<Longrightarrow> emits e0 (emit_opt_expr fo x e)"
  by (simp add: emit_opt_expr_def emits_expr emits_code split: option.split)

lemma emits_lvalue_store: "emits e0 e \<Longrightarrow> emits e0 (emit_lvalue_store fo x e)"
proof (cases x)
  case (NODE_EXPR_IDENT name)
  assume "emits e0 e"
  then show ?thesis using NODE_EXPR_IDENT by (simp add: emits_code split: option.split bucc_symbol_kind_t.split)
qed (simp_all add: emits_code emits_expr)

lemma emits_record:
  assumes "emits e0 e"
  shows "emits e0 (set_loop a b e)" "emits e0 (bucc_emit_error e)" "emits e0 (e\<lparr>em_local_count := n\<rparr>)"
    "emits e0 (snd (bucc_emit_label e))"
  using assms by (simp_all add: same_code_emits same_code_def set_loop_def bucc_emit_error_def emits_label)

lemma emits_new_local: "emits e0 e \<Longrightarrow> emits e0 (emit_new_local e)"
  unfolding emit_new_local_def by (intro emits_record emits_code)

lemma emits_debug_line: "emits e0 e \<Longrightarrow> emits e0 (bucc_emit_debug_line l c e)"
  unfolding bucc_emit_debug_line_def
  by (auto intro!: emits_code same_code_emits [of e0 e] simp: same_code_def)

lemma emits_case_values: "emits e0 e \<Longrightarrow> emits e0 (emit_case_values fo body vs e)"
  by (induction fo body vs e arbitrary: e0 rule: emit_case_values.induct) (simp_all add: emits_code emits_expr)

lemma emits_case_ranges: "emits e0 e \<Longrightarrow> emits e0 (emit_case_ranges fo body rs e)"
  by (induction fo body rs e arbitrary: e0 rule: emit_case_ranges.induct) (simp_all add: emits_code emits_expr)

lemmas emits_parts = emits_code emits_expr emits_opt_expr emits_lvalue_store emits_new_local emits_debug_line
  emits_case_values emits_case_ranges emits_record emits_label_here emits_tables

text \<open>Induction over statements: what holds of a statement's parts holds of it.\<close>

definition good_block :: "float_ops \<Rightarrow> bucc_stmt list \<Rightarrow> bool" where
  "good_block fo b \<longleftrightarrow> (\<forall>e0 e. emits e0 e \<longrightarrow> emits e0 (emit_block fo b e))"

fun elseif_block :: "bucc_elseif \<Rightarrow> bucc_stmt list" where
  "elseif_block (ElseIf c b) = b"

fun case_block :: "bucc_case \<Rightarrow> bucc_stmt list" where
  "case_block (NODE_STMT_CASE vs los his b) = b"

lemma good_blockD: "good_block fo b \<Longrightarrow> emits e0 e \<Longrightarrow> emits e0 (emit_block fo b e)"
  by (simp add: good_block_def)

lemma good_blockI: "(\<And>s e0 e. s \<in> set b \<Longrightarrow> emits e0 e \<Longrightarrow> emits e0 (emit_stmt fo s e)) \<Longrightarrow> good_block fo b"
  unfolding good_block_def by (induction b) simp_all

lemma emits_elseifs: "(\<And>x. x \<in> set es \<Longrightarrow> good_block fo (elseif_block x)) \<Longrightarrow> emits e0 e \<Longrightarrow> emits e0 (emit_elseifs fo l es e)"
proof (induction es arbitrary: e)
  case (Cons x es)
  obtain c b where x: "x = ElseIf c b" by (cases x)
  then have b: "good_block fo b" using Cons.prems(1) [of x] by simp
  have "emits e0 (bucc_emit_label_here (fst (bucc_emit_label e)) (bucc_emit_jump OP_JMP l (emit_block fo b
      (bucc_emit_jump OP_JMP_FALSE (fst (bucc_emit_label e)) (emit_expr fo c (snd (bucc_emit_label e)))))))"
    using Cons.prems(2) by (simp add: emits_parts good_blockD [OF b])
  then show ?case using Cons.IH Cons.prems(1) by (simp add: x Let_def split_def)
qed simp

lemma emits_cases: "(\<And>x. x \<in> set cs \<Longrightarrow> good_block fo (case_block x)) \<Longrightarrow> emits e0 e \<Longrightarrow> emits e0 (emit_cases fo l cs e)"
proof (induction cs arbitrary: e)
  case (Cons x cs)
  obtain vs los his b where x: "x = NODE_STMT_CASE vs los his b" by (cases x)
  then have b: "good_block fo b" using Cons.prems(1) [of x] by simp
  show ?case
    unfolding x emit_cases.simps Let_def split_def
    using Cons.prems(1,2) by (intro Cons.IH) (simp_all add: emits_parts good_blockD [OF b])
qed simp

lemma emits_stmt:
  fixes st :: bucc_stmt and nd :: bucc_stmt_node and ei :: bucc_elseif and ca :: bucc_case
  shows "emits e0 e \<Longrightarrow> emits e0 (emit_stmt fo st e)" "emits e0 e \<Longrightarrow> emits e0 (emit_node fo nd e)"
    "good_block fo (elseif_block ei)" "good_block fo (case_block ca)"
proof (induction st and nd and ei and ca arbitrary: e0 e and e0 e)
  case (NODE_STMT_IF c thens elseifs elses)
  then have "good_block fo thens" "good_block fo elses" by (simp_all add: good_blockI)
  then show ?case using NODE_STMT_IF
    by (simp add: Let_def split_def emits_parts good_blockD emits_elseifs)
next
  case (NODE_STMT_SELECT x cases elses)
  then have "good_block fo elses" by (simp add: good_blockI)
  then show ?case using NODE_STMT_SELECT
    by (simp add: Let_def split_def emits_parts good_blockD emits_cases)
next
  case (NODE_STMT_WHILE c body)
  then have "good_block fo body" by (simp add: good_blockI)
  then show ?case using NODE_STMT_WHILE by (simp add: Let_def split_def emits_parts good_blockD)
next
  case (NODE_STMT_DO_LOOP body c kind)
  then have "good_block fo body" by (simp add: good_blockI)
  then show ?case using NODE_STMT_DO_LOOP
    by (simp add: Let_def split_def emits_parts good_blockD split: option.split)
next
  case (NODE_STMT_FOR var start final step body)
  then have "good_block fo body" by (simp add: good_blockI)
  then show ?case using NODE_STMT_FOR
    by (simp add: Let_def split_def emits_parts good_blockD emits_indexed opcode_simps split: option.split)
next
  case (NODE_STMT_TRY_CATCH body var handler)
  then have "good_block fo body" "good_block fo handler" by (simp_all add: good_blockI)
  then show ?case using NODE_STMT_TRY_CATCH
    by (simp add: Let_def split_def emits_parts good_blockD split: option.split)
qed (simp_all add: emits_parts good_blockI Let_def split_def split: option.split prod.split)

lemma emits_block: "emits e0 e \<Longrightarrow> emits e0 (emit_block fo b e)"
  by (rule good_blockD [OF good_blockI]) (rule emits_stmt(1))

lemma grows_body:
  assumes "epilogue = code_of js" "list_all wf_instr js" "\<forall>i \<in> set js. \<not> jump_op (fst i)"
  shows "grows e (emit_body fo name params fn epilogue body e)"
proof -
  have "\<exists>ks. emitted (is @ ks) (emit_body fo name params fn epilogue body e)" if em: "emitted is e" for "is"
  proof -
    define e1 where "e1 = emit_block fo body (e\<lparr>em_local_count := word_of_nat (length params)\<rparr>)"
    have "emits e e1" unfolding e1_def by (intro emits_block emits_record emits_rules)
    then obtain ks where ks: "emitted (is @ ks) e1" using em by (auto simp: emits_def grows_def)
    let ?e' = "bucc_emit_bytes epilogue e1"
    have e': "emitted ((is @ ks) @ js) ?e'"
      using assms by (intro emitted_append [OF ks]) (simp_all add: bucc_emit_bytes_def)
    have "is_place ((is @ ks) @ js) (word_of_nat (length (em_code e)))"
      unfolding is_place_def using em by (intro exI [of _ "length is"]) (simp add: emitted_def place_def)
    then have "emitted ((is @ ks) @ js) (emit_body fo name params fn epilogue body e)"
      using e' by (simp add: emit_body_def Let_def emitted_def e1_def)
    then show ?thesis by auto
  qed
  then show ?thesis by (simp add: grows_def)
qed

lemma epilogues:
  "[OP_RETURN] = code_of [(OP_RETURN, [])]" "[OP_PUSH_NULL, OP_RETURN_VALUE] = code_of [(OP_PUSH_NULL, []), (OP_RETURN_VALUE, [])]"
  "list_all wf_instr [(OP_RETURN, [])]" "list_all wf_instr [(OP_PUSH_NULL, []), (OP_RETURN_VALUE, [])]"
  by (simp_all add: wf_instr_def opcode_simps)

lemma grows_decl: "grows e (emit_decl fo d e)"
proof (cases d)
  case (NODE_PROC_DECL name params body)
  show ?thesis
    unfolding NODE_PROC_DECL emit_decl.simps emit_procedure_def
    by (rule grows_body [OF epilogues(1,3)]) (simp add: jump_op_def)
next
  case (NODE_FUNC_DECL name params body)
  show ?thesis
    unfolding NODE_FUNC_DECL emit_decl.simps emit_function_def
    by (rule grows_body [OF epilogues(2,4)]) (simp add: jump_op_def)
qed

lemma grows_decls: "grows e (fold (emit_decl fo) ds e)"
proof (induction ds arbitrary: e)
  case (Cons d ds)
  show ?case using grows_trans [OF grows_decl Cons.IH] by simp
qed (simp add: grows_refl)

text \<open>The procedures of a module are numbered in the order of their declarations.\<close>

lemma body_procedures:
  "\<exists>p. em_procedures (emit_body fo name params fn epilogue body e) = p # em_procedures e \<and>
     p_name p = Some name \<and> p_id p = word_of_nat (length (em_procedures e)) \<and> p_code_offset p = word_of_nat (length (em_code e))"
  "em_scope (emit_body fo name params fn epilogue body e) = em_scope e"
proof -
  define e1 where "e1 = emit_block fo body (e\<lparr>em_local_count := word_of_nat (length params)\<rparr>)"
  have "emits e e1" unfolding e1_def by (intro emits_block emits_record emits_rules)
  then have "em_procedures e1 = em_procedures e" "em_scope e1 = em_scope e" by (simp_all add: emits_def)
  then show "\<exists>p. em_procedures (emit_body fo name params fn epilogue body e) = p # em_procedures e \<and>
     p_name p = Some name \<and> p_id p = word_of_nat (length (em_procedures e)) \<and> p_code_offset p = word_of_nat (length (em_code e))"
    "em_scope (emit_body fo name params fn epilogue body e) = em_scope e"
    by (simp_all add: emit_body_def Let_def e1_def bucc_emit_bytes_def)
qed

lemma decl_procedures:
  "\<exists>p. em_procedures (emit_decl fo d e) = p # em_procedures e \<and> p_name p = Some (decl_name d) \<and>
     p_id p = word_of_nat (length (em_procedures e)) \<and> p_code_offset p = word_of_nat (length (em_code e))"
  "em_scope (emit_decl fo d e) = em_scope e"
  by (cases d; simp add: emit_procedure_def emit_function_def body_procedures)+

lemma decls_scope: "em_scope (fold (emit_decl fo) ds e) = em_scope e"
  by (induction ds arbitrary: e) (simp_all add: decl_procedures)

lemma decls_procedures:
  "\<exists>ps. em_procedures (fold (emit_decl fo) ds e) = rev ps @ em_procedures e \<and> length ps = length ds \<and>
     (\<forall>k < length ds. p_name (ps ! k) = Some (decl_name (ds ! k)) \<and> p_id (ps ! k) = word_of_nat (length (em_procedures e) + k) \<and>
        p_code_offset (ps ! k) = word_of_nat (length (em_code (fold (emit_decl fo) (take k ds) e))))"
proof (induction ds arbitrary: e)
  case (Cons d ds)
  obtain p where p: "em_procedures (emit_decl fo d e) = p # em_procedures e" "p_name p = Some (decl_name d)"
    "p_id p = word_of_nat (length (em_procedures e))" "p_code_offset p = word_of_nat (length (em_code e))"
    using decl_procedures(1) by blast
  obtain ps where ps: "em_procedures (fold (emit_decl fo) ds (emit_decl fo d e)) = rev ps @ em_procedures (emit_decl fo d e)"
    "length ps = length ds" "\<forall>k < length ds. p_name (ps ! k) = Some (decl_name (ds ! k)) \<and>
      p_id (ps ! k) = word_of_nat (length (em_procedures (emit_decl fo d e)) + k) \<and>
      p_code_offset (ps ! k) = word_of_nat (length (em_code (fold (emit_decl fo) (take k ds) (emit_decl fo d e))))"
    using Cons.IH [of "emit_decl fo d e"] by blast
  show ?case
    using p ps by (intro exI [of _ "p # ps"]) (auto simp: nth_Cons' take_Cons' gr0_conv_Suc)
qed simp

lemma emitted_new: "emitted [] (bucc_emitter_new sc)" "emitted [] (bucc_emitter_set_debug b (bucc_emitter_new sc))"
  by (auto simp: emitted_def bucc_emitter_new_def bucc_emitter_set_debug_def)

section \<open>Resolving the jumps\<close>

text \<open>A jump is resolved when it leads to the place of an instruction, from behind its own operand.\<close>

definition lands :: "instr list \<Rightarrow> nat \<Rightarrow> bool" where
  "lands is k \<longleftrightarrow> (\<exists>off. is_place is off \<and> snd (is ! k) = u32_bytes (off - word_of_nat (place is k + 5)))"

lemma lands_update:
  assumes "k < length is" "length (snd i) = length (snd (is ! k))" "lands is j" "j \<noteq> k"
  shows "lands (is[k := i]) j"
  using assms by (simp add: lands_def is_place_def length_code_of_update)

lemma apply_patch_lands:
  assumes p: "is_patch is p" and lab: "\<forall>l \<in> set labels. \<forall>off \<in> set l. is_place is off"
    and len: "length (code_of is) < 2 ^ 32" and wf: "list_all wf_instr is"
    and jumps: "\<forall>k < length is. jump_op (fst (is ! k)) \<longrightarrow> lands is k"
  shows "\<exists>js. apply_patch labels p (code_of is) = code_of js \<and> length js = length is \<and> place js = place is \<and>
    map fst js = map fst is \<and> list_all wf_instr js \<and> (\<forall>k < length js. length (snd (js ! k)) = length (snd (is ! k))) \<and>
    (\<forall>k < length js. jump_op (fst (js ! k)) \<longrightarrow> lands js k)"
proof (cases "pt_label_id p < length labels \<and> labels ! pt_label_id p \<noteq> []")
  case True
  then obtain target rest where t: "labels ! pt_label_id p = target # rest" by (cases "labels ! pt_label_id p") auto
  have "labels ! pt_label_id p \<in> set labels" using True by (intro nth_mem) simp
  then have target: "is_place is target" using lab t by (metis list.set_intros(1))
  obtain k where k: "k < length is" "length (snd (is ! k)) = 4" "pt_offset p = word_of_nat (place is k + 1)"
    using p by (auto simp: is_patch_def)
  have "place is k + 5 \<le> length (code_of is)"
    using arg_cong [OF code_split [OF k(1)], of length] k(2) by (simp add: place_def)
  then have u: "unat (pt_offset p) = place is k + 1" using len k(3) by (simp add: unat_of_nat del: of_nat_add of_nat_Suc)
  let ?bs = "u32_bytes (target - word_of_nat (place is k + 5))"
  let ?js = "is[k := (fst (is ! k), ?bs)]"
  have bs: "length ?bs = length (snd (is ! k))" using k(2) by (simp add: u32_bytes_def)
  have off: "pt_offset p + 4 = word_of_nat (place is k + 5)" using k(3) by simp
  have pl: "place ?js = place is" using k(1) bs by (intro ext length_code_of_update) simp_all
  have "apply_patch labels p (code_of is) = write_at (unat (pt_offset p)) (u32_bytes (target - (pt_offset p + 4))) (code_of is)"
    using True t by (simp add: apply_patch_def)
  then have "apply_patch labels p (code_of is) = code_of ?js"
    unfolding u off write_operands [OF k(1) bs] .
  moreover have "map fst ?js = map fst is" using k(1) by (simp add: map_update list_update_same_conv)
  moreover have "list_all wf_instr ?js"
    using wf bs k(1) by (simp add: list_all_length nth_list_update wf_instr_def)
  moreover have "\<forall>j < length ?js. length (snd (?js ! j)) = length (snd (is ! j))"
    using bs k(1) by (simp add: nth_list_update)
  moreover have "lands ?js j" if "j < length ?js" "jump_op (fst (?js ! j))" for j
  proof (cases "j = k")
    case True
    have "is_place ?js target" using target pl by (simp add: is_place_def)
    then show ?thesis using True k(1) pl by (auto simp: lands_def)
  next
    case False
    then show ?thesis using that jumps k(1) bs by (intro lands_update) simp_all
  qed
  ultimately show ?thesis using pl by (intro exI [of _ ?js]) simp
next
  case False
  then have "apply_patch labels p (code_of is) = code_of is"
    by (auto simp: apply_patch_def split: list.split)
  then show ?thesis using wf jumps by (intro exI [of _ "is"]) simp
qed

lemma patches_land:
  assumes "\<forall>p \<in> set ps. is_patch is p" "\<forall>l \<in> set labels. \<forall>off \<in> set l. is_place is off"
    "length (code_of is) < 2 ^ 32" "list_all wf_instr is" "\<forall>k < length is. jump_op (fst (is ! k)) \<longrightarrow> lands is k"
  shows "\<exists>js. fold (apply_patch labels) ps (code_of is) = code_of js \<and> length js = length is \<and> place js = place is \<and>
    map fst js = map fst is \<and> list_all wf_instr js \<and> (\<forall>k < length js. jump_op (fst (js ! k)) \<longrightarrow> lands js k)"
  using assms
proof (induction ps arbitrary: "is")
  case Nil
  then show ?case by (intro exI [of _ "is"]) simp
next
  case (Cons p ps)
  obtain js where js: "apply_patch labels p (code_of is) = code_of js" "length js = length is" "place js = place is"
    "map fst js = map fst is" "list_all wf_instr js" "\<forall>k < length js. length (snd (js ! k)) = length (snd (is ! k))"
    "\<forall>k < length js. jump_op (fst (js ! k)) \<longrightarrow> lands js k"
    using apply_patch_lands [of "is" p labels] Cons.prems by auto
  have "\<forall>p \<in> set ps. is_patch js p"
    using Cons.prems(1) js(2,3,6) unfolding is_patch_def by (metis list.set_intros(2))
  moreover have "\<forall>l \<in> set labels. \<forall>off \<in> set l. is_place js off"
    using Cons.prems(2) js(2,3) by (simp add: is_place_def)
  moreover have "length (code_of js) < 2 ^ 32"
    using Cons.prems(3) js(2,3) by (metis place_end)
  ultimately show ?case using Cons.IH [of js] js by auto
qed

text \<open>What a compiled module is: whole instructions, and every jump and every procedure leads to one.\<close>

definition sound_code :: "instr list \<Rightarrow> bucc_emitter_t \<Rightarrow> bool" where
  "sound_code is e \<longleftrightarrow> em_code e = code_of is \<and> list_all wf_instr is \<and>
     (\<forall>k < length is. jump_op (fst (is ! k)) \<longrightarrow> lands is k) \<and>
     (\<forall>q \<in> set (em_procedures e). is_place is (p_code_offset q))"

lemma u32_bytes_0: "u32_bytes 0 = [0, 0, 0, 0]"
  by (simp add: u32_bytes_def)

lemma emitted_resolved:
  assumes "emitted is e" "length (em_code e) < 2 ^ 32"
  shows "\<exists>js. sound_code js (bucc_emit_resolve_patches e) \<and> map fst js = map fst is"
proof -
  have "lands is k" if "k < length is" "jump_op (fst (is ! k))" for k
  proof -
    have z: "snd (is ! k) = [0, 0, 0, 0]" using assms(1) that by (simp add: emitted_def)
    then have "place is (Suc k) = place is k + 5" using place_Suc [OF that(1)] by simp
    then have "is_place is (word_of_nat (place is k + 5))"
      unfolding is_place_def using that(1) by (intro exI [of _ "Suc k"]) simp
    then show ?thesis unfolding lands_def using z by (intro exI [of _ "word_of_nat (place is k + 5)"]) (simp add: u32_bytes_0)
  qed
  then obtain js where js: "fold (apply_patch (em_labels e)) (em_patches e) (code_of is) = code_of js" "length js = length is"
      "place js = place is" "map fst js = map fst is" "list_all wf_instr js" "\<forall>k < length js. jump_op (fst (js ! k)) \<longrightarrow> lands js k"
    using patches_land [of "em_patches e" "is" "em_labels e"] assms by (auto simp: emitted_def)
  have "sound_code js (bucc_emit_resolve_patches e)"
    using assms(1) js by (simp add: sound_code_def bucc_emit_resolve_patches_def emitted_def is_place_def)
  then show ?thesis using js(4) by blast
qed

lemma write_at_length: "length c \<le> length (write_at off bs c)"
  by (simp add: write_at_def)

lemma apply_patch_length: "length c \<le> length (apply_patch labels p c)"
  by (simp add: apply_patch_def write_at_length split: list.split)

lemma patches_length: "length c \<le> length (fold (apply_patch labels) ps c)"
proof (induction ps arbitrary: c)
  case (Cons p ps)
  then show ?case using order_trans [OF apply_patch_length Cons.IH] by simp
qed simp

lemma compiled_sound:
  assumes "bucc_emit_module fo m (bucc_emitter_set_debug dbg (bucc_emitter_new sc)) = (ok, e)" "length (em_code e) < 2 ^ 32"
  shows "\<exists>is. sound_code is e"
proof -
  let ?e0 = "bucc_emitter_set_debug dbg (bucc_emitter_new sc)" let ?e1 = "fold (emit_decl fo) (ast_procedures m) ?e0"
  have e: "e = bucc_emit_resolve_patches ?e1" using assms(1) by (simp add: bucc_emit_module_def Let_def)
  obtain "is" where "is": "emitted is ?e1" using grows_decls emitted_new(2) by (force simp: grows_def)
  have "length (em_code ?e1) < 2 ^ 32"
    using assms(2) le_less_trans [OF patches_length] by (simp add: e bucc_emit_resolve_patches_def)
  then show ?thesis unfolding e using emitted_resolved [OF "is"] by blast
qed

section \<open>Properties\<close>

text \<open>\<open>PROCEDURE m()\<close> with the body \<open>DO\<close>, \<open>LOOP\<close>.\<close>

definition endless :: bucc_ast_module where
  "endless = \<lparr>ast_globals = [], ast_procedures =
     [NODE_PROC_DECL [109] [] [Stmt 1 1 (NODE_STMT_DO_LOOP [] None LOOP_PLAIN)]]\<rparr>"

lemmas emit_defs = bucc_emit_module_def emit_procedure_def emit_body_def Let_def bucc_emit_label_def bucc_emitter_set_debug_def
  bucc_emit_label_here_def set_loop_def bucc_emit_jump_def bucc_emit_op_def bucc_emit_byte_def bucc_emit_i32_def bucc_emit_u32_def
  bucc_emit_bytes_def bucc_emit_resolve_patches_def apply_patch_def u32_bytes_def write_at_def bucc_emit_op_u16_def bucc_emit_u16_def

lemma endless_emitted:
  fixes fo
  assumes l: "length (em_labels e) = 256" and c: "em_code e = []" "em_patches e = []" "em_next_label e = 0" "\<not> em_emit_debug_info e"
  defines "e' \<equiv> fold (emit_decl fo) (ast_procedures endless) e"
  shows "em_code e' = [OP_JMP, 0, 0, 0, 0, OP_RETURN]"
    "em_patches e' = [\<lparr>pt_offset = 1, pt_label_id = 0\<rparr>]"
    "em_labels e' ! 0 = 0 # em_labels e ! 0" "length (em_labels e') = 256"
  unfolding e'_def by (simp_all add: endless_def emit_defs l c)

lemma endless_code:
  "em_code (snd (bucc_emit_module fo endless (bucc_emitter_set_debug False (bucc_emitter_new [])))) =
     [OP_JMP, 255, 255, 255, 251, OP_RETURN]"
proof -
  let ?e = "bucc_emitter_set_debug False (bucc_emitter_new [])"
  have "length (em_labels ?e) = 256" "em_code ?e = []" "em_patches ?e = []" "em_next_label ?e = 0" "\<not> em_emit_debug_info ?e"
    by (simp_all add: bucc_emitter_set_debug_def bucc_emitter_new_def)
  note e = endless_emitted [OF this, of fo]
  show ?thesis
    unfolding bucc_emit_module_def Let_def snd_conv bucc_emit_resolve_patches_def bucc_emitter_t.simps
    by (simp add: e apply_patch_def) (simp add: write_at_def u32_bytes_def)
qed

text \<open>
  The verifier of the module loader has a table of its own. It agrees with the machine on every byte but
  three opcodes.
\<close>

definition missized :: "u8 set" where
  "missized = {OP_ARRAY_NEW, OP_MAP_NEW, OP_CHAIN}"

lemma verify_operands_machine: "op \<notin> missized \<Longrightarrow> verify_operands op = operand_count op"
  by (simp add: verify_operands_def operand_count_def missized_def)

lemma verify_operands_missized:
  "op \<in> {OP_ARRAY_NEW, OP_MAP_NEW} \<Longrightarrow> verify_operands op = Some 0" "verify_operands OP_CHAIN = Some 4"
  by (auto simp: verify_operands_def)

lemma instructions_code:
  "list_all (\<lambda>i. wf_instr i \<and> fst i \<notin> missized) is \<Longrightarrow> instructions (code_of is @ rest) = instructions rest"
  by (induction "is") (simp_all add: instructions_step [of _ "length _"] wf_instr_def verify_operands_machine)

lemma instructions_stuck:
  assumes "op \<notin> missized" "\<And>n. operand_count op = Some n \<Longrightarrow> length args < n"
  shows "\<not> instructions (op # args)"
proof
  assume i: "instructions (op # args)"
  then obtain n where n: "verify_operands op = Some n" by (auto simp: instructions_Cons)
  then have "n \<le> length args" using i by (simp add: instructions_step)
  then show False using n assms by (fastforce simp: verify_operands_machine)
qed

lemma instructions_missized:
  "op \<in> {OP_ARRAY_NEW, OP_MAP_NEW} \<Longrightarrow> instructions [op]" "\<not> instructions [OP_CHAIN, a, b, c]"
  by (auto simp: instructions_step [OF verify_operands_missized(1)] instructions_step [OF verify_operands_missized(2)]
      instructions.none)



text \<open>
  C35: Compiled code is well formed. The code of a module shorter than 4 GB is a sequence of whole
  instructions, each an opcode of the machine followed by as many operand bytes as the machine reads for
  it; the offset in every jump and every \<open>TRY_BEGIN\<close>, added to the position behind it, is the start of an
  instruction or the end of the code, and so is the offset of every procedure.
\<close>

theorem compiled_jumps_land:
  assumes "bucc_emit_module fo m (bucc_emitter_set_debug dbg (bucc_emitter_new sc)) = (ok, e)" "length (em_code e) < 2 ^ 32"
  shows "\<exists>is. em_code e = code_of is \<and> list_all wf_instr is \<and>
    (\<forall>k < length is. jump_op (fst (is ! k)) \<longrightarrow>
       (\<exists>j \<le> length is. snd (is ! k) = u32_bytes (word_of_nat (place is j) - word_of_nat (place is k + 5)))) \<and>
    (\<forall>q \<in> set (em_procedures e). \<exists>j \<le> length is. p_code_offset q = word_of_nat (place is j))"
proof -
  obtain "is" where "sound_code is e" using compiled_sound [OF assms] by blast
  then show ?thesis unfolding sound_code_def lands_def is_place_def by (intro exI [of _ "is"]) blast
qed

theorem compiled_jumps_land_witness:
  "\<exists>is. [OP_JMP, 255, 255, 255, 251, OP_RETURN] = code_of is \<and> list_all wf_instr is"
proof -
  let ?r = "bucc_emit_module example_float endless (bucc_emitter_set_debug False (bucc_emitter_new []))"
  obtain ok e where r: "?r = (ok, e)" by (cases ?r)
  have "em_code e = [OP_JMP, 255, 255, 255, 251, OP_RETURN]" using endless_code [of example_float] unfolding r by simp
  then show ?thesis using compiled_jumps_land [OF r] by auto
qed

end
