(* ===== verification/Bucc_Control.thy ===== *)
theory Bucc_Control
  imports Bucc_Layout
begin

text \<open>
  The Buccaneer machine on compiled code: the instruction pointer, the return addresses and the
  exception handlers stay at the start of instructions, so no operand byte is run as an opcode.

  The invariant is carried through every instruction by the locales of \<open>Bucc_Invariant\<close>, interpreted on
  it; jumps, calls and returns, which move the instruction pointer, are treated here.
\<close>

section \<open>Running compiled code\<close>

text \<open>The machine between two instructions, and in front of the \<open>n\<close> operand bytes of one.\<close>

definition control_aligned :: "instr list \<Rightarrow> bucc_vm_t \<Rightarrow> bool" where
  "control_aligned is vm \<longleftrightarrow> (\<forall>f \<in> set (frames vm). is_place is (f_ip f)) \<and>
     (\<forall>t \<in> set (try_stack vm). is_place is (t_handler_ip t)) \<and> status vm \<noteq> VM_INVALID_OPCODE"

definition aligned :: "instr list \<Rightarrow> bucc_vm_t \<Rightarrow> bool" where
  "aligned is vm \<longleftrightarrow> control_aligned is vm \<and> is_place is (ip vm)"

definition inside :: "instr list \<Rightarrow> nat \<Rightarrow> nat \<Rightarrow> bucc_vm_t \<Rightarrow> bool" where
  "inside is n i vm \<longleftrightarrow> control_aligned is vm \<and>
     (\<exists>k < length is. length (snd (is ! k)) = n \<and> i \<le> n \<and> ip vm = word_of_nat (place is k + 1 + i))"

text \<open>The module of the machine is compiled code; the host leaves the control state as it found it.\<close>

definition host_aligned :: "vm_env \<Rightarrow> bool" where
  "host_aligned env \<longleftrightarrow>
     (\<forall>handler vm ns fn args v vm'. e_host env = Some handler \<longrightarrow> handler vm ns fn args = Some (v, vm') \<longrightarrow>
        ip vm' = ip vm \<and> frames vm' = frames vm \<and> try_stack vm' = try_stack vm \<and>
        (status vm' = VM_INVALID_OPCODE \<longrightarrow> status vm = VM_INVALID_OPCODE))"

definition runs_code :: "vm_env \<Rightarrow> instr list \<Rightarrow> bool" where
  "runs_code env is \<longleftrightarrow> bytecode (e_module env) = Some (code_of is) \<and> length (code_of is) + 8 < 2 ^ 32 \<and>
     bytecode_len (e_module env) = word_of_nat (length (code_of is)) \<and> list_all wf_instr is \<and>
     (\<forall>k < length is. jump_op (fst (is ! k)) \<longrightarrow> lands is k) \<and>
     (\<forall>ps. mod_procs (e_module env) = Some ps \<longrightarrow> (\<forall>q \<in> set ps. is_place is (p_code_offset q))) \<and> host_aligned env"

lemma runs_codeD:
  assumes "runs_code env is"
  shows "bytecode (e_module env) = Some (code_of is)" "length (code_of is) + 8 < 2 ^ 32"
    "bytecode_len (e_module env) = word_of_nat (length (code_of is))" "list_all wf_instr is" "host_aligned env"
    "k < length is \<Longrightarrow> jump_op (fst (is ! k)) \<Longrightarrow> lands is k"
    "mod_procs (e_module env) = Some ps \<Longrightarrow> q \<in> set ps \<Longrightarrow> is_place is (p_code_offset q)" "code_ok env"
  using assms by (auto simp: runs_code_def code_ok_def)

subsection \<open>Operands\<close>

lemma place_le: "k < length is \<Longrightarrow> place is k + 1 + length (snd (is ! k)) \<le> length (code_of is)"
  using arg_cong [OF code_split, of k "is" length] by (simp add: place_def)

lemma operand_split:
  assumes "k < length is"
  shows "code_of is ! place is k = fst (is ! k)"
    "i < length (snd (is ! k)) \<Longrightarrow> code_of is ! (place is k + 1 + i) = snd (is ! k) ! i"
proof -
  define a where "a = code_of (take k is)"
  have "code_of is = a @ fst (is ! k) # snd (is ! k) @ code_of (drop (Suc k) is)" "place is k = length a"
    using code_split [OF assms] by (simp_all add: a_def place_def)
  then show "code_of is ! place is k = fst (is ! k)"
    "i < length (snd (is ! k)) \<Longrightarrow> code_of is ! (place is k + 1 + i) = snd (is ! k) ! i"
    by (simp_all add: nth_append)
qed

lemma operand_at:
  assumes "k < length is" "i < length (snd (is ! k))"
  shows "code_of is ! (place is k + 1 + i) = snd (is ! k) ! i"
  using operand_split(2) [OF assms(1), of i] assms(2) by simp

lemma opcode_at: "k < length is \<Longrightarrow> code_of is ! place is k = fst (is ! k)"
  using operand_split [of k "is"] by simp

lemma is_place_next:
  assumes "k < length is" "n = place is k + 1 + length (snd (is ! k))"
  shows "is_place is (word_of_nat n)"
  unfolding is_place_def assms(2) using assms(1) place_Suc [OF assms(1)] by (intro exI [of _ "Suc k"]) simp

lemma inside_done: "inside is n n vm \<Longrightarrow> aligned is vm"
  unfolding inside_def aligned_def using is_place_next by auto

lemma unat_code: "runs_code env is \<Longrightarrow> n \<le> length (code_of is) \<Longrightarrow> unat (word_of_nat n :: u32) = n"
  using runs_codeD(2) [of env "is"] by (simp add: unat_of_nat)

lemma inside_ip:
  assumes "runs_code env is" "inside is n i vm"
  obtains k where "k < length is" "length (snd (is ! k)) = n" "i \<le> n" "ip vm = word_of_nat (place is k + 1 + i)"
    "unat (ip vm) = place is k + 1 + i" "place is k + 1 + n \<le> length (code_of is)"
proof -
  obtain k where k: "k < length is" "length (snd (is ! k)) = n" "i \<le> n" "ip vm = word_of_nat (place is k + 1 + i)"
    using assms(2) by (auto simp: inside_def)
  have "unat (ip vm) = place is k + 1 + i"
    unfolding k(4) using place_le [OF k(1)] k(2,3) by (intro unat_code [OF assms(1)]) simp
  then show ?thesis using that k place_le [OF k(1)] by auto
qed

lemma inside_move:
  assumes "inside is n i vm" "k < length is" "length (snd (is ! k)) = n" "ip vm = word_of_nat (place is k + 1 + i)" "i + j \<le> n"
  shows "inside is n (i + j) (vm\<lparr>ip := ip vm + word_of_nat j\<rparr>)"
  using assms by (auto simp: inside_def control_aligned_def algebra_simps intro!: exI [of _ k])

lemma read_u16_inside:
  assumes "runs_code env is" "inside is n i vm" "i + 2 \<le> n" "read_u16 env vm = Some (w, vm')"
  shows "inside is n (i + 2) vm'"
proof -
  obtain k where k: "k < length is" "length (snd (is ! k)) = n" "i \<le> n" "ip vm = word_of_nat (place is k + 1 + i)"
    "unat (ip vm) = place is k + 1 + i" "place is k + 1 + n \<le> length (code_of is)"
    using inside_ip [OF assms(1,2)] .
  have "\<exists>x. operand_u16 env (ip vm) = Some x"
    using k(5,6) assms(3) by (simp add: operand_u16_def runs_codeD(1) [OF assms(1)])
  then have "vm' = vm\<lparr>ip := ip vm + 2\<rparr>"
    using read_u16_operand [OF runs_codeD(8) [OF assms(1)]] assms(4) by fastforce
  then show ?thesis using inside_move [OF assms(2) k(1,2,4), of 2] assms(3) by simp
qed

lemma read_u8_inside:
  assumes "runs_code env is" "inside is n i vm" "i + 1 \<le> n" "read_u8 env vm = Some (b, vm')"
  shows "inside is n (i + 1) vm'"
proof -
  obtain k where k: "k < length is" "length (snd (is ! k)) = n" "i \<le> n" "ip vm = word_of_nat (place is k + 1 + i)"
    "unat (ip vm) = place is k + 1 + i" "place is k + 1 + n \<le> length (code_of is)"
    using inside_ip [OF assms(1,2)] .
  have "\<exists>x. operand_u8 env (ip vm) = Some x"
    using k(5,6) assms(3) by (simp add: operand_u8_def runs_codeD(1) [OF assms(1)])
  then have "vm' = vm\<lparr>ip := ip vm + 1\<rparr>"
    using read_u8_operand [OF runs_codeD(8) [OF assms(1)]] assms(4) by fastforce
  then show ?thesis using inside_move [OF assms(2) k(1,2,4), of 1] assms(3) by simp
qed

lemma u32_of_bytes:
  "push_bit 24 (ucast (ucast (drop_bit 24 w) :: u8)) OR push_bit 16 (ucast (ucast (drop_bit 16 w) :: u8)) OR
   push_bit 8 (ucast (ucast (drop_bit 8 w) :: u8)) OR ucast (ucast w :: u8) = (w :: u32)"
  (is "?l = w")
proof (rule bit_word_eqI)
  fix n assume "n < LENGTH(32)"
  then consider "n < 8" | "8 \<le> n" "n < 16" | "16 \<le> n" "n < 24" | "24 \<le> n" "n < 32" by fastforce
  then show "bit ?l n = bit w n" by cases (auto simp: bit_simps)
qed

lemma read_i32_inside:
  assumes "runs_code env is" "inside is 4 0 vm" "read_i32 env vm = Some (w, vm')"
  obtains k where "k < length is" "length (snd (is ! k)) = 4" "ip vm = word_of_nat (place is k + 1)"
    "vm' = vm\<lparr>ip := word_of_nat (place is k + 5)\<rparr>" "\<And>x. snd (is ! k) = u32_bytes x \<Longrightarrow> w = x"
proof -
  obtain k where k: "k < length is" "length (snd (is ! k)) = 4" "ip vm = word_of_nat (place is k + 1 + 0)"
    "place is k + 1 + 4 \<le> length (code_of is)"
    using inside_ip [OF assms(1,2)] by blast
  have u: "unat (ip vm + of_nat j) = place is k + 1 + j" if "j \<le> 4" for j
    unfolding k(3) of_nat_add [symmetric] using that k(4) unat_code [OF assms(1), of "place is k + 1 + 0 + j"] by simp
  have bound: "\<not> bytecode_len (e_module env) < ip vm + 4"
    using u [of 4] k(4) unat_code [OF assms(1) order_refl]
    by (simp add: word_less_nat_alt runs_codeD(3) [OF assms(1)])
  have b: "arr_get (code_of is) (unat (ip vm + of_nat j)) = Some (snd (is ! k) ! j)" if "j < 4" for j
    using that u [of j] operand_at [OF k(1), of j] k(2,4) by (simp add: arr_get_eq_Some_iff)
  have bs: "arr_get (code_of is) (unat (ip vm)) = Some (snd (is ! k) ! 0)"
    "arr_get (code_of is) (unat (ip vm + 1)) = Some (snd (is ! k) ! 1)"
    "arr_get (code_of is) (unat (ip vm + 2)) = Some (snd (is ! k) ! 2)"
    "arr_get (code_of is) (unat (ip vm + 3)) = Some (snd (is ! k) ! 3)"
    using b [of 0] b [of 1] b [of 2] b [of 3] by simp_all
  have r: "w = push_bit 24 (ucast (snd (is ! k) ! 0)) OR push_bit 16 (ucast (snd (is ! k) ! 1)) OR
      push_bit 8 (ucast (snd (is ! k) ! 2)) OR ucast (snd (is ! k) ! 3)" "vm' = vm\<lparr>ip := ip vm + 4\<rparr>"
    using assms(3) unfolding read_i32_def if_not_P [OF bound] runs_codeD(1) [OF assms(1)] Option.bind.simps bs by simp_all
  have "ip vm + 4 = word_of_nat (place is k + 5)" using k(3) by simp
  moreover have "w = x" if "snd (is ! k) = u32_bytes x" for x
    using r(1) that u32_of_bytes [of x] by (simp add: u32_bytes_def)
  ultimately show ?thesis using that k(1-3) r(2) by simp
qed

subsection \<open>Instructions\<close>

definition controlled :: "vm_env \<Rightarrow> instr list \<Rightarrow> bucc_vm_t \<Rightarrow> bool" where
  "controlled env is vm \<longleftrightarrow> runs_code env is \<and> control_aligned is vm"

definition safe :: "vm_env \<Rightarrow> instr list \<Rightarrow> bucc_vm_t \<Rightarrow> bool" where
  "safe env is vm \<longleftrightarrow> runs_code env is \<and> aligned is vm"

definition within :: "vm_env \<Rightarrow> instr list \<Rightarrow> nat \<Rightarrow> nat \<Rightarrow> bucc_vm_t \<Rightarrow> bool" where
  "within env is n i vm \<longleftrightarrow> runs_code env is \<and> inside is n i vm"

lemma controlled_safe: "safe env is vm \<longleftrightarrow> controlled env is vm \<and> is_place is (ip vm)"
  by (auto simp: safe_def controlled_def aligned_def)

lemma controlled_ip [simp]: "controlled env is (vm\<lparr>ip := i\<rparr>) = controlled env is vm"
  by (simp add: controlled_def control_aligned_def)

interpretation ctl: vm_data_invariant "controlled env is" for env "is"
  by unfold_locales (simp_all add: controlled_def control_aligned_def)

interpretation al: vm_data_invariant "safe env is" for env "is"
  by unfold_locales (simp_all add: safe_def aligned_def control_aligned_def)

interpretation al: vm_invariant "safe env is" for env "is"
proof
  fix vm b vm' assume P: "safe env is vm" and h: "handle_exception vm = Some (b, vm')"
  have "allP (safe env is) (handle_exception vm)"
  proof (cases "try_stack vm")
    case (Cons tf rest)
    have c: "controlled env is (vm\<lparr>try_stack := rest, frames := drop (fp vm - t_frame_depth tf) (frames vm)\<rparr>)"
      using P Cons by (auto simp: controlled_safe controlled_def control_aligned_def dest: in_set_dropD)
    have "is_place is (t_handler_ip tf)" using P Cons by (simp add: safe_def aligned_def control_aligned_def)
    then have back_up: "safe env is (vm\<lparr>exception := x, ip := t_handler_ip tf\<rparr>)" if "controlled env is vm" for vm x
      using that ctl.P_exception by (simp add: controlled_safe)
    show ?thesis
      using P back_up unfolding handle_exception_def Cons Let_def list.case
      by (auto intro!: all_if all_some all_bind(3) [OF ctl.all_pop_release [OF c]] all_bind(3) [OF ctl.all_push])
  qed (use P in \<open>simp add: handle_exception_def all_some\<close>)
  then show "safe env is vm'" using h by (auto simp: allP_def)
next
  fix vm assume "safe env is vm"
  then show "safe env is (vm\<lparr>try_stack := tl (try_stack vm)\<rparr>)"
    by (cases "try_stack vm") (simp_all add: safe_def aligned_def control_aligned_def)
qed

interpretation al: vm_reading "safe env is" env "within env is 2 0" "within env is 3 0" "within env is 3 2" for env "is"
proof
  fix vm w vm' assume a: "within env is 2 0 vm" "read_u16 env vm = Some (w, vm')"
  then have "inside is 2 2 vm'" using read_u16_inside [of env "is" 2 0 vm w vm'] by (simp add: within_def numeral_2_eq_2)
  then show "safe env is vm'" using a inside_done by (simp add: within_def safe_def)
next
  fix vm w vm' assume "within env is 3 0 vm" "read_u16 env vm = Some (w, vm')"
  then show "within env is 3 2 vm'" using read_u16_inside [of env "is" 3 0 vm w vm'] by (simp add: within_def numeral_2_eq_2)
next
  fix vm b vm' assume a: "within env is 3 2 vm" "read_u8 env vm = Some (b, vm')"
  then have "inside is 3 3 vm'" using read_u8_inside [of env "is" 3 2 vm b vm'] by (simp add: within_def)
  then show "safe env is vm'" using a inside_done by (simp add: within_def safe_def)
next
  fix vm handler ns fn args v vm'
  assume P: "safe env is vm" and h: "e_host env = Some handler" "handler vm ns fn args = Some (v, vm')"
  then have "host_aligned env" using runs_codeD(5) by (auto simp: safe_def)
  then have "ip vm' = ip vm \<and> frames vm' = frames vm \<and> try_stack vm' = try_stack vm \<and>
      (status vm' = VM_INVALID_OPCODE \<longrightarrow> status vm = VM_INVALID_OPCODE)"
    unfolding host_aligned_def using h by blast
  then show "safe env is vm'" using P by (auto simp: safe_def aligned_def control_aligned_def)
qed

text \<open>Jumps land, calls enter a procedure, returns go back behind a call.\<close>

lemma jump_lands:
  assumes "within env is 4 0 vm" "read_i32 env vm = Some (w, vm')"
    "\<forall>k < length is. ip vm = word_of_nat (place is k + 1) \<longrightarrow> lands is k"
  shows "safe env is vm'" "is_place is (ip vm' + w)"
proof -
  have r: "runs_code env is" "inside is 4 0 vm" using assms(1) by (simp_all add: within_def)
  obtain k where k: "k < length is" "length (snd (is ! k)) = 4" "ip vm = word_of_nat (place is k + 1)"
    "vm' = vm\<lparr>ip := word_of_nat (place is k + 5)\<rparr>" "\<And>x. snd (is ! k) = u32_bytes x \<Longrightarrow> w = x"
    using read_i32_inside [OF r assms(2)] by blast
  have "is_place is (word_of_nat (place is k + 5))" using k(2) by (intro is_place_next [OF k(1)]) simp
  then show "safe env is vm'"
    using r k(4) by (simp add: safe_def aligned_def inside_def control_aligned_def)
  have "lands is k" using assms(3) k(1,3) by blast
  then obtain off where off: "is_place is off" "snd (is ! k) = u32_bytes (off - word_of_nat (place is k + 5))"
    by (auto simp: lands_def)
  then have "ip vm' + w = off" using k(4,5) by simp
  then show "is_place is (ip vm' + w)" using off(1) by simp
qed

lemma safe_ip: "safe env is vm \<Longrightarrow> is_place is i \<Longrightarrow> safe env is (vm\<lparr>ip := i\<rparr>)"
  by (simp add: controlled_safe)

lemma all_jumps:
  assumes "within env is 4 0 vm" "\<forall>k < length is. ip vm = word_of_nat (place is k + 1) \<longrightarrow> lands is k"
  shows "allV (safe env is) (exec_jmp env vm)" "allV (safe env is) (exec_jmp_if env want vm)"
    "allV (safe env is) (exec_try_begin env vm)"
proof -
  note land = jump_lands [OF assms(1) _ assms(2)]
  show "allV (safe env is) (exec_jmp env vm)"
    using land safe_ip by (auto simp: exec_jmp_def allV_def bind_eq_Some_conv)
  show "allV (safe env is) (exec_try_begin env vm)"
    using land
    by (auto simp: exec_try_begin_def allV_def bind_eq_Some_conv vm_malloc_def split_def Let_def safe_def aligned_def
        control_aligned_def split: if_splits)
  have "allV (safe env is) (do { let (cond, vm) = bucc_vm_pop vm'; x \<leftarrow> vm_truthy env vm cond;
      value_release cond (if x = want then vm\<lparr>ip := ip vm + w\<rparr> else vm) })"
    if "read_i32 env vm = Some (w, vm')" for w vm'
  proof -
    obtain v vm2 where pop: "bucc_vm_pop vm' = (v, vm2)" by (cases "bucc_vm_pop vm'")
    have "ip vm2 = ip vm'" using pop by (auto simp: bucc_vm_pop_def split: list.splits)
    moreover have "safe env is vm2" using al.P_pop [OF land(1) [OF that]] pop by simp
    ultimately show ?thesis
      using land(2) [OF that] safe_ip unfolding pop Let_def prod.case by (auto intro!: inv_rules)
  qed
  then show "allV (safe env is) (exec_jmp_if env want vm)"
    unfolding exec_jmp_if_def by (auto simp: allV_def bind_eq_Some_conv)
qed

lemma safe_enter:
  assumes "safe env is vm"
  shows "allP (safe env is) (enter_proc env i bp vm)"
    "enter_proc env i bp vm = Some (proc, vm') \<Longrightarrow> is_place is (p_code_offset proc)"
proof -
  show "allP (safe env is) (enter_proc env i bp vm)"
    using assms
    by (auto simp: enter_proc_def Let_def allP_def bind_eq_Some_conv safe_def aligned_def control_aligned_def)
  assume "enter_proc env i bp vm = Some (proc, vm')"
  then obtain ps where "mod_procs (e_module env) = Some ps" "proc \<in> set ps"
    by (auto simp: enter_proc_def Let_def bind_eq_Some_conv arr_get_eq_Some_iff)
  then show "is_place is (p_code_offset proc)" using assms runs_codeD(7) by (auto simp: safe_def)
qed

lemma enter_and_go:
  assumes "safe env is vm"
  shows "allV (safe env is) (do { (proc, vm) \<leftarrow> enter_proc env i bp vm; vm \<leftarrow> copy_args bp 0 n vm; Some (vm\<lparr>ip := p_code_offset proc\<rparr>) })"
    "allV (safe env is) (do { (proc, vm) \<leftarrow> enter_proc env i bp vm; Some (vm\<lparr>ip := p_code_offset proc\<rparr>) })"
proof -
  have enter: "safe env is vm1" "is_place is (p_code_offset proc)" if "enter_proc env i bp vm = Some (proc, vm1)" for proc vm1
    using safe_enter [OF assms] that by (auto simp: allP_def)
  have "safe env is vm2" if "safe env is vm1" "copy_args bp 0 n vm1 = Some vm2" for vm1 vm2
    using al.all_copy_args [OF that(1)] that(2) by (auto simp: allV_def)
  with enter show "allV (safe env is) (do { (proc, vm) \<leftarrow> enter_proc env i bp vm; vm \<leftarrow> copy_args bp 0 n vm; Some (vm\<lparr>ip := p_code_offset proc\<rparr>) })"
    "allV (safe env is) (do { (proc, vm) \<leftarrow> enter_proc env i bp vm; Some (vm\<lparr>ip := p_code_offset proc\<rparr>) })"
    by (auto simp: allV_def bind_eq_Some_conv intro: safe_ip)
qed

lemma all_call:
  assumes "within env is 3 0 vm"
  shows "allV (safe env is) (exec_call env vm)" "allV (safe env is) (exec_dispatch_call env vm)"
proof -
  show "allV (safe env is) (exec_call env vm)"
    unfolding exec_call_def Let_def
    by (rule al.all_bind1 [OF assms]) (auto intro!: inv_rules enter_and_go)
  show "allV (safe env is) (exec_dispatch_call env vm)"
    unfolding exec_dispatch_call_def Let_def
    by (rule al.all_bind1 [OF assms]) (auto intro!: inv_rules enter_and_go)
qed

lemma all_leave: "safe env is vm \<Longrightarrow> frames vm = f # fs \<Longrightarrow> allV (safe env is) (leave_frame f fs vm)"
proof -
  assume P: "safe env is vm" and f: "frames vm = f # fs"
  have "safe env is (vm\<lparr>frames := fs\<rparr>)" "is_place is (f_ip f)"
    using P f by (simp_all add: safe_def aligned_def control_aligned_def)
  then show ?thesis unfolding leave_frame_def Let_def by (auto intro!: inv_rules safe_ip)
qed

lemma all_returns:
  assumes "safe env is vm"
  shows "allV (safe env is) (exec_return vm)" "allV (safe env is) (exec_return_value vm)"
  unfolding exec_return_def exec_return_value_def
  using assms by (auto intro!: inv_rules all_leave all_list_case)

text \<open>What an instruction needs in front of its operands, by their number.\<close>

definition ready :: "vm_env \<Rightarrow> instr list \<Rightarrow> nat \<Rightarrow> bucc_vm_t \<Rightarrow> bool" where
  "ready env is n vm \<longleftrightarrow>
     (if n = 0 then safe env is vm
      else within env is n 0 vm \<and>
        (n = 4 \<longrightarrow> (\<forall>k < length is. ip vm = word_of_nat (place is k + 1) \<longrightarrow> lands is k)))"

lemma readyD:
  "ready env is 0 vm \<Longrightarrow> safe env is vm" "ready env is 2 vm \<Longrightarrow> within env is 2 0 vm" "ready env is 3 vm \<Longrightarrow> within env is 3 0 vm"
  "ready env is 4 vm \<Longrightarrow> within env is 4 0 vm"
  "ready env is 4 vm \<Longrightarrow> \<forall>k < length is. ip vm = word_of_nat (place is k + 1) \<longrightarrow> lands is k"
  by (simp_all add: ready_def)

definition op_safe :: "vm_env \<Rightarrow> instr list \<Rightarrow> nat option \<Rightarrow> (bucc_vm_t \<Rightarrow> bucc_vm_t option) \<Rightarrow> bool" where
  "op_safe env is n f \<longleftrightarrow> (\<forall>vm. (\<forall>k. n = Some k \<longrightarrow> ready env is k vm) \<longrightarrow> n \<noteq> None \<longrightarrow> allV (safe env is) (f vm))"

lemma op_safeI:
  "(\<And>vm. safe env is vm \<Longrightarrow> allV (safe env is) (f vm)) \<Longrightarrow> op_safe env is (Some 0) f"
  "(\<And>vm. within env is 2 0 vm \<Longrightarrow> allV (safe env is) (f vm)) \<Longrightarrow> op_safe env is (Some 2) f"
  "(\<And>vm. within env is 3 0 vm \<Longrightarrow> allV (safe env is) (f vm)) \<Longrightarrow> op_safe env is (Some 3) f"
  "(\<And>vm. within env is 4 0 vm \<Longrightarrow> \<forall>k < length is. ip vm = word_of_nat (place is k + 1) \<longrightarrow> lands is k \<Longrightarrow> allV (safe env is) (f vm)) \<Longrightarrow>
    op_safe env is (Some 4) f"
  using readyD by (auto simp: op_safe_def)

lemma table_safe: "\<forall>(op, f) \<in> set (exec_table env). op_safe env is (operand_count op) f"
proof -
  have debug: "allV (safe env is) (map_option snd (read_u16 env vm))" if "within env is 2 0 vm" for vm
    using that al.P2_read [of env "is" vm] by (auto simp: allV_def)
  show ?thesis
    unfolding exec_table_def
    by (simp add: operand_count_def op_safeI inv_rules al.all_stack_ops al.all_arith al.all_containers
        al.all_exceptions al.all_casts al.all_variables al.all_new al.all_chain al.all_range_test al.all_call_host
        all_call all_returns all_jumps debug)
qed

lemma operand_count_table: "operand_count op = Some n \<Longrightarrow> op \<in> fst ` set (exec_table env)"
  unfolding operand_count_def exec_table_def by (auto split: if_splits)

lemma exec_safe:
  assumes "operand_count op = Some n" "ready env is n vm" "exec_op env op vm = Some vm'"
  shows "safe env is vm'"
proof -
  obtain f where f: "map_of (exec_table env) op = Some f"
    using operand_count_table [OF assms(1), of env] by (metis map_of_eq_None_iff not_None_eq)
  then have "op_safe env is (operand_count op) f" using table_safe [of env "is"] by (fastforce dest: map_of_SomeD)
  then have "op_safe env is (Some n) f" using assms(1) by simp
  then show ?thesis using assms(2,3) f by (auto simp: op_safe_def allV_def exec_op_lookup)
qed

lemma four_operands: "operand_count op = Some 4 \<Longrightarrow> jump_op op"
  unfolding operand_count_def jump_op_def by (auto split: if_splits)

lemma place_mono: "i \<le> j \<Longrightarrow> place is i \<le> place is j"
  by (auto simp: place_def min_def le_iff_add take_add)

lemma place_less: "i < j \<Longrightarrow> i < length is \<Longrightarrow> place is i < place is j"
  using place_Suc [of i "is"] place_mono [of "Suc i" j "is"] by simp

lemma place_inj: "place is i = place is j \<Longrightarrow> i < length is \<Longrightarrow> j < length is \<Longrightarrow> i = j"
  using place_less [of i j "is"] place_less [of j i "is"] by (cases i j rule: linorder_cases) simp_all

lemma fetch_ready:
  assumes "safe env is vm" "unat (ip vm) < length (code_of is)"
  obtains n where "operand_count (code_of is ! unat (ip vm)) = Some n" "\<And>c. ready env is n (vm\<lparr>counters := c, ip := ip vm + 1\<rparr>)"
proof -
  have r: "runs_code env is" and al: "aligned is vm" using assms(1) by (simp_all add: safe_def)
  obtain j where j: "j \<le> length is" "ip vm = word_of_nat (place is j)" using al by (auto simp: aligned_def is_place_def)
  have "place is j \<le> length (code_of is)" using place_mono [OF j(1), of "is"] by (simp add: place_end)
  then have u: "unat (ip vm) = place is j" unfolding j(2) by (rule unat_code [OF r])
  then have jl: "j < length is" using assms(2) j(1) by (cases "j = length is") (simp_all add: place_end)
  let ?n = "length (snd (is ! j))"
  have ip1: "ip vm + 1 = word_of_nat (place is j + 1)" using j(2) by simp
  have "wf_instr (is ! j)" using runs_codeD(4) [OF r] jl by (simp add: list_all_length)
  then have count: "operand_count (code_of is ! unat (ip vm)) = Some ?n"
    by (simp add: u opcode_at [OF jl] wf_instr_def)
  have "ready env is ?n (vm\<lparr>counters := c, ip := ip vm + 1\<rparr>)" for c
  proof (cases "?n = 0")
    case True
    then have "is_place is (ip vm + 1)" unfolding ip1 by (intro is_place_next [OF jl]) simp
    then show ?thesis using True r al by (simp add: ready_def safe_def aligned_def control_aligned_def)
  next
    case False
    have "within env is ?n 0 (vm\<lparr>counters := c, ip := ip vm + 1\<rparr>)"
      using r al jl ip1 by (auto simp: within_def inside_def aligned_def control_aligned_def intro!: exI [of _ j])
    moreover have "lands is k" if "?n = 4" "k < length is" "ip vm + 1 = word_of_nat (place is k + 1)" for k
    proof -
      have "place is k + 1 \<le> length (code_of is)" "place is j + 1 \<le> length (code_of is)"
        using place_le [OF that(2)] place_le [OF jl] by simp_all
      then have "place is k = place is j"
        using that(3) unfolding ip1 by (metis add_right_cancel unat_code [OF r])
      then have "k = j" using place_inj that(2) jl by blast
      moreover have "jump_op (fst (is ! j))" using four_operands count that(1) by (simp add: u opcode_at [OF jl])
      ultimately show ?thesis using runs_codeD(6) [OF r jl] by simp
    qed
    ultimately show ?thesis using False by (simp add: ready_def)
  qed
  then show ?thesis using that count by blast
qed

lemma step_cases:
  assumes "bucc_vm_step env vm = Some (st, vm')" "bytecode (e_module env) \<noteq> None"
  shows "(st = status vm \<and> vm' = vm) \<or> (vm' = vm_error VM_LIMIT_EXCEEDED ''instruction limit exceeded'' vm \<and> st = status vm') \<or>
    (vm' = vm\<lparr>status := VM_HALT\<rparr> \<and> st = VM_HALT) \<or>
    (\<not> bytecode_len (e_module env) \<le> ip vm \<and> st = status vm' \<and>
     (\<exists>op vm1. read_u8 env (vm\<lparr>counters := (counters vm)\<lparr>c_instructions := c_instructions (counters vm) + 1\<rparr>\<rparr>) = Some (op, vm1) \<and>
        exec_op env op vm1 = Some vm'))"
proof (cases "status vm \<noteq> VM_OK")
  case ok: False
  show ?thesis
  proof (cases "ucast (max_instructions (limits vm)) \<le> c_instructions (counters vm)")
    case False
    then show ?thesis using assms ok unfolding bucc_vm_step_def Let_def
      by (cases "bytecode_len (e_module env) \<le> ip vm") (auto simp: bind_eq_Some_conv)
  qed (use assms ok in \<open>auto simp: bucc_vm_step_def Let_def\<close>)
qed (use assms in \<open>auto simp: bucc_vm_step_def\<close>)

lemma step_safe:
  assumes "safe env is vm" "bucc_vm_step env vm = Some (st, vm')"
  shows "safe env is vm'" "st \<noteq> VM_INVALID_OPCODE"
proof -
  have r: "runs_code env is" and st: "status vm \<noteq> VM_INVALID_OPCODE"
    using assms(1) by (simp_all add: safe_def aligned_def control_aligned_def)
  note bc = runs_codeD(1,3) [OF r]
  let ?vm = "vm\<lparr>counters := (counters vm)\<lparr>c_instructions := c_instructions (counters vm) + 1\<rparr>\<rparr>"
  have step: "safe env is vm'" if "\<not> bytecode_len (e_module env) \<le> ip vm"
      "read_u8 env ?vm = Some (op, vm1)" "exec_op env op vm1 = Some vm'" for op vm1
  proof -
    have u: "unat (ip vm) < length (code_of is)"
      using that(1) unat_code [OF r order_refl] by (simp add: bc(2) word_le_nat_alt)
    then have vm1: "op = code_of is ! unat (ip vm)" "vm1 = ?vm\<lparr>ip := ip vm + 1\<rparr>"
      using that(1,2) by (auto simp: read_u8_def bc(1) arr_get_eq_Some_iff bind_eq_Some_conv)
    obtain n where n: "operand_count (code_of is ! unat (ip vm)) = Some n" "\<And>c. ready env is n (vm\<lparr>counters := c, ip := ip vm + 1\<rparr>)"
      using fetch_ready [OF assms(1) u] by blast
    show ?thesis using that(3) unfolding vm1 by (intro exec_safe [OF n(1)]) (simp_all add: n(2))
  qed
  have nb: "bytecode (e_module env) \<noteq> None" using bc(1) by simp
  from step_cases [OF assms(2) nb] have "safe env is vm' \<and> (st = status vm' \<or> st = VM_HALT)"
  proof (elim disjE conjE exE)
    assume "vm' = vm_error VM_LIMIT_EXCEEDED ''instruction limit exceeded'' vm" "st = status vm'"
    then show ?thesis using al.P_vm_error [OF assms(1)] by blast
  next
    assume "vm' = vm\<lparr>status := VM_HALT\<rparr>" "st = VM_HALT"
    then show ?thesis using al.P_status [OF assms(1)] by blast
  next
    assume "st = status vm" "vm' = vm"
    then show ?thesis using assms(1) by simp
  next
    fix op vm1
    assume "\<not> bytecode_len (e_module env) \<le> ip vm" "st = status vm'" "read_u8 env ?vm = Some (op, vm1)" "exec_op env op vm1 = Some vm'"
    then show ?thesis using step by blast
  qed
  then show "safe env is vm'" "st \<noteq> VM_INVALID_OPCODE"
    by (auto simp: safe_def aligned_def control_aligned_def)
qed

lemma run_loop_safe:
  assumes "run_loop env vm = Some r"
  shows "safe env is vm \<longrightarrow> (\<forall>vm'. r = Some vm' \<longrightarrow> safe env is vm')"
proof (rule run_loop.raw_induct [OF _ assms])
  fix loop env vm r
  assume ih: "\<And>env vm r. loop env vm = Some r \<Longrightarrow> safe env is vm \<longrightarrow> (\<forall>vm'. r = Some vm' \<longrightarrow> safe env is vm')"
    and body: "(if running vm \<and> status vm = VM_OK
      then case bucc_vm_step env vm of None \<Rightarrow> Some None | Some r \<Rightarrow> loop env (snd r) else Some (Some vm)) = Some r"
  show "safe env is vm \<longrightarrow> (\<forall>vm'. r = Some vm' \<longrightarrow> safe env is vm')"
  proof (cases "running vm \<and> status vm = VM_OK")
    case True
    show ?thesis
    proof (cases "bucc_vm_step env vm")
      case None
      then have "r = None" using body True by simp
      then show ?thesis by simp
    next
      case (Some x)
      obtain st vm1 where x: "x = (st, vm1)" by (cases x)
      have "loop env vm1 = Some r" using body unfolding if_P [OF True] Some x by simp
      from ih [OF this] step_safe(1) [OF _ Some [unfolded x], of "is"] show ?thesis by blast
    qed
  next
    case False
    have "r = Some vm" using body unfolding if_not_P [OF False] by simp
    then show ?thesis by simp
  qed
qed

section \<open>Properties\<close>

text \<open>Every machine that some steps lead to.\<close>

lemma step_reaches_safe: "(\<lambda>a b. vm_next env a = Some b)\<^sup>*\<^sup>* vm vm' \<Longrightarrow> safe env is vm \<Longrightarrow> safe env is vm'"
  by (induction rule: rtranclp_induct) (auto simp: vm_next_def intro: step_safe(1))

text \<open>
  C36: Compiled code never loses its place. A machine that runs a compiled module from its start has its
  instruction pointer at the start of an instruction, or at the end of the code, after every step, and its
  status is never \<open>VM_INVALID_OPCODE\<close>; so it is where its run ends: no jump, call, return or exception leads into the operands of an
  instruction. The host handler may do what it likes with the values, not with the control state.
\<close>

theorem compiled_code_stays_aligned:
  assumes "bucc_emit_module fo m (bucc_emitter_set_debug dbg (bucc_emitter_new sc)) = (ok, e)"
    and "em_code e \<noteq> []" "length (em_code e) + 8 < 2 ^ 32"
    and "e_module env = bucc_emitter_to_module e" "host_conserves env" "host_aligned env" "bucc_vm_new h = Some vm"
  shows "\<exists>is r. em_code e = code_of is \<and> list_all wf_instr is \<and> bucc_vm_run env vm = Some r \<and>
    (\<forall>st vm'. r = Some (st, vm') \<longrightarrow> st \<noteq> VM_INVALID_OPCODE \<and> is_place is (ip vm')) \<and>
    (\<forall>vm'. (\<lambda>a b. vm_next env a = Some b)\<^sup>*\<^sup>* (vm\<lparr>running := True\<rparr>) vm' \<longrightarrow>
       status vm' \<noteq> VM_INVALID_OPCODE \<and> is_place is (ip vm'))"
proof -
  obtain "is" where s: "sound_code is e" using compiled_sound [OF assms(1)] assms(3) by auto
  then have "em_code e = code_of is" by (simp add: sound_code_def)
  then have "runs_code env is"
    using s assms(2-4,6)
    by (auto simp: runs_code_def sound_code_def bucc_emitter_to_module_def table_def split: if_splits)
  moreover have vm: "ip vm = 0" "status vm = VM_OK" "frames vm = []" "try_stack vm = []" "vm_bounds vm"
    using assms(7) by (auto simp: bucc_vm_new_def vm_bounds_def Let_def split_def split: if_splits)
  ultimately have safe: "safe env is (vm\<lparr>running := True\<rparr>)"
    by (auto simp: safe_def aligned_def control_aligned_def is_place_def place_def intro: exI [of _ 0])
  have "vm_inv env (limits vm) True (vm\<lparr>running := True\<rparr>)"
    using assms(2,4,5) vm(5) by (simp add: vm_inv_def vm_bounds_def bucc_emitter_to_module_def table_def)
  then obtain r where r: "run_loop env (vm\<lparr>running := True\<rparr>) = Some r" using run_loop_ends by blast
  then have "\<forall>vm'. r = Some vm' \<longrightarrow> safe env is vm'" using run_loop_safe [OF r] safe by blast
  then have "\<forall>st vm'. map_option (\<lambda>vm. (status vm, vm)) r = Some (st, vm') \<longrightarrow> st \<noteq> VM_INVALID_OPCODE \<and> is_place is (ip vm')"
    by (auto simp: safe_def aligned_def control_aligned_def)
  moreover have "status vm' \<noteq> VM_INVALID_OPCODE \<and> is_place is (ip vm')"
    if "(\<lambda>a b. vm_next env a = Some b)\<^sup>*\<^sup>* (vm\<lparr>running := True\<rparr>) vm'" for vm'
    using step_reaches_safe [OF that safe] by (simp add: safe_def aligned_def control_aligned_def)
  ultimately show ?thesis using s r by (intro exI [of _ "is"]) (auto simp: sound_code_def bucc_vm_run_def)
qed

theorem compiled_code_stays_aligned_witness:
  "\<exists>r. bucc_vm_run ((example_env [])\<lparr>e_module := bucc_emitter_to_module
      (snd (bucc_emit_module example_float endless (bucc_emitter_set_debug False (bucc_emitter_new []))))\<rparr>) (example_vm []) = Some r \<and>
    \<not> (\<exists>vm'. r = Some (VM_INVALID_OPCODE, vm'))"
proof -
  let ?r = "bucc_emit_module example_float endless (bucc_emitter_set_debug False (bucc_emitter_new []))"
  obtain ok e where r: "?r = (ok, e)" by (cases ?r)
  have e: "em_code e = [OP_JMP, 255, 255, 255, 251, OP_RETURN]" using endless_code [of example_float] unfolding r by simp
  let ?env = "(example_env [])\<lparr>e_module := bucc_emitter_to_module e\<rparr>"
  have "host_conserves ?env" "host_aligned ?env"
    by (simp_all add: host_conserves_def host_aligned_def example_env_def)
  then show ?thesis
    using compiled_code_stays_aligned [OF r _ _ _ _ _ example_new, of ?env] unfolding r e snd_conv by fastforce
qed

end
