(* ===== verification/Bucc_Link.thy ===== *)
theory Bucc_Link
  imports Bucc_Layout
begin

text \<open>
  Labels, patches and the final code of the Buccaneer compiler (\<^verbatim>\<open>src/buccaneer/emit.c\<close>): a jump of the
  resolved code leads to where its label was placed, whatever was emitted before and after it.

  \<^item> \<open>placing\<close> says which labels are placed and where; every function of the emitter keeps the places of the
    labels it did not create (\<open>placing_ops\<close>) and the labels of the loop around it (\<open>loop_of\<close>).
  \<^item> \<open>linked\<close> relates the code at some point of the emission to the final code, in which all patches are
    applied: the code so far is final except for the operands of jumps, and those are resolved.
\<close>

section \<open>Labels\<close>

text \<open>What belongs to labels in an emitter. Only \<open>bucc_emit_label\<close>, \<open>bucc_emit_label_here\<close> and the loops change it.\<close>

definition labelling :: "bucc_emitter_t \<Rightarrow> u32 list list \<times> nat \<times> nat \<times> nat" where
  "labelling e = (em_labels e, em_next_label e, em_loop_start_label e, em_loop_end_label e)"

lemma labelling_ops [simp]:
  "labelling (bucc_emit_bytes bs e) = labelling e" "labelling (bucc_emit_byte b e) = labelling e"
  "labelling (bucc_emit_op op e) = labelling e" "labelling (bucc_emit_op_u16 op w e) = labelling e"
  "labelling (bucc_emit_jump op l e) = labelling e" "labelling (bucc_emit_error e) = labelling e"
  "labelling (e\<lparr>em_local_count := k\<rparr>) = labelling e" "labelling (snd (bucc_emit_string s e)) = labelling e"
  "labelling (snd (add_constant v e)) = labelling e" "labelling (snd (bucc_emit_constant_i64 n e)) = labelling e"
  "labelling (snd (bucc_emit_constant_f64 fo d e)) = labelling e" "labelling (snd (bucc_emit_host_import ns fn e)) = labelling e"
  "labelling (emit_indexed op x) = labelling (snd x)"
  by (simp_all add: labelling_def bucc_emit_bytes_def bucc_emit_byte_def bucc_emit_op_def bucc_emit_op_u16_def bucc_emit_u16_def
      bucc_emit_jump_def Let_def bucc_emit_i32_def bucc_emit_u32_def bucc_emit_error_def bucc_emit_string_def add_constant_def
      bucc_emit_constant_i64_def bucc_emit_constant_f64_def bucc_emit_host_import_def emit_indexed_def split_def split: option.split)

lemma labelling_pieces [simp]:
  "labelling (emit_push_str s e) = labelling e" "labelling (emit_call_host ns fn n e) = labelling e"
  "labelling (emit_literal fo l e) = labelling e" "labelling (emit_ident name e) = labelling e"
  "labelling (emit_call_ident name n e) = labelling e" "labelling (bucc_emit_debug_line line col e) = labelling e"
  "labelling (emit_new_local e) = labelling e"
proof -
  show "labelling (bucc_emit_debug_line line col e) = labelling e"
    by (simp add: bucc_emit_debug_line_def) (simp add: labelling_def)
qed (cases l; simp add: emit_push_str_def emit_call_host_def emit_ident_def emit_call_ident_def emit_new_local_def
    split: option.split bucc_symbol_kind_t.split)+

lemma labelling_expr [simp]:
  "labelling (emit_expr fo x e) = labelling e" "labelling (emit_exprs fo xs e) = labelling e" "labelling (emit_pairs fo ps e) = labelling e"
  by (induction fo x e and fo xs e and fo ps e rule: emit_expr_emit_exprs_emit_pairs.induct)
    (simp_all add: Let_def split: bucc_expr.split)

lemma labelling_parts [simp]:
  "labelling (emit_lvalue_store fo t e) = labelling e" "labelling (emit_opt_expr fo o' e) = labelling e"
  "labelling (emit_case_values fo b vs e) = labelling e" "labelling (emit_case_ranges fo b rs e) = labelling e"
proof -
  show "labelling (emit_lvalue_store fo t e) = labelling e"
    by (cases t) (simp_all split: option.split bucc_symbol_kind_t.split)
  show "labelling (emit_case_values fo b vs e) = labelling e"
    by (induction fo b vs e rule: emit_case_values.induct) simp_all
  show "labelling (emit_case_ranges fo b rs e) = labelling e"
    by (induction fo b rs e rule: emit_case_ranges.induct) simp_all
qed (simp add: emit_opt_expr_def split: option.split)

text \<open>
  \<open>placing n f A e\<close>: the labels below \<open>n\<close> are as \<open>f\<close> says, every label from \<open>n\<close> on has been placed at most once,
  and those in \<open>A\<close> have been made but not placed.
\<close>

definition placing :: "nat \<Rightarrow> (nat \<Rightarrow> u32 list) \<Rightarrow> nat set \<Rightarrow> bucc_emitter_t \<Rightarrow> bool" where
  "placing n f A e \<longleftrightarrow> em_labels e \<noteq> [] \<and> n \<le> em_next_label e \<and> em_next_label e \<le> length (em_labels e) \<and>
     (\<forall>l < n. label_of e l = f l) \<and> (\<forall>l \<ge> n. length (label_of e l) \<le> 1) \<and> (\<forall>l \<ge> em_next_label e. label_of e l = []) \<and>
     (\<forall>l \<in> A. n \<le> l \<and> l < em_next_label e \<and> label_of e l = [])"

lemma placing_cong: "labelling e' = labelling e \<Longrightarrow> placing n f A e' = placing n f A e"
  by (simp add: placing_def labelling_def label_of_def)

lemmas placing_simps [simp] =
  labelling_ops(3,4,5,6,7) [THEN placing_cong] labelling_ops(2) [THEN placing_cong] labelling_pieces [THEN placing_cong]
  labelling_expr [THEN placing_cong] labelling_parts [THEN placing_cong] labelling_ops(8-13) [THEN placing_cong]

lemma placing_loop [simp]: "placing n f A (set_loop a b e) = placing n f A e"
  by (simp add: placing_def label_of_def set_loop_def)

lemma label_new:
  assumes "bucc_emit_label e = (l, e')" "em_next_label e \<le> length (em_labels e)" "em_labels e \<noteq> []"
  shows "l = em_next_label e" "em_next_label e' = Suc l" "l < length (em_labels e')" "label_of e' = label_of e"
    "em_loop_start_label e' = em_loop_start_label e" "em_loop_end_label e' = em_loop_end_label e"
proof -
  let ?L = "if length (em_labels e) \<le> em_next_label e then em_labels e @ replicate (length (em_labels e)) [] else em_labels e"
  have e': "l = em_next_label e" "e' = e\<lparr>em_labels := ?L, em_next_label := Suc (em_next_label e)\<rparr>"
    using assms(1) by (auto simp: bucc_emit_label_def Let_def split: if_splits)
  show "l = em_next_label e" "em_next_label e' = Suc l" "em_loop_start_label e' = em_loop_start_label e"
    "em_loop_end_label e' = em_loop_end_label e"
    using e' by simp_all
  show "label_of e' = label_of e"
    by (rule ext) (simp add: e'(2) label_of_def nth_append)
  have "em_next_label e < length ?L"
    using assms(2,3) by (cases "length (em_labels e) \<le> em_next_label e") (auto simp: length_greater_0_conv [symmetric] simp del: length_greater_0_conv)
  then show "l < length (em_labels e')" using e' by simp
qed

lemma placing_label:
  assumes "placing n f A e" "bucc_emit_label e = (l, e')"
  shows "placing n f (insert l A) e'" "l \<notin> A"
proof -
  have "em_next_label e \<le> length (em_labels e)" "em_labels e \<noteq> []" using assms(1) by (simp_all add: placing_def)
  note new = label_new [OF assms(2) this]
  show "placing n f (insert l A) e'" using assms(1) new unfolding placing_def by (auto simp: less_Suc_eq)
  show "l \<notin> A" using assms(1) new(1) by (auto simp: placing_def)
qed

lemma label_of_here: "l < length (em_labels e) \<Longrightarrow>
    label_of (bucc_emit_label_here l e) = (label_of e)(l := word_of_nat (length (em_code e)) # label_of e l)"
  by (rule ext) (auto simp: label_of_def bucc_emit_label_here_def nth_list_update)

lemma here_next [simp]:
  "em_next_label (bucc_emit_label_here l e) = em_next_label e" "length (em_labels (bucc_emit_label_here l e)) = length (em_labels e)"
  "em_loop_end_label (bucc_emit_label_here l e) = em_loop_end_label e" "em_labels (bucc_emit_label_here l e) = [] \<longleftrightarrow> em_labels e = []"
  by (simp_all add: bucc_emit_label_here_def)

lemma placing_here:
  assumes "placing n f (insert l A) e" "l \<notin> A"
  shows "placing n f A (bucc_emit_label_here l e)"
proof -
  have l: "l < length (em_labels e)" "l < em_next_label e" "n \<le> l" "label_of e l = []" using assms(1) by (simp_all add: placing_def)
  show ?thesis using assms l(2-4) unfolding placing_def here_next label_of_here [OF l(1)] by auto
qed

definition places_block :: "float_ops \<Rightarrow> bucc_stmt list \<Rightarrow> bool" where
  "places_block fo b \<longleftrightarrow> (\<forall>n f A e. placing n f A e \<longrightarrow> placing n f A (emit_block fo b e))"

lemma places_blockD: "places_block fo b \<Longrightarrow> placing n f A e \<Longrightarrow> placing n f A (emit_block fo b e)"
  by (simp add: places_block_def)

lemma places_blockI: "(\<And>s n f A e. s \<in> set b \<Longrightarrow> placing n f A e \<Longrightarrow> placing n f A (emit_stmt fo s e)) \<Longrightarrow> places_block fo b"
  unfolding places_block_def by (induction b) simp_all

text \<open>Making a label before, and placing it after, a piece of code.\<close>

lemma placing_around:
  assumes "placing n f A e" "placing n f (insert (fst (bucc_emit_label e)) A) (snd (bucc_emit_label e)) \<Longrightarrow>
      fst (bucc_emit_label e) \<notin> A \<Longrightarrow> placing n f A (g (fst (bucc_emit_label e)) (snd (bucc_emit_label e)))"
  shows "placing n f A (case bucc_emit_label e of (l, e) \<Rightarrow> g l e)"
  using placing_label [OF assms(1), of "fst (bucc_emit_label e)" "snd (bucc_emit_label e)"] assms(2) by (simp add: split_def)

lemma placing_elseifs:
  "(\<And>x. x \<in> set es \<Longrightarrow> places_block fo (elseif_block x)) \<Longrightarrow> placing n f A e \<Longrightarrow> placing n f A (emit_elseifs fo l es e)"
proof (induction es arbitrary: e)
  case (Cons x es)
  obtain c b where x: "x = ElseIf c b" by (cases x)
  then have b: "places_block fo b" using Cons.prems(1) [of x] by simp
  show ?case
    unfolding x emit_elseifs.simps Let_def
  proof (rule placing_around [OF Cons.prems(2)])
    let ?l = "fst (bucc_emit_label e)" let ?e = "snd (bucc_emit_label e)"
    assume "placing n f (insert ?l A) ?e" "?l \<notin> A"
    then have "placing n f A (bucc_emit_label_here ?l (bucc_emit_jump OP_JMP l (emit_block fo b
        (bucc_emit_jump OP_JMP_FALSE ?l (emit_expr fo c ?e)))))"
      by (intro placing_here) (simp_all add: places_blockD [OF b])
    then show "placing n f A (emit_elseifs fo l es (bucc_emit_label_here ?l (bucc_emit_jump OP_JMP l (emit_block fo b
        (bucc_emit_jump OP_JMP_FALSE ?l (emit_expr fo c ?e))))))"
      using Cons.IH Cons.prems(1) by simp
  qed
qed simp

lemma placing_cases:
  "(\<And>x. x \<in> set cs \<Longrightarrow> places_block fo (case_block x)) \<Longrightarrow> placing n f A e \<Longrightarrow> placing n f A (emit_cases fo l cs e)"
proof (induction cs arbitrary: e)
  case (Cons x cs)
  obtain vs los his b where x: "x = NODE_STMT_CASE vs los his b" by (cases x)
  then have b: "places_block fo b" using Cons.prems(1) [of x] by simp
  show ?case
    unfolding x emit_cases.simps Let_def
  proof (rule placing_around [OF Cons.prems(2)])
    let ?l = "fst (bucc_emit_label e)" let ?e = "snd (bucc_emit_label e)"
    assume l: "placing n f (insert ?l A) ?e" "?l \<notin> A"
    show "placing n f A (case bucc_emit_label ?e of (k, e) \<Rightarrow> emit_cases fo l cs (bucc_emit_label_here ?l (bucc_emit_jump OP_JMP l
        (emit_block fo b (bucc_emit_op OP_POP (bucc_emit_label_here k (bucc_emit_jump OP_JMP ?l
          (emit_case_ranges fo k (zip los his) (emit_case_values fo k vs e)))))))))"
      using placing_label [OF l(1), of "fst (bucc_emit_label ?e)" "snd (bucc_emit_label ?e)"] l(2) Cons.prems(1)
      by (auto simp: split_def intro!: Cons.IH placing_here places_blockD [OF b])
  qed
qed simp


lemma placing_labels:
  assumes "placing n f A e"
  shows "placing n f (insert (fst (bucc_emit_label e)) A) (snd (bucc_emit_label e))" "fst (bucc_emit_label e) \<notin> A"
  using placing_label [OF assms, of "fst (bucc_emit_label e)" "snd (bucc_emit_label e)"] by simp_all

text \<open>Two labels, placed in the order they were made or the other way round.\<close>

lemma placing_two:
  assumes "placing n f A e"
  defines "a \<equiv> fst (bucc_emit_label e)" and "e1 \<equiv> snd (bucc_emit_label e)"
  defines "b \<equiv> fst (bucc_emit_label e1)" and "e2 \<equiv> snd (bucc_emit_label e1)"
  shows "placing n f (insert a (insert b A)) e2" "a \<noteq> b" "a \<notin> A" "b \<notin> A"
  using placing_labels [OF assms(1)] placing_labels [of n f "insert a A" e1]
  unfolding a_def e1_def b_def e2_def by (auto simp: insert_commute)

lemma placing_here1: "placing n f (insert a A) e \<Longrightarrow> a \<notin> A \<Longrightarrow> placing n f A (bucc_emit_label_here a e)"
  by (rule placing_here)

lemma placing_here2:
  "placing n f (insert a (insert b A)) e \<Longrightarrow> a \<noteq> b \<Longrightarrow> a \<notin> A \<Longrightarrow> placing n f (insert b A) (bucc_emit_label_here a e)"
  by (rule placing_here) simp_all

lemma placing_stmt:
  fixes st :: bucc_stmt and nd :: bucc_stmt_node and ei :: bucc_elseif and ca :: bucc_case
  shows "placing n f A e \<Longrightarrow> placing n f A (emit_stmt fo st e)" "placing n f A e \<Longrightarrow> placing n f A (emit_node fo nd e)"
    "places_block fo (elseif_block ei)" "places_block fo (case_block ca)"
proof (induction st and nd and ei and ca arbitrary: n f A e and n f A e)
  case (NODE_STMT_IF c thens elseifs elses)
  then have b: "places_block fo thens" "places_block fo elses" by (simp_all add: places_blockI)
  note p = placing_two [OF NODE_STMT_IF.prems]
  show ?case
    unfolding emit_node.simps Let_def split_def
    using p NODE_STMT_IF.IH by (intro placing_here1 places_blockD [OF b(2)] placing_elseifs placing_here2) (simp_all add: places_blockD [OF b(1)])
next
  case (NODE_STMT_SELECT x cases elses)
  then have b: "places_block fo elses" by (simp add: places_blockI)
  show ?case
    unfolding emit_node.simps Let_def split_def
    using placing_labels [OF NODE_STMT_SELECT.prems] NODE_STMT_SELECT.IH
    by (intro placing_here1 places_blockD [OF b]) (simp_all add: placing_cases)
next
  case (NODE_STMT_WHILE c body)
  then have b: "places_block fo body" by (simp add: places_blockI)
  note p = placing_two [OF NODE_STMT_WHILE.prems]
  show ?case
    unfolding emit_node.simps Let_def split_def placing_loop
    using p by (intro placing_here1) (simp_all add: places_blockD [OF b] placing_here2)
next
  case (NODE_STMT_DO_LOOP body c kind)
  then have b: "places_block fo body" by (simp add: places_blockI)
  note p = placing_two [OF NODE_STMT_DO_LOOP.prems]
  show ?case
    unfolding emit_node.simps Let_def split_def placing_loop
    using p by (intro placing_here1) (simp_all add: places_blockD [OF b] placing_here2 split: option.split)
next
  case (NODE_STMT_FOR var start final step body)
  then have b: "places_block fo body" by (simp add: places_blockI)
  note p = placing_two [OF NODE_STMT_FOR.prems]
  show ?case
    unfolding emit_node.simps Let_def split_def placing_loop
    using p by (intro placing_here1) (simp_all add: places_blockD [OF b] placing_here2 split: option.split)
next
  case (NODE_STMT_TRY_CATCH body var handler)
  then have b: "places_block fo body" "places_block fo handler" by (simp_all add: places_blockI)
  note p = placing_two [OF NODE_STMT_TRY_CATCH.prems]
  show ?case
    unfolding emit_node.simps Let_def split_def
    using p by (intro placing_here1 places_blockD [OF b(2)]) (simp_all add: places_blockD [OF b(1)] placing_here2 split: option.split)
qed (simp_all add: places_blockI Let_def split_def split: option.split)

lemma placing_block: "placing n f A e \<Longrightarrow> placing n f A (emit_block fo b e)"
  by (rule places_blockD [OF places_blockI]) (rule placing_stmt(1))

text \<open>A statement leaves the labels of the loop around it as they were.\<close>

definition loop_of :: "bucc_emitter_t \<Rightarrow> nat \<times> nat" where
  "loop_of e = (em_loop_start_label e, em_loop_end_label e)"

lemma loop_of_cong: "labelling e' = labelling e \<Longrightarrow> loop_of e' = loop_of e"
  by (simp add: loop_of_def labelling_def)

lemmas loop_simps [simp] =
  labelling_ops(3,4,5,6,7) [THEN loop_of_cong] labelling_ops(2) [THEN loop_of_cong] labelling_pieces [THEN loop_of_cong]
  labelling_expr [THEN loop_of_cong] labelling_parts [THEN loop_of_cong] labelling_ops(8-13) [THEN loop_of_cong]

lemma loop_of_labels [simp]:
  "loop_of (snd (bucc_emit_label e)) = loop_of e" "loop_of (bucc_emit_label_here l e) = loop_of e" "loop_of (set_loop a b e) = (a, b)"
  by (simp_all add: loop_of_def bucc_emit_label_def bucc_emit_label_here_def set_loop_def Let_def)

lemma loop_label [simp]: "em_loop_start_label e = fst (loop_of e)" "em_loop_end_label e = snd (loop_of e)"
  by (simp_all add: loop_of_def)

definition same_loop :: "float_ops \<Rightarrow> bucc_stmt list \<Rightarrow> bool" where
  "same_loop fo b \<longleftrightarrow> (\<forall>e. loop_of (emit_block fo b e) = loop_of e)"

lemma same_loopI: "(\<And>s e. s \<in> set b \<Longrightarrow> loop_of (emit_stmt fo s e) = loop_of e) \<Longrightarrow> same_loop fo b"
  unfolding same_loop_def by (induction b) simp_all

lemma same_loopD: "same_loop fo b \<Longrightarrow> loop_of (emit_block fo b e) = loop_of e"
  by (simp add: same_loop_def)

lemma loop_elseifs:
  "(\<And>x. x \<in> set es \<Longrightarrow> same_loop fo (elseif_block x)) \<Longrightarrow> loop_of (emit_elseifs fo l es e) = loop_of e"
proof (induction es arbitrary: e)
  case (Cons x es)
  obtain c b where x: "x = ElseIf c b" by (cases x)
  then have "same_loop fo b" using Cons.prems [of x] by simp
  then show ?case using Cons by (simp add: x Let_def split_def same_loopD)
qed simp

lemma loop_cases:
  "(\<And>x. x \<in> set cs \<Longrightarrow> same_loop fo (case_block x)) \<Longrightarrow> loop_of (emit_cases fo l cs e) = loop_of e"
proof (induction cs arbitrary: e)
  case (Cons x cs)
  obtain vs los his b where x: "x = NODE_STMT_CASE vs los his b" by (cases x)
  then have "same_loop fo b" using Cons.prems [of x] by simp
  then show ?case using Cons by (simp add: x Let_def split_def same_loopD)
qed simp

lemma loop_stmt:
  fixes st :: bucc_stmt and nd :: bucc_stmt_node and ei :: bucc_elseif and ca :: bucc_case
  shows "loop_of (emit_stmt fo st e) = loop_of e" "loop_of (emit_node fo nd e) = loop_of e"
    "same_loop fo (elseif_block ei)" "same_loop fo (case_block ca)"
  by (induction st and nd and ei and ca arbitrary: e and e)
    (simp_all add: Let_def split_def same_loopI same_loopD loop_elseifs loop_cases split: option.split)

lemma loop_block [simp]: "loop_of (emit_block fo b e) = loop_of e"
  by (rule same_loopD [OF same_loopI]) (rule loop_stmt(1))

section \<open>Resolved code\<close>

lemma write_at_nth:
  assumes "off + length bs \<le> length c" "i < length c"
  shows "write_at off bs c ! i = (if off \<le> i \<and> i < off + length bs then bs ! (i - off) else c ! i)"
  using assms by (auto simp: write_at_def nth_append min_def)

lemma write_at_same_length: "off + length bs \<le> length c \<Longrightarrow> length (write_at off bs c) = length c"
  by (simp add: write_at_def)

definition in_operand :: "nat list \<Rightarrow> nat \<Rightarrow> bool" where
  "in_operand qs i \<longleftrightarrow> (\<exists>q \<in> set qs. q \<le> i \<and> i < q + 4)"

lemma spaced_le: "spaced lo qs hi \<Longrightarrow> lo \<le> hi"
proof (induction qs arbitrary: hi)
  case (Cons q qs)
  have "lo \<le> q - 1" using Cons.prems by (intro Cons.IH) simp
  then show ?case using Cons.prems by auto
qed simp

lemma spaced_bounds: "spaced lo qs hi \<Longrightarrow> q \<in> set qs \<Longrightarrow> lo < q \<and> q + 4 \<le> hi"
proof (induction qs arbitrary: hi)
  case (Cons p ps)
  have p: "p + 4 \<le> hi" "0 < p" "spaced lo ps (p - 1)" using Cons.prems(1) by simp_all
  have "lo < q \<and> q + 4 \<le> p - 1" if "q \<in> set ps" using that by (rule Cons.IH [OF p(3)])
  then show ?case using p spaced_le [OF p(3)] Cons.prems(2) by auto
qed simp

text \<open>\<open>c'\<close> is \<open>c\<close> with the operand of each jump to a placed label set to the distance from behind it.\<close>

definition resolved :: "u32 list list \<Rightarrow> bucc_patch_t list \<Rightarrow> nat list \<Rightarrow> bytes \<Rightarrow> bytes \<Rightarrow> bool" where
  "resolved labels ps qs c c' \<longleftrightarrow> length c' = length c \<and> (\<forall>i < length c. \<not> in_operand qs i \<longrightarrow> c' ! i = c ! i) \<and>
     (\<forall>k < length ps. \<forall>t ts. pt_label_id (ps ! k) < length labels \<longrightarrow> labels ! pt_label_id (ps ! k) = t # ts \<longrightarrow>
        (\<forall>j < 4. c' ! (qs ! k + j) = u32_bytes (t - word_of_nat (qs ! k + 4)) ! j))"

lemma apply_patch_resolved:
  assumes "pt_offset p = word_of_nat q" "q + 4 \<le> length c" "length c < 2 ^ 32"
  shows "resolved labels [p] [q] c (apply_patch labels p c)"
proof -
  have q: "unat (pt_offset p) = q" "pt_offset p + 4 = word_of_nat (q + 4)" using assms by (simp_all add: unat_of_nat)
  have n: "write_at q (u32_bytes w) c ! i = (if q \<le> i \<and> i < q + 4 then u32_bytes w ! (i - q) else c ! i)" if "i < length c" for w i
    using write_at_nth [of q "u32_bytes w" c i] that assms(2) by (simp add: u32_bytes_def)
  have l: "length (write_at q (u32_bytes w) c) = length c" for w
    using write_at_same_length [of q "u32_bytes w" c] assms(2) by (simp add: u32_bytes_def)
  show ?thesis
    using assms(2) by (auto simp: resolved_def apply_patch_def q l n in_operand_def split: list.split)
qed

lemma resolve_patches:
  "map pt_offset ps = map word_of_nat qs \<Longrightarrow> spaced lo qs hi \<Longrightarrow> hi \<le> length c \<Longrightarrow> length c < 2 ^ 32 \<Longrightarrow>
   resolved labels ps qs c (fold (apply_patch labels) ps c)"
proof (induction ps arbitrary: qs hi c)
  case Nil
  then show ?case by (simp add: resolved_def)
next
  case (Cons p ps)
  obtain q qs' where qs: "qs = q # qs'" "pt_offset p = word_of_nat q" "map pt_offset ps = map word_of_nat qs'"
    using Cons.prems(1) by auto
  have sp: "q + 4 \<le> hi" "0 < q" "spaced lo qs' (q - 1)" using Cons.prems(2) qs(1) by simp_all
  let ?c = "apply_patch labels p c"
  have p: "resolved labels [p] [q] c ?c" using sp(1) Cons.prems(3,4) by (intro apply_patch_resolved [OF qs(2)]) simp_all
  then have len: "length ?c = length c" by (simp add: resolved_def)
  have ps: "resolved labels ps qs' ?c (fold (apply_patch labels) ps ?c)"
    using sp Cons.prems(3,4) len by (intro Cons.IH [OF qs(3) sp(3)]) simp_all
  have out: "\<not> in_operand qs' i" if "q \<le> i" for i
    using spaced_bounds [OF sp(3)] that by (fastforce simp: in_operand_def)
  have "fold (apply_patch labels) ps ?c ! (q + j) = ?c ! (q + j)" if "j < 4" for j
    using ps out [of "q + j"] that len sp(1) Cons.prems(3) by (simp add: resolved_def)
  then show ?case
    using p ps len unfolding resolved_def by (auto simp: qs(1) in_operand_def nth_Cons' less_Suc_eq_0_disj)
qed

text \<open>
  The final code \<open>C\<close> and the final places \<open>T\<close> of the labels, seen from the emitter at some point on the way:
  the code so far, except the operands of jumps, is final, jumps to placed labels are resolved, and so are the labels
  placed so far.
\<close>

definition operands :: "bucc_emitter_t \<Rightarrow> nat list" where
  "operands e = map (\<lambda>p. unat (pt_offset p)) (em_patches e)"

definition linked :: "bytes \<Rightarrow> (nat \<Rightarrow> u32 list) \<Rightarrow> bucc_emitter_t \<Rightarrow> bool" where
  "linked C T e \<longleftrightarrow> length (em_code e) \<le> length C \<and>
     (\<forall>i < length (em_code e). \<not> in_operand (operands e) i \<longrightarrow> C ! i = em_code e ! i) \<and>
     (\<forall>p \<in> set (em_patches e). \<forall>t ts. T (pt_label_id p) = t # ts \<longrightarrow>
        (\<forall>j < 4. C ! (unat (pt_offset p) + j) = u32_bytes (t - (pt_offset p + 4)) ! j)) \<and>
     (\<forall>l. \<forall>off \<in> set (label_of e l). T l = [off])"

definition inside_code :: "bucc_emitter_t \<Rightarrow> bool" where
  "inside_code e \<longleftrightarrow> (\<forall>q \<in> set (operands e). q + 4 \<le> length (em_code e))"

lemma extends_operands:
  assumes "extends e e'" "length (em_code e') < 2 ^ 32"
  shows "\<exists>qs. operands e' = qs @ operands e \<and> (\<forall>q \<in> set qs. length (em_code e) < q \<and> q + 4 \<le> length (em_code e'))"
    "length (em_code e) \<le> length (em_code e')"
proof -
  obtain ps qs where ps: "em_patches e' = ps @ em_patches e" "map pt_offset ps = map word_of_nat qs"
      "spaced (length (em_code e)) qs (length (em_code e'))"
    using assms(1) by (auto simp: extends_def)
  have b: "length (em_code e) < q \<and> q + 4 \<le> length (em_code e')" if "q \<in> set qs" for q
    using spaced_bounds [OF ps(3) that] .
  then have "map (\<lambda>q. unat (word_of_nat q :: u32)) qs = qs"
    using assms(2) by (intro map_idI) (fastforce simp: unat_of_nat)
  moreover have "map (\<lambda>p. unat (pt_offset p)) ps = map unat (map pt_offset ps)" by simp
  ultimately have "map (\<lambda>p. unat (pt_offset p)) ps = qs" unfolding ps(2) by (simp add: comp_def)
  then show "\<exists>qs. operands e' = qs @ operands e \<and> (\<forall>q \<in> set qs. length (em_code e) < q \<and> q + 4 \<le> length (em_code e'))"
    using ps(1) b by (intro exI [of _ qs]) (simp add: operands_def)
  show "length (em_code e) \<le> length (em_code e')" using spaced_le [OF ps(3)] .
qed

lemma inside_extends:
  assumes "inside_code e" "extends e e'" "length (em_code e') < 2 ^ 32"
  shows "inside_code e'"
  using extends_operands [OF assms(2,3)] assms(1) by (fastforce simp: inside_code_def)

lemma linked_before:
  assumes "linked C T e'" "extends e e'" "length C < 2 ^ 32"
  shows "linked C T e"
proof -
  have len: "length (em_code e') < 2 ^ 32" using assms(1,3) by (simp add: linked_def)
  obtain qs where qs: "operands e' = qs @ operands e" "\<forall>q \<in> set qs. length (em_code e) < q"
    using extends_operands(1) [OF assms(2) len] by blast
  obtain bs ps where e': "em_code e' = em_code e @ bs" "em_patches e' = ps @ em_patches e"
    using assms(2) by (auto simp: extends_def)
  have "T l = [off]" if "off \<in> set (label_of e l)" for l off
    using that assms(1,2) unfolding linked_def extends_def by blast
  moreover have "\<not> in_operand (operands e') i" if "i < length (em_code e)" "\<not> in_operand (operands e) i" for i
    using that qs by (fastforce simp: in_operand_def)
  ultimately show ?thesis
    using assms(1) e' unfolding linked_def by (auto simp: nth_append)
qed

lemma linked_code:
  assumes "linked C T e'" "inside_code e" "em_code e' = em_code e @ bs" "em_patches e' = em_patches e" "j < length bs"
  shows "C ! (length (em_code e) + j) = bs ! j"
proof -
  have "\<not> in_operand (operands e') (length (em_code e) + j)"
    using assms(2,4) by (fastforce simp: in_operand_def inside_code_def operands_def)
  then show ?thesis using assms(1,3,5) by (simp add: linked_def)
qed

lemma jump_fields:
  "em_code (bucc_emit_jump op l e) = em_code e @ op # [0, 0, 0, 0]"
  "em_patches (bucc_emit_jump op l e) = \<lparr>pt_offset = word_of_nat (length (em_code e) + 1), pt_label_id = l\<rparr> # em_patches e"
  by (simp_all add: bucc_emit_jump_def Let_def bucc_emit_i32_def bucc_emit_u32_def u32_bytes_def bucc_emit_byte_def bucc_emit_bytes_def)

lemma linked_jump:
  assumes "linked C T (bucc_emit_jump op l e)" "inside_code e" "T l = [t]" "length C < 2 ^ 32" "j < 5"
  shows "C ! (length (em_code e) + j) = (op # u32_bytes (t - word_of_nat (length (em_code e) + 5))) ! j"
proof -
  let ?n = "length (em_code e)"
  have len: "?n + 5 \<le> length C" using assms(1) by (simp add: linked_def jump_fields)
  then have u: "unat (word_of_nat (?n + 1) :: u32) = ?n + 1" using assms(4) by (simp add: unat_of_nat del: of_nat_add of_nat_Suc)
  show ?thesis
  proof (cases j)
    case 0
    have "\<not> in_operand (operands (bucc_emit_jump op l e)) ?n"
      using assms(2) u by (fastforce simp: in_operand_def inside_code_def operands_def jump_fields simp del: of_nat_add of_nat_Suc)
    then have "C ! ?n = em_code (bucc_emit_jump op l e) ! ?n" using assms(1) by (simp add: linked_def jump_fields)
    then show ?thesis using 0 by (simp add: jump_fields)
  next
    case (Suc i)
    let ?p = "\<lparr>pt_offset = word_of_nat (?n + 1), pt_label_id = l\<rparr>"
    have "?p \<in> set (em_patches (bucc_emit_jump op l e))" by (simp add: jump_fields)
    moreover have "\<forall>p \<in> set (em_patches (bucc_emit_jump op l e)). \<forall>t ts. T (pt_label_id p) = t # ts \<longrightarrow>
        (\<forall>j < 4. C ! (unat (pt_offset p) + j) = u32_bytes (t - (pt_offset p + 4)) ! j)"
      using assms(1) by (simp add: linked_def)
    ultimately have "\<forall>t ts. T (pt_label_id ?p) = t # ts \<longrightarrow>
        (\<forall>j < 4. C ! (unat (pt_offset ?p) + j) = u32_bytes (t - (pt_offset ?p + 4)) ! j)" by blast
    then have "C ! (?n + 1 + i) = u32_bytes (t - (word_of_nat (?n + 1) + 4)) ! i"
      using assms(3,5) Suc u by (simp del: of_nat_add of_nat_Suc)
    moreover have "word_of_nat (?n + 1) + 4 = (word_of_nat (?n + 5) :: u32)" by simp
    ultimately show ?thesis using Suc by (simp add: algebra_simps)
  qed
qed

lemma linked_label: "linked C T (bucc_emit_label_here l e) \<Longrightarrow> l < length (em_labels e) \<Longrightarrow> T l = [word_of_nat (length (em_code e))]"
  by (simp add: linked_def label_of_here)

end
