(* ===== verification/Bucc_Source.thy ===== *)
theory Bucc_Source
  imports Bucc_Emit Bucc_Machine
begin

text \<open>
  A semantics of the Buccaneer language on its syntax trees, as the specification of the compiler: the value of an
  expression in a store of global variables (\<open>expr_value\<close>), and what a block of statements does to the store
  (\<open>runs\<close>, a big-step relation). It covers scalar values, global variables, assignments, expression statements,
  \<open>IF\<close> with \<open>ELSEIF\<close>, \<open>WHILE\<close>, \<open>DO\<close> and \<open>EXIT\<close>; what has no value here (strings, arrays, calls, a division by zero)
  is outside of the specification.
\<close>

section \<open>Expressions\<close>

definition truth :: "float_ops \<Rightarrow> bucc_value \<Rightarrow> bool option" where
  "truth fo v =
     (case v of
        VNull \<Rightarrow> Some False
      | VBool b \<Rightarrow> Some b
      | VI64 n \<Rightarrow> Some (n \<noteq> 0)
      | VF64 d \<Rightarrow> Some (\<not> f_eq fo d (f_zero fo))
      | _ \<Rightarrow> None)"

text \<open>Two integers are combined as integers, cut to 64 bits; an integer and a float as floats.\<close>

fun arith :: "float_ops \<Rightarrow> bucc_binary_op_t \<Rightarrow> bucc_value \<Rightarrow> bucc_value \<Rightarrow> bucc_value option" where
  "arith fo op (VI64 a) (VI64 b) =
     (case op of
        BINARY_ADD \<Rightarrow> Some (VI64 (word_of_int (sint a + sint b)))
      | BINARY_SUB \<Rightarrow> Some (VI64 (word_of_int (sint a - sint b)))
      | BINARY_MUL \<Rightarrow> Some (VI64 (word_of_int (sint a * sint b)))
      | BINARY_DIV \<Rightarrow>
          if b = 0 \<or> sint a = - (2 ^ 63) \<and> sint b = -1 then None else Some (VI64 (word_of_int (sint a sdiv sint b)))
      | BINARY_MOD \<Rightarrow>
          if b = 0 \<or> sint a = - (2 ^ 63) \<and> sint b = -1 then None else Some (VI64 (word_of_int (sint a smod sint b)))
      | _ \<Rightarrow> None)"
| "arith fo op a b =
     (if BUCC_IS_NUMERIC a \<and> BUCC_IS_NUMERIC b then
        (let x = num_f64 fo a; y = num_f64 fo b in
         case op of
           BINARY_ADD \<Rightarrow> Some (VF64 (f_add fo x y))
         | BINARY_SUB \<Rightarrow> Some (VF64 (f_sub fo x y))
         | BINARY_MUL \<Rightarrow> Some (VF64 (f_mul fo x y))
         | BINARY_DIV \<Rightarrow> if f_eq fo y (f_zero fo) then None else Some (VF64 (f_div fo x y))
         | _ \<Rightarrow> None)
      else None)"

text \<open>Numbers of different kinds are equal when they are equal as floats; values of other kinds are not.\<close>

fun equals :: "float_ops \<Rightarrow> bucc_value \<Rightarrow> bucc_value \<Rightarrow> bool" where
  "equals fo VNull VNull = True"
| "equals fo (VBool a) (VBool b) = (a = b)"
| "equals fo (VI64 a) (VI64 b) = (a = b)"
| "equals fo a b = (BUCC_IS_NUMERIC a \<and> BUCC_IS_NUMERIC b \<and> f_eq fo (num_f64 fo a) (num_f64 fo b))"

definition below :: "float_ops \<Rightarrow> bucc_value \<Rightarrow> bucc_value \<Rightarrow> bool option" where
  "below fo a b = (if BUCC_IS_NUMERIC a \<and> BUCC_IS_NUMERIC b then Some (f_lt fo (num_f64 fo a) (num_f64 fo b)) else None)"

definition scalar :: "bucc_value \<Rightarrow> bool" where
  "scalar v = (case v of VNull \<Rightarrow> True | VBool _ \<Rightarrow> True | VI64 _ \<Rightarrow> True | VF64 _ \<Rightarrow> True | _ \<Rightarrow> False)"

definition binary_value :: "float_ops \<Rightarrow> bucc_binary_op_t \<Rightarrow> bucc_value \<Rightarrow> bucc_value \<Rightarrow> bucc_value option" where
  "binary_value fo op a b =
     (if \<not> scalar a \<or> \<not> scalar b then None
      else case op of
        BINARY_EQ \<Rightarrow> Some (VBool (equals fo a b))
      | BINARY_NE \<Rightarrow> Some (VBool (\<not> equals fo a b))
      | BINARY_LT \<Rightarrow> do { x \<leftarrow> below fo a b; Some (VBool x) }
      | BINARY_GE \<Rightarrow> do { x \<leftarrow> below fo a b; Some (VBool (\<not> x)) }
      | BINARY_GT \<Rightarrow> do { x \<leftarrow> below fo a b; y \<leftarrow> below fo b a; Some (VBool (\<not> x \<and> y)) }
      | BINARY_LE \<Rightarrow> do { x \<leftarrow> below fo a b; y \<leftarrow> below fo b a; Some (VBool (x \<or> \<not> y)) }
      | BINARY_AND \<Rightarrow> do { x \<leftarrow> truth fo a; y \<leftarrow> truth fo b; Some (VBool (x \<and> y)) }
      | BINARY_OR \<Rightarrow> do { x \<leftarrow> truth fo a; y \<leftarrow> truth fo b; Some (VBool (x \<or> y)) }
      | BINARY_CONCAT \<Rightarrow> None
      | _ \<Rightarrow> arith fo op a b)"

fun unary_value :: "float_ops \<Rightarrow> bucc_unary_op_t \<Rightarrow> bucc_value \<Rightarrow> bucc_value option" where
  "unary_value fo UNARY_NEG (VI64 n) = Some (VI64 (word_of_int (- sint n)))"
| "unary_value fo UNARY_NEG (VF64 d) = Some (VF64 (f_neg fo d))"
| "unary_value fo UNARY_NEG _ = None"
| "unary_value fo UNARY_NOT v = do { x \<leftarrow> truth fo v; Some (VBool (\<not> x)) }"

text \<open>
  The value of an expression in a store of global variables, with \<open>d\<close> places of operand stack left.
  \<open>slot\<close> gives the place of a global variable. Expressions outside the language of scalars have no value.
\<close>

type_synonym store = "nat \<Rightarrow> bucc_value"

fun expr_value :: "float_ops \<Rightarrow> (bytes \<Rightarrow> nat option) \<Rightarrow> nat \<Rightarrow> store \<Rightarrow> bucc_expr \<Rightarrow> bucc_value option" where
  "expr_value fo slot 0 s x = None"
| "expr_value fo slot (Suc d) s (NODE_EXPR_LITERAL l) =
     (case l of LNull \<Rightarrow> Some VNull | LBool b \<Rightarrow> Some (VBool b) | LI64 n \<Rightarrow> Some (VI64 n) | _ \<Rightarrow> None)"
| "expr_value fo slot (Suc d) s (NODE_EXPR_IDENT name) =
     (case slot name of Some i \<Rightarrow> if scalar (s i) then Some (s i) else None | None \<Rightarrow> None)"
| "expr_value fo slot (Suc d) s (NODE_EXPR_UNARY op a) =
     do { v \<leftarrow> expr_value fo slot (Suc d) s a; unary_value fo op v }"
| "expr_value fo slot (Suc d) s (NODE_EXPR_BINARY op a b) =
     do { v \<leftarrow> expr_value fo slot (Suc d) s a; w \<leftarrow> expr_value fo slot d s b; binary_value fo op v w }"
| "expr_value fo slot (Suc d) s _ = None"

section \<open>Statements\<close>

text \<open>
  What a block of statements does to the store, if it ends: assignments to global variables, expression
  statements, conditionals, loops and \<open>EXIT\<close>. The result says whether the block was left by an \<open>EXIT\<close> from
  the loop around it. An \<open>IF\<close> with its \<open>ELSEIF\<close> clauses is a chain of guarded blocks.
\<close>

inductive runs :: "float_ops \<Rightarrow> (bytes \<Rightarrow> nat option) \<Rightarrow> nat \<Rightarrow> bucc_stmt list \<Rightarrow> store \<Rightarrow> bool \<times> store \<Rightarrow> bool"
  and chooses :: "float_ops \<Rightarrow> (bytes \<Rightarrow> nat option) \<Rightarrow> nat \<Rightarrow> bucc_elseif list \<Rightarrow> bucc_stmt list \<Rightarrow> store \<Rightarrow> bool \<times> store \<Rightarrow> bool"
  for fo slot d where
  stop: "runs fo slot d [] s (False, s)"
| assign: "slot g = Some i \<Longrightarrow> expr_value fo slot d s x = Some v \<Longrightarrow> runs fo slot d ss (s(i := v)) r \<Longrightarrow>
    runs fo slot d (Stmt line col (NODE_STMT_ASSIGN (NODE_EXPR_IDENT g) x) # ss) s r"
| expr: "expr_value fo slot d s x = Some v \<Longrightarrow> runs fo slot d ss s r \<Longrightarrow>
    runs fo slot d (Stmt line col (NODE_STMT_EXPR x) # ss) s r"
| exit: "runs fo slot d (Stmt line col NODE_STMT_EXIT # ss) s (True, s)"
| cond: "chooses fo slot d (ElseIf c thens # elseifs) elses s (False, s1) \<Longrightarrow> runs fo slot d ss s1 r \<Longrightarrow>
    runs fo slot d (Stmt line col (NODE_STMT_IF c thens elseifs elses) # ss) s r"
| cond_exit: "chooses fo slot d (ElseIf c thens # elseifs) elses s (True, s1) \<Longrightarrow>
    runs fo slot d (Stmt line col (NODE_STMT_IF c thens elseifs elses) # ss) s (True, s1)"
| while_stop: "expr_value fo slot d s c = Some v \<Longrightarrow> truth fo v = Some False \<Longrightarrow> runs fo slot d ss s r \<Longrightarrow>
    runs fo slot d (Stmt line col (NODE_STMT_WHILE c body) # ss) s r"
| while_go: "expr_value fo slot d s c = Some v \<Longrightarrow> truth fo v = Some True \<Longrightarrow> runs fo slot d body s (False, s1) \<Longrightarrow>
    runs fo slot d (Stmt line col (NODE_STMT_WHILE c body) # ss) s1 r \<Longrightarrow>
    runs fo slot d (Stmt line col (NODE_STMT_WHILE c body) # ss) s r"
| while_exit: "expr_value fo slot d s c = Some v \<Longrightarrow> truth fo v = Some True \<Longrightarrow> runs fo slot d body s (True, s1) \<Longrightarrow>
    runs fo slot d ss s1 r \<Longrightarrow> runs fo slot d (Stmt line col (NODE_STMT_WHILE c body) # ss) s r"
| do_stop: "runs fo slot d body s (False, s1) \<Longrightarrow> expr_value fo slot d s1 c = Some v \<Longrightarrow>
    truth fo v = Some (kind = LOOP_UNTIL) \<Longrightarrow> runs fo slot d ss s1 r \<Longrightarrow>
    runs fo slot d (Stmt line col (NODE_STMT_DO_LOOP body (Some c) kind) # ss) s r"
| do_go: "runs fo slot d body s (False, s1) \<Longrightarrow> expr_value fo slot d s1 c = Some v \<Longrightarrow>
    truth fo v = Some (kind \<noteq> LOOP_UNTIL) \<Longrightarrow>
    runs fo slot d (Stmt line col (NODE_STMT_DO_LOOP body (Some c) kind) # ss) s1 r \<Longrightarrow>
    runs fo slot d (Stmt line col (NODE_STMT_DO_LOOP body (Some c) kind) # ss) s r"
| do_forever: "runs fo slot d body s (False, s1) \<Longrightarrow>
    runs fo slot d (Stmt line col (NODE_STMT_DO_LOOP body None kind) # ss) s1 r \<Longrightarrow>
    runs fo slot d (Stmt line col (NODE_STMT_DO_LOOP body None kind) # ss) s r"
| do_exit: "runs fo slot d body s (True, s1) \<Longrightarrow> runs fo slot d ss s1 r \<Longrightarrow>
    runs fo slot d (Stmt line col (NODE_STMT_DO_LOOP body c kind) # ss) s r"
| otherwise: "runs fo slot d elses s r \<Longrightarrow> chooses fo slot d [] elses s r"
| chosen: "expr_value fo slot d s c = Some v \<Longrightarrow> truth fo v = Some True \<Longrightarrow> runs fo slot d thens s r \<Longrightarrow>
    chooses fo slot d (ElseIf c thens # cs) elses s r"
| passed: "expr_value fo slot d s c = Some v \<Longrightarrow> truth fo v = Some False \<Longrightarrow> chooses fo slot d cs elses s r \<Longrightarrow>
    chooses fo slot d (ElseIf c thens # cs) elses s r"

text \<open>The places of the global variables in a scope; a machine has room for 256 of them.\<close>

definition global_slot :: "bucc_scope_t list \<Rightarrow> bytes \<Rightarrow> nat option" where
  "global_slot sc name =
     (case bucc_scope_lookup name sc of
        Some symb \<Rightarrow> if sym_kind symb = SYM_GLOBAL \<and> sym_slot symb < 256 then Some (unat (sym_slot symb)) else None
      | None \<Rightarrow> None)"

end
