(* ===== verification/Bucc_Simulation.thy ===== *)
theory Bucc_Simulation
  imports Bucc_Control Bucc_Link Bucc_Source
begin

text \<open>
  Compiled expressions and jumps on the Buccaneer machine.

  \<^item> \<open>leads\<close> says that the machine gets from one configuration (position, operand stack, global variables) to
    another, in some number of instructions; \<open>code_at\<close> that some bytes are at a position of the machine's code.
  \<^item> One lemma per instruction that compiled code uses for scalars; then the code of an expression pushes its value.
\<close>

section \<open>Steps of the machine\<close>

primrec vm_steps :: "vm_env \<Rightarrow> nat \<Rightarrow> bucc_vm_t \<Rightarrow> bucc_vm_t option" where
  "vm_steps env 0 vm = Some vm"
| "vm_steps env (Suc n) vm =
     (case bucc_vm_step env vm of
        Some (VM_OK, vm') \<Rightarrow> if running vm' = running vm then vm_steps env n vm' else None
      | _ \<Rightarrow> None)"

lemma vm_steps_add: "vm_steps env (m + n) vm = do { vm \<leftarrow> vm_steps env m vm; vm_steps env n vm }"
  by (induction m arbitrary: vm) (auto split: option.split bucc_vm_status_t.split)

text \<open>
  What matters of a machine that runs compiled code outside of calls: the position in the code, the operand
  stack and the global variables. A machine that has not yet stored a global variable has fewer of them.
\<close>

type_synonym conf = "nat \<times> bucc_value list \<times> store"

definition holds :: "store \<Rightarrow> bucc_value list \<Rightarrow> bool" where
  "holds s g \<longleftrightarrow> length g \<le> 256 \<and> (\<forall>i < 256. s i = (if i < length g then g ! i else VNull)) \<and> list_all immediate g"

fun in_conf :: "conf \<Rightarrow> bucc_vm_t \<Rightarrow> bool" where
  "in_conf (p, st, s) vm \<longleftrightarrow> ip vm = word_of_nat p \<and> stack vm = st \<and> holds s (globals vm) \<and> status vm = VM_OK \<and>
     0 < h_stack (heap_of vm)"

definition same_rest :: "bucc_vm_t \<Rightarrow> bucc_vm_t \<Rightarrow> bool" where
  "same_rest vm vm' \<longleftrightarrow> frames vm' = frames vm \<and> locals vm' = locals vm \<and> try_stack vm' = try_stack vm \<and>
     limits vm' = limits vm \<and> running vm' = running vm \<and> heap_of vm' = heap_of vm"

definition reaches :: "vm_env \<Rightarrow> nat \<Rightarrow> conf \<Rightarrow> conf \<Rightarrow> bool" where
  "reaches env n c c' \<longleftrightarrow>
     (\<forall>vm. in_conf c vm \<longrightarrow> unat (c_instructions (counters vm)) + n \<le> unat (max_instructions (limits vm)) \<longrightarrow>
        (\<exists>vm'. vm_steps env n vm = Some vm' \<and> in_conf c' vm' \<and> same_rest vm vm' \<and>
               unat (c_instructions (counters vm')) = unat (c_instructions (counters vm)) + n))"

definition leads :: "vm_env \<Rightarrow> conf \<Rightarrow> conf \<Rightarrow> bool" where
  "leads env c c' \<longleftrightarrow> (\<exists>n. reaches env n c c')"

lemma leads_refl: "leads env c c"
  unfolding leads_def reaches_def by (rule exI [of _ 0]) (simp add: same_rest_def)

lemma leads_trans [trans]:
  assumes "leads env a b" "leads env b c"
  shows "leads env a c"
proof -
  obtain m n where m: "reaches env m a b" and n: "reaches env n b c" using assms by (auto simp: leads_def)
  have "reaches env (m + n) a c"
    unfolding reaches_def
  proof (intro allI impI)
    fix vm assume vm: "in_conf a vm" "unat (c_instructions (counters vm)) + (m + n) \<le> unat (max_instructions (limits vm))"
    obtain vm1 where v1: "vm_steps env m vm = Some vm1" "in_conf b vm1" "same_rest vm vm1"
        "unat (c_instructions (counters vm1)) = unat (c_instructions (counters vm)) + m"
      using m vm unfolding reaches_def by fastforce
    then have "unat (c_instructions (counters vm1)) + n \<le> unat (max_instructions (limits vm1))"
      using vm(2) by (simp add: same_rest_def)
    then obtain vm2 where "vm_steps env n vm1 = Some vm2" "in_conf c vm2" "same_rest vm1 vm2"
        "unat (c_instructions (counters vm2)) = unat (c_instructions (counters vm1)) + n"
      using n v1(2) unfolding reaches_def by blast
    then show "\<exists>vm'. vm_steps env (m + n) vm = Some vm' \<and> in_conf c vm' \<and> same_rest vm vm' \<and>
        unat (c_instructions (counters vm')) = unat (c_instructions (counters vm)) + (m + n)"
      using v1 by (auto simp: vm_steps_add same_rest_def)
  qed
  then show ?thesis by (auto simp: leads_def)
qed

text \<open>A byte sequence in the code of the machine.\<close>

definition code_at :: "vm_env \<Rightarrow> nat \<Rightarrow> bytes \<Rightarrow> bool" where
  "code_at env p bs \<longleftrightarrow> (\<exists>c pre post. bytecode (e_module env) = Some c \<and> c = pre @ bs @ post \<and> length pre = p \<and>
     length c + 8 < 2 ^ 32 \<and> bytecode_len (e_module env) = word_of_nat (length c))"

lemma code_at_append: "code_at env p (xs @ ys) \<Longrightarrow> code_at env p xs \<and> code_at env (p + length xs) ys"
  unfolding code_at_def by (metis append.assoc length_append)

lemma code_at_ok: "code_at env p bs \<Longrightarrow> code_ok env"
  by (auto simp: code_at_def code_ok_def)

lemma unat_ucast_u64: "unat (ucast (w :: u32) :: u64) = unat w"
  by transfer (simp add: take_bit_eq_mod)

lemma step_leads:
  assumes code: "code_at env p (op # args)"
    and step: "\<And>vm. ip vm = word_of_nat (p + 1) \<Longrightarrow> stack vm = st \<Longrightarrow> holds s (globals vm) \<Longrightarrow> status vm = VM_OK \<Longrightarrow>
      0 < h_stack (heap_of vm) \<Longrightarrow>
      \<exists>vm'. exec_op env op vm = Some vm' \<and> in_conf c' vm' \<and> same_rest vm vm' \<and>
        c_instructions (counters vm') = c_instructions (counters vm)"
  shows "leads env (p, st, s) c'"
proof -
  have "reaches env 1 (p, st, s) c'"
    unfolding reaches_def
  proof (intro allI impI)
    fix vm assume vm: "in_conf (p, st, s) vm" "unat (c_instructions (counters vm)) + 1 \<le> unat (max_instructions (limits vm))"
    obtain c pre post where c: "bytecode (e_module env) = Some c" "c = pre @ (op # args) @ post" "length pre = p"
        "length c + 8 < 2 ^ 32" "bytecode_len (e_module env) = word_of_nat (length c)"
      using code by (auto simp: code_at_def)
    have ip: "unat (ip vm) = p" using vm(1) c(2-4) by (simp add: unat_of_nat)
    have lim: "c_instructions (counters vm) < ucast (max_instructions (limits vm))"
    proof -
      have "unat (ucast (max_instructions (limits vm)) :: u64) = unat (max_instructions (limits vm))"
        by (rule unat_ucast_u64)
      then show ?thesis using vm(2) by (simp add: word_less_nat_alt)
    qed
    have at: "at_op env vm op"
      unfolding at_op_def using c ip vm(1) lim by (auto simp: nth_append)
    obtain vm' where vm': "exec_op env op (fetched vm) = Some vm'" "in_conf c' vm'" "same_rest (fetched vm) vm'"
        "c_instructions (counters vm') = c_instructions (counters (fetched vm))"
      using step [of "fetched vm"] vm(1) by auto
    have max: "unat (c_instructions (counters vm)) + 1 < 2 ^ 64"
      using order_le_less_trans [OF vm(2) unsigned_less] by simp
    have ok: "status vm' = VM_OK" using vm'(2) by (cases c') simp
    have "unat (c_instructions (counters vm) + 1) = unat (c_instructions (counters vm)) + 1"
      using max by (simp add: unat_word_ariths)
    then show "\<exists>vm'. vm_steps env 1 vm = Some vm' \<and> in_conf c' vm' \<and> same_rest vm vm' \<and>
        unat (c_instructions (counters vm')) = unat (c_instructions (counters vm)) + 1"
      using vm' ok step_at_op [OF at] by (auto simp: same_rest_def fetched_def)
  qed
  then show ?thesis by (auto simp: leads_def)
qed

subsection \<open>Single instructions\<close>

definition u16_bytes :: "u16 \<Rightarrow> bytes" where
  "u16_bytes w = [ucast (drop_bit 8 w), ucast w]"

lemma u16_of_bytes: "word_of_nat (unat (ucast (drop_bit 8 w) :: u8) * 256 + unat (ucast w :: u8)) = (w :: u16)"
proof -
  have "push_bit 8 (ucast (ucast (drop_bit 8 w) :: u8)) OR ucast (ucast w :: u8) = (w :: u16)"
  proof (rule bit_word_eqI)
    fix n assume "n < LENGTH(16)"
    then consider "n < 8" | "8 \<le> n" "n < 16" by fastforce
    then show "bit (push_bit 8 (ucast (ucast (drop_bit 8 w) :: u8)) OR ucast (ucast w :: u8) :: u16) n = bit w n"
      by cases (auto simp: bit_simps)
  qed
  then show ?thesis by (simp add: push_bit_or_bytes)
qed

lemma code_at_bytes:
  assumes "code_at env p bs"
  obtains c where "bytecode (e_module env) = Some c" "length c + 8 < 2 ^ 32" "p + length bs \<le> length c"
    "bytecode_len (e_module env) = word_of_nat (length c)" "\<And>i. i < length bs \<Longrightarrow> c ! (p + i) = bs ! i"
proof -
  obtain c pre post where c: "bytecode (e_module env) = Some c" "c = pre @ bs @ post" "length pre = p"
      "length c + 8 < 2 ^ 32" "bytecode_len (e_module env) = word_of_nat (length c)"
    using assms by (auto simp: code_at_def)
  have "c ! (p + i) = bs ! i" if "i < length bs" for i using that c(2,3) by (simp add: nth_append)
  then show ?thesis using that c by simp
qed

lemma read_operand:
  assumes "code_at env p (op # u16_bytes w)" "ip vm = word_of_nat (p + 1)"
  shows "read_u16 env vm = Some (w, vm\<lparr>ip := word_of_nat (p + 3)\<rparr>)"
proof -
  obtain c where c: "bytecode (e_module env) = Some c" "length c + 8 < 2 ^ 32" "p + 3 \<le> length c"
      "\<And>i. i < 3 \<Longrightarrow> c ! (p + i) = (op # u16_bytes w) ! i"
    using code_at_bytes [OF assms(1)] by (auto simp: u16_bytes_def numeral_3_eq_3)
  have u: "unat (ip vm) = p + 1" using assms(2) c(2,3) by (simp add: unat_of_nat del: of_nat_add of_nat_Suc)
  have "c ! (p + 1) = ucast (drop_bit 8 w)" "c ! (p + 2) = ucast w" using c(4) [of 1] c(4) [of 2] by (simp_all add: u16_bytes_def)
  then have "operand_u16 env (ip vm) = Some w"
    using c(1,3) u u16_of_bytes [of w] by (simp add: operand_u16_def)
  moreover have "ip vm + 2 = word_of_nat (p + 3)" using assms(2) by simp
  ultimately show ?thesis using read_u16_operand [OF code_at_ok [OF assms(1)], of vm w] by metis
qed

lemma exec_lookup:
  "map_of (exec_table env) OP_PUSH_NULL = Some (bucc_vm_push VNull)"
  "map_of (exec_table env) OP_PUSH_TRUE = Some (bucc_vm_push (VBool True))"
  "map_of (exec_table env) OP_PUSH_FALSE = Some (bucc_vm_push (VBool False))"
  "map_of (exec_table env) OP_PUSH_I64 = Some (exec_push_const env)"
  "map_of (exec_table env) OP_POP = Some exec_pop"
  "map_of (exec_table env) OP_LOAD_GLOBAL = Some (exec_load_global env)"
  "map_of (exec_table env) OP_STORE_GLOBAL = Some (exec_store_global env)"
  "map_of (exec_table env) OP_NEG = Some (exec_neg env)" "map_of (exec_table env) OP_NOT = Some (exec_not env)"
  "map_of (exec_table env) OP_EQ = Some (exec_equality env (\<lambda>b. b))" "map_of (exec_table env) OP_NE = Some (exec_equality env Not)"
  "map_of (exec_table env) OP_LT = Some (exec_compare env (\<lambda>c. c < 0))" "map_of (exec_table env) OP_LE = Some (exec_compare env (\<lambda>c. c \<le> 0))"
  "map_of (exec_table env) OP_GT = Some (exec_compare env (\<lambda>c. c > 0))" "map_of (exec_table env) OP_GE = Some (exec_compare env (\<lambda>c. c \<ge> 0))"
  "map_of (exec_table env) OP_AND = Some (exec_and env)" "map_of (exec_table env) OP_OR = Some (exec_or env)"
  "map_of (exec_table env) OP_JMP = Some (exec_jmp env)" "map_of (exec_table env) OP_JMP_FALSE = Some (exec_jmp_if env False)"
  "map_of (exec_table env) OP_JMP_TRUE = Some (exec_jmp_if env True)"
  "map_of (exec_table env) OP_DEBUG_LINE = Some (\<lambda>vm. map_option snd (read_u16 env vm))"
  "map_of (exec_table env) OP_RETURN = Some exec_return"
  by (simp_all add: exec_table_def)

lemma same_rest_simps [simp]:
  "same_rest vm vm" "same_rest vm (pushed v vm') = same_rest vm vm'" "same_rest vm (vm'\<lparr>ip := i\<rparr>) = same_rest vm vm'"
  "same_rest vm (vm'\<lparr>stack := st\<rparr>) = same_rest vm vm'" "same_rest vm (vm'\<lparr>globals := g\<rparr>) = same_rest vm vm'"
  by (simp_all add: same_rest_def)

lemma pushed_instructions [simp]: "c_instructions (counters (pushed v vm)) = c_instructions (counters vm)"
  by (simp add: pushed_def Let_def)

lemma leads_push:
  assumes "code_at env p [op]" "map_of (exec_table env) op = Some (bucc_vm_push v)" "immediate v" "length st < 1024"
  shows "leads env (p, st, s) (p + 1, v # st, s)"
  using assms by (intro step_leads [OF assms(1)]) (simp add: exec_op_lookup)

lemma leads_const:
  assumes "code_at env p (OP_PUSH_I64 # u16_bytes w)" "bucc_module_get_constant (e_module env) (ucast w) = Some v" "immediate v"
    "length st < 1024"
  shows "leads env (p, st, s) (p + 3, v # st, s)"
proof (rule step_leads [OF assms(1)])
  fix vm :: bucc_vm_t assume "ip vm = word_of_nat (p + 1)" "stack vm = st" "holds s (globals vm)" "status vm = VM_OK" "0 < h_stack (heap_of vm)"
  then show "\<exists>vm'. exec_op env OP_PUSH_I64 vm = Some vm' \<and> in_conf (p + 3, v # st, s) vm' \<and> same_rest vm vm' \<and>
      c_instructions (counters vm') = c_instructions (counters vm)"
    using assms(2-4) read_operand [OF assms(1)] by (simp add: exec_op_lookup exec_lookup exec_push_const_def)
qed

lemma holds_immediate: "holds s g \<Longrightarrow> i < 256 \<Longrightarrow> immediate (s i)"
  by (auto simp: holds_def list_all_length)

lemma leads_load:
  assumes "code_at env p (OP_LOAD_GLOBAL # u16_bytes w)" "unat w < 256" "length st < 1024"
  shows "leads env (p, st, s) (p + 3, s (unat w) # st, s)"
proof (rule step_leads [OF assms(1)])
  fix vm :: bucc_vm_t assume vm: "ip vm = word_of_nat (p + 1)" "stack vm = st" "holds s (globals vm)" "status vm = VM_OK" "0 < h_stack (heap_of vm)"
  have i: "unat (ucast w :: u32) = unat w" by transfer (simp add: take_bit_eq_mod)
  have im: "immediate (s (unat w))" using vm(3) assms(2) by (rule holds_immediate)
  have "s (unat w) = (if unat w < length (globals vm) then globals vm ! unat w else VNull)"
    using vm(3) assms(2) by (simp add: holds_def)
  then have "bucc_vm_get_global (ucast w) (vm\<lparr>ip := word_of_nat (p + 3)\<rparr>) = Some (s (unat w), vm\<lparr>ip := word_of_nat (p + 3)\<rparr>)"
    using im by (auto simp: bucc_vm_get_global_def i)
  then show "\<exists>vm'. exec_op env OP_LOAD_GLOBAL vm = Some vm' \<and> in_conf (p + 3, s (unat w) # st, s) vm' \<and> same_rest vm vm' \<and>
      c_instructions (counters vm') = c_instructions (counters vm)"
    using vm assms(3) im read_operand [OF assms(1) vm(1)] by (simp add: exec_op_lookup exec_lookup exec_load_global_def)
qed

lemma holds_update:
  assumes "holds s g" "i < 256" "immediate v"
  shows "holds (s(i := v)) ((g @ replicate (i + 1 - length g) VNull)[i := v])"
proof -
  let ?g = "g @ replicate (i + 1 - length g) VNull"
  have g: "length g \<le> 256" "\<And>j. j < 256 \<Longrightarrow> s j = (if j < length g then g ! j else VNull)" "list_all immediate g"
    using assms(1) by (auto simp: holds_def)
  have "list_all immediate ?g" using g(3) by (auto simp: list_all_iff)
  then have "list_all immediate (?g[i := v])"
    using assms(3) by (simp add: list_all_length nth_list_update)
  moreover have "(s(i := v)) j = (if j < length (?g[i := v]) then ?g[i := v] ! j else VNull)" if "j < 256" for j
    using g(2) [OF that] by (auto simp: nth_list_update nth_append)
  ultimately show ?thesis using g(1) assms(2) by (simp add: holds_def)
qed

lemma leads_store:
  assumes "code_at env p (OP_STORE_GLOBAL # u16_bytes w)" "unat w < 256" "immediate v"
  shows "leads env (p, v # st, s) (p + 3, st, s(unat w := v))"
proof (rule step_leads [OF assms(1)])
  fix vm :: bucc_vm_t assume vm: "ip vm = word_of_nat (p + 1)" "stack vm = v # st" "holds s (globals vm)" "status vm = VM_OK" "0 < h_stack (heap_of vm)"
  have i: "unat (ucast w :: u32) = unat w" by transfer (simp add: take_bit_eq_mod)
  let ?g = "globals vm @ replicate (unat w + 1 - length (globals vm)) VNull"
  let ?vm = "vm\<lparr>ip := word_of_nat (p + 3), stack := st\<rparr>"
  have "list_all immediate ?g" using vm(3) by (auto simp: holds_def list_all_iff)
  moreover have "unat w < length ?g" by simp
  ultimately have "immediate (?g ! unat w)" by (metis list_all_length)
  then have "bucc_vm_set_global (ucast w) v ?vm = Some (?vm\<lparr>globals := ?g[unat w := v]\<rparr>)"
    using assms(2,3) by (simp add: bucc_vm_set_global_def i)
  then show "\<exists>vm'. exec_op env OP_STORE_GLOBAL vm = Some vm' \<and> in_conf (p + 3, st, s(unat w := v)) vm' \<and> same_rest vm vm' \<and>
      c_instructions (counters vm') = c_instructions (counters vm)"
    using vm assms(2,3) holds_update [OF vm(3) assms(2,3)] read_operand [OF assms(1) vm(1)]
    by (simp add: exec_op_lookup exec_lookup exec_store_global_def)
qed

lemma leads_pop:
  assumes "code_at env p [OP_POP]" "immediate v"
  shows "leads env (p, v # st, s) (p + 1, st, s)"
  using assms by (intro step_leads [OF assms(1)]) (simp add: exec_op_lookup exec_lookup exec_pop_def)

lemma leads_debug: "code_at env p (OP_DEBUG_LINE # u16_bytes w) \<Longrightarrow> leads env (p, st, s) (p + 3, st, s)"
  by (rule step_leads, assumption) (simp add: exec_op_lookup exec_lookup read_operand)

lemma scalar_immediate: "scalar v \<Longrightarrow> immediate v"
  by (cases v) (simp_all add: scalar_def)

lemma truth_truthy: "truth fo v = Some b \<Longrightarrow> bucc_value_truthy fo h v = Some b"
  by (cases v) (simp_all add: truth_def bucc_value_truthy_def)

lemma equals_equal:
  "scalar a \<Longrightarrow> scalar b \<Longrightarrow> 0 < h_stack h \<Longrightarrow> bucc_value_equal fo h a b = Some (equals fo a b, h)"
  by (cases "h_stack h"; cases a; cases b)
    (auto simp: scalar_def bucc_value_equal_def kind_number_def BUCC_IS_NUMERIC_def num_f64_def)

lemma below_compare:
  "below fo a b = Some x \<Longrightarrow> below fo b a = Some y \<Longrightarrow> bucc_value_compare fo h a b = Some (if x then -1 else if y then 1 else 0)"
  by (auto simp: below_def bucc_value_compare_def split: if_splits)

lemma below_sym: "below fo a b = Some x \<Longrightarrow> \<exists>y. below fo b a = Some y"
  by (simp add: below_def split: if_splits)

lemma exec_arith:
  assumes "arith (e_float env) op a b = Some v" "stack vm = b # a # st" "length st < 1023"
  shows "exec_op env (binary_opcode op) vm = Some (pushed v (vm\<lparr>stack := st\<rparr>))"
proof (cases "\<exists>x y. a = VI64 x \<and> b = VI64 y")
  case True
  then obtain x y where xy: "a = VI64 x" "b = VI64 y" by blast
  have "\<exists>f. int_op (binary_opcode op) = Some f \<and> v = VI64 (word_of_int (f (sint x) (sint y))) \<and>
      (binary_opcode op = OP_DIV \<or> binary_opcode op = OP_MOD \<longrightarrow> y \<noteq> 0 \<and> \<not> (sint x = - (2 ^ 63) \<and> sint y = -1))"
    using assms(1) unfolding xy by (cases op) (auto simp: int_op_def split: if_splits)
  then show ?thesis using exec_int_op [of "binary_opcode op" _ vm y x st env] assms(2,3) xy by auto
next
  case False
  then have num: "BUCC_IS_NUMERIC a" "BUCC_IS_NUMERIC b" "is_f64 a \<or> is_f64 b"
    using assms(1) by (cases a; cases b; simp add: is_f64_def BUCC_IS_NUMERIC_def)+
  then have s: "\<not> is_string a" "\<not> is_string b" "immediate a" "immediate b"
      "as_double env a = num_f64 (e_float env) a" "as_double env b = num_f64 (e_float env) b"
    by (cases a; cases b; simp add: BUCC_IS_NUMERIC_def is_string_def as_double_def num_f64_def as_i64_def)+
  have "arith (e_float env) op a b = (let x = num_f64 (e_float env) a; y = num_f64 (e_float env) b in
         case op of
           BINARY_ADD \<Rightarrow> Some (VF64 (f_add (e_float env) x y))
         | BINARY_SUB \<Rightarrow> Some (VF64 (f_sub (e_float env) x y))
         | BINARY_MUL \<Rightarrow> Some (VF64 (f_mul (e_float env) x y))
         | BINARY_DIV \<Rightarrow> if f_eq (e_float env) y (f_zero (e_float env)) then None else Some (VF64 (f_div (e_float env) x y))
         | _ \<Rightarrow> None)"
    using False num(1,2) by (cases a; cases b) (simp_all add: BUCC_IS_NUMERIC_def)
  then show ?thesis
    using assms num(3) s
    by (cases op) (auto simp: Let_def exec_op_lookup exec_arith_lookup exec_add_def exec_sub_def exec_mul_def exec_div_def
        with_operands_def split: if_splits)
qed

lemma exec_equality_scalars:
  assumes "scalar a" "scalar b" "stack vm = b # a # st" "length st < 1023" "0 < h_stack (heap_of vm)"
  shows "exec_equality env f vm = Some (pushed (VBool (f (equals (e_float env) a b))) (vm\<lparr>stack := st\<rparr>))"
  using assms scalar_immediate equals_equal [of a b "heap_of vm" "e_float env"]
  by (simp add: exec_equality_def with_operands_def on_heap_def)

lemma exec_compare_numbers:
  assumes "below (e_float env) a b = Some x" "below (e_float env) b a = Some y" "scalar a" "scalar b"
    "stack vm = b # a # st" "length st < 1023"
  shows "exec_compare env f vm = Some (pushed (VBool (f (if x then -1 else if y then 1 else 0))) (vm\<lparr>stack := st\<rparr>))"
  using assms(3-6) scalar_immediate below_compare [OF assms(1,2)] by (simp add: exec_compare_def with_operands_def)

lemma exec_logic_scalars:
  assumes "truth (e_float env) a = Some x" "truth (e_float env) b = Some y" "scalar a" "scalar b"
    "stack vm = b # a # st" "length st < 1023"
  shows "exec_and env vm = Some (pushed (VBool (x \<and> y)) (vm\<lparr>stack := st\<rparr>))"
    "exec_or env vm = Some (pushed (VBool (x \<or> y)) (vm\<lparr>stack := st\<rparr>))"
  using assms(3-6) scalar_immediate truth_truthy [OF assms(1)] truth_truthy [OF assms(2)]
  by (simp_all add: exec_and_def exec_or_def with_operands_def vm_truthy_def)

lemma binary_value_cases:
  assumes "binary_value fo op a b = Some v"
  shows "scalar a" "scalar b"
    "arith fo op a b = Some v \<or> op = BINARY_EQ \<and> v = VBool (equals fo a b) \<or> op = BINARY_NE \<and> v = VBool (\<not> equals fo a b) \<or>
     (\<exists>x y. below fo a b = Some x \<and> below fo b a = Some y \<and>
        (op = BINARY_LT \<and> v = VBool x \<or> op = BINARY_GE \<and> v = VBool (\<not> x) \<or>
         op = BINARY_GT \<and> v = VBool (\<not> x \<and> y) \<or> op = BINARY_LE \<and> v = VBool (x \<or> \<not> y))) \<or>
     (\<exists>x y. truth fo a = Some x \<and> truth fo b = Some y \<and>
        (op = BINARY_AND \<and> v = VBool (x \<and> y) \<or> op = BINARY_OR \<and> v = VBool (x \<or> y)))"
proof -
  show sc: "scalar a" "scalar b" using assms by (auto simp: binary_value_def split: if_splits)
  show "arith fo op a b = Some v \<or> op = BINARY_EQ \<and> v = VBool (equals fo a b) \<or> op = BINARY_NE \<and> v = VBool (\<not> equals fo a b) \<or>
     (\<exists>x y. below fo a b = Some x \<and> below fo b a = Some y \<and>
        (op = BINARY_LT \<and> v = VBool x \<or> op = BINARY_GE \<and> v = VBool (\<not> x) \<or>
         op = BINARY_GT \<and> v = VBool (\<not> x \<and> y) \<or> op = BINARY_LE \<and> v = VBool (x \<or> \<not> y))) \<or>
     (\<exists>x y. truth fo a = Some x \<and> truth fo b = Some y \<and>
        (op = BINARY_AND \<and> v = VBool (x \<and> y) \<or> op = BINARY_OR \<and> v = VBool (x \<or> y)))"
    using assms sc below_sym [of fo a b] unfolding binary_value_def
    by (cases op; simp add: bind_eq_Some_conv; blast?)
qed

lemma exec_binary:
  assumes "binary_value (e_float env) op a b = Some v" "stack vm = b # a # st" "length st < 1023" "0 < h_stack (heap_of vm)"
  shows "exec_op env (binary_opcode op) vm = Some (pushed v (vm\<lparr>stack := st\<rparr>))"
proof -
  note sc = binary_value_cases(1,2) [OF assms(1)]
  note eq = exec_equality_scalars [OF sc assms(2-4), of env]
  note cmp = exec_compare_numbers [OF _ _ sc assms(2,3)] and log = exec_logic_scalars [OF _ _ sc assms(2,3)]
  from binary_value_cases(3) [OF assms(1)] show ?thesis
  proof (elim disjE exE conjE)
    assume "arith (e_float env) op a b = Some v"
    then show ?thesis using assms(2,3) by (rule exec_arith)
  qed (simp_all add: exec_op_lookup exec_lookup eq cmp log)
qed

lemma exec_unary:
  assumes "unary_value (e_float env) op a = Some v" "scalar a" "stack vm = a # st" "length st < 1024"
  shows "exec_op env (unary_opcode op) vm = Some (pushed v (vm\<lparr>stack := st\<rparr>))"
proof (cases op)
  case UNARY_NEG
  then show ?thesis
    using assms by (cases a) (auto simp: exec_op_lookup exec_lookup exec_neg_def with_operand_def as_i64_def)
next
  case UNARY_NOT
  then obtain x where "truth (e_float env) a = Some x" "v = VBool (\<not> x)" using assms(1) by (auto simp: bind_eq_Some_conv)
  then show ?thesis
    using UNARY_NOT assms(2-4) scalar_immediate truth_truthy
    by (simp add: exec_op_lookup exec_lookup exec_not_def with_operand_def vm_truthy_def)
qed

lemma value_scalar:
  "arith fo op a b = Some v \<Longrightarrow> scalar v" "binary_value fo op a b = Some v \<Longrightarrow> scalar v"
  "unary_value fo u a = Some v \<Longrightarrow> scalar v"
proof -
  show ar: "arith fo op a b = Some v \<Longrightarrow> scalar v" for v
    by (cases "(fo, op, a, b)" rule: arith.cases)
      (auto simp: scalar_def Let_def split: if_splits bucc_binary_op_t.splits)
  show "binary_value fo op a b = Some v \<Longrightarrow> scalar v"
    using binary_value_cases(3) [of fo op a b v] ar by (auto simp: scalar_def)
  show "unary_value fo u a = Some v \<Longrightarrow> scalar v"
    by (cases "(fo, u, a)" rule: unary_value.cases) (auto simp: scalar_def bind_eq_Some_conv)
qed

lemma leads_binary:
  assumes "code_at env p [binary_opcode op]" "binary_value (e_float env) op a b = Some v" "length st < 1023"
  shows "leads env (p, b # a # st, s) (p + 1, v # st, s)"
  using assms exec_binary [OF assms(2)] by (intro step_leads [OF assms(1)]) simp

lemma leads_unary:
  assumes "code_at env p [unary_opcode op]" "unary_value (e_float env) op a = Some v" "scalar a" "length st < 1024"
  shows "leads env (p, a # st, s) (p + 1, v # st, s)"
  using assms exec_unary [OF assms(2,3)] by (intro step_leads [OF assms(1)]) simp

section \<open>Expressions\<close>

text \<open>The machine has the final code and the final constants.\<close>

definition has_code :: "vm_env \<Rightarrow> bytes \<Rightarrow> bool" where
  "has_code env C \<longleftrightarrow> bytecode (e_module env) = Some C \<and> length C + 8 < 2 ^ 32 \<and> bytecode_len (e_module env) = word_of_nat (length C)"

definition has_constants :: "vm_env \<Rightarrow> bucc_emitter_t \<Rightarrow> bool" where
  "has_constants env e \<longleftrightarrow> (\<exists>cs. mod_constants (e_module env) = Some (rev (cs @ em_constants e)) \<and>
     const_count (e_module env) = word_of_nat (length (cs @ em_constants e)) \<and> length (cs @ em_constants e) \<le> 65536) \<or> em_constants e = []"

lemma has_codeD: "has_code env C \<Longrightarrow> length C < 2 ^ 32"
  by (simp add: has_code_def)

lemma code_atI:
  assumes "has_code env C" "p + length bs \<le> length C" "\<And>j. j < length bs \<Longrightarrow> C ! (p + j) = bs ! j"
  shows "code_at env p bs"
proof -
  have "take (length bs) (drop p C) = bs" using assms(2,3) by (intro nth_equalityI) simp_all
  then have "C = take p C @ bs @ drop (p + length bs) C"
    by (metis append_take_drop_id drop_drop add.commute)
  then show ?thesis unfolding code_at_def using assms(1,2) unfolding has_code_def
    by (intro exI [of _ C] exI [of _ "take p C"] exI [of _ "drop (p + length bs) C"]) simp
qed

lemma emitted_code_at:
  assumes "has_code env C" "linked C T e'" "inside_code e" "em_code e' = em_code e @ bs" "em_patches e' = em_patches e"
  shows "code_at env (length (em_code e)) bs"
proof (rule code_atI [OF assms(1)])
  show "length (em_code e) + length bs \<le> length C" using assms(2,4) by (simp add: linked_def)
  show "C ! (length (em_code e) + j) = bs ! j" if "j < length bs" for j
    using linked_code [OF assms(2-5) that] .
qed

lemma jump_code_at:
  assumes "has_code env C" "linked C T (bucc_emit_jump op l e)" "inside_code e" "T l = [word_of_nat q]"
  shows "code_at env (length (em_code e)) (op # u32_bytes (word_of_nat q - word_of_nat (length (em_code e) + 5)))"
proof (rule code_atI [OF assms(1)])
  show "length (em_code e) + length (op # u32_bytes (word_of_nat q - word_of_nat (length (em_code e) + 5))) \<le> length C"
    using assms(2) by (simp add: linked_def jump_fields u32_bytes_def)
qed (use linked_jump [OF assms(2-4) has_codeD [OF assms(1)]] in \<open>simp add: u32_bytes_def\<close>)

lemma op_fields [simp]:
  "em_code (bucc_emit_op op e) = em_code e @ [op]" "em_patches (bucc_emit_op op e) = em_patches e"
  "em_code (bucc_emit_op_u16 op w e) = em_code e @ op # u16_bytes w" "em_patches (bucc_emit_op_u16 op w e) = em_patches e"
  "em_constants (bucc_emit_op op e) = em_constants e" "em_constants (bucc_emit_op_u16 op w e) = em_constants e"
  by (simp_all add: bucc_emit_op_def bucc_emit_byte_def bucc_emit_bytes_def bucc_emit_op_u16_def bucc_emit_u16_def u16_bytes_def)

lemma find_index_Some: "find_index P xs = Some i \<Longrightarrow> i < length xs \<and> P (rev xs ! i)"
  by (induction xs) (auto simp: nth_append split: if_splits)

text \<open>The index that \<open>bucc_emit_constant_i64\<close> returns is that of the constant, in the final table too.\<close>

lemma constant_index:
  assumes "bucc_emit_constant_i64 n e = (i, e')" "has_constants env e'"
  shows "bucc_module_get_constant (e_module env) (ucast (word_of_nat i :: u16)) = Some (VI64 n)"
    "em_code e' = em_code e" "em_patches e' = em_patches e"
proof -
  show "em_code e' = em_code e" "em_patches e' = em_patches e"
    using assms(1) by (auto simp: bucc_emit_constant_i64_def add_constant_def split: option.splits)
  have i: "i < length (em_constants e')" "rev (em_constants e') ! i = VI64 n"
    using assms(1) find_index_Some [of "\<lambda>c. c = VI64 n" "em_constants e" i]
    by (auto simp: bucc_emit_constant_i64_def add_constant_def nth_append split: option.splits)
  then obtain cs where cs: "mod_constants (e_module env) = Some (rev (cs @ em_constants e'))"
      "const_count (e_module env) = word_of_nat (length (cs @ em_constants e'))" "length (cs @ em_constants e') \<le> 65536"
    using assms(2) by (auto simp: has_constants_def)
  have u: "unat (ucast (word_of_nat i :: u16) :: u32) = i"
  proof -
    have "unat (ucast (w :: u16) :: u32) = unat w" for w by transfer (simp add: take_bit_eq_mod)
    then show ?thesis using i(1) cs(3) by (simp add: unat_of_nat)
  qed
  have "unat (const_count (e_module env)) = length (cs @ em_constants e')"
    using cs(2,3) by (simp add: unat_of_nat del: of_nat_add length_append)
  then have "\<not> const_count (e_module env) \<le> ucast (word_of_nat i :: u16)"
    using i(1) u by (simp add: word_le_nat_alt)
  then show "bucc_module_get_constant (e_module env) (ucast (word_of_nat i :: u16)) = Some (VI64 n)"
    using cs(1) i u by (simp add: bucc_module_get_constant_def nth_append)
qed

lemma emits_exprI: "emits e (emit_expr fo x e)"
  by (rule emits_expr(1) [OF emits_refl])

lemma emits_extends: "emits e e' \<Longrightarrow> extends e e'" "emits e e' \<Longrightarrow> em_scope e' = em_scope e"
  by (simp_all add: emits_def)

lemma has_constants_before: "has_constants env e' \<Longrightarrow> extends e e' \<Longrightarrow> has_constants env e"
  unfolding has_constants_def extends_def by (metis append.assoc append_is_Nil_conv)

text \<open>From the end of a piece of code back to where it began.\<close>

lemma linked_piece:
  assumes "has_code env C" "linked C T e'" "has_constants env e'" "inside_code e0" "emits e0 e" "emits e e'"
  shows "linked C T e" "has_constants env e" "inside_code e"
proof -
  show "linked C T e" using linked_before [OF assms(2) emits_extends(1) [OF assms(6)] has_codeD [OF assms(1)]] .
  show "has_constants env e" using has_constants_before [OF assms(3) emits_extends(1) [OF assms(6)]] .
  have "length (em_code e) < 2 ^ 32" using \<open>linked C T e\<close> has_codeD [OF assms(1)] by (simp add: linked_def)
  then show "inside_code e" using inside_extends [OF assms(4) emits_extends(1) [OF assms(5)]] by blast
qed

definition expr_simulated :: "vm_env \<Rightarrow> bytes \<Rightarrow> (nat \<Rightarrow> u32 list) \<Rightarrow> float_ops \<Rightarrow> (bytes \<Rightarrow> nat option) \<Rightarrow> nat \<Rightarrow> store \<Rightarrow> bucc_expr \<Rightarrow> bool" where
  "expr_simulated env C T fo slot d s x \<longleftrightarrow>
     (\<forall>v e st. expr_value (e_float env) slot d s x = Some v \<longrightarrow> slot = global_slot (em_scope e) \<longrightarrow> inside_code e \<longrightarrow>
        linked C T (emit_expr fo x e) \<longrightarrow> has_constants env (emit_expr fo x e) \<longrightarrow> length st + d \<le> 1024 \<longrightarrow>
        scalar v \<and> leads env (length (em_code e), st, s) (length (em_code (emit_expr fo x e)), v # st, s))"

lemma simulated_literal:
  assumes "has_code env C"
  shows "expr_simulated env C T fo slot (Suc d) s (NODE_EXPR_LITERAL l)"
proof -
  { fix v e and st :: "bucc_value list"
    assume v: "expr_value (e_float env) slot (Suc d) s (NODE_EXPR_LITERAL l) = Some v" and e: "inside_code e"
      "linked C T (emit_expr fo (NODE_EXPR_LITERAL l) e)" "has_constants env (emit_expr fo (NODE_EXPR_LITERAL l) e)"
      "length st + Suc d \<le> 1024"
    let ?p = "length (em_code e)"
    have push: "leads env (?p, st, s) (?p + 1, w, s)" if "emit_literal fo l e = bucc_emit_op op e"
        "map_of (exec_table env) op = Some (bucc_vm_push u)" "immediate u" "w = u # st" for op u w
      using emitted_code_at [OF assms, of T "emit_literal fo l e" e "[op]"] that e leads_push [of env ?p op u st s] by simp
    have "scalar v \<and> leads env (?p, st, s) (length (em_code (emit_expr fo (NODE_EXPR_LITERAL l) e)), v # st, s)"
    proof (cases l)
      case (LI64 n)
      obtain i e1 where c: "bucc_emit_constant_i64 n e = (i, e1)" by fastforce
      have e1: "emit_literal fo l e = bucc_emit_op_u16 OP_PUSH_I64 (word_of_nat i) e1" by (simp add: LI64 emit_indexed_def c)
      then have "has_constants env e1" using e(3) by (simp add: has_constants_def)
      note k = constant_index [OF c this]
      have "code_at env ?p (OP_PUSH_I64 # u16_bytes (word_of_nat i))"
        using emitted_code_at [OF assms, of T "emit_literal fo l e" e] e e1 k(2,3) by simp
      from leads_const [OF this k(1), of st s]
      have "leads env (?p, st, s) (?p + 3, VI64 n # st, s)" using e(4) by simp
      moreover have "length (em_code (emit_literal fo l e)) = ?p + 3" by (simp add: e1 k(2) u16_bytes_def)
      ultimately show ?thesis using v by (auto simp: LI64 scalar_def)
    qed (use v e(4) push in \<open>auto simp: exec_lookup scalar_def\<close>) }
  then show ?thesis unfolding expr_simulated_def by blast
qed

lemma simulated_ident:
  assumes "has_code env C"
  shows "expr_simulated env C T fo slot (Suc d) s (NODE_EXPR_IDENT name)"
proof -
  { fix v e and st :: "bucc_value list"
    assume v: "expr_value (e_float env) slot (Suc d) s (NODE_EXPR_IDENT name) = Some v" and slot: "slot = global_slot (em_scope e)"
      and e: "inside_code e" "linked C T (emit_expr fo (NODE_EXPR_IDENT name) e)" "length st + Suc d \<le> 1024"
    obtain symb where symb: "bucc_scope_lookup name (em_scope e) = Some symb" "sym_kind symb = SYM_GLOBAL" "sym_slot symb < 256"
        "slot name = Some (unat (sym_slot symb))" "v = s (unat (sym_slot symb))" "scalar v"
      using v slot by (auto simp: global_slot_def split: option.splits if_splits)
    let ?w = "ucast (sym_slot symb) :: u16"
    have w: "unat ?w = unat (sym_slot symb)" "unat ?w < 256"
    proof -
      have "unat (sym_slot symb) < 256" using symb(3) by (simp add: word_less_nat_alt)
      then show "unat ?w = unat (sym_slot symb)" "unat ?w < 256" by (simp_all add: unsigned_ucast_eq take_bit_nat_eq_self)
    qed
    have i: "emit_expr fo (NODE_EXPR_IDENT name) e = bucc_emit_op_u16 OP_LOAD_GLOBAL ?w e"
      using symb(1,2) by (simp add: emit_ident_def lookup_symbol_def)
    have "code_at env (length (em_code e)) (OP_LOAD_GLOBAL # u16_bytes ?w)"
      using emitted_code_at [OF assms e(2,1)] unfolding i by simp
    from leads_load [OF this w(2), of st s] have "leads env (length (em_code e), st, s) (length (em_code e) + 3, v # st, s)"
      using e(3) symb(5) w(1) by simp
    moreover have "length (em_code (emit_expr fo (NODE_EXPR_IDENT name) e)) = length (em_code e) + 3"
      unfolding i by (simp add: u16_bytes_def)
    ultimately have "scalar v \<and> leads env (length (em_code e), st, s) (length (em_code (emit_expr fo (NODE_EXPR_IDENT name) e)), v # st, s)"
      using symb(6) by simp }
  then show ?thesis unfolding expr_simulated_def by blast
qed

lemma simulated_expr:
  assumes "has_code env C"
  shows "expr_simulated env C T fo slot d s x"
proof (induction "e_float env" slot d s x rule: expr_value.induct)
  case (4 slot d s op a)
  { fix v e and st :: "bucc_value list"
    assume v: "expr_value (e_float env) slot (Suc d) s (NODE_EXPR_UNARY op a) = Some v" and slot: "slot = global_slot (em_scope e)"
      and e: "inside_code e" "linked C T (emit_expr fo (NODE_EXPR_UNARY op a) e)" "has_constants env (emit_expr fo (NODE_EXPR_UNARY op a) e)"
        "length st + Suc d \<le> 1024"
    obtain w where w: "expr_value (e_float env) slot (Suc d) s a = Some w" "unary_value (e_float env) op w = Some v"
      using v by (auto simp: bind_eq_Some_conv)
    let ?e1 = "emit_expr fo a e"
    have "emits ?e1 (emit_expr fo (NODE_EXPR_UNARY op a) e)" by (simp add: emits_op_ops emits_refl)
    note p = linked_piece [OF assms e(2,3,1) emits_exprI this]
    have a: "scalar w" "leads env (length (em_code e), st, s) (length (em_code ?e1), w # st, s)"
      using 4 w(1) slot e(1,4) p unfolding expr_simulated_def by blast+
    have "code_at env (length (em_code ?e1)) [unary_opcode op]"
      using emitted_code_at [OF assms e(2) p(3)] by simp
    from leads_unary [OF this w(2) a(1), of st s] a(2) value_scalar(3) [OF w(2)] e(4)
    have "scalar v \<and> leads env (length (em_code e), st, s) (length (em_code (emit_expr fo (NODE_EXPR_UNARY op a) e)), v # st, s)"
      by (auto intro: leads_trans) }
  then show ?case unfolding expr_simulated_def by blast
next
  case (5 slot d s op a b)
  { fix v e and st :: "bucc_value list"
    assume v: "expr_value (e_float env) slot (Suc d) s (NODE_EXPR_BINARY op a b) = Some v" and slot: "slot = global_slot (em_scope e)"
      and e: "inside_code e" "linked C T (emit_expr fo (NODE_EXPR_BINARY op a b) e)" "has_constants env (emit_expr fo (NODE_EXPR_BINARY op a b) e)"
        "length st + Suc d \<le> 1024"
    obtain x y where w: "expr_value (e_float env) slot (Suc d) s a = Some x" "expr_value (e_float env) slot d s b = Some y"
        "binary_value (e_float env) op x y = Some v"
      using v by (auto simp: bind_eq_Some_conv)
    let ?e1 = "emit_expr fo a e" let ?e2 = "emit_expr fo b ?e1"
    have last: "emits ?e2 (emit_expr fo (NODE_EXPR_BINARY op a b) e)" by (simp add: emits_op_ops emits_refl)
    note p2 = linked_piece [OF assms e(2,3,1) emits_trans [OF emits_exprI emits_exprI] last]
    note p1 = linked_piece [OF assms p2(1,2) e(1) emits_exprI emits_exprI]
    have slot1: "slot = global_slot (em_scope ?e1)" using slot emits_extends(2) [OF emits_exprI] by simp
    have a: "scalar x" "leads env (length (em_code e), st, s) (length (em_code ?e1), x # st, s)"
      using 5(1) w(1) slot e(1,4) p1 unfolding expr_simulated_def by blast+
    have "length (x # st) + d \<le> 1024" using e(4) by simp
    then have b: "scalar y" "leads env (length (em_code ?e1), x # st, s) (length (em_code ?e2), y # x # st, s)"
      using 5(2) w(1,2) slot1 p1(3) p2 unfolding expr_simulated_def by blast+
    have "0 < d" using w(2) by (cases d) simp_all
    moreover have "code_at env (length (em_code ?e2)) [binary_opcode op]"
      using emitted_code_at [OF assms e(2) p2(3)] by simp
    ultimately have "leads env (length (em_code ?e2), y # x # st, s) (length (em_code ?e2) + 1, v # st, s)"
      using leads_binary w(3) e(4) by simp
    with a(2) b(2) value_scalar(2) [OF w(3)]
    have "scalar v \<and> leads env (length (em_code e), st, s) (length (em_code (emit_expr fo (NODE_EXPR_BINARY op a b) e)), v # st, s)"
      by (auto intro: leads_trans) }
  then show ?case unfolding expr_simulated_def by blast
qed (simp_all add: simulated_literal [OF assms] simulated_ident [OF assms], simp_all add: expr_simulated_def)

lemma expr_leads:
  assumes "has_code env C" "expr_value (e_float env) (global_slot (em_scope e)) d s x = Some v" "inside_code e"
    "linked C T (emit_expr fo x e)" "has_constants env (emit_expr fo x e)" "length st + d \<le> 1024"
  shows "scalar v" "leads env (length (em_code e), st, s) (length (em_code (emit_expr fo x e)), v # st, s)"
  using simulated_expr [OF assms(1), of T fo "global_slot (em_scope e)" d s x] assms(2-) unfolding expr_simulated_def by blast+

section \<open>Jumps\<close>

lemma read_jump:
  assumes "code_at env p (op # u32_bytes w)" "ip vm = word_of_nat (p + 1)"
  shows "read_i32 env vm = Some (w, vm\<lparr>ip := word_of_nat (p + 5)\<rparr>)"
proof -
  have len: "length (op # u32_bytes w) = 5" by (simp add: u32_bytes_def)
  obtain c where c: "bytecode (e_module env) = Some c" "length c + 8 < 2 ^ 32" "p + 5 \<le> length c"
      "bytecode_len (e_module env) = word_of_nat (length c)" "\<And>i. i < 5 \<Longrightarrow> c ! (p + i) = (op # u32_bytes w) ! i"
    using code_at_bytes [OF assms(1), unfolded len] by blast
  have u: "unat (ip vm + of_nat j) = p + 1 + j" if "j \<le> 4" for j
    unfolding assms(2) of_nat_add [symmetric] using that c(2,3) by (simp add: unat_of_nat del: of_nat_add of_nat_Suc)
  have "arr_get c (unat (ip vm + of_nat j)) = Some (u32_bytes w ! j)" if "j < 4" for j
    using that u [of j] c(3) c(5) [of "Suc j"] by (simp add: arr_get_eq_Some_iff)
  from this [of 0] this [of 1] this [of 2] this [of 3]
  have bs: "arr_get c (unat (ip vm)) = Some (ucast (drop_bit 24 w))" "arr_get c (unat (ip vm + 1)) = Some (ucast (drop_bit 16 w))"
    "arr_get c (unat (ip vm + 2)) = Some (ucast (drop_bit 8 w))" "arr_get c (unat (ip vm + 3)) = Some (ucast w)"
    by (simp_all add: u32_bytes_def)
  have bound: "\<not> bytecode_len (e_module env) < ip vm + 4"
    using u [of 4] c(2,3,4) by (simp add: word_less_nat_alt unat_of_nat)
  have "ip vm + 4 = word_of_nat (p + 5)" using assms(2) by simp
  then show ?thesis
    unfolding read_i32_def if_not_P [OF bound] c(1) Option.bind.simps bs using u32_of_bytes [of w] by simp
qed

lemma leads_jmp:
  assumes "code_at env p (OP_JMP # u32_bytes (word_of_nat q - word_of_nat (p + 5)))"
  shows "leads env (p, st, s) (q, st, s)"
  by (rule step_leads [OF assms]) (simp add: exec_op_lookup exec_lookup exec_jmp_def read_jump [OF assms])

lemma leads_jmp_if:
  assumes "code_at env p (op # u32_bytes (word_of_nat q - word_of_nat (p + 5)))"
    "map_of (exec_table env) op = Some (exec_jmp_if env want)" "truth (e_float env) v = Some b" "immediate v"
  shows "leads env (p, v # st, s) (if b = want then q else p + 5, st, s)"
  using assms(4) truth_truthy [OF assms(3)]
  by (intro step_leads [OF assms(1)])
    (simp add: exec_op_lookup [OF assms(2)] exec_jmp_if_def read_jump [OF assms(1)] vm_truthy_def)

text \<open>A condition and the jump behind it.\<close>

lemma cond_leads:
  assumes "has_code env C" "expr_value (e_float env) (global_slot (em_scope e)) d s c = Some v" "truth (e_float env) v = Some b" "inside_code e"
    "linked C T (bucc_emit_jump op l (emit_expr fo c e))" "has_constants env (emit_expr fo c e)" "length st + d \<le> 1024"
    "op = OP_JMP_FALSE \<and> \<not> want \<or> op = OP_JMP_TRUE \<and> want" "T l = [word_of_nat q]"
  shows "leads env (length (em_code e), st, s) (if b = want then q else length (em_code (emit_expr fo c e)) + 5, st, s)"
proof -
  let ?e1 = "emit_expr fo c e"
  have j: "jump_op op" using assms(8) by (auto simp: jump_op_def)
  have "emits ?e1 (bucc_emit_jump op l ?e1)" using emits_jump [OF emits_refl j] .
  then have l1: "linked C T ?e1" using linked_before [OF assms(5) _ has_codeD [OF assms(1)]] emits_extends(1) by blast
  have "length (em_code ?e1) < 2 ^ 32" using l1 has_codeD [OF assms(1)] by (simp add: linked_def)
  then have i1: "inside_code ?e1" using inside_extends [OF assms(4) emits_extends(1) [OF emits_exprI]] by blast
  note x = expr_leads [OF assms(1,2,4) l1 assms(6,7)]
  have "map_of (exec_table env) op = Some (exec_jmp_if env want)" using assms(8) exec_lookup by auto
  from leads_jmp_if [OF jump_code_at [OF assms(1,5) i1 assms(9)] this assms(3) scalar_immediate [OF x(1)], of st s]
  show ?thesis using x(2) leads_trans by blast
qed

end
