(* ===== verification/Bucc_Correct.thy ===== *)
theory Bucc_Correct
  imports Bucc_Simulation
begin

text \<open>
  The correctness of the Buccaneer compiler for programs over global variables: compiled blocks do what the
  semantics of the source language says, by rule induction on \<open>runs\<close>, and so do the procedures of a module.

  \<^item> \<open>between\<close> says that the code emitted between two points is part of the machine's code; \<open>block_sim\<close> is the
    statement about blocks, in a loop whose exit label is to be placed later.
  \<^item> \<open>loop_parts\<close> and the lemmas on \<open>WHILE\<close>, \<open>DO\<close> and \<open>IF\<close> take the code of a statement apart.
\<close>

section \<open>Pieces of compiled code\<close>

text \<open>The code emitted between \<open>e\<close> and \<open>e'\<close> is part of the machine's code.\<close>

definition between :: "vm_env \<Rightarrow> bytes \<Rightarrow> (nat \<Rightarrow> u32 list) \<Rightarrow> bucc_emitter_t \<Rightarrow> bucc_emitter_t \<Rightarrow> bool" where
  "between env C T e e' \<longleftrightarrow> has_code env C \<and> inside_code e \<and> linked C T e' \<and> has_constants env e' \<and> emits e e'"

lemma between_split:
  assumes "between env C T e e''" "emits e e'" "emits e' e''"
  shows "between env C T e e'" "between env C T e' e''"
  using assms linked_piece [of env C T e'' e e'] by (simp_all add: between_def)

lemma between_scope: "between env C T e e' \<Longrightarrow> em_scope e' = em_scope e"
  by (simp add: between_def emits_def)

lemma between_same: "between env C T e e' \<Longrightarrow> same_code e0 e \<Longrightarrow> inside_code e0 \<Longrightarrow> between env C T e0 e'"
  using emits_trans [OF same_code_emits [OF emits_refl]] by (auto simp: between_def)

lemma between_expr:
  assumes "between env C T e (emit_expr fo x e)" "expr_value (e_float env) (global_slot (em_scope e)) d s x = Some v" "length st + d \<le> 1024"
  shows "scalar v" "leads env (length (em_code e), st, s) (length (em_code (emit_expr fo x e)), v # st, s)"
  using expr_leads [of env C e d s x v T fo st] assms by (auto simp: between_def)

lemma between_cond:
  assumes "between env C T e (bucc_emit_jump op l (emit_expr fo c e))"
    "expr_value (e_float env) (global_slot (em_scope e)) d s c = Some v" "truth (e_float env) v = Some b" "length st + d \<le> 1024"
    "op = OP_JMP_FALSE \<and> \<not> want \<or> op = OP_JMP_TRUE \<and> want" "T l = [word_of_nat q]"
  shows "leads env (length (em_code e), st, s) (if b = want then q else length (em_code (emit_expr fo c e)) + 5, st, s)"
proof -
  have j: "jump_op op" using assms(5) by (auto simp: jump_op_def)
  have "between env C T e (emit_expr fo c e)"
    using between_split(1) [OF assms(1) emits_exprI emits_jump [OF emits_refl j]] .
  then show ?thesis
    using cond_leads [of env C e d s c v b T op l fo st want q] assms by (simp add: between_def)
qed

lemma between_jmp:
  assumes "between env C T e (bucc_emit_jump OP_JMP l e)" "T l = [word_of_nat q]"
  shows "leads env (length (em_code e), st, s) (q, st, s)"
  using jump_code_at [of env C T OP_JMP l e q] assms by (intro leads_jmp) (simp add: between_def)

lemma between_op:
  assumes "between env C T e e'" "em_code e' = em_code e @ bs" "em_patches e' = em_patches e"
  shows "code_at env (length (em_code e)) bs"
  using emitted_code_at [of env C T e' e bs] assms by (simp add: between_def)

lemma between_label: "between env C T e (bucc_emit_label_here l e') \<Longrightarrow> l < length (em_labels e') \<Longrightarrow>
    T l = [word_of_nat (length (em_code e'))]"
  using linked_label by (auto simp: between_def)

lemma emits_ops:
  "emits e (snd (bucc_emit_label e))" "emits e (set_loop a b e)" "emits e (bucc_emit_label_here l e)" "emits e (emit_block fo bl e)"
  "jump_op op \<Longrightarrow> emits e (bucc_emit_jump op l e)" "emits e (emit_node fo nd e)" "emits e (emit_stmt fo stm e)" "emits e (emit_elseifs fo l cs e)"
  using emits_rules emits_record(1) [OF emits_refl] emits_block [OF emits_refl] emits_stmt(1,2) [OF emits_refl]
    emits_elseifs [OF emits_stmt(3) emits_refl]
  by auto

lemma label_code [simp]:
  "em_code (snd (bucc_emit_label e)) = em_code e" "em_code (set_loop a b e) = em_code e" "em_code (bucc_emit_label_here l e) = em_code e"
  "em_scope (snd (bucc_emit_label e)) = em_scope e" "em_scope (set_loop a b e) = em_scope e" "em_scope (bucc_emit_label_here l e) = em_scope e"
  by (simp_all add: bucc_emit_label_def Let_def set_loop_def bucc_emit_label_here_def)

text \<open>The line marker in front of a statement.\<close>

fun entry :: "bucc_stmt list \<Rightarrow> bucc_emitter_t \<Rightarrow> bucc_emitter_t" where
  "entry [] e = e"
| "entry (Stmt line col node # ss) e = (if em_emit_debug_info e \<and> line > 0 then bucc_emit_debug_line line col e else e)"

lemma emit_block_entry: "emit_block fo (Stmt line col node # ss) e = emit_block fo ss (emit_node fo node (entry (Stmt line col node # ss) e))"
  by simp

lemma emits_head: "emits e (entry b e)"
  by (cases "(b, e)" rule: entry.cases) (simp_all add: emits_debug_line emits_refl)

lemma entry_rest: "emits (entry b e) (emit_block fo b e)"
proof (cases b)
  case (Cons x ss)
  obtain line col node where "x = Stmt line col node" by (cases x)
  then show ?thesis using Cons emits_trans [OF emits_ops(6) emits_ops(4)] by simp
qed (simp add: emits_refl)

lemma entry_labelling [simp]: "labelling (entry b e) = labelling e"
  by (cases "(b, e)" rule: entry.cases) simp_all

lemma entry_scope [simp]: "em_scope (entry b e) = em_scope e"
  using emits_head [of e b] by (simp add: emits_def)

lemma entry_code:
  "entry b e = e \<or> (\<exists>w. em_code (entry b e) = em_code e @ OP_DEBUG_LINE # u16_bytes w \<and> em_patches (entry b e) = em_patches e)"
  by (cases "(b, e)" rule: entry.cases) (auto simp: bucc_emit_debug_line_def)

lemma entry_leads:
  assumes "between env C T e (entry b e)"
  shows "leads env (length (em_code e), st, s) (length (em_code (entry b e)), st, s)"
  using entry_code [of b e]
proof (elim disjE exE conjE)
  fix w assume w: "em_code (entry b e) = em_code e @ OP_DEBUG_LINE # u16_bytes w" "em_patches (entry b e) = em_patches e"
  from leads_debug [OF between_op [OF assms w], of st s] show ?thesis by (simp add: w(1) u16_bytes_def numeral_3_eq_3)
qed (simp add: leads_refl)

lemma between_mid:
  assumes "between env C T e e'" "emits e x" "emits x y" "emits y e'"
  shows "between env C T x y"
  using between_split(1) [OF between_split(2) [OF assms(1,2) emits_trans [OF assms(3,4)]] assms(3,4)] .

lemma placing_member: "placing n f A e \<Longrightarrow> l \<in> A \<Longrightarrow> l < length (em_labels e)"
  by (auto simp: placing_def)

lemma jump_code_length [simp]: "length (em_code (bucc_emit_jump op l e)) = length (em_code e) + 5" "em_scope (bucc_emit_jump op l e) = em_scope e"
  by (simp_all add: bucc_emit_jump_def Let_def bucc_emit_i32_def bucc_emit_u32_def u32_bytes_def bucc_emit_byte_def bucc_emit_bytes_def)

lemma jump_ops [simp]: "jump_op OP_JMP" "jump_op OP_JMP_FALSE" "jump_op OP_JMP_TRUE"
  by (simp_all add: jump_op_def)

subsection \<open>Loops\<close>

text \<open>
  A loop with its start label in front of \<open>pre\<close> and its end label behind \<open>rest\<close>: where the two labels are, and
  the code in between as a piece of the machine's code.
\<close>

lemma loop_parts:
  assumes "placing n f A e" "between env C T e e'"
  defines "start \<equiv> fst (bucc_emit_label e)" and "stop \<equiv> fst (bucc_emit_label (snd (bucc_emit_label e)))"
  defines "e0 \<equiv> bucc_emit_label_here start (set_loop start stop (snd (bucc_emit_label (snd (bucc_emit_label e)))))"
  assumes "e' = set_loop a b (bucc_emit_label_here stop eg)" "emits e0 eg"
    "\<And>n f A. placing n f A e0 \<Longrightarrow> placing n f A eg"
  shows "between env C T e0 eg" "placing n f (insert stop A) e0" "snd (loop_of e0) = stop"
    "length (em_code e0) = length (em_code e)" "em_scope e0 = em_scope e" "length (em_code eg) = length (em_code e')"
    "T start = [word_of_nat (length (em_code e))]" "T stop = [word_of_nat (length (em_code e'))]"
proof -
  let ?e2 = "snd (bucc_emit_label (snd (bucc_emit_label e)))" let ?e3 = "set_loop start stop ?e2"
  note two = placing_two [OF assms(1), folded start_def, folded stop_def]
  have p3: "placing n f (insert start (insert stop A)) ?e3" using two(1) by (simp add: stop_def)
  show p0: "placing n f (insert stop A) e0" unfolding e0_def using p3 two(2,3) by (intro placing_here2) (simp_all add: stop_def)
  have em: "emits e ?e3" using emits_trans [OF emits_trans [OF emits_ops(1) emits_ops(1)] emits_ops(2)] .
  have em0: "emits e e0" unfolding e0_def using emits_trans [OF em emits_ops(3)] .
  let ?ee = "bucc_emit_label_here stop eg"
  have ee: "emits eg ?ee" "emits ?ee e'" unfolding assms(6) by (rule emits_ops(3) emits_ops(2))+
  have up: "emits e0 e'" using emits_trans [OF emits_trans [OF assms(7) ee(1)] ee(2)] .
  show b0: "between env C T e0 eg" using between_mid [OF assms(2) em0 assms(7) emits_trans [OF ee]] .
  show "snd (loop_of e0) = stop" "length (em_code e0) = length (em_code e)" "em_scope e0 = em_scope e"
    "length (em_code eg) = length (em_code e')"
    by (simp_all add: e0_def assms(6))
  have "between env C T ?e3 e0" using between_mid [OF assms(2) em _ up] unfolding e0_def using emits_ops(3) by blast
  from between_label [OF this [unfolded e0_def]] placing_member [OF p3]
  show "T start = [word_of_nat (length (em_code e))]" by simp
  have "between env C T e0 ?ee" using between_mid [OF assms(2) em0 emits_trans [OF assms(7) ee(1)] ee(2)] .
  from between_label [OF this] placing_member [OF assms(8) [OF p0], of stop]
  show "T stop = [word_of_nat (length (em_code e'))]" by (simp add: assms(6))
qed

section \<open>Statements\<close>

definition block_sim :: "vm_env \<Rightarrow> bytes \<Rightarrow> (nat \<Rightarrow> u32 list) \<Rightarrow> float_ops \<Rightarrow> (bytes \<Rightarrow> nat option) \<Rightarrow> nat \<Rightarrow>
    bucc_stmt list \<Rightarrow> store \<Rightarrow> bool \<times> store \<Rightarrow> bool" where
  "block_sim env C T fo slot d b s r \<longleftrightarrow>
     (\<forall>e n f A st q. placing n f A e \<longrightarrow> between env C T e (emit_block fo b e) \<longrightarrow> slot = global_slot (em_scope e) \<longrightarrow>
        length st + d \<le> 1024 \<longrightarrow> (fst r \<longrightarrow> T (snd (loop_of e)) = [word_of_nat q]) \<longrightarrow>
        leads env (length (em_code (entry b e)), st, s) (if fst r then q else length (em_code (emit_block fo b e)), st, snd r))"

lemma block_simD:
  assumes "block_sim env C T fo slot d b s r" "placing n f A e" "between env C T e (emit_block fo b e)" "slot = global_slot (em_scope e)"
    "length st + d \<le> 1024" "fst r \<longrightarrow> T (snd (loop_of e)) = [word_of_nat q]"
  shows "leads env (length (em_code (entry b e)), st, s) (if fst r then q else length (em_code (emit_block fo b e)), st, snd r)"
    "leads env (length (em_code e), st, s) (if fst r then q else length (em_code (emit_block fo b e)), st, snd r)"
proof -
  show *: "leads env (length (em_code (entry b e)), st, s) (if fst r then q else length (em_code (emit_block fo b e)), st, snd r)"
    using assms unfolding block_sim_def by blast
  show "leads env (length (em_code e), st, s) (if fst r then q else length (em_code (emit_block fo b e)), st, snd r)"
    using leads_trans [OF entry_leads [OF between_split(1) [OF assms(3) emits_head entry_rest]] *] .
qed

lemma node_between:
  assumes "between env C T e (emit_block fo (Stmt line col nd # ss) e)"
  defines "e1 \<equiv> entry (Stmt line col nd # ss) e"
  shows "between env C T e1 (emit_node fo nd e1)"
    "between env C T (emit_node fo nd e1) (emit_block fo ss (emit_node fo nd e1))"
    "em_scope e1 = em_scope e" "em_scope (emit_node fo nd e1) = em_scope e"
proof -
  have b: "between env C T e (emit_block fo ss (emit_node fo nd e1))" using assms(1) unfolding e1_def emit_block_entry .
  have em: "emits e e1" unfolding e1_def by (rule emits_head)
  show "between env C T e1 (emit_node fo nd e1)" using between_mid [OF b em emits_ops(6,4)] .
  show "between env C T (emit_node fo nd e1) (emit_block fo ss (emit_node fo nd e1))"
    using between_split(2) [OF b emits_trans [OF em emits_ops(6)] emits_ops(4)] .
  show "em_scope e1 = em_scope e" unfolding e1_def by (rule entry_scope)
  then show "em_scope (emit_node fo nd e1) = em_scope e" using emits_ops(6) [of e1 fo nd] by (simp add: emits_def)
qed

text \<open>A statement in front of a block.\<close>

lemma block_sim_cons:
  assumes "\<And>e n f A st q. placing n f A e \<Longrightarrow> between env C T e (emit_node fo nd e) \<Longrightarrow> slot = global_slot (em_scope e) \<Longrightarrow>
      length st + d \<le> 1024 \<Longrightarrow> leads env (length (em_code e), st, s) (length (em_code (emit_node fo nd e)), st, s1)"
    "block_sim env C T fo slot d ss s1 r"
  shows "block_sim env C T fo slot d (Stmt line col nd # ss) s r"
  unfolding block_sim_def
proof (intro allI impI)
  fix e n f A and st :: "bucc_value list" and q
  let ?b = "Stmt line col nd # ss" let ?e1 = "entry ?b e"
  assume e: "placing n f A e" "between env C T e (emit_block fo ?b e)" "slot = global_slot (em_scope e)"
    "length st + d \<le> 1024" "fst r \<longrightarrow> T (snd (loop_of e)) = [word_of_nat q]"
  note nb = node_between [OF e(2)]
  have p: "placing n f A ?e1" using e(1) placing_cong [OF entry_labelling] by blast
  have "loop_of (emit_node fo nd ?e1) = loop_of e" using loop_stmt(2) loop_of_cong [OF entry_labelling] by metis
  then have ss: "leads env (length (em_code (emit_node fo nd ?e1)), st, s1)
      (if fst r then q else length (em_code (emit_block fo ss (emit_node fo nd ?e1))), st, snd r)"
    using block_simD(2) [OF assms(2) placing_stmt(2) [OF p] nb(2)] e(3-5) nb(4) by simp
  have "leads env (length (em_code ?e1), st, s) (length (em_code (emit_node fo nd ?e1)), st, s1)"
    using assms(1) [OF p nb(1)] e(3,4) nb(3) by simp
  from leads_trans [OF this ss]
  show "leads env (length (em_code ?e1), st, s) (if fst r then q else length (em_code (emit_block fo ?b e)), st, snd r)"
    unfolding emit_block_entry .
qed

lemma assign_leads:
  assumes "between env C T e (emit_node fo (NODE_STMT_ASSIGN (NODE_EXPR_IDENT g) x) e)" "global_slot (em_scope e) g = Some i"
    "expr_value (e_float env) (global_slot (em_scope e)) d s x = Some v" "length st + d \<le> 1024"
  shows "leads env (length (em_code e), st, s) (length (em_code (emit_node fo (NODE_STMT_ASSIGN (NODE_EXPR_IDENT g) x) e)), st, s(i := v))"
proof -
  let ?e1 = "emit_expr fo x e"
  obtain symb where symb: "bucc_scope_lookup g (em_scope e) = Some symb" "sym_kind symb = SYM_GLOBAL" "sym_slot symb < 256" "i = unat (sym_slot symb)"
    using assms(2) by (auto simp: global_slot_def split: option.splits if_splits)
  let ?w = "ucast (sym_slot symb) :: u16"
  have "unat (sym_slot symb) < 256" using symb(3) by (simp add: word_less_nat_alt)
  then have w: "unat ?w = i" "unat ?w < 256" using symb(4) by (simp_all add: unsigned_ucast_eq take_bit_nat_eq_self)
  have "em_scope ?e1 = em_scope e" using emits_exprI [of e fo x] by (simp add: emits_def)
  then have e2: "emit_node fo (NODE_STMT_ASSIGN (NODE_EXPR_IDENT g) x) e = bucc_emit_op_u16 OP_STORE_GLOBAL ?w ?e1"
    using symb(1,2) by (simp add: lookup_symbol_def)
  have em: "emits ?e1 (bucc_emit_op_u16 OP_STORE_GLOBAL ?w ?e1)" by (simp add: emits_op_u16_ops emits_refl)
  note b = between_split [OF assms(1) [unfolded e2] emits_exprI em]
  note x = between_expr [OF b(1) assms(3,4)]
  have "code_at env (length (em_code ?e1)) (OP_STORE_GLOBAL # u16_bytes ?w)" using between_op [OF b(2)] by simp
  from leads_trans [OF x(2) leads_store [OF this w(2) scalar_immediate [OF x(1)]]]
  show ?thesis unfolding e2 using w(1) by (simp add: u16_bytes_def numeral_3_eq_3)
qed

lemma expr_stmt_leads:
  assumes "between env C T e (emit_node fo (NODE_STMT_EXPR x) e)"
    "expr_value (e_float env) (global_slot (em_scope e)) d s x = Some v" "length st + d \<le> 1024"
  shows "leads env (length (em_code e), st, s) (length (em_code (emit_node fo (NODE_STMT_EXPR x) e)), st, s)"
proof -
  let ?e1 = "emit_expr fo x e"
  have em: "emits ?e1 (bucc_emit_op OP_POP ?e1)" by (simp add: emits_op_ops emits_refl)
  note b = between_split [OF assms(1) [unfolded emit_node.simps] emits_exprI em]
  note x = between_expr [OF b(1) assms(2,3)]
  have "code_at env (length (em_code ?e1)) [OP_POP]" using between_op [OF b(2)] by simp
  from leads_trans [OF x(2) leads_pop [OF this scalar_immediate [OF x(1)]]] show ?thesis by simp
qed

subsection \<open>Loops\<close>

lemma while_parts:
  fixes e :: bucc_emitter_t
  assumes "placing n f A e" "between env C T e (emit_node fo (NODE_STMT_WHILE c body) e)"
  obtains e0 stop where
    "length (em_code e0) = length (em_code e)" "em_scope e0 = em_scope e"
    "between env C T e0 (bucc_emit_jump OP_JMP_FALSE stop (emit_expr fo c e0))"
    "T stop = [word_of_nat (length (em_code (emit_node fo (NODE_STMT_WHILE c body) e)))]"
    "placing n f (insert stop A) (bucc_emit_jump OP_JMP_FALSE stop (emit_expr fo c e0))"
    "between env C T (bucc_emit_jump OP_JMP_FALSE stop (emit_expr fo c e0))
       (emit_block fo body (bucc_emit_jump OP_JMP_FALSE stop (emit_expr fo c e0)))"
    "snd (loop_of (bucc_emit_jump OP_JMP_FALSE stop (emit_expr fo c e0))) = stop"
    "\<And>st s. leads env (length (em_code (emit_block fo body (bucc_emit_jump OP_JMP_FALSE stop (emit_expr fo c e0)))), st, s)
       (length (em_code e), st, s)"
proof -
  let ?start = "fst (bucc_emit_label e)" let ?stop = "fst (bucc_emit_label (snd (bucc_emit_label e)))"
  let ?e0 = "bucc_emit_label_here ?start (set_loop ?start ?stop (snd (bucc_emit_label (snd (bucc_emit_label e)))))"
  define eb where "eb = bucc_emit_jump OP_JMP_FALSE ?stop (emit_expr fo c ?e0)"
  define ec where "ec = emit_block fo body eb"
  define ed where "ed = bucc_emit_jump OP_JMP ?start ec"
  have e': "emit_node fo (NODE_STMT_WHILE c body) e = set_loop (em_loop_start_label (snd (bucc_emit_label (snd (bucc_emit_label e)))))
      (em_loop_end_label (snd (bucc_emit_label (snd (bucc_emit_label e))))) (bucc_emit_label_here ?stop ed)"
    by (simp add: Let_def split_def ed_def ec_def eb_def del: loop_label)
  have em1: "emits ?e0 eb" unfolding eb_def by (rule emits_trans [OF emits_exprI emits_ops(5)]) simp
  have em2: "emits eb ec" unfolding ec_def by (rule emits_ops(4))
  have em3: "emits ec ed" unfolding ed_def by (rule emits_ops(5)) simp
  note em = em1 em2 em3
  have "placing n f A ed" if "placing n f A ?e0" for n f A using that by (simp add: placing_block ed_def ec_def eb_def)
  note lp = loop_parts [OF assms e' emits_trans [OF emits_trans [OF em(1,2)] em(3)] this]
  have b: "between env C T ?e0 eb" "between env C T eb ec" "between env C T ec ed"
    using between_mid [OF lp(1) emits_refl em(1) emits_trans [OF em(2,3)]] between_mid [OF lp(1) em]
      between_split(2) [OF lp(1) emits_trans [OF em(1,2)] em(3)] by blast+
  have jmp: "leads env (length (em_code ec), st, s) (length (em_code e), st, s)" for st s
    using between_jmp [OF b(3) [unfolded ed_def] lp(7)] .
  have "placing n f (insert ?stop A) eb" "snd (loop_of eb) = ?stop" using lp(2,3) by (simp_all add: eb_def)
  then show ?thesis
    using lp(4,5,8) b(1,2) jmp unfolding ec_def eb_def by (intro that [of ?e0 ?stop])
qed

lemma while_cond:
  assumes "placing n f A e" "between env C T e (emit_node fo (NODE_STMT_WHILE c body) e)" "length st + d \<le> 1024"
    "expr_value (e_float env) (global_slot (em_scope e)) d s c = Some v" "truth (e_float env) v = Some x"
  shows "\<not> x \<Longrightarrow> leads env (length (em_code e), st, s) (length (em_code (emit_node fo (NODE_STMT_WHILE c body) e)), st, s)"
    "x \<Longrightarrow> block_sim env C T fo (global_slot (em_scope e)) d body s (brk, s1) \<Longrightarrow>
       leads env (length (em_code e), st, s)
         (if brk then length (em_code (emit_node fo (NODE_STMT_WHILE c body) e)) else length (em_code e), st, s1)"
proof -
  obtain e0 stop where p: "length (em_code e0) = length (em_code e)" "em_scope e0 = em_scope e"
    "between env C T e0 (bucc_emit_jump OP_JMP_FALSE stop (emit_expr fo c e0))"
    "T stop = [word_of_nat (length (em_code (emit_node fo (NODE_STMT_WHILE c body) e)))]"
    "placing n f (insert stop A) (bucc_emit_jump OP_JMP_FALSE stop (emit_expr fo c e0))"
    "between env C T (bucc_emit_jump OP_JMP_FALSE stop (emit_expr fo c e0))
       (emit_block fo body (bucc_emit_jump OP_JMP_FALSE stop (emit_expr fo c e0)))"
    "snd (loop_of (bucc_emit_jump OP_JMP_FALSE stop (emit_expr fo c e0))) = stop"
    "\<And>st s. leads env (length (em_code (emit_block fo body (bucc_emit_jump OP_JMP_FALSE stop (emit_expr fo c e0)))), st, s)
       (length (em_code e), st, s)"
    using while_parts [OF assms(1,2)] by blast
  let ?eb = "bucc_emit_jump OP_JMP_FALSE stop (emit_expr fo c e0)"
  have sc: "em_scope ?eb = em_scope e" using p(2) between_scope [OF p(3)] by simp
  note cond = between_cond [OF p(3), of d s v x st False "length (em_code (emit_node fo (NODE_STMT_WHILE c body) e))", unfolded p(1,2), OF assms(4,5,3) _ p(4)]
  show "leads env (length (em_code e), st, s) (length (em_code (emit_node fo (NODE_STMT_WHILE c body) e)), st, s)" if "\<not> x"
    using cond that by simp
  assume x: "x" and sim: "block_sim env C T fo (global_slot (em_scope e)) d body s (brk, s1)"
  let ?p = "if brk then length (em_code (emit_node fo (NODE_STMT_WHILE c body) e)) else length (em_code (emit_block fo body ?eb))"
  have "leads env (length (em_code e), st, s) (length (em_code ?eb), st, s)" using cond x by simp
  moreover have "leads env (length (em_code ?eb), st, s) (?p, st, s1)"
    using block_simD(2) [OF sim p(5,6) _ assms(3), of "length (em_code (emit_node fo (NODE_STMT_WHILE c body) e))"] sc p(4,7) by simp
  ultimately have "leads env (length (em_code e), st, s) (?p, st, s1)" by (rule leads_trans)
  then show "leads env (length (em_code e), st, s)
      (if brk then length (em_code (emit_node fo (NODE_STMT_WHILE c body) e)) else length (em_code e), st, s1)"
    using leads_trans [OF _ p(8)] by (cases brk) auto
qed

lemma do_leads:
  fixes e :: bucc_emitter_t
  assumes "placing n f A e" "between env C T e (emit_node fo (NODE_STMT_DO_LOOP body c kind) e)" "length st + d \<le> 1024"
    "block_sim env C T fo (global_slot (em_scope e)) d body s (brk, s1)"
  defines "p \<equiv> length (em_code e)" and "p' \<equiv> length (em_code (emit_node fo (NODE_STMT_DO_LOOP body c kind) e))"
  shows "brk \<Longrightarrow> leads env (p, st, s) (p', st, s1)"
    "\<not> brk \<Longrightarrow> c = None \<Longrightarrow> leads env (p, st, s) (p, st, s1)"
    "\<not> brk \<Longrightarrow> c = Some cx \<Longrightarrow> expr_value (e_float env) (global_slot (em_scope e)) d s1 cx = Some v \<Longrightarrow>
       truth (e_float env) v = Some x \<Longrightarrow> leads env (p, st, s) (if x = (kind \<noteq> LOOP_UNTIL) then p else p', st, s1)"
proof -
  let ?start = "fst (bucc_emit_label e)" let ?stop = "fst (bucc_emit_label (snd (bucc_emit_label e)))"
  let ?e0 = "bucc_emit_label_here ?start (set_loop ?start ?stop (snd (bucc_emit_label (snd (bucc_emit_label e)))))"
  let ?op = "if kind = LOOP_UNTIL then OP_JMP_FALSE else OP_JMP_TRUE"
  define eb where "eb = emit_block fo body ?e0"
  define ec where "ec = (case c of Some c \<Rightarrow> bucc_emit_jump ?op ?start (emit_expr fo c eb) | None \<Rightarrow> bucc_emit_jump OP_JMP ?start eb)"
  have e': "emit_node fo (NODE_STMT_DO_LOOP body c kind) e = set_loop (em_loop_start_label (snd (bucc_emit_label (snd (bucc_emit_label e)))))
      (em_loop_end_label (snd (bucc_emit_label (snd (bucc_emit_label e))))) (bucc_emit_label_here ?stop ec)"
    unfolding emit_node.simps Let_def split_def ec_def eb_def by (rule refl)
  have em1: "emits ?e0 eb" unfolding eb_def by (rule emits_ops(4))
  have em2: "emits eb ec" unfolding ec_def using emits_trans [OF emits_exprI emits_ops(5)] by (auto intro: emits_ops(5) split: option.split)
  have "placing n f A ec" if "placing n f A ?e0" for n f A
    using that by (simp add: placing_block ec_def eb_def split: option.split)
  note lp = loop_parts [OF assms(1,2) e' emits_trans [OF em1 em2] this]
  note b = between_split [OF lp(1) em1 em2]
  have sc: "em_scope eb = em_scope e" using em1 lp(5) by (simp add: emits_def)
  have body: "leads env (p, st, s) (if brk then p' else length (em_code eb), st, s1)"
    using block_simD(2) [OF assms(4) lp(2) b(1) [unfolded eb_def] _ assms(3), of p'] lp(3,4,5,8) unfolding p_def p'_def eb_def by simp
  then show "leads env (p, st, s) (p', st, s1)" if "brk" using that by simp
  show "leads env (p, st, s) (p, st, s1)" if c: "\<not> brk" "c = None"
  proof -
    have "ec = bucc_emit_jump OP_JMP ?start eb" using c(2) by (simp add: ec_def)
    then have j: "leads env (length (em_code eb), st, s1) (p, st, s1)"
      using between_jmp [of env C T eb ?start p] b(2) lp(7) unfolding p_def by simp
    show ?thesis using leads_trans [OF _ j] body c(1) by simp
  qed
  show "leads env (p, st, s) (if x = (kind \<noteq> LOOP_UNTIL) then p else p', st, s1)"
    if c: "\<not> brk" "c = Some cx" "expr_value (e_float env) (global_slot (em_scope e)) d s1 cx = Some v" "truth (e_float env) v = Some x"
  proof -
    have ec: "ec = bucc_emit_jump ?op ?start (emit_expr fo cx eb)" using c(2) by (simp add: ec_def)
    have "leads env (length (em_code eb), st, s1)
        (if x = (kind \<noteq> LOOP_UNTIL) then p else length (em_code (emit_expr fo cx eb)) + 5, st, s1)"
      using between_cond [OF b(2) [unfolded ec], of d s1 v x st "kind \<noteq> LOOP_UNTIL" p] c(3,4) assms(3) sc lp(7) by (simp add: p_def)
    moreover have "length (em_code (emit_expr fo cx eb)) + 5 = p'" using lp(6) by (simp add: p'_def ec)
    ultimately have j: "leads env (length (em_code eb), st, s1) (if x = (kind \<noteq> LOOP_UNTIL) then p else p', st, s1)" by metis
    show ?thesis using leads_trans [OF _ j] body c(1) by simp
  qed
qed

text \<open>A block that starts with a loop that is gone through once more.\<close>

lemma block_sim_again:
  assumes "\<And>e n f A st. placing n f A e \<Longrightarrow> between env C T e (emit_node fo nd e) \<Longrightarrow> slot = global_slot (em_scope e) \<Longrightarrow>
      length st + d \<le> 1024 \<Longrightarrow> leads env (length (em_code e), st, s) (length (em_code e), st, s1)"
    "block_sim env C T fo slot d (Stmt line col nd # ss) s1 r"
  shows "block_sim env C T fo slot d (Stmt line col nd # ss) s r"
  unfolding block_sim_def
proof (intro allI impI)
  fix e n f A and st :: "bucc_value list" and q
  let ?b = "Stmt line col nd # ss" let ?e1 = "entry ?b e"
  assume e: "placing n f A e" "between env C T e (emit_block fo ?b e)" "slot = global_slot (em_scope e)"
    "length st + d \<le> 1024" "fst r \<longrightarrow> T (snd (loop_of e)) = [word_of_nat q]"
  note nb = node_between [OF e(2)]
  have p: "placing n f A ?e1" using e(1) placing_cong [OF entry_labelling] by blast
  have "leads env (length (em_code ?e1), st, s) (length (em_code ?e1), st, s1)"
    using assms(1) [OF p nb(1)] e(3,4) nb(3) by simp
  from leads_trans [OF this block_simD(1) [OF assms(2) e]]
  show "leads env (length (em_code ?e1), st, s) (if fst r then q else length (em_code (emit_block fo ?b e)), st, snd r)" .
qed

subsection \<open>Conditionals\<close>

text \<open>A guarded block with the label \<open>l\<close> behind it, and a chain of them.\<close>

definition clause :: "float_ops \<Rightarrow> nat \<Rightarrow> nat \<Rightarrow> bucc_expr \<Rightarrow> bucc_stmt list \<Rightarrow> bucc_emitter_t \<Rightarrow> bucc_emitter_t" where
  "clause fo stop l c thens e =
     bucc_emit_label_here l (bucc_emit_jump OP_JMP stop (emit_block fo thens (bucc_emit_jump OP_JMP_FALSE l (emit_expr fo c e))))"

fun emit_choice :: "float_ops \<Rightarrow> nat \<Rightarrow> nat \<Rightarrow> bucc_elseif list \<Rightarrow> bucc_stmt list \<Rightarrow> bucc_emitter_t \<Rightarrow> bucc_emitter_t" where
  "emit_choice fo stop l [] elses e = emit_block fo elses e"
| "emit_choice fo stop l (ElseIf c thens # cs) elses e = emit_block fo elses (emit_elseifs fo stop cs (clause fo stop l c thens e))"

lemma emit_elseifs_clause:
  "emit_elseifs fo stop (ElseIf c thens # cs) e =
     emit_elseifs fo stop cs (clause fo stop (fst (bucc_emit_label e)) c thens (snd (bucc_emit_label e)))"
  by (simp add: clause_def Let_def split_def)

lemma emits_clause: "emits e (clause fo stop l c thens e)"
  unfolding clause_def
  by (simp add: emits_parts emits_block emits_refl)

lemma clause_parts:
  assumes "placing n f (insert l A) e" "l \<notin> A" "between env C T e (clause fo stop l c thens e)"
  defines "eb \<equiv> bucc_emit_jump OP_JMP_FALSE l (emit_expr fo c e)"
  shows "between env C T e eb" "between env C T eb (emit_block fo thens eb)"
    "between env C T (emit_block fo thens eb) (bucc_emit_jump OP_JMP stop (emit_block fo thens eb))"
    "T l = [word_of_nat (length (em_code (clause fo stop l c thens e)))]"
    "placing n f (insert l A) eb" "placing n f A (clause fo stop l c thens e)" "loop_of eb = loop_of e"
    "loop_of (clause fo stop l c thens e) = loop_of e" "em_scope eb = em_scope e" "em_scope (clause fo stop l c thens e) = em_scope e"
proof -
  let ?ec = "emit_block fo thens eb" let ?ed = "bucc_emit_jump OP_JMP stop ?ec"
  have cl: "clause fo stop l c thens e = bucc_emit_label_here l ?ed" by (simp add: clause_def eb_def)
  have em: "emits e eb" unfolding eb_def by (rule emits_trans [OF emits_exprI emits_ops(5)]) simp
  have em2: "emits eb ?ec" by (rule emits_ops(4))
  have em3: "emits ?ec ?ed" by (rule emits_ops(5)) simp
  have em4: "emits ?ed (bucc_emit_label_here l ?ed)" by (rule emits_ops(3))
  note b = assms(3) [unfolded cl]
  show "between env C T e eb" using between_split(1) [OF b em emits_trans [OF em2 emits_trans [OF em3 em4]]] .
  show "between env C T eb ?ec" using between_mid [OF b em em2 emits_trans [OF em3 em4]] .
  show "between env C T ?ec ?ed" using between_mid [OF b emits_trans [OF em em2] em3 em4] .
  have p: "placing n f (insert l A) ?ed" using assms(1) by (simp add: eb_def placing_block)
  show "T l = [word_of_nat (length (em_code (clause fo stop l c thens e)))]"
    using between_label [OF b] placing_member [OF p] by (simp add: cl)
  show "placing n f (insert l A) eb" using assms(1) by (simp add: eb_def)
  show "placing n f A (clause fo stop l c thens e)" unfolding cl using placing_here [OF p assms(2)] .
  show "loop_of eb = loop_of e" "loop_of (clause fo stop l c thens e) = loop_of e" by (simp_all add: cl eb_def)
  show "em_scope eb = em_scope e" using em by (simp add: emits_def)
  show "em_scope (clause fo stop l c thens e) = em_scope e" using emits_clause by (simp add: emits_def)
qed

definition choice_sim :: "vm_env \<Rightarrow> bytes \<Rightarrow> (nat \<Rightarrow> u32 list) \<Rightarrow> float_ops \<Rightarrow> (bytes \<Rightarrow> nat option) \<Rightarrow> nat \<Rightarrow>
    bucc_elseif list \<Rightarrow> bucc_stmt list \<Rightarrow> store \<Rightarrow> bool \<times> store \<Rightarrow> bool" where
  "choice_sim env C T fo slot d cs elses s r \<longleftrightarrow>
     (\<forall>e l stop n f A st q. placing n f (if cs = [] then A else insert l A) e \<longrightarrow> l \<notin> A \<longrightarrow>
        between env C T e (emit_choice fo stop l cs elses e) \<longrightarrow> slot = global_slot (em_scope e) \<longrightarrow> length st + d \<le> 1024 \<longrightarrow>
        T stop = [word_of_nat (length (em_code (emit_choice fo stop l cs elses e)))] \<longrightarrow>
        (fst r \<longrightarrow> T (snd (loop_of e)) = [word_of_nat q]) \<longrightarrow>
        leads env (length (em_code e), st, s) (if fst r then q else length (em_code (emit_choice fo stop l cs elses e)), st, snd r))"

lemma choice_simD:
  assumes "choice_sim env C T fo slot d cs elses s r" "placing n f (if cs = [] then A else insert l A) e" "l \<notin> A"
    "between env C T e e'" "e' = emit_choice fo stop l cs elses e" "slot = global_slot (em_scope e)" "length st + d \<le> 1024"
    "T stop = [word_of_nat (length (em_code e'))]" "fst r \<longrightarrow> T (snd (loop_of e)) = [word_of_nat q]"
  shows "leads env (length (em_code e), st, s) (if fst r then q else length (em_code e'), st, snd r)"
  using assms unfolding choice_sim_def by blast

lemma choice_sim_nil: "block_sim env C T fo slot d elses s r \<Longrightarrow> choice_sim env C T fo slot d [] elses s r"
  unfolding choice_sim_def by (auto dest: block_simD(2))

lemma choice_sim_chosen:
  assumes "expr_value (e_float env) slot d s c = Some v" "truth (e_float env) v = Some True" "block_sim env C T fo slot d thens s r"
  shows "choice_sim env C T fo slot d (ElseIf c thens # cs) elses s r"
  unfolding choice_sim_def
proof (intro allI impI)
  fix e l stop n f A and st :: "bucc_value list" and q
  let ?e' = "emit_choice fo stop l (ElseIf c thens # cs) elses e"
  assume p: "placing n f (if ElseIf c thens # cs = [] then A else insert l A) e" "l \<notin> A" and b: "between env C T e ?e'"
    and a: "slot = global_slot (em_scope e)" "length st + d \<le> 1024" "T stop = [word_of_nat (length (em_code ?e'))]"
      "fst r \<longrightarrow> T (snd (loop_of e)) = [word_of_nat q]"
  have bc: "between env C T e (clause fo stop l c thens e)"
    using between_split(1) [OF b emits_clause] emits_trans [OF emits_ops(8) emits_ops(4)] by simp
  have "placing n f (insert l A) e" using p(1) by simp
  note cp = clause_parts [OF this p(2) bc]
  let ?eb = "bucc_emit_jump OP_JMP_FALSE l (emit_expr fo c e)"
  have "leads env (length (em_code e), st, s) (length (em_code ?eb), st, s)"
    using between_cond [OF cp(1), of d s v True st False] assms(1,2) a(1,2) cp(4) by simp
  also have "leads env (length (em_code ?eb), st, s) (if fst r then q else length (em_code (emit_block fo thens ?eb)), st, snd r)"
    using block_simD(2) [OF assms(3) cp(5,2) _ a(2)] a(1,4) cp(7,9) by simp
  finally have r: "leads env (length (em_code e), st, s) (if fst r then q else length (em_code (emit_block fo thens ?eb)), st, snd r)" .
  show "leads env (length (em_code e), st, s) (if fst r then q else length (em_code ?e'), st, snd r)"
    using leads_trans [OF _ between_jmp [OF cp(3) a(3)]] r by (cases "fst r") auto
qed

lemma choice_sim_passed:
  assumes "expr_value (e_float env) slot d s c = Some v" "truth (e_float env) v = Some False" "choice_sim env C T fo slot d cs elses s r"
  shows "choice_sim env C T fo slot d (ElseIf c thens # cs) elses s r"
  unfolding choice_sim_def
proof (intro allI impI)
  fix e l stop n f A and st :: "bucc_value list" and q
  let ?e' = "emit_choice fo stop l (ElseIf c thens # cs) elses e" let ?e1 = "clause fo stop l c thens e"
  assume p: "placing n f (if ElseIf c thens # cs = [] then A else insert l A) e" "l \<notin> A" and b: "between env C T e ?e'"
    and a: "slot = global_slot (em_scope e)" "length st + d \<le> 1024" "T stop = [word_of_nat (length (em_code ?e'))]"
      "fst r \<longrightarrow> T (snd (loop_of e)) = [word_of_nat q]"
  have em: "emits ?e1 ?e'" using emits_trans [OF emits_ops(8) emits_ops(4)] by simp
  note bs = between_split [OF b emits_clause em]
  have "placing n f (insert l A) e" using p(1) by simp
  note cp = clause_parts [OF this p(2) bs(1)]
  have start: "leads env (length (em_code e), st, s) (length (em_code ?e1), st, s)"
    using between_cond [OF cp(1), of d s v False st False] assms(1,2) a(1,2) cp(4) by simp
  have "\<exists>l2 e2 A2. placing n f (if cs = [] then A2 else insert l2 A2) e2 \<and> l2 \<notin> A2 \<and> between env C T e2 ?e' \<and>
      ?e' = emit_choice fo stop l2 cs elses e2 \<and> em_scope e2 = em_scope e \<and> loop_of e2 = loop_of e \<and> length (em_code e2) = length (em_code ?e1)"
  proof (cases cs)
    case Nil
    obtain l2 where "l2 \<notin> A" using cp(6) by (meson placing_def less_irrefl)
    then show ?thesis using Nil cp(6,8,10) bs(2) by (intro exI [of _ l2] exI [of _ ?e1] exI [of _ A]) simp
  next
    case (Cons x cs')
    obtain c' thens' where x: "x = ElseIf c' thens'" by (cases x)
    let ?l2 = "fst (bucc_emit_label ?e1)" let ?e2 = "snd (bucc_emit_label ?e1)"
    have e': "?e' = emit_choice fo stop ?l2 cs elses ?e2" by (simp add: Cons x emit_elseifs_clause del: emit_elseifs.simps)
    have "emits ?e2 ?e'" unfolding e' by (simp add: Cons x emits_trans [OF emits_clause emits_trans [OF emits_ops(8) emits_ops(4)]])
    then have "between env C T ?e2 ?e'" using between_split(2) [OF bs(2) emits_ops(1)] by blast
    then show ?thesis
      using placing_labels [OF cp(6)] cp(8,10) e' Cons by (intro exI [of _ ?l2] exI [of _ ?e2] exI [of _ A]) simp
  qed
  then obtain l2 e2 A2 where e2: "placing n f (if cs = [] then A2 else insert l2 A2) e2" "l2 \<notin> A2" "between env C T e2 ?e'"
      "?e' = emit_choice fo stop l2 cs elses e2" "em_scope e2 = em_scope e" "loop_of e2 = loop_of e" "length (em_code e2) = length (em_code ?e1)"
    by blast
  have "leads env (length (em_code e2), st, s) (if fst r then q else length (em_code ?e'), st, snd r)"
    using choice_simD [OF assms(3) e2(1-4) _ a(2,3)] a(1,4) e2(5,6) by simp
  then show "leads env (length (em_code e), st, s) (if fst r then q else length (em_code ?e'), st, snd r)"
    using leads_trans [OF start] e2(7) by simp
qed

lemma if_leads:
  assumes "placing n f A e" "between env C T e (emit_node fo (NODE_STMT_IF c thens elseifs elses) e)" "length st + d \<le> 1024"
    "choice_sim env C T fo (global_slot (em_scope e)) d (ElseIf c thens # elseifs) elses s r" "fst r \<longrightarrow> T (snd (loop_of e)) = [word_of_nat q]"
  shows "leads env (length (em_code e), st, s)
    (if fst r then q else length (em_code (emit_node fo (NODE_STMT_IF c thens elseifs elses) e)), st, snd r)"
proof -
  let ?l = "fst (bucc_emit_label e)" let ?stop = "fst (bucc_emit_label (snd (bucc_emit_label e)))"
  let ?e2 = "snd (bucc_emit_label (snd (bucc_emit_label e)))"
  define e3 where "e3 = emit_choice fo ?stop ?l (ElseIf c thens # elseifs) elses ?e2"
  have e': "emit_node fo (NODE_STMT_IF c thens elseifs elses) e = bucc_emit_label_here ?stop e3"
    by (simp add: e3_def clause_def Let_def split_def)
  have em: "emits e ?e2" by (rule emits_trans [OF emits_ops(1) emits_ops(1)])
  have em3: "emits ?e2 e3" unfolding e3_def by (simp add: emits_trans [OF emits_clause emits_trans [OF emits_ops(8) emits_ops(4)]])
  note b = between_mid [OF assms(2) [unfolded e'] em em3 emits_ops(3)]
  note two = placing_two [OF assms(1)]
  have "placing n f (insert ?stop A) e3"
  proof -
    have "between env C T ?e2 (clause fo ?stop ?l c thens ?e2)"
      using between_split(1) [OF b emits_clause] emits_trans [OF emits_ops(8) emits_ops(4)] by (simp add: e3_def)
    with clause_parts(6) [OF two(1)] two(2,3)
    have "placing n f (insert ?stop A) (clause fo ?stop ?l c thens ?e2)" by simp
    then show ?thesis by (simp add: e3_def placing_block placing_elseifs placing_stmt(3))
  qed
  then have stop: "T ?stop = [word_of_nat (length (em_code e3))]"
    using between_label [OF assms(2) [unfolded e']] placing_member by blast
  have "leads env (length (em_code ?e2), st, s) (if fst r then q else length (em_code e3), st, snd r)"
    using choice_simD [OF assms(4) _ _ b e3_def _ assms(3) stop, of n f "insert ?stop A" q] two assms(5) by simp
  then show ?thesis unfolding e' by (simp only: label_code)
qed

subsection \<open>Blocks\<close>

lemma block_sim_exit:
  assumes "\<And>e n f A st q. placing n f A e \<Longrightarrow> between env C T e (emit_node fo nd e) \<Longrightarrow> slot = global_slot (em_scope e) \<Longrightarrow>
      length st + d \<le> 1024 \<Longrightarrow> T (snd (loop_of e)) = [word_of_nat q] \<Longrightarrow> leads env (length (em_code e), st, s) (q, st, s1)"
  shows "block_sim env C T fo slot d (Stmt line col nd # ss) s (True, s1)"
  unfolding block_sim_def
proof (intro allI impI)
  fix e n f A and st :: "bucc_value list" and q
  let ?b = "Stmt line col nd # ss" let ?e1 = "entry ?b e"
  assume e: "placing n f A e" "between env C T e (emit_block fo ?b e)" "slot = global_slot (em_scope e)"
    "length st + d \<le> 1024" "fst (True, s1) \<longrightarrow> T (snd (loop_of e)) = [word_of_nat q]"
  note nb = node_between [OF e(2)]
  have "placing n f A ?e1" using e(1) placing_cong [OF entry_labelling] by blast
  moreover have "loop_of ?e1 = loop_of e" using loop_of_cong [OF entry_labelling] .
  ultimately show "leads env (length (em_code ?e1), st, s) (if fst (True, s1) then q else length (em_code (emit_block fo ?b e)), st, snd (True, s1))"
    using assms [of n f A ?e1] nb(1,3) e(3-5) by simp
qed

lemma block_simulated:
  "runs (e_float env) slot d b s r \<Longrightarrow> block_sim env C T fo slot d b s r"
  "chooses (e_float env) slot d cs elses s r \<Longrightarrow> choice_sim env C T fo slot d cs elses s r"
proof (induction rule: runs_chooses.inducts)
  case (stop s)
  then show ?case by (simp add: block_sim_def leads_refl)
next
  case (assign g i s x v ss r line col)
  show ?case by (rule block_sim_cons [OF _ assign(4)]) (use assign(1,2) assign_leads in blast)
next
  case (expr s x v ss r line col)
  show ?case by (rule block_sim_cons [OF _ expr(3)]) (use expr(1) expr_stmt_leads in blast)
next
  case (exit line col ss s)
  show ?case by (rule block_sim_exit) (use between_jmp in simp)
next
  case (cond c thens elseifs elses s s1 ss r line col)
  show ?case
  proof (rule block_sim_cons [OF _ cond(4)])
    fix e n f A and st :: "bucc_value list"
    assume "placing n f A e" "between env C T e (emit_node fo (NODE_STMT_IF c thens elseifs elses) e)" "slot = global_slot (em_scope e)"
      "length st + d \<le> 1024"
    then show "leads env (length (em_code e), st, s) (length (em_code (emit_node fo (NODE_STMT_IF c thens elseifs elses) e)), st, s1)"
      using if_leads [of n f A e env C T fo c thens elseifs elses st d s "(False, s1)"] cond(2) by simp
  qed
next
  case (cond_exit c thens elseifs elses s s1 line col ss)
  show ?case
  proof (rule block_sim_exit)
    fix e n f A and st :: "bucc_value list" and q
    assume "placing n f A e" "between env C T e (emit_node fo (NODE_STMT_IF c thens elseifs elses) e)" "slot = global_slot (em_scope e)"
      "length st + d \<le> 1024" "T (snd (loop_of e)) = [word_of_nat q]"
    then show "leads env (length (em_code e), st, s) (q, st, s1)"
      using if_leads [of n f A e env C T fo c thens elseifs elses st d s "(True, s1)" q] cond_exit(2) by simp
  qed
next
  case (while_stop s c v ss r line col body)
  show ?case by (rule block_sim_cons [OF _ while_stop(4)]) (use while_stop(1,2) while_cond(1) in blast)
next
  case (while_go s c v body s1 line col ss r)
  show ?case
    by (rule block_sim_again [OF _ while_go(6)]) (use while_go(1,2,4) while_cond(2) [where brk = False] in force)
next
  case (while_exit s c v body s1 ss r line col)
  show ?case
    by (rule block_sim_cons [OF _ while_exit(6)]) (use while_exit(1,2,4) while_cond(2) [where brk = True] in force)
next
  case (do_stop body s s1 c v kind ss r line col)
  show ?case
  proof (rule block_sim_cons [OF _ do_stop(6)])
    fix e n f A and st :: "bucc_value list"
    assume a: "placing n f A e" "between env C T e (emit_node fo (NODE_STMT_DO_LOOP body (Some c) kind) e)"
      "slot = global_slot (em_scope e)" "length st + d \<le> 1024"
    from do_leads(3) [OF a(1,2,4) do_stop(2) [unfolded a(3)] _ refl do_stop(3,4) [unfolded a(3)]]
    show "leads env (length (em_code e), st, s) (length (em_code (emit_node fo (NODE_STMT_DO_LOOP body (Some c) kind) e)), st, s1)"
      by (simp only: HOL.simp_thms if_False)
  qed
next
  case (do_go body s s1 c v kind line col ss r)
  show ?case
  proof (rule block_sim_again [OF _ do_go(6)])
    fix e n f A and st :: "bucc_value list"
    assume a: "placing n f A e" "between env C T e (emit_node fo (NODE_STMT_DO_LOOP body (Some c) kind) e)"
      "slot = global_slot (em_scope e)" "length st + d \<le> 1024"
    from do_leads(3) [OF a(1,2,4) do_go(2) [unfolded a(3)] _ refl do_go(3,4) [unfolded a(3)]]
    show "leads env (length (em_code e), st, s) (length (em_code e), st, s1)" by simp
  qed
next
  case (do_forever body s s1 line col kind ss r)
  show ?case by (rule block_sim_again [OF _ do_forever(4)]) (use do_leads(2) do_forever(2) in blast)
next
  case (do_exit body s s1 ss r line col c kind)
  show ?case by (rule block_sim_cons [OF _ do_exit(4)]) (use do_leads(1) do_exit(2) in blast)
next
  case (otherwise elses s r)
  show ?case by (rule choice_sim_nil [OF otherwise(2)])
next
  case (chosen s c v thens r cs elses)
  show ?case by (rule choice_sim_chosen [OF chosen(1,2,4)])
next
  case (passed s c v cs elses r thens)
  show ?case by (rule choice_sim_passed [OF passed(1,2,4)])
qed

section \<open>Procedures and modules\<close>

lemma extends_body: "extends e (emit_body fo name params fn epilogue body e)"
proof -
  define e1 where "e1 = emit_block fo body (e\<lparr>em_local_count := word_of_nat (length params)\<rparr>)"
  have "emits e e1" unfolding e1_def by (intro emits_block emits_record emits_rules)
  moreover have "extends e1 (emit_body fo name params fn epilogue body e)"
    by (rule extends_code [of _ _ epilogue "[]"]) (simp_all add: emit_body_def Let_def e1_def bucc_emit_bytes_def label_of_def)
  ultimately show ?thesis using extends_trans emits_extends(1) by blast
qed

lemma extends_decl: "extends e (emit_decl fo d e)"
  by (cases d) (simp_all add: emit_procedure_def emit_function_def extends_body)

lemma extends_decls: "extends e (fold (emit_decl fo) ds e)"
proof (induction ds arbitrary: e)
  case (Cons d ds)
  show ?case using extends_trans [OF extends_decl Cons.IH] by simp
qed (use emits_refl emits_extends(1) in simp)

lemma placing_body: "placing n f A e \<Longrightarrow> placing n f A (emit_body fo name params fn epilogue body e)"
proof -
  assume "placing n f A e"
  then have "placing n f A (emit_block fo body (e\<lparr>em_local_count := word_of_nat (length params)\<rparr>))" by (simp add: placing_block)
  moreover have "labelling (emit_body fo name params fn epilogue body e) =
      labelling (emit_block fo body (e\<lparr>em_local_count := word_of_nat (length params)\<rparr>))"
    by (simp add: emit_body_def Let_def bucc_emit_bytes_def labelling_def del: loop_label)
  ultimately show ?thesis using placing_cong by blast
qed

lemma placing_decls: "placing n f A e \<Longrightarrow> placing n f A (fold (emit_decl fo) ds e)"
proof (induction ds arbitrary: e)
  case (Cons d ds)
  have "placing n f A (emit_decl fo d e)"
    using Cons.prems by (cases d) (simp_all add: emit_procedure_def emit_function_def placing_body)
  then show ?case using Cons.IH by simp
qed simp

lemma placing_new: "placing 0 f {} (bucc_emitter_set_debug dbg (bucc_emitter_new sc))"
  by (auto simp: placing_def bucc_emitter_set_debug_def bucc_emitter_new_def label_of_def)

lemma new_fields [simp]:
  "em_code (bucc_emitter_set_debug dbg (bucc_emitter_new sc)) = []" "em_patches (bucc_emitter_set_debug dbg (bucc_emitter_new sc)) = []"
  "em_scope (bucc_emitter_set_debug dbg (bucc_emitter_new sc)) = sc" "em_procedures (bucc_emitter_set_debug dbg (bucc_emitter_new sc)) = []"
  by (simp_all add: bucc_emitter_set_debug_def bucc_emitter_new_def)

text \<open>The code of a module whose patches are resolved.\<close>

lemma resolved_linked:
  assumes "extends (bucc_emitter_set_debug dbg (bucc_emitter_new sc)) e" "placing 0 f {} e" "length (em_code e) < 2 ^ 32"
  shows "linked (em_code (bucc_emit_resolve_patches e)) (label_of e) e"
    "length (em_code (bucc_emit_resolve_patches e)) = length (em_code e)"
proof -
  let ?C = "em_code (bucc_emit_resolve_patches e)"
  obtain qs where qs: "map pt_offset (em_patches e) = map word_of_nat qs" "spaced 0 qs (length (em_code e))"
    using assms(1) by (auto simp: extends_def)
  have "resolved (em_labels e) (em_patches e) qs (em_code e) ?C"
    using resolve_patches [OF qs order_refl assms(3)] by (simp add: bucc_emit_resolve_patches_def)
  then have r: "length ?C = length (em_code e)" "\<forall>i < length (em_code e). \<not> in_operand qs i \<longrightarrow> ?C ! i = em_code e ! i"
      "\<forall>k < length (em_patches e). \<forall>t ts. pt_label_id (em_patches e ! k) < length (em_labels e) \<longrightarrow>
         em_labels e ! pt_label_id (em_patches e ! k) = t # ts \<longrightarrow>
         (\<forall>j < 4. ?C ! (qs ! k + j) = u32_bytes (t - word_of_nat (qs ! k + 4)) ! j)"
    by (simp_all add: resolved_def)
  show "length ?C = length (em_code e)" using r(1) .
  have u: "unat (word_of_nat q :: u32) = q" if "q \<in> set qs" for q
    using spaced_bounds [OF qs(2) that] assms(3) by (simp add: unat_of_nat)
  have "map unat (map pt_offset (em_patches e)) = qs" unfolding qs(1) using u by (simp add: map_idI)
  then have ops: "operands e = qs" by (simp add: operands_def comp_def)
  have "\<forall>j < 4. ?C ! (unat (pt_offset p) + j) = u32_bytes (t - (pt_offset p + 4)) ! j"
    if p: "p \<in> set (em_patches e)" and t: "label_of e (pt_label_id p) = t # ts" for p t ts
  proof -
    obtain k where k: "k < length (em_patches e)" "p = em_patches e ! k" using p by (metis in_set_conv_nth)
    have len: "length qs = length (em_patches e)" using qs(1) by (metis length_map)
    have "pt_offset p = word_of_nat (qs ! k)" using arg_cong [OF qs(1), of "\<lambda>xs. xs ! k"] k len by simp
    moreover from this have "unat (pt_offset p) = qs ! k" using u [of "qs ! k"] k(1) len by simp
    ultimately show ?thesis using r(3) k t by (auto simp: label_of_def split: if_splits)
  qed
  moreover have "label_of e l = [off]" if "off \<in> set (label_of e l)" for l off
  proof -
    have "length (label_of e l) \<le> 1" using assms(2) by (simp add: placing_def)
    then show ?thesis using that by (cases "label_of e l") auto
  qed
  ultimately show "linked ?C (label_of e) e"
    using r(1,2) ops by (auto simp: linked_def)
qed

lemma step_ok: "bucc_vm_step env vm = Some (VM_OK, vm') \<Longrightarrow> status vm' = VM_OK"
  by (auto simp: bucc_vm_step_def Let_def bind_eq_Some_conv split: if_splits)

lemma run_steps:
  "vm_steps env n vm = Some vm' \<Longrightarrow> running vm \<Longrightarrow> status vm = VM_OK \<Longrightarrow> run_loop env vm = run_loop env vm'"
proof (induction n arbitrary: vm)
  case (Suc n)
  from Suc.prems(1) obtain vm1 where s: "bucc_vm_step env vm = Some (VM_OK, vm1)" "running vm1 = running vm" "vm_steps env n vm1 = Some vm'"
    by (auto split: option.splits bucc_vm_status_t.splits if_splits)
  have "run_loop env vm = run_loop env vm1" using Suc.prems(2,3) s(1) by (subst run_loop.simps) simp
  then show ?case using Suc.IH [OF s(3)] s(2) Suc.prems(2) step_ok [OF s(1)] by simp
qed simp

lemma return_halts:
  assumes "code_at env p [OP_RETURN]" "in_conf (p, st, s) vm" "frames vm = []" "running vm"
    "unat (c_instructions (counters vm)) < unat (max_instructions (limits vm))"
  shows "\<exists>vm'. run_loop env vm = Some (Some vm') \<and> status vm' = VM_HALT \<and> stack vm' = st \<and> globals vm' = globals vm"
proof -
  obtain c where c: "bytecode (e_module env) = Some c" "length c + 8 < 2 ^ 32" "p + 1 \<le> length c"
      "bytecode_len (e_module env) = word_of_nat (length c)" "c ! p = OP_RETURN"
    using code_at_bytes [OF assms(1)] by (metis One_nat_def add.right_neutral length_Cons lessI list.size(3) nth_Cons_0 zero_less_one)
  have "unat (ip vm) = p" using assms(2) c(2,3) by (simp add: unat_of_nat)
  then have "at_op env vm OP_RETURN"
    unfolding at_op_def using c assms(2,5) by (auto simp: word_less_nat_alt unat_ucast_u64)
  then have "bucc_vm_step env vm = Some (VM_HALT, (fetched vm)\<lparr>status := VM_HALT, running := False\<rparr>)"
    using assms(3) by (simp add: step_at_op exec_op_lookup exec_lookup exec_return_def)
  then have "run_loop env vm = run_loop env ((fetched vm)\<lparr>status := VM_HALT, running := False\<rparr>)"
    using assms(2,4) by (subst run_loop.simps) simp
  then show ?thesis using assms(2) by (simp add: run_loop.simps [of env "(fetched vm)\<lparr>status := VM_HALT, running := False\<rparr>"])
qed

lemma leads_return:
  assumes "leads env (p, [], s) (q, [], s')" "code_at env q [OP_RETURN]"
  shows "\<exists>n. \<forall>vm. in_conf (p, [], s) vm \<longrightarrow> frames vm = [] \<longrightarrow>
      unat (c_instructions (counters vm)) + n < unat (max_instructions (limits vm)) \<longrightarrow>
      (\<exists>vm'. bucc_vm_run env vm = Some (Some (VM_HALT, vm')) \<and> stack vm' = [] \<and> holds s' (globals vm'))"
proof -
  obtain n where n: "reaches env n (p, [], s) (q, [], s')" using assms(1) by (auto simp: leads_def)
  { fix vm assume vm: "in_conf (p, [], s) vm" "frames vm = []"
      "unat (c_instructions (counters vm)) + n < unat (max_instructions (limits vm))"
    let ?vm = "vm\<lparr>running := True\<rparr>"
    have "in_conf (p, [], s) ?vm" "unat (c_instructions (counters ?vm)) + n \<le> unat (max_instructions (limits ?vm))"
      using vm(1,3) by simp_all
    then obtain vm1 where v1: "vm_steps env n ?vm = Some vm1" "in_conf (q, [], s') vm1" "same_rest ?vm vm1"
        "unat (c_instructions (counters vm1)) = unat (c_instructions (counters ?vm)) + n"
      using n unfolding reaches_def by blast
    have r: "run_loop env ?vm = run_loop env vm1" using run_steps [OF v1(1)] vm(1) by simp
    have "\<exists>vm'. run_loop env vm1 = Some (Some vm') \<and> status vm' = VM_HALT \<and> stack vm' = [] \<and> globals vm' = globals vm1"
      using v1 vm(2,3) by (intro return_halts [OF assms(2) v1(2)]) (simp_all add: same_rest_def)
    then have "\<exists>vm'. bucc_vm_run env vm = Some (Some (VM_HALT, vm')) \<and> stack vm' = [] \<and> holds s' (globals vm')"
      using v1(2) r by (fastforce simp: bucc_vm_run_def) }
  then show ?thesis by blast
qed

lemma procedure_leads:
  assumes "extends (bucc_emitter_set_debug dbg (bucc_emitter_new sc)) e" "placing n f A e" "em_scope e = sc"
    "linked C T e3" "has_constants env e3" "has_code env C" "extends (emit_procedure fo name params body e) e3"
    "runs (e_float env) (global_slot sc) 1024 body s (False, s')"
  shows "\<exists>q. leads env (length (em_code e), [], s) (q, [], s') \<and> code_at env q [OP_RETURN]"
proof -
  define eb where "eb = e\<lparr>em_local_count := word_of_nat (length params)\<rparr>"
  define e1 where "e1 = emit_block fo body eb"
  define e2 where "e2 = emit_procedure fo name params body e"
  have e2: "em_code e2 = em_code e1 @ [OP_RETURN]" "em_patches e2 = em_patches e1" "extends e1 e2"
  proof -
    show *: "em_code e2 = em_code e1 @ [OP_RETURN]" "em_patches e2 = em_patches e1"
      by (simp_all add: e2_def e1_def eb_def emit_procedure_def emit_body_def Let_def bucc_emit_bytes_def)
    show "extends e1 e2"
      by (rule extends_code [OF *, of "[]"])
        (simp_all add: e2_def e1_def eb_def emit_procedure_def emit_body_def Let_def bucc_emit_bytes_def label_of_def)
  qed
  have len: "length C < 2 ^ 32" using has_codeD [OF assms(6)] .
  have l2: "linked C T e2" using linked_before [OF assms(4) assms(7) [folded e2_def] len] .
  have l1: "linked C T e1" using linked_before [OF l2 e2(3) len] .
  have hc: "has_constants env e1"
    using has_constants_before [OF assms(5) extends_trans [OF e2(3) assms(7) [folded e2_def]]] .
  have em: "emits eb e1" unfolding e1_def by (rule emits_ops(4))
  have el: "length (em_code e1) < 2 ^ 32" using l1 len by (simp add: linked_def)
  have "length (em_code eb) \<le> length (em_code e1)" using extends_operands(2) [OF emits_extends(1) [OF em] el] .
  then have lb: "length (em_code e) < 2 ^ 32" using el by (simp add: eb_def)
  have "inside_code (bucc_emitter_set_debug dbg (bucc_emitter_new sc))" by (simp add: inside_code_def operands_def)
  then have "inside_code e" using inside_extends [OF _ assms(1) lb] by blast
  then have ib: "inside_code eb" by (simp add: inside_code_def operands_def eb_def)
  have b: "between env C T eb (emit_block fo body eb)"
    using assms(6) ib l1 hc em by (simp add: between_def e1_def)
  have "leads env (length (em_code eb), [], s) (length (em_code e1), [], s')"
    using block_simD(2) [OF block_simulated(1) [OF assms(8)] _ b, of n f A "[]"] assms(2,3) by (simp add: eb_def e1_def)
  moreover have "code_at env (length (em_code e1)) [OP_RETURN]"
    using emitted_code_at [OF assms(6) l2 inside_extends [OF ib emits_extends(1) [OF em] el] e2(1,2)] .
  ultimately show ?thesis by (auto simp: eb_def)
qed

text \<open>
  C1: The compiler is correct for programs over global variables. If the body of a procedure, run by the semantics of the
  source language, takes the store \<open>s\<close> to \<open>s'\<close>, then the machine, started at the procedure's code with globals that
  hold \<open>s\<close>, halts with an empty stack and globals that hold \<open>s'\<close>, given enough instructions: there is a number of
  instructions that is enough for every such machine. This covers assignments, expressions on integers, floats and
  booleans, \<open>IF\<close> with any number of \<open>ELSEIF\<close>s, \<open>WHILE\<close> and \<open>DO\<close> loops and \<open>EXIT\<close>, with and without line markers, in any module.
\<close>

theorem compiled_procedure_correct:
  assumes "bucc_emit_module fo m (bucc_emitter_set_debug dbg (bucc_emitter_new sc)) = (ok, e)"
    "k < length (ast_procedures m)" "ast_procedures m ! k = NODE_PROC_DECL name params body"
    "length (em_code e) + 8 < 2 ^ 32" "length (em_constants e) \<le> 65536" "e_module env = bucc_emitter_to_module e"
    "runs (e_float env) (global_slot sc) 1024 body s (False, s')"
  shows "\<exists>n. \<forall>vm. ip vm = p_code_offset (rev (em_procedures e) ! k) \<and> stack vm = [] \<and> frames vm = [] \<and> status vm = VM_OK \<and>
      holds s (globals vm) \<and> 0 < h_stack (heap_of vm) \<and>
      unat (c_instructions (counters vm)) + n < unat (max_instructions (limits vm)) \<longrightarrow>
      (\<exists>vm'. bucc_vm_run env vm = Some (Some (VM_HALT, vm')) \<and> stack vm' = [] \<and> holds s' (globals vm'))"
proof -
  let ?e0 = "bucc_emitter_set_debug dbg (bucc_emitter_new sc)" let ?ds = "ast_procedures m"
  define es where "es = fold (emit_decl fo) (take k ?ds) ?e0"
  define ef where "ef = fold (emit_decl fo) ?ds ?e0"
  have e: "e = bucc_emit_resolve_patches ef" using assms(1) by (simp add: bucc_emit_module_def Let_def ef_def)
  have ds: "?ds = take k ?ds @ NODE_PROC_DECL name params body # drop (Suc k) ?ds"
    using assms(2,3) by (metis id_take_nth_drop)
  have "ef = fold (emit_decl fo) (drop (Suc k) ?ds) (emit_procedure fo name params body es)"
    unfolding ef_def es_def by (subst ds) simp
  then have ex: "extends (emit_procedure fo name params body es) ef" using extends_decls by simp
  have pl: "placing 0 (\<lambda>_. []) {} es" "placing 0 (\<lambda>_. []) {} ef"
    unfolding es_def ef_def by (rule placing_decls [OF placing_new])+
  have "length (em_code ef) \<le> length (em_code e)" by (simp add: e bucc_emit_resolve_patches_def patches_length)
  then have lf: "length (em_code ef) < 2 ^ 32" using assms(4) by simp
  have "extends ?e0 ef" unfolding ef_def by (rule extends_decls)
  note link = resolved_linked [OF this pl(2) lf]
  have ne: "em_code e \<noteq> []"
  proof -
    have "em_code (emit_procedure fo name params body es) \<noteq> []"
      by (simp add: emit_procedure_def emit_body_def Let_def bucc_emit_bytes_def)
    moreover obtain bs where "em_code ef = em_code (emit_procedure fo name params body es) @ bs" using ex by (auto simp: extends_def)
    ultimately have "em_code ef \<noteq> []" by simp
    then show ?thesis using link(2) e by auto
  qed
  have hcode: "has_code env (em_code e)" using assms(4,6) ne by (simp add: has_code_def bucc_emitter_to_module_def table_def)
  have hconst: "has_constants env ef"
    using assms(5,6) by (auto simp: has_constants_def bucc_emitter_to_module_def table_def e bucc_emit_resolve_patches_def intro!: exI [of _ "[]"])
  have sc: "em_scope es = sc" unfolding es_def by (simp add: decls_scope)
  have ex0: "extends ?e0 es" unfolding es_def by (rule extends_decls)
  obtain q where q: "leads env (length (em_code es), [], s) (q, [], s')" "code_at env q [OP_RETURN]"
    using procedure_leads [OF ex0 pl(1) sc link(1) [folded e] hconst hcode ex assms(7)] by blast
  have off: "p_code_offset (rev (em_procedures e) ! k) = word_of_nat (length (em_code es))"
  proof -
    obtain ps where "em_procedures ef = rev ps @ em_procedures ?e0"
        "\<forall>k < length ?ds. p_code_offset (ps ! k) = word_of_nat (length (em_code (fold (emit_decl fo) (take k ?ds) ?e0)))"
      using decls_procedures [of fo ?ds ?e0] unfolding ef_def by blast
    then show ?thesis using assms(2) by (simp add: e bucc_emit_resolve_patches_def es_def)
  qed
  obtain n where "\<forall>vm. in_conf (length (em_code es), [], s) vm \<longrightarrow> frames vm = [] \<longrightarrow>
      unat (c_instructions (counters vm)) + n < unat (max_instructions (limits vm)) \<longrightarrow>
      (\<exists>vm'. bucc_vm_run env vm = Some (Some (VM_HALT, vm')) \<and> stack vm' = [] \<and> holds s' (globals vm'))"
    using leads_return [OF q] by blast
  then show ?thesis unfolding off by (intro exI [of _ n]) auto
qed

text \<open>A module with one global variable \<open>x\<close> and \<open>PROCEDURE m()\<close> with the body \<open>x = x + 7\<close>.\<close>

definition adding_body :: "bucc_stmt list" where
  "adding_body =
     [Stmt 1 1 (NODE_STMT_ASSIGN (NODE_EXPR_IDENT [120])
        (NODE_EXPR_BINARY BINARY_ADD (NODE_EXPR_IDENT [120]) (NODE_EXPR_LITERAL (LI64 7))))]"

definition adding :: bucc_ast_module where
  "adding = \<lparr>ast_globals = [[120]], ast_procedures = [NODE_PROC_DECL [109] [] adding_body]\<rparr>"

lemma strcasecmp_examples: "strcasecmp_local [120] [109] \<noteq> 0" "strcasecmp_local [109] [120] \<noteq> 0" "strcasecmp_local [120] [120] = 0"
  by (simp_all add: strcasecmp_local_def c_tolower_def c_isupper_def del: code_char_of)

lemma adding_scope:
  "fst (declare_module adding) = \<lparr>sc_symbols = [\<lparr>sym_kind = SYM_PROCEDURE, sym_name = [109], sym_slot = 1\<rparr>,
     \<lparr>sym_kind = SYM_GLOBAL, sym_name = [120], sym_slot = 0\<rparr>], sc_local_count = 2\<rparr>"
  by (simp add: adding_def declare_module_def declare_procedure_def bucc_scope_new_def
    bucc_scope_define_def bucc_scope_lookup_local_def strcasecmp_examples)

lemma adding_lookup: "bucc_scope_lookup [120] [fst (declare_module adding)] = Some \<lparr>sym_kind = SYM_GLOBAL, sym_name = [120], sym_slot = 0\<rparr>"
  by (simp add: adding_scope bucc_scope_lookup_local_def strcasecmp_examples)

lemma adding_slot: "global_slot [fst (declare_module adding)] [120] = Some 0"
  unfolding global_slot_def adding_lookup by simp

lemma adding_emitted:
  assumes "em_code e = []" "em_patches e = []" "\<not> em_emit_debug_info e" "em_scope e = [fst (declare_module adding)]" "em_constants e = []"
  shows "length (em_code (emit_decl fo (NODE_PROC_DECL [109] [] adding_body) e)) = 11"
    "length (em_constants (emit_decl fo (NODE_PROC_DECL [109] [] adding_body) e)) = 1"
    "em_patches (emit_decl fo (NODE_PROC_DECL [109] [] adding_body) e) = []"
  by (simp_all add: adding_body_def emit_defs emit_ident_def emit_indexed_def lookup_symbol_def bucc_emit_constant_i64_def
    add_constant_def  assms adding_lookup del: bucc_scope_lookup.simps)

lemma adding_runs:
  "runs fo (global_slot [fst (declare_module adding)]) 1024 adding_body ((\<lambda>_. VNull)(0 := VI64 35)) (False, (\<lambda>_. VNull)(0 := VI64 42))"
proof -
  have "expr_value fo (global_slot [fst (declare_module adding)]) (Suc (Suc d)) ((\<lambda>_. VNull)(0 := VI64 35))
      (NODE_EXPR_BINARY BINARY_ADD (NODE_EXPR_IDENT [120]) (NODE_EXPR_LITERAL (LI64 7))) = Some (VI64 42)" for d
    by (simp add: adding_slot scalar_def binary_value_def)
  from this [of 1022] show ?thesis
    unfolding adding_body_def using runs_chooses.assign [where slot = "global_slot [fst (declare_module adding)]", OF adding_slot]
    by (simp add: runs_chooses.stop)
qed

theorem compiled_procedure_correct_witness:
  "\<exists>e n. snd (bucc_emit_module example_float adding (bucc_emitter_set_debug False (bucc_emitter_new [fst (declare_module adding)]))) = e \<and>
     (\<forall>vm. ip vm = p_code_offset (rev (em_procedures e) ! 0) \<and> stack vm = [] \<and> frames vm = [] \<and> status vm = VM_OK \<and>
        holds ((\<lambda>_. VNull)(0 := VI64 35)) (globals vm) \<and> 0 < h_stack (heap_of vm) \<and>
        unat (c_instructions (counters vm)) + n < unat (max_instructions (limits vm)) \<longrightarrow>
        (\<exists>vm'. bucc_vm_run ((example_env [])\<lparr>e_module := bucc_emitter_to_module e\<rparr>) vm = Some (Some (VM_HALT, vm')) \<and>
           stack vm' = [] \<and> holds ((\<lambda>_. VNull)(0 := VI64 42)) (globals vm')))"
proof -
  let ?r = "bucc_emit_module example_float adding (bucc_emitter_set_debug False (bucc_emitter_new [fst (declare_module adding)]))"
  obtain ok e where r: "?r = (ok, e)" by (cases ?r)
  have procs: "ast_procedures adding = [NODE_PROC_DECL [109] [] adding_body]" by (simp add: adding_def)
  have new: "em_constants (bucc_emitter_set_debug False (bucc_emitter_new sc)) = []"
      "\<not> em_emit_debug_info (bucc_emitter_set_debug False (bucc_emitter_new sc))" for sc
    by (simp_all add: bucc_emitter_set_debug_def bucc_emitter_new_def)
  note em = adding_emitted [of "bucc_emitter_set_debug False (bucc_emitter_new [fst (declare_module adding)])" example_float,
      OF new_fields(1,2) new(2) new_fields(3) new(1)]
  have "length (em_code e) = 11" "length (em_constants e) = 1"
    using r em unfolding bucc_emit_module_def Let_def procs bucc_emit_resolve_patches_def
    by (auto simp del: emit_decl.simps)
  then have "length (em_code e) + 8 < 2 ^ 32" "length (em_constants e) \<le> 65536" by simp_all
  from compiled_procedure_correct [OF r, of 0, OF _ _ this, of "[109]" "[]" adding_body
      "(example_env [])\<lparr>e_module := bucc_emitter_to_module e\<rparr>", OF _ _ _ adding_runs]
  show ?thesis unfolding procs r by simp
qed

end
