(* ===== verification/Bucc_Lexer.thy ===== *)
theory Bucc_Lexer
  imports Mutineer_Prelude
begin

text \<open>
  The lexer of the Buccaneer language, \<^verbatim>\<open>src/buccaneer/lexer.c\<close>, and what it reports to
  \<^verbatim>\<open>diag.c\<close> of that directory.

  \<^item> The source is a list of bytes. The position of the lexer is the part of the source that is still ahead (\<open>lx_rest\<close>),
    so \<open>pos >= source_len\<close> is \<open>lx_rest lx = []\<close>; reading there gives NUL, as \<open>peek_char\<close> does.
  \<^item> A token carries its text instead of a pointer into the source and a length.
  \<^item> Scanning functions return the token and the lexer behind it. \<open>bucc_lexer_next\<close> returns the lexer, whose
    \<open>lx_current\<close> is the token the C function returns.
  \<^item> \<open>strtod\<close> is the parameter \<open>f_strtod\<close> of \<^typ>\<open>float_ops\<close>. \<open>strtoll\<close> reads the source from the start of the token,
    which may be longer than the token.
\<close>

section \<open>Diagnostics\<close>

text \<open>The texts of messages are written with a tilde in place of the single quotes of the C literals.\<close>

definition quoted :: "string \<Rightarrow> string" where
  "quoted s = map (\<lambda>c. if c = CHR ''~'' then CHR 0x27 else c) s"

record bucc_source_span_t =
  sp_file_id :: u32
  sp_start_line :: u32
  sp_start_col :: u32
  sp_end_line :: u32
  sp_end_col :: u32

record bucc_diag_t =
  d_entries :: "(bucc_source_span_t \<times> string) list"
  d_error_count :: u32

definition bucc_diag_error :: "bucc_source_span_t \<Rightarrow> string \<Rightarrow> bucc_diag_t \<Rightarrow> bucc_diag_t" where
  "bucc_diag_error span msg d = d\<lparr>d_entries := d_entries d @ [(span, msg)], d_error_count := d_error_count d + 1\<rparr>"

definition bucc_diag_has_errors :: "bucc_diag_t \<Rightarrow> bool" where
  "bucc_diag_has_errors d \<longleftrightarrow> 0 < d_error_count d"

section \<open>Tokens\<close>

type_synonym bucc_token_kind_t = int

abbreviation (input) TOK_EOF :: bucc_token_kind_t where "TOK_EOF \<equiv> 0"
abbreviation (input) TOK_NEWLINE :: bucc_token_kind_t where "TOK_NEWLINE \<equiv> 1"
abbreviation (input) TOK_COMMENT :: bucc_token_kind_t where "TOK_COMMENT \<equiv> 2"
abbreviation (input) TOK_IDENT :: bucc_token_kind_t where "TOK_IDENT \<equiv> 3"
abbreviation (input) TOK_INTEGER :: bucc_token_kind_t where "TOK_INTEGER \<equiv> 4"
abbreviation (input) TOK_DOUBLE :: bucc_token_kind_t where "TOK_DOUBLE \<equiv> 5"
abbreviation (input) TOK_HEX :: bucc_token_kind_t where "TOK_HEX \<equiv> 6"
abbreviation (input) TOK_STRING :: bucc_token_kind_t where "TOK_STRING \<equiv> 7"
abbreviation (input) TOK_DATE :: bucc_token_kind_t where "TOK_DATE \<equiv> 8"
abbreviation (input) TOK_DATETIME :: bucc_token_kind_t where "TOK_DATETIME \<equiv> 9"
abbreviation (input) TOK_LPAREN :: bucc_token_kind_t where "TOK_LPAREN \<equiv> 10"
abbreviation (input) TOK_RPAREN :: bucc_token_kind_t where "TOK_RPAREN \<equiv> 11"
abbreviation (input) TOK_LBRACKET :: bucc_token_kind_t where "TOK_LBRACKET \<equiv> 12"
abbreviation (input) TOK_RBRACKET :: bucc_token_kind_t where "TOK_RBRACKET \<equiv> 13"
abbreviation (input) TOK_LBRACE :: bucc_token_kind_t where "TOK_LBRACE \<equiv> 14"
abbreviation (input) TOK_RBRACE :: bucc_token_kind_t where "TOK_RBRACE \<equiv> 15"
abbreviation (input) TOK_COMMA :: bucc_token_kind_t where "TOK_COMMA \<equiv> 16"
abbreviation (input) TOK_COLON :: bucc_token_kind_t where "TOK_COLON \<equiv> 17"
abbreviation (input) TOK_DOT :: bucc_token_kind_t where "TOK_DOT \<equiv> 18"
abbreviation (input) TOK_HASH :: bucc_token_kind_t where "TOK_HASH \<equiv> 19"
abbreviation (input) TOK_PLUS :: bucc_token_kind_t where "TOK_PLUS \<equiv> 20"
abbreviation (input) TOK_MINUS :: bucc_token_kind_t where "TOK_MINUS \<equiv> 21"
abbreviation (input) TOK_STAR :: bucc_token_kind_t where "TOK_STAR \<equiv> 22"
abbreviation (input) TOK_SLASH :: bucc_token_kind_t where "TOK_SLASH \<equiv> 23"
abbreviation (input) TOK_EQ :: bucc_token_kind_t where "TOK_EQ \<equiv> 24"
abbreviation (input) TOK_NE :: bucc_token_kind_t where "TOK_NE \<equiv> 25"
abbreviation (input) TOK_LT :: bucc_token_kind_t where "TOK_LT \<equiv> 26"
abbreviation (input) TOK_LE :: bucc_token_kind_t where "TOK_LE \<equiv> 27"
abbreviation (input) TOK_GT :: bucc_token_kind_t where "TOK_GT \<equiv> 28"
abbreviation (input) TOK_GE :: bucc_token_kind_t where "TOK_GE \<equiv> 29"
abbreviation (input) TOK_KW_PROGRAM :: bucc_token_kind_t where "TOK_KW_PROGRAM \<equiv> 30"
abbreviation (input) TOK_KW_VERSION :: bucc_token_kind_t where "TOK_KW_VERSION \<equiv> 31"
abbreviation (input) TOK_KW_AUTHOR :: bucc_token_kind_t where "TOK_KW_AUTHOR \<equiv> 32"
abbreviation (input) TOK_KW_DESCRIPTION :: bucc_token_kind_t where "TOK_KW_DESCRIPTION \<equiv> 33"
abbreviation (input) TOK_KW_CAPABILITY :: bucc_token_kind_t where "TOK_KW_CAPABILITY \<equiv> 34"
abbreviation (input) TOK_KW_OPTION :: bucc_token_kind_t where "TOK_KW_OPTION \<equiv> 35"
abbreviation (input) TOK_KW_DATASET :: bucc_token_kind_t where "TOK_KW_DATASET \<equiv> 36"
abbreviation (input) TOK_KW_DIM :: bucc_token_kind_t where "TOK_KW_DIM \<equiv> 37"
abbreviation (input) TOK_KW_AS :: bucc_token_kind_t where "TOK_KW_AS \<equiv> 38"
abbreviation (input) TOK_KW_LET :: bucc_token_kind_t where "TOK_KW_LET \<equiv> 39"
abbreviation (input) TOK_KW_CONST :: bucc_token_kind_t where "TOK_KW_CONST \<equiv> 40"
abbreviation (input) TOK_KW_SUB :: bucc_token_kind_t where "TOK_KW_SUB \<equiv> 41"
abbreviation (input) TOK_KW_FUNCTION :: bucc_token_kind_t where "TOK_KW_FUNCTION \<equiv> 42"
abbreviation (input) TOK_KW_END :: bucc_token_kind_t where "TOK_KW_END \<equiv> 43"
abbreviation (input) TOK_KW_CALL :: bucc_token_kind_t where "TOK_KW_CALL \<equiv> 44"
abbreviation (input) TOK_KW_RETURN :: bucc_token_kind_t where "TOK_KW_RETURN \<equiv> 45"
abbreviation (input) TOK_KW_IF :: bucc_token_kind_t where "TOK_KW_IF \<equiv> 46"
abbreviation (input) TOK_KW_THEN :: bucc_token_kind_t where "TOK_KW_THEN \<equiv> 47"
abbreviation (input) TOK_KW_ELSE :: bucc_token_kind_t where "TOK_KW_ELSE \<equiv> 48"
abbreviation (input) TOK_KW_ELSEIF :: bucc_token_kind_t where "TOK_KW_ELSEIF \<equiv> 49"
abbreviation (input) TOK_KW_SELECT :: bucc_token_kind_t where "TOK_KW_SELECT \<equiv> 50"
abbreviation (input) TOK_KW_CASE :: bucc_token_kind_t where "TOK_KW_CASE \<equiv> 51"
abbreviation (input) TOK_KW_FOR :: bucc_token_kind_t where "TOK_KW_FOR \<equiv> 52"
abbreviation (input) TOK_KW_TO :: bucc_token_kind_t where "TOK_KW_TO \<equiv> 53"
abbreviation (input) TOK_KW_STEP :: bucc_token_kind_t where "TOK_KW_STEP \<equiv> 54"
abbreviation (input) TOK_KW_NEXT :: bucc_token_kind_t where "TOK_KW_NEXT \<equiv> 55"
abbreviation (input) TOK_KW_WHILE :: bucc_token_kind_t where "TOK_KW_WHILE \<equiv> 56"
abbreviation (input) TOK_KW_WEND :: bucc_token_kind_t where "TOK_KW_WEND \<equiv> 57"
abbreviation (input) TOK_KW_DO :: bucc_token_kind_t where "TOK_KW_DO \<equiv> 58"
abbreviation (input) TOK_KW_LOOP :: bucc_token_kind_t where "TOK_KW_LOOP \<equiv> 59"
abbreviation (input) TOK_KW_UNTIL :: bucc_token_kind_t where "TOK_KW_UNTIL \<equiv> 60"
abbreviation (input) TOK_KW_EXIT :: bucc_token_kind_t where "TOK_KW_EXIT \<equiv> 61"
abbreviation (input) TOK_KW_HALT :: bucc_token_kind_t where "TOK_KW_HALT \<equiv> 62"
abbreviation (input) TOK_KW_CHAIN :: bucc_token_kind_t where "TOK_KW_CHAIN \<equiv> 63"
abbreviation (input) TOK_KW_TRY :: bucc_token_kind_t where "TOK_KW_TRY \<equiv> 64"
abbreviation (input) TOK_KW_CATCH :: bucc_token_kind_t where "TOK_KW_CATCH \<equiv> 65"
abbreviation (input) TOK_KW_THROW :: bucc_token_kind_t where "TOK_KW_THROW \<equiv> 66"
abbreviation (input) TOK_KW_ON :: bucc_token_kind_t where "TOK_KW_ON \<equiv> 67"
abbreviation (input) TOK_KW_AND :: bucc_token_kind_t where "TOK_KW_AND \<equiv> 68"
abbreviation (input) TOK_KW_OR :: bucc_token_kind_t where "TOK_KW_OR \<equiv> 69"
abbreviation (input) TOK_KW_NOT :: bucc_token_kind_t where "TOK_KW_NOT \<equiv> 70"
abbreviation (input) TOK_KW_MOD :: bucc_token_kind_t where "TOK_KW_MOD \<equiv> 71"
abbreviation (input) TOK_KW_TRUE :: bucc_token_kind_t where "TOK_KW_TRUE \<equiv> 72"
abbreviation (input) TOK_KW_FALSE :: bucc_token_kind_t where "TOK_KW_FALSE \<equiv> 73"
abbreviation (input) TOK_KW_NULL :: bucc_token_kind_t where "TOK_KW_NULL \<equiv> 74"
abbreviation (input) TOK_KW_INTEGER :: bucc_token_kind_t where "TOK_KW_INTEGER \<equiv> 75"
abbreviation (input) TOK_KW_DOUBLE :: bucc_token_kind_t where "TOK_KW_DOUBLE \<equiv> 76"
abbreviation (input) TOK_KW_BOOLEAN :: bucc_token_kind_t where "TOK_KW_BOOLEAN \<equiv> 77"
abbreviation (input) TOK_KW_STRING :: bucc_token_kind_t where "TOK_KW_STRING \<equiv> 78"
abbreviation (input) TOK_KW_DATE :: bucc_token_kind_t where "TOK_KW_DATE \<equiv> 79"
abbreviation (input) TOK_KW_DATETIME :: bucc_token_kind_t where "TOK_KW_DATETIME \<equiv> 80"
abbreviation (input) TOK_KW_ARRAY :: bucc_token_kind_t where "TOK_KW_ARRAY \<equiv> 81"
abbreviation (input) TOK_KW_MAP :: bucc_token_kind_t where "TOK_KW_MAP \<equiv> 82"
abbreviation (input) TOK_KW_OF :: bucc_token_kind_t where "TOK_KW_OF \<equiv> 83"
abbreviation (input) TOK_KW_REM :: bucc_token_kind_t where "TOK_KW_REM \<equiv> 84"
abbreviation (input) TOK_ERROR :: bucc_token_kind_t where "TOK_ERROR \<equiv> 85"

definition kind_names :: "string list" where
  "kind_names =
     [''EOF'', ''NEWLINE'', ''COMMENT'', ''IDENTIFIER'', ''INTEGER'', ''DOUBLE'', ''HEX'', ''STRING'', ''DATE'',
      ''DATETIME'', ''('', '')'', ''['', '']'', ''{'', ''}'', '','', '':'', ''.'', ''#'', ''+'', ''-'', ''*'', ''/'', ''='',
      ''<>'', ''<'', ''<='', ''>'', ''>='', ''PROGRAM'', ''VERSION'', ''AUTHOR'', ''DESCRIPTION'', ''CAPABILITY'',
      ''OPTION'', ''DATASET'', ''DIM'', ''AS'', ''LET'', ''CONST'', ''SUB'', ''FUNCTION'', ''END'', ''CALL'', ''RETURN'',
      ''IF'', ''THEN'', ''ELSE'', ''ELSEIF'', ''SELECT'', ''CASE'', ''FOR'', ''TO'', ''STEP'', ''NEXT'', ''WHILE'',
      ''WEND'', ''DO'', ''LOOP'', ''UNTIL'', ''EXIT'', ''HALT'', ''CHAIN'', ''TRY'', ''CATCH'', ''THROW'', ''ON'', ''AND'',
      ''OR'', ''NOT'', ''MOD'', ''TRUE'', ''FALSE'', ''NULL'', ''INTEGER'', ''DOUBLE'', ''BOOLEAN'', ''STRING'', ''DATE'',
      ''DATETIME'', ''ARRAY'', ''MAP'', ''OF'', ''REM'', ''ERROR'']"

definition bucc_token_kind_name :: "bucc_token_kind_t \<Rightarrow> string" where
  "bucc_token_kind_name kind = (if 0 \<le> kind \<and> kind < int (length kind_names) then kind_names ! nat kind else ''UNKNOWN'')"

definition bucc_token_is_type_keyword :: "bucc_token_kind_t \<Rightarrow> bool" where
  "bucc_token_is_type_keyword kind \<longleftrightarrow>
     kind \<in> {TOK_KW_INTEGER, TOK_KW_DOUBLE, TOK_KW_BOOLEAN, TOK_KW_STRING, TOK_KW_DATE, TOK_KW_DATETIME, TOK_KW_ARRAY, TOK_KW_MAP}"

definition bucc_token_is_literal :: "bucc_token_kind_t \<Rightarrow> bool" where
  "bucc_token_is_literal kind \<longleftrightarrow>
     kind \<in> {TOK_INTEGER, TOK_DOUBLE, TOK_HEX, TOK_STRING, TOK_DATE, TOK_DATETIME, TOK_KW_TRUE, TOK_KW_FALSE, TOK_KW_NULL}"

definition bucc_token_is_comparison :: "bucc_token_kind_t \<Rightarrow> bool" where
  "bucc_token_is_comparison kind \<longleftrightarrow> kind \<in> {TOK_EQ, TOK_NE, TOK_LT, TOK_LE, TOK_GT, TOK_GE}"

definition bucc_token_is_additive :: "bucc_token_kind_t \<Rightarrow> bool" where
  "bucc_token_is_additive kind \<longleftrightarrow> kind = TOK_PLUS \<or> kind = TOK_MINUS"

definition bucc_token_is_multiplicative :: "bucc_token_kind_t \<Rightarrow> bool" where
  "bucc_token_is_multiplicative kind \<longleftrightarrow> kind = TOK_STAR \<or> kind = TOK_SLASH \<or> kind = TOK_KW_MOD"

datatype tok_value = TvZero | TvI64 i64 | TvF64 f64

record bucc_token_t =
  tk_kind :: bucc_token_kind_t
  tk_span :: bucc_source_span_t
  tk_text :: bytes
  tk_value :: tok_value

record bucc_lexer_t =
  lx_rest :: bytes
  lx_line :: u32
  lx_col :: u32
  lx_file_id :: u32
  lx_diag :: bucc_diag_t
  lx_current :: bucc_token_t
  lx_peek :: bucc_token_t
  lx_has_peek :: bool

section \<open>Keywords\<close>

definition ascii :: "string \<Rightarrow> bytes" where
  "ascii s = map of_char s"

definition keyword_table :: "(bytes \<times> bucc_token_kind_t) list" where
  "keyword_table =
     [(ascii ''PROGRAM'', TOK_KW_PROGRAM), (ascii ''VERSION'', TOK_KW_VERSION), (ascii ''AUTHOR'', TOK_KW_AUTHOR),
      (ascii ''DESCRIPTION'', TOK_KW_DESCRIPTION), (ascii ''CAPABILITY'', TOK_KW_CAPABILITY),
      (ascii ''OPTION'', TOK_KW_OPTION), (ascii ''DATASET'', TOK_KW_DATASET), (ascii ''DIM'', TOK_KW_DIM),
      (ascii ''AS'', TOK_KW_AS), (ascii ''LET'', TOK_KW_LET), (ascii ''CONST'', TOK_KW_CONST), (ascii ''SUB'', TOK_KW_SUB),
      (ascii ''FUNCTION'', TOK_KW_FUNCTION), (ascii ''END'', TOK_KW_END), (ascii ''CALL'', TOK_KW_CALL),
      (ascii ''RETURN'', TOK_KW_RETURN), (ascii ''IF'', TOK_KW_IF), (ascii ''THEN'', TOK_KW_THEN),
      (ascii ''ELSE'', TOK_KW_ELSE), (ascii ''ELSEIF'', TOK_KW_ELSEIF), (ascii ''SELECT'', TOK_KW_SELECT),
      (ascii ''CASE'', TOK_KW_CASE), (ascii ''FOR'', TOK_KW_FOR), (ascii ''TO'', TOK_KW_TO), (ascii ''STEP'', TOK_KW_STEP),
      (ascii ''NEXT'', TOK_KW_NEXT), (ascii ''WHILE'', TOK_KW_WHILE), (ascii ''WEND'', TOK_KW_WEND), (ascii ''DO'', TOK_KW_DO),
      (ascii ''LOOP'', TOK_KW_LOOP), (ascii ''UNTIL'', TOK_KW_UNTIL), (ascii ''EXIT'', TOK_KW_EXIT),
      (ascii ''HALT'', TOK_KW_HALT), (ascii ''CHAIN'', TOK_KW_CHAIN), (ascii ''TRY'', TOK_KW_TRY),
      (ascii ''CATCH'', TOK_KW_CATCH), (ascii ''THROW'', TOK_KW_THROW), (ascii ''ON'', TOK_KW_ON), (ascii ''AND'', TOK_KW_AND),
      (ascii ''OR'', TOK_KW_OR), (ascii ''NOT'', TOK_KW_NOT), (ascii ''MOD'', TOK_KW_MOD), (ascii ''TRUE'', TOK_KW_TRUE),
      (ascii ''FALSE'', TOK_KW_FALSE), (ascii ''NULL'', TOK_KW_NULL), (ascii ''INTEGER'', TOK_KW_INTEGER),
      (ascii ''DOUBLE'', TOK_KW_DOUBLE), (ascii ''BOOLEAN'', TOK_KW_BOOLEAN), (ascii ''STRING'', TOK_KW_STRING),
      (ascii ''DATE'', TOK_KW_DATE), (ascii ''DATETIME'', TOK_KW_DATETIME), (ascii ''ARRAY'', TOK_KW_ARRAY),
      (ascii ''MAP'', TOK_KW_MAP), (ascii ''OF'', TOK_KW_OF), (ascii ''REM'', TOK_KW_REM)]"

text \<open>\<open>toupper\<close> of the C locale; the difference of the first bytes that differ, as \<open>strcasecmp_n\<close> returns it.\<close>

definition byte_upper :: "u8 \<Rightarrow> u8" where
  "byte_upper c = (if 97 \<le> c \<and> c \<le> 122 then c - 32 else c)"

fun strcasecmp_n :: "bytes \<Rightarrow> bytes \<Rightarrow> nat \<Rightarrow> int" where
  "strcasecmp_n (a # as) (b # bs) (Suc n) =
     (if byte_upper a \<noteq> byte_upper b then uint (byte_upper a) - uint (byte_upper b) else strcasecmp_n as bs n)"
| "strcasecmp_n _ _ _ = 0"

definition lookup_keyword :: "bytes \<Rightarrow> bucc_token_kind_t" where
  "lookup_keyword text =
     (case find (\<lambda>(name, kind). length name = length text \<and> strcasecmp_n text name (length text) = 0) keyword_table of
        Some (_, kind) \<Rightarrow> kind
      | None \<Rightarrow> TOK_IDENT)"

section \<open>Reading characters\<close>

definition zero_token :: bucc_token_t where
  "zero_token = \<lparr>tk_kind = TOK_EOF, tk_span = \<lparr>sp_file_id = 0, sp_start_line = 0, sp_start_col = 0, sp_end_line = 0, sp_end_col = 0\<rparr>,
     tk_text = [], tk_value = TvZero\<rparr>"

definition bucc_lexer_init :: "bytes \<Rightarrow> u32 \<Rightarrow> bucc_diag_t \<Rightarrow> bucc_lexer_t" where
  "bucc_lexer_init source file_id diag =
     \<lparr>lx_rest = source, lx_line = 1, lx_col = 1, lx_file_id = file_id, lx_diag = diag,
      lx_current = zero_token, lx_peek = zero_token, lx_has_peek = False\<rparr>"

definition peek_char_n :: "nat \<Rightarrow> bucc_lexer_t \<Rightarrow> u8" where
  "peek_char_n n lx = (if length (lx_rest lx) \<le> n then 0 else lx_rest lx ! n)"

definition peek_char :: "bucc_lexer_t \<Rightarrow> u8" where
  "peek_char lx = (if lx_rest lx = [] then 0 else hd (lx_rest lx))"

definition lex_advance :: "bucc_lexer_t \<Rightarrow> bucc_lexer_t" where
  "lex_advance lx =
     (case lx_rest lx of
        [] \<Rightarrow> lx
      | c # cs \<Rightarrow>
          if c = 10 then lx\<lparr>lx_rest := cs, lx_line := lx_line lx + 1, lx_col := 1\<rparr>
          else lx\<lparr>lx_rest := cs, lx_col := lx_col lx + 1\<rparr>)"

lemma lex_advance_rest [simp]: "lx_rest (lex_advance lx) = tl (lx_rest lx)"
  by (simp add: lex_advance_def split: list.split)

text \<open>The loops that read while the next character is of some kind; NUL never is.\<close>

function advance_while :: "(u8 \<Rightarrow> bool) \<Rightarrow> bucc_lexer_t \<Rightarrow> bucc_lexer_t" where
  "advance_while P lx = (if lx_rest lx \<noteq> [] \<and> P (peek_char lx) then advance_while P (lex_advance lx) else lx)"
  by pat_completeness auto

termination by (relation "measure (\<lambda>(P, lx). length (lx_rest lx))") auto

declare advance_while.simps [simp del]

definition skip_whitespace :: "bucc_lexer_t \<Rightarrow> bucc_lexer_t" where
  "skip_whitespace lx = advance_while (\<lambda>c. c \<in> {32, 9, 13, 58}) lx"

definition lexeme :: "bucc_lexer_t \<Rightarrow> bucc_lexer_t \<Rightarrow> bytes" where
  "lexeme lx0 lx = take (length (lx_rest lx0) - length (lx_rest lx)) (lx_rest lx0)"

definition span_from :: "bucc_lexer_t \<Rightarrow> bucc_lexer_t \<Rightarrow> bucc_source_span_t" where
  "span_from lx0 lx =
     \<lparr>sp_file_id = lx_file_id lx, sp_start_line = lx_line lx0, sp_start_col = lx_col lx0,
      sp_end_line = lx_line lx, sp_end_col = lx_col lx\<rparr>"

text \<open>A token from the lexer \<open>lx0\<close> up to \<open>lx\<close>; an error reported between them.\<close>

definition make_token :: "bucc_token_kind_t \<Rightarrow> bucc_lexer_t \<Rightarrow> bucc_lexer_t \<Rightarrow> bucc_token_t" where
  "make_token kind lx0 lx = \<lparr>tk_kind = kind, tk_span = span_from lx0 lx, tk_text = lexeme lx0 lx, tk_value = TvZero\<rparr>"

definition make_error :: "string \<Rightarrow> bucc_lexer_t \<Rightarrow> bucc_lexer_t \<Rightarrow> bucc_token_t \<times> bucc_lexer_t" where
  "make_error msg lx0 lx =
     (zero_token\<lparr>tk_kind := TOK_ERROR, tk_span := span_from lx0 lx\<rparr>,
      lx\<lparr>lx_diag := bucc_diag_error (span_from lx0 lx) msg (lx_diag lx)\<rparr>)"

definition is_ident_start :: "u8 \<Rightarrow> bool" where
  "is_ident_start c \<longleftrightarrow> 97 \<le> c \<and> c \<le> 122 \<or> 65 \<le> c \<and> c \<le> 90 \<or> c = 95"

definition is_digit :: "u8 \<Rightarrow> bool" where
  "is_digit c \<longleftrightarrow> 48 \<le> c \<and> c \<le> 57"

definition is_ident_char :: "u8 \<Rightarrow> bool" where
  "is_ident_char c \<longleftrightarrow> is_ident_start c \<or> is_digit c \<or> c = 36"

definition is_hex_digit :: "u8 \<Rightarrow> bool" where
  "is_hex_digit c \<longleftrightarrow> is_digit c \<or> 97 \<le> c \<and> c \<le> 102 \<or> 65 \<le> c \<and> c \<le> 70"

section \<open>Scanning tokens\<close>

definition scan_identifier :: "bucc_lexer_t \<Rightarrow> bucc_token_t \<times> bucc_lexer_t" where
  "scan_identifier lx =
     (let lx1 = advance_while is_ident_char lx
      in (make_token (lookup_keyword (lexeme lx lx1)) lx lx1, lx1))"

text \<open>\<open>strtoll\<close> in base 10 and 16 of a text that starts with a digit, for base 10 after an optional minus sign.\<close>

definition saturate_i64 :: "int \<Rightarrow> i64" where
  "saturate_i64 n = word_of_int (max (- (2 ^ 63)) (min (2 ^ 63 - 1) n))"

definition digits_value :: "int \<Rightarrow> (u8 \<Rightarrow> int) \<Rightarrow> bytes \<Rightarrow> int" where
  "digits_value base val ds = foldl (\<lambda>n c. n * base + val c) 0 ds"

definition strtoll_dec :: "bytes \<Rightarrow> i64" where
  "strtoll_dec s =
     (if s \<noteq> [] \<and> hd s = 45 then saturate_i64 (- digits_value 10 (\<lambda>c. uint c - 48) (takeWhile is_digit (tl s)))
      else saturate_i64 (digits_value 10 (\<lambda>c. uint c - 48) (takeWhile is_digit s)))"

definition hex_digit_value :: "u8 \<Rightarrow> int" where
  "hex_digit_value c = (if is_digit c then uint c - 48 else if 97 \<le> c then uint c - 87 else uint c - 55)"

definition strtoll_hex :: "bytes \<Rightarrow> i64" where
  "strtoll_hex s =
     (let s = (case s of
                 z # x # d # s' \<Rightarrow> if z = 48 \<and> (x = 120 \<or> x = 88) \<and> is_hex_digit d then d # s' else s
               | _ \<Rightarrow> s)
      in saturate_i64 (digits_value 16 hex_digit_value (takeWhile is_hex_digit s)))"

definition scan_number :: "float_ops \<Rightarrow> bucc_lexer_t \<Rightarrow> bucc_token_t \<times> bucc_lexer_t" where
  "scan_number fo lx =
     (let lx1 = (if peek_char lx = 45 then lex_advance lx else lx);
          lx1 = advance_while is_digit lx1;
          frac = (peek_char lx1 = 46 \<and> is_digit (peek_char_n 1 lx1));
          lx1 = (if frac then advance_while is_digit (lex_advance lx1) else lx1);
          expo = (peek_char lx1 = 101 \<or> peek_char lx1 = 69);
          lx2 = (if expo then lex_advance lx1 else lx1);
          lx2 = (if expo \<and> (peek_char lx2 = 43 \<or> peek_char lx2 = 45) then lex_advance lx2 else lx2)
      in if expo \<and> \<not> is_digit (peek_char lx2) then make_error ''invalid number: expected exponent digits'' lx lx2
         else
           (let lx3 = (if expo then advance_while is_digit lx2 else lx2)
            in if frac \<or> expo then
                 ((make_token TOK_DOUBLE lx lx3)\<lparr>tk_value :=
                    TvF64 (case f_strtod fo (lx_rest lx) of Some d \<Rightarrow> d | None \<Rightarrow> f_zero fo)\<rparr>, lx3)
               else ((make_token TOK_INTEGER lx lx3)\<lparr>tk_value := TvI64 (strtoll_dec (lx_rest lx))\<rparr>, lx3)))"

definition scan_hex :: "bucc_lexer_t \<Rightarrow> bucc_token_t \<times> bucc_lexer_t" where
  "scan_hex lx =
     (let lx1 = lex_advance (lex_advance lx)
      in if \<not> is_hex_digit (peek_char lx1) then make_error ''invalid hex literal: expected hex digits'' lx lx1
         else
           (let lx2 = advance_while is_hex_digit lx1
            in ((make_token TOK_HEX lx lx2)\<lparr>tk_value := TvI64 (strtoll_hex (drop 2 (lx_rest lx)))\<rparr>, lx2)))"

text \<open>The loop over the characters of a string literal, in which a backslash takes the character behind it along.\<close>

function string_body :: "bucc_lexer_t \<Rightarrow> bucc_lexer_t" where
  "string_body lx =
     (if peek_char lx \<noteq> 34 \<and> peek_char lx \<noteq> 0 \<and> peek_char lx \<noteq> 10 then
        string_body (lex_advance (if peek_char lx = 92 \<and> peek_char_n 1 lx \<noteq> 0 then lex_advance lx else lx))
      else lx)"
  by pat_completeness auto

termination
  by (relation "measure (\<lambda>lx. length (lx_rest lx))") (auto simp: peek_char_def split: if_splits)

declare string_body.simps [simp del]

definition scan_string :: "bucc_lexer_t \<Rightarrow> bucc_token_t \<times> bucc_lexer_t" where
  "scan_string lx =
     (let lx1 = string_body (lex_advance lx)
      in if peek_char lx1 \<noteq> 34 then make_error ''unterminated string literal'' lx lx1
         else (make_token TOK_STRING lx (lex_advance lx1), lex_advance lx1))"

text \<open>One expected character after the other, each with the error to report if it is missing.\<close>

primrec scan_chars :: "((u8 \<Rightarrow> bool) \<times> string) list \<Rightarrow> bucc_lexer_t \<Rightarrow> string option \<times> bucc_lexer_t" where
  "scan_chars [] lx = (None, lx)"
| "scan_chars (e # es) lx = (if fst e (peek_char lx) then scan_chars es (lex_advance lx) else (Some (snd e), lx))"

definition date_chars :: "((u8 \<Rightarrow> bool) \<times> string) list" where
  "date_chars =
     replicate 4 (is_digit, ''invalid date literal: expected year'') @
     [(\<lambda>c. c = 45, quoted ''invalid date literal: expected ~-~'')] @
     replicate 2 (is_digit, ''invalid date literal: expected month'') @
     [(\<lambda>c. c = 45, quoted ''invalid date literal: expected ~-~'')] @
     replicate 2 (is_digit, ''invalid date literal: expected day'')"


definition time_chars :: "((u8 \<Rightarrow> bool) \<times> string) list" where
  "time_chars =
     replicate 2 (is_digit, ''invalid datetime literal: expected hour'') @
     [(\<lambda>c. c = 58, quoted ''invalid datetime literal: expected ~:~'')] @
     replicate 2 (is_digit, ''invalid datetime literal: expected minute'') @
     [(\<lambda>c. c = 58, quoted ''invalid datetime literal: expected ~:~'')] @
     replicate 2 (is_digit, ''invalid datetime literal: expected second'')"

definition closing_char :: "((u8 \<Rightarrow> bool) \<times> string) list" where
  "closing_char = [(\<lambda>c. c = 35, quoted ''invalid date literal: expected closing ~#~'')]"

definition scan_date_or_datetime :: "bucc_lexer_t \<Rightarrow> bucc_token_t \<times> bucc_lexer_t" where
  "scan_date_or_datetime lx =
     (case scan_chars date_chars (lex_advance lx) of
        (Some msg, lx1) \<Rightarrow> make_error msg lx lx1
      | (None, lx1) \<Rightarrow>
          (let datetime = (peek_char lx1 = 84 \<or> peek_char lx1 = 116)
           in case (if datetime then scan_chars (time_chars @ closing_char) (lex_advance lx1) else scan_chars closing_char lx1) of
                (Some msg, lx2) \<Rightarrow> make_error msg lx lx2
              | (None, lx2) \<Rightarrow> (make_token (if datetime then TOK_DATETIME else TOK_DATE) lx lx2, lx2)))"

definition scan_comment :: "bucc_lexer_t \<Rightarrow> bucc_token_t \<times> bucc_lexer_t" where
  "scan_comment lx =
     (let lx1 = advance_while (\<lambda>c. c \<noteq> 10 \<and> c \<noteq> 0) (lex_advance lx)
      in (make_token TOK_COMMENT lx lx1, lx1))"

definition scan_rem_comment :: "bucc_lexer_t \<Rightarrow> bucc_token_t \<times> bucc_lexer_t" where
  "scan_rem_comment lx =
     (let lx1 = advance_while (\<lambda>c. c \<noteq> 10 \<and> c \<noteq> 0) (lex_advance (lex_advance (lex_advance lx)))
      in (make_token TOK_COMMENT lx lx1, lx1))"

text \<open>\<open>REM\<close> in any case, with nothing of an identifier behind it.\<close>

definition at_rem :: "bucc_lexer_t \<Rightarrow> bool" where
  "at_rem lx \<longleftrightarrow>
     (peek_char lx = 82 \<or> peek_char lx = 114) \<and> (peek_char_n 1 lx = 69 \<or> peek_char_n 1 lx = 101) \<and>
     (peek_char_n 2 lx = 77 \<or> peek_char_n 2 lx = 109) \<and> \<not> is_ident_char (peek_char_n 3 lx) \<and>
     (peek_char_n 3 lx = 32 \<or> peek_char_n 3 lx = 9 \<or> peek_char_n 3 lx = 10 \<or> peek_char_n 3 lx = 0)"

text \<open>The kind and the length of a token of one or two other characters.\<close>

definition punctuation :: "u8 \<Rightarrow> u8 \<Rightarrow> (bucc_token_kind_t \<times> nat) option" where
  "punctuation c c1 =
     (if c = 40 then Some (TOK_LPAREN, 1)
      else if c = 41 then Some (TOK_RPAREN, 1)
      else if c = 91 then Some (TOK_LBRACKET, 1)
      else if c = 93 then Some (TOK_RBRACKET, 1)
      else if c = 123 then Some (TOK_LBRACE, 1)
      else if c = 125 then Some (TOK_RBRACE, 1)
      else if c = 44 then Some (TOK_COMMA, 1)
      else if c = 46 then Some (TOK_DOT, 1)
      else if c = 43 then Some (TOK_PLUS, 1)
      else if c = 45 then Some (TOK_MINUS, 1)
      else if c = 42 then Some (TOK_STAR, 1)
      else if c = 47 then Some (TOK_SLASH, 1)
      else if c = 61 then Some (TOK_EQ, 1)
      else if c = 60 then (if c1 = 62 then Some (TOK_NE, 2) else if c1 = 61 then Some (TOK_LE, 2) else Some (TOK_LT, 1))
      else if c = 62 then (if c1 = 61 then Some (TOK_GE, 2) else Some (TOK_GT, 1))
      else None)"

text \<open>The token at a position that is not blank.\<close>

definition scan_token :: "float_ops \<Rightarrow> bucc_lexer_t \<Rightarrow> bucc_token_t \<times> bucc_lexer_t" where
  "scan_token fo lx =
     (let c = peek_char lx; c1 = peek_char_n 1 lx in
      if lx_rest lx = [] then (make_token TOK_EOF lx lx, lx)
      else if c = 10 then (make_token TOK_NEWLINE lx (lex_advance lx), lex_advance lx)
      else if c = 39 then scan_comment lx
      else if is_ident_start c then (if at_rem lx then scan_rem_comment lx else scan_identifier lx)
      else if is_digit c then scan_number fo lx
      else if c = 38 \<and> (c1 = 72 \<or> c1 = 104) then scan_hex lx
      else if c = 34 then scan_string lx
      else if c = 35 then
        (if is_digit c1 then scan_date_or_datetime lx else (make_token TOK_HASH lx (lex_advance lx), lex_advance lx))
      else if c = 45 \<and> is_digit c1 then scan_number fo lx
      else case punctuation c c1 of
             Some (kind, len) \<Rightarrow> (let lx1 = (lex_advance ^^ len) lx in (make_token kind lx lx1, lx1))
           | None \<Rightarrow> make_error ''unexpected character'' lx (lex_advance lx))"

definition bucc_lexer_next :: "float_ops \<Rightarrow> bucc_lexer_t \<Rightarrow> bucc_lexer_t" where
  "bucc_lexer_next fo lx =
     (if lx_has_peek lx then lx\<lparr>lx_has_peek := False, lx_current := lx_peek lx\<rparr>
      else case scan_token fo (skip_whitespace lx) of (tok, lx1) \<Rightarrow> lx1\<lparr>lx_current := tok\<rparr>)"

definition bucc_lexer_peek :: "float_ops \<Rightarrow> bucc_lexer_t \<Rightarrow> bucc_lexer_t" where
  "bucc_lexer_peek fo lx =
     (if lx_has_peek lx then lx
      else
        (let lx1 = bucc_lexer_next fo lx
         in lx1\<lparr>lx_peek := lx_current lx1, lx_current := lx_current lx, lx_has_peek := True\<rparr>))"

definition bucc_lexer_at_end :: "bucc_lexer_t \<Rightarrow> bool" where
  "bucc_lexer_at_end lx \<longleftrightarrow> tk_kind (lx_current lx) = TOK_EOF"

definition bucc_lexer_check :: "bucc_lexer_t \<Rightarrow> bucc_token_kind_t \<Rightarrow> bool" where
  "bucc_lexer_check lx kind \<longleftrightarrow> tk_kind (lx_current lx) = kind"

definition bucc_lexer_match :: "float_ops \<Rightarrow> bucc_token_kind_t \<Rightarrow> bucc_lexer_t \<Rightarrow> bool \<times> bucc_lexer_t" where
  "bucc_lexer_match fo kind lx =
     (if tk_kind (lx_current lx) = kind then (True, bucc_lexer_next fo lx) else (False, lx))"

section \<open>Progress\<close>

lemma advance_while_rest: "lx_rest (advance_while P lx) = dropWhile P (lx_rest lx)"
proof (induction P lx rule: advance_while.induct)
  case (1 P lx)
  show ?case
  proof (cases "lx_rest lx")
    case Nil
    then show ?thesis by (subst advance_while.simps) simp
  next
    case (Cons c cs)
    then show ?thesis using 1 by (subst advance_while.simps) (simp add: peek_char_def)
  qed
qed

lemma string_body_rest: "length (lx_rest (string_body lx)) \<le> length (lx_rest lx)"
proof (induction lx rule: string_body.induct)
  case (1 lx)
  show ?case
  proof (cases "peek_char lx \<noteq> 34 \<and> peek_char lx \<noteq> 0 \<and> peek_char lx \<noteq> 10")
    case True
    then show ?thesis using 1 by (subst string_body.simps) (auto split: if_splits intro: order_trans)
  next
    case False
    then show ?thesis by (subst string_body.simps) auto
  qed
qed


text \<open>How much of the source is ahead. Scanning takes at least one character, unless there is none.\<close>

abbreviation remaining :: "bucc_lexer_t \<Rightarrow> nat" where
  "remaining lx \<equiv> length (lx_rest lx)"

lemma advance_while_remaining: "remaining (advance_while P lx) \<le> remaining lx"
  by (simp add: advance_while_rest length_dropWhile_le)

lemma advance_while_first: "lx_rest lx \<noteq> [] \<Longrightarrow> P (hd (lx_rest lx)) \<Longrightarrow> remaining (advance_while P lx) < remaining lx"
  by (cases "lx_rest lx") (simp_all add: advance_while_rest length_dropWhile_le le_imp_less_Suc)

lemma advance_remaining: "remaining (lex_advance lx) \<le> remaining lx"
  "lx_rest lx \<noteq> [] \<Longrightarrow> remaining (lex_advance lx) < remaining lx"
  by simp_all

lemma scan_chars_remaining: "remaining (snd (scan_chars es lx)) \<le> remaining lx"
  by (induction es arbitrary: lx) (auto intro: order_trans [OF _ advance_remaining(1)])

lemma make_error_rest [simp]: "lx_rest (snd (make_error msg lx0 lx)) = lx_rest lx"
  by (simp add: make_error_def)

lemma scan_number_remaining:
  assumes "lx_rest lx \<noteq> []" "is_digit (peek_char lx) \<or> peek_char lx = 45"
  shows "remaining (snd (scan_number fo lx)) < remaining lx"
proof -
  define lx1 where "lx1 = advance_while is_digit (if peek_char lx = 45 then lex_advance lx else lx)"
  define lx2 where "lx2 = (if peek_char lx1 = 46 \<and> is_digit (peek_char_n 1 lx1) then advance_while is_digit (lex_advance lx1) else lx1)"
  define lx3 where "lx3 = (if peek_char lx2 = 101 \<or> peek_char lx2 = 69 then lex_advance lx2 else lx2)"
  define lx4 where "lx4 = (if (peek_char lx2 = 101 \<or> peek_char lx2 = 69) \<and> (peek_char lx3 = 43 \<or> peek_char lx3 = 45) then lex_advance lx3 else lx3)"
  have "remaining lx1 < remaining lx"
    using assms advance_while_first [of lx is_digit] le_less_trans [OF advance_while_remaining advance_remaining(2)]
    by (auto simp: lx1_def peek_char_def)
  moreover have "remaining lx2 \<le> remaining lx1"
    using order_trans [OF advance_while_remaining advance_remaining(1)] by (simp add: lx2_def)
  moreover have "remaining lx3 \<le> remaining lx2" by (simp add: lx3_def)
  moreover have "remaining lx4 \<le> remaining lx3" by (simp add: lx4_def)
  ultimately have *: "remaining lx4 < remaining lx" by simp
  then have "remaining (advance_while is_digit lx4) < remaining lx" using le_less_trans [OF advance_while_remaining] by blast
  with * show ?thesis
    unfolding scan_number_def Let_def lx1_def [symmetric] lx2_def [symmetric] lx3_def [symmetric] lx4_def [symmetric] by simp
qed

lemma punctuation_length: "punctuation c c1 = Some (kind, n) \<Longrightarrow> 0 < n"
  by (auto simp: punctuation_def split: if_splits)

lemma advances_rest: "lx_rest ((lex_advance ^^ n) lx) = drop n (lx_rest lx)"
  by (induction n) (simp_all add: drop_Suc tl_drop)

lemma scan_date_remaining:
  assumes "lx_rest lx \<noteq> []"
  shows "remaining (snd (scan_date_or_datetime lx)) < remaining lx"
proof -
  obtain r lx1 where 1: "scan_chars date_chars (lex_advance lx) = (r, lx1)" by force
  have l1: "remaining lx1 < remaining lx"
    using le_less_trans [OF scan_chars_remaining [of date_chars] advance_remaining(2) [OF assms]] 1 by simp
  have l2: "remaining (snd (scan_chars es lx1)) < remaining lx" for es
    using le_less_trans [OF scan_chars_remaining l1] .
  have l3: "remaining (snd (scan_chars es (lex_advance lx1))) < remaining lx" for es
    using le_less_trans [OF order_trans [OF scan_chars_remaining advance_remaining(1)] l1] .
  show ?thesis
    using l1 l2 [of closing_char] l3 [of "time_chars @ closing_char"]
    by (auto simp: scan_date_or_datetime_def 1 Let_def split: option.split prod.split)
qed

lemma scan_token_remaining:
  assumes "lx_rest lx \<noteq> []"
  shows "remaining (snd (scan_token fo lx)) < remaining lx"
proof -
  have hd: "peek_char lx = hd (lx_rest lx)" using assms by (simp add: peek_char_def)
  have a: "remaining (advance_while P (lex_advance lx)) < remaining lx" for P
    using le_less_trans [OF advance_while_remaining advance_remaining(2) [OF assms]] .
  have b: "remaining (advance_while P (lex_advance (lex_advance lx))) < remaining lx" for P
    using le_less_trans [OF order_trans [OF advance_while_remaining advance_remaining(1)] advance_remaining(2) [OF assms]] .
  have c: "remaining (advance_while P (lex_advance (lex_advance (lex_advance lx)))) < remaining lx" for P
    using le_less_trans [OF order_trans [OF advance_while_remaining order_trans [OF advance_remaining(1) advance_remaining(1)]]
      advance_remaining(2) [OF assms]] .
  have str: "remaining (snd (scan_string lx)) < remaining lx"
    using le_less_trans [OF string_body_rest advance_remaining(2) [OF assms]]
      le_less_trans [OF order_trans [OF advance_remaining(1) string_body_rest] advance_remaining(2) [OF assms]]
    by (simp add: scan_string_def Let_def del: lex_advance_rest)
  have hex: "remaining (snd (scan_hex lx)) < remaining lx"
    using b [of is_hex_digit] assms by (simp add: scan_hex_def Let_def)
  have ident: "is_ident_start (peek_char lx) \<Longrightarrow> remaining (snd (scan_identifier lx)) < remaining lx"
    using advance_while_first [OF assms, of is_ident_char] by (simp add: scan_identifier_def Let_def hd is_ident_char_def)
  have punct: "remaining (snd (case punctuation (peek_char lx) c1 of
          Some (kind, len) \<Rightarrow> (let lx1 = (lex_advance ^^ len) lx in (make_token kind lx lx1, lx1))
        | None \<Rightarrow> make_error msg lx (lex_advance lx))) < remaining lx" for c1 msg
    using assms punctuation_length [of "peek_char lx" c1] by (auto simp: Let_def advances_rest split: option.split prod.split)
  show ?thesis
    using assms str hex ident scan_number_remaining [OF assms] scan_date_remaining [OF assms] punct a c
    by (simp add: scan_token_def Let_def scan_comment_def scan_rem_comment_def)
qed

text \<open>
  Scanning only moves forward. What a scanning function returns is a token that ends where the lexer stands,
  or an error reported there.
\<close>

definition onward :: "bucc_lexer_t \<Rightarrow> bucc_lexer_t \<Rightarrow> bool" where
  "onward lx lx' \<longleftrightarrow> (\<exists>n. lx' = (lex_advance ^^ n) lx)"

lemma onward_refl [simp, intro]: "onward lx lx"
  unfolding onward_def by (rule exI [of _ 0]) simp

lemma onward_advance: "onward lx lx' \<Longrightarrow> onward lx (lex_advance lx')"
  by (metis comp_apply funpow.simps(2) onward_def)

lemma onward_trans: "onward lx lx1 \<Longrightarrow> onward lx1 lx2 \<Longrightarrow> onward lx lx2"
  unfolding onward_def by (metis comp_apply funpow_add)

lemma onward_while: "onward lx lx1 \<Longrightarrow> onward lx (advance_while P lx1)"
proof (induction P lx1 rule: advance_while.induct)
  case (1 P lx1)
  then show ?case by (subst advance_while.simps) (simp add: onward_advance)
qed

lemma onward_string_body: "onward lx lx1 \<Longrightarrow> onward lx (string_body lx1)"
proof (induction lx1 rule: string_body.induct)
  case (1 lx1)
  then show ?case by (subst string_body.simps) (simp add: onward_advance)
qed

lemma onward_scan_chars: "onward lx lx1 \<Longrightarrow> onward lx (snd (scan_chars es lx1))"
  by (induction es arbitrary: lx1) (simp_all add: onward_advance)

lemma onward_advances: "onward lx ((lex_advance ^^ n) lx)"
  by (auto simp: onward_def)

lemma onward_if: "onward lx lx1 \<Longrightarrow> onward lx lx2 \<Longrightarrow> onward lx (if b then lx1 else lx2)"
  by simp

lemmas onward_intros = onward_refl onward_advance onward_while onward_string_body onward_scan_chars onward_advances onward_if

lemma advance_fields [simp]:
  "lx_has_peek (lex_advance lx) = lx_has_peek lx" "lx_peek (lex_advance lx) = lx_peek lx"
  "lx_diag (lex_advance lx) = lx_diag lx" "lx_file_id (lex_advance lx) = lx_file_id lx"
  by (simp_all add: lex_advance_def split: list.split)

lemma onward_fields:
  assumes "onward lx lx'"
  shows "lx_has_peek lx' = lx_has_peek lx" "lx_peek lx' = lx_peek lx" "lx_diag lx' = lx_diag lx"
    "lx_rest lx = lexeme lx lx' @ lx_rest lx'"
proof -
  obtain n where n: "lx' = (lex_advance ^^ n) lx" using assms by (auto simp: onward_def)
  show "lx_has_peek lx' = lx_has_peek lx" unfolding n by (induction n) simp_all
  show "lx_peek lx' = lx_peek lx" unfolding n by (induction n) simp_all
  show "lx_diag lx' = lx_diag lx" unfolding n by (induction n) simp_all
  show "lx_rest lx = lexeme lx lx' @ lx_rest lx'" unfolding n lexeme_def advances_rest by (cases "n \<le> remaining lx") simp_all
qed

definition real_kind :: "bucc_token_kind_t \<Rightarrow> bool" where
  "real_kind k \<longleftrightarrow> k \<notin> {TOK_EOF, TOK_COLON, TOK_ERROR}"

definition scanned :: "bucc_lexer_t \<Rightarrow> bucc_token_t \<times> bucc_lexer_t \<Rightarrow> bool" where
  "scanned lx r \<longleftrightarrow> (\<exists>lx'. onward lx lx' \<and>
     (snd r = lx' \<and> real_kind (tk_kind (fst r)) \<and> tk_text (fst r) = lexeme lx lx' \<or> (\<exists>msg. r = make_error msg lx lx')))"

lemma scanned_token: "onward lx lx' \<Longrightarrow> real_kind kind \<Longrightarrow> scanned lx (make_token kind lx lx', lx')"
  "onward lx lx' \<Longrightarrow> real_kind kind \<Longrightarrow> scanned lx ((make_token kind lx lx')\<lparr>tk_value := v\<rparr>, lx')"
  by (auto simp: scanned_def make_token_def)

lemma scanned_error: "onward lx lx' \<Longrightarrow> scanned lx (make_error msg lx lx')"
  by (auto simp: scanned_def)

lemma scanned_if: "scanned lx r1 \<Longrightarrow> scanned lx r2 \<Longrightarrow> scanned lx (if b then r1 else r2)"
  by simp

lemma find_in: "find P xs = Some x \<Longrightarrow> x \<in> set xs"
  by (induction xs) (auto split: if_splits)

lemma keyword_kind: "real_kind (lookup_keyword t)"
proof -
  have "\<forall>kw \<in> set keyword_table. real_kind (snd kw)" by (simp add: keyword_table_def real_kind_def)
  moreover have "real_kind TOK_IDENT" by (simp add: real_kind_def)
  ultimately show ?thesis
    unfolding lookup_keyword_def by (auto dest!: find_in split: option.split prod.split)
qed

lemma scanned_number: "scanned lx (scan_number fo lx)"
  unfolding scan_number_def Let_def by (intro scanned_if scanned_error scanned_token onward_intros) (simp_all add: real_kind_def)

lemma scanned_others:
  "scanned lx (scan_comment lx)" "scanned lx (scan_rem_comment lx)" "scanned lx (scan_hex lx)" "scanned lx (scan_string lx)"
  "scanned lx (scan_identifier lx)"
  unfolding Let_def scan_comment_def scan_rem_comment_def scan_hex_def scan_string_def scan_identifier_def
  by (intro scanned_if scanned_error scanned_token onward_intros keyword_kind; simp add: real_kind_def)+

lemma scanned_date: "scanned lx (scan_date_or_datetime lx)"
proof -
  obtain r lx1 where 1: "scan_chars date_chars (lex_advance lx) = (r, lx1)" by force
  have l1: "onward lx lx1" using onward_scan_chars [OF onward_advance [OF onward_refl], of lx date_chars] 1 by simp
  have l2: "onward lx lx2" if "scan_chars es lx' = (r', lx2)" "onward lx lx'" for es lx' r' lx2
    using onward_scan_chars [OF that(2), of es] that(1) by simp
  show ?thesis
    using l1 by (auto simp: scan_date_or_datetime_def 1 Let_def real_kind_def split: option.split prod.split
      intro!: scanned_error scanned_token onward_advance dest!: l2)
qed

lemma punctuation_kind: "punctuation c c1 = Some (kind, n) \<Longrightarrow> real_kind kind"
  by (auto simp: punctuation_def real_kind_def split: if_splits)

lemma scanned_scan_token:
  assumes "lx_rest lx \<noteq> []"
  shows "scanned lx (scan_token fo lx)"
proof -
  have *: "scanned lx (case punctuation c c1 of
          Some (kind, len) \<Rightarrow> (let lx1 = (lex_advance ^^ len) lx in (make_token kind lx lx1, lx1))
        | None \<Rightarrow> make_error msg lx (lex_advance lx))" for c c1 msg
    using punctuation_kind [of c c1] onward_advances [of lx]
    by (auto simp: Let_def split: option.split prod.split intro!: scanned_error scanned_token onward_advance)
  show ?thesis
    unfolding scan_token_def Let_def [of "peek_char lx"] Let_def [of "peek_char_n 1 lx"] if_not_P [OF assms]
    by (intro scanned_if scanned_others scanned_number scanned_date scanned_token onward_intros *) (simp_all add: real_kind_def)
qed

lemma scan_token_fields:
  "lx_has_peek (snd (scan_token fo lx)) = lx_has_peek lx" "lx_peek (snd (scan_token fo lx)) = lx_peek lx"
proof -
  have "lx_has_peek (snd (scan_token fo lx)) = lx_has_peek lx \<and> lx_peek (snd (scan_token fo lx)) = lx_peek lx"
  proof (cases "lx_rest lx = []")
    case False
    then show ?thesis
      using scanned_scan_token [of lx fo] unfolding scanned_def make_error_def by (auto dest: onward_fields)
  qed (simp add: scan_token_def)
  then show "lx_has_peek (snd (scan_token fo lx)) = lx_has_peek lx" "lx_peek (snd (scan_token fo lx)) = lx_peek lx" by simp_all
qed

text \<open>The weight of a lexer: it falls with every token that is not the end of the source.\<close>

definition lexer_weight :: "bucc_lexer_t \<Rightarrow> nat" where
  "lexer_weight lx = 2 * remaining lx + (if lx_has_peek lx then 2 else 0) + (if tk_kind (lx_current lx) = TOK_EOF then 0 else 1)"

lemma scan_token_end: "lx_rest lx = [] \<Longrightarrow> scan_token fo lx = (make_token TOK_EOF lx lx, lx)"
  by (simp add: scan_token_def)

lemma lexer_next_weight:
  assumes "tk_kind (lx_current lx) \<noteq> TOK_EOF"
  shows "lexer_weight (bucc_lexer_next fo lx) < lexer_weight lx"
proof (cases "lx_has_peek lx")
  case True
  then show ?thesis using assms by (simp add: bucc_lexer_next_def lexer_weight_def)
next
  case False
  let ?w = "skip_whitespace lx"
  obtain tok lx1 where 1: "scan_token fo ?w = (tok, lx1)" by force
  have w: "remaining ?w \<le> remaining lx" by (simp add: skip_whitespace_def advance_while_remaining)
  have "lx_has_peek ?w = lx_has_peek lx" unfolding skip_whitespace_def by (rule onward_fields [OF onward_while [OF onward_refl]])
  then have peek: "\<not> lx_has_peek lx1" using False scan_token_fields(1) [of fo ?w] unfolding 1 by simp
  show ?thesis
  proof (cases "lx_rest ?w = []")
    case True
    then have "tk_kind tok = TOK_EOF" "lx1 = ?w" using 1 scan_token_end [OF True] by (auto simp: make_token_def)
    then show ?thesis using assms False peek 1 True by (simp add: bucc_lexer_next_def lexer_weight_def)
  next
    case nonempty: False
    then have "remaining lx1 < remaining ?w" using scan_token_remaining [OF nonempty, of fo] 1 by simp
    then show ?thesis using assms False peek w 1 by (simp add: bucc_lexer_next_def lexer_weight_def)
  qed
qed

section \<open>Loops over tokens\<close>

function bucc_lexer_skip_newlines :: "float_ops \<Rightarrow> bucc_lexer_t \<Rightarrow> bucc_lexer_t" where
  "bucc_lexer_skip_newlines fo lx =
     (if tk_kind (lx_current lx) = TOK_NEWLINE \<or> tk_kind (lx_current lx) = TOK_COMMENT then
        bucc_lexer_skip_newlines fo (bucc_lexer_next fo lx)
      else lx)"
  by pat_completeness auto

termination
  by (relation "measure (\<lambda>(fo, lx). lexer_weight lx)") (auto simp: lexer_next_weight)

definition bucc_lexer_expect_newline :: "float_ops \<Rightarrow> bucc_lexer_t \<Rightarrow> bool \<times> bucc_lexer_t" where
  "bucc_lexer_expect_newline fo lx =
     (let kind = tk_kind (lx_current lx) in
      if kind = TOK_NEWLINE then (True, bucc_lexer_next fo lx)
      else if kind = TOK_EOF then (True, lx)
      else if kind = TOK_COMMENT then
        (let lx1 = bucc_lexer_next fo lx
         in (True, if tk_kind (lx_current lx1) = TOK_NEWLINE then bucc_lexer_next fo lx1 else lx1))
      else (False, lx\<lparr>lx_diag := bucc_diag_error (tk_span (lx_current lx))
          (''expected newline, got '' @ bucc_token_kind_name kind) (lx_diag lx)\<rparr>))"


section \<open>The lexer on any source\<close>

text \<open>A call of the lexer skips blanks, and what it takes then is the text of the token, unless it reports an error.\<close>

definition blank :: "u8 \<Rightarrow> bool" where
  "blank c \<longleftrightarrow> c \<in> {32, 9, 13, 58}"

lemma lexer_next_splits:
  fixes fo
  assumes "\<not> lx_has_peek lx"
  defines "lx' \<equiv> bucc_lexer_next fo lx"
  shows "\<exists>ws taken. lx_rest lx = ws @ taken @ lx_rest lx' \<and> list_all blank ws \<and> (tk_kind (lx_current lx') = TOK_EOF \<longleftrightarrow> taken = []) \<and>
    (tk_kind (lx_current lx') \<noteq> TOK_ERROR \<longrightarrow> tk_text (lx_current lx') = taken \<and> lx_diag lx' = lx_diag lx) \<and>
    (tk_kind (lx_current lx') = TOK_EOF \<longrightarrow> lx_rest lx' = []) \<and> tk_kind (lx_current lx') \<noteq> TOK_COLON"
proof -
  let ?w = "skip_whitespace lx"
  obtain tok lx1 where 1: "scan_token fo ?w = (tok, lx1)" by force
  have "lx_rest lx = takeWhile blank (lx_rest lx) @ lx_rest ?w"
    by (simp add: skip_whitespace_def advance_while_rest blank_def [abs_def])
  moreover have "list_all blank (takeWhile blank (lx_rest lx))" by (auto simp: list_all_iff dest: set_takeWhileD)
  ultimately obtain ws where w: "lx_rest lx = ws @ lx_rest ?w" and b: "list_all blank ws" by blast
  have d: "lx_diag ?w = lx_diag lx" unfolding skip_whitespace_def by (rule onward_fields [OF onward_while [OF onward_refl]])
  have l: "lx' = lx1\<lparr>lx_current := tok\<rparr>" using assms(1) 1 by (simp add: lx'_def bucc_lexer_next_def)
  show ?thesis
  proof (cases "lx_rest ?w = []")
    case True
    then have "tok = make_token TOK_EOF ?w ?w" "lx1 = ?w" using 1 scan_token_end [OF True, of fo] by auto
    then show ?thesis using w b d True unfolding l by (intro exI [of _ ws] exI [of _ "[]"]) (simp add: make_token_def lexeme_def)
  next
    case False
    have less: "remaining lx1 < remaining ?w" using scan_token_remaining [OF False, of fo] 1 by simp
    obtain lx2 where on: "onward ?w lx2" and r: "lx1 = lx2 \<and> real_kind (tk_kind tok) \<and> tk_text tok = lexeme ?w lx2 \<or>
        (\<exists>msg. (tok, lx1) = make_error msg ?w lx2)"
      using scanned_scan_token [OF False, of fo] unfolding scanned_def 1 by auto
    have rest: "lx_rest lx1 = lx_rest lx2" and kind: "tk_kind tok \<noteq> TOK_EOF" "tk_kind tok \<noteq> TOK_COLON" and
      tok: "tk_kind tok \<noteq> TOK_ERROR \<longrightarrow> tk_text tok = lexeme ?w lx2 \<and> lx1 = lx2"
      using r by (auto simp: make_error_def real_kind_def)
    have split: "lx_rest ?w = lexeme ?w lx2 @ lx_rest lx2" and diag: "lx_diag lx2 = lx_diag lx"
      using onward_fields(3,4) [OF on] d by simp_all
    have "lexeme ?w lx2 \<noteq> []" using less split rest by force
    then have "lx_rest lx = ws @ lexeme ?w lx2 @ lx_rest lx1 \<and> list_all blank ws \<and> (tk_kind tok = TOK_EOF \<longleftrightarrow> lexeme ?w lx2 = []) \<and>
        (tk_kind tok \<noteq> TOK_ERROR \<longrightarrow> tk_text tok = lexeme ?w lx2 \<and> lx_diag lx1 = lx_diag lx) \<and>
        (tk_kind tok = TOK_EOF \<longrightarrow> lx_rest lx1 = []) \<and> tk_kind tok \<noteq> TOK_COLON"
      using kind tok diag b w split unfolding rest by metis
    then show ?thesis unfolding l by (intro exI [of _ ws] exI [of _ "lexeme ?w lx2"]) simp
  qed
qed

lemma lexer_next_peek: "\<not> lx_has_peek lx \<Longrightarrow> \<not> lx_has_peek (bucc_lexer_next fo lx)"
  using scan_token_fields(1) [of fo "skip_whitespace lx"] onward_fields(1) [OF onward_while [OF onward_refl, of lx]]
  by (auto simp: bucc_lexer_next_def skip_whitespace_def split: prod.split)

lemma lexer_next_remaining:
  assumes "tk_kind (lx_current (bucc_lexer_next fo lx)) \<noteq> TOK_EOF" "\<not> lx_has_peek lx"
  shows "remaining (bucc_lexer_next fo lx) < remaining lx"
proof -
  let ?w = "skip_whitespace lx"
  obtain tok lx1 where 1: "scan_token fo ?w = (tok, lx1)" by force
  have "lx_rest ?w \<noteq> []" using assms scan_token_end [of ?w fo] 1 by (auto simp: bucc_lexer_next_def make_token_def)
  then have "remaining lx1 < remaining ?w" using scan_token_remaining [of ?w fo] 1 by simp
  also have "\<dots> \<le> remaining lx" by (simp add: skip_whitespace_def advance_while_remaining)
  finally show ?thesis using assms(2) 1 by (simp add: bucc_lexer_next_def)
qed

text \<open>All tokens up to the end of the source, as a caller of \<open>bucc_lexer_next\<close> gets them.\<close>

function all_tokens :: "float_ops \<Rightarrow> bucc_lexer_t \<Rightarrow> bucc_token_t list" where
  "all_tokens fo lx =
     (let lx' = bucc_lexer_next fo lx
      in if tk_kind (lx_current lx') = TOK_EOF then [] else lx_current lx' # all_tokens fo lx')"
  by pat_completeness auto

termination
proof (relation "measure (\<lambda>(fo, lx). 2 * remaining lx + (if lx_has_peek lx then 1 else 0))")
  fix fo lx lx' assume *: "lx' = bucc_lexer_next fo lx" "tk_kind (lx_current lx') \<noteq> TOK_EOF"
  show "((fo, lx'), fo, lx) \<in> measure (\<lambda>(fo, lx). 2 * remaining lx + (if lx_has_peek lx then 1 else 0))"
  proof (cases "lx_has_peek lx")
    case False
    then show ?thesis using * lexer_next_remaining [of fo lx] lexer_next_peek [of lx fo] by simp
  qed (use * in \<open>simp add: bucc_lexer_next_def\<close>)
qed simp

declare all_tokens.simps [simp del]

lemma all_tokens_split:
  "\<not> lx_has_peek lx \<Longrightarrow> list_all (\<lambda>t. tk_kind t \<noteq> TOK_ERROR) (all_tokens fo lx) \<Longrightarrow>
   \<exists>ws w. length ws = length (all_tokens fo lx) \<and> list_all (list_all blank) (w # ws) \<and>
     lx_rest lx = concat (map2 (\<lambda>w t. w @ tk_text t) ws (all_tokens fo lx)) @ w"
proof (induction fo lx rule: all_tokens.induct)
  case (1 fo lx)
  let ?lx = "bucc_lexer_next fo lx" let ?k = "tk_kind (lx_current (bucc_lexer_next fo lx))"
  obtain v taken where v: "lx_rest lx = v @ taken @ lx_rest ?lx" "list_all blank v" "?k = TOK_EOF \<longleftrightarrow> taken = []"
      "?k \<noteq> TOK_ERROR \<longrightarrow> tk_text (lx_current ?lx) = taken" "?k = TOK_EOF \<longrightarrow> lx_rest ?lx = []"
    using lexer_next_splits [OF 1(2), of fo] by blast
  show ?case
  proof (cases "?k = TOK_EOF")
    case True
    then have "all_tokens fo lx = []" by (simp add: all_tokens.simps [of fo lx] Let_def)
    then show ?thesis using v True by (intro exI [of _ "[]"] exI [of _ v]) simp
  next
    case False
    then have ts: "all_tokens fo lx = lx_current ?lx # all_tokens fo ?lx" by (simp add: all_tokens.simps [of fo lx] Let_def)
    then obtain ws w where "length ws = length (all_tokens fo ?lx)" "list_all (list_all blank) (w # ws)"
        "lx_rest ?lx = concat (map2 (\<lambda>w t. w @ tk_text t) ws (all_tokens fo ?lx)) @ w"
      using 1(1) [OF refl False lexer_next_peek [OF 1(2)]] 1(3) by auto
    then show ?thesis using v ts 1(3) by (intro exI [of _ "v # ws"] exI [of _ w]) simp
  qed
qed

end
