(* ===== verification/Bucc_Tokens.thy ===== *)
theory Bucc_Tokens
  imports Bucc_Lexer
begin

text \<open>
  What the lexer of Buccaneer does with written text: it reads back the words of a program, and it loses nothing of the source.

  \<^item> A \<open>bucc_word\<close> is a keyword, a sign, a name, a number or a string; \<open>spelling\<close> writes it. \<open>reads_word\<close> says that the
    scanner gets its token, for each kind of word.
  \<^item> \<open>feeds lx ws\<close> says that the lexer stands in the middle of a text with the words \<open>ws\<close> to come; the parser is
    proved on top of it.
\<close>

section \<open>Reading back written tokens\<close>

text \<open>
  The words of a program, how they are written, and the token that stands for each. A fixed word is a keyword or
  a sign; a name must not be a keyword.
\<close>

datatype bucc_word = Fixed bytes bucc_token_kind_t | Name bytes | Number nat | Quoted bytes

fun number_bytes :: "nat \<Rightarrow> bytes" where
  "number_bytes n = (if n < 10 then [48 + word_of_nat n] else number_bytes (n div 10) @ [48 + word_of_nat (n mod 10)])"

declare number_bytes.simps [simp del]

definition escaped :: "u8 \<Rightarrow> bytes" where
  "escaped c = (if c = 10 then [92, 110] else if c = 13 then [92, 114] else if c = 9 then [92, 116]
     else if c = 92 \<or> c = 34 then [92, c] else [c])"

fun spelling :: "bucc_word \<Rightarrow> bytes" where
  "spelling (Fixed s _) = s"
| "spelling (Name s) = s"
| "spelling (Number n) = number_bytes n"
| "spelling (Quoted s) = [34] @ concat (map escaped s) @ [34]"

definition signs :: "(bytes \<times> bucc_token_kind_t) list" where
  "signs = [(ascii ''('', TOK_LPAREN), (ascii '')'', TOK_RPAREN), (ascii ''['', TOK_LBRACKET), (ascii '']'', TOK_RBRACKET),
     (ascii '','', TOK_COMMA), (ascii ''.'', TOK_DOT), (ascii ''+'', TOK_PLUS), (ascii ''-'', TOK_MINUS), (ascii ''*'', TOK_STAR),
     (ascii ''/'', TOK_SLASH), (ascii ''='', TOK_EQ), (ascii ''<>'', TOK_NE), (ascii ''<'', TOK_LT), (ascii ''<='', TOK_LE),
     (ascii ''>'', TOK_GT), (ascii ''>='', TOK_GE), ([10], TOK_NEWLINE)]"

fun good_word :: "bucc_word \<Rightarrow> bool" where
  "good_word (Fixed s k) \<longleftrightarrow> (s, k) \<in> set signs \<or> (s, k) \<in> set keyword_table \<and> k \<noteq> TOK_KW_REM"
| "good_word (Name s) \<longleftrightarrow> s \<noteq> [] \<and> is_ident_start (hd s) \<and> list_all is_ident_char s \<and> lookup_keyword s = TOK_IDENT"
| "good_word (Number n) \<longleftrightarrow> n < 2 ^ 63"
| "good_word (Quoted s) \<longleftrightarrow> 0 \<notin> set s"

fun word_kind :: "bucc_word \<Rightarrow> bucc_token_kind_t" where
  "word_kind (Fixed _ k) = k"
| "word_kind (Name _) = TOK_IDENT"
| "word_kind (Number _) = TOK_INTEGER"
| "word_kind (Quoted _) = TOK_STRING"

fun word_value :: "bucc_word \<Rightarrow> tok_value" where
  "word_value (Number n) = TvI64 (word_of_nat n)"
| "word_value _ = TvZero"

definition is_token :: "bucc_word \<Rightarrow> bucc_token_t \<Rightarrow> bool" where
  "is_token w t \<longleftrightarrow> tk_kind t = word_kind w \<and> tk_text t = spelling w \<and> tk_value t = word_value w"

text \<open>A token ends in front of a blank, a new line or the end of the source.\<close>

definition separates :: "bytes \<Rightarrow> bool" where
  "separates r \<longleftrightarrow> r = [] \<or> hd r = 32 \<or> hd r = 10"

lemma separator_kind: "separates r \<Longrightarrow> r \<noteq> [] \<Longrightarrow> \<not> is_ident_char (hd r) \<and> \<not> is_digit (hd r)"
  by (auto simp: separates_def is_ident_char_def is_ident_start_def is_digit_def)

lemma lexeme_split: "lx_rest lx = s @ r \<Longrightarrow> lx_rest lx' = r \<Longrightarrow> lexeme lx lx' = s"
  by (simp add: lexeme_def)

lemma while_split:
  "lx_rest lx = s @ r \<Longrightarrow> list_all P s \<Longrightarrow> r = [] \<or> \<not> P (hd r) \<Longrightarrow> lx_rest (advance_while P lx) = r"
  by (cases r) (auto simp: advance_while_rest list_all_iff dropWhile_append)

lemma number_bytes_digits: "list_all is_digit (number_bytes n)" "number_bytes n \<noteq> []"
proof (induction n rule: number_bytes.induct)
  case (1 n)
  have *: "is_digit (48 + word_of_nat k)" if "k < 10" for k
  proof -
    have "unat (48 + word_of_nat k :: u8) = 48 + k" using that by (simp add: unat_word_ariths unat_of_nat)
    then show ?thesis using that by (simp add: is_digit_def word_le_nat_alt)
  qed
  { case 1 show ?case using "1.IH"(1) * [of "n mod 10"] * [of n] by (subst number_bytes.simps) simp }
  { case 2 show ?case by (subst number_bytes.simps) simp }
qed

lemma digits_value_append: "digits_value b v (xs @ [c]) = digits_value b v xs * b + v c"
  by (simp add: digits_value_def)

lemma digits_value_number: "digits_value 10 (\<lambda>c. uint c - 48) (number_bytes n) = int n"
proof (induction n rule: number_bytes.induct)
  case (1 n)
  have *: "uint (48 + word_of_nat k :: u8) - 48 = int k" if "k < 10" for k
  proof -
    have "unat (48 + word_of_nat k :: u8) = 48 + k" using that by (simp add: unat_word_ariths unat_of_nat)
    from arg_cong [OF this, of int] show ?thesis by simp
  qed
  show ?case
  proof (cases "n < 10")
    case True
    then show ?thesis by (subst number_bytes.simps) (simp add: digits_value_def * [OF True])
  next
    case False
    then show ?thesis using 1 * [of "n mod 10"] by (subst number_bytes.simps) (simp add: digits_value_append zdiv_int zmod_int)
  qed
qed


lemma byte_upper_idem [simp]: "byte_upper (byte_upper c) = byte_upper c"
  by (auto simp: byte_upper_def word_le_nat_alt unat_sub_if')

lemma strcasecmp_n_upper: "strcasecmp_n (map byte_upper a) b n = strcasecmp_n a b n"
  by (induction a b n rule: strcasecmp_n.induct) simp_all

lemma lookup_keyword_upper: "lookup_keyword (map byte_upper s) = lookup_keyword s"
  by (simp add: lookup_keyword_def strcasecmp_n_upper)

lemma keyword_table_lookup: "list_all (\<lambda>(name, kind). lookup_keyword name = kind) keyword_table"
  by code_simp

text \<open>The lexer at a word, with no token looked ahead.\<close>

definition reads_word :: "float_ops \<Rightarrow> bucc_word \<Rightarrow> bool" where
  "reads_word fo w \<longleftrightarrow> (\<forall>lx r. lx_rest lx = spelling w @ r \<longrightarrow> separates r \<longrightarrow>
     is_token w (fst (scan_token fo lx)) \<and> lx_rest (snd (scan_token fo lx)) = r \<and> lx_diag (snd (scan_token fo lx)) = lx_diag lx)"

lemma not_rem:
  assumes "lx_rest lx = s @ r" "separates r" "s \<noteq> []" "list_all is_ident_char s" "lookup_keyword s \<noteq> TOK_KW_REM"
  shows "\<not> at_rem lx"
proof
  assume rem: "at_rem lx"
  have n0: "\<not> is_ident_char 0" by (simp add: is_ident_char_def is_ident_start_def is_digit_def)
  have sep: "\<not> is_ident_char (peek_char_n (length s) lx)" 
    using separator_kind [OF assms(2)] n0 by (auto simp: peek_char_n_def assms(1) nth_append hd_conv_nth)
  have inside: "is_ident_char (peek_char_n k lx)" if "k < length s" for k
    using assms(4) that by (simp add: peek_char_n_def assms(1) nth_append list_all_length)
  have p0: "peek_char lx = peek_char_n 0 lx" using assms(1,3) by (simp add: peek_char_def peek_char_n_def hd_conv_nth)
  have letters: "list_all is_ident_char [82, 114, 69, 101, 77, 109]" by (simp add: is_ident_char_def is_ident_start_def)
  have "is_ident_char (peek_char_n 0 lx)" "is_ident_char (peek_char_n 1 lx)" "is_ident_char (peek_char_n 2 lx)"
    using rem letters unfolding at_rem_def p0 by auto
  then have idents: "is_ident_char (peek_char_n k lx)" if "k < 3" for k
    using that by (metis One_nat_def less_2_cases less_antisym numeral_2_eq_2 numeral_3_eq_3)
  have "length s = 3"
    using sep idents [of "length s"] inside [of 3] rem by (metis at_rem_def linorder_neqE_nat)
  then have "s = [peek_char_n 0 lx, peek_char_n 1 lx, peek_char_n 2 lx]"
    by (auto simp: peek_char_n_def assms(1) nth_append length_Suc_conv eval_nat_numeral)
  moreover have "byte_upper (peek_char_n 0 lx) = 82" "byte_upper (peek_char_n 1 lx) = 69" "byte_upper (peek_char_n 2 lx) = 77"
    using rem by (auto simp: at_rem_def p0 byte_upper_def)
  ultimately have "map byte_upper s = ascii ''REM''" by (simp add: ascii_def)
  then have "lookup_keyword s = TOK_KW_REM"
    using lookup_keyword_upper [of s] keyword_table_lookup by (simp add: list_all_iff keyword_table_def)
  with assms(5) show False by simp
qed

lemma reads_ident:
  assumes "s \<noteq> []" "is_ident_start (hd s)" "list_all is_ident_char s" "lookup_keyword s \<noteq> TOK_KW_REM"
    and lx: "lx_rest lx = s @ r" "separates r"
  shows "scan_token fo lx = (make_token (lookup_keyword s) lx (advance_while is_ident_char lx), advance_while is_ident_char lx)"
    "lx_rest (advance_while is_ident_char lx) = r" "lexeme lx (advance_while is_ident_char lx) = s"
proof -
  show rest: "lx_rest (advance_while is_ident_char lx) = r" using while_split [OF lx(1) assms(3)] separator_kind [OF lx(2)] by blast
  show lexeme: "lexeme lx (advance_while is_ident_char lx) = s" using lexeme_split [OF lx(1) rest] .
  have "peek_char lx = hd s" "lx_rest lx \<noteq> []" using lx(1) assms(1) by (simp_all add: peek_char_def)
  moreover have "hd s \<noteq> 10" "hd s \<noteq> 39" using assms(2) by (auto simp: is_ident_start_def)
  ultimately show "scan_token fo lx = (make_token (lookup_keyword s) lx (advance_while is_ident_char lx), advance_while is_ident_char lx)"
    using assms(2) not_rem [OF lx assms(1,3,4)] lexeme by (simp add: scan_token_def scan_identifier_def Let_def)
qed

lemma while_diag: "lx_diag (advance_while P lx) = lx_diag lx"
  using onward_fields(3) [OF onward_while [OF onward_refl]] .

lemma reads_name: "good_word (Name s) \<Longrightarrow> reads_word fo (Name s)"
  unfolding reads_word_def
  by (auto simp: reads_ident is_token_def make_token_def while_diag)

lemma keyword_shape:
  "list_all (\<lambda>(name, kind). name \<noteq> [] \<and> is_ident_start (hd name) \<and> list_all is_ident_char name \<and> lookup_keyword name = kind) keyword_table"
proof -
  have "list_all (\<lambda>(name, kind). name \<noteq> [] \<and> is_ident_start (hd name) \<and> list_all is_ident_char name) keyword_table"
    by code_simp
  then show ?thesis using keyword_table_lookup by (auto simp: list_all_iff)
qed

lemma reads_keyword:
  assumes "(s, k) \<in> set keyword_table" "k \<noteq> TOK_KW_REM"
  shows "reads_word fo (Fixed s k)"
proof -
  have "s \<noteq> []" "is_ident_start (hd s)" "list_all is_ident_char s" "lookup_keyword s = k"
    using keyword_shape assms(1) by (auto simp: list_all_iff)
  then show ?thesis using assms(2) unfolding reads_word_def by (auto simp: reads_ident is_token_def make_token_def while_diag)
qed

lemma digit_only: "is_digit c \<Longrightarrow> \<not> is_ident_start c \<and> c \<noteq> 10 \<and> c \<noteq> 39 \<and> c \<noteq> 45"
  by (auto simp: is_digit_def is_ident_start_def word_le_nat_alt)

lemma reads_number:
  assumes "n < 2 ^ 63"
  shows "reads_word fo (Number n)"
  unfolding reads_word_def
proof (intro allI impI)
  fix lx :: bucc_lexer_t and r assume lx: "lx_rest lx = spelling (Number n) @ r" "separates r"
  let ?lx = "advance_while is_digit lx"
  have s: "lx_rest lx = number_bytes n @ r" using lx(1) by simp
  have rest: "lx_rest ?lx = r" using while_split [OF s number_bytes_digits(1)] separator_kind [OF lx(2)] by blast
  have hd: "is_digit (hd (number_bytes n))" using number_bytes_digits [of n] by (cases "number_bytes n") simp_all
  have p: "peek_char lx = hd (number_bytes n)" "lx_rest lx \<noteq> []" using s number_bytes_digits(2) [of n] by (simp_all add: peek_char_def)
  have "peek_char ?lx = 0 \<or> peek_char ?lx = 32 \<or> peek_char ?lx = 10" using rest lx(2) by (auto simp: peek_char_def separates_def)
  then have e: "peek_char ?lx \<noteq> 46" "peek_char ?lx \<noteq> 101" "peek_char ?lx \<noteq> 69" by auto
  have tw: "takeWhile is_digit (number_bytes n @ r) = number_bytes n"
    using separator_kind [OF lx(2)] number_bytes_digits(1) [of n] by (cases r) (simp_all add: takeWhile_append list_all_iff)
  have hd45: "hd (number_bytes n @ r) \<noteq> 45" using hd number_bytes_digits(2) [of n] by (auto simp: is_digit_def)
  have "strtoll_dec (lx_rest lx) = saturate_i64 (int n)"
    using hd45 unfolding s by (simp add: strtoll_dec_def tw digits_value_number)
  also have "\<dots> = word_of_nat n" using assms by (simp add: saturate_i64_def)
  finally have v: "strtoll_dec (lx_rest lx) = word_of_nat n" .
  have "peek_char lx \<noteq> 45" using hd p by (auto simp: is_digit_def)
  then have sc: "scan_number fo lx = ((make_token TOK_INTEGER lx ?lx)\<lparr>tk_value := TvI64 (word_of_nat n)\<rparr>, ?lx)"
    using e by (simp add: scan_number_def Let_def v)
  have "scan_token fo lx = scan_number fo lx"
    using digit_only [OF hd] hd p by (simp add: scan_token_def Let_def)
  then show "is_token (Number n) (fst (scan_token fo lx)) \<and> lx_rest (snd (scan_token fo lx)) = r \<and> lx_diag (snd (scan_token fo lx)) = lx_diag lx"
    using rest lexeme_split [OF s rest] by (simp add: sc is_token_def make_token_def while_diag)
qed


lemma string_body_escaped:
  "lx_rest lx = concat (map escaped s) @ 34 # r \<Longrightarrow> 0 \<notin> set s \<Longrightarrow> lx_rest (string_body lx) = 34 # r"
proof (induction s arbitrary: lx)
  case Nil
  then show ?case by (subst string_body.simps) (simp add: peek_char_def)
next
  case (Cons c s)
  have rest: "lx_rest lx = escaped c @ concat (map escaped s) @ 34 # r" using Cons.prems(1) by simp
  have c: "c \<noteq> 0" "0 \<notin> set s" using Cons.prems(2) by auto
  show ?case
  proof (cases "c \<in> {10, 13, 9, 92, 34}")
    case True
    then obtain d where d: "escaped c = [92, d]" "d \<noteq> 0" by (auto simp: escaped_def split: if_splits)
    then have "string_body lx = string_body (lex_advance (lex_advance lx))"
      using rest by (subst string_body.simps) (simp add: peek_char_def peek_char_n_def)
    then show ?thesis using Cons.IH [of "lex_advance (lex_advance lx)"] rest d c by simp
  next
    case False
    then have "escaped c = [c]" "c \<noteq> 10" "c \<noteq> 34" "c \<noteq> 92" by (auto simp: escaped_def)
    then have "string_body lx = string_body (lex_advance lx)" "lx_rest (lex_advance lx) = concat (map escaped s) @ 34 # r"
      using rest c by (subst string_body.simps, simp_all add: peek_char_def)
    then show ?thesis using Cons.IH [of "lex_advance lx"] c by simp
  qed
qed

lemma reads_string:
  assumes "0 \<notin> set s"
  shows "reads_word fo (Quoted s)"
  unfolding reads_word_def
proof (intro allI impI)
  fix lx :: bucc_lexer_t and r assume lx: "lx_rest lx = spelling (Quoted s) @ r" "separates r"
  let ?lx = "string_body (lex_advance lx)"
  have "lx_rest (lex_advance lx) = concat (map escaped s) @ 34 # r" using lx(1) by simp
  then have rest: "lx_rest ?lx = 34 # r" using string_body_escaped assms by blast
  then have rest': "lx_rest (lex_advance ?lx) = r" by simp
  have "peek_char lx = 34" "lx_rest lx \<noteq> []" using lx(1) by (simp_all add: peek_char_def)
  then have "scan_token fo lx = scan_string lx"
    by (simp add: scan_token_def Let_def is_ident_start_def is_digit_def)
  also have "\<dots> = (make_token TOK_STRING lx (lex_advance ?lx), lex_advance ?lx)"
    using rest by (simp add: scan_string_def Let_def peek_char_def)
  finally have "scan_token fo lx = (make_token TOK_STRING lx (lex_advance ?lx), lex_advance ?lx)" .
  moreover have "lx_diag ?lx = lx_diag lx" using onward_fields(3) [OF onward_string_body [OF onward_advance [OF onward_refl]]] .
  ultimately show "is_token (Quoted s) (fst (scan_token fo lx)) \<and> lx_rest (snd (scan_token fo lx)) = r \<and> lx_diag (snd (scan_token fo lx)) = lx_diag lx"
    using rest' lexeme_split [OF lx(1) rest'] by (simp add: is_token_def make_token_def)
qed

lemma advances_diag: "lx_diag ((lex_advance ^^ n) lx) = lx_diag lx"
  using onward_fields(3) [OF onward_advances] .

lemma reads_sign_of:
  assumes s: "s \<noteq> []" "\<And>r. separates r \<Longrightarrow> punctuation (hd s) (if tl s @ r = [] then 0 else hd (tl s @ r)) = Some (k, length s)"
    "\<not> is_ident_start (hd s)" "\<not> is_digit (hd s)" "hd s \<notin> {10, 39, 38, 34, 35}" "hd s = 45 \<Longrightarrow> tl s = []"
  shows "reads_word fo (Fixed s k)"
  unfolding reads_word_def
proof (intro allI impI)
  fix lx :: bucc_lexer_t and r assume lx: "lx_rest lx = spelling (Fixed s k) @ r" "separates r"
  have rest: "lx_rest ((lex_advance ^^ length s) lx) = r" using lx(1) by (simp add: advances_rest)
  have p: "peek_char lx = hd s" "lx_rest lx \<noteq> []" using lx(1) s(1) by (simp_all add: peek_char_def)
  have p1: "peek_char_n 1 lx = (if tl s @ r = [] then 0 else hd (tl s @ r))"
    using lx(1) s(1) by (cases s; cases "tl s"; cases r) (simp_all add: peek_char_n_def)
  have d: "\<not> is_digit (peek_char_n 1 lx)" if "hd s = 45"
    using s(6) [OF that] separator_kind [OF lx(2)] unfolding p1 by (auto simp: is_digit_def)
  have "scan_token fo lx = (make_token k lx ((lex_advance ^^ length s) lx), (lex_advance ^^ length s) lx)"
    using s(3-5) d p s(2) [OF lx(2)] unfolding p1 [symmetric] by (auto simp: scan_token_def Let_def simp del: One_nat_def)
  then show "is_token (Fixed s k) (fst (scan_token fo lx)) \<and> lx_rest (snd (scan_token fo lx)) = r \<and> lx_diag (snd (scan_token fo lx)) = lx_diag lx"
    using rest lexeme_split [OF lx(1) rest] by (simp add: is_token_def make_token_def advances_diag)
qed

lemma separates_first: "separates r \<Longrightarrow> (if r = [] then 0 else hd r) \<in> {0, 32, 10}"
  by (auto simp: separates_def)

lemma reads_newline: "reads_word fo (Fixed [10] TOK_NEWLINE)"
  unfolding reads_word_def by (auto simp: scan_token_def Let_def peek_char_def is_token_def make_token_def lexeme_def)

lemma signs_punctuation:
  "list_all (\<lambda>(s, k). s \<noteq> [10] \<longrightarrow> s \<noteq> [] \<and> \<not> is_ident_start (hd s) \<and> \<not> is_digit (hd s) \<and> hd s \<notin> {10, 39, 38, 34, 35} \<and>
     (hd s = 45 \<longrightarrow> tl s = []) \<and>
     list_all (\<lambda>c1. punctuation (hd s) (if tl s = [] then c1 else hd (tl s)) = Some (k, length s)) [0, 32, 10]) signs"
  by code_simp

lemma reads_sign:
  assumes "(s, k) \<in> set signs"
  shows "reads_word fo (Fixed s k)"
proof (cases "s = [10]")
  case True
  then have "k = TOK_NEWLINE" using assms by (auto simp: signs_def ascii_def)
  then show ?thesis using True reads_newline by simp
next
  case False
  with assms have s: "s \<noteq> []" "\<not> is_ident_start (hd s)" "\<not> is_digit (hd s)" "hd s \<notin> {10, 39, 38, 34, 35}" "hd s = 45 \<Longrightarrow> tl s = []"
      and p: "\<forall>c1 \<in> {0, 32, 10}. punctuation (hd s) (if tl s = [] then c1 else hd (tl s)) = Some (k, length s)"
    using signs_punctuation unfolding list_all_iff by auto
  have "separates r \<Longrightarrow> punctuation (hd s) (if tl s @ r = [] then 0 else hd (tl s @ r)) = Some (k, length s)" for r
    using bspec [OF p separates_first [of r]] by (cases "tl s = []") (simp_all split: if_splits)
  then show ?thesis using reads_sign_of [OF s(1)] s(2-5) by blast
qed

lemma reads_good_word: "good_word w \<Longrightarrow> reads_word fo w"
proof (cases w)
  case (Name s)
  then show "good_word w \<Longrightarrow> reads_word fo w" using reads_name by blast
qed (auto intro: reads_sign reads_keyword reads_number reads_string)

lemma spelling_first:
  assumes "good_word w"
  shows "spelling w \<noteq> []" "\<not> blank (hd (spelling w))"
proof -
  have b: "is_ident_start c \<Longrightarrow> \<not> blank c" "is_digit c \<Longrightarrow> \<not> blank c" for c
    by (auto simp: blank_def is_ident_start_def is_digit_def)
  have "list_all (\<lambda>(s, k). s \<noteq> [] \<and> \<not> blank (hd s)) signs" by code_simp
  moreover have "list_all (\<lambda>(s, k). s \<noteq> [] \<and> is_ident_start (hd s)) keyword_table" using keyword_shape by (auto simp: list_all_iff)
  ultimately have "s \<noteq> [] \<and> \<not> blank (hd s)" if "(s, k) \<in> set signs \<or> (s, k) \<in> set keyword_table" for s k
    using that b(1) by (auto simp: list_all_iff)
  moreover have "\<not> blank (hd (number_bytes n))" for n
    using number_bytes_digits [of n] b(2) by (cases "number_bytes n") auto
  ultimately have "spelling w \<noteq> [] \<and> \<not> blank (hd (spelling w))"
    using assms b(1) number_bytes_digits(2) by (cases w) (auto simp: blank_def)
  then show "spelling w \<noteq> []" "\<not> blank (hd (spelling w))" by simp_all
qed

lemma lexer_next_word:
  assumes "\<not> lx_has_peek lx" "lx_rest lx = b @ spelling w @ r" "list_all blank b" "separates r" "good_word w"
  shows "is_token w (lx_current (bucc_lexer_next fo lx)) \<and> lx_rest (bucc_lexer_next fo lx) = r \<and>
    lx_diag (bucc_lexer_next fo lx) = lx_diag lx"
proof -
  let ?w = "skip_whitespace lx"
  have "lx_rest ?w = spelling w @ r"
    unfolding skip_whitespace_def using assms(2,3) spelling_first [OF assms(5)]
    by (intro while_split [of _ b]) (auto simp: blank_def list_all_iff)
  moreover have "lx_diag ?w = lx_diag lx" unfolding skip_whitespace_def by (rule while_diag)
  ultimately have "is_token w (fst (scan_token fo ?w)) \<and> lx_rest (snd (scan_token fo ?w)) = r \<and> lx_diag (snd (scan_token fo ?w)) = lx_diag lx"
    using reads_good_word [OF assms(5), of fo] assms(4) unfolding reads_word_def by metis
  then show ?thesis using assms(1) by (cases "scan_token fo ?w") (simp add: bucc_lexer_next_def)
qed

lemma lexer_next_end:
  assumes "\<not> lx_has_peek lx" "list_all blank (lx_rest lx)"
  shows "tk_kind (lx_current (bucc_lexer_next fo lx)) = TOK_EOF \<and> lx_rest (bucc_lexer_next fo lx) = [] \<and>
    lx_diag (bucc_lexer_next fo lx) = lx_diag lx"
proof -
  have "lx_rest (skip_whitespace lx) = []"
    unfolding skip_whitespace_def using assms(2) by (auto simp: advance_while_rest list_all_iff blank_def)
  then show ?thesis using assms(1) while_diag unfolding skip_whitespace_def
    by (simp add: bucc_lexer_next_def scan_token_end skip_whitespace_def make_token_def)
qed

text \<open>Words written one after the other, with a space behind each.\<close>

definition program_text :: "bucc_word list \<Rightarrow> bytes" where
  "program_text ws = concat (map (\<lambda>w. spelling w @ [32]) ws)"

text \<open>The lexer in the middle of such a text: its current token is the first of the words still to come.\<close>

definition feeds :: "bucc_lexer_t \<Rightarrow> bucc_word list \<Rightarrow> bool" where
  "feeds lx ws \<longleftrightarrow> \<not> lx_has_peek lx \<and> list_all good_word ws \<and>
     (case ws of
        [] \<Rightarrow> tk_kind (lx_current lx) = TOK_EOF \<and> lx_rest lx = []
      | w # ws' \<Rightarrow> is_token w (lx_current lx) \<and> lx_rest lx = 32 # program_text ws')"

lemma feeds_step:
  assumes "\<not> lx_has_peek lx" "list_all good_word ws" "lx_rest lx = b @ program_text ws" "list_all blank b"
  shows "feeds (bucc_lexer_next fo lx) ws" "lx_diag (bucc_lexer_next fo lx) = lx_diag lx"
proof -
  have peek: "\<not> lx_has_peek (bucc_lexer_next fo lx)" using lexer_next_peek [OF assms(1)] .
  have "feeds (bucc_lexer_next fo lx) ws \<and> lx_diag (bucc_lexer_next fo lx) = lx_diag lx"
  proof (cases ws)
    case Nil
    then show ?thesis using lexer_next_end [OF assms(1), of fo] assms(3,4) peek by (simp add: feeds_def program_text_def)
  next
    case (Cons w ws')
    have "lx_rest lx = b @ spelling w @ 32 # program_text ws'" using assms(3) Cons by (simp add: program_text_def)
    then show ?thesis
      using lexer_next_word [OF assms(1) _ assms(4), of w "32 # program_text ws'" fo] assms(2) Cons peek
      by (simp add: feeds_def separates_def)
  qed
  then show "feeds (bucc_lexer_next fo lx) ws" "lx_diag (bucc_lexer_next fo lx) = lx_diag lx" by simp_all
qed

lemma feeds_next: "feeds lx (w # ws) \<Longrightarrow> feeds (bucc_lexer_next fo lx) ws \<and> lx_diag (bucc_lexer_next fo lx) = lx_diag lx"
  using feeds_step [of lx ws "[32]" fo] by (auto simp: feeds_def blank_def)

lemma feeds_init:
  assumes "list_all good_word ws"
  shows "feeds (bucc_lexer_next fo (bucc_lexer_init (program_text ws) file d)) ws"
    "lx_diag (bucc_lexer_next fo (bucc_lexer_init (program_text ws) file d)) = d"
  using feeds_step [of "bucc_lexer_init (program_text ws) file d" ws "[]" fo] assms by (simp_all add: bucc_lexer_init_def)

text \<open>The name of a keyword's kind in messages is the keyword.\<close>

lemma keyword_table_names: "list_all (\<lambda>(name, kind). ascii (bucc_token_kind_name kind) = name) keyword_table"
  by (simp add: keyword_table_def bucc_token_kind_name_def kind_names_def ascii_def)

lemma word_not_end: "good_word w \<Longrightarrow> word_kind w \<noteq> TOK_EOF"
proof -
  have "list_all (\<lambda>(s, k). k \<noteq> TOK_EOF) (signs @ keyword_table)" by (simp add: signs_def keyword_table_def)
  then show "good_word w \<Longrightarrow> word_kind w \<noteq> TOK_EOF" by (cases w) (auto simp: list_all_iff)
qed

lemma feeds_all_tokens: "feeds (bucc_lexer_next fo lx) ws \<Longrightarrow> list_all2 is_token ws (all_tokens fo lx)"
proof (induction ws arbitrary: lx)
  case Nil
  then show ?case by (simp add: all_tokens.simps [of fo lx] Let_def feeds_def)
next
  case (Cons w ws)
  then have "is_token w (lx_current (bucc_lexer_next fo lx))" "good_word w" by (auto simp: feeds_def)
  then show ?case
    using Cons.IH feeds_next [OF Cons.prems, of fo] word_not_end [of w] by (simp add: all_tokens.simps [of fo lx] Let_def is_token_def)
qed

text \<open>
  C37: The lexer reads back what is written. Keywords, signs, names, numbers below \<open>2^63\<close> and string literals with escapes, written
  one after the other with a space behind each, are read as exactly these tokens: their kinds, their texts and the values of the numbers.
\<close>

theorem lexer_reads_program_text:
  assumes "list_all good_word ws"
  shows "list_all2 is_token ws (all_tokens fo (bucc_lexer_init (program_text ws) file d))"
  by (rule feeds_all_tokens [OF feeds_init(1) [OF assms]])

text \<open>
  C38: The lexer loses nothing. If it reports no error, the source is exactly the texts of its tokens, one after the other, with
  blanks (spaces, tabs, carriage returns, and colons) before each and at the end.
\<close>

theorem lexer_splits_source:
  assumes "list_all (\<lambda>t. tk_kind t \<noteq> TOK_ERROR) (all_tokens fo (bucc_lexer_init source file d))"
  shows "\<exists>ws w. length ws = length (all_tokens fo (bucc_lexer_init source file d)) \<and> list_all (list_all blank) (w # ws) \<and>
     source = concat (map2 (\<lambda>w t. w @ tk_text t) ws (all_tokens fo (bucc_lexer_init source file d))) @ w"
  using all_tokens_split [OF _ assms] by (simp add: bucc_lexer_init_def)


lemma example_words: "list_all good_word [Fixed (ascii ''WHILE'') TOK_KW_WHILE, Name (ascii ''x''), Fixed (ascii ''<='') TOK_LE, Number 10]"
  by (simp add: keyword_table_def signs_def ascii_def is_ident_start_def is_ident_char_def) (code_simp?)

theorem lexer_reads_program_text_witness:
  "\<forall>fo file d. list_all2 is_token [Fixed (ascii ''WHILE'') TOK_KW_WHILE, Name (ascii ''x''), Fixed (ascii ''<='') TOK_LE, Number 10]
     (all_tokens fo (bucc_lexer_init (ascii ''WHILE x <= 10 '') file d))"
proof -
  have "program_text [Fixed (ascii ''WHILE'') TOK_KW_WHILE, Name (ascii ''x''), Fixed (ascii ''<='') TOK_LE, Number 10] = ascii ''WHILE x <= 10 ''"
    by (simp add: program_text_def ascii_def number_bytes.simps)
  then show ?thesis using lexer_reads_program_text [OF example_words] by metis
qed

lemma example_tokens: "list_all (\<lambda>t. tk_kind t \<noteq> TOK_ERROR) (all_tokens fo (bucc_lexer_init (program_text [Name (ascii ''x''), Number 10]) file d))"
proof -
  have good: "list_all good_word [Name (ascii ''x''), Number 10]" using example_words by simp
  have "list_all2 is_token [Name (ascii ''x''), Number 10] (all_tokens fo (bucc_lexer_init (program_text [Name (ascii ''x''), Number 10]) file d))"
    by (rule feeds_all_tokens [OF feeds_init(1) [OF good]])
  then show ?thesis by (auto simp: list_all2_Cons1 is_token_def)
qed

theorem lexer_splits_source_witness:
  "\<forall>fo. \<exists>ws w. length ws = length (all_tokens fo (bucc_lexer_init (program_text [Name (ascii ''x''), Number 10]) 1 \<lparr>d_entries = [], d_error_count = 0\<rparr>)) \<and>
     list_all (list_all blank) (w # ws) \<and>
     program_text [Name (ascii ''x''), Number 10] = concat (map2 (\<lambda>w t. w @ tk_text t) ws
       (all_tokens fo (bucc_lexer_init (program_text [Name (ascii ''x''), Number 10]) 1 \<lparr>d_entries = [], d_error_count = 0\<rparr>))) @ w"
  using lexer_splits_source [OF example_tokens] by blast

end
