(* ===== verification/Bucc_Parser.thy ===== *)
theory Bucc_Parser
  imports Bucc_Lexer Bucc_Emit
begin

text \<open>
  The recursive-descent parser of the Buccaneer language, \<^verbatim>\<open>src/buccaneer/parser.c\<close>, on the lexer of \<open>Bucc_Lexer\<close>;
  it builds the syntax trees of \<open>Bucc_Emit\<close>.

  \<^item> The parser and its lexer report to the same diagnostics, those of the lexer (\<open>compile_source\<close> of
    \<^verbatim>\<open>tools/bucc.c\<close> passes one object to both).
  \<^item> A null pointer returned for a node is \<^term>\<open>None\<close>. Null pointers that become children of other nodes stand in
    the tree as \<open>NODE_EXPR_OTHER\<close>. They only occur after an error, and the compiler drops the tree then.
  \<^item> Types are read and dropped: the code generator does not look at them. So are the spans of
    expressions; a statement keeps the line and the column where it starts.
  \<^item> Every function that recurs, and every loop over expressions and statements, has a fuel argument, one for each call
    and each round; \<^term>\<open>None\<close> as the result means that it did not suffice. The loops over single tokens
    always end and need none.
\<close>

section \<open>The parser and its tokens\<close>

record bucc_parser_t =
  ps_lexer :: bucc_lexer_t
  ps_had_error :: bool
  ps_panic_mode :: bool

definition bucc_parser_init :: "float_ops \<Rightarrow> bucc_lexer_t \<Rightarrow> bucc_parser_t" where
  "bucc_parser_init fo lx = \<lparr>ps_lexer = bucc_lexer_next fo lx, ps_had_error = False, ps_panic_mode = False\<rparr>"

definition current :: "bucc_parser_t \<Rightarrow> bucc_token_t" where
  "current p = lx_current (ps_lexer p)"

abbreviation kind_at :: "bucc_parser_t \<Rightarrow> bucc_token_kind_t" where
  "kind_at p \<equiv> tk_kind (current p)"

definition advance :: "float_ops \<Rightarrow> bucc_parser_t \<Rightarrow> bucc_parser_t" where
  "advance fo p = p\<lparr>ps_lexer := bucc_lexer_next fo (ps_lexer p)\<rparr>"

definition check :: "bucc_parser_t \<Rightarrow> bucc_token_kind_t \<Rightarrow> bool" where
  "check p kind \<longleftrightarrow> kind_at p = kind"

definition error :: "string \<Rightarrow> bucc_parser_t \<Rightarrow> bucc_parser_t" where
  "error msg p =
     (if ps_panic_mode p then p
      else p\<lparr>ps_panic_mode := True, ps_had_error := True,
             ps_lexer := (ps_lexer p)\<lparr>lx_diag := bucc_diag_error (tk_span (current p)) msg (lx_diag (ps_lexer p))\<rparr>\<rparr>)"

text \<open>The result of \<open>expect\<close> and \<open>expect_newline\<close> is never used; only the parser is kept.\<close>

definition expect :: "float_ops \<Rightarrow> bucc_token_kind_t \<Rightarrow> string \<Rightarrow> bucc_parser_t \<Rightarrow> bucc_parser_t" where
  "expect fo kind msg p = (if check p kind then advance fo p else error msg p)"

definition skip_newlines :: "float_ops \<Rightarrow> bucc_parser_t \<Rightarrow> bucc_parser_t" where
  "skip_newlines fo p = p\<lparr>ps_lexer := bucc_lexer_skip_newlines fo (ps_lexer p)\<rparr>"

definition expect_newline :: "float_ops \<Rightarrow> bucc_parser_t \<Rightarrow> bucc_parser_t" where
  "expect_newline fo p =
     (if check p TOK_NEWLINE then advance fo p
      else if check p TOK_EOF then p
      else if check p TOK_COMMENT then
        (let p = advance fo p in if check p TOK_NEWLINE then advance fo p else p)
      else error ''expected newline'' p)"

definition sync_kinds :: "bucc_token_kind_t set" where
  "sync_kinds = {TOK_KW_SUB, TOK_KW_FUNCTION, TOK_KW_DIM, TOK_KW_IF, TOK_KW_FOR, TOK_KW_WHILE, TOK_KW_DO, TOK_KW_SELECT,
     TOK_KW_TRY, TOK_KW_RETURN, TOK_KW_END}"

function synchronize_loop :: "float_ops \<Rightarrow> bucc_parser_t \<Rightarrow> bucc_parser_t" where
  "synchronize_loop fo p =
     (if check p TOK_EOF then p
      else if check p TOK_NEWLINE then advance fo p
      else if kind_at p \<in> sync_kinds then p
      else synchronize_loop fo (advance fo p))"
  by pat_completeness auto

termination
  by (relation "measure (\<lambda>(fo, p). lexer_weight (ps_lexer p))") (auto simp: check_def current_def advance_def lexer_next_weight)

declare synchronize_loop.simps [simp del]

definition synchronize :: "float_ops \<Rightarrow> bucc_parser_t \<Rightarrow> bucc_parser_t" where
  "synchronize fo p = synchronize_loop fo (p\<lparr>ps_panic_mode := False\<rparr>)"

section \<open>Literals\<close>

text \<open>The content between the quotes of a string literal, with its escapes resolved.\<close>

definition escape_value :: "u8 \<Rightarrow> u8" where
  "escape_value c = (if c = 110 then 10 else if c = 114 then 13 else if c = 116 then 9 else c)"

fun unescape :: "bytes \<Rightarrow> bytes" where
  "unescape (c # d # cs) = (if c = 92 then escape_value d # unescape cs else c # unescape (d # cs))"
| "unescape cs = cs"

definition extract_string_content :: "bytes \<Rightarrow> bytes" where
  "extract_string_content str = (if length str < 2 then [] else unescape (butlast (tl str)))"

definition digit_at :: "bytes \<Rightarrow> nat \<Rightarrow> int" where
  "digit_at str i = uint (str ! i) - 48"

definition parse_date_literal :: "bytes \<Rightarrow> bucc_date_t" where
  "parse_date_literal str =
     (if length str < 12 then \<lparr>d_year = 0, d_month = 0, d_day = 0\<rparr>
      else
        \<lparr>d_year = word_of_int (digit_at str 1 * 1000 + digit_at str 2 * 100 + digit_at str 3 * 10 + digit_at str 4),
         d_month = word_of_int (digit_at str 6 * 10 + digit_at str 7),
         d_day = word_of_int (digit_at str 9 * 10 + digit_at str 10)\<rparr>)"

definition parse_datetime_literal :: "bytes \<Rightarrow> bucc_datetime_t" where
  "parse_datetime_literal str =
     (if length str < 21 then \<lparr>dt_year = 0, dt_month = 0, dt_day = 0, dt_hour = 0, dt_minute = 0, dt_second = 0\<rparr>
      else
        \<lparr>dt_year = word_of_int (digit_at str 1 * 1000 + digit_at str 2 * 100 + digit_at str 3 * 10 + digit_at str 4),
         dt_month = word_of_int (digit_at str 6 * 10 + digit_at str 7),
         dt_day = word_of_int (digit_at str 9 * 10 + digit_at str 10),
         dt_hour = word_of_int (digit_at str 12 * 10 + digit_at str 13),
         dt_minute = word_of_int (digit_at str 15 * 10 + digit_at str 16),
         dt_second = word_of_int (digit_at str 18 * 10 + digit_at str 19)\<rparr>)"

definition tok_i64 :: "bucc_token_t \<Rightarrow> i64" where
  "tok_i64 t = (case tk_value t of TvI64 i \<Rightarrow> i | TvF64 d \<Rightarrow> d | TvZero \<Rightarrow> 0)"

definition tok_f64 :: "bucc_token_t \<Rightarrow> f64" where
  "tok_f64 t = (case tk_value t of TvF64 d \<Rightarrow> d | TvI64 i \<Rightarrow> i | TvZero \<Rightarrow> 0)"

definition node_of :: "bucc_expr option \<Rightarrow> bucc_expr" where
  "node_of e = (case e of Some e \<Rightarrow> e | None \<Rightarrow> NODE_EXPR_OTHER)"

section \<open>Expressions\<close>

text \<open>
  The binary operators, by level: \<open>or\<close>, \<open>and\<close>, equality, relational, additive, multiplicative. The six functions of the
  parser for them differ in the operators and in the function they call for the operands.
\<close>

definition binary_op :: "nat \<Rightarrow> bucc_token_kind_t \<Rightarrow> bucc_binary_op_t option" where
  "binary_op l kind =
     (if l = 0 \<and> kind = TOK_KW_OR then Some BINARY_OR
      else if l = 1 \<and> kind = TOK_KW_AND then Some BINARY_AND
      else if l = 2 \<and> kind = TOK_EQ then Some BINARY_EQ
      else if l = 2 \<and> kind = TOK_NE then Some BINARY_NE
      else if l = 3 \<and> kind = TOK_LT then Some BINARY_LT
      else if l = 3 \<and> kind = TOK_LE then Some BINARY_LE
      else if l = 3 \<and> kind = TOK_GT then Some BINARY_GT
      else if l = 3 \<and> kind = TOK_GE then Some BINARY_GE
      else if l = 4 \<and> kind = TOK_PLUS then Some BINARY_ADD
      else if l = 4 \<and> kind = TOK_MINUS then Some BINARY_SUB
      else if l = 5 \<and> kind = TOK_STAR then Some BINARY_MUL
      else if l = 5 \<and> kind = TOK_SLASH then Some BINARY_DIV
      else if l = 5 \<and> kind = TOK_KW_MOD then Some BINARY_MOD
      else None)"

abbreviation fuel_of :: "'a \<times> nat \<times> 'b \<Rightarrow> nat" where
  "fuel_of x \<equiv> fst (snd x)"

function (sequential) bucc_parse_primary_expr :: "float_ops \<Rightarrow> nat \<Rightarrow> bucc_parser_t \<Rightarrow> (bucc_expr option \<times> bucc_parser_t) option"
  and parse_elements :: "float_ops \<Rightarrow> nat \<Rightarrow> bucc_parser_t \<Rightarrow> (bucc_expr list \<times> bucc_parser_t) option"
  and parse_pairs :: "float_ops \<Rightarrow> nat \<Rightarrow> bucc_parser_t \<Rightarrow> (bucc_map_pair list \<times> bucc_parser_t) option"
  and postfix_loop :: "float_ops \<Rightarrow> nat \<Rightarrow> bucc_expr \<Rightarrow> bucc_parser_t \<Rightarrow> (bucc_expr option \<times> bucc_parser_t) option"
  and bucc_parse_unary_expr :: "float_ops \<Rightarrow> nat \<Rightarrow> bucc_parser_t \<Rightarrow> (bucc_expr option \<times> bucc_parser_t) option"
  and parse_binary :: "float_ops \<Rightarrow> nat \<Rightarrow> nat \<Rightarrow> bucc_parser_t \<Rightarrow> (bucc_expr option \<times> bucc_parser_t) option"
  and binary_loop :: "float_ops \<Rightarrow> nat \<Rightarrow> nat \<Rightarrow> bucc_expr option \<Rightarrow> bucc_parser_t \<Rightarrow> (bucc_expr option \<times> bucc_parser_t) option" where
  "bucc_parse_primary_expr fo 0 p = None"
| "bucc_parse_primary_expr fo (Suc n) p =
     (let t = current p; k = tk_kind t; q = advance fo p in
      if k = TOK_KW_NULL then Some (Some (NODE_EXPR_LITERAL LNull), q)
      else if k = TOK_KW_TRUE then Some (Some (NODE_EXPR_LITERAL (LBool True)), q)
      else if k = TOK_KW_FALSE then Some (Some (NODE_EXPR_LITERAL (LBool False)), q)
      else if k = TOK_INTEGER \<or> k = TOK_HEX then Some (Some (NODE_EXPR_LITERAL (LI64 (tok_i64 t))), q)
      else if k = TOK_DOUBLE then Some (Some (NODE_EXPR_LITERAL (LF64 (tok_f64 t))), q)
      else if k = TOK_STRING then
        Some (Some (NODE_EXPR_LITERAL (LString (until_nul (extract_string_content (tk_text t))))), q)
      else if k = TOK_DATE then Some (Some (NODE_EXPR_LITERAL (LDate (parse_date_literal (tk_text t)))), q)
      else if k = TOK_DATETIME then Some (Some (NODE_EXPR_LITERAL (LDatetime (parse_datetime_literal (tk_text t)))), q)
      else if k = TOK_IDENT then Some (Some (NODE_EXPR_IDENT (tk_text t)), q)
      else if k = TOK_LPAREN then
        do { (e, p) \<leftarrow> parse_binary fo n 0 q; Some (e, expect fo TOK_RPAREN (quoted ''expected ~)~ after expression'') p) }
      else if k = TOK_LBRACKET then
        do { (es, p) \<leftarrow> (if check q TOK_RBRACKET then Some ([], q) else parse_elements fo n q);
             Some (Some (NODE_EXPR_ARRAY_LIT es), expect fo TOK_RBRACKET (quoted ''expected ~]~ after array elements'') p) }
      else if k = TOK_LBRACE then
        do { (ps, p) \<leftarrow> (if check q TOK_RBRACE then Some ([], q) else parse_pairs fo n q);
             Some (Some (NODE_EXPR_MAP_LIT ps), expect fo TOK_RBRACE (quoted ''expected ~}~ after map pairs'') p) }
      else Some (None, error ''expected expression'' p))"
| "parse_elements fo 0 p = None"
| "parse_elements fo (Suc n) p =
     do { (e, p) \<leftarrow> parse_binary fo n 0 p;
          if check p TOK_COMMA then do { (es, p) \<leftarrow> parse_elements fo n (advance fo p); Some (node_of e # es, p) }
          else Some ([node_of e], p) }"
| "parse_pairs fo 0 p = None"
| "parse_pairs fo (Suc n) p =
     (if \<not> check p TOK_STRING then Some ([], error ''expected string key in map literal'' p)
      else
        (let key = extract_string_content (tk_text (current p)) in
         do { (v, p) \<leftarrow> parse_binary fo n 0 (expect fo TOK_COLON (quoted ''expected ~:~ after map key'') (advance fo p));
              if check p TOK_COMMA then
                do { (ps, p) \<leftarrow> parse_pairs fo n (advance fo p); Some (NODE_EXPR_MAP_PAIR key (node_of v) # ps, p) }
              else Some ([NODE_EXPR_MAP_PAIR key (node_of v)], p) }))"
| "postfix_loop fo 0 e p = None"
| "postfix_loop fo (Suc n) e p =
     (let q = advance fo p in
      if check p TOK_LPAREN then
        do { (es, p) \<leftarrow> (if check q TOK_RPAREN then Some ([], q) else parse_elements fo n q);
             postfix_loop fo n (NODE_EXPR_CALL e es) (expect fo TOK_RPAREN (quoted ''expected ~)~ after arguments'') p) }
      else if check p TOK_LBRACKET then
        do { (i, p) \<leftarrow> parse_binary fo n 0 q;
             postfix_loop fo n (NODE_EXPR_INDEX e (node_of i)) (expect fo TOK_RBRACKET (quoted ''expected ~]~ after index'') p) }
      else if check p TOK_DOT then
        (if \<not> check q TOK_IDENT then Some (Some e, error (quoted ''expected member name after ~.~'') q)
         else
           postfix_loop fo n
             (case e of
                NODE_EXPR_IDENT name \<Rightarrow> NODE_EXPR_QUALIFIED name (tk_text (current q))
              | _ \<Rightarrow> NODE_EXPR_MEMBER e (tk_text (current q)))
             (advance fo q))
      else Some (Some e, p))"
| "bucc_parse_unary_expr fo 0 p = None"
| "bucc_parse_unary_expr fo (Suc n) p =
     (if check p TOK_MINUS then
        do { (e, p) \<leftarrow> bucc_parse_unary_expr fo n (advance fo p); Some (Some (NODE_EXPR_UNARY UNARY_NEG (node_of e)), p) }
      else if check p TOK_KW_NOT then
        do { (e, p) \<leftarrow> bucc_parse_unary_expr fo n (advance fo p); Some (Some (NODE_EXPR_UNARY UNARY_NOT (node_of e)), p) }
      else
        do { (e, p) \<leftarrow> bucc_parse_primary_expr fo n p;
             case e of None \<Rightarrow> Some (None, p) | Some e \<Rightarrow> postfix_loop fo n e p })"
| "parse_binary fo 0 l p = None"
| "parse_binary fo (Suc n) l p =
     (if l = 6 then bucc_parse_unary_expr fo n p
      else do { (e, p) \<leftarrow> parse_binary fo n (Suc l) p; binary_loop fo n l e p })"
| "binary_loop fo 0 l e p = None"
| "binary_loop fo (Suc n) l e p =
     (case binary_op l (kind_at p) of
        None \<Rightarrow> Some (e, p)
      | Some op \<Rightarrow>
          do { (e', p) \<leftarrow> parse_binary fo n (Suc l) (advance fo p);
               binary_loop fo n l (Some (NODE_EXPR_BINARY op (node_of e) (node_of e'))) p })"

  by pat_completeness auto

termination
  by (relation "measure (case_sum (case_sum fuel_of (case_sum fuel_of fuel_of))
      (case_sum (case_sum fuel_of fuel_of) (case_sum fuel_of fuel_of)))") auto

definition bucc_parse_expression :: "float_ops \<Rightarrow> nat \<Rightarrow> bucc_parser_t \<Rightarrow> (bucc_expr option \<times> bucc_parser_t) option" where
  "bucc_parse_expression fo n p = parse_binary fo n 0 p"

section \<open>Types, parameters and variables\<close>

datatype bucc_scalar_type_t = SCALAR_INTEGER | SCALAR_DOUBLE | SCALAR_BOOLEAN | SCALAR_STRING | SCALAR_DATE | SCALAR_DATETIME

datatype bucc_type_ref =
    NODE_TYPE_SCALAR bucc_scalar_type_t
  | NODE_TYPE_ARRAY "bucc_type_ref option"
  | NODE_TYPE_MAP "bucc_type_ref option"

definition scalar_type :: "bucc_token_kind_t \<Rightarrow> bucc_scalar_type_t option" where
  "scalar_type kind =
     (if kind = TOK_KW_INTEGER then Some SCALAR_INTEGER
      else if kind = TOK_KW_DOUBLE then Some SCALAR_DOUBLE
      else if kind = TOK_KW_BOOLEAN then Some SCALAR_BOOLEAN
      else if kind = TOK_KW_STRING then Some SCALAR_STRING
      else if kind = TOK_KW_DATE then Some SCALAR_DATE
      else if kind = TOK_KW_DATETIME then Some SCALAR_DATETIME
      else None)"

fun bucc_parse_type_ref :: "float_ops \<Rightarrow> nat \<Rightarrow> bucc_parser_t \<Rightarrow> (bucc_type_ref option \<times> bucc_parser_t) option" where
  "bucc_parse_type_ref fo 0 p = None"
| "bucc_parse_type_ref fo (Suc n) p =
     (if check p TOK_KW_ARRAY then
        do { (t, p) \<leftarrow> bucc_parse_type_ref fo n (expect fo TOK_KW_OF (quoted ''expected ~OF~ after ~ARRAY~'') (advance fo p));
             Some (Some (NODE_TYPE_ARRAY t), p) }
      else if check p TOK_KW_MAP then
        (let p = expect fo TOK_KW_OF (quoted ''expected ~OF~ after ~MAP~'') (advance fo p);
             p = expect fo TOK_KW_STRING (quoted ''expected ~STRING~ after ~MAP OF~'') p;
             p = expect fo TOK_KW_TO (quoted ''expected ~TO~ after ~MAP OF STRING~'') p
         in do { (t, p) \<leftarrow> bucc_parse_type_ref fo n p; Some (Some (NODE_TYPE_MAP t), p) })
      else
        (case scalar_type (kind_at p) of
           Some t \<Rightarrow> Some (Some (NODE_TYPE_SCALAR t), advance fo p)
         | None \<Rightarrow> Some (None, error ''expected type name'' p)))"

fun parse_params :: "float_ops \<Rightarrow> nat \<Rightarrow> bucc_parser_t \<Rightarrow> (bytes list \<times> bucc_parser_t) option" where
  "parse_params fo 0 p = None"
| "parse_params fo (Suc n) p =
     (if \<not> check p TOK_IDENT then Some ([], error ''expected parameter name'' p)
      else
        (let name = tk_text (current p);
             p = expect fo TOK_KW_AS (quoted ''expected ~AS~ after parameter name'') (advance fo p)
         in do { (t, p) \<leftarrow> bucc_parse_type_ref fo n p;
                 if check p TOK_COMMA then do { (names, p) \<leftarrow> parse_params fo n (advance fo p); Some (name # names, p) }
                 else Some ([name], p) }))"

definition bucc_parse_param_list :: "float_ops \<Rightarrow> nat \<Rightarrow> bucc_parser_t \<Rightarrow> (bytes list \<times> bucc_parser_t) option" where
  "bucc_parse_param_list fo n p = (if check p TOK_RPAREN then Some ([], p) else parse_params fo n p)"

text \<open>A variable is its name and the initial value, if there is one.\<close>

definition bucc_parse_var_decl ::
    "float_ops \<Rightarrow> nat \<Rightarrow> bucc_parser_t \<Rightarrow> ((bytes \<times> bucc_expr option) option \<times> bucc_parser_t) option" where
  "bucc_parse_var_decl fo n p =
     (let p = expect fo TOK_KW_DIM (quoted ''expected ~DIM~'') p in
      if \<not> check p TOK_IDENT then Some (None, error ''expected variable name'' p)
      else
        (let name = tk_text (current p);
             p = expect fo TOK_KW_AS (quoted ''expected ~AS~ after variable name'') (advance fo p)
         in do { (t, p) \<leftarrow> bucc_parse_type_ref fo n p;
                 if check p TOK_EQ then
                   do { (e, p) \<leftarrow> bucc_parse_expression fo n (advance fo p); Some (Some (name, e), p) }
                 else Some (Some (name, None), p) }))"

section \<open>Statements\<close>

definition stmt_at :: "bucc_parser_t \<Rightarrow> bucc_stmt_node \<Rightarrow> bucc_stmt" where
  "stmt_at p s = Stmt (sp_start_line (tk_span (current p))) (sp_start_col (tk_span (current p))) s"

text \<open>The values and ranges of a \<open>CASE\<close>, and the procedures behind \<open>ON ... CALL\<close>.\<close>

fun parse_case_values ::
    "float_ops \<Rightarrow> nat \<Rightarrow> bucc_parser_t \<Rightarrow> (bucc_expr list \<times> bucc_expr list \<times> bucc_expr list \<times> bucc_parser_t) option" where
  "parse_case_values fo 0 p = None"
| "parse_case_values fo (Suc n) p =
     do { (v, p) \<leftarrow> bucc_parse_expression fo n p;
          (vs, los, his, p) \<leftarrow>
            (if check p TOK_KW_TO then
               do { (h, p) \<leftarrow> bucc_parse_expression fo n (advance fo p); Some ([], [node_of v], [node_of h], p) }
             else Some ([node_of v], [], [], p));
          if check p TOK_COMMA then
            do { (vs', los', his', p) \<leftarrow> parse_case_values fo n (advance fo p); Some (vs @ vs', los @ los', his @ his', p) }
          else Some (vs, los, his, p) }"

fun parse_targets :: "float_ops \<Rightarrow> nat \<Rightarrow> bucc_parser_t \<Rightarrow> (bucc_expr list \<times> bucc_parser_t) option" where
  "parse_targets fo 0 p = None"
| "parse_targets fo (Suc n) p =
     (if \<not> check p TOK_IDENT then Some ([], error ''expected procedure name'' p)
      else
        (let e = NODE_EXPR_IDENT (tk_text (current p)); p = advance fo p in
         if check p TOK_COMMA then do { (es, p) \<leftarrow> parse_targets fo n (advance fo p); Some (e # es, p) }
         else Some ([e], p)))"

text \<open>
  \<open>parse_stmts\<close> is the loop over the statements of a block, up to a token that ends it; in the body of a procedure
  (\<open>bucc_parse_block\<close>) the parser synchronizes after a statement with an error.
\<close>

function (sequential) parse_stmts ::
    "float_ops \<Rightarrow> nat \<Rightarrow> bool \<Rightarrow> bucc_token_kind_t list \<Rightarrow> bucc_parser_t \<Rightarrow> (bucc_stmt list \<times> bucc_parser_t) option"
  and parse_elseifs :: "float_ops \<Rightarrow> nat \<Rightarrow> bucc_parser_t \<Rightarrow> (bucc_elseif list \<times> bucc_parser_t) option"
  and parse_cases :: "float_ops \<Rightarrow> nat \<Rightarrow> bucc_parser_t \<Rightarrow> (bucc_case list \<times> bucc_stmt list \<times> bucc_parser_t) option"
  and bucc_parse_if_stmt :: "float_ops \<Rightarrow> nat \<Rightarrow> bucc_parser_t \<Rightarrow> (bucc_stmt option \<times> bucc_parser_t) option"
  and bucc_parse_select_stmt :: "float_ops \<Rightarrow> nat \<Rightarrow> bucc_parser_t \<Rightarrow> (bucc_stmt option \<times> bucc_parser_t) option"
  and bucc_parse_while_stmt :: "float_ops \<Rightarrow> nat \<Rightarrow> bucc_parser_t \<Rightarrow> (bucc_stmt option \<times> bucc_parser_t) option"
  and bucc_parse_do_loop_stmt :: "float_ops \<Rightarrow> nat \<Rightarrow> bucc_parser_t \<Rightarrow> (bucc_stmt option \<times> bucc_parser_t) option"
  and bucc_parse_for_stmt :: "float_ops \<Rightarrow> nat \<Rightarrow> bucc_parser_t \<Rightarrow> (bucc_stmt option \<times> bucc_parser_t) option"
  and bucc_parse_try_catch_stmt :: "float_ops \<Rightarrow> nat \<Rightarrow> bucc_parser_t \<Rightarrow> (bucc_stmt option \<times> bucc_parser_t) option"
  and bucc_parse_statement :: "float_ops \<Rightarrow> nat \<Rightarrow> bucc_parser_t \<Rightarrow> (bucc_stmt option \<times> bucc_parser_t) option" where
  "parse_stmts fo 0 sync stops p = None"
| "parse_stmts fo (Suc n) sync stops p =
     (if kind_at p \<in> set stops \<or> check p TOK_EOF then Some ([], p)
      else
        (let p = skip_newlines fo p in
         if kind_at p \<in> set stops then Some ([], p)
         else
           do { (s, p) \<leftarrow> bucc_parse_statement fo n p;
                (ss, p) \<leftarrow> parse_stmts fo n sync stops (if sync \<and> ps_panic_mode p then synchronize fo p else p);
                Some (case s of Some s \<Rightarrow> s # ss | None \<Rightarrow> ss, p) }))"
| "parse_elseifs fo 0 p = None"
| "parse_elseifs fo (Suc n) p =
     (if check p TOK_KW_ELSEIF then
        do { (c, p) \<leftarrow> bucc_parse_expression fo n (advance fo p);
             (ss, p) \<leftarrow> parse_stmts fo n False [TOK_KW_ELSEIF, TOK_KW_ELSE, TOK_KW_END]
                (expect_newline fo (expect fo TOK_KW_THEN (quoted ''expected ~THEN~ after ELSEIF condition'') p));
             (cs, p) \<leftarrow> parse_elseifs fo n p;
             Some (ElseIf (node_of c) ss # cs, p) }
      else Some ([], p))"
| "parse_cases fo 0 p = None"
| "parse_cases fo (Suc n) p =
     (if \<not> check p TOK_KW_CASE then Some ([], [], p)
      else
        (let p = advance fo p in
         if check p TOK_KW_ELSE then
           do { (ss, p) \<leftarrow> parse_stmts fo n False [TOK_KW_END] (expect_newline fo (advance fo p)); Some ([], ss, p) }
         else
           do { (vs, los, his, p) \<leftarrow> parse_case_values fo n p;
                (ss, p) \<leftarrow> parse_stmts fo n False [TOK_KW_CASE, TOK_KW_END] (expect_newline fo p);
                (cs, elses, p) \<leftarrow> parse_cases fo n (skip_newlines fo p);
                Some (NODE_STMT_CASE vs los his ss # cs, elses, p) }))"
| "bucc_parse_if_stmt fo 0 p = None"
| "bucc_parse_if_stmt fo (Suc n) p =
     do { (c, q) \<leftarrow> bucc_parse_expression fo n (expect fo TOK_KW_IF (quoted ''expected ~IF~'') p);
          (thens, q) \<leftarrow> parse_stmts fo n False [TOK_KW_ELSEIF, TOK_KW_ELSE, TOK_KW_END]
             (expect_newline fo (expect fo TOK_KW_THEN (quoted ''expected ~THEN~ after condition'') q));
          (cs, q) \<leftarrow> parse_elseifs fo n q;
          (elses, q) \<leftarrow>
            (if check q TOK_KW_ELSE then parse_stmts fo n False [TOK_KW_END] (expect_newline fo (advance fo q)) else Some ([], q));
          Some (Some (stmt_at p (NODE_STMT_IF (node_of c) thens cs elses)),
            expect_newline fo (expect fo TOK_KW_IF (quoted ''expected ~IF~ after ~END~'')
              (expect fo TOK_KW_END (quoted ''expected ~END IF~'') q))) }"
| "bucc_parse_select_stmt fo 0 p = None"
| "bucc_parse_select_stmt fo (Suc n) p =
     do { (e, q) \<leftarrow> bucc_parse_expression fo n
             (expect fo TOK_KW_CASE (quoted ''expected ~CASE~ after ~SELECT~'') (expect fo TOK_KW_SELECT (quoted ''expected ~SELECT~'') p));
          (cs, elses, q) \<leftarrow> parse_cases fo n (skip_newlines fo (expect_newline fo q));
          Some (Some (stmt_at p (NODE_STMT_SELECT (node_of e) cs elses)),
            expect_newline fo (expect fo TOK_KW_SELECT (quoted ''expected ~SELECT~ after ~END~'')
              (expect fo TOK_KW_END (quoted ''expected ~END SELECT~'') q))) }"
| "bucc_parse_while_stmt fo 0 p = None"
| "bucc_parse_while_stmt fo (Suc n) p =
     do { (c, q) \<leftarrow> bucc_parse_expression fo n (expect fo TOK_KW_WHILE (quoted ''expected ~WHILE~'') p);
          (ss, q) \<leftarrow> parse_stmts fo n False [TOK_KW_WEND] (expect_newline fo q);
          Some (Some (stmt_at p (NODE_STMT_WHILE (node_of c) ss)),
            expect_newline fo (expect fo TOK_KW_WEND (quoted ''expected ~WEND~'') q)) }"
| "bucc_parse_do_loop_stmt fo 0 p = None"
| "bucc_parse_do_loop_stmt fo (Suc n) p =
     do { (ss, q) \<leftarrow> parse_stmts fo n False [TOK_KW_LOOP] (expect_newline fo (expect fo TOK_KW_DO (quoted ''expected ~DO~'') p));
          (c, loop, q) \<leftarrow>
            (let q = expect fo TOK_KW_LOOP (quoted ''expected ~LOOP~'') q in
             if check q TOK_KW_UNTIL then
               do { (c, q) \<leftarrow> bucc_parse_expression fo n (advance fo q); Some (Some (node_of c), LOOP_UNTIL, q) }
             else if check q TOK_KW_WHILE then
               do { (c, q) \<leftarrow> bucc_parse_expression fo n (advance fo q); Some (Some (node_of c), LOOP_WHILE, q) }
             else Some (None, LOOP_PLAIN, q));
          Some (Some (stmt_at p (NODE_STMT_DO_LOOP ss c loop)), expect_newline fo q) }"
| "bucc_parse_for_stmt fo 0 p = None"
| "bucc_parse_for_stmt fo (Suc n) p =
     (let q = expect fo TOK_KW_FOR (quoted ''expected ~FOR~'') p in
      if \<not> check q TOK_IDENT then Some (None, error ''expected loop variable'' q)
      else
        (let var = tk_text (current q) in
         do { (a, q) \<leftarrow> bucc_parse_expression fo n (expect fo TOK_EQ (quoted ''expected ~=~ after loop variable'') (advance fo q));
              (b, q) \<leftarrow> bucc_parse_expression fo n (expect fo TOK_KW_TO (quoted ''expected ~TO~'') q);
              (c, q) \<leftarrow>
                (if check q TOK_KW_STEP then
                   do { (c, q) \<leftarrow> bucc_parse_expression fo n (advance fo q); Some (Some (node_of c), q) }
                 else Some (None, q));
              (ss, q) \<leftarrow> parse_stmts fo n False [TOK_KW_NEXT] (expect_newline fo q);
              let q = expect fo TOK_KW_NEXT (quoted ''expected ~NEXT~'') q;
              Some (Some (stmt_at p (NODE_STMT_FOR var (node_of a) (node_of b) c ss)),
                expect_newline fo (if check q TOK_IDENT then advance fo q else q)) }))"
| "bucc_parse_try_catch_stmt fo 0 p = None"
| "bucc_parse_try_catch_stmt fo (Suc n) p =
     do { (ss, q) \<leftarrow> parse_stmts fo n False [TOK_KW_CATCH] (expect_newline fo (expect fo TOK_KW_TRY (quoted ''expected ~TRY~'') p));
          let q = expect fo TOK_KW_CATCH (quoted ''expected ~CATCH~'') q;
          let var = (if check q TOK_IDENT then Some (tk_text (current q)) else None);
          (cs, q) \<leftarrow> parse_stmts fo n False [TOK_KW_END] (expect_newline fo (if check q TOK_IDENT then advance fo q else q));
          Some (Some (stmt_at p (NODE_STMT_TRY_CATCH ss var cs)),
            expect_newline fo (expect fo TOK_KW_TRY (quoted ''expected ~TRY~ after ~END~'')
              (expect fo TOK_KW_END (quoted ''expected ~END TRY~'') q))) }"
| "bucc_parse_statement fo 0 p = None"
| "bucc_parse_statement fo (Suc n) p =
     (let p = skip_newlines fo p; k = kind_at p; q = advance fo p in
      if k = TOK_EOF then Some (None, p)
      else if k = TOK_KW_DIM then
        do { (d, q) \<leftarrow> bucc_parse_var_decl fo n p;
             Some (Some (stmt_at p (case d of Some (name, e) \<Rightarrow> NODE_STMT_VAR_DECL name e | None \<Rightarrow> NODE_STMT_OTHER)),
               expect_newline fo q) }
      else if k = TOK_KW_IF then bucc_parse_if_stmt fo n p
      else if k = TOK_KW_SELECT then bucc_parse_select_stmt fo n p
      else if k = TOK_KW_WHILE then bucc_parse_while_stmt fo n p
      else if k = TOK_KW_DO then bucc_parse_do_loop_stmt fo n p
      else if k = TOK_KW_FOR then bucc_parse_for_stmt fo n p
      else if k = TOK_KW_TRY then bucc_parse_try_catch_stmt fo n p
      else if k = TOK_KW_RETURN then
        (if \<not> check q TOK_NEWLINE \<and> \<not> check q TOK_EOF \<and> \<not> check q TOK_COMMENT then
           do { (e, q) \<leftarrow> bucc_parse_expression fo n q;
                Some (Some (stmt_at p (NODE_STMT_RETURN (Some (node_of e)))), expect_newline fo q) }
         else Some (Some (stmt_at p (NODE_STMT_RETURN None)), expect_newline fo q))
      else if k = TOK_KW_EXIT then
        (if kind_at q \<in> {TOK_KW_FOR, TOK_KW_DO, TOK_KW_WHILE, TOK_KW_SELECT} then
           Some (Some (stmt_at p NODE_STMT_EXIT), expect_newline fo (advance fo q))
         else Some (None, error ''expected FOR, DO, WHILE, or SELECT after EXIT'' q))
      else if k = TOK_KW_HALT then Some (Some (stmt_at p NODE_STMT_HALT), expect_newline fo q)
      else if k = TOK_KW_THROW then
        do { (e, q) \<leftarrow> bucc_parse_expression fo n q; Some (Some (stmt_at p (NODE_STMT_THROW (node_of e))), expect_newline fo q) }
      else if k = TOK_KW_CHAIN then
        (if \<not> check q TOK_STRING then Some (None, error ''expected string literal after CHAIN'' q)
         else
           (let target = extract_string_content (tk_text (current q)); q = advance fo q in
            if check q TOK_COMMA then
              do { (e, q) \<leftarrow> bucc_parse_expression fo n (advance fo q);
                   Some (Some (stmt_at p (NODE_STMT_CHAIN target e)), expect_newline fo q) }
            else Some (Some (stmt_at p (NODE_STMT_CHAIN target None)), expect_newline fo q)))
      else if k = TOK_KW_ON then
        do { (e, q) \<leftarrow> bucc_parse_expression fo n q;
             (ts, q) \<leftarrow> parse_targets fo n (expect fo TOK_KW_CALL (quoted ''expected ~CALL~ after ON expression'') q);
             Some (Some (stmt_at p (NODE_STMT_ON_CALL (node_of e) ts)), expect_newline fo q) }
      else
        (let q = (if k = TOK_KW_LET then q else p); q = (if check q TOK_KW_CALL then advance fo q else q) in
         do { (e, q) \<leftarrow> bucc_parse_expression fo n q;
              case e of
                None \<Rightarrow> Some (None, synchronize fo q)
              | Some e \<Rightarrow>
                  if check q TOK_EQ then
                    do { (v, q) \<leftarrow> bucc_parse_expression fo n (advance fo q);
                         Some (Some (stmt_at p (NODE_STMT_ASSIGN e (node_of v))), expect_newline fo q) }
                  else Some (Some (stmt_at p (NODE_STMT_EXPR e)), expect_newline fo q) }))"
  by pat_completeness auto

termination
  by (relation "measure (case_sum
      (case_sum (case_sum fuel_of fuel_of) (case_sum fuel_of (case_sum fuel_of fuel_of)))
      (case_sum (case_sum fuel_of fuel_of) (case_sum fuel_of (case_sum fuel_of fuel_of))))") auto

definition bucc_parse_block :: "float_ops \<Rightarrow> nat \<Rightarrow> bucc_parser_t \<Rightarrow> (bucc_stmt list \<times> bucc_parser_t) option" where
  "bucc_parse_block fo n p = parse_stmts fo n True [TOK_KW_END] p"

section \<open>Modules\<close>

definition bucc_parse_procedure :: "float_ops \<Rightarrow> nat \<Rightarrow> bucc_parser_t \<Rightarrow> (bucc_decl option \<times> bucc_parser_t) option" where
  "bucc_parse_procedure fo n p =
     (let p = expect fo TOK_KW_SUB (quoted ''expected ~SUB~'') p in
      if \<not> check p TOK_IDENT then Some (None, error ''expected procedure name'' p)
      else
        (let name = tk_text (current p) in
         do { (params, p) \<leftarrow>
                bucc_parse_param_list fo n (expect fo TOK_LPAREN (quoted ''expected ~(~ after procedure name'') (advance fo p));
              (body, p) \<leftarrow>
                bucc_parse_block fo n (expect_newline fo (expect fo TOK_RPAREN (quoted ''expected ~)~ after parameters'') p));
              Some (Some (NODE_PROC_DECL name params body),
                expect_newline fo (expect fo TOK_KW_SUB (quoted ''expected ~SUB~ after ~END~'')
                  (expect fo TOK_KW_END (quoted ''expected ~END SUB~'') p))) }))"

definition bucc_parse_function :: "float_ops \<Rightarrow> nat \<Rightarrow> bucc_parser_t \<Rightarrow> (bucc_decl option \<times> bucc_parser_t) option" where
  "bucc_parse_function fo n p =
     (let p = expect fo TOK_KW_FUNCTION (quoted ''expected ~FUNCTION~'') p in
      if \<not> check p TOK_IDENT then Some (None, error ''expected function name'' p)
      else
        (let name = tk_text (current p) in
         do { (params, p) \<leftarrow>
                bucc_parse_param_list fo n (expect fo TOK_LPAREN (quoted ''expected ~(~ after function name'') (advance fo p));
              (t, p) \<leftarrow> bucc_parse_type_ref fo n
                (expect fo TOK_KW_AS (quoted ''expected ~AS~ after parameters'') (expect fo TOK_RPAREN (quoted ''expected ~)~ after parameters'') p));
              (body, p) \<leftarrow> bucc_parse_block fo n (expect_newline fo p);
              Some (Some (NODE_FUNC_DECL name params body),
                expect_newline fo (expect fo TOK_KW_FUNCTION (quoted ''expected ~FUNCTION~ after ~END~'')
                  (expect fo TOK_KW_END (quoted ''expected ~END FUNCTION~'') p))) }))"

datatype bucc_meta =
    NODE_META_PROGRAM bytes | NODE_META_VERSION bytes | NODE_META_AUTHOR bytes | NODE_META_DESCRIPTION bytes
  | NODE_META_CAPABILITY bytes | NODE_META_OPTION bytes "bytes option" | NODE_META_DATASET bytes

definition parse_meta_string ::
    "float_ops \<Rightarrow> (bytes \<Rightarrow> bucc_meta) \<Rightarrow> string \<Rightarrow> bucc_parser_t \<Rightarrow> bucc_meta option \<times> bucc_parser_t" where
  "parse_meta_string fo meta msg p =
     (let q = advance fo p in
      if \<not> check q TOK_STRING then (None, error msg q)
      else (Some (meta (extract_string_content (tk_text (current q)))), expect_newline fo (advance fo q)))"

definition bucc_parse_metadata :: "float_ops \<Rightarrow> bucc_parser_t \<Rightarrow> bucc_meta option \<times> bucc_parser_t" where
  "bucc_parse_metadata fo p =
     (if check p TOK_KW_PROGRAM then parse_meta_string fo NODE_META_PROGRAM ''expected string after PROGRAM'' p
      else if check p TOK_KW_VERSION then parse_meta_string fo NODE_META_VERSION ''expected string after VERSION'' p
      else if check p TOK_KW_AUTHOR then parse_meta_string fo NODE_META_AUTHOR ''expected string after AUTHOR'' p
      else if check p TOK_KW_DESCRIPTION then parse_meta_string fo NODE_META_DESCRIPTION ''expected string after DESCRIPTION'' p
      else if check p TOK_KW_CAPABILITY then parse_meta_string fo NODE_META_CAPABILITY ''expected string after CAPABILITY'' p
      else if check p TOK_KW_OPTION then
        (let q = advance fo p in
         if \<not> check q TOK_IDENT then (None, error ''expected option name'' q)
         else
           (let name = tk_text (current q); q = advance fo q in
            if check q TOK_STRING then
              (Some (NODE_META_OPTION name (Some (extract_string_content (tk_text (current q))))), expect_newline fo (advance fo q))
            else (Some (NODE_META_OPTION name None), expect_newline fo q)))
      else if check p TOK_KW_DATASET then
        (let q = advance fo p in
         if \<not> check q TOK_IDENT then (None, error ''expected dataset name'' q)
         else (Some (NODE_META_DATASET (tk_text (current q))), expect_newline fo (advance fo q)))
      else (None, p))"

definition meta_kinds :: "bucc_token_kind_t list" where
  "meta_kinds = [TOK_KW_PROGRAM, TOK_KW_VERSION, TOK_KW_AUTHOR, TOK_KW_DESCRIPTION, TOK_KW_CAPABILITY, TOK_KW_OPTION, TOK_KW_DATASET]"

fun parse_metas :: "float_ops \<Rightarrow> nat \<Rightarrow> bucc_parser_t \<Rightarrow> (bucc_meta list \<times> bucc_parser_t) option" where
  "parse_metas fo 0 p = None"
| "parse_metas fo (Suc n) p =
     (if kind_at p \<in> set meta_kinds then
        (case bucc_parse_metadata fo p of
           (m, p) \<Rightarrow> do { (ms, p) \<leftarrow> parse_metas fo n (skip_newlines fo p); Some (case m of Some m \<Rightarrow> m # ms | None \<Rightarrow> ms, p) })
      else Some ([], p))"

fun parse_globals :: "float_ops \<Rightarrow> nat \<Rightarrow> bucc_parser_t \<Rightarrow> (bytes list \<times> bucc_parser_t) option" where
  "parse_globals fo 0 p = None"
| "parse_globals fo (Suc n) p =
     (if check p TOK_KW_DIM then
        do { (d, p) \<leftarrow> bucc_parse_var_decl fo n p;
             (gs, p) \<leftarrow> parse_globals fo n (skip_newlines fo (expect_newline fo p));
             Some (case d of Some (name, _) \<Rightarrow> name # gs | None \<Rightarrow> gs, p) }
      else Some ([], p))"

fun parse_decls :: "float_ops \<Rightarrow> nat \<Rightarrow> bucc_parser_t \<Rightarrow> (bucc_decl list \<times> bucc_parser_t) option" where
  "parse_decls fo 0 p = None"
| "parse_decls fo (Suc n) p =
     (if check p TOK_EOF then Some ([], p)
      else
        (let p = skip_newlines fo p in
         if check p TOK_EOF then Some ([], p)
         else
           do { (d, p) \<leftarrow>
                  (if check p TOK_KW_SUB then bucc_parse_procedure fo n p
                   else if check p TOK_KW_FUNCTION then bucc_parse_function fo n p
                   else Some (None, synchronize fo (error ''expected SUB or FUNCTION declaration'' p)));
                (ds, p) \<leftarrow> parse_decls fo n p;
                Some (case d of Some d \<Rightarrow> d # ds | None \<Rightarrow> ds, p) }))"

definition bucc_parse_module ::
    "float_ops \<Rightarrow> nat \<Rightarrow> bucc_parser_t \<Rightarrow> (bucc_meta list \<times> bucc_ast_module \<times> bucc_parser_t) option" where
  "bucc_parse_module fo n p =
     do { (metas, p) \<leftarrow> parse_metas fo n (skip_newlines fo p);
          (gs, p) \<leftarrow> parse_globals fo n p;
          (ds, p) \<leftarrow> parse_decls fo n p;
          Some (metas, \<lparr>ast_globals = gs, ast_procedures = ds\<rparr>, p) }"

text \<open>The source text to the syntax tree, as \<open>compile_source\<close> runs it; the result says whether errors were reported.\<close>

definition parse_source :: "float_ops \<Rightarrow> nat \<Rightarrow> bytes \<Rightarrow> u32 \<Rightarrow> (bucc_meta list \<times> bucc_ast_module \<times> bool) option" where
  "parse_source fo n source file =
     do { (metas, m, p) \<leftarrow> bucc_parse_module fo n
            (bucc_parser_init fo (bucc_lexer_init source file \<lparr>d_entries = [], d_error_count = 0\<rparr>));
          Some (metas, m, bucc_diag_has_errors (lx_diag (ps_lexer p))) }"

end
