(* ===== verification/Bucc_Grammar.thy ===== *)
theory Bucc_Grammar
  imports Bucc_Tokens Bucc_Parser Bucc_Machine
begin

text \<open>
  The language that the parser of Buccaneer accepts: expressions are read with their precedence, assignments never are, and
  on some sources the parser does not return.

  \<^item> \<open>expr_words\<close> writes an expression with as few parentheses as the grammar allows. \<open>reads\<close>, \<open>reads_loop\<close> and \<open>reads_operand\<close>
    say that the functions of the parser get back an expression from its words; \<open>placed\<close> is what an induction over the
    tree proves.
  \<^item> \<open>enough\<close> says that a statement about the fuel holds from some number on.
  \<^item> \<open>yields\<close> says that every result of a parsing function has a property; \<open>yields_rules\<close> takes the functions apart.
\<close>

section \<open>Writing expressions\<close>

text \<open>The predicates on token kinds and the levels of the parser agree on the operators.\<close>

lemma operator_kinds:
  "binary_op 2 k \<noteq> None \<or> binary_op 3 k \<noteq> None \<longleftrightarrow> bucc_token_is_comparison k"
  "binary_op 4 k \<noteq> None \<longleftrightarrow> bucc_token_is_additive k"
  "binary_op 5 k \<noteq> None \<longleftrightarrow> bucc_token_is_multiplicative k"
  by (auto simp: binary_op_def bucc_token_is_comparison_def bucc_token_is_additive_def bucc_token_is_multiplicative_def)

fun op_level :: "bucc_binary_op_t \<Rightarrow> nat" where
  "op_level BINARY_OR = 0"
| "op_level BINARY_AND = 1"
| "op_level BINARY_EQ = 2"
| "op_level BINARY_NE = 2"
| "op_level BINARY_LT = 3"
| "op_level BINARY_LE = 3"
| "op_level BINARY_GT = 3"
| "op_level BINARY_GE = 3"
| "op_level BINARY_ADD = 4"
| "op_level BINARY_SUB = 4"
| "op_level BINARY_MUL = 5"
| "op_level BINARY_DIV = 5"
| "op_level BINARY_MOD = 5"
| "op_level BINARY_CONCAT = 6"

fun op_word :: "bucc_binary_op_t \<Rightarrow> bucc_word" where
  "op_word BINARY_OR = Fixed (ascii ''OR'') TOK_KW_OR"
| "op_word BINARY_AND = Fixed (ascii ''AND'') TOK_KW_AND"
| "op_word BINARY_EQ = Fixed (ascii ''='') TOK_EQ"
| "op_word BINARY_NE = Fixed (ascii ''<>'') TOK_NE"
| "op_word BINARY_LT = Fixed (ascii ''<'') TOK_LT"
| "op_word BINARY_LE = Fixed (ascii ''<='') TOK_LE"
| "op_word BINARY_GT = Fixed (ascii ''>'') TOK_GT"
| "op_word BINARY_GE = Fixed (ascii ''>='') TOK_GE"
| "op_word BINARY_ADD = Fixed (ascii ''+'') TOK_PLUS"
| "op_word BINARY_SUB = Fixed (ascii ''-'') TOK_MINUS"
| "op_word BINARY_MUL = Fixed (ascii ''*'') TOK_STAR"
| "op_word BINARY_DIV = Fixed (ascii ''/'') TOK_SLASH"
| "op_word BINARY_MOD = Fixed (ascii ''MOD'') TOK_KW_MOD"
| "op_word BINARY_CONCAT = Fixed [] TOK_ERROR"

fun expr_level :: "bucc_expr \<Rightarrow> nat" where
  "expr_level (NODE_EXPR_BINARY op _ _) = op_level op"
| "expr_level (NODE_EXPR_UNARY _ _) = 6"
| "expr_level _ = 7"

abbreviation "LPAREN \<equiv> Fixed (ascii ''('') TOK_LPAREN"
abbreviation "RPAREN \<equiv> Fixed (ascii '')'') TOK_RPAREN"
abbreviation "LBRACKET \<equiv> Fixed (ascii ''['') TOK_LBRACKET"
abbreviation "RBRACKET \<equiv> Fixed (ascii '']'') TOK_RBRACKET"
abbreviation "COMMA \<equiv> Fixed (ascii '','') TOK_COMMA"
abbreviation "DOT \<equiv> Fixed (ascii ''.'') TOK_DOT"

definition in_parens :: "bool \<Rightarrow> bucc_word list \<Rightarrow> bucc_word list" where
  "in_parens b ws = (if b then [LPAREN] @ ws @ [RPAREN] else ws)"

text \<open>
  An expression as words, with parentheses only where an operand binds weaker than its place requires. The operators of a level
  associate to the left.
\<close>

fun literal_words :: "bucc_literal \<Rightarrow> bucc_word list" where
  "literal_words LNull = [Fixed (ascii ''NULL'') TOK_KW_NULL]"
| "literal_words (LBool b) = [if b then Fixed (ascii ''TRUE'') TOK_KW_TRUE else Fixed (ascii ''FALSE'') TOK_KW_FALSE]"
| "literal_words (LI64 n) = [Number (unat n)]"
| "literal_words (LString s) = [Quoted s]"
| "literal_words _ = []"

fun expr_words :: "bucc_expr \<Rightarrow> bucc_word list"
  and list_words :: "bucc_expr list \<Rightarrow> bucc_word list" where
  "expr_words (NODE_EXPR_LITERAL l) = literal_words l"
| "expr_words (NODE_EXPR_IDENT name) = [Name name]"
| "expr_words (NODE_EXPR_QUALIFIED ns name) = [Name ns, DOT, Name name]"
| "expr_words (NODE_EXPR_CALL f es) = in_parens (expr_level f < 7) (expr_words f) @ [LPAREN] @ list_words es @ [RPAREN]"
| "expr_words (NODE_EXPR_UNARY op e) =
     [case op of UNARY_NEG \<Rightarrow> Fixed (ascii ''-'') TOK_MINUS | UNARY_NOT \<Rightarrow> Fixed (ascii ''NOT'') TOK_KW_NOT] @
     in_parens (expr_level e < 6) (expr_words e)"
| "expr_words (NODE_EXPR_BINARY op a b) =
     in_parens (expr_level a < op_level op) (expr_words a) @ [op_word op] @ in_parens (expr_level b < Suc (op_level op)) (expr_words b)"
| "expr_words (NODE_EXPR_INDEX a i) = in_parens (expr_level a < 7) (expr_words a) @ [LBRACKET] @ expr_words i @ [RBRACKET]"
| "expr_words (NODE_EXPR_MEMBER a m) = in_parens (expr_level a < 7) (expr_words a) @ [DOT, Name m]"
| "expr_words (NODE_EXPR_ARRAY_LIT es) = [LBRACKET] @ list_words es @ [RBRACKET]"
| "expr_words (NODE_EXPR_MAP_LIT _) = []"
| "expr_words NODE_EXPR_OTHER = []"
| "list_words [] = []"
| "list_words (e # es) = expr_words e @ (if es = [] then [] else [COMMA] @ list_words es)"

text \<open>
  The expressions that can be written: numbers that are not negative, strings without NUL, names that are no keywords. A map with
  entries cannot be written, nor can the member of a plain name, which is a qualified name.
\<close>

fun writable_literal :: "bucc_literal \<Rightarrow> bool" where
  "writable_literal LNull \<longleftrightarrow> True"
| "writable_literal (LBool b) \<longleftrightarrow> True"
| "writable_literal (LI64 n) \<longleftrightarrow> unat n < 2 ^ 63"
| "writable_literal (LString s) \<longleftrightarrow> 0 \<notin> set s"
| "writable_literal _ \<longleftrightarrow> False"

fun writable :: "bucc_expr \<Rightarrow> bool"
  and all_writable :: "bucc_expr list \<Rightarrow> bool" where
  "writable (NODE_EXPR_LITERAL l) \<longleftrightarrow> writable_literal l"
| "writable (NODE_EXPR_IDENT name) \<longleftrightarrow> good_word (Name name)"
| "writable (NODE_EXPR_QUALIFIED ns name) \<longleftrightarrow> good_word (Name ns) \<and> good_word (Name name)"
| "writable (NODE_EXPR_CALL f es) \<longleftrightarrow> writable f \<and> all_writable es"
| "writable (NODE_EXPR_UNARY op e) \<longleftrightarrow> writable e"
| "writable (NODE_EXPR_BINARY op a b) \<longleftrightarrow> op \<noteq> BINARY_CONCAT \<and> writable a \<and> writable b"
| "writable (NODE_EXPR_INDEX a i) \<longleftrightarrow> writable a \<and> writable i"
| "writable (NODE_EXPR_MEMBER a m) \<longleftrightarrow> writable a \<and> good_word (Name m) \<and> (case a of NODE_EXPR_IDENT _ \<Rightarrow> False | _ \<Rightarrow> True)"
| "writable (NODE_EXPR_ARRAY_LIT es) \<longleftrightarrow> all_writable es"
| "writable (NODE_EXPR_MAP_LIT _) \<longleftrightarrow> False"
| "writable NODE_EXPR_OTHER \<longleftrightarrow> False"
| "all_writable [] \<longleftrightarrow> True"
| "all_writable (e # es) \<longleftrightarrow> writable e \<and> all_writable es"

section \<open>Enough fuel\<close>

definition enough :: "(nat \<Rightarrow> bool) \<Rightarrow> bool" where
  "enough P \<longleftrightarrow> (\<exists>N. \<forall>n \<ge> N. P n)"

lemma enough_True [simp]: "enough (\<lambda>_. True)"
  by (simp add: enough_def)

lemma enough_mono: "enough P \<Longrightarrow> (\<And>n. P n \<Longrightarrow> Q n) \<Longrightarrow> enough Q"
  unfolding enough_def by blast

lemma enough_conj: "enough P \<Longrightarrow> enough Q \<Longrightarrow> enough (\<lambda>n. P n \<and> Q n)"
  unfolding enough_def by (metis max.boundedE)

lemma enough_Suc: "enough P \<Longrightarrow> (\<And>n. P n \<Longrightarrow> Q (Suc n)) \<Longrightarrow> enough Q"
  unfolding enough_def by (metis Suc_le_D Suc_le_mono)

lemma enough_Suc2:
  assumes "enough P" "enough Q" "\<And>n. P n \<Longrightarrow> Q n \<Longrightarrow> R (Suc n)"
  shows "enough R"
  using enough_Suc [OF enough_conj [OF assms(1,2)]] assms(3) by blast

section \<open>The parser in front of words\<close>

definition at :: "bucc_parser_t \<Rightarrow> bucc_word list \<Rightarrow> bool" where
  "at p ws \<longleftrightarrow> feeds (ps_lexer p) ws"

primrec skip :: "float_ops \<Rightarrow> bucc_word list \<Rightarrow> bucc_parser_t \<Rightarrow> bucc_parser_t" where
  "skip fo [] p = p"
| "skip fo (w # ws) p = skip fo ws (advance fo p)"

lemma skip_append [simp]: "skip fo (vs @ ws) p = skip fo ws (skip fo vs p)"
  by (induction vs arbitrary: p) simp_all

lemma at_advance: "at p (w # ws) \<Longrightarrow> at (advance fo p) ws"
  unfolding at_def advance_def using feeds_next by auto

lemma at_skip: "at p (ws @ rest) \<Longrightarrow> at (skip fo ws p) rest"
  by (induction ws arbitrary: p) (auto dest: at_advance)

lemma at_kind: "at p (w # ws) \<Longrightarrow> kind_at p = word_kind w" "at p [] \<Longrightarrow> kind_at p = TOK_EOF"
  "at p (w # ws) \<Longrightarrow> tk_text (current p) = spelling w" "at p (w # ws) \<Longrightarrow> tk_value (current p) = word_value w"
  by (simp_all add: at_def feeds_def current_def is_token_def)

lemma at_check: "at p (w # ws) \<Longrightarrow> check p k \<longleftrightarrow> word_kind w = k"
  by (simp add: check_def at_kind)

definition next_kind :: "bucc_word list \<Rightarrow> bucc_token_kind_t" where
  "next_kind ws = (case ws of [] \<Rightarrow> TOK_EOF | w # _ \<Rightarrow> word_kind w)"

lemma at_next: "at p ws \<Longrightarrow> kind_at p = next_kind ws"
  by (cases ws) (simp_all add: next_kind_def at_kind)

lemma skip_flags [simp]:
  "ps_had_error (skip fo ws p) = ps_had_error p" "ps_panic_mode (skip fo ws p) = ps_panic_mode p"
  by (induction ws arbitrary: p) (simp_all add: advance_def)

lemma skip_diag: "at p (ws @ rest) \<Longrightarrow> lx_diag (ps_lexer (skip fo ws p)) = lx_diag (ps_lexer p)"
proof (induction ws arbitrary: p)
  case (Cons w ws)
  then show ?case using at_advance [of p w "ws @ rest" fo] feeds_next [of "ps_lexer p" w "ws @ rest" fo]
    by (auto simp: at_def advance_def)
qed simp

lemma expect_at: "at p (w # ws) \<Longrightarrow> word_kind w = k \<Longrightarrow> expect fo k msg p = advance fo p"
  by (simp add: expect_def at_check)

section \<open>Reading written expressions\<close>

text \<open>What may follow an expression of a level: no operator of that level or a stronger one, and nothing that continues an operand.\<close>

definition ends_expr :: "nat \<Rightarrow> bucc_word list \<Rightarrow> bool" where
  "ends_expr l rest \<longleftrightarrow> (\<forall>l' \<ge> l. binary_op l' (next_kind rest) = None) \<and> next_kind rest \<notin> {TOK_LPAREN, TOK_LBRACKET, TOK_DOT}"

lemma ends_expr_mono: "ends_expr l rest \<Longrightarrow> l \<le> l' \<Longrightarrow> ends_expr l' rest"
  by (auto simp: ends_expr_def)

text \<open>
  \<open>reads l ws e\<close>: in front of the words \<open>ws\<close> and an end, the function for level \<open>l\<close> returns \<open>e\<close>, behind the words.
  \<open>reads_loop l ws e\<close>: it gets through the words to its loop over the operators of the level.
  \<open>reads_operand ws e\<close>: the function for unary expressions gets through the words to the loop over what continues an operand.
\<close>

definition reads :: "float_ops \<Rightarrow> nat \<Rightarrow> bucc_word list \<Rightarrow> bucc_expr \<Rightarrow> bool" where
  "reads fo l ws e \<longleftrightarrow> (\<forall>p rest. at p (ws @ rest) \<longrightarrow> ends_expr l rest \<longrightarrow>
     enough (\<lambda>n. parse_binary fo n l p = Some (Some e, skip fo ws p)))"

definition reads_operand :: "float_ops \<Rightarrow> bucc_word list \<Rightarrow> bucc_expr \<Rightarrow> bool" where
  "reads_operand fo ws e \<longleftrightarrow> (\<forall>p rest r. at p (ws @ rest) \<longrightarrow> enough (\<lambda>n. postfix_loop fo n e (skip fo ws p) = Some r) \<longrightarrow>
     enough (\<lambda>n. bucc_parse_unary_expr fo n p = Some r))"

definition reads_loop :: "float_ops \<Rightarrow> nat \<Rightarrow> bucc_word list \<Rightarrow> bucc_expr \<Rightarrow> bool" where
  "reads_loop fo l ws e \<longleftrightarrow> (\<forall>p rest r. at p (ws @ rest) \<longrightarrow> ends_expr (Suc l) rest \<longrightarrow>
     enough (\<lambda>n. binary_loop fo n l (Some e) (skip fo ws p) = Some r) \<longrightarrow> enough (\<lambda>n. parse_binary fo n l p = Some r))"

lemma reads_loopD: "reads_loop fo l ws e \<Longrightarrow> at p (ws @ rest) \<Longrightarrow> ends_expr (Suc l) rest \<Longrightarrow>
    enough (\<lambda>n. binary_loop fo n l (Some e) (skip fo ws p) = Some r) \<Longrightarrow> enough (\<lambda>n. parse_binary fo n l p = Some r)"
  unfolding reads_loop_def by blast

lemma reads_exprD: "reads fo l ws e \<Longrightarrow> at p (ws @ rest) \<Longrightarrow> ends_expr l rest \<Longrightarrow>
    enough (\<lambda>n. parse_binary fo n l p = Some (Some e, skip fo ws p))"
  by (simp add: reads_def)

lemma reads_operandD: "reads_operand fo ws e \<Longrightarrow> at p (ws @ rest) \<Longrightarrow> enough (\<lambda>n. postfix_loop fo n e (skip fo ws p) = Some r) \<Longrightarrow>
    enough (\<lambda>n. bucc_parse_unary_expr fo n p = Some r)"
  unfolding reads_operand_def by blast

lemma binary_loop_ends:
  assumes "at p rest" "ends_expr l rest"
  shows "binary_loop fo (Suc n) l e p = Some (e, p)"
  using assms by (simp add: at_next ends_expr_def)

lemma postfix_loop_ends:
  assumes "at p rest" "ends_expr l rest"
  shows "enough (\<lambda>n. postfix_loop fo n e p = Some (Some e, p))"
  using assms by (intro enough_Suc [OF enough_True]) (simp add: at_next ends_expr_def check_def Let_def)

lemma reads_loopI:
  assumes "reads fo (Suc l) ws e" "l < 6"
  shows "reads_loop fo l ws e"
  unfolding reads_loop_def
proof (intro allI impI)
  fix p rest r assume p: "at p (ws @ rest)" "ends_expr (Suc l) rest" "enough (\<lambda>n. binary_loop fo n l (Some e) (skip fo ws p) = Some r)"
  show "enough (\<lambda>n. parse_binary fo n l p = Some r)"
    using assms(2) by (intro enough_Suc2 [OF reads_exprD [OF assms(1) p(1,2)] p(3)]) simp
qed

lemma reads_loop_reads:
  assumes "reads_loop fo l ws e"
  shows "reads fo l ws e"
  unfolding reads_def
proof (intro allI impI)
  fix p rest assume p: "at p (ws @ rest)" "ends_expr l rest"
  have "enough (\<lambda>n. binary_loop fo n l (Some e) (skip fo ws p) = Some (Some e, skip fo ws p))"
    by (rule enough_Suc [OF enough_True]) (rule binary_loop_ends [OF at_skip [OF p(1)] p(2)])
  then show "enough (\<lambda>n. parse_binary fo n l p = Some (Some e, skip fo ws p))"
    using reads_loopD [OF assms p(1) ends_expr_mono [OF p(2)]] by simp
qed

lemma reads_down: "reads fo (Suc l) ws e \<Longrightarrow> l < 6 \<Longrightarrow> reads fo l ws e"
  by (rule reads_loop_reads [OF reads_loopI])

lemma reads_operand_6:
  assumes "reads_operand fo ws e"
  shows "reads fo 6 ws e"
  unfolding reads_def
proof (intro allI impI)
  fix p rest assume p: "at p (ws @ rest)" "ends_expr 6 rest"
  have "enough (\<lambda>n. bucc_parse_unary_expr fo n p = Some (Some e, skip fo ws p))"
    by (rule reads_operandD [OF assms p(1) postfix_loop_ends [OF at_skip [OF p(1)] p(2)]])
  then show "enough (\<lambda>n. parse_binary fo n 6 p = Some (Some e, skip fo ws p))" by (rule enough_Suc) simp
qed

lemma reads_lower:
  assumes "reads fo k ws e" "l \<le> k" "k \<le> 6"
  shows "reads fo l ws e"
  using assms by (induction "k - l" arbitrary: l) (auto intro: reads_down simp: le_Suc_eq)

lemma reads_operandI:
  assumes "\<And>p rest. at p (ws @ rest) \<Longrightarrow> kind_at p \<noteq> TOK_MINUS \<and> kind_at p \<noteq> TOK_KW_NOT \<and>
      enough (\<lambda>n. bucc_parse_primary_expr fo n p = Some (Some e, skip fo ws p))"
  shows "reads_operand fo ws e"
  unfolding reads_operand_def
proof (intro allI impI)
  fix p rest r assume p: "at p (ws @ rest)" "enough (\<lambda>n. postfix_loop fo n e (skip fo ws p) = Some r)"
  note a = assms [OF p(1)]
  show "enough (\<lambda>n. bucc_parse_unary_expr fo n p = Some r)"
    using a by (intro enough_Suc2 [OF conjunct2 [OF conjunct2 [OF a]] p(2)]) (simp add: check_def)
qed

lemma ends_at:
  "ends_expr 0 (RPAREN # rest)" "ends_expr 0 (RBRACKET # rest)" "ends_expr 0 (COMMA # rest)" "ends_expr 0 []"
  by (simp_all add: ends_expr_def next_kind_def binary_op_def)

lemma reads_parens:
  assumes "reads fo 0 ws e"
  shows "reads_operand fo ([LPAREN] @ ws @ [RPAREN]) e"
proof (rule reads_operandI)
  fix p rest assume p: "at p (([LPAREN] @ ws @ [RPAREN]) @ rest)"
  have a: "at (advance fo p) (ws @ RPAREN # rest)" using p at_advance by simp
  have x: "expect fo TOK_RPAREN msg (skip fo ws (advance fo p)) = skip fo ([LPAREN] @ ws @ [RPAREN]) p" for msg
    using expect_at [OF at_skip [OF a]] by simp
  have "kind_at p = TOK_LPAREN" using p at_kind(1) by auto
  moreover have "enough (\<lambda>n. bucc_parse_primary_expr fo n p = Some (Some e, skip fo ([LPAREN] @ ws @ [RPAREN]) p))"
    using calculation x by (intro enough_Suc [OF reads_exprD [OF assms a ends_at(1)]]) (simp add: Let_def)
  ultimately show "kind_at p \<noteq> TOK_MINUS \<and> kind_at p \<noteq> TOK_KW_NOT \<and>
      enough (\<lambda>n. bucc_parse_primary_expr fo n p = Some (Some e, skip fo ([LPAREN] @ ws @ [RPAREN]) p))" by simp
qed

text \<open>An expression whose words are read at its own level is read at every place, in parentheses if need be.\<close>

definition placed :: "float_ops \<Rightarrow> bucc_expr \<Rightarrow> bool" where
  "placed fo e \<longleftrightarrow>
     (if expr_level e = 7 then reads_operand fo (expr_words e) e
      else if expr_level e = 6 then reads fo 6 (expr_words e) e
      else reads_loop fo (expr_level e) (expr_words e) e)"

lemma op_level_le: "op_level op \<le> 6" "op \<noteq> BINARY_CONCAT \<Longrightarrow> op_level op < 6"
  by (cases op; simp)+

lemma expr_level_le: "expr_level e \<le> 7"
  by (cases e) (simp_all add: order_trans [OF op_level_le(1)])

lemma placed_level:
  assumes "placed fo e"
  shows "reads fo (min 6 (expr_level e)) (expr_words e) e"
proof -
  consider "expr_level e = 7" | "expr_level e = 6" | "expr_level e < 6" using expr_level_le [of e] by linarith
  then show ?thesis
    using assms reads_operand_6 reads_loop_reads by cases (auto simp: placed_def)
qed

lemma placed_operand:
  assumes "placed fo e"
  shows "reads_operand fo (in_parens (expr_level e < 7) (expr_words e)) e"
proof (cases "expr_level e < 7")
  case True
  have "reads fo 0 (expr_words e) e" by (rule reads_lower [OF placed_level [OF assms]]) simp_all
  then show ?thesis using True reads_parens by (simp add: in_parens_def)
next
  case False
  then have "expr_level e = 7" using expr_level_le [of e] by simp
  then show ?thesis using assms by (simp add: in_parens_def placed_def)
qed

lemma placed_reads:
  assumes "placed fo e" "l \<le> 6"
  shows "reads fo l (in_parens (expr_level e < l) (expr_words e)) e"
proof (cases "expr_level e < l")
  case True
  then show ?thesis
    using reads_lower [OF reads_operand_6 [OF placed_operand [OF assms(1)]] assms(2)] assms(2) by (simp add: in_parens_def)
next
  case False
  then show ?thesis using reads_lower [OF placed_level [OF assms(1)], of l] assms(2) by (simp add: in_parens_def)
qed

text \<open>The left operand of an operator of level \<open>l\<close>.\<close>

lemma placed_left:
  assumes "placed fo e" "l < 6"
  shows "reads_loop fo l (in_parens (expr_level e < l) (expr_words e)) e"
proof (cases "expr_level e = l")
  case True
  then show ?thesis using assms by (simp add: in_parens_def placed_def)
next
  case False
  then have "(expr_level e < l) = (expr_level e < Suc l)" by linarith
  then show ?thesis using reads_loopI [OF placed_reads [OF assms(1), of "Suc l"]] assms(2) by simp
qed

lemma binary_op_word: "op \<noteq> BINARY_CONCAT \<Longrightarrow> binary_op l (word_kind (op_word op)) = (if l = op_level op then Some op else None)"
  by (cases op) (simp_all add: binary_op_def)

lemma op_word_ends: "op \<noteq> BINARY_CONCAT \<Longrightarrow> ends_expr (Suc (op_level op)) (op_word op # rest)"
proof -
  have "op \<noteq> BINARY_CONCAT \<Longrightarrow> word_kind (op_word op) \<notin> {TOK_LPAREN, TOK_LBRACKET, TOK_DOT}" by (cases op) simp_all
  then show "op \<noteq> BINARY_CONCAT \<Longrightarrow> ends_expr (Suc (op_level op)) (op_word op # rest)"
    by (simp add: ends_expr_def next_kind_def binary_op_word)
qed

lemma placed_binary:
  assumes "placed fo a" "placed fo b" "op \<noteq> BINARY_CONCAT"
  shows "placed fo (NODE_EXPR_BINARY op a b)"
proof -
  define l where "l = op_level op"
  define va where "va = in_parens (expr_level a < l) (expr_words a)"
  define vb where "vb = in_parens (expr_level b < Suc l) (expr_words b)"
  have l: "l < 6" using op_level_le(2) [OF assms(3)] by (simp add: l_def)
  have "reads_loop fo l (va @ [op_word op] @ vb) (NODE_EXPR_BINARY op a b)"
    unfolding reads_loop_def
  proof (intro allI impI)
    fix p rest r assume p: "at p ((va @ [op_word op] @ vb) @ rest)" "ends_expr (Suc l) rest"
      "enough (\<lambda>n. binary_loop fo n l (Some (NODE_EXPR_BINARY op a b)) (skip fo (va @ [op_word op] @ vb) p) = Some r)"
    have a: "at p (va @ op_word op # vb @ rest)" using p(1) by simp
    have b: "at (advance fo (skip fo va p)) (vb @ rest)" using at_advance [OF at_skip [OF a]] .
    have k: "binary_op l (kind_at (skip fo va p)) = Some op"
      using at_kind(1) [OF at_skip [OF a]] binary_op_word [OF assms(3)] by (simp add: l_def)
    have 1: "enough (\<lambda>n. parse_binary fo n (Suc l) (advance fo (skip fo va p)) = Some (Some b, skip fo vb (advance fo (skip fo va p))))"
      using reads_exprD [OF placed_reads [OF assms(2), of "Suc l"] b [unfolded vb_def] p(2)] l by (simp add: vb_def)
    have "enough (\<lambda>n. binary_loop fo n l (Some a) (skip fo va p) = Some r)"
      using k by (intro enough_Suc2 [OF 1 p(3)]) (simp add: node_of_def)
    then show "enough (\<lambda>n. parse_binary fo n l p = Some r)"
      using reads_loopD [OF placed_left [OF assms(1) l] a [unfolded va_def]] op_word_ends [OF assms(3)] by (simp add: va_def l_def)
  qed
  then show ?thesis using l by (simp add: placed_def l_def va_def vb_def)
qed

lemma placed_unary:
  assumes "placed fo e"
  shows "placed fo (NODE_EXPR_UNARY op e)"
proof -
  define w where "w = (case op of UNARY_NEG \<Rightarrow> Fixed (ascii ''-'') TOK_MINUS | UNARY_NOT \<Rightarrow> Fixed (ascii ''NOT'') TOK_KW_NOT)"
  define v where "v = in_parens (expr_level e < 6) (expr_words e)"
  have "reads fo 6 (w # v) (NODE_EXPR_UNARY op e)"
    unfolding reads_def
  proof (intro allI impI)
    fix p rest assume p: "at p ((w # v) @ rest)" "ends_expr 6 rest"
    have "at (advance fo p) (v @ rest)" using at_advance p(1) by simp
    then have "enough (\<lambda>n. parse_binary fo n 6 (advance fo p) = Some (Some e, skip fo v (advance fo p)))"
      using reads_exprD [OF placed_reads [OF assms, of 6]] p(2) by (simp add: v_def)
    moreover have "parse_binary fo n 6 q = Some x \<Longrightarrow> \<exists>m. n = Suc m \<and> bucc_parse_unary_expr fo m q = Some x" for n q x
      by (cases n) simp_all
    ultimately have 1: "enough (\<lambda>n. bucc_parse_unary_expr fo n (advance fo p) = Some (Some e, skip fo v (advance fo p)))"
      unfolding enough_def by (metis Suc_inject le_SucI)
    have "check p TOK_MINUS \<longleftrightarrow> op = UNARY_NEG" "check p TOK_KW_NOT \<longleftrightarrow> op = UNARY_NOT"
      using at_check [of p w "v @ rest"] p(1) by (cases op; simp add: w_def)+
    then have "enough (\<lambda>n. bucc_parse_unary_expr fo n p = Some (Some (NODE_EXPR_UNARY op e), skip fo (w # v) p))"
      by (cases op) (rule enough_Suc [OF 1], simp add: node_of_def)+
    then show "enough (\<lambda>n. parse_binary fo n 6 p = Some (Some (NODE_EXPR_UNARY op e), skip fo (w # v) p))"
      by (rule enough_Suc) simp
  qed
  then show ?thesis by (simp add: placed_def w_def v_def)
qed

text \<open>The loop over the parts that continue an operand.\<close>

lemma reads_elements:
  assumes "\<forall>e \<in> set es. reads fo 0 (expr_words e) e" "es \<noteq> []" "at p (list_words es @ rest)" "ends_expr 0 rest" "next_kind rest \<noteq> TOK_COMMA"
  shows "enough (\<lambda>n. parse_elements fo n p = Some (es, skip fo (list_words es) p))"
  using assms
proof (induction es arbitrary: p)
  case (Cons e es)
  show ?case
  proof (cases "es = []")
    case True
    have "at p (expr_words e @ rest)" using Cons.prems(3) True by simp
    then have 1: "enough (\<lambda>n. parse_binary fo n 0 p = Some (Some e, skip fo (expr_words e) p))" "kind_at (skip fo (expr_words e) p) \<noteq> TOK_COMMA"
      using reads_exprD [of fo 0 "expr_words e" e p rest] Cons.prems(1,4,5) at_next [OF at_skip] by auto
    show ?thesis using 1(2) True by (intro enough_Suc [OF 1(1)]) (simp add: check_def node_of_def)
  next
    case False
    let ?q = "skip fo (expr_words e) p"
    have p: "at p (expr_words e @ COMMA # list_words es @ rest)" using Cons.prems(3) False by simp
    have 1: "enough (\<lambda>n. parse_binary fo n 0 p = Some (Some e, ?q))"
      using reads_exprD [OF _ p ends_at(3)] Cons.prems(1) by simp
    have q: "check ?q TOK_COMMA" using at_check [OF at_skip [OF p]] by simp
    have 2: "enough (\<lambda>n. parse_elements fo n (advance fo ?q) = Some (es, skip fo (list_words es) (advance fo ?q)))"
      using Cons.IH [OF _ False at_advance [OF at_skip [OF p]]] Cons.prems(1,4,5) by simp
    show ?thesis using q False by (intro enough_Suc2 [OF 1 2]) (simp add: node_of_def)
  qed
qed simp

lemma words_fixed: "word_kind (Fixed s k) = k" by simp

text \<open>A piece \<open>v\<close> that continues an operand: the loop takes it and goes on.\<close>

lemma operand_continued:
  assumes "reads_operand fo ws e"
    "\<And>p rest r. at p (v @ rest) \<Longrightarrow> enough (\<lambda>n. postfix_loop fo n e' (skip fo v p) = Some r) \<Longrightarrow> enough (\<lambda>n. postfix_loop fo n e p = Some r)"
  shows "reads_operand fo (ws @ v) e'"
  unfolding reads_operand_def
proof (intro allI impI)
  fix p rest r assume p: "at p ((ws @ v) @ rest)" "enough (\<lambda>n. postfix_loop fo n e' (skip fo (ws @ v) p) = Some r)"
  have a: "at p (ws @ v @ rest)" using p(1) by simp
  show "enough (\<lambda>n. bucc_parse_unary_expr fo n p = Some r)"
    using reads_operandD [OF assms(1) a assms(2) [OF at_skip [OF a]]] p(2) by simp
qed

lemma list_words_first:
  assumes "\<forall>e \<in> set es. expr_words e \<noteq> [] \<and> word_kind (hd (expr_words e)) \<notin> {TOK_RPAREN, TOK_RBRACKET}" "es \<noteq> []"
  shows "list_words es \<noteq> []" "word_kind (hd (list_words es)) \<notin> {TOK_RPAREN, TOK_RBRACKET}"
  using assms by (cases es; simp)+

text \<open>Arguments in parentheses and elements in brackets.\<close>

lemma reads_enclosed:
  assumes "\<forall>e \<in> set es. reads fo 0 (expr_words e) e \<and> expr_words e \<noteq> [] \<and> word_kind (hd (expr_words e)) \<notin> {TOK_RPAREN, TOK_RBRACKET}"
    "at q (list_words es @ Fixed s k # rest)" "k \<in> {TOK_RPAREN, TOK_RBRACKET}"
  shows "enough (\<lambda>n. (if check q k then Some ([], q) else parse_elements fo n q) = Some (es, skip fo (list_words es) q))"
proof (cases "es = []")
  case True
  then show ?thesis using at_check [of q "Fixed s k" rest] assms(2) by simp
next
  case False
  obtain w ws where w: "list_words es = w # ws" "word_kind w \<notin> {TOK_RPAREN, TOK_RBRACKET}"
    using list_words_first [OF _ False] assms(1) by (cases "list_words es") auto
  then have "\<not> check q k" using at_check [of q w "ws @ Fixed s k # rest"] assms(2,3) by auto
  moreover have "enough (\<lambda>n. parse_elements fo n q = Some (es, skip fo (list_words es) q))"
    using reads_elements [OF _ False assms(2)] assms(1,3) by (auto simp: ends_expr_def next_kind_def binary_op_def)
  ultimately show ?thesis by simp
qed

definition reads_args :: "float_ops \<Rightarrow> bucc_expr list \<Rightarrow> bool" where
  "reads_args fo es \<longleftrightarrow>
     (\<forall>e \<in> set es. reads fo 0 (expr_words e) e \<and> expr_words e \<noteq> [] \<and> word_kind (hd (expr_words e)) \<notin> {TOK_RPAREN, TOK_RBRACKET})"

lemma placed_call:
  assumes "placed fo f" "reads_args fo es"
  shows "placed fo (NODE_EXPR_CALL f es)"
proof -
  let ?v = "[LPAREN] @ list_words es @ [RPAREN]"
  have "reads_operand fo (in_parens (expr_level f < 7) (expr_words f) @ ?v) (NODE_EXPR_CALL f es)"
  proof (rule operand_continued [OF placed_operand [OF assms(1)]])
    fix p rest r assume p: "at p (?v @ rest)" "enough (\<lambda>n. postfix_loop fo n (NODE_EXPR_CALL f es) (skip fo ?v p) = Some r)"
    have a: "at (advance fo p) (list_words es @ RPAREN # rest)" "check p TOK_LPAREN"
      using p(1) at_advance [of p LPAREN "list_words es @ RPAREN # rest"] at_check [of p LPAREN] by simp_all
    have x: "expect fo TOK_RPAREN msg (skip fo (list_words es) (advance fo p)) = skip fo ?v p" for msg
      using expect_at [OF at_skip [OF a(1)]] by simp
    have 1: "enough (\<lambda>n. (if check (advance fo p) TOK_RPAREN then Some ([], advance fo p) else parse_elements fo n (advance fo p)) =
        Some (es, skip fo (list_words es) (advance fo p)))"
      using reads_enclosed [OF assms(2) [unfolded reads_args_def] a(1)] by simp
    show "enough (\<lambda>n. postfix_loop fo n f p = Some r)"
      using a(2) x by (intro enough_Suc2 [OF 1 p(2)]) (simp add: Let_def)
  qed
  then show ?thesis by (simp add: placed_def)
qed

lemma placed_index:
  assumes "placed fo a" "reads fo 0 (expr_words i) i"
  shows "placed fo (NODE_EXPR_INDEX a i)"
proof -
  let ?v = "[LBRACKET] @ expr_words i @ [RBRACKET]"
  have "reads_operand fo (in_parens (expr_level a < 7) (expr_words a) @ ?v) (NODE_EXPR_INDEX a i)"
  proof (rule operand_continued [OF placed_operand [OF assms(1)]])
    fix p rest r assume p: "at p (?v @ rest)" "enough (\<lambda>n. postfix_loop fo n (NODE_EXPR_INDEX a i) (skip fo ?v p) = Some r)"
    have a: "at (advance fo p) (expr_words i @ RBRACKET # rest)" "check p TOK_LBRACKET" "\<not> check p TOK_LPAREN"
      using p(1) at_advance [of p LBRACKET "expr_words i @ RBRACKET # rest"] at_check [of p LBRACKET] by simp_all
    have x: "expect fo TOK_RBRACKET msg (skip fo (expr_words i) (advance fo p)) = skip fo ?v p" for msg
      using expect_at [OF at_skip [OF a(1)]] by simp
    show "enough (\<lambda>n. postfix_loop fo n a p = Some r)"
      using a(2,3) x by (intro enough_Suc2 [OF reads_exprD [OF assms(2) a(1) ends_at(2)] p(2)]) (simp add: Let_def node_of_def)
  qed
  then show ?thesis by (simp add: placed_def)
qed

lemma postfix_member:
  assumes "at p (DOT # Name m # rest)" "e' = (case e of NODE_EXPR_IDENT name \<Rightarrow> NODE_EXPR_QUALIFIED name m | _ \<Rightarrow> NODE_EXPR_MEMBER e m)"
    "enough (\<lambda>n. postfix_loop fo n e' (skip fo [DOT, Name m] p) = Some r)"
  shows "enough (\<lambda>n. postfix_loop fo n e p = Some r)"
proof -
  have a: "at (advance fo p) (Name m # rest)" "check p TOK_DOT" "\<not> check p TOK_LPAREN" "\<not> check p TOK_LBRACKET"
    using assms(1) at_advance [of p DOT "Name m # rest"] at_check [of p DOT] by simp_all
  have "check (advance fo p) TOK_IDENT" "tk_text (current (advance fo p)) = m"
    using at_check [OF a(1)] at_kind(3) [OF a(1)] by simp_all
  then show ?thesis using a(2-) assms(2) by (intro enough_Suc [OF assms(3)], cases e) (simp_all add: Let_def)
qed

lemma placed_member:
  assumes "placed fo a" "case a of NODE_EXPR_IDENT _ \<Rightarrow> False | _ \<Rightarrow> True"
  shows "placed fo (NODE_EXPR_MEMBER a m)"
proof -
  have "reads_operand fo (in_parens (expr_level a < 7) (expr_words a) @ [DOT, Name m]) (NODE_EXPR_MEMBER a m)"
    using assms(2) by (intro operand_continued [OF placed_operand [OF assms(1)]] postfix_member) (auto split: bucc_expr.splits)
  then show ?thesis by (simp add: placed_def)
qed

lemma reads_primary_word:
  assumes "\<And>p rest. at p (w # rest) \<Longrightarrow> kind_at p \<noteq> TOK_MINUS \<and> kind_at p \<noteq> TOK_KW_NOT \<and>
      (\<forall>n. bucc_parse_primary_expr fo (Suc n) p = Some (Some e, advance fo p))"
  shows "reads_operand fo [w] e"
  using assms by (intro reads_operandI) (auto intro!: enough_Suc [OF enough_True])

lemma ident_operand: "reads_operand fo [Name s] (NODE_EXPR_IDENT s)"
  by (rule reads_primary_word) (auto simp: Let_def dest: at_kind(1,3))

lemma placed_qualified: "placed fo (NODE_EXPR_QUALIFIED ns s)"
proof -
  have "reads_operand fo ([Name ns] @ [DOT, Name s]) (NODE_EXPR_QUALIFIED ns s)"
    by (intro operand_continued [OF ident_operand] postfix_member) simp_all
  then show ?thesis by (simp add: placed_def)
qed

lemma unescape_escaped: "unescape (concat (map escaped s)) = s"
proof (induction s)
  case (Cons c s)
  have *: "c' \<noteq> 92 \<Longrightarrow> unescape (c' # cs) = c' # unescape cs" for c' cs by (cases cs) simp_all
  show ?case using Cons by (auto simp: escaped_def escape_value_def *)
qed simp

lemma placed_literal:
  assumes "writable_literal l"
  shows "placed fo (NODE_EXPR_LITERAL l)"
proof -
  have "reads_operand fo (literal_words l) (NODE_EXPR_LITERAL l)"
  proof (cases l)
    case (LI64 n)
    then show ?thesis
      by (simp, intro reads_primary_word) (auto simp: Let_def tok_i64_def dest: at_kind(1,4))
  next
    case (LString s)
    have "until_nul (extract_string_content (spelling (Quoted s))) = s"
      using assms LString by (auto simp: extract_string_content_def butlast_append unescape_escaped until_nul_def takeWhile_eq_all_conv)
    then show ?thesis
      using LString by (simp, intro reads_primary_word) (auto simp: Let_def dest: at_kind(1,3))
  qed (use assms in \<open>auto intro!: reads_primary_word simp: Let_def dest: at_kind(1)\<close>)
  then show ?thesis by (simp add: placed_def)
qed

lemma placed_array:
  assumes "reads_args fo es"
  shows "placed fo (NODE_EXPR_ARRAY_LIT es)"
proof -
  let ?v = "[LBRACKET] @ list_words es @ [RBRACKET]"
  have "reads_operand fo ?v (NODE_EXPR_ARRAY_LIT es)"
  proof (rule reads_operandI)
    fix p rest assume p: "at p (?v @ rest)"
    have a: "at (advance fo p) (list_words es @ RBRACKET # rest)" "kind_at p = TOK_LBRACKET"
      using p at_advance [of p LBRACKET "list_words es @ RBRACKET # rest"] at_kind(1) [of p LBRACKET] by simp_all
    have x: "expect fo TOK_RBRACKET msg (skip fo (list_words es) (advance fo p)) = skip fo ?v p" for msg
      using expect_at [OF at_skip [OF a(1)]] by simp
    have 1: "enough (\<lambda>n. (if check (advance fo p) TOK_RBRACKET then Some ([], advance fo p) else parse_elements fo n (advance fo p)) =
        Some (es, skip fo (list_words es) (advance fo p)))"
      using reads_enclosed [OF assms [unfolded reads_args_def] a(1)] by simp
    show "kind_at p \<noteq> TOK_MINUS \<and> kind_at p \<noteq> TOK_KW_NOT \<and>
        enough (\<lambda>n. bucc_parse_primary_expr fo n p = Some (Some (NODE_EXPR_ARRAY_LIT es), skip fo ?v p))"
      using a(2) x by (intro conjI enough_Suc [OF 1]) (simp_all add: Let_def)
  qed
  then show ?thesis by (simp add: placed_def)
qed

lemma in_parens_first: "ws \<noteq> [] \<Longrightarrow> word_kind (hd ws) \<notin> {TOK_RPAREN, TOK_RBRACKET} \<Longrightarrow>
    in_parens b ws \<noteq> [] \<and> word_kind (hd (in_parens b ws)) \<notin> {TOK_RPAREN, TOK_RBRACKET}"
  by (simp add: in_parens_def)

lemma expr_words_first:
  "writable e \<Longrightarrow> expr_words e \<noteq> [] \<and> word_kind (hd (expr_words e)) \<notin> {TOK_RPAREN, TOK_RBRACKET}"
proof (induction e rule: bucc_expr.induct [where ?P2.0 = "\<lambda>_. True"])
  case (NODE_EXPR_LITERAL l)
  then show ?case by (cases l) auto
next
  case (NODE_EXPR_UNARY op e)
  then show ?case by (cases op) simp_all
next
  case (NODE_EXPR_CALL f es)
  then show ?case using in_parens_first [of "expr_words f" "expr_level f < 7"] by simp
next
  case (NODE_EXPR_BINARY op a b)
  then show ?case using in_parens_first [of "expr_words a" "expr_level a < op_level op"] by simp
next
  case (NODE_EXPR_INDEX a i)
  then show ?case using in_parens_first [of "expr_words a" "expr_level a < 7"] by simp
next
  case (NODE_EXPR_MEMBER a m)
  then show ?case using in_parens_first [of "expr_words a" "expr_level a < 7"] by simp
qed simp_all

lemma placed_0: "placed fo e \<Longrightarrow> reads fo 0 (expr_words e) e"
  by (rule reads_lower [OF placed_level]) simp_all

lemma all_writable_iff: "all_writable es \<longleftrightarrow> (\<forall>e \<in> set es. writable e)"
  by (induction es) simp_all

lemma reads_argsI: "all_writable es \<Longrightarrow> (\<And>e. e \<in> set es \<Longrightarrow> placed fo e) \<Longrightarrow> reads_args fo es"
  unfolding reads_args_def all_writable_iff using placed_0 expr_words_first by blast

lemma writable_placed: "writable e \<Longrightarrow> placed fo e"
proof (induction e rule: bucc_expr.induct [where ?P2.0 = "\<lambda>_. True"])
  case (NODE_EXPR_IDENT s)
  show ?case using ident_operand by (simp add: placed_def)
next
  case (NODE_EXPR_CALL f es)
  then show ?case using placed_call reads_argsI all_writable_iff by simp
next
  case (NODE_EXPR_INDEX a i)
  then show ?case using placed_index placed_0 by simp
next
  case (NODE_EXPR_ARRAY_LIT es)
  then show ?case using placed_array reads_argsI all_writable_iff by simp
qed (simp_all add: placed_literal placed_qualified placed_unary placed_binary placed_member)

lemma expr_words_good:
  "writable e \<Longrightarrow> list_all good_word (expr_words e)"
  "all_writable es \<Longrightarrow> list_all good_word (list_words es)"
proof (induction e and es rule: expr_words_list_words.induct)
  case (1 l)
  then show ?case by (cases l) (auto simp: keyword_table_def)
next
  case (5 op e)
  then show ?case by (cases op) (auto simp: in_parens_def keyword_table_def signs_def)
next
  case (6 op a b)
  then have "good_word (op_word op)" by (cases op) (auto simp: keyword_table_def signs_def)
  then show ?case using 6 by (auto simp: in_parens_def signs_def)
qed (auto simp: in_parens_def signs_def)

text \<open>
  C2: The parser reads the writable expressions of the language (all but floating-point, date, negative and map literals and
  \<open>CONCAT\<close>) with the precedence of its grammar. An expression is written with
  parentheses only where an operand binds weaker than its place requires: \<open>OR\<close>, \<open>AND\<close>, equality, order, sums, products,
  signs and \<open>NOT\<close>, and then calls, indices and members, all binary operators to the left. From the text, the lexer and the parser
  get back the same tree, and report no error, if they have enough fuel.
\<close>

theorem expressions_parse_back:
  assumes "writable e"
  shows "\<exists>N p'. \<forall>n \<ge> N.
    bucc_parse_expression fo n (bucc_parser_init fo (bucc_lexer_init (program_text (expr_words e)) file d)) = Some (Some e, p') \<and>
    check p' TOK_EOF \<and> \<not> ps_had_error p' \<and> lx_diag (ps_lexer p') = d"
proof -
  let ?p = "bucc_parser_init fo (bucc_lexer_init (program_text (expr_words e)) file d)"
  let ?q = "skip fo (expr_words e) ?p"
  have f: "feeds (ps_lexer ?p) (expr_words e)" "lx_diag (ps_lexer ?p) = d"
    using feeds_init [OF expr_words_good(1) [OF assms]] by (simp_all add: bucc_parser_init_def)
  have p: "at ?p (expr_words e @ [])" using f(1) by (simp add: at_def)
  have "enough (\<lambda>n. parse_binary fo n 0 ?p = Some (Some e, ?q))"
    by (rule reads_exprD [OF placed_0 [OF writable_placed [OF assms]] p ends_at(4)])
  moreover have "check ?q TOK_EOF" using at_kind(2) [OF at_skip [OF p]] by (simp add: check_def)
  moreover have "\<not> ps_had_error ?q" by (simp add: bucc_parser_init_def)
  moreover have "lx_diag (ps_lexer ?q) = d" using skip_diag [OF p] f(2) by simp
  ultimately show ?thesis unfolding enough_def bucc_parse_expression_def by blast
qed


text \<open>\<open>( 1 + x ) * NOT f ( 2 )\<close>\<close>

definition example_tree :: bucc_expr where
  "example_tree = NODE_EXPR_BINARY BINARY_MUL
     (NODE_EXPR_BINARY BINARY_ADD (NODE_EXPR_LITERAL (LI64 1)) (NODE_EXPR_IDENT (ascii ''x'')))
     (NODE_EXPR_UNARY UNARY_NOT (NODE_EXPR_CALL (NODE_EXPR_IDENT (ascii ''f'')) [NODE_EXPR_LITERAL (LI64 2)]))"

lemma example_names: "good_word (Name (ascii ''x''))" "good_word (Name (ascii ''f''))"
  by code_simp+

theorem expressions_parse_back_witness:
  "\<exists>N p'. \<forall>n \<ge> N. bucc_parse_expression example_float n
      (bucc_parser_init example_float (bucc_lexer_init (ascii ''( 1 + x ) * NOT f ( 2 ) '') 1 \<lparr>d_entries = [], d_error_count = 0\<rparr>)) = Some (Some example_tree, p') \<and>
    check p' TOK_EOF \<and> \<not> ps_had_error p' \<and> lx_diag (ps_lexer p') = \<lparr>d_entries = [], d_error_count = 0\<rparr>"
proof -
  have "writable example_tree" using example_names by (simp add: example_tree_def)
  moreover have "program_text (expr_words example_tree) = ascii ''( 1 + x ) * NOT f ( 2 ) ''"
    by (simp add: example_tree_def program_text_def in_parens_def ascii_def number_bytes.simps)
  ultimately show ?thesis using expressions_parse_back [of example_tree example_float 1 "\<lparr>d_entries = [], d_error_count = 0\<rparr>"] by simp
qed

section \<open>Assignments\<close>

text \<open>A tree without assignments.\<close>

fun no_assign :: "bucc_stmt \<Rightarrow> bool"
  and no_assign_node :: "bucc_stmt_node \<Rightarrow> bool"
  and no_assign_elseif :: "bucc_elseif \<Rightarrow> bool"
  and no_assign_case :: "bucc_case \<Rightarrow> bool" where
  "no_assign (Stmt line col s) = no_assign_node s"
| "no_assign_node (NODE_STMT_ASSIGN _ _) = False"
| "no_assign_node (NODE_STMT_IF _ thens cs elses) = (list_all no_assign thens \<and> list_all no_assign_elseif cs \<and> list_all no_assign elses)"
| "no_assign_node (NODE_STMT_SELECT _ cs elses) = (list_all no_assign_case cs \<and> list_all no_assign elses)"
| "no_assign_node (NODE_STMT_WHILE _ ss) = list_all no_assign ss"
| "no_assign_node (NODE_STMT_DO_LOOP ss _ _) = list_all no_assign ss"
| "no_assign_node (NODE_STMT_FOR _ _ _ _ ss) = list_all no_assign ss"
| "no_assign_node (NODE_STMT_TRY_CATCH ss _ cs) = (list_all no_assign ss \<and> list_all no_assign cs)"
| "no_assign_node _ = True"
| "no_assign_elseif (ElseIf _ ss) = list_all no_assign ss"
| "no_assign_case (NODE_STMT_CASE _ _ _ ss) = list_all no_assign ss"

fun no_assign_decl :: "bucc_decl \<Rightarrow> bool" where
  "no_assign_decl (NODE_PROC_DECL _ _ body) = list_all no_assign body"
| "no_assign_decl (NODE_FUNC_DECL _ _ body) = list_all no_assign body"

text \<open>Behind an expression there is no operator: the loops of its levels have taken them all, the sign \<open>=\<close> too.\<close>

definition no_operator :: "nat \<Rightarrow> bucc_parser_t \<Rightarrow> bool" where
  "no_operator l p \<longleftrightarrow> (\<forall>l'. l \<le> l' \<and> l' < 6 \<longrightarrow> binary_op l' (kind_at p) = None)"

lemma binary_no_operator:
  "parse_binary fo n l p = Some (e, q) \<Longrightarrow> l \<le> 6 \<Longrightarrow> no_operator l q"
  "binary_loop fo n l e' p = Some (e, q) \<Longrightarrow> no_operator (Suc l) p \<Longrightarrow> l < 6 \<Longrightarrow> no_operator l q"
proof (induction n arbitrary: l p e e' q)
  case (Suc n)
  { case 1
    show ?case
    proof (cases "l = 6")
      case False
      then obtain e1 p1 where "parse_binary fo n (Suc l) p = Some (e1, p1)" "binary_loop fo n l e1 p1 = Some (e, q)"
        using 1 by (auto simp: Option.bind_eq_Some_conv)
      then show ?thesis using Suc.IH False 1(2) by (metis le_neq_implies_less Suc_leI)
    qed (auto simp: no_operator_def) }
  { case 2
    show ?case
    proof (cases "binary_op l (kind_at p)")
      case None
      then have "q = p" using 2 by simp
      then show ?thesis using None 2(2) unfolding no_operator_def by (metis Suc_leI le_neq_implies_less)
    next
      case (Some op)
      then obtain e1 p1 e2 where "parse_binary fo n (Suc l) (advance fo p) = Some (e1, p1)" "binary_loop fo n l e2 p1 = Some (e, q)"
        using 2 by (auto simp: Option.bind_eq_Some_conv)
      then show ?thesis using Suc.IH 2(3) by (metis Suc_leI)
    qed }
qed simp_all

lemma expression_no_eq: "bucc_parse_expression fo n p = Some (e, q) \<Longrightarrow> \<not> check q TOK_EQ"
  using binary_no_operator(1) [of fo n 0 p e q] unfolding bucc_parse_expression_def no_operator_def check_def binary_op_def
  by (auto dest: spec [of _ 2])

text \<open>What holds of every result of a parsing function.\<close>

definition yields :: "('a \<Rightarrow> bool) \<Rightarrow> 'a option \<Rightarrow> bool" where
  "yields P r \<longleftrightarrow> (\<forall>x. r = Some x \<longrightarrow> P x)"

lemma yields_None: "yields P None"
  by (simp add: yields_def)

lemma yields_Some: "P x \<Longrightarrow> yields P (Some x)"
  by (simp add: yields_def)

lemma yields_bind: "(\<And>x. r = Some x \<Longrightarrow> yields P (f x)) \<Longrightarrow> yields P (Option.bind r f)"
  by (cases r) (simp_all add: yields_def)

lemma yields_prod: "(\<And>a b. x = (a, b) \<Longrightarrow> yields P (f a b)) \<Longrightarrow> yields P (case x of (a, b) \<Rightarrow> f a b)"
  by (cases x) simp

lemma yields_if: "(b \<Longrightarrow> yields P x) \<Longrightarrow> (\<not> b \<Longrightarrow> yields P y) \<Longrightarrow> yields P (if b then x else y)"
  by simp

lemma yields_option: "(x = None \<Longrightarrow> yields P a) \<Longrightarrow> (\<And>y. x = Some y \<Longrightarrow> yields P (f y)) \<Longrightarrow> yields P (case x of None \<Rightarrow> a | Some y \<Rightarrow> f y)"
  by (cases x) simp_all

lemma yieldsD: "yields P r \<Longrightarrow> r = Some x \<Longrightarrow> P x"
  by (simp add: yields_def)

lemmas yields_rules = yields_if yields_bind yields_prod yields_option yields_Some

definition clean :: "bucc_stmt option \<times> bucc_parser_t \<Rightarrow> bool" where
  "clean = (\<lambda>(s, q). case s of Some s \<Rightarrow> no_assign s | None \<Rightarrow> True)"

definition clean_list :: "bucc_stmt list \<times> bucc_parser_t \<Rightarrow> bool" where
  "clean_list = (\<lambda>(ss, q). list_all no_assign ss)"

definition clean_elseifs :: "bucc_elseif list \<times> bucc_parser_t \<Rightarrow> bool" where
  "clean_elseifs = (\<lambda>(cs, q). list_all no_assign_elseif cs)"

definition clean_cases :: "bucc_case list \<times> bucc_stmt list \<times> bucc_parser_t \<Rightarrow> bool" where
  "clean_cases = (\<lambda>(cs, ss, q). list_all no_assign_case cs \<and> list_all no_assign ss)"

lemma clean_simps [simp]:
  "clean (Some s, q) \<longleftrightarrow> no_assign s" "clean (None, q)" "clean_list (ss, q) \<longleftrightarrow> list_all no_assign ss"
  "clean_elseifs (cs, q) \<longleftrightarrow> list_all no_assign_elseif cs" "clean_cases (ks, ss, q) \<longleftrightarrow> list_all no_assign_case ks \<and> list_all no_assign ss"
  by (simp_all add: clean_def clean_list_def clean_elseifs_def clean_cases_def)

lemma no_assign_at [simp]: "no_assign (stmt_at p s) = no_assign_node s"
  by (simp add: stmt_at_def)

lemma statements_clean:
  "yields clean_list (parse_stmts fo n sync stops p)" "yields clean_elseifs (parse_elseifs fo n p)" "yields clean_cases (parse_cases fo n p)"
  "yields clean (bucc_parse_if_stmt fo n p)" "yields clean (bucc_parse_select_stmt fo n p)" "yields clean (bucc_parse_while_stmt fo n p)"
  "yields clean (bucc_parse_do_loop_stmt fo n p)" "yields clean (bucc_parse_for_stmt fo n p)" "yields clean (bucc_parse_try_catch_stmt fo n p)"
  "yields clean (bucc_parse_statement fo n p)"
proof (induction n arbitrary: sync stops p)
  case 0
  { case 1 show ?case by (simp add: yields_None) }
  { case 2 show ?case by (simp add: yields_None) }
  { case 3 show ?case by (simp add: yields_None) }
  { case 4 show ?case by (simp add: yields_None) }
  { case 5 show ?case by (simp add: yields_None) }
  { case 6 show ?case by (simp add: yields_None) }
  { case 7 show ?case by (simp add: yields_None) }
  { case 8 show ?case by (simp add: yields_None) }
  { case 9 show ?case by (simp add: yields_None) }
  { case 10 show ?case by (simp add: yields_None) }
next
  case (Suc n)
  note list = Suc.IH(1) [THEN yieldsD] and elseifs = Suc.IH(2) [THEN yieldsD] and cases = Suc.IH(3) [THEN yieldsD]
    and stmt = Suc.IH(10) [THEN yieldsD]
  { case 1 show ?case
      unfolding parse_stmts.simps Let_def by (intro yields_rules) (auto dest!: list stmt split: option.split) }
  { case 2 show ?case unfolding parse_elseifs.simps by (intro yields_rules) (auto dest!: list elseifs) }
  { case 3 show ?case unfolding parse_cases.simps Let_def by (intro yields_rules) (auto dest!: list cases) }
  { case 4 show ?case
      unfolding bucc_parse_if_stmt.simps by (intro yields_rules) (auto dest!: list elseifs split: if_splits) }
  { case 5 show ?case unfolding bucc_parse_select_stmt.simps by (intro yields_rules) (auto dest!: cases) }
  { case 6 show ?case unfolding bucc_parse_while_stmt.simps by (intro yields_rules) (auto dest!: list) }
  { case 7 show ?case unfolding bucc_parse_do_loop_stmt.simps Let_def by (intro yields_rules) (auto dest!: list) }
  { case 8 show ?case unfolding bucc_parse_for_stmt.simps Let_def by (intro yields_rules) (auto dest!: list) }
  { case 9 show ?case unfolding bucc_parse_try_catch_stmt.simps Let_def by (intro yields_rules) (auto dest!: list) }
  { case 10 show ?case
      unfolding bucc_parse_statement.simps Let_def
      by (intro yields_rules Suc.IH(4-9)) (auto dest: expression_no_eq split: option.split) }
qed

lemma procedure_clean:
  "yields (\<lambda>(d, q). case d of Some d \<Rightarrow> no_assign_decl d | None \<Rightarrow> True) (bucc_parse_procedure fo n p)"
  "yields (\<lambda>(d, q). case d of Some d \<Rightarrow> no_assign_decl d | None \<Rightarrow> True) (bucc_parse_function fo n p)"
  unfolding bucc_parse_procedure_def bucc_parse_function_def bucc_parse_block_def Let_def
  by (intro yields_rules; force dest: statements_clean(1) [THEN yieldsD])+

lemma decls_clean: "yields (\<lambda>(ds, q). list_all no_assign_decl ds) (parse_decls fo n p)"
proof (induction n arbitrary: p)
  case (Suc n)
  show ?case
    unfolding parse_decls.simps Let_def
    by (intro yields_rules) (auto dest!: Suc.IH [THEN yieldsD] procedure_clean [THEN yieldsD] split: option.split if_splits)
qed (simp add: yields_None)

text \<open>
  C39: No assignment is ever parsed. The statement parser first reads an expression and then looks for \<open>=\<close>; but \<open>=\<close> is also the operator
  of equality, so the expression has taken it already. Whatever the source, the tree of the module has no assignment in any of its
  procedures: \<open>x = 1\<close> is a comparison whose result is dropped.
\<close>

theorem assignments_are_never_parsed:
  assumes "parse_source fo n source file = Some (metas, m, err)"
  shows "list_all no_assign_decl (ast_procedures m)"
  using assms unfolding parse_source_def bucc_parse_module_def
  by (auto simp: Option.bind_eq_Some_conv dest!: decls_clean [THEN yieldsD])

definition assigning :: bytes where
  "assigning = ascii ''SUB m()'' @ [10] @ ascii ''x = 1'' @ [10] @ ascii ''END SUB''"

lemma assigning_parsed:
  "parse_source example_float 20 assigning 1 =
     Some ([], \<lparr>ast_globals = [], ast_procedures = [NODE_PROC_DECL (ascii ''m'') []
       [Stmt 2 1 (NODE_STMT_EXPR (NODE_EXPR_BINARY BINARY_EQ (NODE_EXPR_IDENT (ascii ''x'')) (NODE_EXPR_LITERAL (LI64 1))))]]\<rparr>, False)"
  by code_simp


theorem assignments_are_never_parsed_witness:
  "list_all no_assign_decl [NODE_PROC_DECL (ascii ''m'') []
     [Stmt 2 1 (NODE_STMT_EXPR (NODE_EXPR_BINARY BINARY_EQ (NODE_EXPR_IDENT (ascii ''x'')) (NODE_EXPR_LITERAL (LI64 1))))]]"
  using assignments_are_never_parsed [OF assigning_parsed] by simp

section \<open>A parser that does not return\<close>

text \<open>
  The keywords at which \<open>synchronize\<close> stops without taking them, and which do not start a declaration. In front of one of them
  the loop over the declarations of a module stays where it is.
\<close>

definition stuck_kinds :: "bucc_token_kind_t set" where
  "stuck_kinds = sync_kinds - {TOK_KW_SUB, TOK_KW_FUNCTION}"

lemma error_kind [simp]: "kind_at (error msg p) = kind_at p"
  by (simp add: error_def current_def)

lemma synchronize_stuck: "kind_at p \<in> sync_kinds \<Longrightarrow> kind_at (synchronize fo p) = kind_at p"
proof -
  assume *: "kind_at p \<in> sync_kinds"
  then have "kind_at p \<noteq> TOK_EOF" "kind_at p \<noteq> TOK_NEWLINE" by (auto simp: sync_kinds_def)
  then show ?thesis
    using * unfolding synchronize_def by (subst synchronize_loop.simps) (simp add: check_def current_def)
qed

lemma skip_newlines_kind: "kind_at p \<noteq> TOK_NEWLINE \<Longrightarrow> kind_at p \<noteq> TOK_COMMENT \<Longrightarrow> skip_newlines fo p = p"
  unfolding skip_newlines_def current_def by (subst bucc_lexer_skip_newlines.simps) simp

lemma stuck_kindsD:
  "k \<in> stuck_kinds \<Longrightarrow> k \<in> sync_kinds \<and> k \<notin> {TOK_EOF, TOK_NEWLINE, TOK_COMMENT, TOK_KW_SUB, TOK_KW_FUNCTION} \<and> k \<notin> set meta_kinds"
  by (auto simp: stuck_kinds_def sync_kinds_def meta_kinds_def)

lemma decls_stuck: "kind_at p \<in> stuck_kinds \<Longrightarrow> parse_decls fo n p = None"
proof (induction n arbitrary: p)
  case (Suc n)
  let ?q = "synchronize fo (error ''expected SUB or FUNCTION declaration'' p)"
  note k = stuck_kindsD [OF Suc.prems]
  have "kind_at ?q \<in> stuck_kinds" using synchronize_stuck [of "error ''expected SUB or FUNCTION declaration'' p" fo] k Suc.prems by simp
  then show ?case using Suc.IH k skip_newlines_kind [of p fo] by (simp add: check_def)
qed simp

text \<open>
  C40: The parser does not return on every source. If the text of a module starts with a keyword such as \<open>END\<close>, \<open>IF\<close> or \<open>WHILE\<close>
  outside of a procedure, the parser reports an error, recovers in front of the same keyword, and does so for ever:
  no number of rounds is enough, whatever follows.
\<close>

theorem parser_hangs_on_stray_keyword:
  assumes "list_all good_word (Fixed s k # ws)" "k \<in> stuck_kinds" "k \<noteq> TOK_KW_DIM"
  shows "parse_source fo n (program_text (Fixed s k # ws)) file = None"
proof -
  let ?p = "bucc_parser_init fo (bucc_lexer_init (program_text (Fixed s k # ws)) file \<lparr>d_entries = [], d_error_count = 0\<rparr>)"
  have "kind_at ?p = k"
    using at_kind(1) [of ?p "Fixed s k" ws] feeds_init(1) [OF assms(1)] by (simp add: at_def bucc_parser_init_def)
  note k = this stuck_kindsD [OF assms(2)]
  have "parse_decls fo n ?p = None" using decls_stuck k assms(2) by simp
  then show ?thesis
    using k assms(3) skip_newlines_kind [of ?p fo] unfolding parse_source_def bucc_parse_module_def
    by (cases n) (simp_all add: check_def)
qed

theorem parser_hangs_on_stray_keyword_witness:
  "\<forall>n. parse_source example_float n (ascii ''END '') 1 = None"
proof
  fix n
  have "list_all good_word [Fixed (ascii ''END'') TOK_KW_END]" by (simp add: keyword_table_def)
  from parser_hangs_on_stray_keyword [OF this] show "parse_source example_float n (ascii ''END '') 1 = None"
    by (simp add: program_text_def stuck_kinds_def sync_kinds_def ascii_def)
qed

end
