(* ===== verification/Acs.thy ===== *)
theory Acs
  imports Mutineer_Prelude "HOL-Library.Signed_Division"
begin

text \<open>
  Access control strings, \<^verbatim>\<open>src/acs.c\<close> and the flag letters of \<^verbatim>\<open>include/bbs_flags.h\<close>: the recursive
  descent evaluator with its precedence \<open>! > & > |\<close>, every test, and the simplified check of the
  standalone tools.

  \<^item> The parser's position is the rest of the string. The parser recurses as deep as the string nests;
    the first argument of the parser functions is the number of calls left, and \<^term>\<open>None\<close> is a stack
    that is exhausted.
  \<^item> The clock, the calendar, the database and the floating-point unit are fields of \<open>acs_env\<close>. The
    fields of a session and its user are those the evaluator reads; a C \<open>int\<close> is an \<^typ>\<open>int\<close> in its
    range.
\<close>

section \<open>Sessions and their surroundings\<close>

record DbUser =
  u_id :: int
  u_level :: int
  u_dsl :: int
  u_sex :: char
  u_birth_date :: string
  u_flags :: u32
  u_ac_flags :: u32
  u_credits :: int
  u_uploads :: int
  u_downloads :: int
  u_logged_on :: int
  u_msg_post :: int
  u_expires_at :: string
  u_dl_ratio_num :: int
  u_dl_ratio_den :: int
  u_post_ratio_num :: int
  u_post_ratio_den :: int

record Session =
  s_user :: DbUser
  s_has_db :: bool
  s_node_num :: int
  s_time_left_min :: int
  s_current_conf :: int

text \<open>
  \<open>a_subscription\<close> gives the type of the user's active subscription, if there is one; \<open>a_uninit\<close> is
  what the uninitialised part of the token buffer holds.
\<close>

record acs_env =
  a_year :: int
  a_month :: int
  a_mday :: int
  a_hour :: int
  a_wday :: int
  a_now :: int
  a_mktime :: "int \<Rightarrow> int \<Rightarrow> int \<Rightarrow> int"
  a_conf_member :: "int \<Rightarrow> int \<Rightarrow> bool"
  a_subscription :: "int \<Rightarrow> int option"
  a_float :: float_ops
  a_uninit :: char

definition ac_flag_from_char :: "char \<Rightarrow> u32" where
  "ac_flag_from_char c =
     (case map_of (zip ''LCVUA*PEKM1234'' [0..<14]) c of Some i \<Rightarrow> push_bit i 1 | None \<Rightarrow> 0)"

section \<open>Dates\<close>

definition ymd_format :: "scan_item list" where
  "ymd_format = [ScanInt, ScanChar CHR ''-'', ScanInt, ScanChar CHR ''-'', ScanInt]"

text \<open>Of years out of the range of an \<open>int\<close> the difference is taken modulo \<open>2^32\<close>.\<close>

definition calc_age :: "acs_env \<Rightarrow> string \<Rightarrow> int" where
  "calc_age env birth_date =
     (case c_sscanf ymd_format birth_date of
        [b_y, b_m, b_d] \<Rightarrow>
          let age = c_int (a_year env - b_y) in
          if a_month env < b_m \<or> (a_month env = b_m \<and> a_mday env < b_d) then c_int (age - 1) else age
      | _ \<Rightarrow> 0)"

text \<open>
  The quotient of the difference in seconds and \<open>86400.0\<close>, truncated; a difference of times is exact
  in a \<open>double\<close>.
\<close>

definition days_until_expiration :: "acs_env \<Rightarrow> string \<Rightarrow> int" where
  "days_until_expiration env expires_at =
     (case c_sscanf ymd_format expires_at of
        [y, m, d] \<Rightarrow> c_int ((a_mktime env (y - 1900) (m - 1) d - a_now env) sdiv 86400)
      | _ \<Rightarrow> 9999)"

section \<open>Tokens\<close>

definition is_delim :: "char \<Rightarrow> bool" where
  "is_delim c \<longleftrightarrow> c_isspace c \<or> c = CHR ''&'' \<or> c = CHR ''|'' \<or> c = CHR '')''"

definition skip_ws :: "string \<Rightarrow> string" where
  "skip_ws p = dropWhile c_isspace p"

text \<open>The token buffer has 64 bytes: 63 characters and the terminator. What follows it is uninitialised.\<close>

definition token_of :: "string \<Rightarrow> string" where
  "token_of p = map c_toupper (take 63 (takeWhile (\<lambda>c. \<not> is_delim c) p))"

definition tok_at :: "char \<Rightarrow> string \<Rightarrow> nat \<Rightarrow> char" where
  "tok_at uninit tok i = (if i < length tok then tok ! i else if i = length tok then CHR 0x00 else uninit)"

definition flag_bit :: "char \<Rightarrow> u32" where
  "flag_bit c = push_bit (code c - 65) 1"

definition has_flag :: "u32 \<Rightarrow> u32 \<Rightarrow> bool" where
  "has_flag flags msk \<longleftrightarrow> flags AND msk \<noteq> 0"

text \<open>\<open>X>N\<close>, \<open>X>=N\<close>, \<open>X<N\<close>, \<open>X<=N\<close>, \<open>X=N\<close> and \<open>X==N\<close>, on a three-way view of the numbers.\<close>

definition legacy_number :: "string \<Rightarrow> string" where
  "legacy_number tok = drop (if cstr_at tok 2 = CHR ''='' then 3 else 2) tok"

definition legacy_compare :: "string \<Rightarrow> bool \<Rightarrow> bool \<Rightarrow> bool" where
  "legacy_compare tok below eql =
     (let op1 = cstr_at tok 1; op2 = (cstr_at tok 2 = CHR ''='') in
      if op1 = CHR ''>'' \<and> op2 then \<not> below
      else if op1 = CHR ''<'' \<and> op2 then below \<or> eql
      else if op1 = CHR ''>'' then \<not> below \<and> \<not> eql
      else if op1 = CHR ''<'' then below
      else eql)"

definition is_relation :: "char \<Rightarrow> bool" where
  "is_relation c \<longleftrightarrow> c = CHR ''>'' \<or> c = CHR ''<'' \<or> c = CHR ''=''"

definition int_relation :: "string \<Rightarrow> int \<Rightarrow> bool" where
  "int_relation tok have_n =
     (let v = c_atoi (legacy_number tok) in legacy_compare tok (have_n < v) (have_n = v))"

text \<open>
  The relations of \<open>double\<close>s are written out because of NaN: each comparison is the one of the code.
\<close>

definition f_of_int :: "float_ops \<Rightarrow> int \<Rightarrow> f64" where
  "f_of_int fo n = f_of_i64 fo (word_of_int n)"

definition float_relation :: "float_ops \<Rightarrow> string \<Rightarrow> f64 \<Rightarrow> bool" where
  "float_relation fo tok ratio =
     (let op1 = cstr_at tok 1; op2 = (cstr_at tok 2 = CHR ''='');
          need = (case f_strtod fo (map of_char (legacy_number tok)) of Some d \<Rightarrow> d | None \<Rightarrow> f_zero fo);
          lt = f_lt fo ratio need; gt = f_lt fo need ratio; eq = f_eq fo ratio need in
      if op1 = CHR ''>'' \<and> op2 then gt \<or> eq
      else if op1 = CHR ''<'' \<and> op2 then lt \<or> eq
      else if op1 = CHR ''>'' then gt
      else if op1 = CHR ''<'' then lt
      else eq)"

definition dl_ratio :: "float_ops \<Rightarrow> Session option \<Rightarrow> f64" where
  "dl_ratio fo s =
     (case s of
        Some t \<Rightarrow>
          if 0 < u_dl_ratio_den (s_user t)
          then f_div fo (f_of_int fo (u_dl_ratio_num (s_user t))) (f_of_int fo (u_dl_ratio_den (s_user t)))
          else f_of_int fo 999
      | None \<Rightarrow> f_of_int fo 999)"

text \<open>\<open>s && p (s)\<close>, for a session that may be NULL.\<close>

definition on_session :: "Session option \<Rightarrow> (Session \<Rightarrow> bool) \<Rightarrow> bool" where
  "on_session s p = (case s of None \<Rightarrow> False | Some t \<Rightarrow> p t)"

definition on_user :: "Session option \<Rightarrow> (DbUser \<Rightarrow> bool) \<Rightarrow> bool" where
  "on_user s p = on_session s (\<lambda>t. p (s_user t))"

text \<open>Products of C integers wrap.\<close>

definition ratio_met :: "int \<Rightarrow> int \<Rightarrow> int \<Rightarrow> int \<Rightarrow> bool" where
  "ratio_met num den got base \<longleftrightarrow> num = 0 \<or> den = 0 \<or> base = 0 \<or> c_int (base * num) \<le> c_int (got * den)"

definition all_flags :: "Session option \<Rightarrow> string \<Rightarrow> bool" where
  "all_flags s fs = list_all (\<lambda>f. c_isupper f \<and> on_user s (\<lambda>u. has_flag (u_flags u) (flag_bit f))) fs"

text \<open>The tests, in the order of the code: the first form that matches decides.\<close>

definition eval_token :: "acs_env \<Rightarrow> Session option \<Rightarrow> string \<Rightarrow> bool" where
  "eval_token env s tok =
     (let t0 = cstr_at tok 0; t1 = cstr_at tok 1; t2 = tok_at (a_uninit env) tok 2;
          num = c_isdigit t1; need = c_atoi (drop 1 tok); stop1 = (t1 = CHR 0x00); stop2 = (t2 = CHR 0x00) in
      if t0 = CHR ''S'' \<and> num then on_user s (\<lambda>u. need \<le> u_level u)
      else if t0 = CHR ''S'' \<and> t1 = CHR ''L'' then on_user s (\<lambda>u. c_atoi (drop 2 tok) \<le> u_level u)
      else if t0 = CHR ''L'' \<and> num then on_user s (\<lambda>u. need \<le> u_level u)
      else if t0 = CHR ''D'' \<and> num then on_user s (\<lambda>u. need \<le> u_dsl u)
      else if t0 = CHR ''F'' \<and> c_isupper t1 \<and> stop2 then on_user s (\<lambda>u. has_flag (u_flags u) (flag_bit t1))
      else if t0 = CHR ''R'' \<and> stop2 then
        (let msk = ac_flag_from_char t1 in msk \<noteq> 0 \<and> on_user s (\<lambda>u. has_flag (u_ac_flags u) msk))
      else if t0 = CHR ''A'' \<and> num then
        need \<le> (case s of None \<Rightarrow> 0 | Some t \<Rightarrow> calc_age env (u_birth_date (s_user t)))
      else if t0 = CHR ''B'' \<and> num then True
      else if t0 = CHR ''C'' \<and> num then on_user s (\<lambda>u. need \<le> u_logged_on u)
      else if t0 = CHR ''C'' \<and> c_isupper t1 \<and> stop2 then on_session s (\<lambda>t. s_current_conf t = int (code t1) - 65)
      else if t0 = CHR ''G'' \<and> (t1 = CHR ''M'' \<or> t1 = CHR ''F'') \<and> stop2 then on_user s (\<lambda>u. u_sex u = t1)
      else if t0 = CHR ''H'' \<and> num then a_hour env = need
      else if t0 = CHR ''N'' \<and> num then on_session s (\<lambda>t. s_node_num t = need)
      else if t0 = CHR ''P'' \<and> num then on_user s (\<lambda>u. need \<le> u_credits u)
      else if t0 = CHR ''T'' \<and> num then on_session s (\<lambda>t. need \<le> s_time_left_min t)
      else if t0 = CHR ''U'' \<and> num then on_user s (\<lambda>u. u_id u = need)
      else if t0 = CHR ''V'' \<and> stop1 then
        on_user s (\<lambda>u. u_expires_at u = [] \<or> 0 < days_until_expiration env (u_expires_at u))
      else if t0 = CHR ''W'' \<and> num then a_wday env = need
      else if t0 = CHR ''X'' \<and> num then on_user s (\<lambda>u. days_until_expiration env (u_expires_at u) \<le> need)
      else if t0 = CHR ''Z'' \<and> stop1 then
        on_user s (\<lambda>u. u_post_ratio_den u = 0 \<or> u_logged_on u sdiv u_post_ratio_den u \<le> u_msg_post u)
      else if t0 = CHR ''P'' \<and> t1 = CHR ''C'' \<and> stop2 then
        on_user s (\<lambda>u. ratio_met (u_post_ratio_num u) (u_post_ratio_den u) (u_msg_post u) (u_logged_on u))
      else if t0 = CHR ''D'' \<and> t1 = CHR ''R'' \<and> stop2 then
        on_user s (\<lambda>u. ratio_met (u_dl_ratio_num u) (u_dl_ratio_den u) (u_uploads u) (u_downloads u))
      else if t0 = CHR ''J'' \<and> num then
        on_session s (\<lambda>t. s_has_db t \<and> a_conf_member env (u_id (s_user t)) need)
      else if t0 = CHR ''E'' \<and> num then
        on_session s (\<lambda>t. s_has_db t \<and>
          (case a_subscription env (u_id (s_user t)) of None \<Rightarrow> False | Some ty \<Rightarrow> need = 0 \<or> ty = need))
      else if t0 = CHR ''+'' then c_isupper t1 \<and> on_user s (\<lambda>u. has_flag (u_flags u) (flag_bit t1))
      else if t0 = CHR ''A'' \<and> t1 = CHR ''R'' then all_flags s (drop 2 tok)
      else if t0 = CHR ''C'' \<and> is_relation t1 then
        int_relation tok (case s of None \<Rightarrow> 0 | Some t \<Rightarrow> u_credits (s_user t))
      else if t0 = CHR ''R'' \<and> is_relation t1 then float_relation (a_float env) tok (dl_ratio (a_float env) s)
      else if t0 = CHR ''T'' \<and> is_relation t1 then
        int_relation tok (case s of None \<Rightarrow> 0 | Some t \<Rightarrow> s_time_left_min t)
      else False)"

section \<open>The parser\<close>

text \<open>The value of the expression and the rest of the string.\<close>

function (sequential) eval_term :: "nat \<Rightarrow> acs_env \<Rightarrow> Session option \<Rightarrow> string \<Rightarrow> (bool \<times> string) option"
  and eval_factor :: "nat \<Rightarrow> acs_env \<Rightarrow> Session option \<Rightarrow> string \<Rightarrow> (bool \<times> string) option"
  and factor_loop :: "nat \<Rightarrow> acs_env \<Rightarrow> Session option \<Rightarrow> bool \<Rightarrow> string \<Rightarrow> (bool \<times> string) option"
  and eval_expr :: "nat \<Rightarrow> acs_env \<Rightarrow> Session option \<Rightarrow> string \<Rightarrow> (bool \<times> string) option"
  and expr_loop :: "nat \<Rightarrow> acs_env \<Rightarrow> Session option \<Rightarrow> bool \<Rightarrow> string \<Rightarrow> (bool \<times> string) option" where
  "eval_term 0 env s p = None"
| "eval_term (Suc n) env s p =
     (let q = skip_ws p in
      if cstr_at q 0 = CHR ''!'' then do { (v, r) \<leftarrow> eval_term n env s (tl q); Some (\<not> v, r) }
      else if cstr_at q 0 = CHR ''('' then do {
        (v, r) \<leftarrow> eval_expr n env s (tl q);
        let r = skip_ws r;
        Some (v, if cstr_at r 0 = CHR '')'' then tl r else r) }
      else if q = [] \<or> is_delim (hd q) then Some (False, q)
      else Some (eval_token env s (token_of q), dropWhile (\<lambda>c. \<not> is_delim c) q))"
| "eval_factor 0 env s p = None"
| "eval_factor (Suc n) env s p = do {
     (left, p) \<leftarrow> eval_term n env s p;
     factor_loop n env s left (skip_ws p) }"
| "factor_loop 0 env s left p = None"
| "factor_loop (Suc n) env s left p =
     (if cstr_at p 0 = CHR ''&'' then do {
        (right, r) \<leftarrow> eval_term n env s (tl p);
        factor_loop n env s (left \<and> right) (skip_ws r) }
      else Some (left, p))"
| "eval_expr 0 env s p = None"
| "eval_expr (Suc n) env s p = do {
     (left, p) \<leftarrow> eval_factor n env s p;
     expr_loop n env s left (skip_ws p) }"
| "expr_loop 0 env s left p = None"
| "expr_loop (Suc n) env s left p =
     (if cstr_at p 0 = CHR ''|'' then do {
        (right, r) \<leftarrow> eval_factor n env s (tl p);
        expr_loop n env s (left \<or> right) (skip_ws r) }
      else Some (left, p))"
  by pat_completeness simp_all
termination
  by (relation "measure (\<lambda>x. case x of Inl (Inl (n, _)) \<Rightarrow> n | Inl (Inr (n, _)) \<Rightarrow> n
        | Inr (Inl (n, _)) \<Rightarrow> n | Inr (Inr (Inl (n, _))) \<Rightarrow> n | Inr (Inr (Inr (n, _))) \<Rightarrow> n)")
    simp_all

text \<open>An access string that is NULL or empty allows everyone.\<close>

definition acs_allows :: "nat \<Rightarrow> acs_env \<Rightarrow> Session option \<Rightarrow> string option \<Rightarrow> bool option" where
  "acs_allows n env s acs =
     (case acs of
        None \<Rightarrow> Some True
      | Some [] \<Rightarrow> Some True
      | Some p \<Rightarrow> map_option fst (eval_expr n env s p))"

section \<open>The check of the standalone tools\<close>

text \<open>One token: whether it denies access. Everything else is passed over.\<close>

definition check_denies :: "char \<Rightarrow> int \<Rightarrow> u32 \<Rightarrow> u32 \<Rightarrow> string \<Rightarrow> bool" where
  "check_denies uninit level ar_flags ac_flags tok =
     (let t0 = cstr_at tok 0; t1 = cstr_at tok 1; t2 = tok_at uninit tok 2 in
      if t0 = CHR ''S'' \<and> c_isdigit t1 then level < c_atoi (drop 1 tok)
      else if t0 = CHR ''S'' \<and> t1 = CHR ''L'' then level < c_atoi (drop 2 tok)
      else if t0 = CHR ''F'' \<and> c_isupper t1 \<and> t2 = CHR 0x00 then \<not> has_flag ar_flags (flag_bit t1)
      else if t0 = CHR ''+'' \<and> c_isupper t1 then \<not> has_flag ar_flags (flag_bit t1)
      else if t0 = CHR ''R'' \<and> t2 = CHR 0x00 then
        (let msk = ac_flag_from_char t1 in msk \<noteq> 0 \<and> \<not> has_flag ac_flags msk)
      else False)"

definition check_skip :: "string \<Rightarrow> string" where
  "check_skip p = dropWhile (\<lambda>c. c_isspace c \<or> c = CHR ''&'' \<or> c = CHR ''|'') p"

text \<open>A token is at most 63 characters long; the rest of a longer word is the next token.\<close>

definition check_word :: "string \<Rightarrow> string" where
  "check_word p = take 63 (takeWhile (\<lambda>c. \<not> is_delim c) p)"

lemma check_skip_length: "length (check_skip p) \<le> length p"
  by (simp add: check_skip_def length_dropWhile_le)

function check_loop :: "char \<Rightarrow> int \<Rightarrow> u32 \<Rightarrow> u32 \<Rightarrow> string \<Rightarrow> bool" where
  "check_loop uninit level ar_flags ac_flags p =
     (let q = check_skip p; w = check_word q in
      if w = [] then True
      else if check_denies uninit level ar_flags ac_flags (map c_toupper w) then False
      else check_loop uninit level ar_flags ac_flags (drop (length w) q))"
  by pat_completeness auto
termination
  using check_skip_length
  by (relation "measure (\<lambda>(_, _, _, _, p). length p)")
    (auto simp: check_word_def Let_def intro: le_less_trans diff_less_mono2 intro!: less_le_trans [OF diff_less])

declare check_loop.simps [simp del]

definition acs_check :: "char \<Rightarrow> string option \<Rightarrow> int \<Rightarrow> u32 \<Rightarrow> u32 \<Rightarrow> bool" where
  "acs_check uninit acs level ar_flags ac_flags =
     (case acs of
        None \<Rightarrow> True
      | Some p \<Rightarrow> check_loop uninit level ar_flags ac_flags p)"

section \<open>The stack that is needed\<close>

lemma skip_ws_length: "length (skip_ws p) \<le> length p"
  by (simp add: skip_ws_def length_dropWhile_le)

lemma skip_ws_idem [simp]: "skip_ws (skip_ws p) = skip_ws p"
  by (simp add: skip_ws_def dropWhile_idem)

text \<open>\<open>rests n m l\<close>: with \<open>n\<close> calls the outcome \<open>m\<close> is a value and a rest no longer than \<open>l\<close>.\<close>

definition rests :: "nat \<Rightarrow> (bool \<times> string) option \<Rightarrow> bool" where
  "rests l m \<longleftrightarrow> (\<exists>v r. m = Some (v, r) \<and> length r \<le> l)"

lemma rests_bind:
  "rests l m \<Longrightarrow> (\<And>v r. length r \<le> l \<Longrightarrow> rests l' (f v r)) \<Longrightarrow> rests l' (m \<bind> (\<lambda>(v, r). f v r))"
  by (auto simp: rests_def)

lemma rests_Some: "length r \<le> l \<Longrightarrow> rests l (Some (v, r))" by (simp add: rests_def)

lemma tl_shorter: "cstr_at q 0 = c \<Longrightarrow> c \<noteq> CHR 0x00 \<Longrightarrow> length q \<le> l \<Longrightarrow> length (tl q) < l"
  by (cases q) auto

lemma rests_mono: "rests l m \<Longrightarrow> l \<le> l' \<Longrightarrow> rests l' m"
  by (auto simp: rests_def)

lemma ws_le: "length r \<le> l \<Longrightarrow> length (skip_ws r) \<le> l"
  using skip_ws_length [of r] by linarith

definition calls_suffice :: "acs_env \<Rightarrow> Session option \<Rightarrow> nat \<Rightarrow> bool" where
  "calls_suffice env s n \<longleftrightarrow>
     (\<forall>p l. length p \<le> l \<longrightarrow> 3 * l + 1 \<le> n \<longrightarrow> rests l (eval_term n env s p)) \<and>
     (\<forall>p l. length p \<le> l \<longrightarrow> 3 * l + 2 \<le> n \<longrightarrow> rests l (eval_factor n env s p)) \<and>
     (\<forall>p l left. length p \<le> l \<longrightarrow> 3 * l + 1 \<le> n \<longrightarrow> rests l (factor_loop n env s left p)) \<and>
     (\<forall>p l. length p \<le> l \<longrightarrow> 3 * l + 3 \<le> n \<longrightarrow> rests l (eval_expr n env s p)) \<and>
     (\<forall>p l left. length p \<le> l \<longrightarrow> 3 * l + 2 \<le> n \<longrightarrow> rests l (expr_loop n env s left p))"

lemma calls_sufficeD:
  assumes "calls_suffice env s n" "length p \<le> l"
  shows "3 * l + 1 \<le> n \<Longrightarrow> rests l (eval_term n env s p)" "3 * l + 2 \<le> n \<Longrightarrow> rests l (eval_factor n env s p)"
    "3 * l + 1 \<le> n \<Longrightarrow> rests l (factor_loop n env s left p)" "3 * l + 3 \<le> n \<Longrightarrow> rests l (eval_expr n env s p)"
    "3 * l + 2 \<le> n \<Longrightarrow> rests l (expr_loop n env s left p)"
  using assms by (simp_all add: calls_suffice_def)

lemma term_suffices:
  assumes ih: "calls_suffice env s n" and l: "length p \<le> l" "3 * l \<le> n"
  shows "rests l (eval_term (Suc n) env s p)"
proof -
  let ?q = "skip_ws p"
  have q: "length ?q \<le> l" using l(1) by (rule ws_le)
  have drop: "length (dropWhile (\<lambda>c. \<not> is_delim c) ?q) \<le> l"
    using q length_dropWhile_le [of "\<lambda>c. \<not> is_delim c" ?q] by linarith
  show ?thesis
  proof (cases "cstr_at ?q 0 = CHR ''!''")
    case True
    then have "length (tl ?q) < l" using q by (intro tl_shorter [of _ "CHR ''!''"]) simp_all
    then have "length (tl ?q) \<le> l - 1" "3 * (l - 1) + 1 \<le> n" using l by auto
    then have "rests (l - 1) (eval_term n env s (tl ?q))" by (rule calls_sufficeD(1) [OF ih])
    then have "rests l (eval_term n env s (tl ?q))" by (rule rests_mono) simp
    then have "rests l (do { (v, r) \<leftarrow> eval_term n env s (tl ?q); Some (\<not> v, r) })"
      by (rule rests_bind) (rule rests_Some)
    then show ?thesis using True by (simp add: Let_def)
  next
    case ne: False
    show ?thesis
    proof (cases "cstr_at ?q 0 = CHR ''(''")
      case True
      then have "length (tl ?q) < l" using q by (intro tl_shorter [of _ "CHR ''(''"]) simp_all
      then have "length (tl ?q) \<le> l - 1" "3 * (l - 1) + 3 \<le> n" using l by auto
      then have "rests (l - 1) (eval_expr n env s (tl ?q))" by (rule calls_sufficeD(4) [OF ih])
      then have "rests l (eval_expr n env s (tl ?q))" by (rule rests_mono) simp
      moreover have "length (if cstr_at (skip_ws r) 0 = CHR '')'' then tl (skip_ws r) else skip_ws r) \<le> l"
        if "length r \<le> l" for r
        using ws_le [OF that] by auto
      ultimately have "rests l (do { (v, r) \<leftarrow> eval_expr n env s (tl ?q); let r = skip_ws r;
          Some (v, if cstr_at r 0 = CHR '')'' then tl r else r) })"
        unfolding Let_def by (blast intro: rests_bind rests_Some)
      then show ?thesis using True by (simp add: Let_def)
    next
      case False
      then show ?thesis using ne q drop by (simp add: Let_def rests_Some)
    qed
  qed
qed

lemma loops_suffice:
  assumes ih: "calls_suffice env s n" and l: "length p \<le> l"
  shows "3 * l \<le> n \<Longrightarrow> rests l (factor_loop (Suc n) env s left p)"
    "3 * l + 1 \<le> n \<Longrightarrow> rests l (expr_loop (Suc n) env s left p)"
proof -
  assume n: "3 * l \<le> n"
  show "rests l (factor_loop (Suc n) env s left p)"
  proof (cases "cstr_at p 0 = CHR ''&''")
    case True
    then have "length (tl p) < l" using l by (intro tl_shorter [of _ "CHR ''&''"]) simp_all
    then have "length (tl p) \<le> l - 1" "3 * (l - 1) + 1 \<le> n" using n by auto
    then have "rests (l - 1) (do { (right, r) \<leftarrow> eval_term n env s (tl p); factor_loop n env s (left \<and> right) (skip_ws r) })"
      by (intro rests_bind [OF calls_sufficeD(1) [OF ih]] calls_sufficeD(3) [OF ih] ws_le)
    then have "rests l (do { (right, r) \<leftarrow> eval_term n env s (tl p); factor_loop n env s (left \<and> right) (skip_ws r) })"
      by (rule rests_mono) simp
    then show ?thesis using True by simp
  qed (use l in \<open>simp add: rests_Some\<close>)
next
  assume n: "3 * l + 1 \<le> n"
  show "rests l (expr_loop (Suc n) env s left p)"
  proof (cases "cstr_at p 0 = CHR ''|''")
    case True
    then have "length (tl p) < l" using l by (intro tl_shorter [of _ "CHR ''|''"]) simp_all
    then have "length (tl p) \<le> l - 1" "3 * (l - 1) + 2 \<le> n" using n by auto
    then have "rests (l - 1) (do { (right, r) \<leftarrow> eval_factor n env s (tl p); expr_loop n env s (left \<or> right) (skip_ws r) })"
      by (intro rests_bind [OF calls_sufficeD(2) [OF ih]] calls_sufficeD(5) [OF ih] ws_le)
    then have "rests l (do { (right, r) \<leftarrow> eval_factor n env s (tl p); expr_loop n env s (left \<or> right) (skip_ws r) })"
      by (rule rests_mono) simp
    then show ?thesis using True by simp
  qed (use l in \<open>simp add: rests_Some\<close>)
qed

lemma calls_always_suffice: "calls_suffice env s n"
proof (induction n)
  case 0
  then show ?case by (simp add: calls_suffice_def)
next
  case (Suc n)
  have "rests l (eval_factor (Suc n) env s p)" if "length p \<le> l" "3 * l + 2 \<le> Suc n" for p l
    unfolding eval_factor.simps using that
    by (intro rests_bind [OF calls_sufficeD(1) [OF Suc.IH]] calls_sufficeD(3) [OF Suc.IH] ws_le) auto
  moreover have "rests l (eval_expr (Suc n) env s p)" if "length p \<le> l" "3 * l + 3 \<le> Suc n" for p l
    unfolding eval_expr.simps using that
    by (intro rests_bind [OF calls_sufficeD(2) [OF Suc.IH]] calls_sufficeD(5) [OF Suc.IH] ws_le) auto
  moreover have "rests l (eval_term (Suc n) env s p)" if "length p \<le> l" "3 * l + 1 \<le> Suc n" for p l
    using that by (intro term_suffices [OF Suc.IH]) simp_all
  moreover have "rests l (factor_loop (Suc n) env s left p)" if "length p \<le> l" "3 * l + 1 \<le> Suc n" for p l left
    using that by (intro loops_suffice(1) [OF Suc.IH]) simp_all
  moreover have "rests l (expr_loop (Suc n) env s left p)" if "length p \<le> l" "3 * l + 2 \<le> Suc n" for p l left
    using that by (intro loops_suffice(2) [OF Suc.IH]) simp_all
  ultimately show ?case by (simp add: calls_suffice_def del: eval_term.simps eval_factor.simps factor_loop.simps
        eval_expr.simps expr_loop.simps)
qed

text \<open>More calls change nothing.\<close>

lemma bind_more:
  "m \<bind> f = Some y \<Longrightarrow> (\<And>x. m = Some x \<Longrightarrow> m' = Some x) \<Longrightarrow> (\<And>x. f x = Some y \<Longrightarrow> f' x = Some y) \<Longrightarrow> m' \<bind> f' = Some y"
  by (auto simp: bind_eq_Some_conv)

lemma bind_more_pair:
  "m \<bind> (\<lambda>(v, r). f v r) = Some y \<Longrightarrow> (\<And>x. m = Some x \<Longrightarrow> m' = Some x) \<Longrightarrow>
   (\<And>v r. f v r = Some y \<Longrightarrow> f' v r = Some y) \<Longrightarrow> m' \<bind> (\<lambda>(v, r). f' v r) = Some y"
  by (auto simp: bind_eq_Some_conv)

lemma one_more_call:
  "(\<forall>p x. eval_term n env s p = Some x \<longrightarrow> eval_term (Suc n) env s p = Some x) \<and>
   (\<forall>p x. eval_factor n env s p = Some x \<longrightarrow> eval_factor (Suc n) env s p = Some x) \<and>
   (\<forall>left p x. factor_loop n env s left p = Some x \<longrightarrow> factor_loop (Suc n) env s left p = Some x) \<and>
   (\<forall>p x. eval_expr n env s p = Some x \<longrightarrow> eval_expr (Suc n) env s p = Some x) \<and>
   (\<forall>left p x. expr_loop n env s left p = Some x \<longrightarrow> expr_loop (Suc n) env s left p = Some x)"
proof (induction n)
  case 0
  then show ?case by simp
next
  case (Suc n)
  note ih = Suc.IH [THEN conjunct1, rule_format] Suc.IH [THEN conjunct2, THEN conjunct1, rule_format]
    Suc.IH [THEN conjunct2, THEN conjunct2, THEN conjunct1, rule_format]
    Suc.IH [THEN conjunct2, THEN conjunct2, THEN conjunct2, THEN conjunct1, rule_format]
    Suc.IH [THEN conjunct2, THEN conjunct2, THEN conjunct2, THEN conjunct2, rule_format]
  have "eval_term (Suc (Suc n)) env s p = Some x" if "eval_term (Suc n) env s p = Some x" for p x
  proof -
    let ?q = "skip_ws p"
    consider "cstr_at ?q 0 = CHR ''!''" | "cstr_at ?q 0 = CHR ''(''" |
      "cstr_at ?q 0 \<noteq> CHR ''!''" "cstr_at ?q 0 \<noteq> CHR ''(''" by blast
    then show ?thesis
    proof cases
      case 1
      have "eval_term n env s (tl ?q) \<bind> (\<lambda>(v, r). Some (\<not> v, r)) = Some x"
        using that 1 by simp
      then have "eval_term (Suc n) env s (tl ?q) \<bind> (\<lambda>(v, r). Some (\<not> v, r)) = Some x"
        by (rule bind_more_pair) (rule ih(1))
      then show ?thesis using 1 by (simp only: eval_term.simps(2) [of "Suc n"] Let_def if_True simp_thms)
    next
      case 2
      let ?f = "\<lambda>v r. let r = skip_ws r in Some (v, if cstr_at r 0 = CHR '')'' then tl r else r)"
      have "eval_expr n env s (tl ?q) \<bind> (\<lambda>(v, r). ?f v r) = Some x"
        using that 2 by simp
      then have "eval_expr (Suc n) env s (tl ?q) \<bind> (\<lambda>(v, r). ?f v r) = Some x"
        by (rule bind_more_pair) (rule ih(4))
      then show ?thesis using 2 by (simp del: eval_expr.simps)
    next
      case 3
      then show ?thesis using that by simp
    qed
  qed
  moreover have "eval_factor (Suc (Suc n)) env s p = Some x" if "eval_factor (Suc n) env s p = Some x" for p x
    using that unfolding eval_factor.simps(2) by (rule bind_more_pair) (rule ih(1), assumption, rule ih(3))
  moreover have "eval_expr (Suc (Suc n)) env s p = Some x" if "eval_expr (Suc n) env s p = Some x" for p x
    using that unfolding eval_expr.simps(2) by (rule bind_more_pair) (rule ih(2), assumption, rule ih(5))
  moreover have "factor_loop (Suc (Suc n)) env s left p = Some x" if "factor_loop (Suc n) env s left p = Some x" for left p x
  proof (cases "cstr_at p 0 = CHR ''&''")
    case True
    then have "eval_term n env s (tl p) \<bind> (\<lambda>(right, r). factor_loop n env s (left \<and> right) (skip_ws r)) = Some x"
      using that by simp
    then have "eval_term (Suc n) env s (tl p) \<bind> (\<lambda>(right, r). factor_loop (Suc n) env s (left \<and> right) (skip_ws r)) = Some x"
      by (rule bind_more_pair) (rule ih(1), assumption, rule ih(3))
    then show ?thesis using True by (simp only: factor_loop.simps(2) [of "Suc n"] if_True simp_thms)
  qed (use that in simp)
  moreover have "expr_loop (Suc (Suc n)) env s left p = Some x" if "expr_loop (Suc n) env s left p = Some x" for left p x
  proof (cases "cstr_at p 0 = CHR ''|''")
    case True
    then have "eval_factor n env s (tl p) \<bind> (\<lambda>(right, r). expr_loop n env s (left \<or> right) (skip_ws r)) = Some x"
      using that by simp
    then have "eval_factor (Suc n) env s (tl p) \<bind> (\<lambda>(right, r). expr_loop (Suc n) env s (left \<or> right) (skip_ws r)) = Some x"
      by (rule bind_more_pair) (rule ih(2), assumption, rule ih(5))
    then show ?thesis using True by (simp only: expr_loop.simps(2) [of "Suc n"] if_True simp_thms)
  qed (use that in simp)
  ultimately show ?case by blast
qed

lemma more_calls:
  "eval_term n env s p = Some x \<Longrightarrow> n \<le> m \<Longrightarrow> eval_term m env s p = Some x"
  "eval_factor n env s p = Some x \<Longrightarrow> n \<le> m \<Longrightarrow> eval_factor m env s p = Some x"
  "factor_loop n env s left p = Some x \<Longrightarrow> n \<le> m \<Longrightarrow> factor_loop m env s left p = Some x"
  "eval_expr n env s p = Some x \<Longrightarrow> n \<le> m \<Longrightarrow> eval_expr m env s p = Some x"
  "expr_loop n env s left p = Some x \<Longrightarrow> n \<le> m \<Longrightarrow> expr_loop m env s left p = Some x"
proof -
  have up: "f m = Some x" if "f n = Some x" "n \<le> m" "\<And>k. f k = Some x \<Longrightarrow> f (Suc k) = Some x" for f :: "nat \<Rightarrow> (bool \<times> string) option"
    using that(2) by (induction m rule: dec_induct) (auto intro: that)
  show "eval_term n env s p = Some x \<Longrightarrow> n \<le> m \<Longrightarrow> eval_term m env s p = Some x"
    by (rule up [of "\<lambda>n. eval_term n env s p"]) (use one_more_call in blast)+
  show "eval_factor n env s p = Some x \<Longrightarrow> n \<le> m \<Longrightarrow> eval_factor m env s p = Some x"
    by (rule up [of "\<lambda>n. eval_factor n env s p"]) (use one_more_call in blast)+
  show "factor_loop n env s left p = Some x \<Longrightarrow> n \<le> m \<Longrightarrow> factor_loop m env s left p = Some x"
    by (rule up [of "\<lambda>n. factor_loop n env s left p"]) (use one_more_call in blast)+
  show "eval_expr n env s p = Some x \<Longrightarrow> n \<le> m \<Longrightarrow> eval_expr m env s p = Some x"
    by (rule up [of "\<lambda>n. eval_expr n env s p"]) (use one_more_call in blast)+
  show "expr_loop n env s left p = Some x \<Longrightarrow> n \<le> m \<Longrightarrow> expr_loop m env s left p = Some x"
    by (rule up [of "\<lambda>n. expr_loop n env s left p"]) (use one_more_call in blast)+
qed

section \<open>The grammar\<close>

text \<open>Access expressions, their meaning, and how they are written: brackets only where they are needed.\<close>

datatype acs_expr = Test string | Neg acs_expr | Conj acs_expr acs_expr | Disj acs_expr acs_expr

fun meaning :: "acs_env \<Rightarrow> Session option \<Rightarrow> acs_expr \<Rightarrow> bool" where
  "meaning env s (Test t) = eval_token env s (map c_toupper (take 63 t))"
| "meaning env s (Neg e) = (\<not> meaning env s e)"
| "meaning env s (Conj a b) = (meaning env s a \<and> meaning env s b)"
| "meaning env s (Disj a b) = (meaning env s a \<or> meaning env s b)"

definition bracket :: "bool \<Rightarrow> string \<Rightarrow> string" where
  "bracket b t = (if b then ''('' @ t @ '')'' else t)"

fun written :: "nat \<Rightarrow> acs_expr \<Rightarrow> string" where
  "written d (Test t) = t"
| "written d (Neg e) = ''!'' @ written 2 e"
| "written d (Conj a b) = bracket (1 < d) (written 1 a @ ''&'' @ written 2 b)"
| "written d (Disj a b) = bracket (0 < d) (written 0 a @ ''|'' @ written 1 b)"

fun tests_ok :: "acs_expr \<Rightarrow> bool" where
  "tests_ok (Test t) \<longleftrightarrow> t \<noteq> [] \<and> list_all (\<lambda>c. \<not> is_delim c) t \<and> hd t \<noteq> CHR ''!'' \<and> hd t \<noteq> CHR ''('' \<and> hd t \<noteq> CHR 0x00"
| "tests_ok (Neg e) \<longleftrightarrow> tests_ok e"
| "tests_ok (Conj a b) \<longleftrightarrow> tests_ok a \<and> tests_ok b"
| "tests_ok (Disj a b) \<longleftrightarrow> tests_ok a \<and> tests_ok b"

text \<open>The parser without its stack: each function, with some number of calls.\<close>

definition terms_to :: "acs_env \<Rightarrow> Session option \<Rightarrow> string \<Rightarrow> bool \<Rightarrow> string \<Rightarrow> bool" where
  "terms_to env s p v r \<longleftrightarrow> (\<exists>n. eval_term n env s p = Some (v, r))"

definition factors_to :: "acs_env \<Rightarrow> Session option \<Rightarrow> string \<Rightarrow> bool \<Rightarrow> string \<Rightarrow> bool" where
  "factors_to env s p v r \<longleftrightarrow> (\<exists>n. eval_factor n env s p = Some (v, r))"

definition floops_to :: "acs_env \<Rightarrow> Session option \<Rightarrow> bool \<Rightarrow> string \<Rightarrow> bool \<Rightarrow> string \<Rightarrow> bool" where
  "floops_to env s l p v r \<longleftrightarrow> (\<exists>n. factor_loop n env s l p = Some (v, r))"

definition exprs_to :: "acs_env \<Rightarrow> Session option \<Rightarrow> string \<Rightarrow> bool \<Rightarrow> string \<Rightarrow> bool" where
  "exprs_to env s p v r \<longleftrightarrow> (\<exists>n. eval_expr n env s p = Some (v, r))"

definition eloops_to :: "acs_env \<Rightarrow> Session option \<Rightarrow> bool \<Rightarrow> string \<Rightarrow> bool \<Rightarrow> string \<Rightarrow> bool" where
  "eloops_to env s l p v r \<longleftrightarrow> (\<exists>n. expr_loop n env s l p = Some (v, r))"

lemma factors_toI:
  assumes "terms_to env s p w q" "floops_to env s w (skip_ws q) v r"
  shows "factors_to env s p v r"
proof -
  obtain n m where "eval_term n env s p = Some (w, q)" "factor_loop m env s w (skip_ws q) = Some (v, r)"
    using assms by (auto simp: terms_to_def floops_to_def)
  then have "eval_factor (Suc (max n m)) env s p = Some (v, r)"
    using more_calls(1) [of n env s p "(w, q)" "max n m"] more_calls(3) [of m env s w "skip_ws q" "(v, r)" "max n m"] by simp
  then show ?thesis unfolding factors_to_def by blast
qed

lemma exprs_toI:
  assumes "factors_to env s p w q" "eloops_to env s w (skip_ws q) v r"
  shows "exprs_to env s p v r"
proof -
  obtain n m where "eval_factor n env s p = Some (w, q)" "expr_loop m env s w (skip_ws q) = Some (v, r)"
    using assms by (auto simp: factors_to_def eloops_to_def)
  then have "eval_expr (Suc (max n m)) env s p = Some (v, r)"
    using more_calls(2) [of n env s p "(w, q)" "max n m"] more_calls(5) [of m env s w "skip_ws q" "(v, r)" "max n m"] by simp
  then show ?thesis unfolding exprs_to_def by blast
qed

lemma floops_toI:
  assumes "terms_to env s p w q" "floops_to env s (l \<and> w) (skip_ws q) v r"
  shows "floops_to env s l (CHR ''&'' # p) v r"
proof -
  obtain n m where "eval_term n env s p = Some (w, q)" "factor_loop m env s (l \<and> w) (skip_ws q) = Some (v, r)"
    using assms by (auto simp: terms_to_def floops_to_def)
  then have "factor_loop (Suc (max n m)) env s l (CHR ''&'' # p) = Some (v, r)"
    using more_calls(1) [of n env s p "(w, q)" "max n m"] more_calls(3) [of m env s "l \<and> w" "skip_ws q" "(v, r)" "max n m"]
    by simp
  then show ?thesis unfolding floops_to_def by blast
qed

lemma eloops_toI:
  assumes "factors_to env s p w q" "eloops_to env s (l \<or> w) (skip_ws q) v r"
  shows "eloops_to env s l (CHR ''|'' # p) v r"
proof -
  obtain n m where "eval_factor n env s p = Some (w, q)" "expr_loop m env s (l \<or> w) (skip_ws q) = Some (v, r)"
    using assms by (auto simp: factors_to_def eloops_to_def)
  then have "expr_loop (Suc (max n m)) env s l (CHR ''|'' # p) = Some (v, r)"
    using more_calls(2) [of n env s p "(w, q)" "max n m"] more_calls(5) [of m env s "l \<or> w" "skip_ws q" "(v, r)" "max n m"]
    by simp
  then show ?thesis unfolding eloops_to_def by blast
qed

lemma loops_end:
  "cstr_at p 0 \<noteq> CHR ''&'' \<Longrightarrow> floops_to env s l p l p" "cstr_at p 0 \<noteq> CHR ''|'' \<Longrightarrow> eloops_to env s l p l p"
  unfolding floops_to_def eloops_to_def by (rule exI [of _ 1], simp)+

lemma skip_ws_Cons: "\<not> c_isspace c \<Longrightarrow> skip_ws (c # p) = c # p"
  by (simp add: skip_ws_def)

lemma delims: "\<not> c_isspace CHR ''!''" "\<not> c_isspace CHR ''(''" "\<not> c_isspace CHR '')''" "\<not> c_isspace CHR ''&''"
  "\<not> c_isspace CHR ''|''" "is_delim CHR '')''" "is_delim CHR ''&''" "is_delim CHR ''|''"
  by (simp_all add: c_isspace_def is_delim_def)

lemma terms_to_neg: "terms_to env s p v r \<Longrightarrow> terms_to env s (CHR ''!'' # p) (\<not> v) r"
  unfolding terms_to_def
proof (elim exE)
  fix n assume "eval_term n env s p = Some (v, r)"
  then have "eval_term (Suc n) env s (CHR ''!'' # p) = Some (\<not> v, r)" by (simp add: skip_ws_Cons delims)
  then show "\<exists>n. eval_term n env s (CHR ''!'' # p) = Some (\<not> v, r)" by blast
qed

lemma terms_to_bracket:
  assumes "exprs_to env s p v (CHR '')'' # r)"
  shows "terms_to env s (CHR ''('' # p) v r"
proof -
  obtain n where "eval_expr n env s p = Some (v, CHR '')'' # r)" using assms by (auto simp: exprs_to_def)
  then have "eval_term (Suc n) env s (CHR ''('' # p) = Some (v, r)" by (simp add: skip_ws_Cons delims)
  then show ?thesis unfolding terms_to_def by blast
qed

definition ends :: "string \<Rightarrow> bool" where
  "ends rest \<longleftrightarrow> rest = [] \<or> is_delim (hd rest)"

lemma terms_to_test:
  assumes "tests_ok (Test t)" "ends rest"
  shows "terms_to env s (t @ rest) (meaning env s (Test t)) rest"
proof -
  obtain c u where t: "t = c # u" using assms(1) by (cases t) auto
  have c: "\<not> is_delim c" "c \<noteq> CHR ''!''" "c \<noteq> CHR ''(''" using assms(1) t by simp_all
  have nd: "\<forall>x \<in> set t. \<not> is_delim x" using assms(1) by (simp add: list_all_iff)
  have tw: "takeWhile (\<lambda>c. \<not> is_delim c) (t @ rest) = t" "dropWhile (\<lambda>c. \<not> is_delim c) (t @ rest) = rest"
    using nd assms(2) by (auto simp: ends_def takeWhile_append dropWhile_append takeWhile_eq_Nil_iff dropWhile_eq_self_iff)
  have "\<not> c_isspace c" using c(1) by (simp add: is_delim_def)
  then have "eval_term 1 env s (t @ rest) = Some (meaning env s (Test t), rest)"
    using c tw t by (simp add: skip_ws_Cons token_of_def)
  then show ?thesis unfolding terms_to_def by blast
qed

definition ends_expr :: "string \<Rightarrow> bool" where
  "ends_expr rest \<longleftrightarrow> ends rest \<and> cstr_at (skip_ws rest) 0 \<noteq> CHR ''&''"

lemma ends_Cons [simp]:
  "ends (CHR '')'' # r)" "ends (CHR ''&'' # r)" "ends (CHR ''|'' # r)" "ends_expr (CHR '')'' # r)"
  "ends_expr (CHR ''|'' # r)"
  by (simp_all add: ends_def ends_expr_def skip_ws_Cons delims)

text \<open>
  A written expression is read back at each of the three levels, in front of any rest that ends it:
  as a term, and as the beginning of a factor or of an expression, whose loops then continue.
\<close>

definition reads :: "acs_env \<Rightarrow> Session option \<Rightarrow> acs_expr \<Rightarrow> bool" where
  "reads env s e \<longleftrightarrow>
     (\<forall>rest. ends rest \<longrightarrow> terms_to env s (written 2 e @ rest) (meaning env s e) rest) \<and>
     (\<forall>rest v r. ends rest \<longrightarrow> floops_to env s (meaning env s e) (skip_ws rest) v r \<longrightarrow>
        factors_to env s (written 1 e @ rest) v r) \<and>
     (\<forall>rest v r. ends_expr rest \<longrightarrow> eloops_to env s (meaning env s e) (skip_ws rest) v r \<longrightarrow>
        exprs_to env s (written 0 e @ rest) v r)"

text \<open>What is written alike at two levels need only be read at the higher one.\<close>

lemma factor_of_term:
  assumes "terms_to env s (t @ rest) w rest" "floops_to env s w (skip_ws rest) v r"
  shows "factors_to env s (t @ rest) v r"
  using assms by (rule factors_toI)

lemma expr_of_factor:
  assumes "\<And>v r. floops_to env s w (skip_ws rest) v r \<Longrightarrow> factors_to env s (t @ rest) v r" "ends_expr rest"
    "eloops_to env s w (skip_ws rest) v r"
  shows "exprs_to env s (t @ rest) v r"
proof (rule exprs_toI)
  show "factors_to env s (t @ rest) w (skip_ws rest)"
    using assms(1) loops_end(1) assms(2) by (simp add: ends_expr_def)
  show "eloops_to env s w (skip_ws (skip_ws rest)) v r" using assms(3) by simp
qed

lemma readsI:
  assumes "\<And>rest. ends rest \<Longrightarrow> terms_to env s (written 2 e @ rest) (meaning env s e) rest"
    and "written 1 e = written 2 e \<or> (\<forall>rest v r. ends rest \<longrightarrow> floops_to env s (meaning env s e) (skip_ws rest) v r \<longrightarrow>
        factors_to env s (written 1 e @ rest) v r)"
    and "written 0 e = written 1 e \<or> (\<forall>rest v r. ends_expr rest \<longrightarrow> eloops_to env s (meaning env s e) (skip_ws rest) v r \<longrightarrow>
        exprs_to env s (written 0 e @ rest) v r)"
  shows "reads env s e"
proof -
  have f: "factors_to env s (written 1 e @ rest) v r"
    if "ends rest" "floops_to env s (meaning env s e) (skip_ws rest) v r" for rest v r
    using assms(2)
  proof
    assume "written 1 e = written 2 e"
    then show ?thesis using factor_of_term [OF assms(1) [OF that(1)] that(2)] by simp
  qed (use that in blast)
  have "exprs_to env s (written 0 e @ rest) v r"
    if "ends_expr rest" "eloops_to env s (meaning env s e) (skip_ws rest) v r" for rest v r
    using assms(3)
  proof
    assume eq: "written 0 e = written 1 e"
    have "ends rest" using that(1) by (simp add: ends_expr_def)
    then have "exprs_to env s (written 1 e @ rest) v r"
      using f by (intro expr_of_factor [OF _ that]) blast
    then show ?thesis using eq by simp
  qed (use that in blast)
  then show ?thesis using assms(1) f by (simp add: reads_def)
qed

lemma readsD:
  assumes "reads env s e"
  shows "ends rest \<Longrightarrow> terms_to env s (written 2 e @ rest) (meaning env s e) rest"
    "ends rest \<Longrightarrow> floops_to env s (meaning env s e) (skip_ws rest) v r \<Longrightarrow> factors_to env s (written 1 e @ rest) v r"
    "ends_expr rest \<Longrightarrow> eloops_to env s (meaning env s e) (skip_ws rest) v r \<Longrightarrow> exprs_to env s (written 0 e @ rest) v r"
  using assms by (simp_all add: reads_def)

lemma skip_delims [simp]:
  "skip_ws (CHR ''&'' # p) = CHR ''&'' # p" "skip_ws (CHR ''|'' # p) = CHR ''|'' # p" "skip_ws (CHR '')'' # p) = CHR '')'' # p"
  by (simp_all add: skip_ws_Cons delims)

lemma conj_factor:
  assumes "reads env s a" "reads env s b" "ends rest" "floops_to env s (meaning env s a \<and> meaning env s b) (skip_ws rest) v r"
  shows "factors_to env s (written 1 a @ CHR ''&'' # written 2 b @ rest) v r"
  by (rule readsD(2) [OF assms(1)], simp, simp, rule floops_toI [OF readsD(1) [OF assms(2,3)] assms(4)])

lemma disj_expr:
  assumes "reads env s a" "reads env s b" "ends_expr rest" "eloops_to env s (meaning env s a \<or> meaning env s b) (skip_ws rest) v r"
  shows "exprs_to env s (written 0 a @ CHR ''|'' # written 1 b @ rest) v r"
proof -
  have "factors_to env s (written 1 b @ rest) (meaning env s b) (skip_ws rest)"
    using assms(3) by (intro readsD(2) [OF assms(2)] loops_end(1)) (simp_all add: ends_expr_def)
  then have "eloops_to env s (meaning env s a) (CHR ''|'' # written 1 b @ rest) v r"
    by (rule eloops_toI) (use assms(4) in simp)
  then show ?thesis by (intro readsD(3) [OF assms(1)]) simp_all
qed

lemma bracketed:
  assumes "\<And>v r. eloops_to env s w (CHR '')'' # rest) v r \<Longrightarrow> exprs_to env s (t @ CHR '')'' # rest) v r"
  shows "terms_to env s (bracket True t @ rest) w rest"
  using assms [OF loops_end(2)] by (auto simp: bracket_def intro: terms_to_bracket)

lemma reads_written: "tests_ok e \<Longrightarrow> reads env s e"
proof (induction e)
  case (Test t)
  then show ?case by (intro readsI) (simp_all add: terms_to_test [simplified])
next
  case (Neg e)
  then show ?case by (intro readsI) (simp_all add: terms_to_neg readsD(1))
next
  case (Conj a b)
  then have ab: "reads env s a" "reads env s b" by simp_all
  have f: "factors_to env s (written 1 a @ CHR ''&'' # written 2 b @ rest) v r"
    if "ends rest" "floops_to env s (meaning env s a \<and> meaning env s b) (skip_ws rest) v r" for rest v r
    using conj_factor [OF ab that] .
  have "terms_to env s (bracket True (written 1 a @ CHR ''&'' # written 2 b) @ rest) (meaning env s a \<and> meaning env s b) rest" for rest
  proof (rule bracketed)
    fix v r assume "eloops_to env s (meaning env s a \<and> meaning env s b) (CHR '')'' # rest) v r"
    then have "exprs_to env s ((written 1 a @ CHR ''&'' # written 2 b) @ CHR '')'' # rest) v r"
      using f [of "CHR '')'' # rest"] by (intro expr_of_factor [where w = "meaning env s a \<and> meaning env s b"]) simp_all
    then show "exprs_to env s ((written 1 a @ CHR ''&'' # written 2 b) @ CHR '')'' # rest) v r" .
  qed
  then show ?case using f by (intro readsI) (simp_all add: bracket_def)
next
  case (Disj a b)
  then have ab: "reads env s a" "reads env s b" by simp_all
  have e: "exprs_to env s (written 0 a @ CHR ''|'' # written 1 b @ rest) v r"
    if "ends_expr rest" "eloops_to env s (meaning env s a \<or> meaning env s b) (skip_ws rest) v r" for rest v r
    using disj_expr [OF ab that] .
  have "terms_to env s (bracket True (written 0 a @ CHR ''|'' # written 1 b) @ rest) (meaning env s a \<or> meaning env s b) rest" for rest
    using e [of "CHR '')'' # rest"] by (intro bracketed) simp
  then show ?case using e by (intro readsI) (simp_all add: bracket_def)
qed

section \<open>Numbers\<close>

lemma toupper_digits: "list_all c_isdigit t \<Longrightarrow> map c_toupper t = t"
  by (induction t) (auto simp: c_toupper_def c_islower_def c_isdigit_def)

section \<open>Properties\<close>

lemma enough_calls: "3 * length p + 3 \<le> n \<Longrightarrow> \<exists>v r. eval_expr n env s p = Some (v, r)"
proof -
  have "calls_suffice env s n" by (rule calls_always_suffice)
  then show "3 * length p + 3 \<le> n \<Longrightarrow> \<exists>v r. eval_expr n env s p = Some (v, r)"
    using calls_sufficeD(4) [of env s n p "length p"] by (auto simp: rests_def)
qed

lemma tests_ok_written: "tests_ok e \<Longrightarrow> written d e \<noteq> []"
  by (induction e arbitrary: d) (auto simp: bracket_def)

lemma acs_allows_nonempty: "p \<noteq> [] \<Longrightarrow> acs_allows n env s (Some p) = map_option fst (eval_expr n env s p)"
  by (cases p) (simp_all add: acs_allows_def)

lemma expr_read_whole:
  assumes "tests_ok e" "3 * length (written 0 e) + 3 \<le> n"
  shows "eval_expr n env s (written 0 e) = Some (meaning env s e, [])"
proof -
  have "exprs_to env s (written 0 e @ []) (meaning env s e) []"
    using assms(1) by (intro readsD(3) [OF reads_written]) (simp_all add: ends_expr_def ends_def skip_ws_def loops_end)
  then obtain m where m: "eval_expr m env s (written 0 e) = Some (meaning env s e, [])"
    by (auto simp: exprs_to_def)
  obtain v r where v: "eval_expr n env s (written 0 e) = Some (v, r)" using enough_calls [OF assms(2)] by blast
  show ?thesis
    using more_calls(4) [OF m, of "max m n"] more_calls(4) [OF v, of "max m n"] v by simp
qed

definition example_ops :: float_ops where
  "example_ops = \<lparr> f_add = (+), f_sub = (-), f_mul = (*), f_div = (div), f_neg = uminus, f_eq = (=), f_lt = (<),
     f_of_i64 = (\<lambda>x. x), f_to_i64 = Some, f_zero = 0, f_one = 1, f_format_g = (\<lambda>_. []), f_strtod = (\<lambda>_. None) \<rparr>"

definition acs_example_env :: acs_env where
  "acs_example_env = \<lparr> a_year = 2025, a_month = 6, a_mday = 1, a_hour = 12, a_wday = 0, a_now = 0,
     a_mktime = (\<lambda>y m d. 86400 * (365 * y + 31 * m + d)), a_conf_member = (\<lambda>_ _. False),
     a_subscription = (\<lambda>_. None), a_float = example_ops, a_uninit = CHR ''x'' \<rparr>"

definition example_user :: "int \<Rightarrow> DbUser" where
  "example_user level = \<lparr> u_id = 1, u_level = level, u_dsl = 10, u_sex = CHR ''M'', u_birth_date = ''1990-01-31'',
     u_flags = 1, u_ac_flags = 1, u_credits = 0, u_uploads = 0, u_downloads = 0, u_logged_on = 0, u_msg_post = 0,
     u_expires_at = [], u_dl_ratio_num = 0, u_dl_ratio_den = 0, u_post_ratio_num = 0, u_post_ratio_den = 0 \<rparr>"

definition example_session :: "int \<Rightarrow> Session" where
  "example_session level = \<lparr> s_user = example_user level, s_has_db = True, s_node_num = 1, s_time_left_min = 60,
     s_current_conf = 0 \<rparr>"

lemmas example_defs = example_ops_def acs_example_env_def example_user_def example_session_def

text \<open>
  C7: the evaluator implements the documented grammar. An expression of tests with \<open>!\<close>, \<open>&\<close> and \<open>|\<close>,
  written with brackets only where the precedence \<open>! > & > |\<close> needs them, is granted exactly when its
  meaning is true; three calls for each character, and three more, are enough stack.
\<close>
theorem acs_reads_the_grammar:
  assumes "tests_ok e" "3 * length (written 0 e) + 3 \<le> n"
  shows "acs_allows n env s (Some (written 0 e)) = Some (meaning env s e)"
  using expr_read_whole [OF assms] tests_ok_written [OF assms(1), of 0]
  by (simp add: acs_allows_nonempty)

definition example_expr :: acs_expr where
  "example_expr = Conj (Disj (Test ''S255'') (Neg (Test ''FB''))) (Test ''GM'')"

theorem acs_reads_the_grammar_witness:
  "written 0 example_expr = ''(S255|!FB)&GM'' \<and>
   acs_allows 50 acs_example_env (Some (example_session 20)) (Some (written 0 example_expr)) = Some True"
proof -
  have "tests_ok example_expr"
    by (simp add: example_expr_def is_delim_def c_isspace_def)
  moreover have w: "written 0 example_expr = ''(S255|!FB)&GM''"
    by (simp add: example_expr_def bracket_def)
  moreover have "meaning acs_example_env (Some (example_session 20)) example_expr"
    by code_simp
  ultimately show ?thesis
    using acs_reads_the_grammar [of example_expr 50 acs_example_env "Some (example_session 20)"] by simp
qed

section \<open>The tests of level and flags\<close>

text \<open>The tests both evaluators document: a minimum level, a user flag, an access flag.\<close>

datatype simple_test = Level nat | Flag char | Access char

fun test_text :: "simple_test \<Rightarrow> string" where
  "test_text (Level n) = ''S'' @ show_nat n"
| "test_text (Flag c) = [CHR ''F'', c]"
| "test_text (Access c) = [CHR ''R'', c]"

fun test_holds :: "int \<Rightarrow> u32 \<Rightarrow> u32 \<Rightarrow> simple_test \<Rightarrow> bool" where
  "test_holds level flags acs (Level n) \<longleftrightarrow> int n \<le> level"
| "test_holds level flags acs (Flag c) \<longleftrightarrow> has_flag flags (flag_bit c)"
| "test_holds level flags acs (Access c) \<longleftrightarrow> has_flag acs (ac_flag_from_char c)"

fun simple_ok :: "simple_test \<Rightarrow> bool" where
  "simple_ok (Level n) \<longleftrightarrow> n < 2 ^ 31"
| "simple_ok (Flag c) \<longleftrightarrow> c_isupper c"
| "simple_ok (Access c) \<longleftrightarrow> ac_flag_from_char c \<noteq> 0"

definition conj_text :: "simple_test list \<Rightarrow> string" where
  "conj_text ts = (case ts of [] \<Rightarrow> [] | t # us \<Rightarrow> test_text t @ concat (map (\<lambda>u. CHR ''&'' # test_text u) us))"

definition conj_expr :: "simple_test \<Rightarrow> simple_test list \<Rightarrow> acs_expr" where
  "conj_expr t us = foldl (\<lambda>e u. Conj e (Test (test_text u))) (Test (test_text t)) us"

text \<open>The letters and digits of a test are upper case and no delimiters.\<close>

definition plain :: "char \<Rightarrow> bool" where
  "plain c \<longleftrightarrow> c_isupper c \<or> c_isdigit c \<or> c = CHR ''*''"

lemma plainD:
  assumes "plain c"
  shows "\<not> is_delim c" "c_toupper c = c" "c \<noteq> CHR ''!''" "c \<noteq> CHR ''(''" "c \<noteq> CHR 0x00"
  using assms
  by (auto simp: plain_def is_delim_def c_toupper_def c_islower_def c_isupper_def c_isdigit_def c_isspace_def)

lemma ac_flag_letters:
  assumes "ac_flag_from_char c \<noteq> 0"
  shows "c \<in> set ''LCVUA*PEKM1234''"
  using assms by (auto simp: ac_flag_from_char_def simp del: zip_Cons_Cons split: option.splits
      dest!: map_of_SomeD dest: set_zip_leftD)

lemma simple_plain: "simple_ok t \<Longrightarrow> list_all plain (test_text t)"
proof (cases t)
  case (Level n)
  then show ?thesis using show_nat_digits [of n] by (simp add: plain_def c_isupper_def list_all_iff)
next
  case (Access c)
  assume "simple_ok t"
  then have "c \<in> set ''LCVUA*PEKM1234''" using Access ac_flag_letters by simp
  then have "plain c" by (auto simp: plain_def c_isupper_def c_isdigit_def)
  then show ?thesis using Access by (simp add: plain_def c_isupper_def)
qed (simp add: plain_def c_isupper_def)

lemma simple_short: "simple_ok t \<Longrightarrow> length (test_text t) \<le> 11"
  using length_show_nat [of _ 9] by (cases t) auto

lemma test_text_nonempty [simp]: "test_text t \<noteq> []"
  by (cases t) simp_all


lemma simple_tests_ok: "simple_ok t \<Longrightarrow> tests_ok (Test (test_text t))"
proof -
  assume t: "simple_ok t"
  then have "plain (hd (test_text t))" "list_all (\<lambda>c. \<not> is_delim c) (test_text t)"
    using simple_plain [OF t] plainD(1) by (cases "test_text t"; auto simp: list_all_iff)+
  then show ?thesis using plainD by simp
qed

lemma plain_upper: "list_all plain p \<Longrightarrow> map c_toupper p = p"
  by (induction p) (simp_all add: plainD(2))

lemma simple_token: "simple_ok t \<Longrightarrow> map c_toupper (take 63 (test_text t)) = test_text t"
  using simple_short [of t] simple_plain [of t] by (simp add: plain_upper)

lemma digit_at_1 [simp]: "c_isdigit (cstr_at (show_nat n) 0)"
  using show_nat_digits [of n] by (cases "show_nat n") simp_all

lemma test_meaning:
  assumes "simple_ok t"
  shows "eval_token env (Some s) (test_text t) \<longleftrightarrow>
     test_holds (u_level (s_user s)) (u_flags (s_user s)) (u_ac_flags (s_user s)) t"
proof (cases t)
  case (Level n)
  then show ?thesis using assms
    by (simp add: eval_token_def Let_def c_atoi_show_nat on_user_def on_session_def)
next
  case (Flag c)
  then show ?thesis using assms
    by (simp add: eval_token_def Let_def on_user_def on_session_def tok_at_def)
next
  case (Access c)
  then show ?thesis using assms
    by (simp add: eval_token_def Let_def on_user_def on_session_def tok_at_def)
qed

lemma test_denies:
  assumes "simple_ok t"
  shows "check_denies uninit level flags acs (test_text t) \<longleftrightarrow> \<not> test_holds level flags acs t"
proof (cases t)
  case (Level n)
  then show ?thesis using assms by (auto simp: check_denies_def Let_def c_atoi_show_nat)
next
  case (Flag c)
  then show ?thesis using assms by (simp add: check_denies_def Let_def tok_at_def)
next
  case (Access c)
  then show ?thesis using assms by (simp add: check_denies_def Let_def tok_at_def)
qed

text \<open>A conjunction of tests, read by either evaluator.\<close>

lemma written_conj:
  "d \<le> 1 \<Longrightarrow> written d (foldl (\<lambda>e u. Conj e (Test (test_text u))) a us) =
     written (if us = [] then d else 1) a @ concat (map (\<lambda>u. CHR ''&'' # test_text u) us)"
  by (induction us arbitrary: a d) (simp_all add: bracket_def)

lemma tests_ok_conj:
  "tests_ok a \<Longrightarrow> list_all simple_ok us \<Longrightarrow> tests_ok (foldl (\<lambda>e u. Conj e (Test (test_text u))) a us)"
  by (induction us arbitrary: a) (simp_all add: simple_tests_ok del: tests_ok.simps(1))

lemma meaning_conj:
  "meaning env s (foldl (\<lambda>e u. Conj e (Test (test_text u))) a us) \<longleftrightarrow>
     meaning env s a \<and> list_all (\<lambda>u. meaning env s (Test (test_text u))) us"
  by (induction us arbitrary: a) auto

lemma check_word_test:
  assumes "simple_ok t" "ends rest"
  shows "check_word (test_text t @ rest) = test_text t" "check_skip (test_text t @ rest) = test_text t @ rest"
proof -
  have nd: "\<forall>x \<in> set (test_text t). \<not> is_delim x" using simple_plain [OF assms(1)] plainD(1) by (auto simp: list_all_iff)
  then have "takeWhile (\<lambda>c. \<not> is_delim c) (test_text t @ rest) = test_text t"
    using assms(2) by (auto simp: ends_def takeWhile_append takeWhile_eq_Nil_iff)
  then show "check_word (test_text t @ rest) = test_text t"
    using simple_short [OF assms(1)] by (simp add: check_word_def)
  obtain c r where "test_text t = c # r" by (cases "test_text t") auto
  then show "check_skip (test_text t @ rest) = test_text t @ rest" using nd by (auto simp: check_skip_def is_delim_def)
qed

lemma check_loop_test:
  assumes "simple_ok t" "ends rest"
  shows "check_loop uninit level flags acs (test_text t @ rest) \<longleftrightarrow>
     test_holds level flags acs t \<and> check_loop uninit level flags acs rest"
proof -
  have "map c_toupper (test_text t) = test_text t" using simple_plain [OF assms(1)] by (rule plain_upper)
  then show ?thesis
    by (subst check_loop.simps) (simp add: check_word_test [OF assms] test_denies [OF assms(1)] Let_def)
qed

lemma check_loop_amp: "check_loop uninit level flags acs (CHR ''&'' # p) = check_loop uninit level flags acs p"
  by (subst (1 2) check_loop.simps) (simp add: check_skip_def Let_def)

lemma check_loop_conj:
  "list_all simple_ok us \<Longrightarrow> check_loop uninit level flags acs (concat (map (\<lambda>u. CHR ''&'' # test_text u) us)) =
     list_all (test_holds level flags acs) us"
proof (induction us)
  case Nil
  show ?case by (subst check_loop.simps) (simp add: check_skip_def check_word_def)
next
  case (Cons u us)
  have "ends (concat (map (\<lambda>u. CHR ''&'' # test_text u) us))" by (cases us) (simp_all add: ends_def is_delim_def)
  then show ?case using Cons by (simp add: check_loop_amp check_loop_test)
qed

lemma check_conj:
  assumes "list_all simple_ok ts"
  shows "check_loop uninit level flags acs (conj_text ts) = list_all (test_holds level flags acs) ts"
proof (cases ts)
  case Nil
  then show ?thesis using check_loop_conj [of "[]"] by (simp add: conj_text_def)
next
  case (Cons t us)
  have "ends (concat (map (\<lambda>u. CHR ''&'' # test_text u) us))" by (cases us) (simp_all add: ends_def is_delim_def)
  then show ?thesis using assms Cons by (simp add: conj_text_def check_loop_test check_loop_conj)
qed

lemma allows_conj:
  assumes "list_all simple_ok ts" "3 * length (conj_text ts) + 3 \<le> n"
  shows "acs_allows n env (Some s) (Some (conj_text ts)) =
     Some (list_all (test_holds (u_level (s_user s)) (u_flags (s_user s)) (u_ac_flags (s_user s))) ts)"
proof (cases ts)
  case Nil
  then show ?thesis by (simp add: conj_text_def acs_allows_def)
next
  case (Cons t us)
  have w: "written 0 (conj_expr t us) = conj_text ts"
    using Cons by (simp add: conj_expr_def conj_text_def written_conj)
  have ok: "tests_ok (conj_expr t us)"
    using assms(1) Cons by (simp add: conj_expr_def tests_ok_conj simple_tests_ok del: tests_ok.simps(1))
  have "meaning env (Some s) (Test (test_text u)) =
      test_holds (u_level (s_user s)) (u_flags (s_user s)) (u_ac_flags (s_user s)) u" if "simple_ok u" for u
    using that by (simp add: simple_token test_meaning)
  then have "meaning env (Some s) (conj_expr t us) =
      list_all (test_holds (u_level (s_user s)) (u_flags (s_user s)) (u_ac_flags (s_user s))) ts"
    using assms(1) Cons by (auto simp: conj_expr_def meaning_conj list_all_iff)
  moreover have "conj_text ts \<noteq> []" using Cons by (simp add: conj_text_def)
  ultimately show ?thesis
    using expr_read_whole [OF ok, of n env "Some s"] assms(2) w by (simp add: acs_allows_nonempty)
qed

text \<open>
  C8: on conjunctions of level, flag and access-flag tests the simplified check of the standalone
  tools decides as the full evaluator does for a user with that level and those flags, and both grant
  access exactly when every test holds.
\<close>
theorem acs_check_agrees_on_conjunctions:
  assumes "list_all simple_ok ts" "3 * length (conj_text ts) + 3 \<le> n"
  shows "acs_allows n env (Some s) (Some (conj_text ts)) =
      Some (acs_check uninit (Some (conj_text ts)) (u_level (s_user s)) (u_flags (s_user s)) (u_ac_flags (s_user s))) \<and>
    (acs_check uninit (Some (conj_text ts)) level flags acs \<longleftrightarrow> list_all (test_holds level flags acs) ts)"
  using assms by (simp_all add: acs_check_def check_conj allows_conj)

theorem acs_check_agrees_on_conjunctions_witness:
  "conj_text [Level 20, Flag CHR ''A'', Access CHR ''L''] = ''S20&FA&RL'' \<and>
   acs_allows 40 acs_example_env (Some (example_session 20)) (Some ''S20&FA&RL'') =
     Some (acs_check CHR ''x'' (Some ''S20&FA&RL'') 20 1 1)"
proof -
  have t: "conj_text [Level 20, Flag CHR ''A'', Access CHR ''L''] = ''S20&FA&RL''" by code_simp
  have ok: "list_all simple_ok [Level 20, Flag CHR ''A'', Access CHR ''L'']"
    by (simp add: c_isupper_def ac_flag_from_char_def upt_rec)
  have n: "3 * length (conj_text [Level 20, Flag CHR ''A'', Access CHR ''L'']) + 3 \<le> 40" unfolding t by simp
  have u: "u_level (s_user (example_session 20)) = 20" "u_flags (s_user (example_session 20)) = 1"
    "u_ac_flags (s_user (example_session 20)) = 1"
    by (simp_all add: example_session_def example_user_def)
  show ?thesis
    using acs_check_agrees_on_conjunctions [OF ok n, THEN conjunct1, of acs_example_env "example_session 20" "CHR ''x''"] t
    unfolding u t by blast
qed

section \<open>The whole grammar before the simplified check\<close>

text \<open>Expressions of the tests of level and flags, their text and their meaning.\<close>

datatype simple_expr = SimpleTest simple_test | SimpleNeg simple_expr
  | SimpleConj simple_expr simple_expr | SimpleDisj simple_expr simple_expr

fun grammar_expr :: "simple_expr \<Rightarrow> acs_expr" where
  "grammar_expr (SimpleTest t) = Test (test_text t)"
| "grammar_expr (SimpleNeg e) = Neg (grammar_expr e)"
| "grammar_expr (SimpleConj a b) = Conj (grammar_expr a) (grammar_expr b)"
| "grammar_expr (SimpleDisj a b) = Disj (grammar_expr a) (grammar_expr b)"

fun expr_holds :: "int \<Rightarrow> u32 \<Rightarrow> u32 \<Rightarrow> simple_expr \<Rightarrow> bool" where
  "expr_holds level flags acs (SimpleTest t) \<longleftrightarrow> test_holds level flags acs t"
| "expr_holds level flags acs (SimpleNeg e) \<longleftrightarrow> \<not> expr_holds level flags acs e"
| "expr_holds level flags acs (SimpleConj a b) \<longleftrightarrow> expr_holds level flags acs a \<and> expr_holds level flags acs b"
| "expr_holds level flags acs (SimpleDisj a b) \<longleftrightarrow> expr_holds level flags acs a \<or> expr_holds level flags acs b"

fun expr_simple_ok :: "simple_expr \<Rightarrow> bool" where
  "expr_simple_ok (SimpleTest t) \<longleftrightarrow> simple_ok t"
| "expr_simple_ok (SimpleNeg e) \<longleftrightarrow> expr_simple_ok e"
| "expr_simple_ok (SimpleConj a b) \<longleftrightarrow> expr_simple_ok a \<and> expr_simple_ok b"
| "expr_simple_ok (SimpleDisj a b) \<longleftrightarrow> expr_simple_ok a \<and> expr_simple_ok b"

fun expr_height :: "simple_expr \<Rightarrow> nat" where
  "expr_height (SimpleTest t) = 0"
| "expr_height (SimpleNeg e) = Suc (expr_height e)"
| "expr_height (SimpleConj a b) = Suc (max (expr_height a) (expr_height b))"
| "expr_height (SimpleDisj a b) = Suc (max (expr_height a) (expr_height b))"

text \<open>
  The tests of a written expression that have no \<open>!\<close> and no opening bracket right in front of them, up
  to the first closing bracket, and whether there is one. \<open>behind\<close>: the first test of the expression has
  such a sign in front of it from the outside.
\<close>

definition join_examined :: "bool \<Rightarrow> simple_test list \<times> bool \<Rightarrow> simple_test list \<times> bool \<Rightarrow> simple_test list \<times> bool" where
  "join_examined bracketed x y =
     (if snd x then x else (fst x @ fst y, snd y \<or> bracketed))"

fun examined :: "bool \<Rightarrow> nat \<Rightarrow> simple_expr \<Rightarrow> simple_test list \<times> bool" where
  "examined behind d (SimpleTest t) = (if behind then [] else [t], False)"
| "examined behind d (SimpleNeg e) = examined True 2 e"
| "examined behind d (SimpleConj a b) =
     join_examined (1 < d) (examined (behind \<or> 1 < d) 1 a) (examined False 2 b)"
| "examined behind d (SimpleDisj a b) =
     join_examined (0 < d) (examined (behind \<or> 0 < d) 0 a) (examined False 1 b)"

definition signs :: "string \<Rightarrow> bool" where
  "signs p \<longleftrightarrow> list_all (\<lambda>c. c = CHR ''!'' \<or> c = CHR ''('') p"

lemma tests_ok_grammar: "expr_simple_ok e \<Longrightarrow> tests_ok (grammar_expr e)"
  by (induction e) (simp_all add: simple_tests_ok del: tests_ok.simps(1))

lemma meaning_grammar:
  "expr_simple_ok e \<Longrightarrow> meaning env (Some s) (grammar_expr e) \<longleftrightarrow>
     expr_holds (u_level (s_user s)) (u_flags (s_user s)) (u_ac_flags (s_user s)) e"
  by (induction e) (simp_all add: simple_token test_meaning)

lemma check_loop_or: "check_loop uninit level flags acs (CHR ''|'' # p) = check_loop uninit level flags acs p"
  by (subst (1 2) check_loop.simps) (simp add: check_skip_def Let_def)

lemma check_loop_close [simp]: "check_loop uninit level flags acs (CHR '')'' # p)"
  by (subst check_loop.simps) (simp add: check_skip_def check_word_def is_delim_def c_isspace_def)

text \<open>A word that begins with a sign denies nothing.\<close>

lemma sign_denies_nothing:
  "\<not> check_denies uninit level flags acs (CHR ''!'' # w)" "\<not> check_denies uninit level flags acs (CHR ''('' # w)"
  by (simp_all add: check_denies_def)

lemma sign_upper: "c_toupper CHR ''!'' = CHR ''!''" "c_toupper CHR ''('' = CHR ''(''"
  by (simp_all add: c_toupper_def c_islower_def)

lemma check_loop_signed:
  assumes "signs p" "p \<noteq> []" "length p \<le> 52" "simple_ok t" "ends rest"
  shows "check_loop uninit level flags acs (p @ test_text t @ rest) \<longleftrightarrow> check_loop uninit level flags acs rest"
proof -
  obtain c u where p: "p = c # u" using assms(2) by (cases p) auto
  then have c: "c = CHR ''!'' \<or> c = CHR ''(''" using assms(1) by (simp add: signs_def)
  have sn: "\<not> is_delim CHR ''!''" "\<not> is_delim CHR ''(''" using delims by (simp_all add: is_delim_def)
  have "\<not> is_delim x" if "x \<in> set p" for x
    using bspec [OF assms(1) [unfolded signs_def list_all_iff] that] sn by metis
  moreover have "\<not> is_delim x" if "x \<in> set (test_text t)" for x
    using simple_plain [OF assms(4)] that plainD(1) by (auto simp: list_all_iff)
  ultimately have "\<forall>x \<in> set (p @ test_text t). \<not> is_delim x" by auto
  then have "takeWhile (\<lambda>c. \<not> is_delim c) ((p @ test_text t) @ rest) = p @ test_text t"
    using assms(5) unfolding ends_def by (subst takeWhile_append) (auto simp: takeWhile_eq_Nil_iff)
  then have w: "check_word (p @ test_text t @ rest) = p @ test_text t"
    using simple_short [OF assms(4)] assms(3) by (simp add: check_word_def)
  have k: "check_skip (p @ test_text t @ rest) = p @ test_text t @ rest"
    using c by (auto simp: p check_skip_def c_isspace_def)
  have "\<not> check_denies uninit level flags acs (map c_toupper (p @ test_text t))"
    using c sign_denies_nothing by (elim disjE) (simp_all add: p sign_upper)
  then show ?thesis using assms(2) by (subst check_loop.simps) (simp add: w k Let_def)
qed

lemma check_loop_word:
  assumes "signs p" "length p \<le> 52" "simple_ok t" "ends rest"
  shows "check_loop uninit level flags acs (p @ test_text t @ rest) \<longleftrightarrow>
     (p = [] \<longrightarrow> test_holds level flags acs t) \<and> check_loop uninit level flags acs rest"
  using check_loop_signed [OF assms(1) _ assms(2-4)] check_loop_test [OF assms(3,4)] by (cases "p = []") auto

text \<open>
  The check of a written expression behind some signs and in front of a rest: the examined tests hold,
  and the rest is granted unless the check has stopped before.
\<close>

definition checks_examined :: "char \<Rightarrow> int \<Rightarrow> u32 \<Rightarrow> u32 \<Rightarrow> simple_expr \<Rightarrow> bool" where
  "checks_examined uninit level flags acs e \<longleftrightarrow>
     (\<forall>p d rest. signs p \<longrightarrow> length p + expr_height e \<le> 52 \<longrightarrow> ends rest \<longrightarrow>
        check_loop uninit level flags acs (p @ written d (grammar_expr e) @ rest) =
          (list_all (test_holds level flags acs) (fst (examined (p \<noteq> []) d e)) \<and>
           (snd (examined (p \<noteq> []) d e) \<or> check_loop uninit level flags acs rest)))"

lemma checks_examinedD:
  assumes "checks_examined uninit level flags acs e" "signs p" "length p + expr_height e \<le> 52" "ends rest"
  shows "check_loop uninit level flags acs (p @ written d (grammar_expr e) @ rest) =
     (list_all (test_holds level flags acs) (fst (examined (p \<noteq> []) d e)) \<and>
      (snd (examined (p \<noteq> []) d e) \<or> check_loop uninit level flags acs rest))"
  using assms unfolding checks_examined_def by blast

lemma checks_examined_binary:
  assumes "checks_examined uninit level flags acs a" "checks_examined uninit level flags acs b"
    and "signs p" "length p + Suc (max (expr_height a) (expr_height b)) \<le> 52" "ends rest"
    and "c = CHR ''&'' \<or> c = CHR ''|''"
  shows "check_loop uninit level flags acs
       (p @ bracket br (written i (grammar_expr a) @ [c] @ written j (grammar_expr b)) @ rest) =
     (list_all (test_holds level flags acs)
        (fst (join_examined br (examined (p \<noteq> [] \<or> br) i a) (examined False j b))) \<and>
      (snd (join_examined br (examined (p \<noteq> [] \<or> br) i a) (examined False j b)) \<or>
       check_loop uninit level flags acs rest))"
proof -
  let ?p = "p @ (if br then ''('' else [])" and ?r = "(if br then '')'' else []) @ rest"
  have c: "check_loop uninit level flags acs (c # q) = check_loop uninit level flags acs q" "ends (c # q)" for q
    using assms(6) check_loop_amp check_loop_or by (auto simp: ends_def is_delim_def)
  have r: "ends ?r" using assms(5) by (simp add: ends_def is_delim_def)
  have s: "signs ?p" "length ?p + expr_height a \<le> 52" "signs []" "expr_height b \<le> 52"
    using assms(3,4) by (simp add: signs_def, cases br, simp_all add: signs_def)
  have e: "p @ bracket br (written i (grammar_expr a) @ [c] @ written j (grammar_expr b)) @ rest =
      ?p @ written i (grammar_expr a) @ (c # [] @ written j (grammar_expr b) @ ?r)"
    by (simp add: bracket_def)
  show ?thesis
    unfolding e checks_examinedD [OF assms(1) s(1,2) c(2)] c(1)
    by (subst checks_examinedD [OF assms(2) s(3) _ r]) (use s(4) in \<open>auto simp: join_examined_def\<close>)
qed

lemma checks_examined: "expr_simple_ok e \<Longrightarrow> checks_examined uninit level flags acs e"
proof (induction e)
  case (SimpleTest t)
  then show ?case by (simp add: checks_examined_def check_loop_word)
next
  case (SimpleNeg e)
  have "check_loop uninit level flags acs (p @ written d (grammar_expr (SimpleNeg e)) @ rest) =
      (list_all (test_holds level flags acs) (fst (examined True 2 e)) \<and>
       (snd (examined True 2 e) \<or> check_loop uninit level flags acs rest))"
    if "signs p" "length p + expr_height (SimpleNeg e) \<le> 52" "ends rest" for p d rest
    using checks_examinedD [OF SimpleNeg.IH, of "p @ ''!''" rest 2] SimpleNeg.prems that by (simp add: signs_def)
  then show ?case by (simp add: checks_examined_def)
next
  case (SimpleConj a b)
  then have ab: "checks_examined uninit level flags acs a" "checks_examined uninit level flags acs b" by simp_all
  have "check_loop uninit level flags acs (p @ written d (grammar_expr (SimpleConj a b)) @ rest) =
      (list_all (test_holds level flags acs) (fst (examined (p \<noteq> []) d (SimpleConj a b))) \<and>
       (snd (examined (p \<noteq> []) d (SimpleConj a b)) \<or> check_loop uninit level flags acs rest))"
    if "signs p" "length p + expr_height (SimpleConj a b) \<le> 52" "ends rest" for p d rest
    using checks_examined_binary [OF ab that(1) _ that(3), of "CHR ''&''" "1 < d" 1 2] that(2) by simp
  then show ?case unfolding checks_examined_def by blast
next
  case (SimpleDisj a b)
  then have ab: "checks_examined uninit level flags acs a" "checks_examined uninit level flags acs b" by simp_all
  have "check_loop uninit level flags acs (p @ written d (grammar_expr (SimpleDisj a b)) @ rest) =
      (list_all (test_holds level flags acs) (fst (examined (p \<noteq> []) d (SimpleDisj a b))) \<and>
       (snd (examined (p \<noteq> []) d (SimpleDisj a b)) \<or> check_loop uninit level flags acs rest))"
    if "signs p" "length p + expr_height (SimpleDisj a b) \<le> 52" "ends rest" for p d rest
    using checks_examined_binary [OF ab that(1) _ that(3), of "CHR ''|''" "0 < d" 0 1] that(2) by simp
  then show ?case unfolding checks_examined_def by blast
qed

lemma check_loop_Nil [simp]: "check_loop uninit level flags acs []"
  using check_loop_conj [of "[]"] by simp

text \<open>
  C9: beyond conjunctions the simplified check does not follow the grammar. On every expression of level,
  flag and access-flag tests, nested up to 52 deep, the evaluator decides the meaning of the expression,
  while the simplified check grants exactly when all the tests hold that have no \<open>!\<close> and no opening
  bracket right in front of them and stand before the first closing bracket: it passes over a negated
  test and the first test of a bracket, takes \<open>|\<close> for \<open>&\<close>, and stops at a closing bracket.
\<close>
theorem acs_check_ignores_the_grammar:
  assumes "expr_simple_ok e" "expr_height e \<le> 52" "3 * length (written 0 (grammar_expr e)) + 3 \<le> n"
  shows "acs_allows n env (Some s) (Some (written 0 (grammar_expr e))) =
      Some (expr_holds (u_level (s_user s)) (u_flags (s_user s)) (u_ac_flags (s_user s)) e) \<and>
    (acs_check uninit (Some (written 0 (grammar_expr e))) level flags acs \<longleftrightarrow>
      list_all (test_holds level flags acs) (fst (examined False 0 e)))"
proof -
  have t: "tests_ok (grammar_expr e)" using assms(1) by (rule tests_ok_grammar)
  have "acs_allows n env (Some s) (Some (written 0 (grammar_expr e))) = Some (meaning env (Some s) (grammar_expr e))"
    using expr_read_whole [OF t assms(3)] tests_ok_written [OF t, of 0] by (simp add: acs_allows_nonempty)
  moreover have "check_loop uninit level flags acs (written 0 (grammar_expr e)) =
      list_all (test_holds level flags acs) (fst (examined False 0 e))"
    using checks_examinedD [OF checks_examined [OF assms(1)], of "[]" "[]" _ _ _ _ 0] assms(2)
    by (simp add: signs_def ends_def)
  ultimately show ?thesis using meaning_grammar [OF assms(1)] by (simp add: acs_check_def)
qed

text \<open>
  A user of level 20 with flag A: the evaluator denies \<open>(S255|FA)&S255\<close>, the simplified check looks at
  \<open>FA\<close> only and grants it; \<open>S10|S255\<close> the other way round.
\<close>

theorem acs_check_ignores_the_grammar_witness:
  "acs_allows 50 acs_example_env (Some (example_session 20)) (Some ''(S255|FA)&S255'') = Some False \<and>
   acs_check CHR ''x'' (Some ''(S255|FA)&S255'') 20 1 1 \<and>
   acs_allows 50 acs_example_env (Some (example_session 20)) (Some ''S10|S255'') = Some True \<and>
   \<not> acs_check CHR ''x'' (Some ''S10|S255'') 20 1 1"
proof -
  let ?e = "SimpleConj (SimpleDisj (SimpleTest (Level 255)) (SimpleTest (Flag CHR ''A''))) (SimpleTest (Level 255))"
  let ?f = "SimpleDisj (SimpleTest (Level 10)) (SimpleTest (Level 255))"
  have t: "written 0 (grammar_expr ?e) = ''(S255|FA)&S255''" "written 0 (grammar_expr ?f) = ''S10|S255''"
    by code_simp+
  have ok: "expr_simple_ok ?e" "expr_simple_ok ?f" by (simp_all add: c_isupper_def)
  have u: "u_level (s_user (example_session 20)) = 20" "u_flags (s_user (example_session 20)) = 1"
    by (simp_all add: example_session_def example_user_def)
  show ?thesis
    using acs_check_ignores_the_grammar [OF ok(1), of 50 acs_example_env "example_session 20" "CHR ''x''" 20 1 1]
      acs_check_ignores_the_grammar [OF ok(2), of 50 acs_example_env "example_session 20" "CHR ''x''" 20 1 1]
    unfolding t u by (simp add: join_examined_def has_flag_def flag_bit_def)
qed

text \<open>
  C10: the evaluator always returns when it has three calls for each character of the access string and
  three more, and a larger stack gives the same answer.
\<close>
theorem acs_allows_returns:
  assumes "3 * length p + 3 \<le> n" "n \<le> m"
  shows "acs_allows n env s (Some p) \<noteq> None \<and> acs_allows m env s (Some p) = acs_allows n env s (Some p)"
  using enough_calls [OF assms(1), of env s] more_calls(4) [of n env s p _ m] assms(2)
  by (auto simp: acs_allows_def split: list.split)

theorem acs_allows_returns_witness:
  "acs_allows 12 acs_example_env None (Some ''(!'') \<noteq> None"
  using acs_allows_returns [of "''(!''" 12 12 acs_example_env None] by simp

end
