(* ===== verification/Spec2Isabelle.thy ===== *)
theory Spec2Isabelle
  imports Telnet Plank_Policy Bucc_Heap Bucc_Module Bucc_Machine Bucc_Correct Bucc_Grammar Acs
begin

text \<open>
  \<^bold>\<open>Mutineer BBS: a verification library.\<close> Mutineer is a bulletin board server in C. A connection
  passes through the telnet layer into a session; what a session may do is decided by access control
  strings; scripts are written in the Buccaneer language, compiled to bytecode and run by a virtual machine;
  boards exchange CBOR-encoded packets over the PLANK network. This library models the parts of the program
  that carry such logic of their own and leaves the calls into SQLite, OpenSSL, sockets, processes and files
  outside. Paths below are relative to \<^verbatim>\<open>src/\<close>.

  \<^bold>\<open>Conventions.\<close> C integers are words of their width where they can wrap. An operation whose result type is
  an \<^typ>\<open>'a option\<close> returns \<^term>\<open>None\<close> exactly where the C code has undefined behaviour (an access
  outside an array, the use of freed memory, the stack running out), so a lemma that an operation is \<^term>\<open>Some\<close> is a
  memory-safety statement. What the C code returns as an error is an ordinary value of the model. Code that is
  not part of the repository is an argument: the allocator, \<open>qsort\<close>, the floating-point unit
  (\<^typ>\<open>float_ops\<close>), OpenSSL (\<^typ>\<open>openssl\<close>), the clock and the database queries of the access strings, the host functions of the
  machine. The theories:

  \<^item> \<open>Mutineer_Prelude\<close>: words, checked arrays, the part of the C library that several components use,
    big-endian numbers, and the generic interfaces as locales: \<open>prefix_codec\<close> (a decoder that can be run in
    front of further input), \<open>safe_machine\<close> and \<open>step_refinement\<close> (a machine driven by inputs, its invariant
    and its abstraction), \<open>counted_machine\<close> (a loop with a budget).

  \<^item> \<open>Telnet\<close> (\<^verbatim>\<open>src/telnet.c\<close>): the byte-wise parser \<open>telnet_feed\<close> with its state record and buffers, the
    option replies, window size and terminal type. No input leaves the buffers; the
    result does not depend on how the stream is cut into reads; on well-formed streams the parser refines an
    event semantics.

  \<^item> \<open>Acs\<close> (\<^verbatim>\<open>src/acs.c\<close>, \<^verbatim>\<open>include/bbs_flags.h\<close>): the recursive-descent evaluator of access strings with every
    test and the simplified check used by the tools. The evaluator computes the meaning of the written
    expression with the precedence \<open>! > & > |\<close> and returns on every string; the simplified check agrees with it
    on conjunctions, and on every other expression of the same tests it is shown which of the tests it looks at. The call depth is a fuel argument; three calls
    for each character and three more are always enough.

  \<^item> \<open>Plank_Cbor\<close> (\<^verbatim>\<open>src/plank/plank_cbor.c\<close>): encoder, canonical map builder, decoder, skipping, map lookup
    and validation. Encoding is exact and canonical, decoding is its inverse, no decoder
    operation depends on a byte outside its buffer on any input, and one input is shown on which validation never returns.

  \<^item> \<open>Plank_Core\<close> (\<^verbatim>\<open>src/plank/plank_crypto.c\<close>, \<^verbatim>\<open>plank_core.c\<close>): the wrappers around OpenSSL, which is a record of functions
    with its documented behaviour as named hypotheses; hexadecimal text, addresses, objects and message bodies with
    their copies. \<open>Plank_Object\<close> (\<^verbatim>\<open>plank_object.c\<close>): encoding, identifying, signing, verifying and decoding of
    objects, with a theory of maps with known keys behind it; an object survives its envelope, and what is signed determines
    it. \<open>Plank_Message\<close>: the bodies of messages, what of them arrives and two kinds of text that do not.
    \<open>Plank_Policy\<close> (\<^verbatim>\<open>plank_policy.c\<close>): the checks of a received object, with the theorem that follows a message
    from its author to the receiver. Envelopes are bounded by 4096 bytes; the nesting depth for skipping is an argument,
    and three frames are enough for a message.

  \<^item> \<open>Bucc_Value\<close> and \<open>Bucc_Heap\<close> (\<^verbatim>\<open>src/buccaneer/value.c\<close>): the values of the language on a
    reference-counted heap, and the soundness of that counting: no operation touches freed
    memory, releasing terminates, arrays refine lists and maps refine finite maps.

  \<^item> \<open>Bucc_Module\<close> (\<^verbatim>\<open>src/buccaneer/module.c\<close>): the image of a compiled module, its loader, writer, and verifier.
    A saved module loads back; every file that cuts the count of a section or a procedure record short
    makes the loader read past its end.

  \<^item> \<open>Bucc_Vm\<close> (\<^verbatim>\<open>src/buccaneer/vm.c\<close>): the machine, one definition per instruction, the step function and the
    run loop (a partial function: \<^term>\<open>None\<close> is a run that does not end). \<open>Bucc_Invariant\<close> states
    as locales what an invariant has to survive to hold through every instruction; \<open>Bucc_Machine\<close> interprets
    them on the bounds of the machine's arrays and its instruction counter, proves that runs end within the
    instruction limit, and gives the effect of arithmetic, exceptions, calls and returns.

  \<^item> \<open>Bucc_Emit\<close> (\<^verbatim>\<open>src/buccaneer/emit.c\<close>, the scopes of \<^verbatim>\<open>semantic.c\<close>): syntax trees and the code generator,
    one equation per node kind. \<open>Bucc_Layout\<close> shows that compiled code consists of whole instructions whose jumps
    lead to instructions, and compares the verifier of the module loader with the operand sizes of the machine; \<open>Bucc_Control\<close> interprets the locales of \<open>Bucc_Invariant\<close> once more, on the alignment
    of the instruction pointer, and concludes that a run of a compiled module never executes an operand.

  \<^item> \<open>Bucc_Source\<close> is a semantics of the Buccaneer language on syntax trees: values of scalar expressions, and a big-step
    relation for assignments, conditionals and loops over global variables. \<open>Bucc_Link\<close> follows labels and
    patches to the final code, \<open>Bucc_Simulation\<close> runs compiled expressions on the machine, and \<open>Bucc_Correct\<close>
    proves the compiler correct for that language: the machine computes what the source semantics says.

  \<^item> \<open>Bucc_Lexer\<close> (\<^verbatim>\<open>src/buccaneer/lexer.c\<close>, the reporting of \<^verbatim>\<open>diag.c\<close>) and \<open>Bucc_Parser\<close> (\<^verbatim>\<open>src/buccaneer/parser.c\<close>): the
    front end of the compiler, from bytes to the syntax trees of \<open>Bucc_Emit\<close>. The loops over tokens are total functions; the
    recursive functions have fuel, one for each call and each round of a loop. \<open>Bucc_Tokens\<close> shows that the lexer reads back written words and loses nothing of
    the source; \<open>Bucc_Grammar\<close> that every writable expression is read back with its precedence, that no assignment is ever
    parsed, and that a stray keyword makes the parser run for ever.

  \<^bold>\<open>Interfaces.\<close> Each locale is interpreted on the definitions of the model, in the theory that provides them: the telnet
  parser is a \<open>safe_machine\<close> and a \<open>step_refinement\<close>, the integer codecs of CBOR are \<open>prefix_codec\<close>s, the
  virtual machine is a \<open>counted_machine\<close>, and its two invariants are \<open>vm_reading\<close> interpretations; the three kinds of
  PLANK address are \<open>address_codec\<close>s (\<open>Plank_Core\<close>).

  \<^bold>\<open>Not modelled.\<close> The database layer (\<^verbatim>\<open>src/db.c\<close>) and what is written around it (sessions, messages, files, doors,
  chat, the PLANK links, bundles, store and routing) is SQL text, terminal dialogue and system calls; its behaviour is that of
  SQLite, the file system and the terminal. Concurrency of sessions is by locks around shared tables. The host functions of
  Buccaneer are a parameter of the machine. Printing and freeing functions are left out.
\<close>

end
